(* ===== verification/HyvPrelude.thy ===== *)
theory HyvPrelude
  imports Main "HOL-Library.Word"
begin

text \<open>
  Shared vocabulary of the development: the fixed-width C integer types, the outcome type of code
  that may not return normally, the macros of \<^verbatim>\<open>include/hyvstdlib.h\<close> and \<^verbatim>\<open>include/types.h\<close>,
  the address arithmetic of \<^verbatim>\<open>arch/x64/include/asm/paging.h\<close>, and generic lemmas on words and
  lists that several components use.
\<close>

unbundle bit_operations_syntax

named_theorems run_simps \<open>unfolding of the outcome combinators\<close>
named_theorems addr_simps \<open>address and page-frame arithmetic\<close>

section \<open>Types\<close>

type_synonym u8 = "8 word"
type_synonym u16 = "16 word"
type_synonym u32 = "32 word"
type_synonym u64 = "64 word"

type_synonym phys_addr = u64
type_synonym virt_addr = u64
type_synonym gpaddr = u64

text \<open>
  Ways in which a call does not return normally: \<open>Die\<close> is \<^verbatim>\<open>die()\<close>, \<^verbatim>\<open>die_reason\<close> or
  \<^verbatim>\<open>NOT_YET_IMPLEMENTED\<close> (all of them halt the processor), \<open>OutOfBounds\<close> an access outside the
  object a pointer refers to, \<open>NullDeref\<close> an access through a null pointer, \<open>Spins\<close> a loop that
  never ends, \<open>Undefined\<close> an operation without a meaning in C, such as a shift by the width of its operand,
  \<open>Fault\<close> an exception of the processor in the hypervisor, which has no handler for it.
\<close>

datatype stop = Die | OutOfBounds | NullDeref | Spins | Undefined | Fault

type_synonym 'a run = "stop + 'a"

definition andThen :: "'a run \<Rightarrow> ('a \<Rightarrow> 'b run) \<Rightarrow> 'b run" where
  "andThen m f = (case m of Inl e \<Rightarrow> Inl e | Inr x \<Rightarrow> f x)"

lemma andThen_Inr [simp, run_simps]: "andThen (Inr x) f = f x"
  by (simp add: andThen_def)

lemma andThen_Inl [simp, run_simps]: "andThen (Inl e) f = Inl e"
  by (simp add: andThen_def)

lemma andThen_eq_Inr [run_simps]:
  "andThen m f = Inr y \<longleftrightarrow> (\<exists>x. m = Inr x \<and> f x = Inr y)"
  by (cases m) (simp_all add: andThen_def)

lemma andThen_eq_Inl:
  "andThen m f = Inl e \<longleftrightarrow> m = Inl e \<or> (\<exists>x. m = Inr x \<and> f x = Inl e)"
  by (cases m) (simp_all add: andThen_def)

lemma andThen_InrE:
  assumes "andThen m f = Inr y"
  obtains x where "m = Inr x" and "f x = Inr y"
  using assms by (auto simp: andThen_eq_Inr)

lemma andThen_cong [fundef_cong]:
  "m = m' \<Longrightarrow> (\<And>x. m' = Inr x \<Longrightarrow> f x = g x) \<Longrightarrow> andThen m f = andThen m' g"
  by (cases m') (simp_all add: andThen_def)

lemma andThen_split:
  "P (andThen m f) \<longleftrightarrow> (\<forall>e. m = Inl e \<longrightarrow> P (Inl e)) \<and> (\<forall>x. m = Inr x \<longrightarrow> P (f x))"
  by (cases m) (simp_all add: andThen_def)

text \<open>Reading and writing an array element; outside the array the access is a fault.\<close>

definition at :: "'a list \<Rightarrow> nat \<Rightarrow> 'a run" where
  "at xs i = (if i < length xs then Inr (xs ! i) else Inl OutOfBounds)"

definition put :: "'a list \<Rightarrow> nat \<Rightarrow> 'a \<Rightarrow> 'a list run" where
  "put xs i v = (if i < length xs then Inr (xs[i := v]) else Inl OutOfBounds)"

lemma at_eq_Inr [run_simps]: "at xs i = Inr x \<longleftrightarrow> i < length xs \<and> x = xs ! i"
  by (auto simp: at_def)

lemma at_in [simp]: "i < length xs \<Longrightarrow> at xs i = Inr (xs ! i)"
  by (simp add: at_def)

lemma put_eq_Inr [run_simps]: "put xs i v = Inr ys \<longleftrightarrow> i < length xs \<and> ys = xs[i := v]"
  by (auto simp: put_def)

lemma put_in [simp]: "i < length xs \<Longrightarrow> put xs i v = Inr (xs[i := v])"
  by (simp add: put_def)

section \<open>Macros of hyvstdlib.h and types.h\<close>

definition MAX_c :: "'a::linorder \<Rightarrow> 'a \<Rightarrow> 'a" where
  "MAX_c x y = (if x < y then y else x)"

definition MIN_c :: "'a::linorder \<Rightarrow> 'a \<Rightarrow> 'a" where
  "MIN_c x y = (if x < y then x else y)"

definition ROUND_UP :: "u64 \<Rightarrow> u64 \<Rightarrow> u64" where
  "ROUND_UP x y = (x + (y - 1)) div y"

definition IS_POWER_OF_TWO :: "'a::len word \<Rightarrow> bool" where
  "IS_POWER_OF_TWO x \<longleftrightarrow> (x AND (x - 1)) = 0"

definition IS_SET :: "'a::len word \<Rightarrow> 'a word \<Rightarrow> bool" where
  "IS_SET val msk \<longleftrightarrow> (val AND msk) \<noteq> 0"

definition IS_CLEAR :: "'a::len word \<Rightarrow> 'a word \<Rightarrow> bool" where
  "IS_CLEAR val msk \<longleftrightarrow> (val AND msk) = 0"

definition U8_LSHIFT :: "u8 \<Rightarrow> nat \<Rightarrow> u8" where
  "U8_LSHIFT val shift = push_bit shift val"

definition U8_RSHIFT :: "u8 \<Rightarrow> nat \<Rightarrow> u8" where
  "U8_RSHIFT val shift = drop_bit shift val"

definition U64_LSHIFT :: "u64 \<Rightarrow> nat \<Rightarrow> u64" where
  "U64_LSHIFT val shift = push_bit shift val"

definition U64_RSHIFT :: "u64 \<Rightarrow> nat \<Rightarrow> u64" where
  "U64_RSHIFT val shift = drop_bit shift val"

definition U64_UPPER32 :: "u64 \<Rightarrow> u32" where
  "U64_UPPER32 val = ucast (drop_bit 32 val)"

definition U64_LOWER32 :: "u64 \<Rightarrow> u32" where
  "U64_LOWER32 val = ucast (drop_bit 32 (push_bit 32 val))"

definition U32_UPPER16 :: "u32 \<Rightarrow> u16" where
  "U32_UPPER16 val = ucast (drop_bit 16 val)"

definition U32_LOWER16 :: "u32 \<Rightarrow> u16" where
  "U32_LOWER16 val = ucast (drop_bit 16 (push_bit 16 val))"

definition U16_LOWER8 :: "u16 \<Rightarrow> u16" where
  "U16_LOWER8 val = val AND (push_bit 8 1 - 1)"

definition U16_UPPER8 :: "u16 \<Rightarrow> u16" where
  "U16_UPPER8 val = drop_bit 8 val"

definition U64_MAX :: u64 where
  "U64_MAX = NOT 0"

section \<open>Addresses and page frames (asm/paging.h)\<close>

definition PAGE_SIZE :: u64 where
  "PAGE_SIZE = 4096"

definition PAGE_SHIFT :: nat where
  "PAGE_SHIFT = 12"

definition HYPERVISOR_DIRECT_MAPPING_START :: u64 where
  "HYPERVISOR_DIRECT_MAPPING_START = 0xFFFF800000000000"

definition HYPERVISOR_DIRECT_MAPPING_END :: u64 where
  "HYPERVISOR_DIRECT_MAPPING_END = 0xFFFFF80000000000 - 1"

definition HYPERVISOR_DIRECT_MAPPING_OFFSET :: u64 where
  "HYPERVISOR_DIRECT_MAPPING_OFFSET = 0xFFFF800000000000"

definition PAGE_ALIGN :: "u64 \<Rightarrow> u64" where
  "PAGE_ALIGN addr = push_bit PAGE_SHIFT (drop_bit PAGE_SHIFT addr)"

definition phys_to_virt_off :: "phys_addr \<Rightarrow> u64 \<Rightarrow> virt_addr" where
  "phys_to_virt_off addr offset = addr + offset"

definition phys_to_virt :: "phys_addr \<Rightarrow> virt_addr" where
  "phys_to_virt addr = phys_to_virt_off addr HYPERVISOR_DIRECT_MAPPING_OFFSET"

definition virt_to_phys_off :: "virt_addr \<Rightarrow> u64 \<Rightarrow> phys_addr" where
  "virt_to_phys_off addr offset = addr - offset"

definition virt_to_phys :: "virt_addr \<Rightarrow> phys_addr" where
  "virt_to_phys addr = virt_to_phys_off addr HYPERVISOR_DIRECT_MAPPING_OFFSET"

definition phys_to_pfn :: "phys_addr \<Rightarrow> u64" where
  "phys_to_pfn paddr = U64_RSHIFT paddr PAGE_SHIFT"

definition pfn_to_phys :: "u64 \<Rightarrow> phys_addr" where
  "pfn_to_phys pfn = U64_LSHIFT pfn PAGE_SHIFT"

text \<open>The \<^verbatim>\<open>int\<close> alignment is converted to \<^verbatim>\<open>uint64_t\<close> by sign extension.\<close>

definition is_aligned :: "u64 \<Rightarrow> u32 \<Rightarrow> bool" where
  "is_aligned val alignment \<longleftrightarrow> (val AND scast (alignment - 1)) = 0"

definition align_down :: "u64 \<Rightarrow> nat \<Rightarrow> u64" where
  "align_down val alignment = push_bit alignment (drop_bit alignment val)"

definition align_forward :: "u64 \<Rightarrow> u32 \<Rightarrow> u64" where
  "align_forward val alignment =
     (let m = (ucast (val mod scast alignment) :: u32)
      in if m = 0 then val else val + scast (alignment - m))"

definition is_paging_canonical :: "u64 \<Rightarrow> bool" where
  "is_paging_canonical vaddr =
     (let untranslated_bits = drop_bit 47 vaddr
      in untranslated_bits = 0 \<or> untranslated_bits = push_bit 17 1 - 1)"

definition bytes_to_nr_pages :: "u64 \<Rightarrow> u64" where
  "bytes_to_nr_pages bytes = drop_bit PAGE_SHIFT (bytes + (PAGE_SIZE - 1))"

section \<open>Generic lemmas\<close>

lemma unat_drop_bit [addr_simps]: "unat (drop_bit n (w :: 'a::len word)) = unat w div 2 ^ n"
  by (subst unat_drop_bit_eq) (rule drop_bit_eq_div)

lemma unat_push_bit_small [addr_simps]:
  fixes w :: "'a::len word"
  assumes "unat w * 2 ^ n < 2 ^ LENGTH('a)"
  shows "unat (push_bit n w) = unat w * 2 ^ n"
proof -
  have "push_bit n w = of_nat (unat w * 2 ^ n)"
    by (simp add: push_bit_eq_mult)
  then show ?thesis
    using assms by (simp only: unat_of_nat) simp
qed

lemma unat_add_small:
  fixes a b :: "'a::len word"
  assumes "unat a + unat b < 2 ^ LENGTH('a)"
  shows "unat (a + b) = unat a + unat b"
  using assms by (simp add: unat_word_ariths)

lemma unat_sub_small:
  fixes a b :: "'a::len word"
  assumes "b \<le> a"
  shows "unat (a - b) = unat a - unat b"
  using assms by (simp add: unat_sub)

lemma unat_of_nat_small:
  assumes "n < 2 ^ LENGTH('a)"
  shows "unat (of_nat n :: 'a::len word) = n"
  using assms by (simp add: unat_of_nat)

lemma word_of_nat_inj:
  assumes "i < 2 ^ LENGTH('a)" "j < 2 ^ LENGTH('a)"
  shows "(of_nat i :: 'a::len word) = of_nat j \<longleftrightarrow> i = j"
  using assms by (metis unat_of_nat_small)

text \<open>The first iteration of a loop over \<open>i, ..., i + k\<close>.\<close>

lemma ex_loop_Suc:
  "(\<exists>j. i \<le> j \<and> j < i + Suc k \<and> P j) \<longleftrightarrow> P i \<or> (\<exists>j. Suc i \<le> j \<and> j < Suc i + k \<and> P j)"
proof
  assume "\<exists>j. i \<le> j \<and> j < i + Suc k \<and> P j"
  then obtain j where "i \<le> j" "j < i + Suc k" "P j" by blast
  then show "P i \<or> (\<exists>j. Suc i \<le> j \<and> j < Suc i + k \<and> P j)"
    by (cases "j = i") auto
next
  assume "P i \<or> (\<exists>j. Suc i \<le> j \<and> j < Suc i + k \<and> P j)"
  then show "\<exists>j. i \<le> j \<and> j < i + Suc k \<and> P j"
    by (auto intro: Suc_leD)
qed

lemma all_loop_Suc:
  "(\<forall>j. i \<le> j \<and> j < i + Suc k \<longrightarrow> P j) \<longleftrightarrow> P i \<and> (\<forall>j. Suc i \<le> j \<and> j < Suc i + k \<longrightarrow> P j)"
  using ex_loop_Suc[of i k "\<lambda>j. \<not> P j"] by blast

lemma unat_less_size: "unat (w :: 'a::len word) < 2 ^ LENGTH('a)"
  by (rule unsigned_less)

lemma virt_phys_inverse [simp]:
  "virt_to_phys (phys_to_virt a) = a" "phys_to_virt (virt_to_phys v) = v"
  by (simp_all add: virt_to_phys_def phys_to_virt_def phys_to_virt_off_def virt_to_phys_off_def)

lemma MAX_c_max: "MAX_c x y = max x y"
  by (simp add: MAX_c_def max_def less_le)

lemma MIN_c_min: "MIN_c x y = min x y"
  by (auto simp: MIN_c_def min_def)

end
