(* ===== verification/Str_Lib.thy ===== *)
theory Str_Lib
  imports HyvPrelude
begin

text \<open>
  The memory and string routines of \<^verbatim>\<open>string.c\<close>. Byte buffers live in a flat memory
  \<open>u64 \<Rightarrow> u8\<close>, so that overlapping source and destination ranges behave as in the code. C strings
  are read from the object they are stored in (a \<open>char list\<close> that ends where the object ends):
  a read past its end is \<open>OutOfBounds\<close>. \<open>cstring s\<close> is the object holding the text \<open>s\<close> and its
  terminator.
\<close>

type_synonym mem = "u64 \<Rightarrow> u8"

abbreviation NUL :: char where
  "NUL \<equiv> CHR 0x00"

section \<open>memset, memcpy, memmove, memcmp\<close>

text \<open>\<open>memset_loop m p c i k\<close> performs the iterations \<open>i, ..., i + k - 1\<close> of the loop.\<close>

primrec memset_loop :: "mem \<Rightarrow> u64 \<Rightarrow> u8 \<Rightarrow> nat \<Rightarrow> nat \<Rightarrow> mem" where
  "memset_loop m p c i 0 = m"
| "memset_loop m p c i (Suc k) = memset_loop (m(p + of_nat i := c)) p c (Suc i) k"

definition memset :: "mem \<Rightarrow> u64 \<Rightarrow> u32 \<Rightarrow> nat \<Rightarrow> mem" where
  "memset m dst c len = memset_loop m dst (ucast c) 0 len"

primrec copy_up :: "mem \<Rightarrow> u64 \<Rightarrow> u64 \<Rightarrow> nat \<Rightarrow> nat \<Rightarrow> mem" where
  "copy_up m dst src i 0 = m"
| "copy_up m dst src i (Suc k) =
     copy_up (m(dst + of_nat i := m (src + of_nat i))) dst src (Suc i) k"

definition memcpy :: "mem \<Rightarrow> u64 \<Rightarrow> u64 \<Rightarrow> nat \<Rightarrow> mem" where
  "memcpy m dst src len = copy_up m dst src 0 len"

primrec copy_down :: "mem \<Rightarrow> u64 \<Rightarrow> u64 \<Rightarrow> nat \<Rightarrow> mem" where
  "copy_down m dst src 0 = m"
| "copy_down m dst src (Suc i) =
     copy_down (m(dst + of_nat i := m (src + of_nat i))) dst src i"

definition memmove :: "mem \<Rightarrow> u64 \<Rightarrow> u64 \<Rightarrow> nat \<Rightarrow> mem" where
  "memmove m dst src len =
     (if src > dst then copy_up m dst src 0 len
      else if src < dst then copy_down m dst src len
      else m)"

primrec memcmp_loop :: "mem \<Rightarrow> u64 \<Rightarrow> u64 \<Rightarrow> nat \<Rightarrow> nat \<Rightarrow> int" where
  "memcmp_loop m p1 p2 i 0 = 0"
| "memcmp_loop m p1 p2 i (Suc k) =
     (if m (p1 + of_nat i) \<noteq> m (p2 + of_nat i)
      then (if m (p1 + of_nat i) < m (p2 + of_nat i) then -1 else 1)
      else memcmp_loop m p1 p2 (Suc i) k)"

definition memcmp :: "mem \<Rightarrow> u64 \<Rightarrow> u64 \<Rightarrow> nat \<Rightarrow> int" where
  "memcmp m s1 s2 len = memcmp_loop m s1 s2 0 len"

section \<open>strlen, strcmp, strncmp, strdup\<close>

definition cstring :: "string \<Rightarrow> string" where
  "cstring s = s @ [NUL]"

text \<open>A text that a C string can hold.\<close>

definition nul_free :: "string \<Rightarrow> bool" where
  "nul_free s \<longleftrightarrow> NUL \<notin> set s"

primrec strlen_loop :: "string \<Rightarrow> nat \<Rightarrow> nat run" where
  "strlen_loop [] counter = Inl OutOfBounds"
| "strlen_loop (c # s) counter = (if c \<noteq> NUL then strlen_loop s (Suc counter) else Inr counter)"

definition strlen :: "string \<Rightarrow> nat run" where
  "strlen s = strlen_loop s 0"

fun strcmp :: "string \<Rightarrow> string \<Rightarrow> int run" where
  "strcmp (c1 # s1) (c2 # s2) =
     (if c1 \<noteq> c2 then Inr 1 else if c1 = NUL then Inr 0 else strcmp s1 s2)"
| "strcmp _ _ = Inl OutOfBounds"

fun strncmp :: "string \<Rightarrow> string \<Rightarrow> nat \<Rightarrow> int run" where
  "strncmp s1 s2 0 = Inr 0"
| "strncmp (c1 # s1) (c2 # s2) (Suc n) =
     (if c1 \<noteq> c2 then Inr 1 else if c1 = NUL then Inr 0 else strncmp s1 s2 n)"
| "strncmp _ _ (Suc n) = Inl OutOfBounds"

text \<open>
  \<^verbatim>\<open>strdup_nt\<close> and \<^verbatim>\<open>strndup_nt\<close> return \<^verbatim>\<open>NULL\<close> (here \<open>None\<close>) when the heap has no memory;
  the flag \<open>ok\<close> is the outcome of the call of \<^verbatim>\<open>hmalloc\<close>.
\<close>

definition strdup_nt :: "bool \<Rightarrow> string \<Rightarrow> string option run" where
  "strdup_nt ok s =
     andThen (strlen s) (\<lambda>n. let len = n + 1 in if \<not> ok then Inr None else Inr (Some (take len s)))"

definition strndup_nt :: "bool \<Rightarrow> string \<Rightarrow> nat \<Rightarrow> string option run" where
  "strndup_nt ok s len =
     andThen (strlen s) (\<lambda>src_len.
       let dest_len = MIN_c src_len len
       in if \<not> ok then Inr None else Inr (Some (take dest_len s @ [NUL])))"

section \<open>strtoul\<close>

definition is_digit :: "char \<Rightarrow> bool" where
  "is_digit c \<longleftrightarrow> of_char c \<ge> (48 :: nat) \<and> of_char c \<le> (57 :: nat)"

definition digit_val :: "char \<Rightarrow> nat" where
  "digit_val c = of_char c - 48"

text \<open>The parse result: the value, the index \<open>endptr - str\<close> and the overflow flag.\<close>

record strtoul_res =
  ul_value :: u64
  ul_end :: nat
  ul_overflow :: bool

primrec strtoul_digits :: "string \<Rightarrow> nat \<Rightarrow> u64 \<Rightarrow> strtoul_res run" where
  "strtoul_digits [] index res = Inl OutOfBounds"
| "strtoul_digits (c # s) index res =
     (if c \<noteq> NUL \<and> is_digit c then
        (let digit = (of_nat (digit_val c) :: u64) in
         if (U64_MAX - digit) div 10 < res
         then Inr \<lparr>ul_value = U64_MAX, ul_end = index, ul_overflow = True\<rparr>
         else strtoul_digits s (Suc index) (res * 10 + digit))
      else Inr \<lparr>ul_value = res, ul_end = index, ul_overflow = False\<rparr>)"

primrec strtoul_prefix :: "string \<Rightarrow> nat \<Rightarrow> strtoul_res run" where
  "strtoul_prefix [] index = Inl OutOfBounds"
| "strtoul_prefix (c # s) index =
     (if c = NUL then strtoul_digits (c # s) index 0
      else if c = CHR ''-'' then Inr \<lparr>ul_value = 0, ul_end = index, ul_overflow = False\<rparr>
      else if c = CHR ''+'' then
        andThen (at s 0) (\<lambda>c'.
          if \<not> is_digit c' then Inr \<lparr>ul_value = 0, ul_end = 0, ul_overflow = False\<rparr>
          else strtoul_digits s (Suc index) 0)
      else if is_digit c then strtoul_digits (c # s) index 0
      else if c = CHR '' '' then strtoul_prefix s (Suc index)
      else Inr \<lparr>ul_value = 0, ul_end = 0, ul_overflow = False\<rparr>)"

definition strtoul :: "string \<Rightarrow> strtoul_res run" where
  "strtoul str = strtoul_prefix str 0"

text \<open>The number a text of decimal digits denotes.\<close>

definition dec_value :: "string \<Rightarrow> nat" where
  "dec_value ds = foldl (\<lambda>a c. a * 10 + digit_val c) 0 ds"

section \<open>Properties of the memory routines\<close>

text \<open>The bytes of a range that does not wrap around the end of the address space.\<close>

definition fits :: "u64 \<Rightarrow> nat \<Rightarrow> bool" where
  "fits a n \<longleftrightarrow> unat a + n \<le> 2 ^ 64"

lemma fits_offset_eq:
  assumes "fits a n" "i < n" "j < n"
  shows "a + of_nat i = a + of_nat j \<longleftrightarrow> i = j"
  using assms by (simp add: fits_def word_of_nat_inj)

lemma unat_offset: "fits a n \<Longrightarrow> i < n \<Longrightarrow> unat (a + of_nat i) = unat a + i"
  by (subst unat_add_small) (auto simp: fits_def unat_of_nat_small)

lemma memset_loop_apply:
  "memset_loop m p c i k a = (if \<exists>j. i \<le> j \<and> j < i + k \<and> a = p + of_nat j then c else m a)"
proof (induction k arbitrary: i m)
  case (Suc k)
  show ?case by (auto simp: Suc.IH ex_loop_Suc simp del: add_Suc_right)
qed auto

text \<open>
  A range is disjoint from another when no byte address belongs to both.
\<close>

definition range_of :: "u64 \<Rightarrow> nat \<Rightarrow> u64 set" where
  "range_of a n = {a + of_nat i | i. i < n}"

lemma memset_apply:
  "memset m dst c len a = (if a \<in> range_of dst len then ucast c else m a)"
  by (auto simp: memset_def memset_loop_apply range_of_def)

text \<open>Copying upwards is right when no write hits a byte that is still to be read.\<close>

lemma copy_up_apply:
  assumes "fits dst (i + k)" "fits src (i + k)"
    and "\<And>p q. i \<le> p \<Longrightarrow> p < q \<Longrightarrow> q < i + k \<Longrightarrow> dst + of_nat p \<noteq> src + of_nat q"
  shows "copy_up m dst src i k a =
    (if \<exists>j. i \<le> j \<and> j < i + k \<and> a = dst + of_nat j then m (src + (a - dst)) else m a)"
  using assms
proof (induction k arbitrary: i m)
  case (Suc k)
  let ?m = "m(dst + of_nat i := m (src + of_nat i))"
  have IH: "copy_up ?m dst src (Suc i) k a =
      (if \<exists>j. Suc i \<le> j \<and> j < Suc i + k \<and> a = dst + of_nat j
       then ?m (src + (a - dst)) else ?m a)"
    using Suc.prems by (intro Suc.IH) auto
  show ?case
  proof (cases "\<exists>j. Suc i \<le> j \<and> j < Suc i + k \<and> a = dst + of_nat j")
    case True
    then obtain j where j: "Suc i \<le> j" "j < Suc i + k" "a = dst + of_nat j" by blast
    have "src + (a - dst) \<noteq> dst + of_nat i"
      using j Suc.prems(3)[of i j] by auto
    then have "copy_up m dst src i (Suc k) a = m (src + (a - dst))"
      using IH[unfolded if_P[OF True]] by simp
    then show ?thesis
      using True by (auto simp: ex_loop_Suc simp del: add_Suc_right)
  next
    case False
    then have "copy_up m dst src i (Suc k) a = ?m a"
      using IH[unfolded if_not_P[OF False]] by simp
    then show ?thesis
      using False by (auto simp: ex_loop_Suc simp del: add_Suc_right)
  qed
qed auto

lemma copy_down_apply:
  assumes "fits dst k" "fits src k"
    and "\<And>p q. p < q \<Longrightarrow> q < k \<Longrightarrow> dst + of_nat q \<noteq> src + of_nat p"
  shows "copy_down m dst src k a =
    (if \<exists>j<k. a = dst + of_nat j then m (src + (a - dst)) else m a)"
  using assms
proof (induction k arbitrary: m)
  case (Suc k)
  let ?m = "m(dst + of_nat k := m (src + of_nat k))"
  have IH: "copy_down ?m dst src k a =
      (if \<exists>j<k. a = dst + of_nat j then ?m (src + (a - dst)) else ?m a)"
    using Suc.prems by (intro Suc.IH) (auto simp: fits_def)
  show ?case
  proof (cases "\<exists>j<k. a = dst + of_nat j")
    case True
    then obtain j where j: "j < k" "a = dst + of_nat j" by blast
    have "src + (a - dst) \<noteq> dst + of_nat k"
      using j Suc.prems(3)[of j k] by auto
    then show ?thesis
      using IH True by (auto simp: less_Suc_eq)
  next
    case False
    then show ?thesis
      using IH by (auto simp: less_Suc_eq)
  qed
qed simp

text \<open>The bytes of the destination range after a correct copy.\<close>

definition copied :: "mem \<Rightarrow> u64 \<Rightarrow> u64 \<Rightarrow> nat \<Rightarrow> mem" where
  "copied m dst src len a = (if a \<in> range_of dst len then m (src + (a - dst)) else m a)"

lemma unat_ge_offset: "fits a n \<Longrightarrow> i < n \<Longrightarrow> unat a \<le> unat (a + of_nat i)"
  by (simp add: unat_offset)

lemma ex_range_of: "(\<exists>j. 0 \<le> j \<and> j < 0 + n \<and> a = p + of_nat j) \<longleftrightarrow> a \<in> range_of p n"
  by (auto simp: range_of_def)

lemma ex_range_of': "(\<exists>j<n. a = p + of_nat j) \<longleftrightarrow> a \<in> range_of p n"
  by (auto simp: range_of_def)

text \<open>
  C25. \<^verbatim>\<open>memmove\<close> copies correctly for overlapping ranges too: whenever neither range wraps around
  the address space, every destination byte afterwards is the source byte from before the call and
  every other byte of memory is unchanged.
\<close>

theorem memmove_correct:
  assumes "fits dst len" "fits src len"
  shows "memmove m dst src len = copied m dst src len"
proof (rule ext)
  fix a
  consider "dst < src" | "src < dst" | "src = dst" by fastforce
  then show "memmove m dst src len a = copied m dst src len a"
  proof cases
    case 1
    have "dst + of_nat p \<noteq> src + of_nat q" if "p < q" "q < len" for p q
      using 1 that assms by (auto simp: word_less_nat_alt dest!: arg_cong[where f = unat]
          simp: unat_offset[OF assms(1)] unat_offset[OF assms(2)])
    then show ?thesis
      using 1 assms unfolding memmove_def copied_def
      by (simp add: copy_up_apply[where i = 0, simplified] ex_range_of')
  next
    case 2
    have "dst + of_nat q \<noteq> src + of_nat p" if "p < q" "q < len" for p q
      using 2 that assms by (auto simp: word_less_nat_alt dest!: arg_cong[where f = unat]
          simp: unat_offset[OF assms(1)] unat_offset[OF assms(2)])
    moreover have "\<not> dst < src" using 2 by simp
    ultimately show ?thesis
      using 2 assms unfolding memmove_def copied_def
      by (simp add: copy_down_apply ex_range_of')
  next
    case 3
    then show ?thesis by (simp add: memmove_def copied_def)
  qed
qed

theorem memmove_correct_witness:
  "memmove ((\<lambda>_. 0)(10 := 1, 11 := 2, 12 := 3)) 11 10 3 13 = 3"
proof -
  have "fits 11 3" "fits 10 3" by (simp_all add: fits_def)
  moreover have "(13 :: u64) \<in> range_of 11 3"
    by (auto simp: range_of_def intro!: exI[of _ 2])
  ultimately show ?thesis
    using memmove_correct[of 11 3 10 "(\<lambda>_. 0)(10 := 1, 11 := 2, 12 := 3)"]
    by (simp add: copied_def)
qed

lemma memcpy_correct:
  assumes "fits dst len" "fits src len" "range_of dst len \<inter> range_of src len = {}"
  shows "memcpy m dst src len = copied m dst src len"
proof (rule ext)
  fix a
  have "dst + of_nat p \<noteq> src + of_nat q" if "p < q" "q < len" for p q
  proof -
    have "dst + of_nat p \<in> range_of dst len" "src + of_nat q \<in> range_of src len"
      using that unfolding range_of_def by auto
    then show ?thesis using assms(3) by auto
  qed
  then show "memcpy m dst src len a = copied m dst src len a"
    using assms unfolding memcpy_def copied_def
    by (simp add: copy_up_apply[where i = 0, simplified] ex_range_of')
qed

lemma memcmp_loop_zero:
  "memcmp_loop m p1 p2 i k = 0 \<longleftrightarrow>
     (\<forall>j. i \<le> j \<and> j < i + k \<longrightarrow> m (p1 + of_nat j) = m (p2 + of_nat j))"
proof (induction k arbitrary: i)
  case (Suc k)
  show ?case
    unfolding all_loop_Suc memcmp_loop.simps Suc.IH[symmetric] by simp
qed auto

lemma memcmp_zero_iff: "memcmp m p1 p2 len = 0 \<longleftrightarrow> (\<forall>j<len. m (p1 + of_nat j) = m (p2 + of_nat j))"
  by (simp add: memcmp_def memcmp_loop_zero)

section \<open>Properties of the string routines\<close>

lemma strlen_loop_text: "nul_free s \<Longrightarrow> strlen_loop (s @ NUL # r) n = Inr (n + length s)"
  by (induction s arbitrary: n) (auto simp: nul_free_def)

lemma strlen_text [simp]: "nul_free s \<Longrightarrow> strlen (s @ NUL # r) = Inr (length s)"
  by (simp add: strlen_def strlen_loop_text)

lemma strlen_cstring [simp]: "nul_free s \<Longrightarrow> strlen (cstring s) = Inr (length s)"
  by (simp add: cstring_def)

lemma strcmp_text:
  "nul_free a \<Longrightarrow> nul_free b \<Longrightarrow> strcmp (a @ NUL # r) (b @ NUL # r') = Inr (if a = b then 0 else 1)"
proof (induction a arbitrary: b)
  case Nil
  then show ?case by (cases b) (auto simp: nul_free_def)
next
  case (Cons c a)
  then show ?case by (cases b) (auto simp: nul_free_def)
qed

lemma strcmp_cstring [simp]:
  "nul_free a \<Longrightarrow> nul_free b \<Longrightarrow> strcmp (cstring a) (cstring b) = Inr (if a = b then 0 else 1)"
  by (simp add: cstring_def strcmp_text)

lemma strncmp_same_length:
  assumes "nul_free a" "length a \<le> length b"
  shows "strncmp (a @ r) b (length a) = Inr (if take (length a) b = a then 0 else 1)"
  using assms
proof (induction a arbitrary: b)
  case (Cons c a)
  then show ?case by (cases b) (auto simp: nul_free_def)
qed simp

lemma strdup_text: "nul_free s \<Longrightarrow> strdup_nt True (s @ NUL # r) = Inr (Some (cstring s))"
  by (simp add: strdup_nt_def cstring_def)

lemma strndup_text:
  "nul_free s \<Longrightarrow> strndup_nt True (s @ NUL # r) n = Inr (Some (cstring (take n s)))"
  by (auto simp: strndup_nt_def cstring_def MIN_c_min Let_def min_def)

section \<open>Properties of strtoul\<close>

lemma is_digit_val: "is_digit c \<Longrightarrow> digit_val c \<le> 9"
  by (auto simp: is_digit_def digit_val_def)

lemma digits_nul_free: "list_all is_digit ds \<Longrightarrow> nul_free ds"
  by (auto simp: nul_free_def list_all_iff is_digit_def)

lemma foldl_dec_ge: "a \<le> foldl (\<lambda>a c. a * 10 + digit_val c) a ds"
proof (induction ds arbitrary: a)
  case (Cons c ds)
  have "a \<le> a * 10 + digit_val c" by simp
  also have "\<dots> \<le> foldl (\<lambda>a c. a * 10 + digit_val c) (a * 10 + digit_val c) ds" by (rule Cons.IH)
  finally show ?case by simp
qed simp

lemma overflow_guard:
  fixes res :: u64
  assumes "d \<le> 9"
  shows "(U64_MAX - of_nat d) div 10 < res \<longleftrightarrow> 2 ^ 64 \<le> unat res * 10 + d"
proof -
  have "U64_MAX - of_nat d = of_nat (2 ^ 64 - 1 - d)"
    using assms by (simp add: U64_MAX_def of_nat_diff)
  then have "unat (U64_MAX - of_nat d) = 2 ^ 64 - 1 - d"
    by (simp only:) (rule unat_of_nat_small, simp)
  then have "unat ((U64_MAX - of_nat d) div 10) = (2 ^ 64 - 1 - d) div 10"
    by (simp add: unat_div)
  then show ?thesis
    unfolding word_less_nat_alt using assms by (simp add: div_less_iff_less_mult) arith
qed

lemma strtoul_digits_step:
  assumes "is_digit c" "c \<noteq> NUL" "unat res * 10 + digit_val c < 2 ^ 64"
  shows "strtoul_digits (c # s) i res = strtoul_digits s (Suc i) (res * 10 + of_nat (digit_val c))"
    and "unat (res * 10 + of_nat (digit_val c)) = unat res * 10 + digit_val c"
proof -
  show "strtoul_digits (c # s) i res = strtoul_digits s (Suc i) (res * 10 + of_nat (digit_val c))"
    using assms overflow_guard[OF is_digit_val[OF assms(1)], of res] by simp
  have "res * 10 + of_nat (digit_val c) = (of_nat (unat res * 10 + digit_val c) :: u64)"
    by simp
  then show "unat (res * 10 + of_nat (digit_val c)) = unat res * 10 + digit_val c"
    using assms(3) by (simp only:) (rule unat_of_nat_small, simp)
qed

lemma strtoul_digits_spec:
  assumes "list_all is_digit ds" "\<not> is_digit e"
  shows "\<exists>r. strtoul_digits (ds @ e # rest) i res = Inr r
    \<and> ul_overflow r = (2 ^ 64 \<le> foldl (\<lambda>a c. a * 10 + digit_val c) (unat res) ds)
    \<and> (\<not> ul_overflow r \<longrightarrow> unat (ul_value r) = foldl (\<lambda>a c. a * 10 + digit_val c) (unat res) ds
         \<and> ul_end r = i + length ds)
    \<and> (ul_overflow r \<longrightarrow> ul_value r = U64_MAX)"
  using assms(1)
proof (induction ds arbitrary: i res)
  case Nil
  then show ?case using assms(2) unat_less_size[of res] by (simp add: not_le)
next
  case (Cons c ds)
  then have c: "is_digit c" "c \<noteq> NUL" by (auto simp: is_digit_def)
  show ?case
  proof (cases "unat res * 10 + digit_val c < 2 ^ 64")
    case True
    note st = strtoul_digits_step[OF c True]
    show ?thesis
      using Cons.IH[of "Suc i" "res * 10 + of_nat (digit_val c)"] Cons.prems
      unfolding append_Cons st(1) st(2) by simp
  next
    case False
    then have "(U64_MAX - of_nat (digit_val c)) div 10 < res"
      using overflow_guard[OF is_digit_val[OF c(1)], of res] by simp
    moreover have "2 ^ 64 \<le> foldl (\<lambda>a c. a * 10 + digit_val c) (unat res * 10 + digit_val c) ds"
      using False foldl_dec_ge[of "unat res * 10 + digit_val c" ds] by linarith
    ultimately show ?thesis using c by simp
  qed
qed

lemma strtoul_prefix_spaces:
  "strtoul_prefix (replicate n CHR '' '' @ s) i = strtoul_prefix s (i + n)"
  by (induction n arbitrary: i) (simp_all add: is_digit_def)

lemma strtoul_text:
  assumes "ds \<noteq> []" "list_all is_digit ds" "\<not> is_digit e"
  shows "\<exists>r. strtoul (replicate n CHR '' '' @ ds @ e # rest) = Inr r
    \<and> ul_overflow r = (2 ^ 64 \<le> dec_value ds)
    \<and> (\<not> ul_overflow r \<longrightarrow> unat (ul_value r) = dec_value ds \<and> ul_end r = n + length ds)
    \<and> (ul_overflow r \<longrightarrow> ul_value r = U64_MAX)"
proof -
  obtain c cs where ds: "ds = c # cs" using assms(1) by (cases ds) auto
  have c: "is_digit c" "c \<noteq> NUL" "c \<noteq> CHR ''-''" "c \<noteq> CHR ''+''"
    using assms(2) ds by (auto simp: is_digit_def)
  have "strtoul (replicate n CHR '' '' @ ds @ e # rest) = strtoul_digits (ds @ e # rest) n 0"
    using c unfolding strtoul_def strtoul_prefix_spaces ds by simp
  then show ?thesis
    using strtoul_digits_spec[OF assms(2,3), of rest n 0] by (simp add: dec_value_def)
qed

text \<open>
  C26. \<^verbatim>\<open>strtoul\<close> reads a decimal number exactly: for a text of at least one decimal digit, after any
  number of blanks and before a character that is no digit, the call returns; it reports overflow
  exactly when the number does not fit 64 bits (and then returns \<^verbatim>\<open>U64_MAX\<close>), and otherwise returns
  the number with \<^verbatim>\<open>endptr\<close> at the first character after it.
\<close>

theorem strtoul_correct:
  assumes "ds \<noteq> []" "list_all is_digit ds" "\<not> is_digit e"
  shows "\<exists>r. strtoul (replicate n CHR '' '' @ ds @ e # rest) = Inr r
    \<and> ul_overflow r = (2 ^ 64 \<le> dec_value ds)
    \<and> (\<not> ul_overflow r \<longrightarrow> unat (ul_value r) = dec_value ds \<and> ul_end r = n + length ds)
    \<and> (ul_overflow r \<longrightarrow> ul_value r = U64_MAX)"
  by (rule strtoul_text[OF assms])

theorem strtoul_correct_witness:
  "\<exists>r. strtoul (cstring '' 2048'') = Inr r \<and> unat (ul_value r) = 2048 \<and> ul_end r = 5"
  using strtoul_correct[of "''2048''" NUL 1 "[]"]
  by (auto simp: is_digit_def cstring_def dec_value_def digit_val_def)

end
