(* ===== verification/Printf.thy ===== *)
theory Printf
  imports Str_Lib
begin

text \<open>
  \<^verbatim>\<open>printf.c\<close>: the two number conversions and the format loop of \<^verbatim>\<open>__printf\<close>. Characters handed to
  the console driver are the output of the model; the console itself and the print lock are not
  state of the model. Reading an argument that was not passed, or one of another type than the
  directive expects, is \<open>OutOfBounds\<close>.
\<close>

section \<open>Number conversion\<close>

text \<open>The digits in the order the first loop stores them, least significant first.\<close>

function dec_digits :: "u64 \<Rightarrow> string" where
  "dec_digits num =
     (if num > 0 then char_of (unat (num mod 10) + 48) # dec_digits (num div 10) else [])"
  by pat_completeness auto
termination
proof (relation "measure unat")
  fix num :: u64
  assume "num > 0"
  then have "unat num div 10 < unat num"
    by (simp add: word_less_nat_alt)
  then show "(num div 10, num) \<in> measure unat"
    by (simp add: unat_div)
qed simp

declare dec_digits.simps [simp del]

text \<open>The in-place reversal: iterations \<open>i, ..., i + k - 1\<close> of the swap loop.\<close>

primrec swap_loop :: "'a list \<Rightarrow> nat \<Rightarrow> nat \<Rightarrow> 'a list" where
  "swap_loop buf i 0 = buf"
| "swap_loop buf i (Suc k) =
     (let n = length buf; temp = buf ! (n - i - 1)
      in swap_loop (buf[n - i - 1 := buf ! i, i := temp]) (Suc i) k)"

definition u64_to_dec_string :: "u64 \<Rightarrow> string" where
  "u64_to_dec_string num =
     (if num = 0 then [CHR ''0'', NUL]
      else (let buf = dec_digits num in swap_loop buf 0 (length buf div 2) @ [NUL]))"

function hex_digits :: "u64 \<Rightarrow> string" where
  "hex_digits num =
     (if (NOT 0) AND num \<noteq> 0 then
        (let val = unat (num AND 15)
         in (if val \<le> 9 then char_of (val + 48) else char_of (val - 10 + 65))
              # hex_digits (drop_bit 4 num))
      else [])"
  by pat_completeness auto
termination
proof (relation "measure unat")
  fix num :: u64 and x
  assume "NOT 0 AND num \<noteq> 0"
  then have "unat num div 16 < unat num"
    by (simp add: unat_gt_0)
  then show "(drop_bit 4 num, num) \<in> measure unat"
    by (simp add: unat_drop_bit)
qed simp

declare hex_digits.simps [simp del]

definition u64_to_hex_string :: "u64 \<Rightarrow> string" where
  "u64_to_hex_string num =
     (if num = 0 then [CHR ''0'', NUL]
      else (let buf = hex_digits num in swap_loop buf 0 (length buf div 2) @ [NUL]))"

section \<open>The format loop\<close>

datatype parg = PStr "string option" | PNum u64

text \<open>What \<^verbatim>\<open>uart16550_puts\<close> sends for a C string.\<close>

primrec puts_text :: "string \<Rightarrow> string run" where
  "puts_text [] = Inl OutOfBounds"
| "puts_text (c # s) = (if c \<noteq> NUL then andThen (puts_text s) (\<lambda>t. Inr (c # t)) else Inr [])"

definition puts :: "string option \<Rightarrow> string run" where
  "puts s = (case s of None \<Rightarrow> Inr [] | Some s \<Rightarrow> puts_text s)"

definition num_arg :: "parg list \<Rightarrow> (u64 \<times> parg list) run" where
  "num_arg args = (case args of PNum n # rest \<Rightarrow> Inr (n, rest) | _ \<Rightarrow> Inl OutOfBounds)"

definition str_arg :: "parg list \<Rightarrow> (string option \<times> parg list) run" where
  "str_arg args = (case args of PStr s # rest \<Rightarrow> Inr (s, rest) | _ \<Rightarrow> Inl OutOfBounds)"

definition emit :: "string run \<Rightarrow> string run \<Rightarrow> string run" where
  "emit out rest = andThen out (\<lambda>a. andThen rest (\<lambda>b. Inr (a @ b)))"

function (sequential) printf_loop :: "string \<Rightarrow> parg list \<Rightarrow> string run" where
  "printf_loop [] args = Inl OutOfBounds"
| "printf_loop (c # r) args =
     (if c = NUL then Inr []
      else if c \<noteq> CHR ''%'' then emit (Inr [c]) (printf_loop r args)
      else case r of
        [] \<Rightarrow> Inl OutOfBounds
      | d # r2 \<Rightarrow>
          if d = CHR ''%'' then printf_loop r args
          else if d = CHR ''s'' then
            (case str_arg args of Inl e \<Rightarrow> Inl e | Inr (s, args') \<Rightarrow> emit (puts s) (printf_loop r2 args'))
          else if d = CHR ''l'' then
            (case r2 of
               [] \<Rightarrow> Inl OutOfBounds
             | e # r3 \<Rightarrow>
                 if e = CHR ''u'' then
                   (case num_arg args of Inl e \<Rightarrow> Inl e
                    | Inr (n, args') \<Rightarrow> emit (puts_text (u64_to_dec_string n)) (printf_loop r3 args'))
                 else if e = CHR ''x'' then
                   (case num_arg args of Inl e \<Rightarrow> Inl e
                    | Inr (n, args') \<Rightarrow> emit (puts_text (u64_to_hex_string n)) (printf_loop r3 args'))
                 else if e = CHR ''b'' then printf_loop r3 args
                 else emit (Inr [c]) (printf_loop r args))
          else emit (Inr [c]) (printf_loop r args))"
  by pat_completeness auto
termination
  by (relation "measure (\<lambda>(s, _). length s)") auto

text \<open>\<^verbatim>\<open>__printf\<close>: nothing is printed, and -1 returned, before the console is initialized.\<close>

definition hyv_printf :: "bool \<Rightarrow> string \<Rightarrow> parg list \<Rightarrow> (int \<times> string) run" where
  "hyv_printf initialized fmt args =
     (if \<not> initialized then Inr (-1, [])
      else andThen (printf_loop fmt args) (\<lambda>out. Inr (0, out)))"

section \<open>Properties\<close>

lemma length_swap_loop [simp]: "length (swap_loop buf i k) = length buf"
  by (induction k arbitrary: buf i) (simp_all add: Let_def)

lemma swap_loop_nth:
  assumes "i + k = length buf div 2" "j < length buf"
  shows "swap_loop buf i k ! j =
    (if i \<le> j \<and> j < length buf - i then buf ! (length buf - 1 - j) else buf ! j)"
  using assms
proof (induction k arbitrary: buf i)
  case 0
  then have "length buf - 1 - j = j" if "i \<le> j" "j < length buf - i" using that by arith
  then show ?case by simp
next
  case (Suc k)
  let ?n = "length buf"
  let ?buf = "buf[?n - i - 1 := buf ! i, i := buf ! (?n - i - 1)]"
  have "swap_loop buf i (Suc k) ! j =
      (if Suc i \<le> j \<and> j < ?n - Suc i then ?buf ! (?n - 1 - j) else ?buf ! j)"
    using Suc.IH[of "Suc i" ?buf] Suc.prems by (simp add: Let_def)
  moreover have "i < ?n - i - 1" using Suc.prems by arith
  ultimately show ?case
    using Suc.prems by (auto simp: nth_list_update)
qed

lemma swap_loop_rev: "swap_loop buf 0 (length buf div 2) = rev buf"
  by (rule nth_equalityI) (simp_all add: swap_loop_nth rev_nth)

lemma dec_string_alt:
  "u64_to_dec_string num = (if num = 0 then ''0'' else rev (dec_digits num)) @ [NUL]"
  by (simp add: u64_to_dec_string_def swap_loop_rev Let_def)

lemma hex_string_alt:
  "u64_to_hex_string num = (if num = 0 then ''0'' else rev (hex_digits num)) @ [NUL]"
  by (simp add: u64_to_hex_string_def swap_loop_rev Let_def)

lemma digit_char:
  assumes "k \<le> 9"
  shows "is_digit (char_of (k + 48))" "digit_val (char_of (k + 48)) = k"
  using assms by (simp_all add: is_digit_def digit_val_def)

lemma unat_mod_ten: "unat ((num :: u64) mod 10) = unat num mod 10"
  by (simp add: unat_mod)

lemma dec_digits_props:
  "list_all is_digit (dec_digits num) \<and> dec_value (rev (dec_digits num)) = unat num
   \<and> (num > 0 \<longrightarrow> dec_digits num \<noteq> [])"
proof (induction num rule: dec_digits.induct)
  case (1 num)
  show ?case
  proof (cases "num > 0")
    case True
    have "unat num mod 10 \<le> 9" by simp
    note d = digit_char[OF this]
    have "unat num div 10 * 10 + unat num mod 10 = unat num" by simp
    then show ?thesis
      using "1.IH"[OF True] True d
      by (subst dec_digits.simps[of num], subst dec_digits.simps[of num])
        (simp add: dec_digits.simps[of num] dec_value_def unat_mod_ten unat_div)
  next
    case False
    then show ?thesis by (simp add: dec_digits.simps dec_value_def word_gt_0)
  qed
qed

lemma length_dec_digits: "unat num < 10 ^ k \<Longrightarrow> length (dec_digits num) \<le> k"
proof (induction k arbitrary: num)
  case 0
  then show ?case by (simp add: dec_digits.simps unat_eq_0)
next
  case (Suc k)
  then have "unat (num div 10) < 10 ^ k" by (simp add: unat_div less_mult_imp_div_less mult.commute)
  then show ?case using Suc.IH[of "num div 10"] by (subst dec_digits.simps) simp
qed

lemma length_hex_digits: "unat num < 16 ^ k \<Longrightarrow> length (hex_digits num) \<le> k"
proof (induction k arbitrary: num)
  case 0
  then show ?case by (simp add: hex_digits.simps unat_eq_0)
next
  case (Suc k)
  then have "unat (drop_bit 4 num) < 16 ^ k"
    by (simp add: unat_drop_bit less_mult_imp_div_less mult.commute)
  then show ?case using Suc.IH[of "drop_bit 4 num"] by (subst hex_digits.simps) (simp add: Let_def)
qed

text \<open>
  C27. Printing a 64-bit number in decimal and parsing it back returns the number: for every value,
  \<^verbatim>\<open>strtoul\<close> applied to the buffer that \<^verbatim>\<open>u64_to_dec_string\<close> filled reports no overflow, yields the
  value and stops at the terminator.
\<close>

theorem dec_string_roundtrip:
  "strtoul (u64_to_dec_string num @ rest) =
     Inr \<lparr>ul_value = num, ul_end = length (u64_to_dec_string num) - 1, ul_overflow = False\<rparr>"
proof -
  define ds where "ds = (if num = 0 then ''0'' else rev (dec_digits num))"
  have ds: "ds \<noteq> []" "list_all is_digit ds" "dec_value ds = unat num"
    using dec_digits_props[of num]
    by (auto simp: ds_def is_digit_def dec_value_def digit_val_def list_all_rev word_gt_0)
  obtain r where r: "strtoul (replicate 0 CHR '' '' @ ds @ NUL # rest) = Inr r"
    "ul_overflow r = (2 ^ 64 \<le> dec_value ds)"
    "\<not> ul_overflow r \<longrightarrow> unat (ul_value r) = dec_value ds \<and> ul_end r = 0 + length ds"
    using strtoul_text[OF ds(1,2), of NUL 0 rest] by (auto simp: is_digit_def)
  have "\<not> ul_overflow r" using r(2) ds(3) unat_less_size[of num] by simp
  then have "r = \<lparr>ul_value = num, ul_end = length ds, ul_overflow = False\<rparr>"
    using r(3) ds(3) by (cases r) (simp add: word_unat_eq_iff)
  then show ?thesis
    using r(1) by (simp add: dec_string_alt flip: ds_def)
qed

text \<open>
  The conversions never overrun the 512 byte buffer of \<^verbatim>\<open>__printf\<close>: with the terminator, at most
  21 bytes are written for a decimal and at most 17 for a hexadecimal number.
\<close>

lemma conversion_buffer_bounds:
  "length (u64_to_dec_string num) \<le> 21 \<and> length (u64_to_hex_string num) \<le> 17"
proof -
  have "unat num < 10 ^ 20" "unat num < 16 ^ 16"
    using unat_less_size[of num] by simp_all
  then show ?thesis
    using length_dec_digits[of num 20] length_hex_digits[of num 16]
    by (auto simp: dec_string_alt hex_string_alt)
qed

lemma puts_text_cstring [simp]: "nul_free s \<Longrightarrow> puts_text (s @ NUL # r) = Inr s"
  by (induction s) (auto simp: nul_free_def)

lemma printf_literal:
  assumes "nul_free s" "CHR ''%'' \<notin> set s"
  shows "printf_loop (s @ r) args = emit (Inr s) (printf_loop r args)"
  using assms
proof (induction s)
  case Nil
  show ?case by (cases "printf_loop r args") (simp_all add: emit_def)
next
  case (Cons c s)
  then show ?case by (cases "printf_loop r args") (auto simp: emit_def nul_free_def)
qed

text \<open>
  A line of literal text with one \<^verbatim>\<open>%lu\<close> directive prints the text with the decimal digits of the
  argument in its place, and reading these digits back gives the argument: the reported number is
  the number passed.
\<close>

lemma printf_lu_correct:
  assumes "nul_free a" "CHR ''%'' \<notin> set a" "nul_free b" "CHR ''%'' \<notin> set b"
  shows "\<exists>ds. hyv_printf True (a @ ''%lu'' @ cstring b) [PNum n] = Inr (0, a @ ds @ b)
     \<and> list_all is_digit ds \<and> dec_value ds = unat n"
proof -
  define ds where "ds = (if n = 0 then ''0'' else rev (dec_digits n))"
  have ds: "list_all is_digit ds" "dec_value ds = unat n"
    using dec_digits_props[of n]
    by (auto simp: ds_def is_digit_def dec_value_def digit_val_def list_all_rev)
  have "u64_to_dec_string n = ds @ NUL # []" by (simp add: dec_string_alt ds_def)
  then have p: "puts_text (u64_to_dec_string n) = Inr ds"
    using puts_text_cstring[OF digits_nul_free[OF ds(1)], of "[]"] by simp
  have t: "printf_loop (cstring b) [] = Inr b"
    unfolding cstring_def by (subst printf_literal[OF assms(3,4)]) (simp add: emit_def)
  have "printf_loop (''%lu'' @ cstring b) [PNum n] = Inr (ds @ b)"
    using p t by (simp add: num_arg_def emit_def)
  then have "printf_loop (a @ ''%lu'' @ cstring b) [PNum n] = Inr (a @ ds @ b)"
    using printf_literal[OF assms(1,2)] by (simp add: emit_def)
  then show ?thesis using ds by (auto simp: hyv_printf_def)
qed

lemma printf_lu_correct_witness:
  "\<exists>ds. hyv_printf True (''n='' @ ''%lu'' @ cstring ''!'') [PNum 7] = Inr (0, ''n='' @ ds @ ''!'')
     \<and> list_all is_digit ds \<and> dec_value ds = unat (7 :: u64)"
  by (rule printf_lu_correct) (simp_all add: nul_free_def)

text \<open>
  \<^verbatim>\<open>%%\<close> is not an escape: the loop only skips the first of the two characters and then reads
  the second one as the start of a new directive, so \<^verbatim>\<open>%%s\<close> consumes a string argument (and faults
  when there is none) where the documentation promises a printed percent sign.
\<close>

lemma printf_percent_not_escaped:
  "printf_loop (CHR ''%'' # CHR ''%'' # r) args = printf_loop (CHR ''%'' # r) args
   \<and> hyv_printf True (cstring ''%%s'') [] = Inl OutOfBounds"
proof
  show "printf_loop (CHR ''%'' # CHR ''%'' # r) args = printf_loop (CHR ''%'' # r) args"
    by (subst printf_loop.simps(2)) simp
  show "hyv_printf True (cstring ''%%s'') [] = Inl OutOfBounds"
    by (simp add: hyv_printf_def cstring_def str_arg_def)
qed

end
