(* ===== verification/Radix_Tree.thy ===== *)
theory Radix_Tree
  imports HyvPrelude
begin

text \<open>
  The radix tree of \<^verbatim>\<open>lib/radix-tree.c\<close>, which holds the supported configuration keys. Nodes own their
  children exclusively, so a tree is a value; the 256 entry child array is a function on characters
  and a null pointer is \<open>None\<close>. C strings are represented by their text (\<open>key[0] == 0\<close> is
  \<open>key = []\<close>, \<^verbatim>\<open>strlen\<close> is the length). Whether the successive calls of \<^verbatim>\<open>hmalloc\<close> succeed is read
  from a list of outcomes, all later calls succeed. The recursions are bounded by fuel; on
  well-formed trees each call consumes at least one character of the key, so that the fuel given is
  enough.
\<close>

section \<open>Nodes and operations\<close>

datatype radix_node =
  RNode (prefix_of: "string option") (children: "char \<Rightarrow> radix_node option")
        (data_of: u64) (terminating: bool)

definition set_child :: "radix_node \<Rightarrow> char \<Rightarrow> radix_node \<Rightarrow> radix_node" where
  "set_child n c ch = RNode (prefix_of n) ((children n)(c := Some ch)) (data_of n) (terminating n)"

definition set_prefix :: "radix_node \<Rightarrow> string option \<Rightarrow> radix_node" where
  "set_prefix n p = RNode p (children n) (data_of n) (terminating n)"

definition next_alloc :: "bool list \<Rightarrow> bool \<times> bool list" where
  "next_alloc os = (case os of [] \<Rightarrow> (True, []) | b # bs \<Rightarrow> (b, bs))"

definition allocate_radix_node :: "bool list \<Rightarrow> radix_node option \<times> bool list" where
  "allocate_radix_node os =
     (let (ok, os) = next_alloc os
      in (if ok then Some (RNode None (\<lambda>_. None) 0 False) else None, os))"

text \<open>\<^verbatim>\<open>create_radix_tree\<close>: the tree struct, then its root; \<open>None\<close> is a null result.\<close>

definition create_radix_tree :: "bool list \<Rightarrow> radix_node option \<times> bool list" where
  "create_radix_tree os =
     (let (ok, os) = next_alloc os in if \<not> ok then (None, os) else allocate_radix_node os)"

fun get_common_prefix_length :: "string \<Rightarrow> string \<Rightarrow> nat" where
  "get_common_prefix_length (a # p) (b # k) =
     (if a \<noteq> b then 0 else Suc (get_common_prefix_length p k))"
| "get_common_prefix_length _ _ = 0"

text \<open>\<^verbatim>\<open>__radix_tree_get\<close>: \<open>Inr (Some v)\<close> is \<open>true\<close> with \<open>*val = v\<close>, \<open>Inr None\<close> is \<open>false\<close>.\<close>

fun get_node :: "nat \<Rightarrow> radix_node \<Rightarrow> string \<Rightarrow> u64 option run" where
  "get_node 0 n key = Inl Spins"
| "get_node (Suc fuel) n key =
     (case key of
        [] \<Rightarrow> Inr (if terminating n then Some (data_of n) else None)
      | c # _ \<Rightarrow>
          (case children n c of
             None \<Rightarrow> Inr None
           | Some child \<Rightarrow>
               (case prefix_of child of
                  None \<Rightarrow> Inl NullDeref
                | Some cp \<Rightarrow>
                    (let common = get_common_prefix_length cp key
                     in if common < length cp then Inr None
                        else get_node fuel child (drop common key)))))"

definition radix_tree_get :: "radix_node \<Rightarrow> string \<Rightarrow> u64 option run" where
  "radix_tree_get root key = get_node (Suc (length key)) root key"

definition radix_tree_contains :: "radix_node \<Rightarrow> string \<Rightarrow> bool run" where
  "radix_tree_contains root key = andThen (radix_tree_get root key) (\<lambda>r. Inr (r \<noteq> None))"

text \<open>
  \<^verbatim>\<open>__radix_tree_add\<close> returns its success, the node as it was left, and the remaining allocation
  outcomes. A failed \<^verbatim>\<open>strdup_nt\<close> is not checked by the code: the prefix stays null.
\<close>

definition strdup_prefix :: "bool list \<Rightarrow> string \<Rightarrow> string option \<times> bool list" where
  "strdup_prefix os s = (let (ok, os) = next_alloc os in (if ok then Some s else None, os))"

fun add_node :: "nat \<Rightarrow> bool list \<Rightarrow> radix_node \<Rightarrow> string \<Rightarrow> u64 \<Rightarrow> (bool \<times> radix_node \<times> bool list) run"
where
  "add_node 0 os n key v = Inl Spins"
| "add_node (Suc fuel) os n key v =
     (case key of
        [] \<Rightarrow> Inr (True, RNode (prefix_of n) (children n) v True, os)
      | c # _ \<Rightarrow>
          (case children n c of
             None \<Rightarrow>
               (case allocate_radix_node os of
                  (None, os) \<Rightarrow> Inr (False, n, os)
                | (Some child, os) \<Rightarrow>
                    (case strdup_prefix os key of (p, os) \<Rightarrow>
                       andThen (add_node fuel os (set_prefix child p) [] v) (\<lambda>(ok, child, os).
                         Inr (ok, set_child n c child, os))))
           | Some child \<Rightarrow>
               (case prefix_of child of
                  None \<Rightarrow> Inl NullDeref
                | Some cp \<Rightarrow>
                    (let common = get_common_prefix_length cp key in
                     if common = length cp then
                       andThen (add_node fuel os child (drop common key) v) (\<lambda>(ok, child, os).
                         Inr (ok, set_child n c child, os))
                     else
                       (case allocate_radix_node os of
                          (None, os) \<Rightarrow> Inr (False, n, os)
                        | (Some insert_node, os) \<Rightarrow>
                            (case strdup_prefix os (take common cp) of (ip, os) \<Rightarrow>
                             case strdup_prefix os (drop common cp) of
                               (None, os) \<Rightarrow> Inl NullDeref
                             | (Some sp, os) \<Rightarrow>
                                 (let insert_node =
                                    set_child (set_prefix insert_node ip) (hd sp)
                                      (set_prefix child (Some sp))
                                  in andThen (add_node fuel os insert_node (drop common key) v)
                                       (\<lambda>(ok, insert_node, os).
                                          Inr (ok, set_child n c insert_node, os)))))))))"

definition radix_tree_add ::
  "bool list \<Rightarrow> radix_node \<Rightarrow> string \<Rightarrow> u64 \<Rightarrow> (bool \<times> radix_node \<times> bool list) run" where
  "radix_tree_add os root key v = add_node (length key + 2) os root key v"

section \<open>Well-formed trees\<close>

text \<open>Every child is stored under the first character of its (therefore non-empty) prefix.\<close>

inductive node_ok :: "radix_node \<Rightarrow> bool" where
  node_okI:
    "(\<And>c ch. children n c = Some ch \<Longrightarrow> (\<exists>p. prefix_of ch = Some (c # p)) \<and> node_ok ch) \<Longrightarrow> node_ok n"

inductive_cases node_okE: "node_ok n"

lemma node_okD: "node_ok n \<Longrightarrow> children n c = Some ch \<Longrightarrow> \<exists>p. prefix_of ch = Some (c # p)"
  by (erule node_okE) blast

lemma node_ok_child: "node_ok n \<Longrightarrow> children n c = Some ch \<Longrightarrow> node_ok ch"
  by (erule node_okE) blast

lemma node_ok_no_children: "children n = (\<lambda>_. None) \<Longrightarrow> node_ok n"
  by (rule node_okI) simp

lemma node_ok_set_prefix:
  assumes "node_ok n"
  shows "node_ok (set_prefix n p)"
  by (rule node_okI) (simp add: set_prefix_def node_okD[OF assms] node_ok_child[OF assms])

lemma node_ok_set_child:
  assumes "node_ok n" "node_ok ch" "prefix_of ch = Some (c # p)"
  shows "node_ok (set_child n c ch)"
proof (rule node_okI)
  fix c' ch'
  assume "children (set_child n c ch) c' = Some ch'"
  then show "(\<exists>p. prefix_of ch' = Some (c' # p)) \<and> node_ok ch'"
    using assms(2,3) node_okD[OF assms(1), of c' ch'] node_ok_child[OF assms(1), of c' ch']
    by (auto simp: set_child_def split: if_splits)
qed

lemmas radix_upd_defs = set_child_def set_prefix_def

lemma common_le: "get_common_prefix_length p k \<le> length p" "get_common_prefix_length p k \<le> length k"
  by (induction p k rule: get_common_prefix_length.induct) auto

lemma common_take: "take (get_common_prefix_length p k) p = take (get_common_prefix_length p k) k"
  by (induction p k rule: get_common_prefix_length.induct) auto

lemma common_differs:
  "get_common_prefix_length p k < length p \<Longrightarrow> get_common_prefix_length p k < length k \<Longrightarrow>
   p ! get_common_prefix_length p k \<noteq> k ! get_common_prefix_length p k"
  by (induction p k rule: get_common_prefix_length.induct) (auto split: if_splits)

lemma common_full: "get_common_prefix_length p (p @ k) = length p"
  by (induction p) auto

lemma common_eq_length:
  "get_common_prefix_length p k = length p \<longleftrightarrow> take (length p) k = p"
  by (induction p k rule: get_common_prefix_length.induct) auto

section \<open>Lookup\<close>

text \<open>On well-formed trees the lookup has a result, which does not depend on the fuel.\<close>

lemma get_node_ok:
  assumes "node_ok n" "length key < fuel"
  shows "\<exists>r. get_node fuel n key = Inr r \<and> (\<forall>fuel' > length key. get_node fuel' n key = Inr r)"
  using assms
proof (induction fuel arbitrary: n key)
  case 0
  then show ?case by simp
next
  case (Suc fuel)
  show ?case
  proof (cases key)
    case Nil
    then show ?thesis by (auto simp: gr0_conv_Suc)
  next
    case (Cons c k)
    show ?thesis
    proof (cases "children n c")
      case None
      then show ?thesis using Cons by (auto simp: less_Suc_eq_0_disj dest!: less_imp_Suc_add)
    next
      case (Some ch)
      then obtain p where p: "prefix_of ch = Some (c # p)" using Suc.prems(1) by (blast dest: node_okD)
      let ?m = "get_common_prefix_length (c # p) key"
      have "0 < ?m" using Cons by simp
      then have "length (drop ?m key) < fuel" "length (drop ?m key) < length key"
        using Suc.prems(2) Cons by auto
      then obtain r where r: "\<forall>fuel' > length (drop ?m key). get_node fuel' ch (drop ?m key) = Inr r"
        "get_node fuel ch (drop ?m key) = Inr r"
        using Suc.IH[OF node_ok_child[OF Suc.prems(1) Some]] by blast
      have "get_node fuel' n key = Inr (if ?m < length (c # p) then None else r)"
        if "length key < fuel'" for fuel'
      proof -
        from \<open>length key < fuel'\<close> obtain f where f: "fuel' = Suc f" by (cases fuel') auto
        then have "length (drop ?m key) < f"
          using that \<open>length (drop ?m key) < length key\<close> by simp
        then show ?thesis using r(1) f Some p Cons by (simp add: Let_def)
      qed
      then show ?thesis using Suc.prems(2) by blast
    qed
  qed
qed

lemma radix_get_Inr: "node_ok n \<Longrightarrow> \<exists>r. radix_tree_get n key = Inr r"
  unfolding radix_tree_get_def using get_node_ok[of n key "Suc (length key)"] by blast

lemma get_node_radix_get:
  "node_ok n \<Longrightarrow> length key < fuel \<Longrightarrow> get_node fuel n key = radix_tree_get n key"
  unfolding radix_tree_get_def using get_node_ok[of n key "Suc (length key)"]
  by (metis lessI)

lemma radix_get_Nil [simp]:
  "radix_tree_get n [] = Inr (if terminating n then Some (data_of n) else None)"
  by (simp add: radix_tree_get_def)

lemma radix_get_no_child:
  "children n c = None \<Longrightarrow> radix_tree_get n (c # k) = Inr None"
  by (simp add: radix_tree_get_def)

lemma radix_get_child:
  assumes "node_ok n" "children n c = Some ch" "prefix_of ch = Some p"
  shows "radix_tree_get n (c # k) =
    (if take (length p) (c # k) = p then radix_tree_get ch (drop (length p) (c # k)) else Inr None)"
proof -
  obtain q where q: "p = c # q" using node_okD[OF assms(1,2)] assms(3) by auto
  let ?m = "get_common_prefix_length p (c # k)"
  have "radix_tree_get n (c # k) =
      (if ?m < length p then Inr None else get_node (Suc (length k)) ch (drop ?m (c # k)))"
    using assms(2,3) unfolding radix_tree_get_def
    by (subst get_node.simps(2)) (simp add: Let_def del: get_node.simps)
  moreover have "get_node (Suc (length k)) ch (drop ?m (c # k)) = radix_tree_get ch (drop ?m (c # k))"
    using q by (intro get_node_radix_get node_ok_child[OF assms(1,2)]) auto
  moreover have "\<not> ?m < length p \<longleftrightarrow> take (length p) (c # k) = p"
    using common_eq_length[of p "c # k"] common_le(1)[of p "c # k"] by linarith
  moreover have "take (length p) (c # k) = p \<Longrightarrow> ?m = length p"
    using common_eq_length[of p "c # k"] by simp
  ultimately show ?thesis by (auto simp del: get_node.simps)
qed

lemma radix_get_set_child_other:
  assumes "node_ok n" "node_ok ch" "prefix_of ch = Some (c # p)" "c' \<noteq> c"
  shows "radix_tree_get (set_child n c ch) (c' # k) = radix_tree_get n (c' # k)"
proof (cases "children n c'")
  case None
  then show ?thesis using assms(4) by (simp add: radix_get_no_child set_child_def)
next
  case (Some ch')
  then obtain q where q: "prefix_of ch' = Some (c' # q)" using node_okD[OF assms(1)] by blast
  have s: "children (set_child n c ch) c' = Some ch'" using assms(4) Some by (simp add: set_child_def)
  show ?thesis
    by (simp only: radix_get_child[OF node_ok_set_child[OF assms(1-3)] s q] radix_get_child[OF assms(1) Some q])
qed

lemma radix_get_set_child:
  assumes "node_ok n" "node_ok ch" "prefix_of ch = Some (c # p)"
  shows "radix_tree_get (set_child n c ch) (c # k) =
    (if take (length p) k = p then radix_tree_get ch (drop (length p) k) else Inr None)"
proof -
  have s: "children (set_child n c ch) c = Some ch" by (simp add: set_child_def)
  show ?thesis
    using radix_get_child[OF node_ok_set_child[OF assms] s assms(3), of k] by simp
qed

lemma node_ok_same_children: "node_ok n \<Longrightarrow> children n' = children n \<Longrightarrow> node_ok n'"
  by (rule node_okI) (simp add: node_okD node_ok_child)

lemma radix_get_same_children:
  assumes "node_ok n" "children n' = children n"
  shows "radix_tree_get n' (c # k) = radix_tree_get n (c # k)"
proof (cases "children n c")
  case None
  then show ?thesis using assms(2) by (simp add: radix_get_no_child)
next
  case (Some ch)
  then obtain q where q: "prefix_of ch = Some (c # q)" using node_okD[OF assms(1)] by blast
  have "children n' c = Some ch" using Some assms(2) by simp
  then show ?thesis
    using radix_get_child[OF node_ok_same_children[OF assms] _ q] radix_get_child[OF assms(1) Some q]
    by simp
qed

lemma radix_get_set_prefix: "node_ok n \<Longrightarrow> radix_tree_get (set_prefix n p) k = radix_tree_get n k"
  by (cases k) (simp_all add: set_prefix_def radix_get_same_children[of n "RNode p (children n) (data_of n) (terminating n)"])

section \<open>Insertion\<close>

abbreviation fresh_node :: radix_node where
  "fresh_node \<equiv> RNode None (\<lambda>_. None) 0 False"

lemma alloc_succeeds [simp]: "next_alloc [] = (True, [])" "allocate_radix_node [] = (Some fresh_node, [])"
  "strdup_prefix [] s = (Some s, [])"
  by (simp_all add: next_alloc_def allocate_radix_node_def strdup_prefix_def)

lemma fresh_ok: "node_ok (set_prefix fresh_node p)"
  by (rule node_ok_no_children) (simp add: set_prefix_def)

text \<open>The effect on lookups of the leaf that is added for a key.\<close>

lemma radix_get_leaf:
  "radix_tree_get (RNode p (\<lambda>_. None) v True) k = Inr (if k = [] then Some v else None)"
  by (cases k) (simp_all add: radix_get_no_child)

lemma add_leaf:
  fixes n :: radix_node and c :: char and p :: string and v :: u64
  assumes "node_ok n" "children n c = None"
  defines "n' \<equiv> set_child n c (RNode (Some (c # p)) (\<lambda>_. None) v True)"
  shows "node_ok n'" "radix_tree_get n' k = (if k = c # p then Inr (Some v) else radix_tree_get n k)"
proof -
  let ?leaf = "RNode (Some (c # p)) (\<lambda>_. None) v True"
  have leaf: "node_ok ?leaf" "prefix_of ?leaf = Some (c # p)" by (simp_all add: node_ok_no_children)
  show "node_ok n'" unfolding n'_def by (rule node_ok_set_child[OF assms(1) leaf])
  show "radix_tree_get n' k = (if k = c # p then Inr (Some v) else radix_tree_get n k)"
  proof (cases k)
    case Nil
    then show ?thesis by (simp add: n'_def set_child_def)
  next
    case (Cons d k')
    show ?thesis
    proof (cases "d = c")
      case True
      have "take (length p) k' = p \<and> drop (length p) k' = [] \<longleftrightarrow> k' = p"
        by (metis append_Nil2 append_take_drop_id drop_all order_refl take_all)
      then show ?thesis
        using Cons True radix_get_set_child[OF assms(1) leaf, of k'] radix_get_no_child[OF assms(2), of k']
        by (auto simp: n'_def radix_get_leaf)
    next
      case False
      then show ?thesis
        using Cons radix_get_set_child_other[OF assms(1) leaf False, of k'] by (simp add: n'_def)
    qed
  qed
qed

text \<open>Replacing a child changes exactly the lookups below it.\<close>

lemma replace_child:
  assumes "node_ok n" "children n c = Some ch" "prefix_of ch = Some (c # p)"
    and "node_ok ch'" "prefix_of ch' = Some (c # p')"
    and "\<And>k. (if take (length p') k = p' then radix_tree_get ch' (drop (length p') k) else Inr None) =
       (if k = key then Inr (Some v)
        else if take (length p) k = p then radix_tree_get ch (drop (length p) k) else Inr None)"
  shows "node_ok (set_child n c ch')"
    "radix_tree_get (set_child n c ch') k = (if k = c # key then Inr (Some v) else radix_tree_get n k)"
proof -
  show "node_ok (set_child n c ch')" by (rule node_ok_set_child[OF assms(1,4,5)])
  show "radix_tree_get (set_child n c ch') k = (if k = c # key then Inr (Some v) else radix_tree_get n k)"
  proof (cases k)
    case Nil
    then show ?thesis by (simp add: set_child_def)
  next
    case (Cons d k')
    then show ?thesis
      using radix_get_set_child[OF assms(1,4,5), of k'] radix_get_child[OF assms(1,2,3), of k']
        radix_get_set_child_other[OF assms(1,4,5), of d k'] assms(6)[of k']
      by (cases "d = c") auto
  qed
qed

text \<open>Splitting the prefix of a node keeps every lookup.\<close>

lemma split_node:
  fixes ch :: radix_node and p q :: string and s :: char
  assumes "node_ok ch"
  defines "ins \<equiv> set_child (set_prefix fresh_node (Some p)) s (set_prefix ch (Some (s # q)))"
  shows "node_ok ins" "prefix_of ins = Some p"
    "radix_tree_get ins k =
       (if take (length (s # q)) k = s # q then radix_tree_get ch (drop (length (s # q)) k) else Inr None)"
proof -
  have c: "node_ok (set_prefix ch (Some (s # q)))" "prefix_of (set_prefix ch (Some (s # q))) = Some (s # q)"
    by (simp_all add: node_ok_set_prefix assms(1)) (simp add: set_prefix_def)
  show "node_ok ins" unfolding ins_def by (rule node_ok_set_child[OF fresh_ok c])
  show "prefix_of ins = Some p" by (simp add: ins_def set_child_def set_prefix_def)
  show "radix_tree_get ins k =
       (if take (length (s # q)) k = s # q then radix_tree_get ch (drop (length (s # q)) k) else Inr None)"
  proof (cases k)
    case Nil
    then show ?thesis by (simp add: ins_def set_child_def set_prefix_def)
  next
    case (Cons d k')
    have "radix_tree_get (set_prefix fresh_node (Some p)) (d # k') = Inr None"
      by (rule radix_get_no_child) (simp add: set_prefix_def)
    then show ?thesis
      using Cons radix_get_set_child[OF fresh_ok c, of "Some p" k']
        radix_get_set_child_other[OF fresh_ok c, of d "Some p" k']
      by (cases "d = s") (auto simp: ins_def radix_get_set_prefix assms(1))
  qed
qed

lemma add_node_ok:
  assumes "node_ok n" "length key + 1 < fuel"
  shows "\<exists>n'. add_node fuel [] n key v = Inr (True, n', []) \<and> node_ok n' \<and> prefix_of n' = prefix_of n
     \<and> (\<forall>k. radix_tree_get n' k = (if k = key then Inr (Some v) else radix_tree_get n k))"
  using assms
proof (induction fuel arbitrary: n key)
  case 0
  then show ?case by simp
next
  case (Suc fuel)
  have fuel: "\<exists>f. fuel = Suc f" using Suc.prems(2) by (cases fuel) auto
  consider (Nil) "key = []"
    | (leaf) c p where "key = c # p" "children n c = None"
    | (child) c k ch p where "key = c # k" "children n c = Some ch" "prefix_of ch = Some (c # p)"
    using node_okD[OF Suc.prems(1)] by (cases key; fastforce)
  then show ?case
  proof cases
    case Nil
    let ?n = "RNode (prefix_of n) (children n) v True"
    have "radix_tree_get ?n k = (if k = key then Inr (Some v) else radix_tree_get n k)" for k
      using Nil by (cases k) (simp_all add: radix_get_same_children[OF Suc.prems(1), of ?n])
    moreover have "node_ok ?n" by (rule node_ok_same_children[OF Suc.prems(1)]) simp
    ultimately show ?thesis using Nil by simp
  next
    case leaf
    then show ?thesis
      using add_leaf[OF Suc.prems(1) leaf(2), of p v] fuel
      by (auto simp: set_prefix_def) (simp_all add: set_child_def)
  next
    case child
    let ?m = "get_common_prefix_length (c # p) key"
    let ?rest = "drop ?m key"
    have m: "0 < ?m" "?m \<le> length (c # p)" "?m \<le> length key"
      using child(1) common_le[of "c # p" key] by simp_all
    have len: "length ?rest + 1 < fuel" using m Suc.prems(2) by auto
    have ch: "node_ok ch" by (rule node_ok_child[OF Suc.prems(1) child(2)])
    show ?thesis
    proof (cases "?m = length (c # p)")
      case True
      obtain ch' where ch': "add_node fuel [] ch ?rest v = Inr (True, ch', [])" "node_ok ch'"
        "prefix_of ch' = Some (c # p)"
        "\<And>k. radix_tree_get ch' k = (if k = ?rest then Inr (Some v) else radix_tree_get ch k)"
        using Suc.IH[OF ch len] child(3) by auto
      have t: "take (length p) k = p" "?rest = drop (length p) k"
        using True common_eq_length[of "c # p" key] child(1) by simp_all
      have eq: "drop (length p) k' = ?rest \<longleftrightarrow> k' = k" if "take (length p) k' = p" for k'
        using that t by (metis append_take_drop_id)
      have "(if take (length p) k' = p then radix_tree_get ch' (drop (length p) k') else Inr None) =
         (if k' = k then Inr (Some v)
          else if take (length p) k' = p then radix_tree_get ch (drop (length p) k') else Inr None)" for k'
        using ch'(4) eq[of k'] t(1) by auto
      note R = replace_child[OF Suc.prems(1) child(2,3) ch'(2,3) this]
      have "add_node (Suc fuel) [] n key v = Inr (True, set_child n c ch', [])"
        using child True ch'(1) by (simp add: Let_def)
      then show ?thesis using R child(1) by (auto simp: set_child_def)
    next
      case False
      then have lt: "?m < length (c # p)" using m by simp
      obtain s q where sq: "drop ?m (c # p) = s # q"
        using lt by (cases "drop ?m (c # p)") auto
      obtain p' where p': "take ?m (c # p) = c # p'" using m(1) by (cases ?m) auto
      have cp: "c # p = (c # p') @ s # q" using p' sq by (metis append_take_drop_id)
      have tk: "take ?m key = c # p'" using common_take[of "c # p" key] p' by simp
      define ins where "ins = set_child (set_prefix fresh_node (Some (c # p'))) s (set_prefix ch (Some (s # q)))"
      note S = split_node[OF ch, of "c # p'" s q, folded ins_def]
      obtain ins' where ins': "add_node fuel [] ins ?rest v = Inr (True, ins', [])" "node_ok ins'"
        "prefix_of ins' = Some (c # p')"
        "\<And>k. radix_tree_get ins' k = (if k = ?rest then Inr (Some v) else radix_tree_get ins k)"
        using Suc.IH[OF S(1) len] S(2) by auto
      have key: "key = (c # p') @ ?rest" using tk by (metis append_take_drop_id)
      then have k: "k = p' @ ?rest" using child(1) by simp
      have "(if take (length p') k' = p' then radix_tree_get ins' (drop (length p') k') else Inr None) =
         (if k' = k then Inr (Some v)
          else if take (length p) k' = p then radix_tree_get ch (drop (length p) k') else Inr None)" for k'
      proof (cases "take (length p') k' = p'")
        case True
        then obtain r where r: "k' = p' @ r" by (metis append_take_drop_id)
        then show ?thesis using ins'(4)[of r] S(3)[of r] k cp by (simp add: drop_drop add.commute)
      next
        case False
        then have "take (length p) k' \<noteq> p"
          using cp by (metis append_eq_conv_conj list.inject append_Cons take_take min.cobounded1
              length_append le_add1 min.absorb1)
        then show ?thesis using False k by auto
      qed
      note R = replace_child[OF Suc.prems(1) child(2,3) ins'(2,3) this]
      have "add_node (Suc fuel) [] n key v = Inr (True, set_child n c ins', [])"
        using child False ins'(1) p' sq by (simp add: Let_def ins_def)
      then show ?thesis using R child(1) by (auto simp: set_child_def)
    qed
  qed
qed

section \<open>The interface: a map from strings to values\<close>

text \<open>
  The contract the configuration parser relies on: a store of string keys whose lookups are those of
  a map that each update extends by one binding.
\<close>

lemma distinct_map_of_rev: "distinct (map fst xs) \<Longrightarrow> map_of (rev xs) = map_of xs"
  using map_of_inject_set[of "rev xs" xs] by (simp add: rev_map[symmetric])

locale string_map =
  fixes empty_map :: 'm
    and update :: "string \<Rightarrow> 'v \<Rightarrow> 'm \<Rightarrow> 'm"
    and lookup :: "'m \<Rightarrow> string \<Rightarrow> 'v option"
    and invar :: "'m \<Rightarrow> bool"
  assumes invar_empty: "invar empty_map"
    and lookup_empty: "lookup empty_map k = None"
    and invar_update: "invar m \<Longrightarrow> invar (update k v m)"
    and lookup_update: "invar m \<Longrightarrow> lookup (update k v m) k' = (if k' = k then Some v else lookup m k')"
begin

definition of_list :: "(string \<times> 'v) list \<Rightarrow> 'm" where
  "of_list kvs = foldl (\<lambda>m (k, v). update k v m) empty_map kvs"

lemma foldl_update:
  "invar m \<Longrightarrow> invar (foldl (\<lambda>m (k, v). update k v m) m kvs)
   \<and> lookup (foldl (\<lambda>m (k, v). update k v m) m kvs) k =
       (case map_of (rev kvs) k of None \<Rightarrow> lookup m k | Some v \<Rightarrow> Some v)"
proof (induction kvs arbitrary: m)
  case (Cons kv kvs)
  then show ?case
    by (cases kv) (auto simp: invar_update lookup_update map_add_def split: option.splits)
qed simp

lemma lookup_of_list: "lookup (of_list kvs) k = map_of (rev kvs) k"
  using foldl_update[OF invar_empty, of kvs k]
  by (auto simp: of_list_def lookup_empty split: option.splits)

lemma lookup_of_distinct:
  "distinct (map fst kvs) \<Longrightarrow> lookup (of_list kvs) k = map_of kvs k"
  by (simp add: lookup_of_list distinct_map_of_rev)

end

definition radix_update :: "string \<Rightarrow> u64 \<Rightarrow> radix_node \<Rightarrow> radix_node" where
  "radix_update k v t = (case radix_tree_add [] t k v of Inr (_, t', _) \<Rightarrow> t' | Inl _ \<Rightarrow> t)"

definition radix_lookup :: "radix_node \<Rightarrow> string \<Rightarrow> u64 option" where
  "radix_lookup t k = (case radix_tree_get t k of Inr r \<Rightarrow> r | Inl _ \<Rightarrow> None)"

lemma radix_add_ok:
  assumes "node_ok t"
  shows "radix_tree_add [] t k v = Inr (True, radix_update k v t, [])" "node_ok (radix_update k v t)"
    "radix_tree_get (radix_update k v t) k' = (if k' = k then Inr (Some v) else radix_tree_get t k')"
proof -
  obtain t' where t: "radix_tree_add [] t k v = Inr (True, t', [])" "node_ok t'"
    "\<forall>k'. radix_tree_get t' k' = (if k' = k then Inr (Some v) else radix_tree_get t k')"
    unfolding radix_tree_add_def using add_node_ok[OF assms, of k "length k + 2" v] by auto
  then show "radix_tree_add [] t k v = Inr (True, radix_update k v t, [])" "node_ok (radix_update k v t)"
    "radix_tree_get (radix_update k v t) k' = (if k' = k then Inr (Some v) else radix_tree_get t k')"
    by (simp_all add: radix_update_def)
qed

lemma radix_get_lookup: "node_ok t \<Longrightarrow> radix_tree_get t k = Inr (radix_lookup t k)"
  using radix_get_Inr[of t k] by (auto simp: radix_lookup_def)

interpretation radix: string_map fresh_node radix_update radix_lookup node_ok
proof
  show "node_ok fresh_node" by (simp add: node_ok_no_children)
  show "radix_lookup fresh_node k = None" for k
    by (cases k) (simp_all add: radix_lookup_def radix_get_no_child)
  show "node_ok (radix_update k v m)" if "node_ok m" for k v m using radix_add_ok(2)[OF that] .
  show "radix_lookup (radix_update k v m) k' = (if k' = k then Some v else radix_lookup m k')"
    if "node_ok m" for k v m k' using radix_add_ok(3)[OF that, of k v k'] by (simp add: radix_lookup_def)
qed

text \<open>
  C16. Insertion into a well-formed tree with enough memory succeeds and terminates, keeps the tree
  well-formed, and afterwards every key, the inserted one and all others, is looked up as in the map
  updated by the new binding, whichever nodes had to be split.
\<close>

theorem radix_tree_add_get:
  assumes "node_ok t"
  shows "\<exists>t'. radix_tree_add [] t key v = Inr (True, t', []) \<and> node_ok t'
     \<and> (\<forall>k. radix_tree_get t' k = (if k = key then Inr (Some v) else radix_tree_get t k))"
  using radix_add_ok[OF assms] by blast

theorem radix_tree_add_get_witness:
  "\<exists>t t'. radix_tree_add [] fresh_node ''vm'' 1 = Inr (True, t, [])
     \<and> radix_tree_add [] t ''vcpus'' 2 = Inr (True, t', [])
     \<and> radix_tree_get t' ''vm'' = Inr (Some 1) \<and> radix_tree_get t' ''vcpus'' = Inr (Some 2)
     \<and> radix_tree_get t' ''v'' = Inr None"
proof -
  have ok: "node_ok fresh_node" by (simp add: node_ok_no_children)
  have none: "radix_tree_get fresh_node ''v'' = Inr None" by (simp add: radix_get_no_child)
  from radix_tree_add_get[OF ok, of "''vm''" 1] none
  obtain t where t: "radix_tree_add [] fresh_node ''vm'' 1 = Inr (True, t, [])" "node_ok t"
    "radix_tree_get t ''vm'' = Inr (Some 1)" "radix_tree_get t ''v'' = Inr None"
    by auto
  from radix_tree_add_get[OF t(2), of "''vcpus''" 2] t(3,4)
  obtain t' where "radix_tree_add [] t ''vcpus'' 2 = Inr (True, t', [])"
    "radix_tree_get t' ''vm'' = Inr (Some 1)" "radix_tree_get t' ''vcpus'' = Inr (Some 2)"
    "radix_tree_get t' ''v'' = Inr None"
    by auto
  then show ?thesis using t(1) by blast
qed

text \<open>
  The result of \<^verbatim>\<open>strdup_nt\<close> is not checked: when the node of a new key is allocated but the copy
  of its prefix is not, the insertion reports success and every later lookup of a key with the same
  first character dereferences the null prefix.
\<close>

lemma radix_unchecked_strdup:
  "\<exists>t. radix_tree_add [True, False] fresh_node (c # p) v = Inr (True, t, [])
     \<and> radix_tree_get t (c # k) = Inl NullDeref"
  by (simp add: radix_tree_add_def radix_tree_get_def allocate_radix_node_def strdup_prefix_def
      next_alloc_def set_prefix_def set_child_def run_simps)

end
