(* ===== verification/Mem_File.thy ===== *)
theory Mem_File
  imports Str_Lib
begin

text \<open>
  The in-memory file reader of \<^verbatim>\<open>lib/mem_file.c\<close>. A file is its text together with the read position;
  positions are natural numbers (a file is smaller than the address space). The text has exactly
  \<^verbatim>\<open>size\<close> bytes and reading behind it is \<open>OutOfBounds\<close>. The loops test \<^verbatim>\<open>file_oom(f)\<close>, that is
  \<^verbatim>\<open>f->pos\<close>, which they do not change, and step the local \<^verbatim>\<open>pos\<close>: the test is made once, and the loop
  then reads until a character ends it.
\<close>

section \<open>Files and the scanning loops\<close>

record mem_file_ops =
  is_whitespace :: "char \<Rightarrow> bool"
  is_delim :: "char \<Rightarrow> bool"
  is_valid_token_char :: "char \<Rightarrow> bool"

record mem_file =
  file_text :: string
  file_pos :: nat
  file_ops :: mem_file_ops

datatype seek_status =
  SEEK_OOM | SEEK_EXCLUSIVE_VIOLATION | SEEK_INVALID_SYMBOL | SEEK_NO_TOKEN | SEEK_TOKEN | SEEK_SUCCESS

abbreviation LINE_BREAK :: char where
  "LINE_BREAK \<equiv> CHR 0x0A"

abbreviation QUOTE :: char where
  "QUOTE \<equiv> CHR 0x22"

definition file_oom :: "mem_file \<Rightarrow> bool" where
  "file_oom f \<longleftrightarrow> length (file_text f) \<le> file_pos f"

text \<open>The loop of \<^verbatim>\<open>seek_token_in_line\<close>: the status, the new position and \<open>(*start, *end)\<close>.\<close>

fun token_loop :: "mem_file_ops \<Rightarrow> string \<Rightarrow> nat \<Rightarrow> nat \<Rightarrow> bool \<Rightarrow> bool \<Rightarrow> nat \<times> nat
    \<Rightarrow> (seek_status \<times> nat \<times> nat \<times> nat) run" where
  "token_loop ops [] p start_pos inside_token in_quoted_token se = Inl OutOfBounds"
| "token_loop ops (c # r) p start_pos inside_token in_quoted_token se =
     (if in_quoted_token then
        (if c = QUOTE then
           Inr (if start_pos + 1 < p - 1 then SEEK_TOKEN else SEEK_INVALID_SYMBOL,
                p + 1, start_pos + 1, p - 1)
         else token_loop ops r (p + 1) start_pos inside_token in_quoted_token se)
      else if \<not> inside_token then
        (if c = LINE_BREAK then Inr (SEEK_NO_TOKEN, p, snd se, snd se)
         else if is_whitespace ops c then
           token_loop ops r (p + 1) start_pos inside_token in_quoted_token se
         else if is_delim ops c then Inr (SEEK_TOKEN, p + 1, p, p)
         else if is_valid_token_char ops c then token_loop ops r (p + 1) p True in_quoted_token se
         else if c = QUOTE then token_loop ops r (p + 1) p inside_token True se
         else Inr (SEEK_INVALID_SYMBOL, p, se))
      else
        (if c = LINE_BREAK \<or> is_whitespace ops c \<or> is_delim ops c then
           Inr (SEEK_TOKEN, p, start_pos, p - 1)
         else if is_valid_token_char ops c then
           token_loop ops r (p + 1) start_pos inside_token in_quoted_token se
         else Inr (SEEK_INVALID_SYMBOL, p, se)))"

definition seek_token_in_line ::
  "mem_file \<Rightarrow> nat \<times> nat \<Rightarrow> (seek_status \<times> mem_file \<times> nat \<times> nat) run" where
  "seek_token_in_line f se =
     (if file_oom f then Inr (SEEK_OOM, f, se)
      else andThen (token_loop (file_ops f) (drop (file_pos f) (file_text f)) (file_pos f) 0 False False se)
             (\<lambda>(status, p, se). Inr (status, f\<lparr>file_pos := p\<rparr>, se)))"

text \<open>The loop of \<^verbatim>\<open>__seek_newline\<close>: whether it was left by the exclusive return, and the position.\<close>

fun newline_loop :: "mem_file_ops \<Rightarrow> bool \<Rightarrow> string \<Rightarrow> nat \<Rightarrow> (bool \<times> nat) run" where
  "newline_loop ops exclusive [] p = Inl OutOfBounds"
| "newline_loop ops exclusive (c # r) p =
     (if c = LINE_BREAK then Inr (False, p + 1)
      else if exclusive \<and> \<not> is_whitespace ops c then Inr (True, p)
      else newline_loop ops exclusive r (p + 1))"

definition seek_newline :: "mem_file \<Rightarrow> bool \<Rightarrow> (seek_status \<times> mem_file) run" where
  "seek_newline f exclusive =
     (if file_oom f then Inr (SEEK_OOM, f)
      else andThen (newline_loop (file_ops f) exclusive (drop (file_pos f) (file_text f)) (file_pos f))
             (\<lambda>(violation, p). let f = f\<lparr>file_pos := p\<rparr> in
                Inr (if violation then SEEK_EXCLUSIVE_VIOLATION
                     else if \<not> file_oom f then SEEK_SUCCESS else SEEK_OOM, f)))"

text \<open>
  \<^verbatim>\<open>__seek_token\<close>: \<open>loc\<close> are the local positions, \<open>out\<close> the caller's. The lengths are C ints. Every
  turn of the loop moves the position of the file forward, so its length bounds the turns.
\<close>

fun find_token :: "nat \<Rightarrow> mem_file \<Rightarrow> string option \<Rightarrow> bool \<Rightarrow> nat \<times> nat \<Rightarrow> nat \<times> nat
    \<Rightarrow> (seek_status \<times> mem_file \<times> nat \<times> nat) run" where
  "find_token 0 f token exclusive loc out = Inl Spins"
| "find_token (Suc fuel) f token exclusive loc out =
     andThen (seek_token_in_line f loc) (\<lambda>(status, f, loc).
       if status = SEEK_OOM then Inr (status, f, out)
       else if status = SEEK_NO_TOKEN then
         andThen (seek_newline f True) (\<lambda>(_, f). find_token fuel f token exclusive loc out)
       else if status = SEEK_INVALID_SYMBOL then Inr (status, f, out)
       else
         (case token of
            None \<Rightarrow> Inr (SEEK_TOKEN, f, loc)
          | Some t \<Rightarrow>
              andThen (strlen t) (\<lambda>token_len.
                let found_len = (of_nat (snd loc - fst loc + 1) :: u32) in
                andThen (if found_len \<noteq> of_nat token_len then Inr 1
                         else strncmp t (drop (fst loc) (file_text f)) token_len) (\<lambda>differs.
                  if differs \<noteq> 0 then
                    (if exclusive then Inr (SEEK_EXCLUSIVE_VIOLATION, f, loc)
                     else find_token fuel f token exclusive loc out)
                  else Inr (SEEK_TOKEN, f, loc)))))"

definition seek_token ::
  "mem_file \<Rightarrow> string \<Rightarrow> bool \<Rightarrow> nat \<times> nat \<Rightarrow> (seek_status \<times> mem_file \<times> nat \<times> nat) run" where
  "seek_token f token exclusive out =
     find_token (Suc (length (file_text f))) f (Some token) exclusive (0, 0) out"

definition seek_next_token :: "mem_file \<Rightarrow> nat \<times> nat \<Rightarrow> (seek_status \<times> mem_file \<times> nat \<times> nat) run" where
  "seek_next_token f out = find_token (Suc (length (file_text f))) f None False (0, 0) out"

section \<open>The loops move forward\<close>

lemma token_loop_status:
  "token_loop ops r p sp ins quo se = Inr (status, x) \<Longrightarrow>
   status \<in> {SEEK_TOKEN, SEEK_NO_TOKEN, SEEK_INVALID_SYMBOL}"
  by (induction r arbitrary: p sp ins quo) (auto split: if_splits)

lemma token_loop_bounds:
  "token_loop ops r p sp ins quo se = Inr (status, q, x) \<Longrightarrow> p \<le> q \<and> q \<le> p + length r"
  by (induction r arbitrary: p sp ins quo) (fastforce split: if_splits)+

lemma token_loop_inside:
  "token_loop ops r p sp True quo se = Inr (status, x) \<Longrightarrow> status \<noteq> SEEK_NO_TOKEN"
  by (induction r arbitrary: p sp quo) (auto split: if_splits)

lemma token_loop_quoted:
  "token_loop ops r p sp ins True se = Inr (status, x) \<Longrightarrow> status \<noteq> SEEK_NO_TOKEN"
  by (induction r arbitrary: p sp) (auto split: if_splits)

lemma token_loop_no_token:
  "token_loop ops r p sp False False se = Inr (SEEK_NO_TOKEN, q, x) \<Longrightarrow>
   p \<le> q \<and> q < p + length r \<and> r ! (q - p) = LINE_BREAK"
proof (induction r arbitrary: p)
  case (Cons c r)
  show ?case
  proof (cases "c = LINE_BREAK")
    case False
    then have "token_loop ops r (p + 1) sp False False se = Inr (SEEK_NO_TOKEN, q, x)"
      using Cons.prems by (auto split: if_splits dest: token_loop_inside token_loop_quoted)
    then show ?thesis using Cons.IH[of "p + 1"] by (auto simp: nth_Cons')
  qed (use Cons.prems in auto)
qed simp

lemma token_loop_progress:
  "token_loop ops r p sp False quo se = Inr (SEEK_TOKEN, q, x) \<Longrightarrow> p < q"
proof (cases r)
  case (Cons c r')
  assume "token_loop ops r p sp False quo se = Inr (SEEK_TOKEN, q, x)"
  then show ?thesis
    using Cons token_loop_bounds[of ops r' "p + 1" _ _ _ se SEEK_TOKEN q x]
    by (fastforce split: if_splits)
qed simp

lemma token_loop_Inl: "token_loop ops r p sp ins quo se = Inl e \<Longrightarrow> e = OutOfBounds"
  by (induction r arbitrary: p sp ins quo) (auto split: if_splits)

lemma strlen_Inl: "strlen s = Inl e \<Longrightarrow> e = OutOfBounds"
proof -
  have "strlen_loop s n = Inl e \<Longrightarrow> e = OutOfBounds" for n
    by (induction s arbitrary: n) (auto split: if_splits)
  then show "strlen s = Inl e \<Longrightarrow> e = OutOfBounds" by (simp add: strlen_def)
qed

lemma strncmp_Inl: "strncmp s t n = Inl e \<Longrightarrow> e = OutOfBounds"
  by (induction s t n rule: strncmp.induct) (auto split: if_splits)

text \<open>The comparison of a found token with the searched one does not loop by itself.\<close>

lemma compare_no_spin:
  assumes "\<And>d. k d \<noteq> Inl Spins"
  shows "andThen (strlen t) (\<lambda>n. andThen (if P n then Inr 1 else strncmp t u n) k) \<noteq> Inl Spins"
proof
  assume "andThen (strlen t) (\<lambda>n. andThen (if P n then Inr 1 else strncmp t u n) k) = Inl Spins"
  then consider "strlen t = Inl Spins" | n where "strncmp t u n = Inl Spins" | d where "k d = Inl Spins"
    by (auto simp: andThen_eq_Inl split: if_splits)
  then show False using strlen_Inl strncmp_Inl assms by cases (metis stop.distinct)+
qed

lemma seek_token_in_line_cases:
  assumes "seek_token_in_line f se = Inr (status, f', se')"
  shows "file_oom f \<and> status = SEEK_OOM \<and> f' = f \<and> se' = se
    \<or> \<not> file_oom f \<and> status \<in> {SEEK_TOKEN, SEEK_NO_TOKEN, SEEK_INVALID_SYMBOL}
       \<and> f' = f\<lparr>file_pos := file_pos f'\<rparr>
       \<and> token_loop (file_ops f) (drop (file_pos f) (file_text f)) (file_pos f) 0 False False se
           = Inr (status, file_pos f', se')"
  using assms token_loop_status
  by (cases "token_loop (file_ops f) (drop (file_pos f) (file_text f)) (file_pos f) 0 False False se")
     (fastforce simp: seek_token_in_line_def run_simps split: if_splits prod.splits)+

text \<open>A file without a token in the current line is left at the line break, which is then skipped.\<close>

lemma seek_newline_after_no_token:
  assumes "seek_token_in_line f se = Inr (SEEK_NO_TOKEN, f', se')"
  shows "file_pos f \<le> file_pos f'" "file_pos f' < length (file_text f)"
    "\<exists>st. seek_newline f' e = Inr (st, f\<lparr>file_pos := Suc (file_pos f')\<rparr>)"
proof -
  have t: "\<not> file_oom f" "f' = f\<lparr>file_pos := file_pos f'\<rparr>"
    "token_loop (file_ops f) (drop (file_pos f) (file_text f)) (file_pos f) 0 False False se
       = Inr (SEEK_NO_TOKEN, file_pos f', se')"
    using seek_token_in_line_cases[OF assms] by auto
  from token_loop_no_token[OF t(3)[simplified]] t(1)
  have q: "file_pos f \<le> file_pos f'" "file_pos f' < length (file_text f)"
    "file_text f ! file_pos f' = LINE_BREAK"
    by (auto simp: file_oom_def)
  then show "file_pos f \<le> file_pos f'" "file_pos f' < length (file_text f)" by simp_all
  have d: "drop (file_pos f') (file_text f') = LINE_BREAK # drop (Suc (file_pos f')) (file_text f)"
    using q t(2) by (metis Cons_nth_drop_Suc mem_file.ext_inject mem_file.surjective mem_file.update_convs(2))
  have "\<not> file_oom f'" using q(2) t(2) by (metis file_oom_def linorder_not_le mem_file.select_convs(1) mem_file.surjective mem_file.update_convs(2))
  moreover have "f'\<lparr>file_pos := p\<rparr> = f\<lparr>file_pos := p\<rparr>" for p
    using t(2) by (metis mem_file.surjective mem_file.update_convs(2))
  ultimately show "\<exists>st. seek_newline f' e = Inr (st, f\<lparr>file_pos := Suc (file_pos f')\<rparr>)"
    by (simp add: seek_newline_def d run_simps Let_def)
qed

lemma find_token_terminates:
  assumes "length (file_text f) < file_pos f + fuel" "0 < fuel"
  shows "find_token fuel f token exclusive loc out \<noteq> Inl Spins"
  using assms
proof (induction fuel arbitrary: f loc)
  case (Suc fuel)
  have next_turn: "find_token fuel f' token exclusive loc' out \<noteq> Inl Spins"
    if "f' = f\<lparr>file_pos := q\<rparr>" "file_pos f < q" "\<not> file_oom f" for f' q loc'
  proof -
    have "length (file_text f') < file_pos f' + fuel" "0 < fuel"
      using that Suc.prems by (auto simp: file_oom_def)
    then show ?thesis by (rule Suc.IH)
  qed
  show ?case
  proof (cases "seek_token_in_line f loc")
    case (Inl e)
    then show ?thesis using token_loop_Inl
      by (fastforce simp: seek_token_in_line_def andThen_eq_Inl split: if_splits prod.splits)
  next
    case (Inr r)
    obtain status f' loc' where r: "r = (status, f', loc')" by (cases r) auto
    note cs = seek_token_in_line_cases[OF Inr[unfolded r]]
    show ?thesis
    proof (cases "status = SEEK_NO_TOKEN")
      case True
      note nl = seek_newline_after_no_token[OF Inr[unfolded r True]]
      obtain st where "seek_newline f' True = Inr (st, f\<lparr>file_pos := Suc (file_pos f')\<rparr>)" using nl(3) by blast
      then show ?thesis
        using Inr r True next_turn[of "f\<lparr>file_pos := Suc (file_pos f')\<rparr>" "Suc (file_pos f')"] nl(1) cs
        by (simp add: run_simps)
    next
      case False
      have adv: "status = SEEK_TOKEN \<Longrightarrow> find_token fuel f' token exclusive loc' out \<noteq> Inl Spins"
        using cs next_turn[of f' "file_pos f'" loc'] token_loop_progress by (metis seek_status.distinct(7))
      show ?thesis
        using Inr r False adv cs
        by (auto simp: Let_def intro!: compare_no_spin split: option.splits if_splits)
    qed
  qed
qed simp

section \<open>What the scanner finds\<close>

text \<open>Skipping the characters before a token of a line.\<close>

lemma token_loop_blanks:
  "list_all (is_whitespace ops) ws \<Longrightarrow> LINE_BREAK \<notin> set ws \<Longrightarrow>
   token_loop ops (ws @ r) p sp False False se = token_loop ops r (p + length ws) sp False False se"
  by (induction ws arbitrary: p) auto

definition plain_char :: "mem_file_ops \<Rightarrow> char \<Rightarrow> bool" where
  "plain_char ops c \<longleftrightarrow>
     is_valid_token_char ops c \<and> c \<noteq> LINE_BREAK \<and> \<not> is_whitespace ops c \<and> \<not> is_delim ops c"

definition ends_token :: "mem_file_ops \<Rightarrow> char \<Rightarrow> bool" where
  "ends_token ops c \<longleftrightarrow> c = LINE_BREAK \<or> is_whitespace ops c \<or> is_delim ops c"

lemma token_loop_in_word:
  "list_all (plain_char ops) w \<Longrightarrow> ends_token ops e \<Longrightarrow>
   token_loop ops (w @ e # r) p sp True False se = Inr (SEEK_TOKEN, p + length w, sp, p + length w - 1)"
  by (induction w arbitrary: p) (auto simp: plain_char_def ends_token_def)

lemma token_loop_word:
  assumes "list_all (plain_char ops) w" "w \<noteq> []" "ends_token ops e"
  shows "token_loop ops (w @ e # r) p sp False False se
    = Inr (SEEK_TOKEN, p + length w, p, p + length w - 1)"
proof -
  obtain c w' where w: "w = c # w'" using assms(2) by (cases w) auto
  then show ?thesis
    using token_loop_in_word[of ops w' e r "Suc p" p se] assms by (simp add: plain_char_def)
qed

lemma token_loop_in_quote:
  "QUOTE \<notin> set w \<Longrightarrow>
   token_loop ops (w @ QUOTE # r) p sp ins True se
    = Inr (if sp + 1 < p + length w - 1 then SEEK_TOKEN else SEEK_INVALID_SYMBOL,
           p + length w + 1, sp + 1, p + length w - 1)"
  by (induction w arbitrary: p) auto

definition quote_ok :: "mem_file_ops \<Rightarrow> bool" where
  "quote_ok ops \<longleftrightarrow> \<not> is_whitespace ops QUOTE \<and> \<not> is_delim ops QUOTE \<and> \<not> is_valid_token_char ops QUOTE"

lemma token_loop_quotes:
  assumes "quote_ok ops" "QUOTE \<notin> set w"
  shows "token_loop ops (QUOTE # w @ QUOTE # r) p sp False False se
    = Inr (if 2 \<le> length w then SEEK_TOKEN else SEEK_INVALID_SYMBOL,
           p + length w + 2, p + 1, p + length w)"
  using assms token_loop_in_quote[of w ops r "p + 1" p False se] by (auto simp: quote_ok_def)

text \<open>A piece of a file that the scanner skips between tokens.\<close>

definition blank :: "mem_file_ops \<Rightarrow> char \<Rightarrow> bool" where
  "blank ops c \<longleftrightarrow> c = LINE_BREAK \<or> is_whitespace ops c"

text \<open>Blank characters in front of the rest \<open>r\<close> of the file do not change what is found.\<close>

lemma seek_in_line_whitespace:
  assumes "drop (file_pos f) (file_text f) = c # r" "r \<noteq> []" "is_whitespace (file_ops f) c" "c \<noteq> LINE_BREAK"
  shows "seek_token_in_line f se = seek_token_in_line (f\<lparr>file_pos := Suc (file_pos f)\<rparr>) se"
proof -
  have r: "drop (Suc (file_pos f)) (file_text f) = r"
    using assms(1) by (metis drop_Suc list.sel(3) tl_drop)
  have "\<not> file_oom f" "\<not> file_oom (f\<lparr>file_pos := Suc (file_pos f)\<rparr>)"
    using assms(1,2) r by (auto simp: file_oom_def)
  then show ?thesis
    using assms by (simp add: seek_token_in_line_def r del: drop_Suc)
qed

lemma find_token_whitespace:
  assumes "drop (file_pos f) (file_text f) = c # r" "r \<noteq> []" "is_whitespace (file_ops f) c" "c \<noteq> LINE_BREAK"
  shows "find_token fuel f tok e loc out = find_token fuel (f\<lparr>file_pos := Suc (file_pos f)\<rparr>) tok e loc out"
  by (cases fuel) (simp_all add: seek_in_line_whitespace[OF assms])

lemma find_token_newline:
  assumes "drop (file_pos f) (file_text f) = LINE_BREAK # r"
  shows "\<exists>loc'. find_token (Suc fuel) f tok e loc out =
    find_token fuel (f\<lparr>file_pos := Suc (file_pos f)\<rparr>) tok e loc' out"
proof -
  have "\<not> file_oom f" using assms by (auto simp: file_oom_def)
  then show ?thesis
    using assms by (auto simp: seek_token_in_line_def seek_newline_def Let_def)
qed

lemma find_token_blanks:
  assumes "drop (file_pos f) (file_text f) = bl @ r" "list_all (blank (file_ops f)) bl"
    and "r \<noteq> [] \<or> bl = [] \<or> last bl = LINE_BREAK" "length bl < fuel"
  shows "\<exists>loc' fuel'. find_token fuel f tok e loc out =
    find_token (Suc fuel') (f\<lparr>file_pos := file_pos f + length bl\<rparr>) tok e loc' out"
  using assms
proof (induction bl arbitrary: f fuel loc)
  case Nil
  then obtain g where "fuel = Suc g" by (cases fuel) auto
  then have "find_token fuel f tok e loc out =
    find_token (Suc g) (f\<lparr>file_pos := file_pos f + length []\<rparr>) tok e loc out" by simp
  then show ?case by blast
next
  case (Cons c bl)
  let ?f = "f\<lparr>file_pos := Suc (file_pos f)\<rparr>"
  have d: "drop (file_pos ?f) (file_text ?f) = bl @ r"
    using Cons.prems(1) by (metis drop_Suc list.sel(3) tl_drop append_Cons mem_file.select_convs(1,2)
        mem_file.surjective mem_file.update_convs(2))
  have e: "r \<noteq> [] \<or> bl = [] \<or> last bl = LINE_BREAK" using Cons.prems(3) by (auto split: if_splits)
  note IH = Cons.IH[OF d _ e]
  show ?case
  proof (cases "c = LINE_BREAK")
    case True
    obtain g where g: "fuel = Suc g" "length bl < g" using Cons.prems(4) by (cases fuel) auto
    obtain loc1 where "find_token fuel f tok e loc out = find_token g ?f tok e loc1 out"
      using find_token_newline[of f "bl @ r" g tok e loc out] Cons.prems(1) True g(1) by auto
    then show ?thesis using IH[of g loc1] Cons.prems(2) g(2) by auto
  next
    case False
    have "bl @ r \<noteq> []" using Cons.prems(3) False by auto
    then have "find_token fuel f tok e loc out = find_token fuel ?f tok e loc out"
      using find_token_whitespace[of f c "bl @ r" fuel] Cons.prems(1,2) False by (simp add: blank_def)
    then show ?thesis using IH[of fuel loc] Cons.prems(2,4) by auto
  qed
qed

text \<open>
  The two results of the scanner on a well-formed rest of a file: the next token, at its exact
  position, or the end of the file.
\<close>

lemma seek_next_token_found:
  assumes "drop (file_pos f) (file_text f) = bl @ r" "list_all (blank (file_ops f)) bl" "r \<noteq> []"
    and "\<And>p se. token_loop (file_ops f) r p 0 False False se = Inr (SEEK_TOKEN, p + n, p + a, p + b)"
  shows "seek_next_token f out = (let p = file_pos f + length bl in
    Inr (SEEK_TOKEN, f\<lparr>file_pos := p + n\<rparr>, p + a, p + b))"
proof -
  let ?g = "f\<lparr>file_pos := file_pos f + length bl\<rparr>"
  have "length bl \<le> length (drop (file_pos f) (file_text f))" by (simp add: assms(1))
  then have "length bl < Suc (length (file_text f))" by simp
  then obtain loc' fuel' where "seek_next_token f out = find_token (Suc fuel') ?g None False loc' out"
    unfolding seek_next_token_def using find_token_blanks[OF assms(1,2)] assms(3) by blast
  moreover have d: "drop (file_pos f + length bl) (file_text f) = r"
    by (metis assms(1) append_eq_conv_conj drop_drop add.commute)
  then have "\<not> file_oom ?g" using assms(3) by (auto simp: file_oom_def)
  ultimately show ?thesis
    by (simp add: seek_token_in_line_def d assms(4) Let_def)
qed

lemma seek_next_token_end:
  assumes "drop (file_pos f) (file_text f) = bl" "list_all (blank (file_ops f)) bl"
    and "bl = [] \<or> last bl = LINE_BREAK"
  shows "seek_next_token f out = Inr (SEEK_OOM, f\<lparr>file_pos := file_pos f + length bl\<rparr>, out)"
proof -
  let ?g = "f\<lparr>file_pos := file_pos f + length bl\<rparr>"
  have "length bl \<le> length (drop (file_pos f) (file_text f))" by (simp add: assms(1))
  then have "length bl < Suc (length (file_text f))" by simp
  then obtain loc' fuel' where "seek_next_token f out = find_token (Suc fuel') ?g None False loc' out"
    unfolding seek_next_token_def using find_token_blanks[of f bl "[]"] assms by (metis append_Nil2)
  moreover have "file_oom ?g"
    using assms(1) by (auto simp: file_oom_def)
  ultimately show ?thesis by (simp add: seek_token_in_line_def)
qed

section \<open>Properties\<close>

text \<open>
  The token search terminates on every file, with every token searched for, with and without the
  exclusive mode: it returns a status or reads behind the end of the file, but never loops.
\<close>

lemma seek_token_terminates:
  "seek_next_token f out \<noteq> Inl Spins \<and> seek_token f token exclusive out \<noteq> Inl Spins"
  by (simp add: seek_next_token_def seek_token_def find_token_terminates del: find_token.simps)

text \<open>
  A plain token at the current position, ended by a blank or the delimiter, is found: the result
  delimits exactly the token, and the position is right behind it, whatever blanks and line breaks
  precede it.
\<close>

lemma seek_next_token_word:
  assumes "file_text f = pre @ bl @ w @ e # rest" "file_pos f = length pre"
    and "list_all (blank (file_ops f)) bl" "w \<noteq> []" "list_all (plain_char (file_ops f)) w"
    and "ends_token (file_ops f) e"
  shows "\<exists>f' st en. seek_next_token f out = Inr (SEEK_TOKEN, f', st, en)
     \<and> take (en - st + 1) (drop st (file_text f)) = w \<and> file_pos f' = length (pre @ bl @ w)
     \<and> file_text f' = file_text f"
proof -
  have d: "drop (file_pos f) (file_text f) = bl @ (w @ e # rest)" using assms(1,2) by simp
  have "seek_next_token f out = (let p = file_pos f + length bl in
      Inr (SEEK_TOKEN, f\<lparr>file_pos := p + length w\<rparr>, p + 0, p + (length w - 1)))"
    by (rule seek_next_token_found[OF d assms(3)])
       (use assms(4) token_loop_word[OF assms(5,4,6), of rest] in \<open>auto simp: Suc_leI\<close>)
  then show ?thesis using assms by (simp add: Let_def)
qed

lemma seek_next_token_word_witness:
  "\<exists>f' st en. seek_next_token \<lparr>file_text = ''[start] vm.name'' @ [LINE_BREAK], file_pos = 7,
       file_ops = \<lparr>is_whitespace = (\<lambda>c. c = CHR '' ''), is_delim = (\<lambda>c. c = CHR ''=''),
                   is_valid_token_char = (\<lambda>c. c \<noteq> CHR '' '')\<rparr>\<rparr> (0, 0)
     = Inr (SEEK_TOKEN, f', st, en)
     \<and> take (en - st + 1) (drop st (''[start] vm.name'' @ [LINE_BREAK])) = ''vm.name''
     \<and> file_pos f' = 15"
  using seek_next_token_word[of "\<lparr>file_text = ''[start] vm.name'' @ [LINE_BREAK], file_pos = 7,
       file_ops = \<lparr>is_whitespace = (\<lambda>c. c = CHR '' ''), is_delim = (\<lambda>c. c = CHR ''=''),
                   is_valid_token_char = (\<lambda>c. c \<noteq> CHR '' '')\<rparr>\<rparr>" "''[start]''" "'' ''" "''vm.name''"
       LINE_BREAK "[]" "(0, 0)"]
  by (simp add: blank_def plain_char_def ends_token_def eval_nat_numeral) blast

text \<open>
  The loop condition reads the position of the file instead of the scanning position: a last line
  that does not end with a line break is read beyond the end of the file.
\<close>

lemma seek_unterminated_line:
  "w \<noteq> [] \<Longrightarrow> list_all (plain_char ops) w \<Longrightarrow>
   seek_next_token \<lparr>file_text = w, file_pos = 0, file_ops = ops\<rparr> out = Inl OutOfBounds"
proof -
  have inside: "list_all (plain_char ops) w \<Longrightarrow> token_loop ops w p sp True False se = Inl OutOfBounds" for w p sp se
    by (induction w arbitrary: p) (auto simp: plain_char_def)
  assume "w \<noteq> []" "list_all (plain_char ops) w"
  then show "seek_next_token \<lparr>file_text = w, file_pos = 0, file_ops = ops\<rparr> out = Inl OutOfBounds"
    by (cases w) (simp_all add: seek_next_token_def seek_token_in_line_def file_oom_def inside plain_char_def)
qed

lemma seek_unterminated_line_witness:
  "seek_next_token \<lparr>file_text = ''vm'', file_pos = 0, file_ops =
     \<lparr>is_whitespace = (\<lambda>c. c = CHR '' ''), is_delim = (\<lambda>c. c = CHR ''=''),
      is_valid_token_char = (\<lambda>c. c \<noteq> CHR '' '')\<rparr>\<rparr> (0, 0) = Inl OutOfBounds"
  by (rule seek_unterminated_line) (simp_all add: plain_char_def)

end
