(* ===== verification/Vector_Lib.thy ===== *)
theory Vector_Lib
  imports HyvPrelude
begin

text \<open>
  The vector template of \<^verbatim>\<open>lib/vector_template.h\<close>: the elements below \<^verbatim>\<open>insertion_idx\<close>, in order, and
  the capacity of the backing array. Reading an element that was never stored is \<open>OutOfBounds\<close>;
  \<^verbatim>\<open>push_back\<close> on a full vector dies. The flags are the outcomes of the two allocations.
\<close>

record 'a vector =
  vec_elements :: "'a list"
  vec_capacity :: nat

definition vec_create :: "bool \<Rightarrow> bool \<Rightarrow> nat \<Rightarrow> 'a vector option" where
  "vec_create struct_ok array_ok init_capacity =
     (if \<not> struct_ok then None
      else if \<not> array_ok then None
      else Some \<lparr>vec_elements = [], vec_capacity = init_capacity\<rparr>)"

definition vec_size :: "'a vector \<Rightarrow> nat" where
  "vec_size v = length (vec_elements v)"

definition vec_empty :: "'a vector \<Rightarrow> bool" where
  "vec_empty v \<longleftrightarrow> vec_size v = 0"

definition vec_at :: "'a vector \<Rightarrow> nat \<Rightarrow> 'a option" where
  "vec_at v i = (if vec_size v \<le> i then None else Some (vec_elements v ! i))"

definition vec_front :: "'a vector \<Rightarrow> 'a run" where
  "vec_front v = at (vec_elements v) 0"

definition vec_back :: "'a vector \<Rightarrow> 'a run" where
  "vec_back v = (if vec_empty v then Inl OutOfBounds else at (vec_elements v) (vec_size v - 1))"

definition vec_push_back :: "'a vector \<Rightarrow> 'a \<Rightarrow> 'a vector run" where
  "vec_push_back v x =
     (if vec_capacity v \<le> vec_size v then Inl Die
      else Inr (v\<lparr>vec_elements := vec_elements v @ [x]\<rparr>))"

definition vec_pop_back :: "'a vector \<Rightarrow> 'a vector" where
  "vec_pop_back v = (if vec_empty v then v else v\<lparr>vec_elements := butlast (vec_elements v)\<rparr>)"

text \<open>A vector with \<open>m\<close> more slots takes \<open>m\<close> elements; they can be read back and removed.\<close>

lemma vec_push_back_room:
  "vec_size v < vec_capacity v \<Longrightarrow>
   vec_push_back v x = Inr (v\<lparr>vec_elements := vec_elements v @ [x]\<rparr>)"
  by (simp add: vec_push_back_def)

lemma vec_push_pop: "vec_push_back v x = Inr v' \<Longrightarrow> vec_pop_back v' = v \<and> vec_back v' = Inr x"
  by (auto simp: vec_push_back_def vec_pop_back_def vec_empty_def vec_size_def vec_back_def
      split: if_splits)

lemma vec_push_at:
  "vec_push_back v x = Inr v' \<Longrightarrow> vec_at v' i = (if i = vec_size v then Some x else vec_at v i)"
  by (auto simp: vec_push_back_def vec_at_def vec_size_def nth_append split: if_splits)

end
