(* ===== verification/Vm_Config.thy ===== *)
theory Vm_Config
  imports Mem_File Radix_Tree Vector_Lib
begin

text \<open>
  The VM configuration parser of \<^verbatim>\<open>vm_config.c\<close>. Strings that a pointer refers to are their text up to
  the terminating null character, a null pointer is \<open>None\<close>. The outcomes of the heap allocations are
  read from the list \<open>allocs\<close>, as in the radix tree. Tokens are shorter than \<open>2 ^ 31\<close> characters, so
  that their lengths are unchanged by the conversion to \<^verbatim>\<open>int\<close>.
\<close>

section \<open>Keys and characters\<close>

datatype config_key =
    CONFIG_VM_NAME_KEY | CONFIG_VM_TYPE_KEY | CONFIG_VM_VCPUS_KEY
  | CONFIG_VM_MEM_SIZE_KEY | CONFIG_VM_MEM_GRANULARITY_KEY
  | CONFIG_VM_BOOT_LINUX_BZIMAGE_KEY | CONFIG_VM_BOOT_LINUX_INITRAMFS_KEY | CONFIG_VM_BOOT_LINUX_CMDLINE_KEY
  | CONFIG_VM_DEV_SERIAL_KEY | CONFIG_OPTIONS_NR | CONFIG_INVALID_KEY

text \<open>The constants of \<^verbatim>\<open>config_key_strings\<close> with the enumeration values as indices.\<close>

definition config_key_strings :: "(config_key \<times> string) list" where
  "config_key_strings =
     [(CONFIG_VM_NAME_KEY, ''vm.name''), (CONFIG_VM_TYPE_KEY, ''vm.type''), (CONFIG_VM_VCPUS_KEY, ''vm.vcpus''),
      (CONFIG_VM_MEM_SIZE_KEY, ''vm.mem.size''), (CONFIG_VM_MEM_GRANULARITY_KEY, ''vm.mem.granularity''),
      (CONFIG_VM_BOOT_LINUX_BZIMAGE_KEY, ''vm.boot.linux.bzimage''),
      (CONFIG_VM_BOOT_LINUX_INITRAMFS_KEY, ''vm.boot.linux.initramfs''),
      (CONFIG_VM_BOOT_LINUX_CMDLINE_KEY, ''vm.boot.linux.cmdline''),
      (CONFIG_VM_DEV_SERIAL_KEY, ''vm.dev.serial'')]"

definition to_config_key :: "u64 \<Rightarrow> config_key" where
  "to_config_key v =
     (if unat v < 9 then fst (config_key_strings ! unat v)
      else if v = 9 then CONFIG_OPTIONS_NR else CONFIG_INVALID_KEY)"

definition is_config_whitespace :: "char \<Rightarrow> bool" where
  "is_config_whitespace c \<longleftrightarrow> c = CHR '' '' \<or> c = CHR 0x0D \<or> c = CHR 0x09"

definition is_config_delim :: "char \<Rightarrow> bool" where
  "is_config_delim c \<longleftrightarrow> c = CHR ''=''"

definition is_valid_config_token_char :: "char \<Rightarrow> bool" where
  "is_valid_config_token_char c \<longleftrightarrow>
     (let n = (of_char c :: nat) in 65 \<le> n \<and> n \<le> 90 \<or> 97 \<le> n \<and> n \<le> 122 \<or> 48 \<le> n \<and> n \<le> 57)
     \<or> c \<in> set ''[]-_.''"

definition config_ops :: mem_file_ops where
  "config_ops = \<lparr>is_whitespace = is_config_whitespace, is_delim = is_config_delim,
                is_valid_token_char = is_valid_config_token_char\<rparr>"

definition reserved_tokens :: "string list" where
  "reserved_tokens = [''[start]'', ''[end]'', ''='']"

section \<open>Requests and devices\<close>

datatype mem_granularity = BYTES | KB | MB | GB

datatype guest_type = GUEST_UNSPECIFIED | MIRROR_VMM | LINUX_DIRECT_BOOT_32BIT

record guest_uart_info =
  configured :: bool
  host_base_port :: u16
  host_irq :: u8
  vm_irq :: u8

record serial_dev_info =
  assignee :: int
  info :: guest_uart_info

record vm_request =
  req_id :: int
  req_name :: "string option"
  req_type :: guest_type
  vcpus :: u32
  req_mem_size :: u32
  req_granularity :: mem_granularity
  bzImage_name :: "string option"
  initramfs_name :: "string option"
  req_cmdline :: "string option"
  serial_id :: nat

definition zero_request :: "int \<Rightarrow> vm_request" where
  "zero_request i = \<lparr>req_id = i, req_name = None, req_type = GUEST_UNSPECIFIED, vcpus = 0, req_mem_size = 0,
     req_granularity = BYTES, bzImage_name = None, initramfs_name = None, req_cmdline = None, serial_id = 0\<rparr>"

definition serial_dev :: "u16 \<Rightarrow> u8 \<Rightarrow> u8 \<Rightarrow> serial_dev_info" where
  "serial_dev host_port hirq guest_irq = \<lparr>assignee = -1,
     info = \<lparr>configured = True, host_base_port = host_port, host_irq = hirq, vm_irq = guest_irq\<rparr>\<rparr>"

text \<open>The entry 0 (\<^verbatim>\<open>INVALID_SERIAL_DEV_ID\<close>) is zero initialized.\<close>

definition serial_devices :: "serial_dev_info list" where
  "serial_devices =
     [\<lparr>assignee = 0, info = \<lparr>configured = False, host_base_port = 0, host_irq = 0, vm_irq = 0\<rparr>\<rparr>,
      serial_dev 0x3F8 4 4, serial_dev 0x2F8 5 4, serial_dev 0x3E8 6 4]"

definition valid_config_request :: "vm_request \<Rightarrow> bool run" where
  "valid_config_request r =
     (if req_name r = None then Inr False
      else if req_type r = GUEST_UNSPECIFIED then Inr False
      else if vcpus r = 0 then Inr False
      else if req_mem_size r = 0 then Inr False
      else (case req_type r of
              LINUX_DIRECT_BOOT_32BIT \<Rightarrow>
                Inr (if bzImage_name r = None then False else if initramfs_name r = None then False else True)
            | MIRROR_VMM \<Rightarrow> Inr True
            | GUEST_UNSPECIFIED \<Rightarrow> Inl Die))"

section \<open>Values\<close>

definition c_text :: "string \<Rightarrow> string" where
  "c_text s = takeWhile (\<lambda>c. c \<noteq> NUL) s"

definition get_guest_type_from_string :: "string \<Rightarrow> guest_type option" where
  "get_guest_type_from_string str =
     map_of [(''MIRROR_VMM'', MIRROR_VMM), (''LINUX_DIRECT_BOOT_32BIT'', LINUX_DIRECT_BOOT_32BIT)] str"

definition get_mem_granularity_from_string :: "string \<Rightarrow> mem_granularity option" where
  "get_mem_granularity_from_string str = map_of [(''bytes'', BYTES), (''kb'', KB), (''mb'', MB), (''gb'', GB)] str"

text \<open>\<open>e\<close> is \<open>*endptr\<close>, \<open>n\<close> is \<open>endptr - value\<close>.\<close>

definition is_only_digits :: "nat \<Rightarrow> char \<Rightarrow> bool \<Rightarrow> bool" where
  "is_only_digits n e overflow \<longleftrightarrow> \<not> ((n = 0 \<or> e \<noteq> NUL) \<and> e \<noteq> CHR ''-'' \<and> \<not> overflow)"

definition is_positive_integer :: "u32 \<Rightarrow> char \<Rightarrow> bool \<Rightarrow> bool" where
  "is_positive_integer v e overflow \<longleftrightarrow> \<not> (overflow \<or> e = CHR ''-'' \<or> v = 0)"

text \<open>The shared part of the numeric keys: the value cut to 32 bits and whether it is accepted.\<close>

definition numeric_value :: "string \<Rightarrow> (u32 \<times> bool) run" where
  "numeric_value v =
     andThen (strtoul (cstring v)) (\<lambda>r.
     andThen (at (cstring v) (ul_end r)) (\<lambda>e.
       let n = (ucast (ul_value r) :: u32) in
       Inr (n, is_only_digits (ul_end r) e (ul_overflow r) \<and> is_positive_integer n e (ul_overflow r))))"

definition is_valid_serial_dev_id :: "u32 \<Rightarrow> bool" where
  "is_valid_serial_dev_id i \<longleftrightarrow> 1 \<le> sint i \<and> sint i \<le> 3"

record val_state =
  vs_request :: vm_request
  vs_serial :: "serial_dev_info list"
  vs_allocs :: "bool list"

definition dup_into ::
  "(string option \<Rightarrow> vm_request \<Rightarrow> vm_request) \<Rightarrow> string \<Rightarrow> val_state \<Rightarrow> (bool \<times> val_state) run" where
  "dup_into set_field v s =
     (let (d, os) = strdup_prefix (vs_allocs s) (c_text v)
      in Inr (True, s\<lparr>vs_request := set_field d (vs_request s), vs_allocs := os\<rparr>))"

text \<open>\<^verbatim>\<open>set_vm_request_val\<close>: whether the value is accepted, and the state after the assignment.\<close>

definition set_vm_request_val :: "config_key \<Rightarrow> string \<Rightarrow> val_state \<Rightarrow> (bool \<times> val_state) run" where
  "set_vm_request_val key v s = (let r = vs_request s in
     case key of
       CONFIG_VM_NAME_KEY \<Rightarrow> dup_into (\<lambda>d r. r\<lparr>req_name := d\<rparr>) v s
     | CONFIG_VM_TYPE_KEY \<Rightarrow>
         (case get_guest_type_from_string (c_text v) of
            None \<Rightarrow> Inr (False, s)
          | Some t \<Rightarrow> Inr (True, s\<lparr>vs_request := r\<lparr>req_type := t\<rparr>\<rparr>))
     | CONFIG_VM_VCPUS_KEY \<Rightarrow>
         andThen (numeric_value v) (\<lambda>(n, ok). Inr (ok, s\<lparr>vs_request := r\<lparr>vcpus := n\<rparr>\<rparr>))
     | CONFIG_VM_MEM_SIZE_KEY \<Rightarrow>
         andThen (numeric_value v) (\<lambda>(n, ok). Inr (ok, s\<lparr>vs_request := r\<lparr>req_mem_size := n\<rparr>\<rparr>))
     | CONFIG_VM_MEM_GRANULARITY_KEY \<Rightarrow>
         (case get_mem_granularity_from_string (c_text v) of
            None \<Rightarrow> Inr (False, s)
          | Some g \<Rightarrow> Inr (True, s\<lparr>vs_request := r\<lparr>req_granularity := g\<rparr>\<rparr>))
     | CONFIG_VM_BOOT_LINUX_BZIMAGE_KEY \<Rightarrow> dup_into (\<lambda>d r. r\<lparr>bzImage_name := d\<rparr>) v s
     | CONFIG_VM_BOOT_LINUX_INITRAMFS_KEY \<Rightarrow> dup_into (\<lambda>d r. r\<lparr>initramfs_name := d\<rparr>) v s
     | CONFIG_VM_BOOT_LINUX_CMDLINE_KEY \<Rightarrow> dup_into (\<lambda>d r. r\<lparr>req_cmdline := d\<rparr>) v s
     | CONFIG_VM_DEV_SERIAL_KEY \<Rightarrow>
         andThen (numeric_value v) (\<lambda>(n, ok).
           if \<not> ok \<or> \<not> is_valid_serial_dev_id n then Inr (False, s)
           else
             (let i = unat n in
              andThen (at (vs_serial s) i) (\<lambda>dev.
                if assignee dev \<noteq> -1 \<and> assignee dev \<noteq> req_id r then Inr (False, s)
                else
                  andThen (put (vs_serial s) i (dev\<lparr>assignee := req_id r\<rparr>)) (\<lambda>serial.
                    Inr (True, s\<lparr>vs_serial := serial, vs_request := r\<lparr>serial_id := i\<rparr>\<rparr>)))))
     | CONFIG_OPTIONS_NR \<Rightarrow> Inl Die
     | CONFIG_INVALID_KEY \<Rightarrow> Inl Die)"

section \<open>The parser\<close>

datatype config_parsing_status = PARSING_SUCCESS | PARSING_ERR_INVALID_ENTRY | PARSING_ERR_MALFORMED_FILE

datatype token_state =
  TOKEN_SEARCH_START_MARKER | TOKEN_SEARCH_CONFIG_ENTRY_START | TOKEN_SEARCH_ENTRY_DELIM | TOKEN_SEARCH_ENTRY_VAL

datatype parsing_state = PS_CONTINUE | PS_DONE_SUCCESS | PS_STOP_ERROR | PS_CONFIG_ENTRY_COMPLETED

text \<open>The parser state, with the key of \<^verbatim>\<open>curr_line\<close>, the current request and the global variables it uses.\<close>

record parser_state =
  ps_file :: mem_file
  curr_key :: config_key
  token_state :: token_state
  token_seek_status :: seek_status
  token_start :: nat
  token_end :: nat
  ps_vals :: val_state
  supported_keys :: radix_node

definition token_len :: "parser_state \<Rightarrow> nat" where
  "token_len st = token_end st - token_start st + 1"

definition get_token :: "parser_state \<Rightarrow> string run" where
  "get_token st =
     (if token_start st + token_len st \<le> length (file_text (ps_file st))
      then Inr (take (token_len st) (drop (token_start st) (file_text (ps_file st)))) else Inl OutOfBounds)"

definition is_token_equal_to :: "string \<Rightarrow> parser_state \<Rightarrow> bool run" where
  "is_token_equal_to target st =
     andThen (strlen (cstring target)) (\<lambda>target_len.
       if token_len st \<noteq> target_len then Inr False
       else andThen (strncmp (cstring target) (drop (token_start st) (file_text (ps_file st))) (token_len st))
              (\<lambda>d. Inr (d = 0)))"

definition handle_search_start_marker :: "parser_state \<Rightarrow> (parsing_state \<times> parser_state) run" where
  "handle_search_start_marker st =
     (if token_seek_status st = SEEK_OOM then Inr (PS_DONE_SUCCESS, st)
      else andThen (is_token_equal_to ''[start]'' st) (\<lambda>b.
        if b then Inr (PS_CONTINUE, st\<lparr>token_state := TOKEN_SEARCH_CONFIG_ENTRY_START\<rparr>)
        else andThen (get_token st) (\<lambda>_. Inr (PS_STOP_ERROR, st))))"

definition handle_search_config_entry_start :: "parser_state \<Rightarrow> (parsing_state \<times> parser_state) run" where
  "handle_search_config_entry_start st =
     (if token_seek_status st = SEEK_OOM then Inr (PS_STOP_ERROR, st)
      else andThen (is_token_equal_to ''[end]'' st) (\<lambda>b.
        if b then Inr (PS_CONFIG_ENTRY_COMPLETED, st\<lparr>token_state := TOKEN_SEARCH_START_MARKER\<rparr>)
        else andThen (get_token st) (\<lambda>token.
             andThen (radix_tree_get (supported_keys st) (c_text token)) (\<lambda>key_val.
               case key_val of
                 None \<Rightarrow> Inr (PS_STOP_ERROR, st)
               | Some v \<Rightarrow> Inr (PS_CONTINUE,
                   st\<lparr>curr_key := to_config_key v, token_state := TOKEN_SEARCH_ENTRY_DELIM\<rparr>)))))"

definition handle_search_delim :: "parser_state \<Rightarrow> (parsing_state \<times> parser_state) run" where
  "handle_search_delim st =
     (if token_seek_status st = SEEK_OOM then Inr (PS_STOP_ERROR, st)
      else andThen (is_token_equal_to ''='' st) (\<lambda>b.
        if b then Inr (PS_CONTINUE, st\<lparr>token_state := TOKEN_SEARCH_ENTRY_VAL\<rparr>)
        else andThen (get_token st) (\<lambda>_. Inr (PS_STOP_ERROR, st))))"

primrec is_any_token :: "string list \<Rightarrow> parser_state \<Rightarrow> bool run" where
  "is_any_token [] st = Inr False"
| "is_any_token (t # ts) st =
     andThen (is_token_equal_to t st) (\<lambda>b. if b then Inr True else is_any_token ts st)"

definition handle_search_value :: "parser_state \<Rightarrow> (parsing_state \<times> parser_state) run" where
  "handle_search_value st =
     (if token_seek_status st = SEEK_OOM then Inr (PS_STOP_ERROR, st)
      else andThen (is_any_token reserved_tokens st) (\<lambda>b.
        if b then Inr (PS_STOP_ERROR, st)
        else andThen (get_token st) (\<lambda>token.
             andThen (set_vm_request_val (curr_key st) token (ps_vals st)) (\<lambda>(ok, vals).
               let st = st\<lparr>ps_vals := vals\<rparr> in
               if \<not> ok then Inr (PS_STOP_ERROR, st)
               else Inr (PS_CONTINUE, st\<lparr>token_state := TOKEN_SEARCH_CONFIG_ENTRY_START\<rparr>)))))"

definition handle_token :: "parser_state \<Rightarrow> (parsing_state \<times> parser_state) run" where
  "handle_token st =
     (case token_state st of
        TOKEN_SEARCH_START_MARKER \<Rightarrow> handle_search_start_marker st
      | TOKEN_SEARCH_CONFIG_ENTRY_START \<Rightarrow> handle_search_config_entry_start st
      | TOKEN_SEARCH_ENTRY_DELIM \<Rightarrow> handle_search_delim st
      | TOKEN_SEARCH_ENTRY_VAL \<Rightarrow> handle_search_value st)"

text \<open>Reading the next token into the parser state.\<close>

definition next_token :: "parser_state \<Rightarrow> parser_state run" where
  "next_token st =
     andThen (seek_next_token (ps_file st) (token_start st, token_end st)) (\<lambda>(status, f, s, e).
       Inr (st\<lparr>ps_file := f, token_seek_status := status, token_start := s, token_end := e\<rparr>))"

text \<open>
  The loop of \<^verbatim>\<open>parse_vm_config_file\<close>. Every turn that continues reads a token, hence at least one
  character.
\<close>

fun parse_loop :: "nat \<Rightarrow> parser_state \<Rightarrow> vm_request vector
    \<Rightarrow> (config_parsing_status \<times> parser_state \<times> vm_request vector) run" where
  "parse_loop 0 st req_vec = Inl Spins"
| "parse_loop (Suc fuel) st req_vec =
     andThen (next_token st) (\<lambda>st.
       if token_seek_status st = SEEK_INVALID_SYMBOL then Inr (PARSING_ERR_MALFORMED_FILE, st, req_vec)
       else andThen (handle_token st) (\<lambda>(ps, st).
         case ps of
           PS_CONFIG_ENTRY_COMPLETED \<Rightarrow>
             andThen (valid_config_request (vs_request (ps_vals st))) (\<lambda>valid.
               if \<not> valid then Inr (PARSING_ERR_INVALID_ENTRY, st, req_vec)
               else andThen (vec_push_back req_vec (vs_request (ps_vals st))) (\<lambda>req_vec.
                 parse_loop fuel
                   (st\<lparr>ps_vals := (ps_vals st)\<lparr>vs_request :=
                          zero_request (req_id (vs_request (ps_vals st)) + 1)\<rparr>\<rparr>) req_vec))
         | PS_CONTINUE \<Rightarrow> parse_loop fuel st req_vec
         | PS_DONE_SUCCESS \<Rightarrow> Inr (PARSING_SUCCESS, st, req_vec)
         | PS_STOP_ERROR \<Rightarrow> Inr (PARSING_ERR_MALFORMED_FILE, st, req_vec)))"

definition init_parser :: "mem_file \<Rightarrow> radix_node \<Rightarrow> serial_dev_info list \<Rightarrow> bool list \<Rightarrow> parser_state" where
  "init_parser f keys serial os = \<lparr>ps_file = f, curr_key = CONFIG_VM_NAME_KEY,
     token_state = TOKEN_SEARCH_START_MARKER, token_seek_status = SEEK_OOM, token_start = 0, token_end = 0,
     ps_vals = \<lparr>vs_request = zero_request 0, vs_serial = serial, vs_allocs = os\<rparr>, supported_keys = keys\<rparr>"

definition parse_vm_config_file ::
  "mem_file \<Rightarrow> radix_node \<Rightarrow> serial_dev_info list \<Rightarrow> bool list \<Rightarrow> vm_request vector
    \<Rightarrow> (config_parsing_status \<times> parser_state \<times> vm_request vector) run" where
  "parse_vm_config_file f keys serial os req_vec =
     parse_loop (length (file_text f) + 2) (init_parser f keys serial os) req_vec"

section \<open>Requests and configurations from the boot modules\<close>

record limine_file =
  lf_string :: string
  lf_address :: u64
  lf_size :: u64
  lf_content :: string

fun get_limine_file :: "limine_file list \<Rightarrow> string \<Rightarrow> limine_file option" where
  "get_limine_file [] file_name = None"
| "get_limine_file (m # mods) file_name =
     (if lf_string m = file_name then Some m else get_limine_file mods file_name)"

definition get_vm_config_file :: "limine_file list \<Rightarrow> mem_file option" where
  "get_vm_config_file mods =
     (case get_limine_file mods ''hyvemind_config'' of
        None \<Rightarrow> None
      | Some raw_file \<Rightarrow> Some \<lparr>file_text = lf_content raw_file, file_pos = 0, file_ops = config_ops\<rparr>)"

fun add_keys :: "bool list \<Rightarrow> radix_node \<Rightarrow> (u64 \<times> string) list \<Rightarrow> (radix_node option \<times> bool list) run" where
  "add_keys os tree [] = Inr (Some tree, os)"
| "add_keys os tree ((i, k) # kis) =
     andThen (radix_tree_add os tree k i) (\<lambda>(ok, tree, os).
       if \<not> ok then Inr (None, os) else add_keys os tree kis)"

definition config_keys :: "(u64 \<times> string) list" where
  "config_keys = zip (map of_nat [0 ..< 9]) (map snd config_key_strings)"

definition get_config_key_radix :: "bool list \<Rightarrow> (radix_node option \<times> bool list) run" where
  "get_config_key_radix os =
     (case create_radix_tree os of
        (None, os) \<Rightarrow> Inr (None, os)
      | (Some tree, os) \<Rightarrow> add_keys os tree config_keys)"

text \<open>
  \<^verbatim>\<open>get_vm_requests\<close>: the requests (\<open>None\<close> for a null result), the serial devices and the remaining
  allocation outcomes.
\<close>

definition get_vm_requests ::
  "limine_file list \<Rightarrow> serial_dev_info list \<Rightarrow> bool list
    \<Rightarrow> (vm_request vector option \<times> serial_dev_info list \<times> bool list) run" where
  "get_vm_requests mods serial os =
     (case get_vm_config_file mods of
        None \<Rightarrow> Inr (None, serial, os)
      | Some config \<Rightarrow>
          andThen (get_config_key_radix os) (\<lambda>(keys, os).
            case keys of
              None \<Rightarrow> Inr (None, serial, os)
            | Some keys \<Rightarrow>
                (let (ok1, os) = next_alloc os;
                     (ok2, os) = (if ok1 then next_alloc os else (False, os))
                 in case vec_create ok1 ok2 512 of
                      None \<Rightarrow> Inr (None, serial, os)
                    | Some requests \<Rightarrow>
                        andThen (parse_vm_config_file config keys serial os requests) (\<lambda>(status, st, requests).
                          Inr (if status = PARSING_SUCCESS then Some requests else None,
                               vs_serial (ps_vals st), vs_allocs (ps_vals st))))))"

record file_info =
  fi_addr :: u64
  fi_size :: u64

record linux_boot_info =
  lb_bzImage :: file_info
  lb_initramfs :: file_info
  lb_cmdline :: "string option"

record vm_config =
  cfg_name :: "string option"
  cfg_type :: guest_type
  nr_vcpus :: u32
  mem_size :: u64
  granularity :: mem_granularity
  boot_linux :: linux_boot_info
  uart_info :: guest_uart_info

text \<open>\<^verbatim>\<open>strdup_nt\<close> reads its argument, also when it is a null pointer.\<close>

definition strdup_ptr :: "bool list \<Rightarrow> string option \<Rightarrow> (string option \<times> bool list) run" where
  "strdup_ptr os s = (case s of None \<Rightarrow> Inl NullDeref | Some t \<Rightarrow> Inr (strdup_prefix os t))"

definition name_ptr :: "string option \<Rightarrow> string run" where
  "name_ptr s = (case s of None \<Rightarrow> Inl NullDeref | Some t \<Rightarrow> Inr t)"

definition get_linux_boot_info ::
  "limine_file list \<Rightarrow> vm_request \<Rightarrow> vm_config \<Rightarrow> bool list \<Rightarrow> (bool \<times> vm_config \<times> bool list) run" where
  "get_linux_boot_info mods req config os =
     andThen (name_ptr (bzImage_name req)) (\<lambda>bz.
     case get_limine_file mods bz of
       None \<Rightarrow> Inr (False, config, os)
     | Some raw_bzimage \<Rightarrow>
         (let config = config\<lparr>boot_linux := (boot_linux config)\<lparr>lb_bzImage :=
                          \<lparr>fi_addr = lf_address raw_bzimage, fi_size = lf_size raw_bzimage\<rparr>\<rparr>\<rparr> in
          andThen (name_ptr (initramfs_name req)) (\<lambda>ir.
          case get_limine_file mods ir of
            None \<Rightarrow> Inr (False, config, os)
          | Some raw_initramfs \<Rightarrow>
              (let config = config\<lparr>boot_linux := (boot_linux config)\<lparr>lb_initramfs :=
                              \<lparr>fi_addr = lf_address raw_initramfs, fi_size = lf_size raw_initramfs\<rparr>\<rparr>\<rparr> in
               andThen (strdup_ptr os (req_cmdline req)) (\<lambda>(cmdline, os).
                 Inr (True, config\<lparr>boot_linux := (boot_linux config)\<lparr>lb_cmdline := cmdline\<rparr>\<rparr>, os))))))"

definition get_serial_dev_info :: "vm_config \<Rightarrow> vm_request \<Rightarrow> serial_dev_info list \<Rightarrow> vm_config run" where
  "get_serial_dev_info config req serial =
     (if serial_id req = 0 then Inr config
      else andThen (at serial (serial_id req)) (\<lambda>dev. Inr (config\<lparr>uart_info := info dev\<rparr>)))"

definition zero_config :: vm_config where
  "zero_config = \<lparr>cfg_name = None, cfg_type = GUEST_UNSPECIFIED, nr_vcpus = 0, mem_size = 0, granularity = BYTES,
     boot_linux = \<lparr>lb_bzImage = \<lparr>fi_addr = 0, fi_size = 0\<rparr>, lb_initramfs = \<lparr>fi_addr = 0, fi_size = 0\<rparr>, lb_cmdline = None\<rparr>,
     uart_info = \<lparr>configured = False, host_base_port = 0, host_irq = 0, vm_irq = 0\<rparr>\<rparr>"

definition vm_req_to_vm_config ::
  "limine_file list \<Rightarrow> serial_dev_info list \<Rightarrow> vm_request \<Rightarrow> bool list \<Rightarrow> (bool \<times> vm_config \<times> bool list) run" where
  "vm_req_to_vm_config mods serial req os =
     andThen (strdup_ptr os (req_name req)) (\<lambda>(nm, os).
     let config = zero_config\<lparr>cfg_name := nm, cfg_type := req_type req, nr_vcpus := vcpus req,
                     mem_size := ucast (req_mem_size req), granularity := req_granularity req\<rparr> in
     andThen (get_serial_dev_info config req serial) (\<lambda>config.
     case cfg_type config of
       LINUX_DIRECT_BOOT_32BIT \<Rightarrow> get_linux_boot_info mods req config os
     | MIRROR_VMM \<Rightarrow> Inr (True, config, os)
     | GUEST_UNSPECIFIED \<Rightarrow> Inl Die))"

fun configs_loop ::
  "limine_file list \<Rightarrow> serial_dev_info list \<Rightarrow> vm_request list \<Rightarrow> vm_config vector \<Rightarrow> bool list
    \<Rightarrow> (vm_config vector option \<times> bool list) run" where
  "configs_loop mods serial [] configs os = Inr (Some configs, os)"
| "configs_loop mods serial (req # reqs) configs os =
     andThen (vm_req_to_vm_config mods serial req os) (\<lambda>(ok, config, os).
     andThen (vec_push_back configs config) (\<lambda>configs.
       if \<not> ok then Inr (None, os) else configs_loop mods serial reqs configs os))"

definition get_vm_configs ::
  "limine_file list \<Rightarrow> bool list \<Rightarrow> (vm_config vector option \<times> bool list) run" where
  "get_vm_configs mods os =
     andThen (get_vm_requests mods serial_devices os) (\<lambda>(requests, serial, os).
       case requests of
         None \<Rightarrow> Inr (None, os)
       | Some requests \<Rightarrow>
           (let nr_reqs = vec_size requests in
            if nr_reqs < 1 then Inr (None, os)
            else (let (ok1, os) = next_alloc os;
                      (ok2, os) = (if ok1 then next_alloc os else (False, os))
                  in case vec_create ok1 ok2 nr_reqs of
                       None \<Rightarrow> Inr (None, os)
                     | Some configs \<Rightarrow> configs_loop mods serial (vec_elements requests) configs os)))"

definition get_vm_config_req_bytes :: "vm_config \<Rightarrow> u64" where
  "get_vm_config_req_bytes config =
     (case granularity config of
        BYTES \<Rightarrow> mem_size config
      | KB \<Rightarrow> U64_LSHIFT (mem_size config) 10
      | MB \<Rightarrow> U64_LSHIFT (mem_size config) 20
      | GB \<Rightarrow> U64_LSHIFT (mem_size config) 30)"

section \<open>The key tree\<close>

abbreviation key_tree :: radix_node where
  "key_tree \<equiv> radix.of_list (map prod.swap config_keys)"

lemma add_keys_ok:
  "node_ok t \<Longrightarrow>
   add_keys [] t kis = Inr (Some (foldl (\<lambda>m (k, v). radix_update k v m) t (map prod.swap kis)), [])"
  by (induction kis arbitrary: t) (auto simp: radix_add_ok)

lemma node_ok_key_tree: "node_ok key_tree"
  using radix.foldl_update[OF radix.invar_empty] by (auto simp: radix.of_list_def)

lemma config_keys_eval: "config_keys =
  [(0, ''vm.name''), (1, ''vm.type''), (2, ''vm.vcpus''), (3, ''vm.mem.size''), (4, ''vm.mem.granularity''),
   (5, ''vm.boot.linux.bzimage''), (6, ''vm.boot.linux.initramfs''), (7, ''vm.boot.linux.cmdline''),
   (8, ''vm.dev.serial'')]"
  by (simp add: config_keys_def config_key_strings_def upt_rec)

lemma get_config_key_radix_ok: "get_config_key_radix [] = Inr (Some key_tree, [])"
  using add_keys_ok[of fresh_node config_keys] radix.invar_empty
  by (simp add: get_config_key_radix_def create_radix_tree_def radix.of_list_def)

lemma distinct_config_keys: "distinct (map fst (map prod.swap config_keys))"
  by (simp add: config_keys_eval)

lemma key_tree_get: "radix_tree_get key_tree k = Inr (map_of (map prod.swap config_keys) k)"
  using radix_get_lookup[OF node_ok_key_tree, of k] radix.lookup_of_distinct[OF distinct_config_keys, of k]
  by simp

definition key_of :: "string \<Rightarrow> config_key option" where
  "key_of s = map_of (map prod.swap config_key_strings) s"

lemma key_tree_key: "map_option to_config_key (map_of (map prod.swap config_keys) k) = key_of k"
  by (simp add: config_keys_eval key_of_def config_key_strings_def to_config_key_def)

section \<open>Requests and their devices\<close>

definition owns_serial :: "serial_dev_info list \<Rightarrow> vm_request \<Rightarrow> bool" where
  "owns_serial serial r \<longleftrightarrow>
     (serial_id r \<noteq> 0 \<longrightarrow> serial_id r < length serial \<and> assignee (serial ! serial_id r) = req_id r)"

definition requests_ok :: "val_state \<Rightarrow> vm_request list \<Rightarrow> bool" where
  "requests_ok s reqs \<longleftrightarrow> distinct (map req_id reqs) \<and> 0 \<le> req_id (vs_request s)
     \<and> owns_serial (vs_serial s) (vs_request s)
     \<and> (\<forall>r \<in> set reqs. 0 \<le> req_id r \<and> req_id r < req_id (vs_request s)
           \<and> owns_serial (vs_serial s) r \<and> valid_config_request r = Inr True)"

lemma requests_okI:
  assumes "requests_ok s reqs" "vs_serial s' = vs_serial s" "req_id (vs_request s') = req_id (vs_request s)"
    "serial_id (vs_request s') = serial_id (vs_request s)"
  shows "requests_ok s' reqs"
  using assms by (auto simp: requests_ok_def owns_serial_def)

lemma requests_ok_assign:
  assumes "requests_ok s reqs" "i < length (vs_serial s)"
    "assignee (vs_serial s ! i) = -1 \<or> assignee (vs_serial s ! i) = req_id (vs_request s)"
  shows "requests_ok (s\<lparr>vs_serial := (vs_serial s)[i := (vs_serial s ! i)\<lparr>assignee := req_id (vs_request s)\<rparr>],
            vs_request := (vs_request s)\<lparr>serial_id := i\<rparr>\<rparr>) reqs"
proof -
  have "serial_id r \<noteq> i" if "r \<in> set reqs" "serial_id r \<noteq> 0" for r
    using assms that by (auto simp: requests_ok_def owns_serial_def)
  then show ?thesis
    using assms by (auto simp: requests_ok_def owns_serial_def nth_list_update)
qed

lemma set_vm_request_val_ok:
  assumes "set_vm_request_val k v s = Inr (ok, s')" "requests_ok s reqs"
  shows "requests_ok s' reqs \<and> req_id (vs_request s') = req_id (vs_request s)"
proof (cases "k = CONFIG_VM_DEV_SERIAL_KEY")
  case True
  then show ?thesis
    using assms requests_ok_assign[OF assms(2)]
    by (auto simp: set_vm_request_val_def run_simps Let_def split: if_splits)
next
  case False
  then have "vs_serial s' = vs_serial s \<and> req_id (vs_request s') = req_id (vs_request s)
    \<and> serial_id (vs_request s') = serial_id (vs_request s)"
    using assms(1)
    by (auto simp: set_vm_request_val_def run_simps Let_def dup_into_def split: config_key.splits option.splits prod.splits)
  then show ?thesis using requests_okI[OF assms(2)] by blast
qed

lemma handle_token_ok:
  assumes "handle_token st = Inr (ps, st')" "requests_ok (ps_vals st) reqs"
  shows "requests_ok (ps_vals st') reqs"
  using assms set_vm_request_val_ok
  by (auto simp: handle_token_def handle_search_start_marker_def handle_search_config_entry_start_def
      handle_search_delim_def handle_search_value_def run_simps Let_def
      split: token_state.splits if_splits option.splits)

lemma requests_ok_push:
  assumes "requests_ok s reqs" "valid_config_request (vs_request s) = Inr True"
  shows "requests_ok (s\<lparr>vs_request := zero_request (req_id (vs_request s) + 1)\<rparr>) (reqs @ [vs_request s])"
  using assms by (auto simp: requests_ok_def owns_serial_def zero_request_def)

lemma parse_loop_ok:
  assumes "parse_loop fuel st vec = Inr (status, st', vec')" "requests_ok (ps_vals st) (vec_elements vec)"
  shows "requests_ok (ps_vals st') (vec_elements vec')"
  using assms
proof (induction fuel arbitrary: st vec)
  case (Suc fuel)
  from Suc.prems(1) obtain st1 where st1: "next_token st = Inr st1" by (auto simp: run_simps)
  then have v1: "requests_ok (ps_vals st1) (vec_elements vec)"
    using Suc.prems(2) by (auto simp: next_token_def run_simps)
  show ?case
  proof (cases "token_seek_status st1 = SEEK_INVALID_SYMBOL")
    case True
    then show ?thesis using Suc.prems(1) st1 v1 by simp
  next
    case False
    then obtain ps st2 where h: "handle_token st1 = Inr (ps, st2)"
      using Suc.prems(1) st1 by (auto simp: run_simps)
    note v2 = handle_token_ok[OF h v1]
    show ?thesis
    proof (cases ps)
      case PS_CONFIG_ENTRY_COMPLETED
      then show ?thesis
        using Suc.prems(1) st1 False h v2 requests_ok_push[OF v2]
        by (auto simp: run_simps vec_push_back_def dest!: Suc.IH split: if_splits)
    qed (use Suc.prems(1) st1 False h v2 in \<open>auto intro: Suc.IH\<close>)
  qed
qed simp


section \<open>Termination\<close>

lemma find_token_found:
  assumes "find_token fuel f None e loc out = Inr (status, f', se)"
  shows "status \<in> {SEEK_OOM, SEEK_INVALID_SYMBOL, SEEK_TOKEN} \<and> file_text f' = file_text f
    \<and> (status = SEEK_TOKEN \<longrightarrow> file_pos f < file_pos f' \<and> file_pos f < length (file_text f))"
  using assms
proof (induction fuel arbitrary: f loc)
  case (Suc fuel)
  then obtain s1 f1 l1 where s1: "seek_token_in_line f loc = Inr (s1, f1, l1)" by (auto simp: run_simps)
  note c = seek_token_in_line_cases[OF s1]
  show ?case
  proof (cases "s1 = SEEK_NO_TOKEN")
    case True
    note nl = seek_newline_after_no_token[OF s1[unfolded True]]
    obtain st where n: "seek_newline f1 True = Inr (st, f\<lparr>file_pos := Suc (file_pos f1)\<rparr>)" using nl(3) by blast
    have "find_token fuel (f\<lparr>file_pos := Suc (file_pos f1)\<rparr>) None e l1 out = Inr (status, f', se)"
      using Suc.prems s1 True n by simp
    from Suc.IH[OF this] nl(1,2) show ?thesis by auto
  next
    case False
    have t: "s1 = SEEK_TOKEN \<Longrightarrow> file_pos f < file_pos f1"
      using c token_loop_progress by (metis seek_status.distinct(7))
    have "f1 = f \<or> f1 = f\<lparr>file_pos := file_pos f1\<rparr>" using c by auto
    then have "file_text f1 = file_text f" by (metis mem_file.select_convs(1) mem_file.surjective mem_file.update_convs(2))
    then show ?thesis
      using Suc.prems s1 False c t by (auto simp: file_oom_def split: if_splits)
  qed
qed simp

lemma next_token_found:
  assumes "next_token st = Inr st'"
  shows "token_seek_status st' \<in> {SEEK_OOM, SEEK_INVALID_SYMBOL, SEEK_TOKEN}"
    and "file_text (ps_file st') = file_text (ps_file st)"
    and "token_seek_status st' = SEEK_TOKEN \<Longrightarrow>
      file_pos (ps_file st) < file_pos (ps_file st') \<and> file_pos (ps_file st) < length (file_text (ps_file st))"
    and "supported_keys st' = supported_keys st"
  using assms find_token_found
  by (fastforce simp: next_token_def seek_next_token_def run_simps simp del: find_token.simps)+

lemma is_token_equal_no_spin: "is_token_equal_to t st \<noteq> Inl Spins"
  using strlen_Inl[of "cstring t" Spins] strncmp_Inl[of "cstring t" _ _ Spins]
  by (auto simp: is_token_equal_to_def andThen_eq_Inl split: if_splits)

lemma is_any_token_no_spin: "is_any_token ts st \<noteq> Inl Spins"
  using is_token_equal_no_spin by (induction ts) (auto simp: andThen_eq_Inl split: if_splits)

lemma numeric_value_no_spin: "numeric_value v \<noteq> Inl Spins"
proof -
  have d: "strtoul_digits s i r \<noteq> Inl Spins" for s i r
    by (induction s arbitrary: i r) (auto simp: Let_def)
  have "strtoul_prefix s i \<noteq> Inl Spins" for s i
    by (induction s arbitrary: i) (auto simp: d andThen_eq_Inl at_def simp del: strtoul_digits.simps)
  then show ?thesis by (auto simp: numeric_value_def strtoul_def andThen_eq_Inl at_def Let_def split: if_splits)
qed

lemma set_vm_request_val_no_spin: "set_vm_request_val k v s \<noteq> Inl Spins"
  using numeric_value_no_spin[of v]
  by (auto simp: set_vm_request_val_def dup_into_def andThen_eq_Inl at_def put_def Let_def
      split: config_key.splits option.splits prod.splits if_splits)

lemma handle_token_no_spin:
  assumes "node_ok (supported_keys st)"
  shows "handle_token st \<noteq> Inl Spins"
  using is_token_equal_no_spin[of _ st] is_any_token_no_spin[of _ st] set_vm_request_val_no_spin
    radix_get_lookup[OF assms]
  by (auto simp: handle_token_def handle_search_start_marker_def handle_search_config_entry_start_def
      handle_search_delim_def handle_search_value_def get_token_def andThen_eq_Inl Let_def
      split: token_state.splits option.splits prod.splits if_splits)

lemma handle_token_continue:
  assumes "handle_token st = Inr (ps, st')"
  shows "ps_file st' = ps_file st \<and> supported_keys st' = supported_keys st
    \<and> (ps = PS_CONTINUE \<or> ps = PS_CONFIG_ENTRY_COMPLETED \<longrightarrow> token_seek_status st \<noteq> SEEK_OOM)"
  using assms
  by (auto simp: handle_token_def handle_search_start_marker_def handle_search_config_entry_start_def
      handle_search_delim_def handle_search_value_def run_simps Let_def
      split: token_state.splits option.splits if_splits)

lemma parse_loop_no_spin:
  assumes "node_ok (supported_keys st)" "length (file_text (ps_file st)) < file_pos (ps_file st) + fuel" "0 < fuel"
  shows "parse_loop fuel st vec \<noteq> Inl Spins"
  using assms
proof (induction fuel arbitrary: st vec)
  case (Suc fuel)
  have seek: "next_token st \<noteq> Inl Spins"
    by (auto simp: next_token_def seek_next_token_def andThen_eq_Inl find_token_terminates simp del: find_token.simps)
  have turn: "parse_loop fuel (st2\<lparr>ps_vals := v\<rparr>) vec' \<noteq> Inl Spins"
    if "next_token st = Inr st1" "handle_token st1 = Inr (ps, st2)" "token_seek_status st1 \<noteq> SEEK_INVALID_SYMBOL"
      "ps = PS_CONTINUE \<or> ps = PS_CONFIG_ENTRY_COMPLETED" for st1 st2 ps vec' v
  proof -
    have "token_seek_status st1 = SEEK_TOKEN"
      using next_token_found(1)[OF that(1)] handle_token_continue[OF that(2)] that(3,4) by auto
    note f = next_token_found(2-4)[OF that(1)] this
    show ?thesis
    proof (rule Suc.IH)
      show "node_ok (supported_keys (st2\<lparr>ps_vals := v\<rparr>))"
        using Suc.prems(1) f(3) handle_token_continue[OF that(2)] by simp
      show "length (file_text (ps_file (st2\<lparr>ps_vals := v\<rparr>))) < file_pos (ps_file (st2\<lparr>ps_vals := v\<rparr>)) + fuel" "0 < fuel"
        using f Suc.prems(2) handle_token_continue[OF that(2)] by auto
    qed
  qed
  have hs: "handle_token st1 \<noteq> Inl Spins" if "next_token st = Inr st1" for st1
    using handle_token_no_spin next_token_found(4)[OF that] Suc.prems(1) by simp
  show ?case
  proof
    assume "parse_loop (Suc fuel) st vec = Inl Spins"
    then obtain st1 ps st2 where s: "next_token st = Inr st1" "handle_token st1 = Inr (ps, st2)"
        "token_seek_status st1 \<noteq> SEEK_INVALID_SYMBOL"
      and r: "(case ps of
           PS_CONFIG_ENTRY_COMPLETED \<Rightarrow>
             andThen (valid_config_request (vs_request (ps_vals st2))) (\<lambda>valid.
               if \<not> valid then Inr (PARSING_ERR_INVALID_ENTRY, st2, vec)
               else andThen (vec_push_back vec (vs_request (ps_vals st2))) (\<lambda>req_vec.
                 parse_loop fuel
                   (st2\<lparr>ps_vals := (ps_vals st2)\<lparr>vs_request :=
                          zero_request (req_id (vs_request (ps_vals st2)) + 1)\<rparr>\<rparr>) req_vec))
         | PS_CONTINUE \<Rightarrow> parse_loop fuel st2 vec
         | PS_DONE_SUCCESS \<Rightarrow> Inr (PARSING_SUCCESS, st2, vec)
         | PS_STOP_ERROR \<Rightarrow> Inr (PARSING_ERR_MALFORMED_FILE, st2, vec)) = Inl Spins"
      using seek hs by (auto simp: andThen_eq_Inl split: if_splits)
    have "parse_loop fuel st2 vec \<noteq> Inl Spins" if "ps = PS_CONTINUE"
      using turn[OF s, of "ps_vals st2" vec] that by simp
    moreover have "valid_config_request x \<noteq> Inl Spins" for x
      by (auto simp: valid_config_request_def split: guest_type.splits)
    ultimately show False
      using r turn[OF s] by (auto simp: andThen_eq_Inl vec_push_back_def split: parsing_state.splits if_splits)
  qed
qed simp

section \<open>Reading tokens\<close>

text \<open>The parser state before the text \<open>r\<close>, with the tree of the supported keys.\<close>

definition at_text :: "parser_state \<Rightarrow> string \<Rightarrow> bool" where
  "at_text st r \<longleftrightarrow> drop (file_pos (ps_file st)) (file_text (ps_file st)) = r
     \<and> file_ops (ps_file st) = config_ops \<and> supported_keys st = key_tree"

text \<open>The state after a token \<open>w\<close> was read and before the text \<open>r\<close>.\<close>

definition read_token :: "parser_state \<Rightarrow> string \<Rightarrow> string \<Rightarrow> parser_state \<Rightarrow> bool" where
  "read_token st w r st' \<longleftrightarrow> next_token st = Inr st' \<and> token_seek_status st' = SEEK_TOKEN
     \<and> get_token st' = Inr w \<and> (\<forall>t. nul_free t \<longrightarrow> is_token_equal_to t st' = Inr (t = w)) \<and> at_text st' r
     \<and> token_state st' = token_state st \<and> curr_key st' = curr_key st \<and> ps_vals st' = ps_vals st"

lemma read_tokenI:
  assumes "at_text st (bl @ a @ w @ r)" "list_all (blank config_ops) bl" "w \<noteq> []"
    and "\<And>p se. token_loop config_ops (a @ w @ r) p 0 False False se
           = Inr (SEEK_TOKEN, p + length (a @ w @ b), p + length a, p + (length a + length w - 1))"
    and "r = b @ r'"
  shows "\<exists>st'. read_token st w r' st'"
proof -
  let ?f = "ps_file st"
  have d: "drop (file_pos ?f) (file_text ?f) = bl @ (a @ w @ r)" "file_ops ?f = config_ops"
    using assms(1) by (simp_all add: at_text_def)
  let ?p = "file_pos ?f + length bl"
  have seek: "seek_next_token ?f (token_start st, token_end st) =
      Inr (SEEK_TOKEN, ?f\<lparr>file_pos := ?p + length (a @ w @ b)\<rparr>, ?p + length a, ?p + (length a + length w - 1))"
    using seek_next_token_found[OF d(1), of "length (a @ w @ b)" "length a" "length a + length w - 1"] assms(2-4) d(2)
    by (simp add: Let_def)
  define st' where "st' = st\<lparr>ps_file := ?f\<lparr>file_pos := ?p + length (a @ w @ b)\<rparr>, token_seek_status := SEEK_TOKEN,
      token_start := ?p + length a, token_end := ?p + (length a + length w - 1)\<rparr>"
  have nt: "next_token st = Inr st'" by (simp add: next_token_def seek st'_def)
  have len: "token_len st' = length w" using assms(3) by (cases w) (auto simp: token_len_def st'_def)
  have drop: "drop (?p + length a) (file_text ?f) = w @ r"
    using d(1) by (metis append_assoc append_eq_conv_conj drop_drop add.commute length_append)
  then have "?p + length a + length w \<le> length (file_text ?f)"
    by (metis assms(3) append_is_Nil_conv drop_eq_Nil2 length_append length_drop le_add1 le_diff_conv2
        linorder_linear add.commute)
  then have get: "get_token st' = Inr w" by (simp add: get_token_def len) (simp add: st'_def drop)
  have eq: "is_token_equal_to t st' = Inr (t = w)" if "nul_free t" for t
  proof (cases "length t = length w")
    case True
    then show ?thesis
      using strncmp_same_length[of t "w @ r" "[NUL]"] that drop
      by (simp add: is_token_equal_to_def len) (simp add: st'_def cstring_def)
  next
    case False
    then show ?thesis using that by (auto simp: is_token_equal_to_def len)
  qed
  have "drop (?p + length (a @ w @ b)) (file_text ?f) = r'"
    using d(1) assms(5) by (metis append_assoc append_eq_conv_conj drop_drop add.commute length_append)
  then have "at_text st' r'" using assms(1) by (simp add: at_text_def st'_def)
  then show ?thesis using nt get eq by (auto simp: read_token_def st'_def)
qed

lemma valid_config_char_plain: "is_valid_config_token_char c \<Longrightarrow> plain_char config_ops c"
  by (auto simp: is_valid_config_token_char_def plain_char_def config_ops_def is_config_whitespace_def
      is_config_delim_def)

lemma read_word:
  assumes "at_text st (bl @ w @ e # r)" "list_all (blank config_ops) bl" "w \<noteq> []"
    and "list_all is_valid_config_token_char w" "ends_token config_ops e"
  shows "\<exists>st'. read_token st w (e # r) st'"
proof -
  have "list_all (plain_char config_ops) w"
    using assms(4) valid_config_char_plain by (auto simp: list_all_iff)
  then show ?thesis
    using read_tokenI[of st bl "[]" w "e # r" "[]" "e # r"] assms token_loop_word[of config_ops w e r]
    by (cases w) auto
qed

lemma read_delim:
  assumes "at_text st (bl @ ''='' @ r)" "list_all (blank config_ops) bl"
  shows "\<exists>st'. read_token st ''='' r st'"
proof -
  have "\<not> is_whitespace config_ops CHR ''=''" "is_delim config_ops CHR ''=''"
    by (simp_all add: config_ops_def is_config_whitespace_def is_config_delim_def)
  then show ?thesis
    using read_tokenI[of st bl "[]" "''=''" r "[]" r] assms by simp
qed

lemma read_quoted:
  assumes "at_text st (bl @ QUOTE # w @ QUOTE # r)" "list_all (blank config_ops) bl" "2 \<le> length w"
    and "QUOTE \<notin> set w"
  shows "\<exists>st'. read_token st w r st'"
proof -
  have "quote_ok config_ops"
    by (simp add: quote_ok_def config_ops_def is_config_whitespace_def is_config_delim_def
        is_valid_config_token_char_def)
  then have "token_loop config_ops ([QUOTE] @ w @ QUOTE # r) p 0 False False se
      = Inr (SEEK_TOKEN, p + length ([QUOTE] @ w @ [QUOTE]), p + length [QUOTE],
             p + (length [QUOTE] + length w - 1))" for p se
    using token_loop_quotes[of config_ops w r p 0 se] assms(3,4) by (simp del: token_loop.simps)
  moreover have "at_text st (bl @ [QUOTE] @ w @ QUOTE # r)" "w \<noteq> []" using assms(1,3) by auto
  ultimately show ?thesis
    by (intro read_tokenI[of st bl "[QUOTE]" w "QUOTE # r" "[QUOTE]" r] assms(2)) simp_all
qed

lemma read_end:
  assumes "at_text st bl" "list_all (blank config_ops) bl" "bl = [] \<or> last bl = LINE_BREAK"
  shows "\<exists>st'. next_token st = Inr st' \<and> token_seek_status st' = SEEK_OOM
    \<and> token_state st' = token_state st \<and> ps_vals st' = ps_vals st"
  using seek_next_token_end[of "ps_file st" bl] assms by (auto simp: at_text_def next_token_def)

lemma parse_loop_continue:
  assumes "read_token st w r st1" "handle_token st1 = Inr (PS_CONTINUE, st2)"
  shows "parse_loop (Suc fuel) st vec = parse_loop fuel st2 vec"
  using assms by (simp add: read_token_def)

section \<open>Printed configurations\<close>

definition value_ok :: "string \<Rightarrow> bool" where
  "value_ok v \<longleftrightarrow> v \<notin> set reserved_tokens
     \<and> (v \<noteq> [] \<and> list_all is_valid_config_token_char v \<or> 2 \<le> length v \<and> QUOTE \<notin> set v)"

definition render_value :: "string \<Rightarrow> string" where
  "render_value v = (if list_all is_valid_config_token_char v then v else QUOTE # v @ [QUOTE])"

definition key_text :: "config_key \<Rightarrow> string" where
  "key_text k = the (map_of config_key_strings k)"

definition line_ok :: "config_key \<times> string \<Rightarrow> bool" where
  "line_ok l \<longleftrightarrow> fst l \<in> fst ` set config_key_strings \<and> value_ok (snd l)"

definition render_line :: "config_key \<times> string \<Rightarrow> string" where
  "render_line l = key_text (fst l) @ '' = '' @ render_value (snd l) @ [LINE_BREAK]"

definition render_section :: "(config_key \<times> string) list \<Rightarrow> string" where
  "render_section ls = ''[start]'' @ LINE_BREAK # concat (map render_line ls) @ ''[end]'' @ [LINE_BREAK]"

primrec apply_lines :: "(config_key \<times> string) list \<Rightarrow> val_state \<Rightarrow> (bool \<times> val_state) run" where
  "apply_lines [] s = Inr (True, s)"
| "apply_lines (l # ls) s =
     andThen (set_vm_request_val (fst l) (snd l) s) (\<lambda>(ok, s). if ok then apply_lines ls s else Inr (False, s))"

primrec apply_sections :: "(config_key \<times> string) list list \<Rightarrow> val_state \<Rightarrow> vm_request vector
    \<Rightarrow> (config_parsing_status \<times> val_state \<times> vm_request vector) run" where
  "apply_sections [] s vec = Inr (PARSING_SUCCESS, s, vec)"
| "apply_sections (ls # lss) s vec =
     andThen (apply_lines ls s) (\<lambda>(ok, s).
       if \<not> ok then Inr (PARSING_ERR_MALFORMED_FILE, s, vec)
       else andThen (valid_config_request (vs_request s)) (\<lambda>valid.
         if \<not> valid then Inr (PARSING_ERR_INVALID_ENTRY, s, vec)
         else andThen (vec_push_back vec (vs_request s)) (\<lambda>vec.
           apply_sections lss (s\<lparr>vs_request := zero_request (req_id (vs_request s) + 1)\<rparr>) vec)))"

definition parse_result :: "(config_parsing_status \<times> parser_state \<times> vm_request vector) run
    \<Rightarrow> (config_parsing_status \<times> val_state \<times> vm_request vector) run" where
  "parse_result x = andThen x (\<lambda>(status, st, vec). Inr (status, ps_vals st, vec))"

lemma blank_newline [simp]: "blank config_ops LINE_BREAK" "blank config_ops CHR '' ''"
  "ends_token config_ops LINE_BREAK" "ends_token config_ops CHR '' ''"
  by (simp_all add: blank_def ends_token_def config_ops_def is_config_whitespace_def)

lemma read_value:
  assumes "at_text st ('' '' @ render_value v @ LINE_BREAK # r)" "value_ok v"
  shows "\<exists>st'. read_token st v (LINE_BREAK # r) st'"
proof (cases "list_all is_valid_config_token_char v")
  case True
  then show ?thesis using assms by (intro read_word[of st "'' ''"]) (auto simp: render_value_def value_ok_def)
next
  case False
  then show ?thesis using assms by (intro read_quoted[of st "'' ''"]) (auto simp: render_value_def value_ok_def)
qed

lemma key_text_ok:
  assumes "k \<in> fst ` set config_key_strings"
  shows "key_text k \<noteq> []" "list_all is_valid_config_token_char (key_text k)" "key_of (key_text k) = Some k"
    "c_text (key_text k) = key_text k" "key_text k \<noteq> ''[end]''"
  using assms by (auto simp: config_key_strings_def key_text_def key_of_def c_text_def
      is_valid_config_token_char_def)

lemma handle_key:
  assumes "read_token st (key_text k) r st1" "k \<in> fst ` set config_key_strings"
    "token_state st = TOKEN_SEARCH_CONFIG_ENTRY_START"
  shows "handle_token st1 = Inr (PS_CONTINUE, st1\<lparr>curr_key := k, token_state := TOKEN_SEARCH_ENTRY_DELIM\<rparr>)"
proof -
  obtain i where i: "map_of (map prod.swap config_keys) (key_text k) = Some i" "to_config_key i = k"
    using key_tree_key[of "key_text k"] key_text_ok(3)[OF assms(2)] by auto
  then show ?thesis
    using assms key_text_ok[OF assms(2)] key_tree_get[of "key_text k"]
    by (auto simp: read_token_def handle_token_def handle_search_config_entry_start_def at_text_def nul_free_def)
qed

lemma at_text_update [simp]:
  "at_text (st\<lparr>curr_key := k\<rparr>) r = at_text st r" "at_text (st\<lparr>token_state := t\<rparr>) r = at_text st r"
  "at_text (st\<lparr>ps_vals := v\<rparr>) r = at_text st r"
  by (simp_all add: at_text_def)

lemma parse_line:
  assumes "at_text st (bl @ render_line l @ r)" "list_all (blank config_ops) bl" "line_ok l"
    "token_state st = TOKEN_SEARCH_CONFIG_ENTRY_START"
  shows "\<exists>st'. at_text st' (LINE_BREAK # r) \<and> token_state st' = TOKEN_SEARCH_CONFIG_ENTRY_START
    \<and> (\<forall>fuel vec. parse_result (parse_loop (fuel + 3) st vec) =
        andThen (set_vm_request_val (fst l) (snd l) (ps_vals st)) (\<lambda>(ok, vals).
          if ok then parse_result (parse_loop fuel (st'\<lparr>ps_vals := vals\<rparr>) vec)
          else Inr (PARSING_ERR_MALFORMED_FILE, vals, vec)))"
proof -
  obtain k v where l: "l = (k, v)" by (cases l)
  have k: "k \<in> fst ` set config_key_strings" and v: "value_ok v" using assms(3) l by (auto simp: line_ok_def)
  have t1: "at_text st (bl @ key_text k @ CHR '' '' # (''= '' @ render_value v @ LINE_BREAK # r))"
    using assms(1) l by (simp add: render_line_def)
  obtain s1 where s1: "read_token st (key_text k) ('' = '' @ render_value v @ LINE_BREAK # r) s1"
    using read_word[OF t1 assms(2) key_text_ok(1,2)[OF k]] by auto
  define s2 where "s2 = s1\<lparr>curr_key := k, token_state := TOKEN_SEARCH_ENTRY_DELIM\<rparr>"
  have s2: "at_text s2 ('' '' @ ''='' @ '' '' @ render_value v @ LINE_BREAK # r)" "ps_vals s2 = ps_vals st"
    using s1 by (simp_all add: s2_def read_token_def)
  obtain s3 where s3: "read_token s2 ''='' ('' '' @ render_value v @ LINE_BREAK # r) s3"
    using read_delim[OF s2(1)] by auto
  define s4 where "s4 = s3\<lparr>token_state := TOKEN_SEARCH_ENTRY_VAL\<rparr>"
  have s4: "at_text s4 ('' '' @ render_value v @ LINE_BREAK # r)" "ps_vals s4 = ps_vals st" "curr_key s4 = k"
    using s3 s2(2) by (simp_all add: s4_def read_token_def s2_def)
  obtain s5 where s5: "read_token s4 v (LINE_BREAK # r) s5" using read_value[OF s4(1) v] by blast
  have h3: "handle_token s3 = Inr (PS_CONTINUE, s4)"
    using s3 by (simp add: read_token_def s2_def s4_def handle_token_def handle_search_delim_def nul_free_def)
  have "is_any_token reserved_tokens s5 = Inr False"
    using s5 v by (auto simp: read_token_def value_ok_def reserved_tokens_def nul_free_def)
  then have h5: "handle_token s5 = andThen (set_vm_request_val k v (ps_vals st)) (\<lambda>(ok, vals).
      let s = s5\<lparr>ps_vals := vals\<rparr> in
      if \<not> ok then Inr (PS_STOP_ERROR, s)
      else Inr (PS_CONTINUE, s\<lparr>token_state := TOKEN_SEARCH_CONFIG_ENTRY_START\<rparr>))"
    using s5 s4 by (simp add: read_token_def s4_def handle_token_def handle_search_value_def)
  define st' where "st' = s5\<lparr>token_state := TOKEN_SEARCH_CONFIG_ENTRY_START\<rparr>"
  have upd: "s5\<lparr>ps_vals := vals, token_state := TOKEN_SEARCH_CONFIG_ENTRY_START\<rparr> = st'\<lparr>ps_vals := vals\<rparr>" for vals
    by (simp add: st'_def)
  have "parse_result (parse_loop (fuel + 3) st vec) =
      andThen (set_vm_request_val k v (ps_vals st)) (\<lambda>(ok, vals).
          if ok then parse_result (parse_loop fuel (st'\<lparr>ps_vals := vals\<rparr>) vec)
          else Inr (PARSING_ERR_MALFORMED_FILE, vals, vec))" for fuel vec
  proof -
    have "parse_loop (fuel + 3) st vec = parse_loop (Suc fuel) s4 vec"
      using parse_loop_continue[OF s1 handle_key[OF s1 k assms(4), folded s2_def], of "Suc (Suc fuel)" vec]
        parse_loop_continue[OF s3 h3, of "Suc fuel" vec]
      by (simp add: numeral_3_eq_3 del: parse_loop.simps)
    also have "parse_result (parse_loop (Suc fuel) s4 vec) =
        andThen (set_vm_request_val k v (ps_vals st)) (\<lambda>(ok, vals).
          if ok then parse_result (parse_loop fuel (st'\<lparr>ps_vals := vals\<rparr>) vec)
          else Inr (PARSING_ERR_MALFORMED_FILE, vals, vec))"
      using s5 h5 by (cases "set_vm_request_val k v (ps_vals st)")
        (auto simp: read_token_def parse_result_def upd Let_def)
    finally show ?thesis .
  qed
  moreover have "at_text st' (LINE_BREAK # r)" using s5 by (simp add: st'_def read_token_def)
  moreover have "token_state st' = TOKEN_SEARCH_CONFIG_ENTRY_START" by (simp add: st'_def)
  ultimately show ?thesis using l by auto
qed


text \<open>The parser consumes \<open>n\<close> tokens from the state \<open>st\<close> with the given outcome, and then faces \<open>r\<close>.\<close>

definition consumes :: "parser_state \<Rightarrow> nat \<Rightarrow> (bool \<times> val_state) run \<Rightarrow> string \<Rightarrow> bool" where
  "consumes st n res r =
     (case res of
        Inl e \<Rightarrow> (\<forall>fuel vec. parse_result (parse_loop (fuel + n) st vec) = Inl e)
      | Inr (ok, vals) \<Rightarrow>
          if ok then \<exists>st'. at_text st' r \<and> token_state st' = TOKEN_SEARCH_CONFIG_ENTRY_START \<and> ps_vals st' = vals
             \<and> (\<forall>fuel vec. parse_result (parse_loop (fuel + n) st vec) = parse_result (parse_loop fuel st' vec))
          else \<forall>fuel vec. parse_result (parse_loop (fuel + n) st vec) = Inr (PARSING_ERR_MALFORMED_FILE, vals, vec))"

lemma consumes_line:
  assumes "at_text st (LINE_BREAK # render_line l @ r)" "line_ok l"
    "token_state st = TOKEN_SEARCH_CONFIG_ENTRY_START"
  shows "consumes st 3 (set_vm_request_val (fst l) (snd l) (ps_vals st)) (LINE_BREAK # r)"
proof -
  have "at_text st ([LINE_BREAK] @ render_line l @ r)" using assms(1) by simp
  from parse_line[OF this _ assms(2,3)] obtain st' where
    "at_text st' (LINE_BREAK # r)" "token_state st' = TOKEN_SEARCH_CONFIG_ENTRY_START"
    "\<forall>fuel vec. parse_result (parse_loop (fuel + 3) st vec) =
        andThen (set_vm_request_val (fst l) (snd l) (ps_vals st)) (\<lambda>(ok, vals).
          if ok then parse_result (parse_loop fuel (st'\<lparr>ps_vals := vals\<rparr>) vec)
          else Inr (PARSING_ERR_MALFORMED_FILE, vals, vec))"
    by auto
  then show ?thesis
    by (auto simp: consumes_def split: sum.split intro!: exI[of _ "st'\<lparr>ps_vals := v\<rparr>" for v])
qed

lemma consumes_lines:
  assumes "at_text st (LINE_BREAK # concat (map render_line ls) @ r)" "list_all line_ok ls"
    "token_state st = TOKEN_SEARCH_CONFIG_ENTRY_START"
  shows "consumes st (3 * length ls) (apply_lines ls (ps_vals st)) (LINE_BREAK # r)"
  using assms
proof (induction ls arbitrary: st)
  case Nil
  then show ?case by (auto simp: consumes_def)
next
  case (Cons l ls)
  have c: "consumes st 3 (set_vm_request_val (fst l) (snd l) (ps_vals st))
      (LINE_BREAK # concat (map render_line ls) @ r)"
    using Cons.prems by (intro consumes_line) auto
  have n: "fuel + 3 * length (l # ls) = (fuel + 3 * length ls) + 3" for fuel by simp
  show ?case
  proof (cases "\<exists>vals. set_vm_request_val (fst l) (snd l) (ps_vals st) = Inr (True, vals)")
    case True
    then obtain vals where v: "set_vm_request_val (fst l) (snd l) (ps_vals st) = Inr (True, vals)" by blast
    with c obtain st' where st': "at_text st' (LINE_BREAK # concat (map render_line ls) @ r)"
      "token_state st' = TOKEN_SEARCH_CONFIG_ENTRY_START" "ps_vals st' = vals"
      "\<forall>fuel vec. parse_result (parse_loop (fuel + 3) st vec) = parse_result (parse_loop fuel st' vec)"
      by (auto simp: consumes_def)
    have "consumes st' (3 * length ls) (apply_lines ls vals) (LINE_BREAK # r)"
      using Cons.IH[OF st'(1)] Cons.prems(2) st'(2,3) by simp
    then show ?thesis unfolding consumes_def n using st'(4) v
      by (auto split: sum.splits prod.splits if_splits simp del: parse_loop.simps)
  next
    case False
    then show ?thesis using c unfolding consumes_def n
      by (cases "set_vm_request_val (fst l) (snd l) (ps_vals st)") (auto simp del: parse_loop.simps)
  qed
qed

text \<open>One section, and then the whole file.\<close>

lemma parse_section_start:
  assumes "at_text st (bl @ render_section ls @ r)" "list_all (blank config_ops) bl"
    "token_state st = TOKEN_SEARCH_START_MARKER"
  shows "\<exists>st'. at_text st' (LINE_BREAK # concat (map render_line ls) @ ''[end]'' @ LINE_BREAK # r)
    \<and> token_state st' = TOKEN_SEARCH_CONFIG_ENTRY_START \<and> ps_vals st' = ps_vals st
    \<and> (\<forall>fuel vec. parse_loop (Suc fuel) st vec = parse_loop fuel st' vec)"
proof -
  let ?r = "concat (map render_line ls) @ ''[end]'' @ LINE_BREAK # r"
  have "at_text st (bl @ ''[start]'' @ LINE_BREAK # ?r)" using assms(1) by (simp add: render_section_def)
  then obtain s1 where s1: "read_token st ''[start]'' (LINE_BREAK # ?r) s1"
    using read_word[of st bl "''[start]''" LINE_BREAK ?r] assms(2)
    by (auto simp: is_valid_config_token_char_def)
  have "handle_token s1 = Inr (PS_CONTINUE, s1\<lparr>token_state := TOKEN_SEARCH_CONFIG_ENTRY_START\<rparr>)"
    using s1 assms(3) by (simp add: read_token_def handle_token_def handle_search_start_marker_def nul_free_def)
  from parse_loop_continue[OF s1 this] s1 show ?thesis
    by (auto simp: read_token_def simp del: parse_loop.simps
        intro!: exI[of _ "s1\<lparr>token_state := TOKEN_SEARCH_CONFIG_ENTRY_START\<rparr>"])
qed

lemma parse_section_end:
  assumes "at_text st (LINE_BREAK # ''[end]'' @ LINE_BREAK # r)" 
    "token_state st = TOKEN_SEARCH_CONFIG_ENTRY_START"
  shows "\<exists>st'. at_text st' (LINE_BREAK # r) \<and> token_state st' = TOKEN_SEARCH_START_MARKER
    \<and> ps_vals st' = ps_vals st
    \<and> (\<forall>fuel vec. parse_result (parse_loop (Suc fuel) st vec) =
        andThen (valid_config_request (vs_request (ps_vals st))) (\<lambda>valid.
          if \<not> valid then Inr (PARSING_ERR_INVALID_ENTRY, ps_vals st, vec)
          else andThen (vec_push_back vec (vs_request (ps_vals st))) (\<lambda>vec.
            parse_result (parse_loop fuel (st'\<lparr>ps_vals := (ps_vals st)\<lparr>vs_request :=
              zero_request (req_id (vs_request (ps_vals st)) + 1)\<rparr>\<rparr>) vec))))"
proof -
  have "at_text st ([LINE_BREAK] @ ''[end]'' @ LINE_BREAK # r)" using assms(1) by simp
  then obtain s1 where s1: "read_token st ''[end]'' (LINE_BREAK # r) s1"
    using read_word[of st "[LINE_BREAK]" "''[end]''" LINE_BREAK r] by (auto simp: is_valid_config_token_char_def)
  have "handle_token s1 = Inr (PS_CONFIG_ENTRY_COMPLETED, s1\<lparr>token_state := TOKEN_SEARCH_START_MARKER\<rparr>)"
    using s1 assms(2)
    by (simp add: read_token_def handle_token_def handle_search_config_entry_start_def nul_free_def)
  with s1 show ?thesis
    by (intro exI[of _ "s1\<lparr>token_state := TOKEN_SEARCH_START_MARKER\<rparr>"])
       (simp add: read_token_def parse_result_def andThen_def split: sum.split)
qed

definition section_tokens :: "(config_key \<times> string) list \<Rightarrow> nat" where
  "section_tokens ls = 3 * length ls + 2"

lemma parse_sections:
  assumes "at_text st (bl @ concat (map render_section lss))" "bl = [] \<or> bl = [LINE_BREAK]"
    "list_all (list_all line_ok) lss" "token_state st = TOKEN_SEARCH_START_MARKER"
  shows "parse_result (parse_loop (fuel + sum_list (map section_tokens lss) + 1) st vec)
    = apply_sections lss (ps_vals st) vec"
  using assms
proof (induction lss arbitrary: st vec bl)
  case Nil
  then obtain st' where "next_token st = Inr st'" "token_seek_status st' = SEEK_OOM"
    "token_state st' = token_state st" "ps_vals st' = ps_vals st"
    using read_end[of st bl] by auto
  then show ?case
    using Nil.prems(4) by (simp add: parse_result_def handle_token_def handle_search_start_marker_def)
next
  case (Cons ls lss)
  let ?r = "concat (map render_section lss)" and ?n = "fuel + sum_list (map section_tokens lss) + 1"
  have "at_text st (bl @ render_section ls @ ?r)" "list_all (blank config_ops) bl"
    using Cons.prems(1,2) by auto
  from parse_section_start[OF this Cons.prems(4)] obtain s1 where
    s1: "at_text s1 (LINE_BREAK # concat (map render_line ls) @ ''[end]'' @ LINE_BREAK # ?r)"
      "token_state s1 = TOKEN_SEARCH_CONFIG_ENTRY_START" "ps_vals s1 = ps_vals st"
      "\<And>fuel vec. parse_loop (Suc fuel) st vec = parse_loop fuel s1 vec" by blast
  have c: "consumes s1 (3 * length ls) (apply_lines ls (ps_vals st)) (LINE_BREAK # ''[end]'' @ LINE_BREAK # ?r)"
    using consumes_lines[OF s1(1)] Cons.prems(3) s1(2,3) by simp
  have n: "fuel + sum_list (map section_tokens (ls # lss)) + 1 = Suc (Suc ?n + 3 * length ls)"
    by (simp add: section_tokens_def)
  show ?case
  proof (cases "\<exists>vals. apply_lines ls (ps_vals st) = Inr (True, vals)")
    case True
    then obtain vals where v: "apply_lines ls (ps_vals st) = Inr (True, vals)" by blast
    with c obtain s2 where s2: "at_text s2 (LINE_BREAK # ''[end]'' @ LINE_BREAK # ?r)"
      "token_state s2 = TOKEN_SEARCH_CONFIG_ENTRY_START" "ps_vals s2 = vals"
      "\<And>fuel vec. parse_result (parse_loop (fuel + 3 * length ls) s1 vec) = parse_result (parse_loop fuel s2 vec)"
      by (auto simp: consumes_def)
    obtain s3 where s3: "at_text s3 (LINE_BREAK # ?r)" "token_state s3 = TOKEN_SEARCH_START_MARKER"
      "\<And>fuel vec. parse_result (parse_loop (Suc fuel) s2 vec) =
        andThen (valid_config_request (vs_request vals)) (\<lambda>valid.
          if \<not> valid then Inr (PARSING_ERR_INVALID_ENTRY, vals, vec)
          else andThen (vec_push_back vec (vs_request vals)) (\<lambda>vec.
            parse_result (parse_loop fuel (s3\<lparr>ps_vals := vals\<lparr>vs_request :=
              zero_request (req_id (vs_request vals) + 1)\<rparr>\<rparr>) vec)))"
      using parse_section_end[OF s2(1,2)] s2(3) by blast
    have E: "parse_result (parse_loop ?n (s3\<lparr>ps_vals := x\<rparr>) vec) = apply_sections lss x vec" for x vec
      using Cons.IH[of "s3\<lparr>ps_vals := x\<rparr>" "[LINE_BREAK]" vec] s3(1,2) Cons.prems(3) by simp
    then show ?thesis unfolding n s1(4) s2(4) s3(3) E using v by simp
  next
    case False
    then consider e where "apply_lines ls (ps_vals st) = Inl e"
      | vals where "apply_lines ls (ps_vals st) = Inr (False, vals)"
      by (cases "apply_lines ls (ps_vals st)") auto
    then show ?thesis unfolding n s1(4) using c
      by cases (simp_all only: consumes_def sum.case prod.case if_False if_True not_False_eq_True
          apply_sections.simps andThen_Inl andThen_Inr)
  qed
qed

lemma tokens_le_text: "sum_list (map section_tokens lss) \<le> length (concat (map render_section lss))"
proof -
  have "section_tokens ls \<le> length (render_section ls)" for ls
    by (induction ls) (auto simp: section_tokens_def render_section_def render_line_def)
  then show ?thesis by (induction lss) (auto intro: add_mono)
qed

lemma parse_printed:
  assumes "list_all (list_all line_ok) lss"
  shows "\<exists>keys. get_config_key_radix [] = Inr (Some keys, [])
    \<and> parse_result (parse_vm_config_file
         \<lparr>file_text = concat (map render_section lss), file_pos = 0, file_ops = config_ops\<rparr> keys serial os vec)
      = apply_sections lss \<lparr>vs_request = zero_request 0, vs_serial = serial, vs_allocs = os\<rparr> vec"
proof -
  let ?t = "concat (map render_section lss)"
  let ?st = "init_parser \<lparr>file_text = ?t, file_pos = 0, file_ops = config_ops\<rparr> key_tree serial os"
  have "at_text ?st ([] @ ?t)" "token_state ?st = TOKEN_SEARCH_START_MARKER"
    by (simp_all add: at_text_def init_parser_def)
  note P = parse_sections[OF this(1) _ assms this(2), of "length ?t + 1 - sum_list (map section_tokens lss)" vec]
  have "length ?t + 1 - sum_list (map section_tokens lss) + sum_list (map section_tokens lss) + 1 = length ?t + 2"
    using tokens_le_text[of lss] by simp
  then have "parse_result (parse_vm_config_file
         \<lparr>file_text = ?t, file_pos = 0, file_ops = config_ops\<rparr> key_tree serial os vec)
      = apply_sections lss \<lparr>vs_request = zero_request 0, vs_serial = serial, vs_allocs = os\<rparr> vec"
    using P by (simp add: parse_vm_config_file_def del: parse_loop.simps) (simp add: init_parser_def)
  then show ?thesis using get_config_key_radix_ok by blast
qed

text \<open>
  C15. Parsing a printed configuration is applying its lines: for every list of sections whose values can
  be written in the file format (plain words or quoted texts of at least two characters), parsing the
  printed file has exactly the outcome of assigning the values line by line, validating each section
  and collecting its request, errors included; the keys are looked up in the radix tree that
  \<^verbatim>\<open>get_config_key_radix\<close> builds.
\<close>

theorem parse_printed_config:
  assumes "list_all (list_all line_ok) lss"
  shows "\<exists>keys. get_config_key_radix [] = Inr (Some keys, [])
    \<and> parse_result (parse_vm_config_file
         \<lparr>file_text = concat (map render_section lss), file_pos = 0, file_ops = config_ops\<rparr> keys serial os vec)
      = apply_sections lss \<lparr>vs_request = zero_request 0, vs_serial = serial, vs_allocs = os\<rparr> vec"
  by (rule parse_printed[OF assms])

theorem parse_printed_config_witness:
  "\<exists>keys r. get_config_key_radix [] = Inr (Some keys, [])
    \<and> parse_result (parse_vm_config_file
         \<lparr>file_text = render_section [(CONFIG_VM_NAME_KEY, ''a b''), (CONFIG_VM_TYPE_KEY, ''MIRROR_VMM''),
             (CONFIG_VM_VCPUS_KEY, ''2''), (CONFIG_VM_MEM_SIZE_KEY, ''64'')],
          file_pos = 0, file_ops = config_ops\<rparr> keys serial_devices [] \<lparr>vec_elements = [], vec_capacity = 512\<rparr>)
      = Inr (PARSING_SUCCESS, r, \<lparr>vec_elements = [(zero_request 0)\<lparr>req_name := Some ''a b'', req_type := MIRROR_VMM,
            vcpus := 2, req_mem_size := 64\<rparr>], vec_capacity = 512\<rparr>)"
proof -
  let ?l = "[(CONFIG_VM_NAME_KEY, ''a b''), (CONFIG_VM_TYPE_KEY, ''MIRROR_VMM''),
             (CONFIG_VM_VCPUS_KEY, ''2''), (CONFIG_VM_MEM_SIZE_KEY, ''64'')]"
  have "list_all (list_all line_ok) [?l]"
    by (simp add: line_ok_def value_ok_def config_key_strings_def reserved_tokens_def is_valid_config_token_char_def)
  from parse_printed_config[OF this, of serial_devices "[]" "\<lparr>vec_elements = [], vec_capacity = 512\<rparr>"]
  show ?thesis
    by (simp add: set_vm_request_val_def dup_into_def numeric_value_def strtoul_def cstring_def is_digit_def
        digit_val_def c_text_def get_guest_type_from_string_def is_only_digits_def is_positive_integer_def
        valid_config_request_def zero_request_def vec_push_back_def vec_size_def at_def U64_MAX_def)
       blast
qed

text \<open>
  C22. Every request that the parser collects from a configuration file, accepted or not in the end, is
  complete, and no serial device is given to two of them: requests at different positions have
  different identities and never the same serial device.
\<close>

theorem parse_requests_exclusive:
  assumes "parse_vm_config_file f keys serial os \<lparr>vec_elements = [], vec_capacity = n\<rparr> = Inr (status, st, vec)"
  shows "(\<forall>r \<in> set (vec_elements vec). valid_config_request r = Inr True)
    \<and> (\<forall>i < vec_size vec. \<forall>j < vec_size vec. i \<noteq> j \<longrightarrow> serial_id (vec_elements vec ! i) \<noteq> 0
         \<longrightarrow> serial_id (vec_elements vec ! i) \<noteq> serial_id (vec_elements vec ! j))"
proof -
  have "requests_ok (ps_vals (init_parser f keys serial os)) []"
    by (simp add: requests_ok_def owns_serial_def init_parser_def zero_request_def)
  then have ok: "requests_ok (ps_vals st) (vec_elements vec)"
    using parse_loop_ok assms unfolding parse_vm_config_file_def by fastforce
  show ?thesis
  proof (intro conjI allI impI)
    fix i j assume i: "i < vec_size vec" "j < vec_size vec" "i \<noteq> j" "serial_id (vec_elements vec ! i) \<noteq> 0"
    have "req_id (vec_elements vec ! i) \<noteq> req_id (vec_elements vec ! j)"
      using ok i by (auto simp: requests_ok_def vec_size_def distinct_conv_nth)
    then show "serial_id (vec_elements vec ! i) \<noteq> serial_id (vec_elements vec ! j)"
      using ok i unfolding requests_ok_def vec_size_def owns_serial_def by (metis nth_mem)
  qed (use ok in \<open>simp add: requests_ok_def\<close>)
qed

theorem parse_requests_exclusive_witness:
  "\<exists>f keys st vec. parse_vm_config_file f keys serial_devices [] \<lparr>vec_elements = [], vec_capacity = 512\<rparr>
       = Inr (PARSING_SUCCESS, st, vec)
    \<and> map serial_id (vec_elements vec) = [1, 2]
    \<and> (\<forall>i < vec_size vec. \<forall>j < vec_size vec. i \<noteq> j \<longrightarrow> serial_id (vec_elements vec ! i) \<noteq> 0
         \<longrightarrow> serial_id (vec_elements vec ! i) \<noteq> serial_id (vec_elements vec ! j))"
proof -
  let ?l = "\<lambda>d. [(CONFIG_VM_NAME_KEY, ''a''), (CONFIG_VM_TYPE_KEY, ''MIRROR_VMM''),
             (CONFIG_VM_VCPUS_KEY, ''2''), (CONFIG_VM_MEM_SIZE_KEY, ''64''), (CONFIG_VM_DEV_SERIAL_KEY, d)]"
  let ?f = "\<lparr>file_text = concat (map render_section [?l ''1'', ?l ''2'']), file_pos = 0, file_ops = config_ops\<rparr>"
  let ?v = "\<lparr>vec_elements = [], vec_capacity = 512\<rparr>"
  have "list_all (list_all line_ok) [?l ''1'', ?l ''2'']"
    by (simp add: line_ok_def value_ok_def config_key_strings_def reserved_tokens_def is_valid_config_token_char_def)
  from parse_printed[OF this, of serial_devices "[]" ?v]
  obtain keys where k: "parse_result (parse_vm_config_file ?f keys serial_devices [] ?v) =
      apply_sections [?l ''1'', ?l ''2''] \<lparr>vs_request = zero_request 0, vs_serial = serial_devices, vs_allocs = []\<rparr> ?v"
    by blast
  have "\<exists>r vec. apply_sections [?l ''1'', ?l ''2''] \<lparr>vs_request = zero_request 0, vs_serial = serial_devices, vs_allocs = []\<rparr> ?v
      = Inr (PARSING_SUCCESS, r, vec) \<and> map serial_id (vec_elements vec) = [1, 2]"
    by (simp add: set_vm_request_val_def dup_into_def numeric_value_def strtoul_def cstring_def is_digit_def
        digit_val_def c_text_def get_guest_type_from_string_def is_only_digits_def is_positive_integer_def
        valid_config_request_def zero_request_def vec_push_back_def vec_size_def at_def U64_MAX_def
        is_valid_serial_dev_id_def serial_devices_def serial_dev_def put_def)
  then obtain r vec where p: "parse_result (parse_vm_config_file ?f keys serial_devices [] ?v)
      = Inr (PARSING_SUCCESS, r, vec)" "map serial_id (vec_elements vec) = [1, 2]"
    using k by auto
  then obtain st where q: "parse_vm_config_file ?f keys serial_devices [] ?v = Inr (PARSING_SUCCESS, st, vec)"
    by (auto simp: parse_result_def run_simps)
  show ?thesis
    by (rule exI[of _ ?f], rule exI[of _ keys], rule exI[of _ st], rule exI[of _ vec],
        intro conjI q p(2) conjunct2[OF parse_requests_exclusive[OF q]])
qed

text \<open>
  C23. The parser terminates on every file: with the tree of the configuration keys, or any other
  well-formed tree, it returns a status or stops on a fault, but never loops.
\<close>

theorem parse_terminates:
  "node_ok keys \<Longrightarrow> parse_vm_config_file f keys serial os vec \<noteq> Inl Spins"
  unfolding parse_vm_config_file_def by (rule parse_loop_no_spin) (simp_all add: init_parser_def)

theorem parse_terminates_witness:
  "parse_vm_config_file \<lparr>file_text = ''[start'', file_pos = 0, file_ops = config_ops\<rparr> key_tree serial_devices []
     \<lparr>vec_elements = [], vec_capacity = 512\<rparr> \<noteq> Inl Spins"
  by (rule parse_terminates) (rule node_ok_key_tree)

section \<open>Numbers and sizes\<close>

text \<open>
  The numeric keys on a value of decimal digits: the value is accepted exactly when it is below
  \<open>2 ^ 64\<close> and its low 32 bits are not all zero, and the low 32 bits are what is stored. Values from
  \<open>2 ^ 32\<close> on are therefore cut silently.
\<close>

lemma strtoul_end: "strtoul s = Inr r \<Longrightarrow> ul_end r < length s"
proof -
  have digits: "strtoul_digits s i res = Inr r \<Longrightarrow> ul_end r < i + length s" for s i res
    by (induction s arbitrary: i res) (fastforce simp: Let_def split: if_splits)+
  have "strtoul_prefix s i = Inr r \<Longrightarrow> ul_end r < i + length s" for i
  proof (induction s arbitrary: i)
    case (Cons c s)
    then show ?case
      using digits[of "c # s" i 0] digits[of s "Suc i" 0] Cons.IH[of "Suc i"]
      by (auto simp: run_simps simp del: strtoul_digits.simps split: if_splits)
  qed simp
  then show "strtoul s = Inr r \<Longrightarrow> ul_end r < length s" using strtoul_def by fastforce
qed

lemma numeric_value_digits:
  assumes "ds \<noteq> []" "list_all is_digit ds"
  shows "\<exists>n ok. numeric_value ds = Inr (n, ok)
    \<and> ok = (dec_value ds < 2 ^ 64 \<and> dec_value ds mod 2 ^ 32 \<noteq> 0)
    \<and> (ok \<longrightarrow> unat n = dec_value ds mod 2 ^ 32)"
proof -
  have nd: "\<not> is_digit NUL" by (simp add: is_digit_def)
  obtain r where r: "strtoul (cstring ds) = Inr r" "ul_overflow r = (2 ^ 64 \<le> dec_value ds)"
    "\<not> ul_overflow r \<longrightarrow> unat (ul_value r) = dec_value ds \<and> ul_end r = length ds"
    using strtoul_text[OF assms nd, of 0 "[]"] by (auto simp: cstring_def)
  have e: "at (cstring ds) (ul_end r) = Inr (cstring ds ! ul_end r)" using strtoul_end[OF r(1)] by simp
  show ?thesis
  proof (cases "ul_overflow r")
    case True
    then show ?thesis using r e by (simp add: numeric_value_def Let_def is_positive_integer_def) blast
  next
    case False
    then have u: "unat (ul_value r) = dec_value ds" "ul_end r = length ds" using r(3) by simp_all
    have "unat (ucast (ul_value r) :: u32) = dec_value ds mod 2 ^ 32"
      using u(1) by (simp add: unsigned_ucast_eq take_bit_eq_mod)
    then have "(ucast (ul_value r) :: u32) = 0 \<longleftrightarrow> dec_value ds mod 2 ^ 32 = 0"
      by (simp add: unat_eq_0[symmetric])
    then show ?thesis
      using r e u assms(1) False \<open>unat (ucast (ul_value r) :: u32) = _\<close>
      by (auto simp: numeric_value_def Let_def is_positive_integer_def is_only_digits_def cstring_def nth_append)
  qed
qed

lemma numeric_value_digits_witness:
  "\<exists>n ok. numeric_value ''4294967297'' = Inr (n, ok) \<and> ok \<and> unat n = 1"
  using numeric_value_digits[of "''4294967297''"] by (auto simp: is_digit_def dec_value_def digit_val_def)

text \<open>
  C24. The memory size of an accepted request is converted to bytes without loss in every granularity:
  the 32-bit number times the unit fits 64 bits.
\<close>

theorem config_req_bytes:
  assumes "vm_req_to_vm_config mods serial req os = Inr (True, config, os')"
  shows "unat (get_vm_config_req_bytes config) =
    unat (req_mem_size req) * (case req_granularity req of BYTES \<Rightarrow> 1 | KB \<Rightarrow> 2 ^ 10 | MB \<Rightarrow> 2 ^ 20 | GB \<Rightarrow> 2 ^ 30)"
proof -
  have m: "mem_size config = ucast (req_mem_size req)" "granularity config = req_granularity req"
    using assms
    by (auto simp: vm_req_to_vm_config_def get_serial_dev_info_def get_linux_boot_info_def Let_def run_simps
        split: guest_type.splits option.splits if_splits) (metis guest_type.exhaust)+
  have u: "unat (ucast (req_mem_size req) :: u64) = unat (req_mem_size req)"
    by (simp add: unsigned_ucast_eq take_bit_eq_mod unat_less_size[of "req_mem_size req", THEN order.strict_trans])
  have lt: "unat (req_mem_size req) < 2 ^ 32" using unat_less_size[of "req_mem_size req"] by simp
  show ?thesis
    using m u lt
    by (cases "req_granularity req") (simp_all add: get_vm_config_req_bytes_def U64_LSHIFT_def unat_push_bit_small)
qed

theorem config_req_bytes_witness:
  "\<exists>config. vm_req_to_vm_config [] serial_devices ((zero_request 0)\<lparr>req_name := Some ''g'', req_type := MIRROR_VMM,
       vcpus := 1, req_mem_size := 0xFFFFFFFF, req_granularity := GB\<rparr>) [] = Inr (True, config, [])
     \<and> unat (get_vm_config_req_bytes config) = 0xFFFFFFFF * 2 ^ 30"
proof -
  let ?r = "(zero_request 0)\<lparr>req_name := Some ''g'', req_type := MIRROR_VMM,
       vcpus := 1, req_mem_size := 0xFFFFFFFF, req_granularity := GB\<rparr>"
  obtain config where c: "vm_req_to_vm_config [] serial_devices ?r [] = Inr (True, config, [])"
    by (simp add: vm_req_to_vm_config_def strdup_ptr_def zero_request_def get_serial_dev_info_def)
  from config_req_bytes[OF c] c show ?thesis by simp
qed

text \<open>
  A Linux guest without a command line is accepted as a valid request, but building its configuration
  copies the missing command line through a null pointer.
\<close>

lemma linux_without_cmdline:
  assumes "req_name req = Some nm" "req_type req = LINUX_DIRECT_BOOT_32BIT" "vcpus req \<noteq> 0" "req_mem_size req \<noteq> 0"
    "bzImage_name req = Some bz" "initramfs_name req = Some ir" "req_cmdline req = None"
    "serial_id req = 0" "get_limine_file mods bz \<noteq> None" "get_limine_file mods ir \<noteq> None"
  shows "valid_config_request req = Inr True \<and> vm_req_to_vm_config mods serial req os = Inl NullDeref"
  using assms
  by (auto simp: valid_config_request_def vm_req_to_vm_config_def get_linux_boot_info_def strdup_ptr_def
      name_ptr_def get_serial_dev_info_def Let_def split: prod.splits)

lemma linux_without_cmdline_witness:
  "\<exists>req mods. valid_config_request req = Inr True \<and> vm_req_to_vm_config mods serial_devices req [] = Inl NullDeref"
  using linux_without_cmdline[of "(zero_request 0)\<lparr>req_name := Some ''g'', req_type := LINUX_DIRECT_BOOT_32BIT,
       vcpus := 1, req_mem_size := 64, bzImage_name := Some ''k'', initramfs_name := Some ''k''\<rparr>" "''g''" "''k''" "''k''"
       "[\<lparr>lf_string = ''k'', lf_address = 4096, lf_size = 0, lf_content = []\<rparr>]" serial_devices "[]"]
  by (auto simp: zero_request_def)
end
