(* ===== verification/Phys_Mm.thy ===== *)
theory Phys_Mm
  imports HyvPrelude
begin

text \<open>
  The physical memory map of \<^verbatim>\<open>phys_mm.c\<close>: the conversion of the boot loader's map and the summary that
  the page frame allocator is dimensioned with. The maps are lists of entries.
\<close>

datatype memmap_region_type =
  MEMMAP_USABLE | MEMMAP_BOOTLOADER_RECLAIMABLE | MEMMAP_HYPERVISOR | MEMMAP_RESERVED

record memmap_entry =
  me_start :: phys_addr
  me_end :: phys_addr
  me_length :: u64
  me_type :: memmap_region_type

record limine_memmap_entry =
  lm_base :: u64
  lm_length :: u64
  lm_type :: u64

record system_memory_info =
  total_size :: u64
  early_usable_memory :: u64
  total_usable_memory :: u64
  lowest_mapped_addr :: phys_addr
  highest_mapped_addr :: phys_addr
  largest_mapped_pfn :: u64
  nr_of_pfns :: u64

definition LIMINE_MEMMAP_USABLE :: u64 where
  "LIMINE_MEMMAP_USABLE = 0"

definition limine_memmap_type_to_hyv_type :: "u64 \<Rightarrow> memmap_region_type" where
  "limine_memmap_type_to_hyv_type limine_type =
     (if limine_type = LIMINE_MEMMAP_USABLE then MEMMAP_USABLE
      else if limine_type = 5 then MEMMAP_BOOTLOADER_RECLAIMABLE
      else if limine_type = 6 then MEMMAP_HYPERVISOR
      else MEMMAP_RESERVED)"

text \<open>The entries that \<^verbatim>\<open>get_boot_mem_info\<close> writes to its scratch area.\<close>

definition boot_memmap_entry :: "limine_memmap_entry \<Rightarrow> memmap_entry" where
  "boot_memmap_entry l = \<lparr>me_start = lm_base l, me_end = lm_base l + lm_length l - 1, me_length = lm_length l,
     me_type = limine_memmap_type_to_hyv_type (lm_type l)\<rparr>"

definition get_boot_memmap :: "limine_memmap_entry list \<Rightarrow> memmap_entry list" where
  "get_boot_memmap limine_mem_map = map boot_memmap_entry limine_mem_map"

record mem_sums =
  early_usable_size :: u64
  total_usable_size :: u64
  lowest_paddr :: phys_addr
  highest_paddr :: phys_addr

definition add_entry :: "memmap_entry \<Rightarrow> mem_sums \<Rightarrow> mem_sums" where
  "add_entry e s =
     (let s = s\<lparr>lowest_paddr := MIN_c (me_start e) (lowest_paddr s), highest_paddr := MAX_c (me_end e) (highest_paddr s)\<rparr>
      in if me_type e = MEMMAP_USABLE then
           s\<lparr>early_usable_size := early_usable_size s + me_length e, total_usable_size := total_usable_size s + me_length e\<rparr>
         else if me_type e = MEMMAP_BOOTLOADER_RECLAIMABLE then
           s\<lparr>total_usable_size := total_usable_size s + me_length e\<rparr>
         else s)"

definition init_system_memory_info :: "memmap_entry list \<Rightarrow> system_memory_info" where
  "init_system_memory_info mem_map =
     (let s = fold add_entry mem_map \<lparr>early_usable_size = 0, total_usable_size = 0, lowest_paddr = NOT 0, highest_paddr = 0\<rparr>;
          largest_pfn = phys_to_pfn (highest_paddr s)
      in \<lparr>total_size = 0, early_usable_memory = early_usable_size s, total_usable_memory = total_usable_size s,
          lowest_mapped_addr = lowest_paddr s, highest_mapped_addr = highest_paddr s,
          largest_mapped_pfn = largest_pfn, nr_of_pfns = largest_pfn + 1\<rparr>)"

lemma add_entry_bounds:
  "highest_paddr s \<le> highest_paddr (add_entry e s)" "me_end e \<le> highest_paddr (add_entry e s)"
  "lowest_paddr (add_entry e s) \<le> lowest_paddr s" "lowest_paddr (add_entry e s) \<le> me_start e"
  by (auto simp: add_entry_def Let_def MAX_c_max MIN_c_min)

lemma fold_add_entry_mono:
  "highest_paddr s \<le> highest_paddr (fold add_entry es s)" "lowest_paddr (fold add_entry es s) \<le> lowest_paddr s"
proof (induction es arbitrary: s)
  case (Cons e es)
  {
    case 1
    show ?case using Cons(1)[of "add_entry e s"] add_entry_bounds(1)[of s e] by simp
  next
    case 2
    show ?case using Cons(2)[of "add_entry e s"] add_entry_bounds(3)[of e s] by simp
  }
qed simp_all

lemma fold_add_entry_bounds:
  "e \<in> set es \<Longrightarrow> me_end e \<le> highest_paddr (fold add_entry es s) \<and> lowest_paddr (fold add_entry es s) \<le> me_start e"
proof (induction es arbitrary: s)
  case (Cons d es)
  then show ?case
    using fold_add_entry_mono[where s = "add_entry d s" and es = es] add_entry_bounds[where e = e and s = s] by auto
qed simp

lemma phys_to_pfn_less: "unat (phys_to_pfn a) < 2 ^ 52"
  using unat_less_size[of a] by (simp add: phys_to_pfn_def U64_RSHIFT_def PAGE_SHIFT_def unat_drop_bit less_mult_imp_div_less)

lemma nr_of_pfns_unat:
  "unat (nr_of_pfns (init_system_memory_info es)) = unat (largest_mapped_pfn (init_system_memory_info es)) + 1"
proof -
  have "unat (phys_to_pfn a + 1) = unat (phys_to_pfn a) + 1" for a
    using phys_to_pfn_less[of a] by (subst unat_add_small) simp_all
  then show ?thesis by (simp add: init_system_memory_info_def Let_def)
qed

lemma pfn_covered:
  assumes "e \<in> set es" "a \<le> me_end e"
  shows "unat (phys_to_pfn a) < unat (nr_of_pfns (init_system_memory_info es))"
proof -
  have "a \<le> highest_mapped_addr (init_system_memory_info es)"
    using assms fold_add_entry_bounds[OF assms(1)]
    by (auto simp: init_system_memory_info_def Let_def intro: order_trans)
  then have "unat (phys_to_pfn a) \<le> unat (phys_to_pfn (highest_mapped_addr (init_system_memory_info es)))"
    by (simp add: phys_to_pfn_def U64_RSHIFT_def unat_drop_bit word_le_nat_alt div_le_mono)
  then show ?thesis
    unfolding nr_of_pfns_unat by (simp add: init_system_memory_info_def Let_def)
qed

text \<open>
  The summary of the memory map covers it: the page frame of every address of every entry is below
  the number of frames that the bitmap is dimensioned for, and every entry lies between the lowest
  and the highest mapped address.
\<close>

lemma system_memory_info_covers:
  assumes "l \<in> set lmap" "lm_base l \<le> a" "a \<le> lm_base l + lm_length l - 1"
  shows "unat (phys_to_pfn a) < unat (nr_of_pfns (init_system_memory_info (get_boot_memmap lmap)))
    \<and> lowest_mapped_addr (init_system_memory_info (get_boot_memmap lmap)) \<le> a
    \<and> a \<le> highest_mapped_addr (init_system_memory_info (get_boot_memmap lmap))"
proof -
  have e: "boot_memmap_entry l \<in> set (get_boot_memmap lmap)" using assms(1) by (simp add: get_boot_memmap_def)
  note b = fold_add_entry_bounds[OF e]
  show ?thesis
    using pfn_covered[OF e, of a] b assms(2,3)
    by (auto simp: init_system_memory_info_def Let_def boot_memmap_entry_def intro: order_trans)
qed

lemma system_memory_info_covers_witness:
  "unat (phys_to_pfn 0x2FFF) < unat (nr_of_pfns (init_system_memory_info
     (get_boot_memmap [\<lparr>lm_base = 0x1000, lm_length = 0x2000, lm_type = 0\<rparr>])))"
  using system_memory_info_covers[of "\<lparr>lm_base = 0x1000, lm_length = 0x2000, lm_type = 0\<rparr>"
      "[\<lparr>lm_base = 0x1000, lm_length = 0x2000, lm_type = 0\<rparr>]" "0x2FFF"] by simp

end
