(* ===== verification/Pf_Alloc.thy ===== *)
theory Pf_Alloc
  imports Str_Lib Phys_Mm
begin

text \<open>
  The bitmap page frame allocator of \<^verbatim>\<open>pf_alloc.c\<close>. The bitmap is a list of bytes, the bit of frame
  number \<open>pfn\<close> is bit \<open>128 >> (pfn % 8)\<close> of byte \<open>pfn / 8\<close>, and an access outside the list is
  \<open>OutOfBounds\<close>. Frame counters, addresses and request sizes are 64-bit words; positions in the bitmap
  are natural numbers, since a bitmap for the whole physical address space has \<open>2 ^ 49\<close> bytes. The
  lock is held for the whole of each operation, so operations are atomic steps.
\<close>

section \<open>The allocator\<close>

record pf_bitmap_allocator =
  pf_addr :: virt_addr
  bitmap :: "u8 list"
  last_alloc_byte_hint :: nat
  last_alloc_bit_hint :: nat
  allocatable_frames :: u64
  allocated_page_frames :: u64

definition bitmap_size :: "pf_bitmap_allocator \<Rightarrow> nat" where
  "bitmap_size a = length (bitmap a)"

definition sizeof_pf_allocator :: u64 where
  "sizeof_pf_allocator = 48"

fun find_contiguous_memory_region :: "limine_memmap_entry list \<Rightarrow> u64 \<Rightarrow> u64 \<Rightarrow> virt_addr option" where
  "find_contiguous_memory_region [] offset req_region_size = None"
| "find_contiguous_memory_region (entry # entries) offset req_region_size =
     (if lm_type entry \<noteq> LIMINE_MEMMAP_USABLE then find_contiguous_memory_region entries offset req_region_size
      else if lm_length entry > req_region_size then Some (phys_to_virt_off (lm_base entry) offset)
      else find_contiguous_memory_region entries offset req_region_size)"

definition init_pf_allocator_metadata :: "virt_addr \<Rightarrow> nat \<Rightarrow> pf_bitmap_allocator" where
  "init_pf_allocator_metadata allocator_region bitmap_length =
     \<lparr>pf_addr = allocator_region, bitmap = replicate bitmap_length 0xFF, last_alloc_byte_hint = 0,
      last_alloc_bit_hint = 0, allocatable_frames = 0, allocated_page_frames = 0\<rparr>"

definition allocated_nr_frames :: "u64 \<Rightarrow> pf_bitmap_allocator \<Rightarrow> pf_bitmap_allocator" where
  "allocated_nr_frames nr a =
     a\<lparr>allocated_page_frames := allocated_page_frames a + nr, allocatable_frames := allocatable_frames a - nr\<rparr>"

definition freed_nr_frames :: "u64 \<Rightarrow> pf_bitmap_allocator \<Rightarrow> pf_bitmap_allocator" where
  "freed_nr_frames nr a =
     a\<lparr>allocatable_frames := allocatable_frames a + nr, allocated_page_frames := allocated_page_frames a - nr\<rparr>"

definition set_bitmap_entry :: "phys_addr \<Rightarrow> u8 list \<Rightarrow> u8 list run" where
  "set_bitmap_entry addr bm =
     (let pfn = phys_to_pfn addr;
          byte_index = unat (drop_bit 3 pfn);
          bit_index = unat (pfn mod 8)
      in andThen (at bm byte_index) (\<lambda>byte. put bm byte_index (byte OR U8_RSHIFT 128 bit_index)))"

definition clear_bitmap_entry :: "phys_addr \<Rightarrow> u8 list \<Rightarrow> u8 list run" where
  "clear_bitmap_entry addr bm =
     (let pfn = phys_to_pfn addr;
          byte_index = unat (drop_bit 3 pfn);
          bit_index = unat (pfn mod 8)
      in andThen (at bm byte_index) (\<lambda>byte. put bm byte_index (byte AND NOT (U8_RSHIFT 128 bit_index))))"

fun region_loop :: "(phys_addr \<Rightarrow> u8 list \<Rightarrow> u8 list run) \<Rightarrow> phys_addr \<Rightarrow> nat \<Rightarrow> nat \<Rightarrow> u8 list \<Rightarrow> u8 list run" where
  "region_loop op start_addr i 0 bm = Inr bm"
| "region_loop op start_addr i (Suc k) bm =
     andThen (op (start_addr + of_nat i * PAGE_SIZE) bm) (\<lambda>bm. region_loop op start_addr (Suc i) k bm)"

definition set_bitmap_region :: "phys_addr \<Rightarrow> u64 \<Rightarrow> u8 list \<Rightarrow> u8 list run" where
  "set_bitmap_region start_addr nr bm = region_loop set_bitmap_entry start_addr 0 (unat nr) bm"

definition clear_bitmap_region :: "phys_addr \<Rightarrow> u64 \<Rightarrow> u8 list \<Rightarrow> u8 list run" where
  "clear_bitmap_region start_addr nr bm = region_loop clear_bitmap_entry start_addr 0 (unat nr) bm"

definition BYTE_LEN_TO_PAGES :: "u64 \<Rightarrow> u64" where
  "BYTE_LEN_TO_PAGES len = len div PAGE_SIZE + (if len mod PAGE_SIZE \<noteq> 0 then 1 else 0)"

fun init_bitmap_loop :: "limine_memmap_entry list \<Rightarrow> pf_bitmap_allocator \<Rightarrow> pf_bitmap_allocator run" where
  "init_bitmap_loop [] a = Inr a"
| "init_bitmap_loop (entry # entries) a =
     (if lm_type entry \<noteq> LIMINE_MEMMAP_USABLE then init_bitmap_loop entries a
      else andThen (clear_bitmap_region (lm_base entry) (BYTE_LEN_TO_PAGES (lm_length entry)) (bitmap a)) (\<lambda>bm.
             init_bitmap_loop entries
               (a\<lparr>bitmap := bm,
                  allocatable_frames := allocatable_frames a + BYTE_LEN_TO_PAGES (lm_length entry)\<rparr>)))"

definition early_initialize_pf_bitmap ::
  "limine_memmap_entry list \<Rightarrow> u64 \<Rightarrow> pf_bitmap_allocator \<Rightarrow> pf_bitmap_allocator run" where
  "early_initialize_pf_bitmap mem_map offset a =
     andThen (init_bitmap_loop mem_map a) (\<lambda>a.
     let allocator_base = virt_to_phys_off (pf_addr a) offset;
         allocator_size = sizeof_pf_allocator + of_nat (bitmap_size a);
         allocator_used_pages = BYTE_LEN_TO_PAGES allocator_size
     in andThen (set_bitmap_region allocator_base allocator_used_pages (bitmap a)) (\<lambda>bm.
          Inr (allocated_nr_frames allocator_used_pages (a\<lparr>bitmap := bm\<rparr>))))"

text \<open>\<open>None\<close> is the result -1: no region is large enough for the allocator.\<close>

definition early_init_page_frame_allocator ::
  "system_memory_info \<Rightarrow> limine_memmap_entry list \<Rightarrow> u64 \<Rightarrow> pf_bitmap_allocator option run" where
  "early_init_page_frame_allocator mem_info mem_map offset =
     (let pfns = nr_of_pfns mem_info;
          bm_size = drop_bit 3 pfns + (if pfns mod 8 \<noteq> 0 then 1 else 0);
          allocator_region_size = sizeof_pf_allocator + bm_size
      in case find_contiguous_memory_region mem_map offset allocator_region_size of
           None \<Rightarrow> Inr None
         | Some pf_allocator_region \<Rightarrow>
             andThen (early_initialize_pf_bitmap mem_map offset
                        (init_pf_allocator_metadata pf_allocator_region (unat bm_size)))
               (\<lambda>a. Inr (Some a)))"

section \<open>Allocation\<close>

text \<open>
  The search loop of \<^verbatim>\<open>__get_pages\<close>; the result is the found start of the area, or \<open>None\<close> when the
  loop ends without one. At most all positions are visited twice.
\<close>

fun search_loop :: "nat \<Rightarrow> u8 list \<Rightarrow> nat \<Rightarrow> nat \<Rightarrow> nat \<Rightarrow> nat \<Rightarrow> nat \<Rightarrow> bool \<Rightarrow> nat \<Rightarrow> nat option run" where
  "search_loop 0 bm nr byte_pos bit_pos area_start explored_bits free_streak remaining_needed = Inl Spins"
| "search_loop (Suc fuel) bm nr byte_pos bit_pos area_start explored_bits free_streak remaining_needed =
     (if (explored_bits < 8 * length bm \<or> free_streak) \<and> remaining_needed \<noteq> 0 then
        andThen (at bm byte_pos) (\<lambda>entry.
          let is_used = entry AND U8_RSHIFT 128 bit_pos;
              area_start = (if is_used = 0 \<and> remaining_needed = nr then 8 * byte_pos + bit_pos else area_start);
              free_streak = (is_used = 0);
              remaining_needed = (if is_used = 0 then remaining_needed - 1 else nr)
          in if is_used = 0 \<and> remaining_needed = 0 then Inr (Some area_start)
             else
               (let bit_pos = (bit_pos + 1) mod 8;
                    byte_pos = (if bit_pos = 0 then (byte_pos + 1) mod length bm else byte_pos);
                    wrap = (byte_pos = 0 \<and> bit_pos = 0)
                in search_loop fuel bm nr byte_pos bit_pos area_start (explored_bits + 1)
                     (if wrap then False else free_streak) (if wrap then nr else remaining_needed)))
      else Inr None)"

definition free_frames :: "pf_bitmap_allocator \<Rightarrow> u64" where
  "free_frames a = allocatable_frames a - allocated_page_frames a"

definition set_hint :: "nat \<Rightarrow> nat \<Rightarrow> pf_bitmap_allocator \<Rightarrow> pf_bitmap_allocator" where
  "set_hint area_start nr a =
     (let area_bit_index = area_start mod 8;
          area_byte_index = area_start div 8;
          bit_hint = (area_bit_index + nr mod 8) mod 8;
          byte_hint_offset = nr div 8 + (if nr mod 8 = 0 then 1 else 0)
      in a\<lparr>last_alloc_bit_hint := bit_hint,
           last_alloc_byte_hint :=
             (if bit_hint = 0 then (area_byte_index + 1 + byte_hint_offset) mod bitmap_size a
              else (area_byte_index + byte_hint_offset) mod bitmap_size a)\<rparr>)"

text \<open>\<^verbatim>\<open>__get_pages\<close>: \<open>None\<close> is the result -1.\<close>

definition get_pages_raw :: "pf_bitmap_allocator \<Rightarrow> u64 \<Rightarrow> (phys_addr option \<times> pf_bitmap_allocator) run" where
  "get_pages_raw a nr =
     (if nr = 0 \<or> nr > free_frames a then Inr (None, a)
      else
        (let byte_pos = last_alloc_byte_hint a;
             bit_pos = last_alloc_bit_hint a
         in andThen (search_loop (16 * bitmap_size a + 2) (bitmap a) (unat nr) byte_pos bit_pos
                       (8 * byte_pos + bit_pos) 0 False (unat nr)) (\<lambda>found.
              case found of
                None \<Rightarrow> Inr (None, a)
              | Some area_start \<Rightarrow>
                  (let pfn = of_nat (8 * (area_start div 8) + area_start mod 8) in
                   andThen (set_bitmap_region (pfn_to_phys pfn) nr (bitmap a)) (\<lambda>bm.
                     Inr (Some (pfn_to_phys pfn),
                          set_hint area_start (unat nr) (allocated_nr_frames nr (a\<lparr>bitmap := bm\<rparr>))))))))"

definition get_page_raw :: "pf_bitmap_allocator \<Rightarrow> (phys_addr option \<times> pf_bitmap_allocator) run" where
  "get_page_raw a = get_pages_raw a 1"

definition get_pages :: "pf_bitmap_allocator \<Rightarrow> u64 \<Rightarrow> (virt_addr option \<times> pf_bitmap_allocator) run" where
  "get_pages a nr = andThen (get_pages_raw a nr) (\<lambda>(r, a). Inr (map_option phys_to_virt r, a))"

definition get_page :: "pf_bitmap_allocator \<Rightarrow> (virt_addr option \<times> pf_bitmap_allocator) run" where
  "get_page a = get_pages a 1"

definition get_pages_zeroed ::
  "pf_bitmap_allocator \<Rightarrow> u64 \<Rightarrow> mem \<Rightarrow> (virt_addr option \<times> pf_bitmap_allocator \<times> mem) run" where
  "get_pages_zeroed a nr m =
     andThen (get_pages a nr) (\<lambda>(r, a).
       Inr (r, a, case r of None \<Rightarrow> m | Some addr \<Rightarrow> memset m addr 0 (unat (push_bit PAGE_SHIFT nr))))"

definition get_page_zeroed ::
  "pf_bitmap_allocator \<Rightarrow> mem \<Rightarrow> (virt_addr option \<times> pf_bitmap_allocator \<times> mem) run" where
  "get_page_zeroed a m =
     andThen (get_page a) (\<lambda>(r, a).
       Inr (r, a, case r of None \<Rightarrow> m | Some addr \<Rightarrow> memset m addr 0 (unat PAGE_SIZE)))"

definition free_pages_raw :: "pf_bitmap_allocator \<Rightarrow> u64 \<Rightarrow> phys_addr \<Rightarrow> pf_bitmap_allocator run" where
  "free_pages_raw a nr addr =
     andThen (clear_bitmap_region addr nr (bitmap a)) (\<lambda>bm. Inr (freed_nr_frames nr (a\<lparr>bitmap := bm\<rparr>)))"

definition free_page_raw :: "pf_bitmap_allocator \<Rightarrow> phys_addr \<Rightarrow> pf_bitmap_allocator run" where
  "free_page_raw a addr = free_pages_raw a 1 addr"

definition free_pages :: "pf_bitmap_allocator \<Rightarrow> u64 \<Rightarrow> virt_addr \<Rightarrow> pf_bitmap_allocator run" where
  "free_pages a nr addr = free_pages_raw a nr (virt_to_phys addr)"

definition free_page :: "pf_bitmap_allocator \<Rightarrow> virt_addr \<Rightarrow> pf_bitmap_allocator run" where
  "free_page a addr = free_page_raw a (virt_to_phys addr)"

section \<open>The bitmap\<close>

definition frame_used :: "u8 list \<Rightarrow> nat \<Rightarrow> bool" where
  "frame_used bm i = bit (bm ! (i div 8)) (7 - i mod 8)"

lemma rshift_128: "k < 8 \<Longrightarrow> U8_RSHIFT 128 k = 2 ^ (7 - k)"
proof -
  assume "k < 8"
  then consider "k = 0" | "k = 1" | "k = 2" | "k = 3" | "k = 4" | "k = 5" | "k = 6" | "k = 7" by linarith
  then show ?thesis by cases (simp_all add: U8_RSHIFT_def)
qed

lemma used_byte: "(bm ! (i div 8)) AND U8_RSHIFT 128 (i mod 8) = 0 \<longleftrightarrow> \<not> frame_used bm i"
  by (simp add: rshift_128 frame_used_def and_exp_eq_0_iff_not_bit)

lemma same_bit:
  fixes i j :: nat
  shows "i div 8 = j div 8 \<and> 7 - i mod 8 = 7 - j mod 8 \<longleftrightarrow> i = j"
proof
  assume "i div 8 = j div 8 \<and> 7 - i mod 8 = 7 - j mod 8"
  then have "i div 8 = j div 8" "i mod 8 = j mod 8"
    using mod_less_divisor[of 8 i] mod_less_divisor[of 8 j] by linarith+
  then show "i = j" by (metis div_mult_mod_eq)
qed simp

lemma frame_used_update:
  fixes b :: u8
  assumes "i < 8 * length bm" "j < 8 * length bm"
  shows "frame_used (bm[i div 8 := bm ! (i div 8) OR U8_RSHIFT 128 (i mod 8)]) j = (j = i \<or> frame_used bm j)"
    "frame_used (bm[i div 8 := bm ! (i div 8) AND NOT (U8_RSHIFT 128 (i mod 8))]) j = (j \<noteq> i \<and> frame_used bm j)"
proof -
  have d: "i div 8 < length bm" "j div 8 < length bm" "7 - j mod 8 < 8" using assms by auto
  show "frame_used (bm[i div 8 := bm ! (i div 8) OR U8_RSHIFT 128 (i mod 8)]) j = (j = i \<or> frame_used bm j)"
    using d same_bit[of i j]
    by (auto simp: frame_used_def nth_list_update rshift_128 bit_or_iff bit_exp_iff)
  show "frame_used (bm[i div 8 := bm ! (i div 8) AND NOT (U8_RSHIFT 128 (i mod 8))]) j = (j \<noteq> i \<and> frame_used bm j)"
    using d same_bit[of i j]
    by (auto simp: frame_used_def nth_list_update rshift_128 bit_and_iff bit_not_iff bit_exp_iff)
qed

abbreviation pfn_of :: "phys_addr \<Rightarrow> nat" where
  "pfn_of addr \<equiv> unat (phys_to_pfn addr)"

text \<open>An operation on the bitmap entry of an address sets the bit of its frame to \<open>v\<close>.\<close>

definition writes_bit :: "(phys_addr \<Rightarrow> u8 list \<Rightarrow> u8 list run) \<Rightarrow> bool \<Rightarrow> bool" where
  "writes_bit op v \<longleftrightarrow> (\<forall>addr bm. pfn_of addr < 8 * length bm \<longrightarrow>
     (\<exists>bm'. op addr bm = Inr bm' \<and> length bm' = length bm
        \<and> (\<forall>j < 8 * length bm. frame_used bm' j = (if j = pfn_of addr then v else frame_used bm j))))"

lemma entry_indices:
  "unat (drop_bit 3 (w :: u64)) = unat w div 8" "unat ((w :: u64) mod 8) = unat w mod 8"
  by (simp_all add: unat_drop_bit unat_mod)

lemma writes_set: "writes_bit set_bitmap_entry True"
  by (auto simp: writes_bit_def set_bitmap_entry_def Let_def entry_indices frame_used_update)

lemma writes_clear: "writes_bit clear_bitmap_entry False"
  by (auto simp: writes_bit_def clear_bitmap_entry_def Let_def entry_indices frame_used_update)

lemma pfn_step:
  assumes "pfn_of start + i < 2 ^ 52"
  shows "pfn_of (start + of_nat i * PAGE_SIZE) = pfn_of start + i"
proof -
  have p: "pfn_of a = unat a div 4096" for a
    by (simp add: phys_to_pfn_def U64_RSHIFT_def PAGE_SHIFT_def unat_drop_bit)
  have "unat start < 4096 * (pfn_of start + 1)" by (simp add: p)
  then have lt: "unat start + i * 4096 < 2 ^ 64" using assms by simp
  have "unat (of_nat i * PAGE_SIZE) = i * 4096"
    using assms by (simp add: PAGE_SIZE_def unat_word_ariths unat_of_nat)
  then have "unat (start + of_nat i * PAGE_SIZE) = unat start + i * 4096"
    using lt by (subst unat_add_small) simp_all
  then show ?thesis by (simp add: p)
qed

lemma region_loop_writes:
  assumes "writes_bit op v" "pfn_of start + i + k \<le> 8 * length bm" "8 * length bm \<le> 2 ^ 52"
  shows "\<exists>bm'. region_loop op start i k bm = Inr bm' \<and> length bm' = length bm
     \<and> (\<forall>j < 8 * length bm. frame_used bm' j =
          (if pfn_of start + i \<le> j \<and> j < pfn_of start + i + k then v else frame_used bm j))"
  using assms(2,3)
proof (induction k arbitrary: i bm)
  case (Suc k)
  have pfn: "pfn_of (start + of_nat i * PAGE_SIZE) = pfn_of start + i"
    using Suc.prems by (intro pfn_step) simp
  then have "pfn_of (start + of_nat i * PAGE_SIZE) < 8 * length bm" using Suc.prems(1) by simp
  with assms(1) obtain bm1 where "op (start + of_nat i * PAGE_SIZE) bm = Inr bm1" "length bm1 = length bm"
    "\<forall>j < 8 * length bm. frame_used bm1 j = (if j = pfn_of (start + of_nat i * PAGE_SIZE) then v else frame_used bm j)"
    unfolding writes_bit_def by blast
  note bm1 = this[unfolded pfn]
  obtain bm2 where bm2: "region_loop op start (Suc i) k bm1 = Inr bm2" "length bm2 = length bm1"
    "\<forall>j < 8 * length bm1. frame_used bm2 j =
       (if pfn_of start + Suc i \<le> j \<and> j < pfn_of start + Suc i + k then v else frame_used bm1 j)"
    using Suc.IH[of "Suc i" bm1] Suc.prems bm1(2) by auto
  show ?case using bm1 bm2 by (auto simp: le_Suc_eq)
qed auto

lemma set_region_ok:
  assumes "pfn_of start + unat nr \<le> 8 * length bm" "8 * length bm \<le> 2 ^ 52"
  shows "\<exists>bm'. set_bitmap_region start nr bm = Inr bm' \<and> length bm' = length bm
     \<and> (\<forall>j < 8 * length bm. frame_used bm' j =
          (pfn_of start \<le> j \<and> j < pfn_of start + unat nr \<or> frame_used bm j))"
  using region_loop_writes[OF writes_set, of start 0 "unat nr" bm] assms
  by (auto simp: set_bitmap_region_def)

lemma clear_region_ok:
  assumes "pfn_of start + unat nr \<le> 8 * length bm" "8 * length bm \<le> 2 ^ 52"
  shows "\<exists>bm'. clear_bitmap_region start nr bm = Inr bm' \<and> length bm' = length bm
     \<and> (\<forall>j < 8 * length bm. frame_used bm' j =
          (\<not> (pfn_of start \<le> j \<and> j < pfn_of start + unat nr) \<and> frame_used bm j))"
  using region_loop_writes[OF writes_clear, of start 0 "unat nr" bm] assms
  by (auto simp: clear_bitmap_region_def)

lemma pfn_of_pfn_to_phys: "n < 2 ^ 52 \<Longrightarrow> pfn_of (pfn_to_phys (of_nat n)) = n"
  by (simp add: phys_to_pfn_def pfn_to_phys_def U64_RSHIFT_def U64_LSHIFT_def PAGE_SHIFT_def unat_drop_bit
      unat_push_bit_small unat_of_nat_small)

section \<open>The search\<close>

text \<open>The search loop on positions: \<open>used\<close> are the bits of the bitmap and \<open>tot\<close> is their number.\<close>

fun scan :: "nat \<Rightarrow> (nat \<Rightarrow> bool) \<Rightarrow> nat \<Rightarrow> nat \<Rightarrow> nat \<Rightarrow> nat \<Rightarrow> nat \<Rightarrow> bool \<Rightarrow> nat \<Rightarrow> nat option run" where
  "scan 0 used tot nr p start explored streak r = Inl Spins"
| "scan (Suc fuel) used tot nr p start explored streak r =
     (if (explored < tot \<or> streak) \<and> r \<noteq> 0 then
        (let start = (if \<not> used p \<and> r = nr then p else start);
             r = (if used p then nr else r - 1);
             q = (p + 1) mod tot
         in if \<not> used p \<and> r = 0 then Inr (Some start)
            else scan fuel used tot nr q start (explored + 1)
                   (if q = 0 then False else \<not> used p) (if q = 0 then nr else r))
      else Inr None)"

lemma next_position:
  fixes p n :: nat
  assumes "p < 8 * n"
  shows "(p mod 8 + 1) mod 8 = (p + 1) mod (8 * n) mod 8"
    and "(if (p mod 8 + 1) mod 8 = 0 then (p div 8 + 1) mod n else p div 8) = (p + 1) mod (8 * n) div 8"
proof -
  show m: "(p mod 8 + 1) mod 8 = (p + 1) mod (8 * n) mod 8" 
    using mod_mod_cancel[of 8 "8 * n" "p + 1"] mod_add_left_eq[of p 8 1] by simp
  show "(if (p mod 8 + 1) mod 8 = 0 then (p div 8 + 1) mod n else p div 8) = (p + 1) mod (8 * n) div 8"
  proof (cases "(p mod 8 + 1) mod 8 = 0")
    case True
    then have "(p + 1) mod 8 = 0" by (simp add: mod_Suc_eq)
    then have "p + 1 = 8 * ((p + 1) div 8)" "(p + 1) div 8 = p div 8 + 1"
      by (metis add_0 mult_div_mod_eq add.right_neutral) (use \<open>(p + 1) mod 8 = 0\<close> in presburger)
    then have "(p + 1) mod (8 * n) = 8 * ((p div 8 + 1) mod n)" by (metis mult_mod_right)
    then show ?thesis using True by simp
  next
    case False
    then have "(p + 1) mod 8 \<noteq> 0" by (simp add: mod_Suc_eq)
    then have "(p + 1) div 8 = p div 8" "p + 1 \<noteq> 8 * n" by presburger+
    then show ?thesis using False assms by simp
  qed
qed

lemma search_is_scan:
  assumes "p < 8 * length bm"
  shows "search_loop fuel bm nr (p div 8) (p mod 8) start explored streak r
    = scan fuel (frame_used bm) (8 * length bm) nr p start explored streak r"
  using assms
proof (induction fuel arbitrary: p start explored streak r)
  case (Suc fuel)
  let ?q = "(p + 1) mod (8 * length bm)"
  have q: "?q < 8 * length bm" using Suc.prems by (intro mod_less_divisor) linarith
  have wrap: "(?q div 8 = 0 \<and> ?q mod 8 = 0) = (?q = 0)"
    by (metis div_mult_mod_eq add_0 mult_zero_left div_0 mod_0)
  have at: "at bm (p div 8) = Inr (bm ! (p div 8))" using Suc.prems by (intro at_in) simp
  show ?case
    unfolding search_loop.simps scan.simps at andThen_Inr Let_def used_byte next_position(1)[OF Suc.prems]
      next_position(2)[OF Suc.prems, unfolded next_position(1)[OF Suc.prems]] wrap mult_div_mod_eq Suc.IH[OF q]
    by (cases "frame_used bm p") simp_all
qed simp

definition free_run :: "(nat \<Rightarrow> bool) \<Rightarrow> nat \<Rightarrow> nat \<Rightarrow> bool" where
  "free_run used nr a \<longleftrightarrow> (\<forall>i. a \<le> i \<and> i < a + nr \<longrightarrow> \<not> used i)"

text \<open>
  The invariant of the search, started at \<open>h\<close>, after \<open>k\<close> wrap-arounds at position \<open>p\<close> with \<open>c\<close> free
  positions before it: the free positions are a maximal streak, and no area ends before \<open>p\<close>.
\<close>

definition scan_inv :: "(nat \<Rightarrow> bool) \<Rightarrow> nat \<Rightarrow> nat \<Rightarrow> nat \<Rightarrow> nat \<Rightarrow> nat \<Rightarrow> nat \<Rightarrow> nat \<Rightarrow> nat \<Rightarrow> bool" where
  "scan_inv used tot nr h k p start explored c \<longleftrightarrow>
     p + k * tot = h + explored \<and> p < tot \<and> h < tot \<and> c < nr
     \<and> (let lo = (if k = 0 then h else 0) in
          lo + c \<le> p \<and> (\<forall>i. p - c \<le> i \<and> i < p \<longrightarrow> \<not> used i) \<and> (0 < c \<longrightarrow> start = p - c)
          \<and> (p - c = lo \<or> used (p - c - 1)) \<and> (\<forall>a. lo \<le> a \<and> a + nr \<le> p \<longrightarrow> \<not> free_run used nr a))
     \<and> (0 < k \<longrightarrow> (\<forall>a. h \<le> a \<and> a + nr \<le> tot \<longrightarrow> \<not> free_run used nr a))
     \<and> (1 < k \<longrightarrow> k = 2 \<and> p = 0 \<and> (\<forall>a. a + nr \<le> tot \<longrightarrow> \<not> free_run used nr a))"

lemma scan_inv_advance:
  assumes inv: "scan_inv used tot nr h k p start explored c" and "k < 2"
    and c': "c' = (if used p then 0 else c + 1)" "c' < nr" and lo: "lo = (if k = 0 then h else 0)"
  shows "\<forall>a. lo \<le> a \<and> a + nr \<le> p + 1 \<longrightarrow> \<not> free_run used nr a"
    and "p + 1 < tot \<Longrightarrow>
      scan_inv used tot nr h k (p + 1) (if \<not> used p \<and> c = 0 then p else start) (explored + 1) c'"
proof -
  note I = inv[unfolded scan_inv_def Let_def lo[symmetric]]
  show none: "\<forall>a. lo \<le> a \<and> a + nr \<le> p + 1 \<longrightarrow> \<not> free_run used nr a"
  proof (intro allI impI)
    fix a assume a: "lo \<le> a \<and> a + nr \<le> p + 1"
    show "\<not> free_run used nr a"
    proof (cases "a + nr \<le> p")
      case False
      then have e: "a + nr = p + 1" using a by simp
      show ?thesis
      proof (cases "used p")
        case True
        then show ?thesis using e c' by (auto simp: free_run_def intro!: exI[of _ p])
      next
        case False
        then have "a + c < p" using e c' by simp
        then have "used (p - c - 1)" using I a by auto
        then show ?thesis using \<open>a + c < p\<close> e by (auto simp: free_run_def intro!: exI[of _ "p - c - 1"])
      qed
    qed (use I a in auto)
  qed
  show "scan_inv used tot nr h k (p + 1) (if \<not> used p \<and> c = 0 then p else start) (explored + 1) c'"
    if "p + 1 < tot"
    unfolding scan_inv_def Let_def lo[symmetric]
    using I none c' that assms(2) by (auto simp: less_Suc_eq)
qed

lemma scan_inv_wrap:
  assumes inv: "scan_inv used tot nr h k p start explored c" and "k < 2" "p + 1 = tot"
    and "\<forall>a. (if k = 0 then h else 0) \<le> a \<and> a + nr \<le> p + 1 \<longrightarrow> \<not> free_run used nr a"
  shows "scan_inv used tot nr h (Suc k) 0 s' (explored + 1) 0"
  using assms by (auto simp: scan_inv_def Let_def split: if_splits)

lemma scan_inv_done:
  assumes inv: "scan_inv used tot nr h k p start explored 0" and "tot \<le> explored" "a + nr \<le> tot" "0 < nr"
  shows "\<not> free_run used nr a"
proof -
  note I = inv[unfolded scan_inv_def Let_def]
  consider "k = 1" | "k = 2" using I assms(2) by (cases k) fastforce+
  then show ?thesis
  proof cases
    case 1
    then have p: "h \<le> p" using I assms(2) by simp
    consider "h \<le> a" | "a + nr \<le> p" | "a < p" "p < a + nr" using p by linarith
    then show ?thesis
    proof cases
      case 3
      then have "used (p - 1)" using I 1 by auto
      then show ?thesis using 3 by (auto simp: free_run_def intro!: exI[of _ "p - 1"])
    qed (use I 1 assms(3) in auto)
  qed (use I assms(3) in auto)
qed

lemma scan_correct:
  assumes "scan_inv used tot nr h k p start explored c" "0 < nr" "2 * tot - (h + explored) < fuel"
  shows "\<exists>res. scan fuel used tot nr p start explored (0 < c) (nr - c) = Inr res
    \<and> (case res of Some a \<Rightarrow> a + nr \<le> tot \<and> free_run used nr a
                  | None \<Rightarrow> \<forall>a. a + nr \<le> tot \<longrightarrow> \<not> free_run used nr a)"
  using assms
proof (induction fuel arbitrary: k p start explored c)
  case (Suc fuel)
  note inv = Suc.prems(1)
  note I = inv[unfolded scan_inv_def Let_def]
  have cn: "c < nr" "nr - c \<noteq> 0" "p < tot" using I by auto
  show ?case
  proof (cases "explored < tot \<or> 0 < c")
    case False
    then have "c = 0" "tot \<le> explored" by auto
    then show ?thesis using scan_inv_done[of used tot nr h k p start explored] inv Suc.prems(2) by auto
  next
    case True
    then have k: "k < 2" using I by (cases "k = 2") (auto simp: not_less)
    have room: "h + explored < 2 * tot"
      using I k cn(3) by (cases k) auto
    define c' where "c' = (if used p then 0 else c + 1)"
    define s' where "s' = (if \<not> used p \<and> c = 0 then p else start)"
    have r: "nr - c = nr \<longleftrightarrow> c = 0" using cn by auto
    show ?thesis
    proof (cases "c' < nr")
      case False
      then have f: "\<not> used p" "c + 1 = nr" using cn(1) Suc.prems(2) by (auto simp: c'_def split: if_splits)
      have "s' = p - c" using I f by (auto simp: s'_def)
      moreover have "c \<le> p" using I by (auto split: if_splits)
      moreover have "free_run used nr (p - c)"
        using I f \<open>c \<le> p\<close> by (auto simp: free_run_def less_Suc_eq)
      ultimately show ?thesis using True f cn r by (auto simp: Let_def s'_def)
    next
      case less: True
      note A = scan_inv_advance[OF inv k c'_def less refl]
      let ?q = "(p + 1) mod tot"
      have unf: "scan (Suc fuel) used tot nr p start explored (0 < c) (nr - c) =
          scan fuel used tot nr ?q s' (explored + 1) (0 < (if ?q = 0 then 0 else c')) (nr - (if ?q = 0 then 0 else c'))"
        using True cn r less by (auto simp: Let_def s'_def c'_def)
      have fuel: "2 * tot - (h + (explored + 1)) < fuel" using Suc.prems(3) room by simp
      show ?thesis
      proof (cases "p + 1 = tot")
        case True
        note W = scan_inv_wrap[OF inv k True A(1), of s']
        show ?thesis using Suc.IH[OF W Suc.prems(2) fuel] True unfolding unf by simp
      next
        case False
        then have lt: "p + 1 < tot" using cn(3) by simp
        show ?thesis
          using Suc.IH[OF A(2)[OF lt, folded s'_def] Suc.prems(2) fuel] lt unfolding unf by simp
      qed
    qed
  qed
qed simp

lemma search_correct:
  assumes "byte < length bm" "bitp < 8" "0 < nr"
  shows "\<exists>res. search_loop (16 * length bm + 2) bm nr byte bitp (8 * byte + bitp) 0 False nr = Inr res
    \<and> (case res of Some a \<Rightarrow> a + nr \<le> 8 * length bm \<and> free_run (frame_used bm) nr a
                  | None \<Rightarrow> \<forall>a. a + nr \<le> 8 * length bm \<longrightarrow> \<not> free_run (frame_used bm) nr a)"
proof -
  let ?h = "8 * byte + bitp"
  have h: "?h < 8 * length bm" "?h div 8 = byte" "?h mod 8 = bitp" using assms by auto
  have "scan_inv (frame_used bm) (8 * length bm) nr ?h 0 ?h ?h 0 0"
    using h(1) assms(3) by (auto simp: scan_inv_def Let_def)
  from scan_correct[OF this assms(3), of "16 * length bm + 2"]
  show ?thesis using search_is_scan[OF h(1), of "16 * length bm + 2" nr ?h 0 False nr] h(2,3)
    by (simp del: scan.simps search_loop.simps)
qed

section \<open>The invariant and the operations\<close>

definition alloc_ok :: "pf_bitmap_allocator \<Rightarrow> bool" where
  "alloc_ok a \<longleftrightarrow> 0 < bitmap_size a \<and> bitmap_size a \<le> 2 ^ 49
     \<and> last_alloc_byte_hint a < bitmap_size a \<and> last_alloc_bit_hint a < 8"

definition frame_count :: "pf_bitmap_allocator \<Rightarrow> nat" where
  "frame_count a = 8 * bitmap_size a"

definition area_free :: "pf_bitmap_allocator \<Rightarrow> nat \<Rightarrow> nat \<Rightarrow> bool" where
  "area_free a nr f \<longleftrightarrow> f + nr \<le> frame_count a \<and> (\<forall>i < nr. \<not> frame_used (bitmap a) (f + i))"

lemma area_free_run: "area_free a nr f \<longleftrightarrow> f + nr \<le> frame_count a \<and> free_run (frame_used (bitmap a)) nr f"
  by (auto simp: area_free_def free_run_def) (metis le_add_diff_inverse less_diff_conv2 add.commute nat_add_left_cancel_less)

text \<open>What a successful allocation of \<open>nr\<close> frames at \<open>f\<close> does to the allocator.\<close>

definition allocates :: "pf_bitmap_allocator \<Rightarrow> u64 \<Rightarrow> nat \<Rightarrow> pf_bitmap_allocator \<Rightarrow> bool" where
  "allocates a nr f a' \<longleftrightarrow> bitmap_size a' = bitmap_size a
     \<and> (\<forall>j < frame_count a. frame_used (bitmap a') j = (f \<le> j \<and> j < f + unat nr \<or> frame_used (bitmap a) j))
     \<and> allocatable_frames a' = allocatable_frames a - nr \<and> allocated_page_frames a' = allocated_page_frames a + nr"

lemma get_pages_raw_cases:
  assumes "alloc_ok a"
  shows "(nr = 0 \<or> nr > free_frames a \<or> \<not> (\<exists>f. area_free a (unat nr) f)) \<and> get_pages_raw a nr = Inr (None, a)
    \<or> nr \<noteq> 0 \<and> nr \<le> free_frames a \<and> (\<exists>f a'. get_pages_raw a nr = Inr (Some (pfn_to_phys (of_nat f)), a')
         \<and> area_free a (unat nr) f \<and> allocates a nr f a' \<and> alloc_ok a')"
proof (cases "nr = 0 \<or> nr > free_frames a")
  case True
  then show ?thesis by (auto simp: get_pages_raw_def)
next
  case False
  have pos: "0 < unat nr" using False by (simp add: unat_gt_0)
  obtain res where res: "search_loop (16 * length (bitmap a) + 2) (bitmap a) (unat nr) (last_alloc_byte_hint a)
      (last_alloc_bit_hint a) (8 * last_alloc_byte_hint a + last_alloc_bit_hint a) 0 False (unat nr) = Inr res"
    "case res of Some f \<Rightarrow> area_free a (unat nr) f | None \<Rightarrow> \<not> (\<exists>f. area_free a (unat nr) f)"
    using search_correct[of "last_alloc_byte_hint a" "bitmap a" "last_alloc_bit_hint a" "unat nr"] assms pos
    by (auto simp: alloc_ok_def bitmap_size_def area_free_run frame_count_def split: option.splits)
  show ?thesis
  proof (cases res)
    case None
    then show ?thesis using res False by (simp add: get_pages_raw_def Let_def bitmap_size_def del: search_loop.simps)
  next
    case (Some f)
    then have f: "area_free a (unat nr) f" using res(2) by simp
    then have le: "f + unat nr \<le> 8 * length (bitmap a)" by (simp add: area_free_def frame_count_def bitmap_size_def)
    have sz: "8 * length (bitmap a) \<le> 2 ^ 52" using assms by (simp add: alloc_ok_def bitmap_size_def)
    have pfn: "pfn_of (pfn_to_phys (of_nat f)) = f" using le sz pos by (intro pfn_of_pfn_to_phys) linarith
    obtain bm where bm: "set_bitmap_region (pfn_to_phys (of_nat f)) nr (bitmap a) = Inr bm" "length bm = length (bitmap a)"
      "\<forall>j < 8 * length (bitmap a). frame_used bm j = (f \<le> j \<and> j < f + unat nr \<or> frame_used (bitmap a) j)"
      using set_region_ok[of "pfn_to_phys (of_nat f)" nr "bitmap a"] le sz unfolding pfn by blast
    define a' where "a' = set_hint f (unat nr) (allocated_nr_frames nr (a\<lparr>bitmap := bm\<rparr>))"
    have "get_pages_raw a nr = Inr (Some (pfn_to_phys (of_nat f)), a')"
      using res Some False bm(1)
      by (simp add: get_pages_raw_def Let_def bitmap_size_def a'_def del: search_loop.simps of_nat_add of_nat_mult)
    moreover have "allocates a nr f a'" "alloc_ok a'"
      using bm(2,3) assms
      by (auto simp: a'_def allocates_def alloc_ok_def set_hint_def allocated_nr_frames_def bitmap_size_def
          frame_count_def Let_def)
    ultimately show ?thesis using f False by auto
  qed
qed

section \<open>The interface\<close>

text \<open>
  What the users of a page frame allocator rely on: an allocation never faults, keeps the invariant,
  changes nothing when it fails, and when it succeeds hands out frames that were not in use and marks
  exactly these.
\<close>

locale frame_allocator =
  fixes alloc :: "'s \<Rightarrow> u64 \<Rightarrow> (phys_addr option \<times> 's) run"
    and used :: "'s \<Rightarrow> nat \<Rightarrow> bool"
    and frames :: "'s \<Rightarrow> nat"
    and invar :: "'s \<Rightarrow> bool"
  assumes alloc_total: "invar a \<Longrightarrow> \<exists>r a'. alloc a nr = Inr (r, a') \<and> invar a' \<and> frames a' = frames a"
    and alloc_none: "invar a \<Longrightarrow> alloc a nr = Inr (None, a') \<Longrightarrow> a' = a"
    and alloc_some: "invar a \<Longrightarrow> alloc a nr = Inr (Some p, a') \<Longrightarrow>
      pfn_of p + unat nr \<le> frames a \<and> (\<forall>i < unat nr. \<not> used a (pfn_of p + i))
      \<and> (\<forall>j < frames a. used a' j = (pfn_of p \<le> j \<and> j < pfn_of p + unat nr \<or> used a j))"
begin

fun alloc_all :: "'s \<Rightarrow> u64 list \<Rightarrow> ((phys_addr \<times> u64) list \<times> 's) run" where
  "alloc_all a [] = Inr ([], a)"
| "alloc_all a (nr # nrs) =
     andThen (alloc a nr) (\<lambda>(r, a). andThen (alloc_all a nrs) (\<lambda>(rs, a).
       Inr (case r of None \<Rightarrow> rs | Some p \<Rightarrow> (p, nr) # rs, a)))"

definition area :: "phys_addr \<times> u64 \<Rightarrow> nat set" where
  "area x = {pfn_of (fst x) ..< pfn_of (fst x) + unat (snd x)}"

lemma alloc_all_disjoint:
  assumes "invar a"
  shows "\<exists>rs a'. alloc_all a nrs = Inr (rs, a') \<and> invar a' \<and> frames a' = frames a
    \<and> sorted_wrt (\<lambda>x y. area x \<inter> area y = {}) rs
    \<and> (\<forall>x \<in> set rs. \<forall>j \<in> area x. j < frames a \<and> \<not> used a j)"
  using assms
proof (induction nrs arbitrary: a)
  case (Cons nr nrs)
  obtain r a1 where r: "alloc a nr = Inr (r, a1)" "invar a1" "frames a1 = frames a"
    using alloc_total[OF Cons.prems] by blast
  obtain rs a2 where rs: "alloc_all a1 nrs = Inr (rs, a2)" "invar a2" "frames a2 = frames a1"
    "sorted_wrt (\<lambda>x y. area x \<inter> area y = {}) rs" "\<forall>x \<in> set rs. \<forall>j \<in> area x. j < frames a1 \<and> \<not> used a1 j"
    using Cons.IH[OF r(2)] by blast
  show ?case
  proof (cases r)
    case None
    then show ?thesis using r rs alloc_none[OF Cons.prems] by auto
  next
    case (Some p)
    note s = alloc_some[OF Cons.prems r(1)[unfolded Some]]
    have "area (p, nr) \<inter> area x = {}" "\<forall>j \<in> area x. j < frames a \<and> \<not> used a j" if "x \<in> set rs" for x
      using that rs(5) s r(3) by (fastforce simp: area_def)+
    moreover have "j < frames a \<and> \<not> used a j" if "j \<in> area (p, nr)" for j
    proof -
      have "j = pfn_of p + (j - pfn_of p)" "j - pfn_of p < unat nr" using that by (auto simp: area_def)
      then show ?thesis using s by (metis add_less_le_mono add_strict_left_mono order_less_le_trans)
    qed
    ultimately show ?thesis using Some r rs by auto
  qed
qed auto

end

lemma allocates_pfn:
  assumes "alloc_ok a" "get_pages_raw a nr = Inr (Some p, a')"
  shows "area_free a (unat nr) (pfn_of p) \<and> allocates a nr (pfn_of p) a' \<and> alloc_ok a' \<and> nr \<noteq> 0"
proof -
  obtain f where f: "p = pfn_to_phys (of_nat f)" "area_free a (unat nr) f" "allocates a nr f a'" "alloc_ok a'" "nr \<noteq> 0"
    using get_pages_raw_cases[OF assms(1), of nr] assms(2) by auto
  have "0 < unat nr" using f(5) by (simp add: unat_gt_0)
  then have "f < 2 ^ 52"
    using f(2) assms(1) by (auto simp: area_free_def frame_count_def alloc_ok_def)
  then show ?thesis using f pfn_of_pfn_to_phys by simp
qed

interpretation pf: frame_allocator get_pages_raw "\<lambda>a. frame_used (bitmap a)" frame_count alloc_ok
proof
  fix a nr assume "alloc_ok a"
  then show "\<exists>r a'. get_pages_raw a nr = Inr (r, a') \<and> alloc_ok a' \<and> frame_count a' = frame_count a"
    using get_pages_raw_cases[of a nr] by (fastforce simp: allocates_def frame_count_def)
next
  fix a nr a' assume "alloc_ok a" "get_pages_raw a nr = Inr (None, a')"
  then show "a' = a" using get_pages_raw_cases[of a nr] by auto
next
  fix a nr p a' assume "alloc_ok a" "get_pages_raw a nr = Inr (Some p, a')"
  from allocates_pfn[OF this]
  show "pfn_of p + unat nr \<le> frame_count a \<and> (\<forall>i < unat nr. \<not> frame_used (bitmap a) (pfn_of p + i))
      \<and> (\<forall>j < frame_count a. frame_used (bitmap a') j = (pfn_of p \<le> j \<and> j < pfn_of p + unat nr \<or> frame_used (bitmap a) j))"
    by (simp add: area_free_def allocates_def)
qed

section \<open>Properties\<close>

text \<open>
  C3. The search is sound and complete: in every state with valid hints, a request returns without fault;
  it succeeds exactly when it asks for at least one frame, passes the test of the frame counters, and
  some run of that many consecutive free frames exists anywhere in the bitmap, and then it returns such
  a run, marks exactly its frames as used and keeps the hints valid. Otherwise nothing changes.
\<close>

theorem get_pages_sound_complete:
  assumes "alloc_ok a"
  shows "\<exists>r a'. get_pages_raw a nr = Inr (r, a') \<and> alloc_ok a'
    \<and> (r \<noteq> None \<longleftrightarrow> nr \<noteq> 0 \<and> nr \<le> free_frames a \<and> (\<exists>f. area_free a (unat nr) f))
    \<and> (case r of None \<Rightarrow> a' = a
       | Some p \<Rightarrow> area_free a (unat nr) (pfn_of p) \<and> (\<forall>j < frame_count a.
            frame_used (bitmap a') j = (pfn_of p \<le> j \<and> j < pfn_of p + unat nr \<or> frame_used (bitmap a) j)))"
proof -
  obtain r a' where r: "get_pages_raw a nr = Inr (r, a')" "alloc_ok a'" using pf.alloc_total[OF assms] by blast
  show ?thesis
  proof (cases r)
    case None
    then show ?thesis using r get_pages_raw_cases[OF assms, of nr] by auto
  next
    case (Some p)
    then show ?thesis
      using r allocates_pfn[OF assms, of nr p a'] get_pages_raw_cases[OF assms, of nr] by (auto simp: allocates_def)
  qed
qed

text \<open>An allocator with two bytes of bitmap, of which frames 5 to 15 are free, and a hint inside that area.\<close>

definition small_allocator :: pf_bitmap_allocator where
  "small_allocator = \<lparr>pf_addr = 0, bitmap = [0xF8, 0], last_alloc_byte_hint = 0, last_alloc_bit_hint = 7,
     allocatable_frames = 11, allocated_page_frames = 0\<rparr>"

lemma small_allocator_ok: "alloc_ok small_allocator"
  by (simp add: alloc_ok_def small_allocator_def bitmap_size_def)

lemma small_allocator_free: "area_free small_allocator 11 5"
proof -
  have "list_all (\<lambda>i. \<not> frame_used (bitmap small_allocator) (5 + i)) [0 ..< 11]"
    by code_simp
  then have "\<forall>i < 11. \<not> frame_used (bitmap small_allocator) (5 + i)"
    unfolding list_all_iff by (metis atLeastLessThan_iff set_upt zero_le)
  then show ?thesis by (simp add: area_free_def frame_count_def bitmap_size_def small_allocator_def)
qed

theorem get_pages_sound_complete_witness:
  "\<exists>p a'. get_pages_raw small_allocator 11 = Inr (Some p, a') \<and> area_free small_allocator 11 (pfn_of p)"
  using get_pages_sound_complete[OF small_allocator_ok, of 11] small_allocator_free
  by (auto simp: free_frames_def small_allocator_def split: option.splits)

text \<open>
  C20. Frames are never handed out twice: however many areas are requested one after the other, the areas
  obtained are pairwise disjoint, lie within the bitmap and were free before the first request.
\<close>

theorem get_pages_disjoint:
  assumes "alloc_ok a"
  shows "\<exists>rs a'. pf.alloc_all a nrs = Inr (rs, a') \<and> alloc_ok a'
    \<and> sorted_wrt (\<lambda>x y. pf.area x \<inter> pf.area y = {}) rs
    \<and> (\<forall>x \<in> set rs. \<forall>j \<in> pf.area x. j < frame_count a \<and> \<not> frame_used (bitmap a) j)"
  using pf.alloc_all_disjoint[OF assms, of nrs] by blast

theorem get_pages_disjoint_witness:
  "\<exists>rs a'. pf.alloc_all small_allocator [2, 3] = Inr (rs, a') \<and> sorted_wrt (\<lambda>x y. pf.area x \<inter> pf.area y = {}) rs"
  using get_pages_disjoint[OF small_allocator_ok, of "[2, 3]"] by blast

lemma release_undoes:
  assumes ok: "alloc_ok a" and al: "area_free a (unat nr) (pfn_of p)" "allocates a nr (pfn_of p) a'" "alloc_ok a'"
  shows "\<exists>a''. free_pages_raw a' nr p = Inr a'' \<and> alloc_ok a'' \<and> frame_count a'' = frame_count a
    \<and> (\<forall>j < frame_count a. frame_used (bitmap a'') j = frame_used (bitmap a) j)
    \<and> allocatable_frames a'' = allocatable_frames a \<and> allocated_page_frames a'' = allocated_page_frames a"
proof -
  have sz: "length (bitmap a') = length (bitmap a)" "8 * length (bitmap a') \<le> 2 ^ 52" "pfn_of p + unat nr \<le> 8 * length (bitmap a')"
    using al ok by (auto simp: allocates_def alloc_ok_def bitmap_size_def area_free_def frame_count_def)
  obtain bm where bm: "clear_bitmap_region p nr (bitmap a') = Inr bm" "length bm = length (bitmap a')"
    "\<forall>j < 8 * length (bitmap a'). frame_used bm j =
       (\<not> (pfn_of p \<le> j \<and> j < pfn_of p + unat nr) \<and> frame_used (bitmap a') j)"
    using clear_region_ok[OF sz(3,2)] by blast
  have "frame_used bm j = frame_used (bitmap a) j" if "j < frame_count a" for j
  proof (cases "pfn_of p \<le> j \<and> j < pfn_of p + unat nr")
    case True
    then obtain i where "j = pfn_of p + i" "i < unat nr" using le_Suc_ex by auto
    then have "\<not> frame_used (bitmap a) j" using al by (simp add: area_free_def)
    then show ?thesis using True bm(3) that sz(1) by (simp add: frame_count_def bitmap_size_def)
  next
    case False
    then show ?thesis using bm(3) that sz(1) al by (auto simp: frame_count_def bitmap_size_def allocates_def)
  qed
  then show ?thesis
    using bm(1,2) al sz by (auto simp: frame_count_def free_pages_raw_def freed_nr_frames_def alloc_ok_def bitmap_size_def allocates_def)
qed

text \<open>
  C29. Releasing an allocated area undoes the allocation: it never faults, and the bitmap and both frame
  counters are as before.
\<close>

theorem free_pages_roundtrip:
  assumes "alloc_ok a" "get_pages_raw a nr = Inr (Some p, a')"
  shows "\<exists>a''. free_pages_raw a' nr p = Inr a'' \<and> alloc_ok a''
    \<and> (\<forall>j < frame_count a. frame_used (bitmap a'') j = frame_used (bitmap a) j)
    \<and> allocatable_frames a'' = allocatable_frames a \<and> allocated_page_frames a'' = allocated_page_frames a"
  using release_undoes[OF assms(1), of nr p a'] allocates_pfn[OF assms] by blast

theorem free_pages_roundtrip_witness:
  "\<exists>p a' a''. get_pages_raw small_allocator 3 = Inr (Some p, a') \<and> free_pages_raw a' 3 p = Inr a''
     \<and> allocatable_frames a'' = allocatable_frames small_allocator"
proof -
  have "area_free small_allocator 3 5" using small_allocator_free by (auto simp: area_free_def)
  then obtain p a' where g: "get_pages_raw small_allocator 3 = Inr (Some p, a')"
    using get_pages_raw_cases[OF small_allocator_ok, of 3] by (auto simp: free_frames_def small_allocator_def)
  then show ?thesis using free_pages_roundtrip[OF small_allocator_ok g] by blast
qed

text \<open>
  Every allocation is counted twice in the number of free frames that guards the next requests: it
  decreases by twice the number of the allocated frames, modulo \<open>2 ^ 64\<close>.
\<close>

lemma free_frames_counted_twice:
  assumes "alloc_ok a" "get_pages_raw a nr = Inr (Some p, a')"
  shows "free_frames a' = free_frames a - 2 * nr"
  using allocates_pfn[OF assms] by (simp add: free_frames_def allocates_def algebra_simps)

lemma free_frames_counted_twice_witness:
  "\<exists>p a'. get_pages_raw small_allocator 6 = Inr (Some p, a') \<and> free_frames a' = -1"
proof -
  have "area_free small_allocator 6 5" using small_allocator_free by (auto simp: area_free_def)
  then obtain p a' where g: "get_pages_raw small_allocator 6 = Inr (Some p, a')"
    using get_pages_raw_cases[OF small_allocator_ok, of 6] by (auto simp: free_frames_def small_allocator_def)
  show ?thesis using free_frames_counted_twice[OF small_allocator_ok g] g
    by (simp add: free_frames_def small_allocator_def)
qed

section \<open>Initialization\<close>

definition map_ok :: "limine_memmap_entry list \<Rightarrow> bool" where
  "map_ok lmap \<longleftrightarrow> (\<forall>l \<in> set lmap. lm_type l = LIMINE_MEMMAP_USABLE \<longrightarrow>
     unat (lm_base l) mod 4096 = 0 \<and> unat (lm_length l) mod 4096 = 0 \<and> lm_length l \<noteq> 0
     \<and> unat (lm_base l) + unat (lm_length l) < 2 ^ 64)"

definition usable_frame :: "limine_memmap_entry list \<Rightarrow> nat \<Rightarrow> bool" where
  "usable_frame lmap j \<longleftrightarrow> (\<exists>l \<in> set lmap. lm_type l = LIMINE_MEMMAP_USABLE
     \<and> pfn_of (lm_base l) \<le> j \<and> j < pfn_of (lm_base l) + unat (lm_length l) div 4096)"

lemma pages_of_bytes: "unat (BYTE_LEN_TO_PAGES n) = unat n div 4096 + (if unat n mod 4096 = 0 then 0 else 1)"
proof -
  have "unat n div 4096 < 2 ^ 52" using unat_less_size[of n] by (simp add: less_mult_imp_div_less)
  then have "unat (n div 4096 + 1) = unat n div 4096 + 1" "unat (n div 4096) = unat n div 4096"
    by (subst unat_add_small; simp add: unat_div)+ (simp add: unat_div)
  moreover have "unat (n mod 4096) = unat n mod 4096" by (simp add: unat_mod)
  then have "n mod 4096 = 0 \<longleftrightarrow> unat n mod 4096 = 0" by (metis unat_eq_0)
  ultimately show ?thesis by (simp add: BYTE_LEN_TO_PAGES_def PAGE_SIZE_def)
qed

text \<open>The frames of the usable entries fit the bitmap that is dimensioned by the memory summary.\<close>

abbreviation bitmap_bytes :: "system_memory_info \<Rightarrow> u64" where
  "bitmap_bytes mi \<equiv> drop_bit 3 (nr_of_pfns mi) + (if nr_of_pfns mi mod 8 \<noteq> 0 then 1 else 0)"

lemma bitmap_bytes_bounds:
  assumes "mi = init_system_memory_info es"
  shows "unat (nr_of_pfns mi) \<le> 8 * unat (bitmap_bytes mi)" "0 < unat (bitmap_bytes mi)"
    "unat (bitmap_bytes mi) \<le> 2 ^ 49"
proof -
  let ?n = "unat (nr_of_pfns mi)"
  have n: "0 < ?n" "?n \<le> 2 ^ 52"
    using nr_of_pfns_unat[of es] phys_to_pfn_less assms by (simp_all add: init_system_memory_info_def Let_def Suc_le_eq)
  have "unat (nr_of_pfns mi mod 8) = ?n mod 8" by (simp add: unat_mod)
  then have z: "nr_of_pfns mi mod 8 = 0 \<longleftrightarrow> ?n mod 8 = 0" by (metis unat_eq_0)
  have "unat (drop_bit 3 (nr_of_pfns mi) + 1) = ?n div 8 + 1"
    using n by (subst unat_add_small) (simp_all add: unat_drop_bit)
  then have b: "unat (bitmap_bytes mi) = ?n div 8 + (if ?n mod 8 = 0 then 0 else 1)"
    using z by (simp add: unat_drop_bit)
  show "?n \<le> 8 * unat (bitmap_bytes mi)" "0 < unat (bitmap_bytes mi)" "unat (bitmap_bytes mi) \<le> 2 ^ 49"
    unfolding b using n by (cases "?n mod 8 = 0"; simp; presburger)+
qed

lemma usable_in_bitmap:
  assumes "map_ok lmap" "l \<in> set lmap" "lm_type l = LIMINE_MEMMAP_USABLE"
    and "mi = init_system_memory_info (get_boot_memmap lmap)"
  shows "pfn_of (lm_base l) + unat (lm_length l) div 4096 \<le> 8 * unat (bitmap_bytes mi)"
proof -
  let ?b = "unat (lm_base l)" and ?n = "unat (lm_length l)" and ?a = "lm_base l + lm_length l - 1"
  have l: "?b mod 4096 = 0" "?n mod 4096 = 0" "0 < ?n" "?b + ?n < 2 ^ 64"
    using assms(1-3) by (auto simp: map_ok_def unat_gt_0)
  have "unat (lm_base l + lm_length l) = ?b + ?n" using l(4) by (intro unat_add_small) simp
  moreover have "1 \<le> lm_base l + lm_length l" using calculation l(3) by (simp add: word_le_nat_alt)
  ultimately have a: "unat ?a = ?b + ?n - 1" by (simp add: unat_sub_small)
  have "pfn_of x = unat x div 4096" for x
    by (simp add: phys_to_pfn_def U64_RSHIFT_def PAGE_SHIFT_def unat_drop_bit)
  then have "pfn_of ?a = (?b + ?n - 1) div 4096" "pfn_of (lm_base l) = ?b div 4096" using a by simp_all
  moreover obtain x y where "?b = 4096 * x" "?n = 4096 * Suc y"
    using l(1-3) by (metis mod_0_imp_dvd dvdE gr0_conv_Suc mult_0_right neq0_conv)
  then have "(?b + ?n - 1) div 4096 + 1 = ?b div 4096 + ?n div 4096" by simp
  moreover have "pfn_of ?a < unat (nr_of_pfns mi)"
    unfolding assms(4) using assms(2)
    by (intro pfn_covered[of "boot_memmap_entry l"]) (simp_all add: get_boot_memmap_def boot_memmap_entry_def)
  ultimately show ?thesis using bitmap_bytes_bounds(1)[OF assms(4)] by linarith
qed

lemma init_loop_ok:
  assumes "\<forall>l \<in> set es. lm_type l = LIMINE_MEMMAP_USABLE \<longrightarrow> unat (lm_length l) mod 4096 = 0
      \<and> pfn_of (lm_base l) + unat (lm_length l) div 4096 \<le> 8 * length (bitmap a)"
    and "8 * length (bitmap a) \<le> 2 ^ 52"
  shows "\<exists>a'. init_bitmap_loop es a = Inr a' \<and> length (bitmap a') = length (bitmap a) \<and> pf_addr a' = pf_addr a
    \<and> last_alloc_byte_hint a' = last_alloc_byte_hint a \<and> last_alloc_bit_hint a' = last_alloc_bit_hint a
    \<and> (\<forall>j < 8 * length (bitmap a). frame_used (bitmap a') j = (frame_used (bitmap a) j \<and> \<not> usable_frame es j))"
  using assms
proof (induction es arbitrary: a)
  case Nil
  then show ?case by (simp add: usable_frame_def)
next
  case (Cons l es)
  show ?case
  proof (cases "lm_type l = LIMINE_MEMMAP_USABLE")
    case False
    then show ?thesis using Cons.IH[of a] Cons.prems by (auto simp: usable_frame_def)
  next
    case True
    let ?n = "BYTE_LEN_TO_PAGES (lm_length l)"
    have n: "unat ?n = unat (lm_length l) div 4096" using Cons.prems(1) True by (simp add: pages_of_bytes)
    obtain bm where bm: "clear_bitmap_region (lm_base l) ?n (bitmap a) = Inr bm" "length bm = length (bitmap a)"
      "\<forall>j < 8 * length (bitmap a). frame_used bm j =
         (\<not> (pfn_of (lm_base l) \<le> j \<and> j < pfn_of (lm_base l) + unat ?n) \<and> frame_used (bitmap a) j)"
      using clear_region_ok[of "lm_base l" ?n "bitmap a"] Cons.prems True n by auto
    let ?a = "a\<lparr>bitmap := bm, allocatable_frames := allocatable_frames a + ?n\<rparr>"
    from Cons.IH[of ?a] Cons.prems bm(2) obtain a' where
      a': "init_bitmap_loop es ?a = Inr a'" "length (bitmap a') = length bm" "pf_addr a' = pf_addr a"
      "last_alloc_byte_hint a' = last_alloc_byte_hint a" "last_alloc_bit_hint a' = last_alloc_bit_hint a"
      "\<forall>j < 8 * length bm. frame_used (bitmap a') j = (frame_used bm j \<and> \<not> usable_frame es j)"
      by auto
    then show ?thesis
      using True bm by (auto simp: usable_frame_def n)
  qed
qed

lemma pages_fit:
  fixes x n :: nat
  assumes "x < n" "n mod 4096 = 0"
  shows "x div 4096 + (if x mod 4096 = 0 then 0 else 1) \<le> n div 4096"
proof -
  obtain y where y: "n = 4096 * y" using assms(2) by (metis mod_0_imp_dvd dvdE)
  then have "x div 4096 < y" using assms(1) by (simp add: less_mult_imp_div_less mult.commute)
  then show ?thesis using y by simp
qed

lemma ff_bit: "k < 8 \<Longrightarrow> bit (0xFF :: u8) k"
proof -
  assume "k < 8"
  then consider "k = 0" | "k = 1" | "k = 2" | "k = 3" | "k = 4" | "k = 5" | "k = 6" | "k = 7" by linarith
  then show ?thesis by cases simp_all
qed

lemma find_region_found:
  "find_contiguous_memory_region es offset n = Some v \<Longrightarrow>
   \<exists>l \<in> set es. lm_type l = LIMINE_MEMMAP_USABLE \<and> n < lm_length l \<and> v = lm_base l + offset"
  by (induction es) (auto simp: phys_to_virt_off_def split: if_splits)

lemma find_region_None:
  "find_contiguous_memory_region es offset n = None \<Longrightarrow> l \<in> set es \<Longrightarrow> \<not> (lm_type l = LIMINE_MEMMAP_USABLE \<and> n < lm_length l)"
  by (induction es) (auto split: if_splits)

text \<open>A usable entry that is longer than the allocator and a bitmap of one bit for each frame up to the highest address.\<close>

definition holds_allocator :: "system_memory_info \<Rightarrow> limine_memmap_entry \<Rightarrow> bool" where
  "holds_allocator mi l \<longleftrightarrow> lm_type l = LIMINE_MEMMAP_USABLE
     \<and> unat sizeof_pf_allocator + (unat (nr_of_pfns mi) + 7) div 8 < unat (lm_length l)"

lemma holds_allocator_iff:
  assumes "mi = init_system_memory_info (get_boot_memmap lmap)"
  shows "holds_allocator mi l \<longleftrightarrow> lm_type l = LIMINE_MEMMAP_USABLE \<and> sizeof_pf_allocator + bitmap_bytes mi < lm_length l"
proof -
  note bb = bitmap_bytes_bounds[OF assms]
  have "unat (bitmap_bytes mi) = (unat (nr_of_pfns mi) + 7) div 8"
  proof -
    have z: "nr_of_pfns mi mod 8 = 0 \<longleftrightarrow> unat (nr_of_pfns mi) mod 8 = 0" by (simp add: unat_eq_zero[symmetric] unat_mod del: unat_eq_zero)
    have "unat (drop_bit 3 (nr_of_pfns mi) + 1) = unat (nr_of_pfns mi) div 8 + 1"
      by (subst unat_add_small) (use unat_less_size[of "nr_of_pfns mi"] in \<open>simp_all add: unat_drop_bit\<close>)
    then show ?thesis using z by (auto simp: unat_drop_bit) presburger+
  qed
  moreover have "unat (sizeof_pf_allocator + bitmap_bytes mi) = unat sizeof_pf_allocator + unat (bitmap_bytes mi)"
    using bb(3) by (subst unat_add_small) (simp_all add: sizeof_pf_allocator_def)
  ultimately show ?thesis by (simp add: holds_allocator_def word_less_nat_alt)
qed

text \<open>
  C28. Initialization from a memory map whose usable entries are page aligned, nonempty and apart from the end of memory: it never
  faults, and it fails exactly when no usable entry is longer than the allocator with one bit per frame. Otherwise the allocator
  lies at the start of a usable entry, the hints are valid, and a frame is free exactly when it belongs to a usable
  entry and not to the pages of the allocator itself.
\<close>

theorem early_init_correct:
  assumes "map_ok lmap" "mi = init_system_memory_info (get_boot_memmap lmap)"
  shows "\<exists>r. early_init_page_frame_allocator mi lmap offset = Inr r \<and> (r = None \<longleftrightarrow> (\<forall>l \<in> set lmap. \<not> holds_allocator mi l))
    \<and> (\<forall>a. r = Some a \<longrightarrow> alloc_ok a \<and> (\<exists>l \<in> set lmap. holds_allocator mi l \<and> pf_addr a = phys_to_virt_off (lm_base l) offset)
         \<and> (let base = virt_to_phys_off (pf_addr a) offset;
                pages = BYTE_LEN_TO_PAGES (sizeof_pf_allocator + of_nat (bitmap_size a))
            in \<forall>j < frame_count a. frame_used (bitmap a) j =
                 (\<not> usable_frame lmap j \<or> pfn_of base \<le> j \<and> j < pfn_of base + unat pages)))"
proof -
  note mi_def = assms(2)
  note bb = bitmap_bytes_bounds[OF mi_def]
  let ?n = "unat (bitmap_bytes mi)"
  show ?thesis
  proof (cases "find_contiguous_memory_region lmap offset (sizeof_pf_allocator + bitmap_bytes mi)")
    case None
    then have "\<forall>l \<in> set lmap. \<not> holds_allocator mi l" using find_region_None holds_allocator_iff[OF mi_def] by blast
    then show ?thesis using None by (simp add: early_init_page_frame_allocator_def Let_def)
  next
    case (Some v)
    then obtain l where l: "l \<in> set lmap" "lm_type l = LIMINE_MEMMAP_USABLE"
      "sizeof_pf_allocator + bitmap_bytes mi < lm_length l" "v = lm_base l + offset"
      using find_region_found by blast
    let ?a = "init_pf_allocator_metadata v ?n"
    have len: "length (bitmap ?a) = ?n" "8 * ?n \<le> 2 ^ 52" using bb by (simp_all add: init_pf_allocator_metadata_def)
    have all: "frame_used (bitmap ?a) j" if "j < 8 * ?n" for j
    proof -
      have "j div 8 < ?n" using that by (simp add: less_mult_imp_div_less mult.commute)
      then have "bitmap ?a ! (j div 8) = 0xFF" by (simp add: init_pf_allocator_metadata_def)
      then show ?thesis using ff_bit[of "7 - j mod 8"] by (simp only: frame_used_def)
    qed
    have fit: "\<forall>l \<in> set lmap. lm_type l = LIMINE_MEMMAP_USABLE \<longrightarrow> unat (lm_length l) mod 4096 = 0
        \<and> pfn_of (lm_base l) + unat (lm_length l) div 4096 \<le> 8 * length (bitmap ?a)"
      using usable_in_bitmap[OF assms(1) _ _ mi_def] assms(1) len by (auto simp: map_ok_def)
    obtain a1 where a1: "init_bitmap_loop lmap ?a = Inr a1" "length (bitmap a1) = ?n" "pf_addr a1 = v"
      "last_alloc_byte_hint a1 = 0" "last_alloc_bit_hint a1 = 0"
      "\<forall>j < 8 * ?n. frame_used (bitmap a1) j = (\<not> usable_frame lmap j)"
      using init_loop_ok[OF fit] len all by (auto simp: init_pf_allocator_metadata_def)
    let ?p = "BYTE_LEN_TO_PAGES (sizeof_pf_allocator + bitmap_bytes mi)"
    have base: "virt_to_phys_off v offset = lm_base l" using l(4) by (simp add: virt_to_phys_off_def)
    have "unat (sizeof_pf_allocator + bitmap_bytes mi) < unat (lm_length l)" using l(3) by (simp add: word_less_nat_alt)
    moreover have "unat (lm_length l) mod 4096 = 0" using fit l(1,2) by blast
    ultimately have "unat ?p \<le> unat (lm_length l) div 4096" unfolding pages_of_bytes by (rule pages_fit)
    then have "pfn_of (lm_base l) + unat ?p \<le> 8 * length (bitmap a1)" using fit l(1,2) len(1) a1(2) by fastforce
    then obtain bm where bm: "set_bitmap_region (lm_base l) ?p (bitmap a1) = Inr bm" "length bm = ?n"
      "\<forall>j < 8 * ?n. frame_used bm j = (pfn_of (lm_base l) \<le> j \<and> j < pfn_of (lm_base l) + unat ?p \<or> frame_used (bitmap a1) j)"
      using set_region_ok[of "lm_base l" ?p "bitmap a1"] a1(2) len(2) by auto
    have init: "early_init_page_frame_allocator mi lmap offset = Inr (Some (allocated_nr_frames ?p (a1\<lparr>bitmap := bm\<rparr>)))"
      using Some a1 bm(1)
      by (simp add: early_init_page_frame_allocator_def early_initialize_pf_bitmap_def Let_def base bitmap_size_def)
    have h: "holds_allocator mi l" "v = phys_to_virt_off (lm_base l) offset" using l holds_allocator_iff[OF mi_def] by (simp_all add: phys_to_virt_off_def)
    then have "\<not> (\<forall>l \<in> set lmap. \<not> holds_allocator mi l)" "\<exists>l \<in> set lmap. holds_allocator mi l \<and> v = phys_to_virt_off (lm_base l) offset" using l(1) by blast+
    then show ?thesis
      unfolding init using bm a1 bb
      by (auto simp: alloc_ok_def allocated_nr_frames_def bitmap_size_def frame_count_def base Let_def)
  qed
qed

text \<open>One usable entry of four pages: the allocator takes its first page.\<close>

definition example_map :: "limine_memmap_entry list" where
  "example_map = [\<lparr>lm_base = 0x1000, lm_length = 0x4000, lm_type = 0\<rparr>]"

theorem early_init_correct_witness:
  "\<exists>a. early_init_page_frame_allocator (init_system_memory_info (get_boot_memmap example_map)) example_map 0 = Inr (Some a)
     \<and> alloc_ok a \<and> pf_addr a = 0x1000"
proof -
  let ?mi = "init_system_memory_info (get_boot_memmap example_map)"
  have m: "map_ok example_map" by (auto simp: map_ok_def example_map_def)
  have "holds_allocator ?mi \<lparr>lm_base = 0x1000, lm_length = 0x4000, lm_type = 0\<rparr>" by code_simp
  then show ?thesis using early_init_correct[OF m refl, of 0] by (auto simp: example_map_def phys_to_virt_off_def)
qed

end
