(* ===== verification/Vpic.thy ===== *)
theory Vpic
  imports HyvPrelude
begin

text \<open>
  The virtual 8259 interrupt controller pair of \<^verbatim>\<open>arch/x64/vm/vpic.c\<close>. A device is a record of its
  registers; \<^verbatim>\<open>parent_vpic\<close> is only tested for null, so it is a flag, and the union of the sub-device map
  and id is one byte. Each operation holds the lock of the controller from its begin to its end and is
  therefore one step. \<open>None\<close> stands for the result -1.
\<close>

section \<open>Devices\<close>

datatype vpic_state =
    VPIC_UNINITIALIZED | VPIC_INITIALIZED | VPIC_ICW2 | VPIC_ICW3 | VPIC_ICW4
  | VPIC_ICW2_ICW3 | VPIC_ICW2_ICW4 | VPIC_ICW2_ICW3_ICW4 | VPIC_ICW3_ICW4

datatype vpic_status_read_mode = VPIC_READ_IRR | VPIC_READ_ISR | VPIC_READ_NO_ACTION

record vpic_dev =
  vpic_state :: vpic_state
  imr :: u8
  irr :: u8
  isr :: u8
  vpic_offset :: u8
  read_mode :: vpic_status_read_mode
  sub_device :: u8
  has_parent :: bool

record vpic =
  vpic1 :: vpic_dev
  vpic2 :: vpic_dev

text \<open>\<^verbatim>\<open>allocate_vpic\<close>, when the allocation succeeds.\<close>

definition allocate_vpic :: vpic where
  "allocate_vpic =
     (let zero = \<lparr>vpic_state = VPIC_UNINITIALIZED, imr = 0, irr = 0, isr = 0, vpic_offset = 0,
                  read_mode = VPIC_READ_IRR, sub_device = 0, has_parent = False\<rparr>
      in \<lparr>vpic1 = zero\<lparr>sub_device := U8_LSHIFT 1 2\<rparr>, vpic2 = zero\<lparr>has_parent := True\<rparr>\<rparr>)"

section \<open>Commands\<close>

definition A0_SET :: "u16 \<Rightarrow> bool" where
  "A0_SET port \<longleftrightarrow> IS_SET port 1"

definition A0_CLEAR :: "u16 \<Rightarrow> bool" where
  "A0_CLEAR port \<longleftrightarrow> IS_CLEAR port 1"

definition D_MASK :: "nat \<Rightarrow> u8" where
  "D_MASK i = U8_LSHIFT 1 i"

definition IS_ICW1 :: "u16 \<Rightarrow> u8 \<Rightarrow> bool" where
  "IS_ICW1 port val \<longleftrightarrow> A0_CLEAR port \<and> IS_SET val (D_MASK 4)"

definition IS_OCW1 :: "u16 \<Rightarrow> u8 \<Rightarrow> bool" where
  "IS_OCW1 port val \<longleftrightarrow> A0_SET port"

definition IS_OCW2 :: "u16 \<Rightarrow> u8 \<Rightarrow> bool" where
  "IS_OCW2 port val \<longleftrightarrow> A0_CLEAR port \<and> IS_CLEAR val (D_MASK 4) \<and> IS_CLEAR val (D_MASK 3)"

definition IS_OCW3 :: "u16 \<Rightarrow> u8 \<Rightarrow> bool" where
  "IS_OCW3 port val \<longleftrightarrow> A0_CLEAR port \<and> IS_CLEAR val (D_MASK 4) \<and> IS_SET val (D_MASK 3)"

definition X_UNSUPPORTED_FEATURES :: "u8 \<Rightarrow> u8 \<Rightarrow> u8 \<Rightarrow> bool" where
  "X_UNSUPPORTED_FEATURES val req0 req1 \<longleftrightarrow> val AND req0 \<noteq> 0 \<or> val AND req1 \<noteq> req1"

definition ICW1_UNSUPPORTED :: "u8 \<Rightarrow> bool" where
  "ICW1_UNSUPPORTED val \<longleftrightarrow> X_UNSUPPORTED_FEATURES val 0 0"

definition ICW4_UNSUPPORTED :: "u8 \<Rightarrow> bool" where
  "ICW4_UNSUPPORTED val \<longleftrightarrow> X_UNSUPPORTED_FEATURES val (D_MASK 1 OR D_MASK 3 OR D_MASK 4) 0"

definition OCW2_UNSUPPORTED :: "u8 \<Rightarrow> bool" where
  "OCW2_UNSUPPORTED val \<longleftrightarrow> X_UNSUPPORTED_FEATURES val (D_MASK 7) (D_MASK 5)"

definition OCW3_UNSUPPORTED :: "u8 \<Rightarrow> bool" where
  "OCW3_UNSUPPORTED val \<longleftrightarrow> X_UNSUPPORTED_FEATURES val (D_MASK 6 OR D_MASK 5 OR D_MASK 2) 0"

definition in_init_sequence :: "vpic_dev \<Rightarrow> bool" where
  "in_init_sequence v \<longleftrightarrow> vpic_state v \<noteq> VPIC_UNINITIALIZED \<and> vpic_state v \<noteq> VPIC_INITIALIZED"

definition get_next_init_state :: "vpic_state \<Rightarrow> vpic_state run" where
  "get_next_init_state current_state =
     (case current_state of
        VPIC_ICW2 \<Rightarrow> Inr VPIC_INITIALIZED
      | VPIC_ICW3 \<Rightarrow> Inr VPIC_INITIALIZED
      | VPIC_ICW4 \<Rightarrow> Inr VPIC_INITIALIZED
      | VPIC_ICW2_ICW3 \<Rightarrow> Inr VPIC_ICW3
      | VPIC_ICW2_ICW4 \<Rightarrow> Inr VPIC_ICW4
      | VPIC_ICW2_ICW3_ICW4 \<Rightarrow> Inr VPIC_ICW3_ICW4
      | VPIC_ICW3_ICW4 \<Rightarrow> Inr VPIC_ICW4
      | _ \<Rightarrow> Inl Die)"

definition get_init_state_from_icw1 :: "u8 \<Rightarrow> vpic_state" where
  "get_init_state_from_icw1 icw1 =
     (let ic4 = IS_SET icw1 (D_MASK 0); sngl = IS_SET icw1 (D_MASK 1) in
      if \<not> ic4 \<and> sngl then VPIC_ICW2
      else if ic4 \<and> \<not> sngl then VPIC_ICW2_ICW3_ICW4
      else if \<not> ic4 then VPIC_ICW2_ICW3
      else VPIC_ICW2_ICW4)"

definition start_init_sequence :: "vpic_dev \<Rightarrow> u8 \<Rightarrow> vpic_dev run" where
  "start_init_sequence v icw1 =
     (if ICW1_UNSUPPORTED icw1 then Inl Die
      else Inr (v\<lparr>vpic_state := get_init_state_from_icw1 icw1, imr := 0, read_mode := VPIC_READ_IRR,
                  sub_device := (if has_parent v then 7 else U8_LSHIFT 1 7)\<rparr>))"

definition handle_init_step :: "vpic_dev \<Rightarrow> u8 \<Rightarrow> vpic_dev run" where
  "handle_init_step v val =
     andThen
       (if vpic_state v \<in> {VPIC_ICW2, VPIC_ICW2_ICW3, VPIC_ICW2_ICW4, VPIC_ICW2_ICW3_ICW4}
        then Inr (v\<lparr>vpic_offset := val AND NOT 7\<rparr>)
        else if vpic_state v \<in> {VPIC_ICW3, VPIC_ICW3_ICW4}
        then Inr (if has_parent v then v\<lparr>sub_device := val AND 7\<rparr> else v\<lparr>sub_device := val\<rparr>)
        else if vpic_state v = VPIC_ICW4 then (if ICW4_UNSUPPORTED val then Inl Die else Inr v)
        else Inl Die)
       (\<lambda>w. andThen (get_next_init_state (vpic_state w)) (\<lambda>s. Inr (w\<lparr>vpic_state := s\<rparr>)))"

definition handle_ocw2_write :: "vpic_dev \<Rightarrow> u8 \<Rightarrow> vpic_dev run" where
  "handle_ocw2_write v ocw2 =
     (if OCW2_UNSUPPORTED ocw2 then Inl Die
      else
        (let cmd = drop_bit 5 ocw2 in
         if cmd = 1 then Inr (v\<lparr>isr := (isr v - 1) AND isr v\<rparr>)
         else if cmd = 3 then
           (let mask8 = U8_LSHIFT 1 (unat (ocw2 AND 3)) in Inr (v\<lparr>isr := isr v AND NOT mask8\<rparr>))
         else Inl Die))"

definition handle_ocw3_write :: "vpic_dev \<Rightarrow> u8 \<Rightarrow> vpic_dev run" where
  "handle_ocw3_write v ocw3 =
     (if OCW3_UNSUPPORTED ocw3 then Inl Die
      else Inr (v\<lparr>read_mode :=
        (if \<not> IS_SET ocw3 (D_MASK 1) then VPIC_READ_NO_ACTION
         else if IS_SET ocw3 (D_MASK 0) then VPIC_READ_ISR else VPIC_READ_IRR)\<rparr>))"

definition vpic_write :: "vpic_dev \<Rightarrow> u16 \<Rightarrow> u8 \<Rightarrow> vpic_dev run" where
  "vpic_write v port val =
     (if IS_ICW1 port val then start_init_sequence v val
      else if in_init_sequence v then
        (if A0_CLEAR port then Inr v else handle_init_step v val)
      else if IS_OCW1 port val then Inr (v\<lparr>imr := val\<rparr>)
      else if IS_OCW2 port val then handle_ocw2_write v val
      else if IS_OCW3 port val then handle_ocw3_write v val
      else Inl Die)"

text \<open>\<^verbatim>\<open>vpic_read\<close>: the new value of \<open>*val\<close>, whose old value is \<open>val\<close>.\<close>

definition vpic_read :: "vpic_dev \<Rightarrow> u16 \<Rightarrow> u8 \<Rightarrow> u8" where
  "vpic_read v port val =
     (if A0_CLEAR port then
        (if read_mode v = VPIC_READ_IRR then irr v
         else if read_mode v = VPIC_READ_ISR then isr v else val)
      else imr v)"

section \<open>Interrupts\<close>

definition raise_ext_irq :: "vpic_dev \<Rightarrow> nat \<Rightarrow> vpic_dev option" where
  "raise_ext_irq v irq =
     (if vpic_state v \<noteq> VPIC_INITIALIZED then None else Some (v\<lparr>irr := irr v OR U8_LSHIFT 1 irq\<rparr>))"

text \<open>\<^verbatim>\<open>vpic_raise_external_irq\<close>: the result is whether it returns 0; no vCPU is kicked yet.\<close>

definition vpic_raise_external_irq :: "vpic \<Rightarrow> nat \<Rightarrow> bool \<times> vpic" where
  "vpic_raise_external_irq v irq =
     (if irq \<ge> 16 then (False, v)
      else if irq \<ge> 8 then
        (case raise_ext_irq (vpic2 v) (irq - 8) of None \<Rightarrow> (False, v) | Some d \<Rightarrow> (True, v\<lparr>vpic2 := d\<rparr>))
      else (case raise_ext_irq (vpic1 v) irq of None \<Rightarrow> (False, v) | Some d \<Rightarrow> (True, v\<lparr>vpic1 := d\<rparr>)))"

definition vpic_ack :: "vpic_dev \<Rightarrow> nat \<Rightarrow> vpic_dev" where
  "vpic_ack v irq = (let m = U8_LSHIFT 1 irq in v\<lparr>irr := irr v AND NOT m, isr := isr v OR m\<rparr>)"

function priority_loop :: "u8 \<Rightarrow> nat \<Rightarrow> nat" where
  "priority_loop val prio = (if val AND U8_LSHIFT 1 prio = 0 \<and> prio < 8 then priority_loop val (prio + 1) else prio)"
  by pat_completeness auto
termination by (relation "measure (\<lambda>(_, prio). 8 - prio)") auto

declare priority_loop.simps [simp del]

definition vpic_get_priority :: "u8 \<Rightarrow> nat" where
  "vpic_get_priority val =
     (if val = 0 then 8 else (let prio = priority_loop val 0 in if prio = 8 then 8 else prio))"

definition dev_get_pending_irq :: "vpic_dev \<Rightarrow> nat option" where
  "dev_get_pending_irq v =
     (let pending_irq_prio = vpic_get_priority (irr v AND NOT (imr v)) in
      if pending_irq_prio = 8 then None
      else if pending_irq_prio < vpic_get_priority (isr v) then Some pending_irq_prio else None)"

definition vpic_has_pending_irq :: "vpic \<Rightarrow> bool" where
  "vpic_has_pending_irq v =
     (let irq1 = dev_get_pending_irq (vpic1 v);
          irq2 = dev_get_pending_irq (vpic2 v);
          vpic1_prio = vpic_get_priority (isr (vpic1 v))
      in if irq2 \<noteq> None then (irq1 = None \<or> the irq1 > 2) \<and> vpic1_prio > 2
         else irq1 \<noteq> None)"

text \<open>\<^verbatim>\<open>vpic_get_pending_irq\<close>: the interrupt vector, or \<open>None\<close>, and the controller after the acknowledge.\<close>

definition vpic_get_pending_irq :: "vpic \<Rightarrow> nat option \<times> vpic" where
  "vpic_get_pending_irq v =
     (let irq1 = dev_get_pending_irq (vpic1 v);
          irq2 = dev_get_pending_irq (vpic2 v);
          vpic1_prio = vpic_get_priority (isr (vpic1 v))
      in case irq2 of
           Some i2 \<Rightarrow>
             if (irq1 = None \<or> the irq1 > 2) \<and> vpic1_prio > 2 then
               (Some (i2 + unat (vpic_offset (vpic2 v))),
                v\<lparr>vpic1 := vpic_ack (vpic1 v) 2, vpic2 := vpic_ack (vpic2 v) i2\<rparr>)
             else (None, v)
         | None \<Rightarrow>
             (case irq1 of
                Some i1 \<Rightarrow> (Some (i1 + unat (vpic_offset (vpic1 v))), v\<lparr>vpic1 := vpic_ack (vpic1 v) i1\<rparr>)
              | None \<Rightarrow> (None, v)))"

section \<open>Priorities\<close>

lemma lshift_1: "U8_LSHIFT 1 i = 2 ^ i"
  by (simp add: U8_LSHIFT_def push_bit_of_1)

lemma and_lshift: "w AND U8_LSHIFT 1 i = 0 \<longleftrightarrow> \<not> bit w i"
  by (simp add: lshift_1 and_exp_eq_0_iff_not_bit)

lemma priority_loop_spec:
  "p \<le> 8 \<Longrightarrow> p \<le> priority_loop w p \<and> priority_loop w p \<le> 8
    \<and> (\<forall>q. p \<le> q \<and> q < priority_loop w p \<longrightarrow> \<not> bit w q) \<and> (priority_loop w p < 8 \<longrightarrow> bit w (priority_loop w p))"
proof (induction w p rule: priority_loop.induct)
  case (1 w p)
  show ?case
  proof (cases "\<not> bit w p \<and> p < 8")
    case True
    then have e: "priority_loop w p = priority_loop w (p + 1)" by (subst priority_loop.simps) (simp add: and_lshift)
    have "p + 1 \<le> priority_loop w (p + 1) \<and> priority_loop w (p + 1) \<le> 8
      \<and> (\<forall>q. p + 1 \<le> q \<and> q < priority_loop w (p + 1) \<longrightarrow> \<not> bit w q)
      \<and> (priority_loop w (p + 1) < 8 \<longrightarrow> bit w (priority_loop w (p + 1)))"
      using "1.IH" True by (simp add: and_lshift)
    then show ?thesis unfolding e using True by (metis Suc_eq_plus1 Suc_leD Suc_leI le_neq_implies_less)
  next
    case False
    then have "priority_loop w p = p" by (subst priority_loop.simps) (auto simp: and_lshift)
    then show ?thesis using False "1.prems" by auto
  qed
qed

lemma priority_spec:
  shows priority_le: "vpic_get_priority w \<le> 8"
    and priority_below: "q < vpic_get_priority w \<Longrightarrow> \<not> bit w q"
    and priority_bit: "vpic_get_priority w < 8 \<Longrightarrow> bit w (vpic_get_priority w)"
  using priority_loop_spec[of 0 w] by (auto simp: vpic_get_priority_def Let_def split: if_splits)

lemma priority_less: "vpic_get_priority w < 8 \<longleftrightarrow> w \<noteq> 0"
proof
  assume "w \<noteq> 0"
  then obtain q where "bit w q" by (auto simp: bit_eq_iff)
  moreover from this have "q < 8" using bit_imp_le_length[of w q] by simp
  ultimately show "vpic_get_priority w < 8" using priority_below[of q w] by linarith
qed (use priority_bit in \<open>auto simp: vpic_get_priority_def\<close>)

lemma priority_unique: "bit w p \<Longrightarrow> (\<And>q. q < p \<Longrightarrow> \<not> bit w q) \<Longrightarrow> vpic_get_priority w = p"
  by (metis bit_imp_le_length linorder_neqE_nat order_less_trans priority_below priority_bit priority_less bit_0_eq bot_apply bot_bool_def)

text \<open>The unmasked request of a device that may interrupt the ones in service.\<close>

definition deliverable :: "vpic_dev \<Rightarrow> nat \<Rightarrow> bool" where
  "deliverable v i \<longleftrightarrow> bit (irr v) i \<and> \<not> bit (imr v) i
     \<and> (\<forall>q < i. \<not> (bit (irr v) q \<and> \<not> bit (imr v) q)) \<and> (\<forall>q. bit (isr v) q \<longrightarrow> i < q)"

lemma dev_pending_iff: "dev_get_pending_irq v = Some i \<longleftrightarrow> deliverable v i"
proof -
  let ?w = "irr v AND NOT (imr v)"
  have b: "bit ?w q \<longleftrightarrow> bit (irr v) q \<and> \<not> bit (imr v) q" for q
    using bit_imp_le_length[of "irr v" q] by (auto simp: bit_and_iff bit_not_iff)
  show ?thesis
  proof
    assume "dev_get_pending_irq v = Some i"
    then have i: "i = vpic_get_priority ?w" "i \<noteq> 8" "i < vpic_get_priority (isr v)"
      by (auto simp: dev_get_pending_irq_def Let_def split: if_splits)
    then have "i < 8" using priority_le[of ?w] by simp
    then show "deliverable v i"
      using i b priority_bit[of ?w] priority_below[of _ ?w] priority_below[of _ "isr v"]
      unfolding deliverable_def by (metis linorder_le_less_linear order_less_le_trans)
  next
    assume d: "deliverable v i"
    then have p: "vpic_get_priority ?w = i" using b by (intro priority_unique) (auto simp: deliverable_def)
    have lt: "i < 8" using d bit_imp_le_length[of "irr v" i] by (simp add: deliverable_def)
    moreover have "i < vpic_get_priority (isr v)"
      using d lt priority_bit[of "isr v"] priority_le[of "isr v"]
      by (cases "vpic_get_priority (isr v) < 8") (auto simp: deliverable_def)
    ultimately show "dev_get_pending_irq v = Some i" using p by (simp add: dev_get_pending_irq_def)
  qed
qed

lemma dev_pending_None: "dev_get_pending_irq v = None \<longleftrightarrow> (\<forall>i. \<not> deliverable v i)"
  using dev_pending_iff[of v] by (metis option.distinct(1) option.exhaust)

text \<open>Clearing the lowest set bit.\<close>

lemma eoi_clears_lowest:
  fixes w :: u8
  assumes "\<forall>q. bit w q \<longrightarrow> p < q" "p < 8"
  shows "((w OR 2 ^ p) - 1) AND (w OR 2 ^ p) = w"
proof -
  have d: "w AND 2 ^ p = 0" "w AND mask p = 0"
    using assms by (auto intro!: bit_word_eqI simp: bit_and_iff bit_exp_iff bit_mask_iff)
  have "(w OR 2 ^ p) - 1 = w + (2 ^ p - 1)" using d(1) by (simp add: disjunctive_add_eq_or[symmetric])
  also have "\<dots> = w OR mask p" using d(2) by (simp add: disjunctive_add_eq_or[symmetric] mask_eq_exp_minus_1)
  finally show ?thesis
    using assms by (auto intro!: bit_word_eqI simp: bit_and_iff bit_or_iff bit_exp_iff bit_mask_iff)
qed

section \<open>Reachable states\<close>

text \<open>The accesses of the guest and the events of the hypervisor, as steps of the controller.\<close>

inductive vpic_step :: "vpic \<Rightarrow> vpic \<Rightarrow> bool" where
  write_master: "vpic_write (vpic1 v) port val = Inr d \<Longrightarrow> vpic_step v (v\<lparr>vpic1 := d\<rparr>)"
| write_slave: "vpic_write (vpic2 v) port val = Inr d \<Longrightarrow> vpic_step v (v\<lparr>vpic2 := d\<rparr>)"
| raise_irq: "vpic_raise_external_irq v irq = (ok, v') \<Longrightarrow> vpic_step v v'"
| deliver: "vpic_get_pending_irq v = (r, v') \<Longrightarrow> vpic_step v v'"

inductive vpic_reachable :: "vpic \<Rightarrow> bool" where
  initial: "vpic_reachable allocate_vpic"
| step: "vpic_reachable v \<Longrightarrow> vpic_step v v' \<Longrightarrow> vpic_reachable v'"

definition dev_ok :: "bool \<Rightarrow> vpic_dev \<Rightarrow> bool" where
  "dev_ok parent d \<longleftrightarrow> vpic_offset d AND 7 = 0 \<and> has_parent d = parent"

definition vpic_ok :: "vpic \<Rightarrow> bool" where
  "vpic_ok v \<longleftrightarrow> dev_ok False (vpic1 v) \<and> dev_ok True (vpic2 v)"

lemma dev_ok_same: "dev_ok p d \<Longrightarrow> vpic_offset d' = vpic_offset d \<Longrightarrow> has_parent d' = has_parent d \<Longrightarrow> dev_ok p d'"
  by (simp add: dev_ok_def)

lemma vpic_write_ok:
  assumes "dev_ok p d" "vpic_write d port val = Inr d'"
  shows "dev_ok p d'"
proof -
  have "NOT 7 AND (7 :: u8) = 0" by simp
  then have "(val AND NOT 7) AND 7 = 0" unfolding and.assoc by (simp only: and_zero_eq)
  then show ?thesis
    using assms
    by (auto simp: vpic_write_def start_init_sequence_def handle_init_step_def handle_ocw2_write_def
        handle_ocw3_write_def dev_ok_def run_simps Let_def split: if_splits)
qed

lemma vpic_ack_keeps [simp]: "vpic_offset (vpic_ack d i) = vpic_offset d" "has_parent (vpic_ack d i) = has_parent d"
  by (simp_all add: vpic_ack_def Let_def)

lemma vpic_step_ok: "vpic_step v v' \<Longrightarrow> vpic_ok v \<Longrightarrow> vpic_ok v'"
proof (induction rule: vpic_step.induct)
  case (write_master v port val d)
  then show ?case using vpic_write_ok[of False "vpic1 v"] by (simp add: vpic_ok_def)
next
  case (write_slave v port val d)
  then show ?case using vpic_write_ok[of True "vpic2 v"] by (simp add: vpic_ok_def)
next
  case (raise_irq v irq ok v')
  then show ?case
    by (auto simp: vpic_raise_external_irq_def raise_ext_irq_def vpic_ok_def dev_ok_def split: if_splits)
next
  case (deliver v r v')
  then show ?case
    by (auto simp: vpic_get_pending_irq_def Let_def vpic_ok_def dev_ok_def split: if_splits option.splits)
qed

lemma vpic_reachable_ok: "vpic_reachable v \<Longrightarrow> vpic_ok v"
proof (induction rule: vpic_reachable.induct)
  case initial
  then show ?case by (simp add: vpic_ok_def dev_ok_def allocate_vpic_def Let_def)
qed (rule vpic_step_ok)

lemma offset_plus:
  fixes w :: u8
  assumes "w AND 7 = 0" "i < 8"
  shows "(i + unat w) div 8 = unat w div 8" "(i + unat w) mod 8 = i"
proof -
  have "(7 :: u8) = mask 3" by (simp add: mask_eq_exp_minus_1)
  then have "take_bit 3 w = 0" using assms(1) by (simp only: take_bit_eq_mask)
  then have "take_bit 3 (unat w) = 0" by (metis unsigned_take_bit_eq unsigned_0)
  then obtain k where "unat w = 8 * k" by (auto simp: take_bit_eq_mod elim: dvdE)
  then show "(i + unat w) div 8 = unat w div 8" "(i + unat w) mod 8 = i" using assms(2) by simp_all
qed

section \<open>Properties\<close>

text \<open>The device and input line behind a delivered vector, and the controller after the delivery.\<close>

definition delivers :: "vpic_dev \<Rightarrow> vpic_dev \<Rightarrow> nat \<Rightarrow> bool" where
  "delivers d d' n \<longleftrightarrow> (\<exists>i < 8. deliverable d i \<and> n div 8 = unat (vpic_offset d) div 8 \<and> n mod 8 = i
     \<and> d' = d\<lparr>irr := irr d AND NOT (2 ^ i), isr := isr d OR 2 ^ i\<rparr>)"

lemma deliverable_less: "deliverable d i \<Longrightarrow> i < 8"
  using bit_imp_le_length[of "irr d" i] by (simp add: deliverable_def)

lemma delivers_ack:
  assumes "deliverable d i" "dev_ok p d"
  shows "delivers d (vpic_ack d i) (i + unat (vpic_offset d))"
  using assms offset_plus[of "vpic_offset d" i] deliverable_less[OF assms(1)]
  by (auto simp: delivers_def dev_ok_def vpic_ack_def Let_def lshift_1)

text \<open>
  C12. Delivery respects the priorities: in every state that guest accesses and interrupt requests can lead
  to, a delivered vector is the offset programmed for one of the two devices plus an input line that
  is requested, not masked, and of higher priority than every other unmasked request and every
  interrupt in service of that device. The request moves from IRR to ISR; for the slave, which is
  delivered only when nothing of the lines 0 to 2 of the master is in service, also line 2 of the master
  is put in service.
\<close>

theorem vpic_delivery_sound:
  assumes "vpic_reachable v" "vpic_get_pending_irq v = (Some n, v')"
  shows "delivers (vpic1 v) (vpic1 v') n \<and> vpic2 v' = vpic2 v
    \<or> delivers (vpic2 v) (vpic2 v') n \<and> vpic1 v' = vpic_ack (vpic1 v) 2 \<and> (\<forall>q \<le> 2. \<not> bit (isr (vpic1 v)) q)"
proof -
  have ok: "dev_ok False (vpic1 v)" "dev_ok True (vpic2 v)"
    using vpic_reachable_ok[OF assms(1)] by (simp_all add: vpic_ok_def)
  show ?thesis
  proof (cases "dev_get_pending_irq (vpic2 v)")
    case None
    then obtain i where i: "dev_get_pending_irq (vpic1 v) = Some i" "n = i + unat (vpic_offset (vpic1 v))"
      "v' = v\<lparr>vpic1 := vpic_ack (vpic1 v) i\<rparr>"
      using assms(2) by (auto simp: vpic_get_pending_irq_def Let_def split: option.splits)
    then show ?thesis using delivers_ack[OF _ ok(1)] by (simp add: dev_pending_iff)
  next
    case (Some i)
    then have i: "vpic_get_priority (isr (vpic1 v)) > 2" "n = i + unat (vpic_offset (vpic2 v))"
      "v' = v\<lparr>vpic1 := vpic_ack (vpic1 v) 2, vpic2 := vpic_ack (vpic2 v) i\<rparr>"
      using assms(2) by (auto simp: vpic_get_pending_irq_def Let_def split: if_splits)
    then show ?thesis using delivers_ack[OF _ ok(2)] Some priority_below[of _ "isr (vpic1 v)"] by (simp add: dev_pending_iff)
  qed
qed

text \<open>
  \<^verbatim>\<open>vpic_has_pending_irq\<close>, which decides whether an interrupt window is opened, agrees with
  \<^verbatim>\<open>vpic_get_pending_irq\<close>, which takes the interrupt, in every state.
\<close>

lemma vpic_pending_agrees: "vpic_has_pending_irq v \<longleftrightarrow> fst (vpic_get_pending_irq v) \<noteq> None"
  by (auto simp: vpic_has_pending_irq_def vpic_get_pending_irq_def Let_def split: option.splits)

text \<open>
  C37. On an initialized device, a non-specific end of interrupt ends exactly the interrupt delivered last: acknowledging a deliverable
  request and then writing the EOI command restores the in-service register, whatever was in service before, clears
  exactly this request, and keeps the mask and the state of the device.
\<close>

theorem vpic_eoi_ends_last:
  assumes "vpic_state d = VPIC_INITIALIZED" "dev_get_pending_irq d = Some i"
  shows "\<exists>d'. vpic_write (vpic_ack d i) 0x20 0x20 = Inr d' \<and> isr d' = isr d
    \<and> irr d' = irr d AND NOT (2 ^ i) \<and> imr d' = imr d \<and> vpic_state d' = VPIC_INITIALIZED"
proof -
  have i: "deliverable d i" using assms(2) by (simp add: dev_pending_iff)
  have cmd: "\<not> IS_ICW1 0x20 0x20" "\<not> IS_OCW1 0x20 0x20" "IS_OCW2 0x20 0x20" "\<not> OCW2_UNSUPPORTED 0x20"
    "drop_bit 5 (0x20 :: u8) = 1"
    by (simp_all add: IS_ICW1_def IS_OCW1_def IS_OCW2_def A0_CLEAR_def A0_SET_def IS_SET_def IS_CLEAR_def D_MASK_def
        U8_LSHIFT_def OCW2_UNSUPPORTED_def X_UNSUPPORTED_FEATURES_def)
  have "((isr d OR 2 ^ i) - 1) AND (isr d OR 2 ^ i) = isr d"
    using i deliverable_less[OF i] by (intro eoi_clears_lowest) (auto simp: deliverable_def)
  then show ?thesis
    using assms(1) cmd
    by (simp add: vpic_write_def in_init_sequence_def handle_ocw2_write_def vpic_ack_def Let_def lshift_1)
qed

fun vpic_writes :: "vpic_dev \<Rightarrow> (u16 \<times> u8) list \<Rightarrow> vpic_dev run" where
  "vpic_writes d [] = Inr d"
| "vpic_writes d ((port, val) # ws) = andThen (vpic_write d port val) (\<lambda>d. vpic_writes d ws)"

lemma ports: "A0_CLEAR 0x20" "\<not> A0_CLEAR 0x21" "\<not> A0_SET 0x20" "A0_SET 0x21"
  by (simp_all add: A0_CLEAR_def A0_SET_def IS_CLEAR_def IS_SET_def)

lemma set_bit_mask: "IS_SET w (D_MASK i) \<longleftrightarrow> bit w i" "IS_CLEAR w (D_MASK i) \<longleftrightarrow> \<not> bit w i"
  by (simp_all add: IS_SET_def IS_CLEAR_def D_MASK_def and_lshift)

lemma icw1_bits: "\<not> ICW1_UNSUPPORTED icw1"
  by (simp add: ICW1_UNSUPPORTED_def X_UNSUPPORTED_FEATURES_def)

text \<open>
  The initialization protocol: after ICW1, as many words written to the odd port as the bits SNGL and
  IC4 of ICW1 announce bring a device into the initialized state, with the offset of ICW2, the
  cascading of ICW3, an empty mask and IRR selected for reading; the in-service and request registers
  are kept, and an unsupported ICW4 stops the hypervisor.
\<close>

lemma vpic_init_protocol:
  assumes "bit icw1 4"
  shows "vpic_writes d ((0x20, icw1) # (0x21, icw2) # (if bit icw1 1 then [] else [(0x21, icw3)])
           @ (if bit icw1 0 then [(0x21, icw4)] else []))
    = (if bit icw1 0 \<and> ICW4_UNSUPPORTED icw4 then Inl Die
       else Inr (d\<lparr>vpic_state := VPIC_INITIALIZED, imr := 0, read_mode := VPIC_READ_IRR, vpic_offset := icw2 AND NOT 7,
          sub_device := (if bit icw1 1 then (if has_parent d then 7 else 128)
                         else if has_parent d then icw3 AND 7 else icw3)\<rparr>))"
  using assms icw1_bits[of icw1]
  by (cases "bit icw1 0"; cases "bit icw1 1")
     (simp_all add: vpic_write_def start_init_sequence_def handle_init_step_def get_init_state_from_icw1_def
       in_init_sequence_def get_next_init_state_def IS_ICW1_def ports set_bit_mask Let_def lshift_1)

lemma vpic_init_protocol_witness:
  "vpic_writes (vpic2 allocate_vpic) [(0x20, 0x11), (0x21, 0x28), (0x21, 2), (0x21, 1)]
    = Inr ((vpic2 allocate_vpic)\<lparr>vpic_state := VPIC_INITIALIZED, imr := 0, read_mode := VPIC_READ_IRR,
           vpic_offset := 0x28, sub_device := 2\<rparr>)"
  using vpic_init_protocol[of "0x11" "vpic2 allocate_vpic" "0x28" 2 1]
  by (simp add: allocate_vpic_def Let_def ICW4_UNSUPPORTED_def X_UNSUPPORTED_FEATURES_def D_MASK_def U8_LSHIFT_def)

text \<open>
  A pending interrupt of the slave blocks the interrupts of higher priority of the master: while the
  slave has a deliverable request and the master one on the lines 0 to 2, nothing is delivered and
  nothing changes.
\<close>

lemma vpic_slave_blocks_master:
  assumes "dev_get_pending_irq (vpic2 v) \<noteq> None" "dev_get_pending_irq (vpic1 v) = Some i" "i \<le> 2"
  shows "vpic_get_pending_irq v = (None, v) \<and> \<not> vpic_has_pending_irq v"
  using assms by (auto simp: vpic_get_pending_irq_def vpic_has_pending_irq_def Let_def)

text \<open>
  The specific end of interrupt uses only two bits of the level: for the levels 4 to 7 it ends the
  interrupt of the level minus 4 instead.
\<close>

lemma vpic_specific_eoi_level:
  assumes "vpic_state d = VPIC_INITIALIZED" "l < 8"
  shows "vpic_write d 0x20 (0x60 OR of_nat l) = Inr (d\<lparr>isr := isr d AND NOT (2 ^ (l mod 4))\<rparr>)"
proof -
  consider "l = 0" | "l = 1" | "l = 2" | "l = 3" | "l = 4" | "l = 5" | "l = 6" | "l = 7" using assms(2) by linarith
  then show ?thesis
    by cases (simp_all add: vpic_write_def in_init_sequence_def assms(1) IS_ICW1_def IS_OCW1_def IS_OCW2_def ports
        IS_SET_def IS_CLEAR_def D_MASK_def U8_LSHIFT_def handle_ocw2_write_def OCW2_UNSUPPORTED_def
        X_UNSUPPORTED_FEATURES_def Let_def)
qed

text \<open>Controllers with pending requests, for concrete instances of the properties.\<close>

definition ready_dev :: "bool \<Rightarrow> u8 \<Rightarrow> u8 \<Rightarrow> vpic_dev" where
  "ready_dev parent offset requests = \<lparr>vpic_state = VPIC_INITIALIZED, imr = 0, irr = requests, isr = 0,
     vpic_offset = offset, read_mode = VPIC_READ_IRR, sub_device = 2, has_parent = parent\<rparr>"

lemma ready_pending: "deliverable (ready_dev p off 2) 1"
  by (auto simp: deliverable_def ready_dev_def)

theorem vpic_eoi_ends_last_witness:
  "\<exists>d'. vpic_write (vpic_ack (ready_dev False 0x20 2) 1) 0x20 0x20 = Inr d' \<and> isr d' = 0"
  using vpic_eoi_ends_last[of "ready_dev False 0x20 2" 1] ready_pending dev_pending_iff
  by (auto simp: ready_dev_def)

lemma vpic_slave_blocks_master_witness:
  "vpic_get_pending_irq \<lparr>vpic1 = ready_dev False 0x20 2, vpic2 = ready_dev True 0x28 2\<rparr>
     = (None, \<lparr>vpic1 = ready_dev False 0x20 2, vpic2 = ready_dev True 0x28 2\<rparr>)"
  using vpic_slave_blocks_master[of "\<lparr>vpic1 = ready_dev False 0x20 2, vpic2 = ready_dev True 0x28 2\<rparr>" 1]
    dev_pending_iff[THEN iffD2, OF ready_pending] by simp

lemma vpic_specific_eoi_level_witness:
  "vpic_write ((ready_dev False 0x20 0)\<lparr>isr := 0x22\<rparr>) 0x20 0x65 = Inr ((ready_dev False 0x20 0)\<lparr>isr := 0x20\<rparr>)"
  using vpic_specific_eoi_level[of "(ready_dev False 0x20 0)\<lparr>isr := 0x22\<rparr>" 5] by (simp add: ready_dev_def)

text \<open>The master initialized by the protocol, with a request on line 1, is reachable.\<close>

definition started :: vpic where
  "started = \<lparr>vpic1 = (ready_dev False 0x20 2)\<lparr>sub_device := 4\<rparr>, vpic2 = vpic2 allocate_vpic\<rparr>"

lemma started_reachable: "vpic_reachable started"
proof -
  let ?w = "\<lambda>v port val. vpic_write (vpic1 v) port val"
  have s: "vpic_reachable (v\<lparr>vpic1 := d\<rparr>)" if "vpic_reachable v" "vpic_write (vpic1 v) port val = Inr d" for v port val d
    using that vpic_reachable.step write_master by blast
  define m where "m = (\<lambda>st. \<lparr>vpic_state = st, imr = 0, irr = 0, isr = 0, vpic_offset = 0x20,
     read_mode = VPIC_READ_IRR, sub_device = 4, has_parent = False\<rparr>)"
  define i1 where "i1 = (vpic1 allocate_vpic)\<lparr>vpic_state := VPIC_ICW2_ICW3_ICW4, sub_device := 128\<rparr>"
  have w: "vpic_write (vpic1 allocate_vpic) 0x20 0x11 = Inr i1"
    "vpic_write i1 0x21 0x20 = Inr ((m VPIC_ICW3_ICW4)\<lparr>sub_device := 128\<rparr>)"
    "vpic_write ((m VPIC_ICW3_ICW4)\<lparr>sub_device := 128\<rparr>) 0x21 4 = Inr (m VPIC_ICW4)"
    "vpic_write (m VPIC_ICW4) 0x21 1 = Inr (m VPIC_INITIALIZED)"
    by (simp_all add: m_def i1_def vpic_write_def start_init_sequence_def handle_init_step_def
        get_init_state_from_icw1_def in_init_sequence_def get_next_init_state_def IS_ICW1_def ports ICW1_UNSUPPORTED_def
        ICW4_UNSUPPORTED_def X_UNSUPPORTED_FEATURES_def IS_SET_def D_MASK_def U8_LSHIFT_def allocate_vpic_def Let_def)
  have "vpic_reachable (allocate_vpic\<lparr>vpic1 := m VPIC_INITIALIZED\<rparr>)"
    using s[OF s[OF s[OF s[OF vpic_reachable.initial w(1)]]], simplified] w by simp
  then have "vpic_reachable (snd (vpic_raise_external_irq (allocate_vpic\<lparr>vpic1 := m VPIC_INITIALIZED\<rparr>) 1))"
    using vpic_reachable.step raise_irq by (metis prod.collapse)
  then show ?thesis
    by (simp add: vpic_raise_external_irq_def raise_ext_irq_def m_def started_def ready_dev_def U8_LSHIFT_def allocate_vpic_def)
qed

theorem vpic_delivery_sound_witness:
  "\<exists>v'. vpic_get_pending_irq started = (Some 0x21, v')
     \<and> (delivers (vpic1 started) (vpic1 v') 0x21 \<and> vpic2 v' = vpic2 started
        \<or> delivers (vpic2 started) (vpic2 v') 0x21 \<and> vpic1 v' = vpic_ack (vpic1 started) 2
          \<and> (\<forall>q \<le> 2. \<not> bit (isr (vpic1 started)) q))"
proof -
  have "dev_get_pending_irq (vpic1 started) = Some 1" unfolding dev_pending_iff
    by (auto simp: deliverable_def started_def ready_dev_def)
  moreover have "dev_get_pending_irq (vpic2 started) = None" unfolding dev_pending_None
    by (auto simp: deliverable_def started_def allocate_vpic_def Let_def)
  ultimately have g: "vpic_get_pending_irq started = (Some 0x21, started\<lparr>vpic1 := vpic_ack (vpic1 started) 1\<rparr>)"
    by (simp add: vpic_get_pending_irq_def started_def ready_dev_def)
  show ?thesis using vpic_delivery_sound[OF started_reachable g] g by blast
qed

end
