(* ===== verification/Timer_Heap.thy ===== *)
theory Timer_Heap
  imports HyvPrelude "HOL-Library.Multiset"
begin

text \<open>
  The timer queue of \<^verbatim>\<open>timer.c\<close>, a binary min-heap of timers in an array whose index 0 is unused, and the
  frequency computation of \<^verbatim>\<open>arch/x64/timer.c\<close>. A timer in the heap is not changed while it is there, so
  the array holds the timers themselves; the length of the array is the capacity and an access behind
  it is \<open>OutOfBounds\<close>. The time stamp counter, the actions of the timers and the outcome of programming
  the local APIC timer are inputs.
\<close>

section \<open>The heap\<close>

datatype timer_type = TIMER_ONESHOT | TIMER_PERIODIC

datatype timer_op_status =
  TIMER_SUCCESS | TIMER_INIT_FAILED | TIMER_NO_MEM | TIMER_NO_CAPACITY | TIMER_PROGRAMMING_FAILED | TIMER_ERROR

record timer =
  elapse_deadline :: u64
  periodic_ticks :: u64
  tm_type :: timer_type
  timer_action :: nat
  tm_cpu :: nat

record timer_heap =
  flattened_tree :: "timer list"
  insertion_idx :: nat

definition heap_swap :: "timer list \<Rightarrow> nat \<Rightarrow> nat \<Rightarrow> timer list run" where
  "heap_swap arr idx1 idx2 =
     andThen (at arr idx1) (\<lambda>temp. andThen (at arr idx2) (\<lambda>t.
     andThen (put arr idx1 t) (\<lambda>arr. put arr idx2 temp)))"

function heapify_up :: "timer list \<Rightarrow> nat \<Rightarrow> timer list run" where
  "heapify_up tree idx =
     (let parent_idx = idx div 2 in
      if parent_idx > 0 then
        andThen (at tree idx) (\<lambda>node. andThen (at tree parent_idx) (\<lambda>parent.
          if elapse_deadline parent \<le> elapse_deadline node then Inr tree
          else andThen (heap_swap tree idx parent_idx) (\<lambda>tree. heapify_up tree parent_idx)))
      else Inr tree)"
  by pat_completeness auto
termination by (relation "measure snd") auto

text \<open>The index of the smallest of a node and its children below \<open>max_idx\<close>.\<close>

definition down_target :: "nat \<Rightarrow> nat \<Rightarrow> timer \<Rightarrow> timer \<Rightarrow> timer \<Rightarrow> nat" where
  "down_target max_idx idx node left_val right_val =
     (let (largest, largest_val) =
        (if 2 * idx \<le> max_idx \<and> elapse_deadline left_val < elapse_deadline node then (2 * idx, left_val)
         else (idx, node))
      in if 2 * idx + 1 \<le> max_idx \<and> elapse_deadline right_val < elapse_deadline largest_val then 2 * idx + 1
         else largest)"

lemma down_target_cases:
  "down_target m i x l r = i \<or> i \<noteq> 0 \<and> down_target m i x l r = 2 * i \<and> 2 * i \<le> m
   \<or> down_target m i x l r = 2 * i + 1 \<and> 2 * i + 1 \<le> m"
  by (auto simp: down_target_def)

function heapify_down :: "timer list \<Rightarrow> nat \<Rightarrow> nat \<Rightarrow> timer list run" where
  "heapify_down tree max_idx idx =
     andThen (at tree (2 * idx)) (\<lambda>left_val.
     andThen (at tree (2 * idx + 1)) (\<lambda>right_val.
     andThen (at tree idx) (\<lambda>node.
       let largest = down_target max_idx idx node left_val right_val in
       if largest = idx then Inr tree
       else andThen (heap_swap tree idx largest) (\<lambda>tree. heapify_down tree max_idx largest))))"
  by pat_completeness auto
termination
proof (relation "measure (\<lambda>(_, m, i). m - i)", simp)
  fix tree m i l r x lg tree'
  assume "lg = down_target m i x l r" "lg \<noteq> i"
  then show "((tree', m, lg), tree, m, i) \<in> measure (\<lambda>(_, m, i). m - i)"
    using down_target_cases[of m i x l r] by auto
qed

declare heapify_up.simps [simp del] heapify_down.simps [simp del]

definition delete_heap_element :: "timer_heap \<Rightarrow> nat \<Rightarrow> timer_heap run" where
  "delete_heap_element heap idx =
     (if insertion_idx heap \<le> idx then Inr heap
      else
        andThen (at (flattened_tree heap) (insertion_idx heap - 1)) (\<lambda>last.
        andThen (put (flattened_tree heap) idx last) (\<lambda>tree.
        let ins = insertion_idx heap - 1 in
        andThen (heapify_down tree (ins - 1) idx) (\<lambda>tree.
          Inr \<lparr>flattened_tree = tree, insertion_idx = ins\<rparr>))))"

definition delete_root :: "timer_heap \<Rightarrow> timer_heap run" where
  "delete_root heap = delete_heap_element heap 1"

definition get_heap_root :: "timer_heap \<Rightarrow> timer option run" where
  "get_heap_root heap =
     (if insertion_idx heap \<le> 1 then Inr None
      else andThen (at (flattened_tree heap) 1) (\<lambda>t. Inr (Some t)))"

text \<open>\<^verbatim>\<open>heap_add_timer\<close>: \<open>None\<close> is \<^verbatim>\<open>TIMER_NO_CAPACITY\<close>.\<close>

definition heap_add_timer :: "timer_heap \<Rightarrow> timer \<Rightarrow> timer_heap option run" where
  "heap_add_timer heap tm =
     (if insertion_idx heap \<ge> length (flattened_tree heap) then Inr None
      else
        andThen (put (flattened_tree heap) (insertion_idx heap) tm) (\<lambda>tree.
        andThen (heapify_up tree (insertion_idx heap)) (\<lambda>tree.
          Inr (Some \<lparr>flattened_tree = tree, insertion_idx = insertion_idx heap + 1\<rparr>))))"

text \<open>\<^verbatim>\<open>init_timer_heap\<close>, for the contents \<open>garbage\<close> of the allocated array.\<close>

definition init_timer_heap :: "bool \<Rightarrow> bool \<Rightarrow> timer list \<Rightarrow> timer_heap option" where
  "init_timer_heap struct_ok array_ok garbage =
     (if \<not> struct_ok then None
      else if \<not> array_ok then None
      else Some \<lparr>flattened_tree = take 512 garbage, insertion_idx = 1\<rparr>)"

section \<open>Timers\<close>

definition NS_PER_SEC :: u64 where
  "NS_PER_SEC = 1000000000"

text \<open>The products are computed in 128 bits and the results cut to 64 bits.\<close>

definition get_ticks_from_ns :: "u64 \<Rightarrow> u64 \<Rightarrow> u64" where
  "get_ticks_from_ns clock_hz time_ns =
     ucast (((ucast clock_hz :: 128 word) * ucast time_ns + ucast (NS_PER_SEC - 1)) div ucast NS_PER_SEC)"

definition get_ticks_from_hz :: "u64 \<Rightarrow> u64 \<Rightarrow> u64 \<Rightarrow> u64" where
  "get_ticks_from_hz clock_hz ticks hz = ucast (((ucast clock_hz :: 128 word) * ucast ticks) div ucast hz)"

definition init_timer_at :: "nat \<Rightarrow> u64 \<Rightarrow> u64 \<Rightarrow> timer_type \<Rightarrow> timer" where
  "init_timer_at cpu deadline ticks ty =
     \<lparr>elapse_deadline = deadline, periodic_ticks = ticks, tm_type = ty, timer_action = 0, tm_cpu = cpu\<rparr>"

definition init_timer_deadline :: "nat \<Rightarrow> u64 \<Rightarrow> timer" where
  "init_timer_deadline cpu timer_deadline = init_timer_at cpu timer_deadline 0 TIMER_ONESHOT"

definition init_timer_ns :: "nat \<Rightarrow> u64 \<Rightarrow> u64 \<Rightarrow> u64 \<Rightarrow> timer_type \<Rightarrow> timer" where
  "init_timer_ns cpu now clock_hz time_ns ty =
     (let ticks = get_ticks_from_ns clock_hz time_ns in init_timer_at cpu (now + ticks) ticks ty)"

definition init_timer_hz :: "nat \<Rightarrow> u64 \<Rightarrow> u64 \<Rightarrow> u64 \<Rightarrow> u64 \<Rightarrow> timer_type \<Rightarrow> timer" where
  "init_timer_hz cpu now clock_hz hz ticks ty =
     (let timer_ticks = get_ticks_from_hz clock_hz ticks hz in init_timer_at cpu (now + timer_ticks) timer_ticks ty)"

text \<open>The timers of a processor and the deadline that its timer is programmed to.\<close>

record timer_cpu =
  tc_heap :: timer_heap
  tc_deadline :: "u64 option"

definition arch_reprogram_timer :: "(u64 \<Rightarrow> bool) \<Rightarrow> timer_cpu \<Rightarrow> u64 \<Rightarrow> timer_op_status \<times> timer_cpu" where
  "arch_reprogram_timer hw_ok c deadline =
     (if hw_ok deadline then (TIMER_SUCCESS, c\<lparr>tc_deadline := Some deadline\<rparr>) else (TIMER_PROGRAMMING_FAILED, c))"

definition add_timer :: "(u64 \<Rightarrow> bool) \<Rightarrow> timer_cpu \<Rightarrow> timer \<Rightarrow> (timer_op_status \<times> timer_cpu) run" where
  "add_timer hw_ok c tm =
     andThen (heap_add_timer (tc_heap c) tm) (\<lambda>added.
       case added of
         None \<Rightarrow> Inr (TIMER_ERROR, c)
       | Some heap \<Rightarrow>
           (let c = c\<lparr>tc_heap := heap\<rparr> in
            andThen (get_heap_root heap) (\<lambda>root.
              case root of
                None \<Rightarrow> Inl NullDeref
              | Some earliest \<Rightarrow>
                  if elapse_deadline earliest = elapse_deadline tm
                  then Inr (arch_reprogram_timer hw_ok c (elapse_deadline tm))
                  else Inr (TIMER_SUCCESS, c))))"

text \<open>
  \<^verbatim>\<open>irq_timer_handler\<close>: \<open>tsc k\<close> is the value of the \<open>k\<close>-th reading of the time stamp counter in the loop,
  \<open>act\<close> what the action of a timer does to the timers of the processor. The result has the timers
  whose actions were called, in order. Fuel bounds the turns; a periodic timer without a period makes
  the loop endless.
\<close>

fun handler_loop :: "nat \<Rightarrow> (u64 \<Rightarrow> bool) \<Rightarrow> (nat \<Rightarrow> u64) \<Rightarrow> (timer \<Rightarrow> timer_cpu \<Rightarrow> timer_cpu) \<Rightarrow> nat \<Rightarrow> timer_cpu
    \<Rightarrow> (timer list \<times> timer_cpu) run" where
  "handler_loop 0 hw_ok tsc act k c = Inl Spins"
| "handler_loop (Suc fuel) hw_ok tsc act k c =
     andThen (get_heap_root (tc_heap c)) (\<lambda>root.
       case root of
         None \<Rightarrow> Inr ([], c)
       | Some earliest \<Rightarrow>
           if elapse_deadline earliest > tsc k
           then Inr ([], snd (arch_reprogram_timer hw_ok c (elapse_deadline earliest)))
           else
             (let c = act earliest c in
              andThen (delete_root (tc_heap c)) (\<lambda>heap.
              let c = c\<lparr>tc_heap := heap\<rparr> in
              andThen (if tm_type earliest = TIMER_PERIODIC
                       then andThen (add_timer hw_ok c (earliest\<lparr>elapse_deadline :=
                                       elapse_deadline earliest + periodic_ticks earliest\<rparr>)) (\<lambda>(_, c). Inr c)
                       else Inr c) (\<lambda>c.
              andThen (handler_loop fuel hw_ok tsc act (Suc k) c) (\<lambda>(fired, c). Inr (earliest # fired, c))))))"

section \<open>The frequency of the time stamp counter\<close>

text \<open>
  \<^verbatim>\<open>compute_tsc_frequency\<close>. The inputs are the crystal clock leaf when it is in range, the platform info
  register, the family and model, and the readings before and after the HPET sleep (\<open>None\<close> when the
  HPET cannot be initialized). A division by zero stops the processor. \<open>Inr None\<close> is \<^verbatim>\<open>TIMER_ERROR\<close>.
\<close>

record cpuid_regs =
  eax :: u32
  ebx :: u32
  ecx :: u32
  edx :: u32

definition get_scalable_bus_frequency :: "u32 \<Rightarrow> u64" where
  "get_scalable_bus_frequency version_eax =
     (let model_id = drop_bit 4 version_eax AND 0x0F;
          family_id = drop_bit 8 version_eax AND 0x0F
      in if family_id = 6 then
           (if model_id \<in> {0x2A, 0x2D, 0x3A, 0x3E, 0x3C, 0x3F, 0x45, 0x46, 0x3D, 0x47, 0x4F, 0x56} then 100
            else if model_id \<in> {0x1E, 0x1F, 0x1A, 0x2E} then 133
            else 0)
         else 0)"

definition compute_tsc_frequency ::
  "cpuid_regs option \<Rightarrow> u64 \<Rightarrow> u32 \<Rightarrow> (u64 \<times> u64) option \<Rightarrow> u64 option run" where
  "compute_tsc_frequency art platform_info version_eax hpet =
     (let no_msr_info = (case hpet of None \<Rightarrow> Inr None | Some (tsc_start, tsc_end) \<Rightarrow> Inr (Some ((tsc_end - tsc_start) * 10)));
          no_art = (let max_non_turbo_ratio = (drop_bit 8 platform_info) AND 0xFF in
                    if max_non_turbo_ratio = 0 then no_msr_info
                    else
                      (let scalable_bus_frequency = get_scalable_bus_frequency version_eax in
                       if scalable_bus_frequency = 0 then no_msr_info
                       else Inr (Some (max_non_turbo_ratio * scalable_bus_frequency))))
      in case art of
           None \<Rightarrow> no_art
         | Some res \<Rightarrow>
             if ebx res = 0 \<or> ecx res = 0 then no_art
             else if eax res = 0 then Inl Die
             else Inr (Some (ucast ((ecx res * ebx res) div eax res))))"

section \<open>Order and contents\<close>

definition heap_on :: "timer list \<Rightarrow> nat \<Rightarrow> bool" where
  "heap_on tree n \<longleftrightarrow>
     (\<forall>i. 2 \<le> i \<and> i < n \<longrightarrow> elapse_deadline (tree ! (i div 2)) \<le> elapse_deadline (tree ! i))"

text \<open>The timers at the indices 1 to \<open>n - 1\<close>.\<close>

definition cont :: "timer list \<Rightarrow> nat \<Rightarrow> timer multiset" where
  "cont tree n = mset (tl (take n tree))"

lemma tl_update: "0 < i \<Longrightarrow> tl (xs[i := x]) = (tl xs)[i - 1 := x]"
  by (cases xs; cases i) auto

lemma nth_tl_take: "0 < i \<Longrightarrow> i < n \<Longrightarrow> n \<le> length xs \<Longrightarrow> tl (take n xs) ! (i - Suc 0) = xs ! i"
  by (cases xs; cases i; cases n) auto

lemma cont_swap:
  assumes "0 < i" "i < n" "0 < j" "j < n" "n \<le> length tree"
  shows "cont (tree[i := tree ! j, j := tree ! i]) n = cont tree n"
proof -
  let ?l = "tl (take n tree)"
  have l: "i - 1 < length ?l" "j - 1 < length ?l" using assms by auto
  have "tl (take n (tree[i := tree ! j, j := tree ! i])) = ?l[i - 1 := ?l ! (j - 1), j - 1 := ?l ! (i - 1)]"
    using assms by (simp add: take_update_swap tl_update nth_tl_take)
  then show ?thesis using mset_swap[OF l(2) l(1)] by (simp add: cont_def)
qed

lemma heap_swap_eq: "i < length tree \<Longrightarrow> j < length tree \<Longrightarrow> heap_swap tree i j = Inr (tree[i := tree ! j, j := tree ! i])"
  by (simp add: heap_swap_def)

section \<open>Sifting up\<close>

definition up_ok :: "timer list \<Rightarrow> nat \<Rightarrow> nat \<Rightarrow> bool" where
  "up_ok tree n idx \<longleftrightarrow>
     (\<forall>i. 2 \<le> i \<and> i < n \<and> i \<noteq> idx \<longrightarrow> elapse_deadline (tree ! (i div 2)) \<le> elapse_deadline (tree ! i))
     \<and> (\<forall>i. 2 \<le> i \<and> i < n \<and> i div 2 = idx \<and> 2 \<le> idx \<longrightarrow>
            elapse_deadline (tree ! (idx div 2)) \<le> elapse_deadline (tree ! i))"

lemma up_step:
  assumes "up_ok tree n idx" "2 \<le> idx" "idx < n" "n \<le> length tree"
    and "elapse_deadline (tree ! idx) < elapse_deadline (tree ! (idx div 2))"
  shows "up_ok (tree[idx := tree ! (idx div 2), idx div 2 := tree ! idx]) n (idx div 2)"
proof -
  let ?p = "idx div 2" and ?b = "tree[idx := tree ! (idx div 2), idx div 2 := tree ! idx]"
  let ?k = "\<lambda>t i. elapse_deadline (t ! i)"
  have p: "?p < idx" "?p < n" "0 < ?p" using assms(2,3) by auto
  have b: "?b ! i = (if i = ?p then tree ! idx else if i = idx then tree ! ?p else tree ! i)" if "i < n" for i
    using that p assms(3,4) by (simp add: nth_list_update)
  note o = assms(1)[unfolded up_ok_def]
  show ?thesis unfolding up_ok_def
  proof (intro conjI allI impI)
    fix i assume i: "2 \<le> i \<and> i < n \<and> i \<noteq> ?p"
    then have q: "i div 2 < n" "i div 2 < i" by auto
    show "?k ?b (i div 2) \<le> ?k ?b i"
    proof (cases "i = idx")
      case True
      then show ?thesis using b[of i] b[of "i div 2"] q i p assms(5) by auto
    next
      case False
      then have old: "?k tree (i div 2) \<le> ?k tree i" using o i by auto
      show ?thesis
        using b[of i] b[of "i div 2"] q i False old o assms(2,5) p by (cases "i div 2 = idx"; cases "i div 2 = ?p") auto
    qed
  next
    fix i assume i: "2 \<le> i \<and> i < n \<and> i div 2 = ?p \<and> 2 \<le> ?p"
    have pp: "?p div 2 < ?p" "?p div 2 < n" "?p div 2 \<noteq> idx" using i p by auto
    have "?k tree (?p div 2) \<le> ?k tree ?p" using o i p by auto
    moreover have "i \<noteq> idx \<Longrightarrow> ?k tree ?p \<le> ?k tree i" using o i by auto
    moreover have "?b ! (?p div 2) = tree ! (?p div 2)" using b[OF pp(2)] pp(1,3) by (metis less_irrefl)
    moreover have "?b ! i = (if i = idx then tree ! ?p else tree ! i)" using b[of i] i by auto
    ultimately show "?k ?b (?p div 2) \<le> ?k ?b i" by (cases "i = idx") auto
  qed
qed

lemma heapify_up_ok:
  assumes "up_ok tree n idx" "0 < idx" "idx < n" "n \<le> length tree"
  shows "\<exists>tree'. heapify_up tree idx = Inr tree' \<and> heap_on tree' n \<and> length tree' = length tree
    \<and> cont tree' n = cont tree n"
  using assms
proof (induction tree idx rule: heapify_up.induct)
  case (1 tree idx)
  show ?case
  proof (cases "idx div 2 > 0 \<and> elapse_deadline (tree ! idx) < elapse_deadline (tree ! (idx div 2))")
    case True
    let ?b = "tree[idx := tree ! (idx div 2), idx div 2 := tree ! idx]"
    have i: "2 \<le> idx" "idx div 2 < n" "idx < length tree" "idx div 2 < length tree" using True "1.prems" by auto
    have s: "heap_swap tree idx (idx div 2) = Inr ?b" using i by (simp add: heap_swap_eq)
    have "\<not> elapse_deadline (tree ! (idx div 2)) \<le> elapse_deadline (tree ! idx)" using True by (meson leD)
    then have e: "heapify_up tree idx = heapify_up ?b (idx div 2)"
      using True i s by (subst heapify_up.simps) (simp add: Let_def)
    have u: "up_ok ?b n (idx div 2)" using up_step[OF "1.prems"(1) i(1) "1.prems"(3,4)] True by simp
    have "\<exists>tree'. heapify_up ?b (idx div 2) = Inr tree' \<and> heap_on tree' n \<and> length tree' = length ?b \<and> cont tree' n = cont ?b n"
      using True i s u "1.prems"(4) by (intro "1.IH"[OF refl _ _ _ _ s]) auto
    then show ?thesis using e cont_swap[of idx n "idx div 2" tree] True i "1.prems" by auto
  next
    case False
    have "heapify_up tree idx = Inr tree"
      using False "1.prems" by (subst heapify_up.simps) (auto simp: Let_def)
    moreover have "elapse_deadline (tree ! (i div 2)) \<le> elapse_deadline (tree ! i)" if "2 \<le> i" "i < n" for i
      using "1.prems"(1) False that by (cases "i = idx") (auto simp: up_ok_def)
    then have "heap_on tree n" by (simp add: heap_on_def)
    ultimately show ?thesis by auto
  qed
qed

section \<open>Sifting down\<close>

definition down_ok :: "timer list \<Rightarrow> nat \<Rightarrow> nat \<Rightarrow> bool" where
  "down_ok tree n idx \<longleftrightarrow>
     (\<forall>i. 2 \<le> i \<and> i < n \<and> i div 2 \<noteq> idx \<longrightarrow> elapse_deadline (tree ! (i div 2)) \<le> elapse_deadline (tree ! i))
     \<and> (\<forall>i. 2 \<le> i \<and> i < n \<and> i div 2 = idx \<and> 2 \<le> idx \<longrightarrow>
            elapse_deadline (tree ! (idx div 2)) \<le> elapse_deadline (tree ! i))"

lemma div2_cases: "i div 2 = (j :: nat) \<longleftrightarrow> i = 2 * j \<or> i = 2 * j + 1"
  by auto

text \<open>The target is a node or child with the smallest deadline among them.\<close>

lemma down_target_min:
  assumes "t = down_target (n - 1) i (tree ! i) (tree ! (2 * i)) (tree ! (2 * i + 1))" "0 < i"
  shows "t = i \<or> t div 2 = i \<and> t < n"
    and "t \<noteq> i \<Longrightarrow> elapse_deadline (tree ! t) < elapse_deadline (tree ! i)"
    and "c div 2 = i \<Longrightarrow> c < n \<Longrightarrow> elapse_deadline (tree ! t) \<le> elapse_deadline (tree ! c)"
  using assms by (auto simp: down_target_def div2_cases split: if_splits)

lemma down_step:
  assumes "down_ok tree n idx" "0 < idx" "t div 2 = idx" "t < n" "n \<le> length tree"
    and "elapse_deadline (tree ! t) < elapse_deadline (tree ! idx)"
    and "\<And>c. c div 2 = idx \<Longrightarrow> c < n \<Longrightarrow> elapse_deadline (tree ! t) \<le> elapse_deadline (tree ! c)"
  shows "down_ok (tree[idx := tree ! t, t := tree ! idx]) n t"
proof -
  let ?b = "tree[idx := tree ! t, t := tree ! idx]"
  let ?k = "\<lambda>t i. elapse_deadline (t ! i)"
  have p: "idx < t" "idx < n" "2 \<le> t" using assms(2,3,4) by auto
  have b: "?b ! i = (if i = t then tree ! idx else if i = idx then tree ! t else tree ! i)" if "i < n" for i
    using that p assms(4,5) by (simp add: nth_list_update)
  note o = assms(1)[unfolded down_ok_def]
  show ?thesis unfolding down_ok_def
  proof (intro conjI allI impI)
    fix i assume i: "2 \<le> i \<and> i < n \<and> i div 2 \<noteq> t"
    then have q: "i div 2 < n" "i div 2 < i" by auto
    show "?k ?b (i div 2) \<le> ?k ?b i"
    proof (cases "i div 2 = idx")
      case True
      then show ?thesis using b[of i] b[of idx] p i assms(6) assms(7)[of i] by (cases "i = t") auto
    next
      case False
      then have old: "?k tree (i div 2) \<le> ?k tree i" using o i by auto
      have "?b ! (i div 2) = tree ! (i div 2)" using b[OF q(1)] i False by auto
      moreover have "i \<noteq> t" using False assms(3) by auto
      moreover have "?k tree (i div 2) \<le> ?k tree t" if "i = idx"
      proof -
        have "2 \<le> idx" using i that by simp
        then show ?thesis using o assms(3,4) p(3) that by auto
      qed
      ultimately show ?thesis using b[of i] i old by (cases "i = idx") auto
    qed
  next
    fix i assume i: "2 \<le> i \<and> i < n \<and> i div 2 = t \<and> 2 \<le> t"
    then have "i \<noteq> t" "i \<noteq> idx" "i div 2 \<noteq> idx" using p by auto
    then have "?k tree t \<le> ?k tree i" "?b ! i = tree ! i" using o i b[of i] by auto
    then show "?k ?b (t div 2) \<le> ?k ?b i" using b[OF p(2)] p(1) assms(3) by auto
  qed
qed

lemma heapify_down_ok:
  assumes "down_ok tree n idx" "0 < idx" "idx < n \<or> idx = 1" "2 * n \<le> length tree" "4 \<le> length tree" "0 < n"
  shows "\<exists>tree'. heapify_down tree (n - 1) idx = Inr tree' \<and> heap_on tree' n \<and> length tree' = length tree
    \<and> cont tree' n = cont tree n"
  using assms
proof (induction "n - idx" arbitrary: tree idx rule: less_induct)
  case less
  let ?l = "tree ! (2 * idx)" and ?r = "tree ! (2 * idx + 1)" and ?x = "tree ! idx"
  define t where "t = down_target (n - 1) idx ?x ?l ?r"
  note t = down_target_min[OF t_def less.prems(2)]
  have len: "2 * idx + 1 < length tree" using less.prems by auto
  have unf: "heapify_down tree (n - 1) idx =
      (if t = idx then Inr tree else andThen (heap_swap tree idx t) (\<lambda>tree. heapify_down tree (n - 1) t))"
    using len unfolding t_def by (subst heapify_down.simps) (simp add: Let_def)
  show ?case
  proof (cases "t = idx")
    case True
    have "heap_on tree n" unfolding heap_on_def
    proof (intro allI impI)
      fix i assume i: "2 \<le> i \<and> i < n"
      show "elapse_deadline (tree ! (i div 2)) \<le> elapse_deadline (tree ! i)"
        using less.prems(1) i t(3)[of i] True by (cases "i div 2 = idx") (auto simp: down_ok_def)
    qed
    then show ?thesis using unf True by simp
  next
    case False
    let ?b = "tree[idx := tree ! t, t := tree ! idx]"
    have d: "t div 2 = idx" "t < n" using t(1) False by auto
    have lt: "idx < t" "idx < n" using d less.prems(2) by auto
    have s: "heap_swap tree idx t = Inr ?b" using d lt less.prems(4) by (intro heap_swap_eq) auto
    have ok: "down_ok ?b n t"
      using down_step[OF less.prems(1,2) d] t(2)[OF False] t(3) less.prems(4) by auto
    have "\<exists>tree'. heapify_down ?b (n - 1) t = Inr tree' \<and> heap_on tree' n \<and> length tree' = length ?b
        \<and> cont tree' n = cont ?b n"
      using ok d lt less.prems by (intro less.hyps) auto
    then show ?thesis
      using unf False s cont_swap[of idx n t tree] d lt less.prems by auto
  qed
qed

section \<open>The heap operations\<close>

definition timers_of :: "timer_heap \<Rightarrow> timer multiset" where
  "timers_of h = cont (flattened_tree h) (insertion_idx h)"

text \<open>
  The heaps on which all operations stay within the array: \<^verbatim>\<open>heapify_down\<close> reads the children of every
  node it visits, also of those without children, so only the lower half of the array may be in use.
\<close>

definition heap_ok :: "timer_heap \<Rightarrow> bool" where
  "heap_ok h \<longleftrightarrow> 1 \<le> insertion_idx h \<and> 2 * (insertion_idx h - 1) \<le> length (flattened_tree h)
     \<and> 4 \<le> length (flattened_tree h) \<and> heap_on (flattened_tree h) (insertion_idx h)"

lemma heap_ok_bound: "heap_ok h \<Longrightarrow> insertion_idx h \<le> length (flattened_tree h)"
  by (auto simp: heap_ok_def)

lemma cont_Suc:
  assumes "1 \<le> n" "n < length tree"
  shows "cont tree (Suc n) = add_mset (tree ! n) (cont tree n)"
proof -
  obtain m where m: "n = Suc m" using assms(1) by (cases n) auto
  then show ?thesis using assms by (cases tree) (auto simp: cont_def take_Suc_conv_app_nth)
qed

lemma cont_update_above: "n \<le> i \<Longrightarrow> cont (tree[i := x]) n = cont tree n"
  by (simp add: cont_def)

lemma cont_nth:
  assumes "x \<in># cont tree n" "n \<le> length tree"
  shows "\<exists>i. 0 < i \<and> i < n \<and> x = tree ! i"
proof -
  obtain j where j: "j < length (tl (take n tree))" "x = tl (take n tree) ! j"
    using assms(1) by (auto simp: cont_def in_set_conv_nth)
  then show ?thesis using assms(2) by (intro exI[of _ "Suc j"]) (auto simp: nth_tl)
qed

lemma root_least:
  assumes "heap_on tree n" "0 < i" "i < n"
  shows "elapse_deadline (tree ! 1) \<le> elapse_deadline (tree ! i)"
  using assms(2,3)
proof (induction i rule: less_induct)
  case (less i)
  show ?case
  proof (cases "i = 1")
    case False
    then have "elapse_deadline (tree ! 1) \<le> elapse_deadline (tree ! (i div 2))" using less by auto
    also have "\<dots> \<le> elapse_deadline (tree ! i)" using assms(1) less.prems False by (auto simp: heap_on_def)
    finally show ?thesis .
  qed simp
qed

lemma heap_add_ok:
  assumes "heap_ok h" "2 * insertion_idx h \<le> length (flattened_tree h)"
  shows "\<exists>h'. heap_add_timer h tm = Inr (Some h') \<and> heap_ok h' \<and> timers_of h' = add_mset tm (timers_of h)
    \<and> length (flattened_tree h') = length (flattened_tree h) \<and> insertion_idx h' = insertion_idx h + 1"
proof -
  let ?n = "insertion_idx h" and ?t = "flattened_tree h"
  have n: "0 < ?n" "?n < length ?t" using assms by (auto simp: heap_ok_def)
  have "up_ok (?t[?n := tm]) (Suc ?n) ?n"
    using assms(1) n by (auto simp: up_ok_def heap_ok_def heap_on_def nth_list_update)
  from heapify_up_ok[OF this] n obtain t' where t': "heapify_up (?t[?n := tm]) ?n = Inr t'" "heap_on t' (Suc ?n)"
    "length t' = length ?t" "cont t' (Suc ?n) = cont (?t[?n := tm]) (Suc ?n)" by auto
  have "cont (?t[?n := tm]) (Suc ?n) = add_mset tm (cont ?t ?n)"
    using n by (subst cont_Suc) (auto simp: cont_update_above)
  then show ?thesis
    using t' n assms by (auto simp: heap_add_timer_def heap_ok_def timers_of_def)
qed

lemma delete_root_ok:
  assumes "heap_ok h" "1 < insertion_idx h"
  shows "\<exists>h'. delete_root h = Inr h' \<and> heap_ok h' \<and> timers_of h = add_mset (flattened_tree h ! 1) (timers_of h')
    \<and> length (flattened_tree h') = length (flattened_tree h) \<and> insertion_idx h' = insertion_idx h - 1"
proof -
  let ?t = "flattened_tree h"
  obtain n where n: "insertion_idx h = Suc n" "1 \<le> n" using assms(2) by (cases "insertion_idx h") auto
  have len: "2 * n \<le> length ?t" "4 \<le> length ?t" "n < length ?t" using assms n by (auto simp: heap_ok_def)
  let ?b = "?t[1 := ?t ! n]"
  have ho: "heap_on ?t (Suc n)" using assms n by (simp add: heap_ok_def)
  have "down_ok ?b n 1"
    using ho len n(2) by (auto simp: down_ok_def heap_on_def nth_list_update)
  from heapify_down_ok[OF this] len n(2) obtain t' where t': "heapify_down ?b (n - 1) 1 = Inr t'" "heap_on t' n"
    "length t' = length ?t" "cont t' n = cont ?b n" by auto
  have "add_mset (?t ! 1) (cont ?b n) = cont ?t (Suc n)"
  proof (cases "n = 1")
    case True
    then show ?thesis using len by (simp add: cont_Suc cont_update_above)
  next
    case False
    have "cont (?t[1 := ?t ! n, n := ?t ! 1]) (Suc n) = cont ?t (Suc n)"
      using len n(2) by (intro cont_swap) auto
    moreover have "cont (?t[1 := ?t ! n, n := ?t ! 1]) (Suc n) = add_mset (?t ! 1) (cont ?b n)"
      using len n(2) by (subst cont_Suc) (auto simp: cont_update_above)
    ultimately show ?thesis by simp
  qed
  then show ?thesis
    using t' n len assms
    by (auto simp: delete_root_def delete_heap_element_def Let_def heap_ok_def timers_of_def)
qed

section \<open>The interface: a priority queue\<close>

locale deadline_queue =
  fixes first :: "'q \<Rightarrow> 't option run"
    and del :: "'q \<Rightarrow> 'q run"
    and content :: "'q \<Rightarrow> 't multiset"
    and key :: "'t \<Rightarrow> 'k::linorder"
    and invar :: "'q \<Rightarrow> bool"
  assumes first_empty: "invar q \<Longrightarrow> content q = {#} \<Longrightarrow> first q = Inr None"
    and first_min: "invar q \<Longrightarrow> content q \<noteq> {#} \<Longrightarrow>
      \<exists>t. first q = Inr (Some t) \<and> t \<in># content q \<and> (\<forall>u \<in># content q. key t \<le> key u)"
    and del_first: "invar q \<Longrightarrow> first q = Inr (Some t) \<Longrightarrow>
      \<exists>q'. del q = Inr q' \<and> invar q' \<and> content q = add_mset t (content q')"
begin

fun drain :: "nat \<Rightarrow> 'q \<Rightarrow> 't list run" where
  "drain 0 q = Inr []"
| "drain (Suc n) q = andThen (first q) (\<lambda>r.
     case r of None \<Rightarrow> Inr [] | Some t \<Rightarrow> andThen (del q) (\<lambda>q. andThen (drain n q) (\<lambda>ts. Inr (t # ts))))"

lemma drain_sorted:
  assumes "invar q" "size (content q) \<le> n"
  shows "\<exists>ts. drain n q = Inr ts \<and> mset ts = content q \<and> sorted (map key ts)"
  using assms
proof (induction n arbitrary: q)
  case (Suc n)
  show ?case
  proof (cases "content q = {#}")
    case True
    then show ?thesis using first_empty[OF Suc.prems(1)] by auto
  next
    case False
    then obtain t where t: "first q = Inr (Some t)" "\<forall>u \<in># content q. key t \<le> key u"
      using first_min[OF Suc.prems(1)] by blast
    obtain q' where q': "del q = Inr q'" "invar q'" "content q = add_mset t (content q')"
      using del_first[OF Suc.prems(1) t(1)] by blast
    then obtain ts where "drain n q' = Inr ts" "mset ts = content q'" "sorted (map key ts)"
      using Suc.IH[of q'] Suc.prems(2) by auto
    moreover from this have "\<forall>u \<in> set ts. key t \<le> key u" using t(2) q'(3) by (metis set_mset_mset insert_iff set_mset_add_mset_insert)
    ultimately show ?thesis using t(1) q' by auto
  qed
qed simp

end

interpretation timers: deadline_queue get_heap_root delete_root timers_of elapse_deadline heap_ok
proof
  fix h assume h: "heap_ok h"
  have size: "size (timers_of h) = insertion_idx h - 1"
    using heap_ok_bound[OF h] by (simp add: timers_of_def cont_def)
  show "get_heap_root h = Inr None" if "timers_of h = {#}"
    using size that by (simp add: get_heap_root_def)
  have root: "get_heap_root h = Inr (Some (flattened_tree h ! 1)) \<and> flattened_tree h ! 1 \<in># timers_of h
      \<and> (\<forall>u \<in># timers_of h. elapse_deadline (flattened_tree h ! 1) \<le> elapse_deadline u)" if "1 < insertion_idx h"
  proof -
    have "flattened_tree h ! 1 \<in># timers_of h"
      using delete_root_ok[OF h that] by auto
    moreover have "elapse_deadline (flattened_tree h ! 1) \<le> elapse_deadline u" if "u \<in># timers_of h" for u
      using cont_nth[OF that[unfolded timers_of_def] heap_ok_bound[OF h]] root_least h by (auto simp: heap_ok_def)
    ultimately show ?thesis using that heap_ok_bound[OF h] by (simp add: get_heap_root_def)
  qed
  show "\<exists>t. get_heap_root h = Inr (Some t) \<and> t \<in># timers_of h \<and> (\<forall>u \<in># timers_of h. elapse_deadline t \<le> elapse_deadline u)"
    if "timers_of h \<noteq> {#}"
  proof -
    have "1 < insertion_idx h" using size that by (metis size_eq_0_iff_empty diff_is_0_eq not_le)
    then show ?thesis using root by blast
  qed
  show "\<exists>h'. delete_root h = Inr h' \<and> heap_ok h' \<and> timers_of h = add_mset t (timers_of h')"
    if "get_heap_root h = Inr (Some t)" for t
  proof -
    have "1 < insertion_idx h" using that by (auto simp: get_heap_root_def split: if_splits)
    then show ?thesis using delete_root_ok[OF h] root that by auto
  qed
qed

section \<open>Properties\<close>

text \<open>
  C14. The heap is a priority queue: removing the root until nothing is left returns all timers of a heap
  that uses at most half of its array, each exactly once and in the order of their deadlines, without
  leaving the array.
\<close>

theorem timer_heap_drains_sorted:
  assumes "heap_ok h"
  shows "\<exists>ts. timers.drain (insertion_idx h) h = Inr ts \<and> mset ts = timers_of h \<and> sorted (map elapse_deadline ts)"
  using timers.drain_sorted[OF assms, of "insertion_idx h"] by (simp add: timers_of_def cont_def)

text \<open>
  Adding a timer to a heap with room in the lower half of its array adds exactly this timer and keeps
  the heap order, and \<^verbatim>\<open>add_timer\<close> programs the hardware whenever the new timer is the earliest.
\<close>

lemma add_timer_correct:
  assumes "heap_ok (tc_heap c)" "2 * insertion_idx (tc_heap c) \<le> length (flattened_tree (tc_heap c))"
    and "hw_ok (elapse_deadline tm)"
  shows "\<exists>c'. add_timer hw_ok c tm = Inr (TIMER_SUCCESS, c') \<and> heap_ok (tc_heap c')
    \<and> timers_of (tc_heap c') = add_mset tm (timers_of (tc_heap c))
    \<and> ((\<forall>u \<in># timers_of (tc_heap c). elapse_deadline tm \<le> elapse_deadline u) \<longrightarrow>
         tc_deadline c' = Some (elapse_deadline tm))"
proof -
  obtain h where h: "heap_add_timer (tc_heap c) tm = Inr (Some h)" "heap_ok h"
    "timers_of h = add_mset tm (timers_of (tc_heap c))"
    using heap_add_ok[OF assms(1,2)] by blast
  obtain t where t: "get_heap_root h = Inr (Some t)" "t \<in># timers_of h" "\<forall>u \<in># timers_of h. elapse_deadline t \<le> elapse_deadline u"
    using timers.first_min[OF h(2)] h(3) by auto
  have "elapse_deadline t = elapse_deadline tm" if "\<forall>u \<in># timers_of (tc_heap c). elapse_deadline tm \<le> elapse_deadline u"
    using t(2,3) h(3) that by (metis add_mset_remove_trivial_eq antisym insert_iff order_refl set_mset_add_mset_insert union_single_eq_member)
  then show ?thesis
    using h t(1) assms(3) by (auto simp: add_timer_def arch_reprogram_timer_def Let_def)
qed

text \<open>The hardware is programmed with the earliest deadline, if there is a timer and the hardware accepts it.\<close>

definition armed :: "(u64 \<Rightarrow> bool) \<Rightarrow> timer_cpu \<Rightarrow> bool" where
  "armed hw_ok c \<longleftrightarrow> (timers_of (tc_heap c) \<noteq> {#} \<longrightarrow> (\<exists>t \<in># timers_of (tc_heap c).
     (\<forall>u \<in># timers_of (tc_heap c). elapse_deadline t \<le> elapse_deadline u) \<and> (hw_ok (elapse_deadline t) \<longrightarrow> tc_deadline c = Some (elapse_deadline t))))"

lemma handler_correct:
  assumes "heap_ok (tc_heap c)" "\<forall>t \<in># timers_of (tc_heap c). tm_type t = TIMER_ONESHOT"
    and "\<And>t c. tc_heap (act t c) = tc_heap c" "size (timers_of (tc_heap c)) < fuel"
  shows "\<exists>fired c'. handler_loop fuel hw_ok tsc act k c = Inr (fired, c')
    \<and> timers_of (tc_heap c) = mset fired + timers_of (tc_heap c') \<and> sorted (map elapse_deadline fired)
    \<and> (\<forall>j < length fired. elapse_deadline (fired ! j) \<le> tsc (k + j))
    \<and> (\<forall>t \<in># timers_of (tc_heap c'). tsc (k + length fired) < elapse_deadline t)
    \<and> heap_ok (tc_heap c') \<and> armed hw_ok c'"
  using assms(1,2,4)
proof (induction fuel arbitrary: c k)
  case (Suc fuel)
  show ?case
  proof (cases "timers_of (tc_heap c) = {#}")
    case True
    then show ?thesis using timers.first_empty[OF Suc.prems(1)] Suc.prems(1) by (simp add: armed_def)
  next
    case False
    then obtain t where t: "get_heap_root (tc_heap c) = Inr (Some t)" "t \<in># timers_of (tc_heap c)"
      "\<forall>u \<in># timers_of (tc_heap c). elapse_deadline t \<le> elapse_deadline u"
      using timers.first_min[OF Suc.prems(1)] by blast
    show ?thesis
    proof (cases "elapse_deadline t > tsc k")
      case True
      then show ?thesis using t Suc.prems(1)
        by (auto simp: arch_reprogram_timer_def armed_def)
    next
      case due: False
      obtain h where h: "delete_root (tc_heap c) = Inr h" "heap_ok h" "timers_of (tc_heap c) = add_mset t (timers_of h)"
        using timers.del_first[OF Suc.prems(1) t(1)] by blast
      define c1 where "c1 = (act t c)\<lparr>tc_heap := h\<rparr>"
      have "heap_ok (tc_heap c1)" "\<forall>u \<in># timers_of (tc_heap c1). tm_type u = TIMER_ONESHOT" "size (timers_of (tc_heap c1)) < fuel"
        using h Suc.prems by (auto simp: c1_def)
      from Suc.IH[OF this, of "Suc k"] obtain fired c' where
        f: "handler_loop fuel hw_ok tsc act (Suc k) c1 = Inr (fired, c')" "timers_of h = mset fired + timers_of (tc_heap c')"
        "sorted (map elapse_deadline fired)" "\<forall>j < length fired. elapse_deadline (fired ! j) \<le> tsc (Suc k + j)"
        "\<forall>t \<in># timers_of (tc_heap c'). tsc (Suc k + length fired) < elapse_deadline t" "heap_ok (tc_heap c')" "armed hw_ok c'"
        by (auto simp: c1_def)
      have ty: "tm_type t = TIMER_ONESHOT" using Suc.prems(2) t(2) by simp
      have "handler_loop (Suc fuel) hw_ok tsc act k c = Inr (t # fired, c')"
        using t(1) due h(1) ty f(1) assms(3) by (simp add: Let_def c1_def)
      moreover have "\<forall>u \<in> set fired. elapse_deadline t \<le> elapse_deadline u"
        using t(3) h(3) f(2) by auto
      moreover have "\<forall>j < length (t # fired). elapse_deadline ((t # fired) ! j) \<le> tsc (k + j)"
        using f(4) due by (auto simp: nth_Cons' not_less less_Suc_eq_0_disj)
      ultimately show ?thesis using f h(3) by auto
    qed
  qed
qed simp

text \<open>
  C21. The timer interrupt handler calls the actions of exactly the due timers: for one-shot timers whose
  actions do not change the heap, it terminates, the timers it calls are due at the reading of the counter
  that precedes the call, are called in the order of their deadlines, and leave the heap, every
  timer that stays has a deadline after the last reading, and if timers stay the hardware timer is programmed with
  the earliest of their deadlines, unless it refuses that. The heap uses at most half of its array.
\<close>

theorem irq_timer_handler_fires_due:
  assumes "heap_ok (tc_heap c)" "\<forall>t \<in># timers_of (tc_heap c). tm_type t = TIMER_ONESHOT"
    and "\<And>t c. tc_heap (act t c) = tc_heap c" "insertion_idx (tc_heap c) \<le> fuel"
  shows "\<exists>fired c'. handler_loop fuel hw_ok tsc act 0 c = Inr (fired, c')
    \<and> timers_of (tc_heap c) = mset fired + timers_of (tc_heap c') \<and> sorted (map elapse_deadline fired)
    \<and> (\<forall>j < length fired. elapse_deadline (fired ! j) \<le> tsc j)
    \<and> (\<forall>t \<in># timers_of (tc_heap c'). tsc (length fired) < elapse_deadline t)
    \<and> (timers_of (tc_heap c') \<noteq> {#} \<longrightarrow> (\<exists>t \<in># timers_of (tc_heap c'). (\<forall>u \<in># timers_of (tc_heap c'). elapse_deadline t \<le> elapse_deadline u)
         \<and> (hw_ok (elapse_deadline t) \<longrightarrow> tc_deadline c' = Some (elapse_deadline t))))"
proof -
  have "size (timers_of (tc_heap c)) < fuel"
    using assms(1,4) heap_ok_bound[OF assms(1)] by (auto simp: timers_of_def cont_def heap_ok_def)
  from handler_correct[where act = act and hw_ok = hw_ok and tsc = tsc and k = 0, OF assms(1,2) assms(3) this]
  show ?thesis unfolding armed_def by auto
qed

text \<open>A heap of three timers in an array of eight, for concrete instances.\<close>

definition sample_timer :: "u64 \<Rightarrow> timer" where
  "sample_timer d = \<lparr>elapse_deadline = d, periodic_ticks = 0, tm_type = TIMER_ONESHOT, timer_action = 1, tm_cpu = 0\<rparr>"

definition sample_heap :: timer_heap where
  "sample_heap = \<lparr>flattened_tree = map sample_timer [0, 5, 9, 7, 0, 0, 0, 0], insertion_idx = 4\<rparr>"

lemma sample_heap_ok: "heap_ok sample_heap" "timers_of sample_heap = {#sample_timer 5, sample_timer 9, sample_timer 7#}"
proof -
  have "heap_on (map sample_timer [0, 5, 9, 7, 0, 0, 0, 0]) 4"
    unfolding heap_on_def
  proof (intro allI impI)
    fix i :: nat assume "2 \<le> i \<and> i < 4"
    then consider "i = 2" | "i = 3" by linarith
    then show "elapse_deadline (map sample_timer [0, 5, 9, 7, 0, 0, 0, 0] ! (i div 2))
      \<le> elapse_deadline (map sample_timer [0, 5, 9, 7, 0, 0, 0, 0] ! i)"
      by cases (simp_all add: sample_timer_def)
  qed
  then show "heap_ok sample_heap" by (simp add: heap_ok_def sample_heap_def)
  show "timers_of sample_heap = {#sample_timer 5, sample_timer 9, sample_timer 7#}"
    by (simp add: timers_of_def cont_def sample_heap_def eval_nat_numeral)
qed

theorem timer_heap_drains_sorted_witness:
  "\<exists>ts. timers.drain 4 sample_heap = Inr ts \<and> mset ts = timers_of sample_heap \<and> sorted (map elapse_deadline ts)"
  using timer_heap_drains_sorted[OF sample_heap_ok(1)] by (simp add: sample_heap_def)

lemma add_timer_correct_witness:
  "\<exists>c'. add_timer (\<lambda>_. True) \<lparr>tc_heap = sample_heap, tc_deadline = Some 5\<rparr> (sample_timer 3) = Inr (TIMER_SUCCESS, c')
     \<and> tc_deadline c' = Some 3"
proof -
  let ?c = "\<lparr>tc_heap = sample_heap, tc_deadline = Some 5\<rparr>"
  have "2 * insertion_idx (tc_heap ?c) \<le> length (flattened_tree (tc_heap ?c))" by (simp add: sample_heap_def)
  from add_timer_correct[of ?c, OF _ this, of "\<lambda>_. True" "sample_timer 3"] sample_heap_ok
  show ?thesis by (auto simp: sample_timer_def)
qed

theorem irq_timer_handler_fires_due_witness:
  "\<exists>fired c'. handler_loop 4 (\<lambda>_. True) (\<lambda>_. 8) (\<lambda>_ c. c) 0 \<lparr>tc_heap = sample_heap, tc_deadline = None\<rparr> = Inr (fired, c')
     \<and> sorted (map elapse_deadline fired) \<and> (\<forall>t \<in># timers_of (tc_heap c'). 8 < elapse_deadline t)"
proof -
  let ?c = "\<lparr>tc_heap = sample_heap, tc_deadline = None\<rparr>"
  have h: "heap_ok (tc_heap ?c)" "\<forall>t \<in># timers_of (tc_heap ?c). tm_type t = TIMER_ONESHOT"
    "insertion_idx (tc_heap ?c) \<le> 4"
    using sample_heap_ok by (simp_all add: sample_timer_def) (simp add: sample_heap_def)
  from irq_timer_handler_fires_due[OF h(1,2) _ h(3), of "\<lambda>_ c. c" "\<lambda>_. True" "\<lambda>_. 8"]
  show ?thesis by auto
qed

text \<open>
  Sifting down reads the children of the visited node before comparing their indices with the last one:
  for a node in the upper half of the array the read is outside the array, also when the node has no
  children in the heap.
\<close>

lemma heapify_down_reads_outside:
  "length tree \<le> 2 * idx + 1 \<Longrightarrow> heapify_down tree max_idx idx = Inl OutOfBounds"
  by (subst heapify_down.simps) (simp add: at_def)

lemma heapify_down_reads_outside_witness:
  "heapify_down (replicate 512 (sample_timer 1)) 300 256 = Inl OutOfBounds"
  by (rule heapify_down_reads_outside) simp

text \<open>
  The conversion of a duration to ticks rounds up and is exact: it is the least number of ticks that
  lasts at least the requested time, reduced modulo \<open>2 ^ 64\<close>, since the product fits 128 bits.
\<close>

lemma ticks_from_ns_exact:
  "unat (get_ticks_from_ns clock_hz time_ns) = (unat clock_hz * unat time_ns + 999999999) div 1000000000 mod 2 ^ 64"
proof -
  have up: "unat (ucast w :: 128 word) = unat w" for w :: u64
    using unat_less_size[of w] by (simp add: unsigned_ucast_eq take_bit_eq_mod)
  have p: "unat clock_hz * unat time_ns \<le> (2 ^ 64 - 1) * (2 ^ 64 - 1)"
    using unat_less_size[of clock_hz] unat_less_size[of time_ns] by (intro mult_mono) simp_all
  then have "unat ((ucast clock_hz :: 128 word) * ucast time_ns) = unat clock_hz * unat time_ns"
    by (simp add: unat_word_ariths up)
  then have "unat ((ucast clock_hz :: 128 word) * ucast time_ns + ucast (NS_PER_SEC - 1)) = unat clock_hz * unat time_ns + 999999999"
    using p by (subst unat_add_small) (simp_all add: up NS_PER_SEC_def)
  then show ?thesis
    by (simp add: get_ticks_from_ns_def unsigned_ucast_eq take_bit_eq_mod unat_div up NS_PER_SEC_def)
qed

text \<open>
  The frequency from the crystal clock leaf is computed in 32 bits: the product of the crystal frequency
  and the numerator is reduced modulo \<open>2 ^ 32\<close> before the division.
\<close>

lemma tsc_frequency_wraps:
  assumes "ebx r \<noteq> 0" "ecx r \<noteq> 0" "eax r \<noteq> 0"
  shows "\<exists>f. compute_tsc_frequency (Some r) pinfo ver hpet = Inr (Some f)
    \<and> unat f = unat (ecx r) * unat (ebx r) mod 2 ^ 32 div unat (eax r)"
proof -
  have "unat (ucast ((ecx r * ebx r) div eax r) :: u64) = unat ((ecx r * ebx r) div eax r)"
    using unat_less_size[of "(ecx r * ebx r) div eax r"] by (simp add: unsigned_ucast_eq take_bit_eq_mod)
  then show ?thesis using assms by (simp add: compute_tsc_frequency_def unat_div unat_word_ariths)
qed

lemma tsc_frequency_wraps_witness:
  "\<exists>f. compute_tsc_frequency (Some \<lparr>eax = 2, ebx = 216, ecx = 24000000, edx = 0\<rparr>) 0 0 None = Inr (Some f)
     \<and> unat f = 444516352"
  using tsc_frequency_wraps[of "\<lparr>eax = 2, ebx = 216, ecx = 24000000, edx = 0\<rparr>" 0 0 None] by simp

text \<open>
  The table of bus frequencies is never hit: only four bits of the model are extracted, so that no model
  of the table matches and the frequency is unknown for every processor.
\<close>

lemma bus_frequency_unknown: "get_scalable_bus_frequency version_eax = 0"
proof -
  have "drop_bit 4 version_eax AND 0x0F \<le> 0x0F" by (rule word_and_le1)
  then have "drop_bit 4 version_eax AND 0x0F \<notin> {0x2A, 0x2D, 0x3A, 0x3E, 0x3C, 0x3F, 0x45, 0x46, 0x3D, 0x47, 0x4F, 0x56}"
    "drop_bit 4 version_eax AND 0x0F \<notin> {0x1E, 0x1F, 0x1A, 0x2E}"
    by auto
  then show ?thesis by (simp only: get_scalable_bus_frequency_def Let_def if_False split: if_split) simp
qed

end
