(* ===== verification/List_Lib.thy ===== *)
theory List_Lib
  imports HyvPrelude
begin

text \<open>
  The intrusive circular doubly linked list of \<^verbatim>\<open>include/lib/list.h\<close>. The \<^verbatim>\<open>prev\<close> and \<^verbatim>\<open>next\<close>
  fields of all nodes form an explicit store from node addresses to pointers; a pointer is an
  optional address, \<open>None\<close> the null pointer. \<open>dlist h head xs\<close> says that the nodes \<open>xs\<close> hang in this
  order behind \<open>head\<close>; every operation of the header is shown to have the effect of the operation on
  the list of nodes, and to leave all lists alone that share no node with it. The interface that the
  scheduler relies on is the locale \<open>node_queue\<close>.
\<close>

section \<open>Nodes\<close>

record 'a links =
  prev :: "'a \<Rightarrow> 'a option"
  "next" :: "'a \<Rightarrow> 'a option"

definition set_prev :: "'a links \<Rightarrow> 'a \<Rightarrow> 'a option \<Rightarrow> 'a links" where
  "set_prev h a p = h\<lparr>prev := (prev h)(a := p)\<rparr>"

definition set_next :: "'a links \<Rightarrow> 'a \<Rightarrow> 'a option \<Rightarrow> 'a links" where
  "set_next h a p = h\<lparr>next := (next h)(a := p)\<rparr>"

lemma links_sel [simp]:
  "prev (set_prev h a p) = (prev h)(a := p)" "next (set_prev h a p) = next h"
  "next (set_next h a p) = (next h)(a := p)" "prev (set_next h a p) = prev h"
  by (simp_all add: set_prev_def set_next_def)

text \<open>Use of a pointer as an address.\<close>

definition deref :: "'a option \<Rightarrow> 'a run" where
  "deref p = (case p of None \<Rightarrow> Inl NullDeref | Some a \<Rightarrow> Inr a)"

lemma deref_simps [simp]: "deref None = Inl NullDeref" "deref (Some a) = Inr a"
  by (simp_all add: deref_def)

section \<open>Operations\<close>

definition INIT_LIST_HEAD :: "'a links \<Rightarrow> 'a \<Rightarrow> 'a links" where
  "INIT_LIST_HEAD h head = set_prev (set_next h head (Some head)) head (Some head)"

definition list_add_between :: "'a links \<Rightarrow> 'a \<Rightarrow> 'a option \<Rightarrow> 'a option \<Rightarrow> 'a links run" where
  "list_add_between h new_node before_nn after_nn =
     (let h = set_next h new_node after_nn;
          h = set_prev h new_node before_nn
      in andThen (deref before_nn) (\<lambda>b.
           let h = set_next h b (Some new_node) in
           andThen (deref after_nn) (\<lambda>a. Inr (set_prev h a (Some new_node)))))"

definition list_add_head :: "'a links \<Rightarrow> 'a \<Rightarrow> 'a \<Rightarrow> 'a links run" where
  "list_add_head h head new_node = list_add_between h new_node (Some head) (next h head)"

definition list_add_tail :: "'a links \<Rightarrow> 'a \<Rightarrow> 'a \<Rightarrow> 'a links run" where
  "list_add_tail h head new_node = list_add_between h new_node (prev h head) (Some head)"

definition list_unlink :: "'a links \<Rightarrow> 'a option \<Rightarrow> 'a option \<Rightarrow> 'a links run" where
  "list_unlink h p n =
     andThen (deref p) (\<lambda>a.
       let h = set_next h a n in
       andThen (deref n) (\<lambda>b. Inr (set_prev h b p)))"

definition list_remove_entry :: "'a links \<Rightarrow> 'a option \<Rightarrow> 'a links run" where
  "list_remove_entry h rm_entry =
     (case rm_entry of
        None \<Rightarrow> Inr h
      | Some e \<Rightarrow>
          andThen (list_unlink h (prev h e) (next h e)) (\<lambda>h.
            let h = set_prev h e None in Inr (set_next h e None)))"

definition list_remove_head :: "'a links \<Rightarrow> 'a \<Rightarrow> 'a links run" where
  "list_remove_head h head = list_remove_entry h (next h head)"

definition list_remove_tail :: "'a links \<Rightarrow> 'a \<Rightarrow> 'a links run" where
  "list_remove_tail h head = list_remove_entry h (prev h head)"

definition is_list_empty :: "'a links \<Rightarrow> 'a \<Rightarrow> bool" where
  "is_list_empty h head \<longleftrightarrow> next h head = Some head"

definition list_first_entry_nullable :: "'a links \<Rightarrow> 'a \<Rightarrow> 'a option" where
  "list_first_entry_nullable h head = (if next h head = Some head then None else next h head)"

definition list_last_entry_nullable :: "'a links \<Rightarrow> 'a \<Rightarrow> 'a option" where
  "list_last_entry_nullable h head = (if prev h head = Some head then None else prev h head)"

text \<open>
  The nodes visited by \<^verbatim>\<open>list_for_each\<close>, at most as many as the fuel: \<open>pos\<close> is the loop variable.
\<close>

fun visited :: "nat \<Rightarrow> 'a links \<Rightarrow> 'a \<Rightarrow> 'a option \<Rightarrow> 'a list run" where
  "visited 0 h head pos = Inl Spins"
| "visited (Suc fuel) h head pos =
     (if pos = Some head then Inr []
      else andThen (deref pos) (\<lambda>a. andThen (visited fuel h head (next h a)) (\<lambda>as. Inr (a # as))))"

definition list_for_each :: "nat \<Rightarrow> 'a links \<Rightarrow> 'a \<Rightarrow> 'a list run" where
  "list_for_each fuel h head = visited fuel h head (next h head)"

section \<open>The list of nodes\<close>

fun linked :: "'a links \<Rightarrow> 'a list \<Rightarrow> bool" where
  "linked h (x # y # zs) \<longleftrightarrow> next h x = Some y \<and> prev h y = Some x \<and> linked h (y # zs)"
| "linked h _ \<longleftrightarrow> True"

definition dlist :: "'a links \<Rightarrow> 'a \<Rightarrow> 'a list \<Rightarrow> bool" where
  "dlist h head xs \<longleftrightarrow> distinct (head # xs) \<and> linked h (head # xs @ [head])"

lemma linked_Cons: "linked h (x # ys) \<longleftrightarrow> ys = [] \<or> next h x = Some (hd ys) \<and> prev h (hd ys) = Some x \<and> linked h ys"
  by (cases ys) auto

lemma linked_append: "linked h (xs @ y # zs) \<longleftrightarrow> linked h (xs @ [y]) \<and> linked h (y # zs)"
proof (induction xs)
  case (Cons x xs)
  then show ?case by (cases xs) auto
qed simp

lemma linked_frame:
  assumes "\<And>a. a \<in> set (butlast xs) \<Longrightarrow> next h' a = next h a"
    and "\<And>a. a \<in> set (tl xs) \<Longrightarrow> prev h' a = prev h a"
  shows "linked h' xs \<longleftrightarrow> linked h xs"
  using assms
proof (induction h xs rule: linked.induct)
  case (1 h x y zs)
  then show ?case by (cases zs) auto
qed auto

lemma dlist_ends:
  assumes "dlist h head xs"
  shows "next h head = Some (hd (xs @ [head]))" "prev h head = Some (last (head # xs))"
proof -
  show "next h head = Some (hd (xs @ [head]))"
    using assms by (cases xs) (auto simp: dlist_def)
  have "linked h (butlast (head # xs) @ last (head # xs) # [head])"
    using assms append_butlast_last_id[of "head # xs"] unfolding dlist_def
    by (metis append.assoc append_Cons append_Nil list.distinct(1))
  then show "prev h head = Some (last (head # xs))"
    by (subst (asm) linked_append) simp
qed

lemma dlist_frame:
  assumes "dlist h head xs" "\<And>a. a \<in> set (head # xs) \<Longrightarrow> next h' a = next h a \<and> prev h' a = prev h a"
  shows "dlist h' head xs"
  using assms linked_frame[of "head # xs @ [head]" h' h] unfolding dlist_def
  by (auto simp: butlast_append)

text \<open>
  The ring split between the neighbours \<open>b\<close> and \<open>a\<close> of a position, with the facts that keep the two
  halves apart.
\<close>

lemma ring_split:
  assumes "distinct (head # as @ bs)"
  obtains ps b a qs where "head # as = ps @ [b]" "bs @ [head] = a # qs" "b = last (head # as)" "a = hd (bs @ [head])"
    "b \<notin> set ps" "b \<notin> set (butlast (a # qs))" "a \<notin> set qs" "a \<notin> set (tl (ps @ [b]))"
    "set (ps @ [b]) = set (head # as)" "set (a # qs) = set (head # bs)"
proof -
  obtain ps b where p: "head # as = ps @ [b]" by (metis list.distinct(1) rev_exhaust)
  obtain a qs where q: "bs @ [head] = a # qs" by (metis append_is_Nil_conv list.distinct(1) neq_Nil_conv)
  have pb: "butlast (a # qs) = bs" "tl (ps @ [b]) = as"
    by (simp_all flip: p q)
  have mem: "b \<in> set (head # as)" "a \<in> set (bs @ [head])" unfolding p q by simp_all
  show thesis
  proof (rule that[OF p q])
    show "b = last (head # as)" "a = hd (bs @ [head])" unfolding p q by simp_all
    have "distinct (ps @ [b])" "distinct (a # qs)" using assms by (simp_all flip: p q)
    then show "b \<notin> set ps" "a \<notin> set qs" by simp_all
    show "b \<notin> set (butlast (a # qs))" "a \<notin> set (tl (ps @ [b]))"
      unfolding pb using mem assms by auto
    show "set (ps @ [b]) = set (head # as)" "set (a # qs) = set (head # bs)"
      by (simp_all flip: p q)
  qed
qed

text \<open>Insertion between neighbours, and removal, anywhere in the list.\<close>

lemma list_add_between_dlist:
  assumes d: "dlist h head (as @ bs)" and new: "new \<notin> set (head # as @ bs)"
  obtains h' where "list_add_between h new (Some (last (head # as))) (Some (hd (bs @ [head]))) = Inr h'"
    "dlist h' head (as @ new # bs)"
    "\<And>x. x \<notin> set (new # head # as @ bs) \<Longrightarrow> next h' x = next h x \<and> prev h' x = prev h x"
proof -
  have dis: "distinct (head # as @ bs)" using d by (simp add: dlist_def)
  obtain ps b a qs where r: "head # as = ps @ [b]" "bs @ [head] = a # qs" "b = last (head # as)" "a = hd (bs @ [head])"
    "b \<notin> set ps" "b \<notin> set (butlast (a # qs))" "a \<notin> set qs" "a \<notin> set (tl (ps @ [b]))"
    "set (ps @ [b]) = set (head # as)" "set (a # qs) = set (head # bs)"
    using ring_split[OF dis] .
  let ?h = "set_prev (set_next (set_prev (set_next h new (Some a)) new (Some b)) b (Some new)) a (Some new)"
  have "(head # as) @ bs @ [head] = ps @ b # a # qs" unfolding r(1) r(2) by simp
  then have lk: "linked h (ps @ [b])" "linked h (a # qs)"
    using d linked_append[of h ps b "a # qs"] by (auto simp: dlist_def)
  have n: "new \<notin> set (ps @ [b])" "new \<notin> set (a # qs)" using new r(9,10) by auto
  have "linked ?h (ps @ [b])"
    by (rule linked_frame[THEN iffD2, OF _ _ lk(1)]) (use r(5-8) n in \<open>auto dest: list.set_sel(2)[rotated]\<close>)
  moreover have "linked ?h (a # qs)"
    by (rule linked_frame[THEN iffD2, OF _ _ lk(2)]) (use r(5-8) n in \<open>auto dest: in_set_butlastD split: if_splits\<close>)
  ultimately have "linked ?h (ps @ b # new # a # qs)"
    using n by (subst linked_append) (auto simp: linked_Cons)
  moreover have "(head # as) @ new # bs @ [head] = ps @ b # new # a # qs" unfolding r(1) r(2) by simp
  ultimately have "dlist ?h head (as @ new # bs)"
    using dis new by (auto simp: dlist_def)
  moreover have "list_add_between h new (Some b) (Some a) = Inr ?h"
    by (simp add: list_add_between_def)
  moreover have "next ?h x = next h x \<and> prev ?h x = prev h x" if "x \<notin> set (new # head # as @ bs)" for x
    using that r(9,10) by auto
  ultimately show thesis using that r(3,4) by blast
qed

lemma list_remove_entry_dlist:
  assumes d: "dlist h head (as @ e # bs)"
  obtains h' where "list_remove_entry h (Some e) = Inr h'" "dlist h' head (as @ bs)"
    "next h' e = None" "prev h' e = None"
    "\<And>x. x \<notin> set (head # as @ e # bs) \<Longrightarrow> next h' x = next h x \<and> prev h' x = prev h x"
proof -
  have dis: "distinct (head # as @ bs)" and e: "e \<notin> set (head # as @ bs)" using d by (auto simp: dlist_def)
  obtain ps b a qs where r: "head # as = ps @ [b]" "bs @ [head] = a # qs" "b = last (head # as)" "a = hd (bs @ [head])"
    "b \<notin> set ps" "b \<notin> set (butlast (a # qs))" "a \<notin> set qs" "a \<notin> set (tl (ps @ [b]))"
    "set (ps @ [b]) = set (head # as)" "set (a # qs) = set (head # bs)"
    using ring_split[OF dis] .
  have "(head # as) @ e # bs @ [head] = ps @ b # e # a # qs" unfolding r(1) r(2) by simp
  then have lk: "linked h (ps @ [b])" "linked h (a # qs)" and pn: "prev h e = Some b" "next h e = Some a"
    using d linked_append[of h ps b "e # a # qs"] by (auto simp: dlist_def)
  let ?h = "set_next (set_prev (set_prev (set_next h b (Some a)) a (Some b)) e None) e None"
  have n: "e \<notin> set (ps @ [b])" "e \<notin> set (a # qs)" using e r(9,10) by auto
  have "linked ?h (ps @ [b])"
    by (rule linked_frame[THEN iffD2, OF _ _ lk(1)]) (use r(5-8) n in \<open>auto dest: list.set_sel(2)[rotated]\<close>)
  moreover have "linked ?h (a # qs)"
    by (rule linked_frame[THEN iffD2, OF _ _ lk(2)]) (use r(5-8) n in \<open>auto dest: in_set_butlastD split: if_splits\<close>)
  ultimately have "linked ?h (ps @ b # a # qs)"
    using n by (subst linked_append) (auto simp: linked_Cons)
  moreover have "(head # as) @ bs @ [head] = ps @ b # a # qs" unfolding r(1) r(2) by simp
  ultimately have "dlist ?h head (as @ bs)" using dis by (simp add: dlist_def)
  moreover have "list_remove_entry h (Some e) = Inr ?h"
    by (simp add: list_remove_entry_def list_unlink_def pn)
  moreover have "next ?h x = next h x \<and> prev ?h x = prev h x" if "x \<notin> set (head # as @ e # bs)" for x
    using that r(9,10) by auto
  ultimately show thesis using that by simp
qed

lemma INIT_LIST_HEAD_dlist: "dlist (INIT_LIST_HEAD h head) head []"
  by (simp add: dlist_def INIT_LIST_HEAD_def)

lemma list_add_tail_dlist:
  assumes "dlist h head xs" "new \<notin> set (head # xs)"
  obtains h' where "list_add_tail h head new = Inr h'" "dlist h' head (xs @ [new])"
    "\<And>x. x \<notin> set (new # head # xs) \<Longrightarrow> next h' x = next h x \<and> prev h' x = prev h x"
  using list_add_between_dlist[of h head xs "[]" new] assms dlist_ends(2)[OF assms(1)]
  by (auto simp: list_add_tail_def)

lemma list_add_head_dlist:
  assumes "dlist h head xs" "new \<notin> set (head # xs)"
  obtains h' where "list_add_head h head new = Inr h'" "dlist h' head (new # xs)"
    "\<And>x. x \<notin> set (new # head # xs) \<Longrightarrow> next h' x = next h x \<and> prev h' x = prev h x"
  using list_add_between_dlist[of h head "[]" xs new] assms dlist_ends(1)[OF assms(1)]
  by (auto simp: list_add_head_def)

lemma list_remove_head_dlist:
  assumes "dlist h head (x # xs)"
  obtains h' where "list_remove_head h head = Inr h'" "dlist h' head xs" "next h' x = None" "prev h' x = None"
    "\<And>y. y \<notin> set (head # x # xs) \<Longrightarrow> next h' y = next h y \<and> prev h' y = prev h y"
  using list_remove_entry_dlist[of h head "[]" x xs] assms dlist_ends(1)[OF assms]
  by (auto simp: list_remove_head_def)

lemma list_remove_tail_dlist:
  assumes "dlist h head (xs @ [x])"
  obtains h' where "list_remove_tail h head = Inr h'" "dlist h' head xs"
  using list_remove_entry_dlist[of h head xs x "[]"] assms dlist_ends(2)[OF assms]
  by (auto simp: list_remove_tail_def)

lemma is_list_empty_dlist: "dlist h head xs \<Longrightarrow> is_list_empty h head \<longleftrightarrow> xs = []"
  by (cases xs) (auto simp: is_list_empty_def dlist_def)

lemma list_first_dlist:
  "dlist h head xs \<Longrightarrow> list_first_entry_nullable h head = (if xs = [] then None else Some (hd xs))"
  by (cases xs) (auto simp: list_first_entry_nullable_def dlist_def)

lemma list_last_dlist:
  assumes "dlist h head xs"
  shows "list_last_entry_nullable h head = (if xs = [] then None else Some (last xs))"
  using assms dlist_ends(2)[OF assms] last_in_set[of xs]
  by (auto simp: list_last_entry_nullable_def dlist_def split: if_splits)

text \<open>Removal of the head node itself on an empty list: the head is unlinked and its pointers are null.\<close>

lemma list_remove_head_empty:
  assumes "dlist h head []"
  shows "\<exists>h'. list_remove_head h head = Inr h' \<and> next h' head = None \<and> prev h' head = None"
  using assms by (simp add: dlist_def list_remove_head_def list_remove_entry_def list_unlink_def)

lemma visited_linked:
  "linked h (a # bs @ [head]) \<Longrightarrow> head \<notin> set bs \<Longrightarrow> length bs < fuel \<Longrightarrow>
   visited fuel h head (next h a) = Inr bs"
proof (induction bs arbitrary: a fuel)
  case Nil
  then show ?case by (cases fuel) auto
next
  case (Cons b bs)
  then show ?case by (cases fuel) auto
qed

section \<open>Queues of nodes\<close>

text \<open>
  What users of a queue of nodes rely on: \<open>holds h q xs\<close> relates a store to the nodes of the queue with
  head \<open>q\<close>; insertion at the end and removal at the front act on the list of nodes and leave the queues
  alone that share no node.
\<close>

locale node_queue =
  fixes holds :: "'h \<Rightarrow> 'a \<Rightarrow> 'a list \<Rightarrow> bool"
    and enq :: "'h \<Rightarrow> 'a \<Rightarrow> 'a \<Rightarrow> 'h run"
    and front :: "'h \<Rightarrow> 'a \<Rightarrow> 'a option"
    and deq :: "'h \<Rightarrow> 'a \<Rightarrow> 'h run"
  assumes holds_distinct: "holds h q xs \<Longrightarrow> distinct (q # xs)"
    and enq_holds: "holds h q xs \<Longrightarrow> a \<notin> set (q # xs) \<Longrightarrow>
      \<exists>h'. enq h q a = Inr h' \<and> holds h' q (xs @ [a])
        \<and> (\<forall>p ys. holds h p ys \<and> set (p # ys) \<inter> set (a # q # xs) = {} \<longrightarrow> holds h' p ys)"
    and front_holds: "holds h q xs \<Longrightarrow> front h q = (if xs = [] then None else Some (hd xs))"
    and deq_holds: "holds h q (x # xs) \<Longrightarrow>
      \<exists>h'. deq h q = Inr h' \<and> holds h' q xs
        \<and> (\<forall>p ys. holds h p ys \<and> set (p # ys) \<inter> set (q # x # xs) = {} \<longrightarrow> holds h' p ys)"
begin

text \<open>A system of queues that share no node.\<close>

definition queues :: "'h \<Rightarrow> ('a \<Rightarrow> 'a list option) \<Rightarrow> bool" where
  "queues h Q \<longleftrightarrow> (\<forall>q xs. Q q = Some xs \<longrightarrow> holds h q xs)
     \<and> (\<forall>p q xs ys. Q p = Some xs \<and> Q q = Some ys \<and> p \<noteq> q \<longrightarrow> set (p # xs) \<inter> set (q # ys) = {})"

definition fresh :: "('a \<Rightarrow> 'a list option) \<Rightarrow> 'a \<Rightarrow> bool" where
  "fresh Q a \<longleftrightarrow> (\<forall>q xs. Q q = Some xs \<longrightarrow> a \<notin> set (q # xs))"

lemma queues_holds: "queues h Q \<Longrightarrow> Q q = Some xs \<Longrightarrow> holds h q xs"
  by (simp add: queues_def)

lemma queues_disjoint: "queues h Q \<Longrightarrow> Q p = Some xs \<Longrightarrow> Q q = Some ys \<Longrightarrow> p \<noteq> q \<Longrightarrow> set (p # xs) \<inter> set (q # ys) = {}"
  unfolding queues_def by blast

lemma queues_update:
  assumes "queues h Q" "Q q = Some xs" "holds h' q xs'" "set xs' \<subseteq> S \<union> set xs" "\<And>a. a \<in> S \<Longrightarrow> fresh Q a"
    and keep: "\<And>p ys. holds h p ys \<Longrightarrow> set (p # ys) \<inter> (S \<union> set (q # xs)) = {} \<Longrightarrow> holds h' p ys"
  shows "queues h' (Q(q \<mapsto> xs'))"
proof -
  have disj: "set (p # ys) \<inter> (S \<union> set (q # xs)) = {}" if "Q p = Some ys" "p \<noteq> q" for p ys
    using queues_disjoint[OF assms(1) that(1) assms(2) that(2)] assms(5) that(1) unfolding fresh_def by blast
  have "holds h' p ys" if "Q p = Some ys" "p \<noteq> q" for p ys
    using keep[OF queues_holds[OF assms(1) that(1)] disj[OF that]] .
  moreover have "set (p # ys) \<inter> set (q # xs') = {}" if "Q p = Some ys" "p \<noteq> q" for p ys
    using disj[OF that] assms(4) by auto
  ultimately show ?thesis
    using assms(3) queues_disjoint[OF assms(1)] unfolding queues_def
    by (auto split: if_splits; blast)
qed

lemma queues_enq:
  assumes "queues h Q" "Q q = Some xs" "fresh Q a"
  obtains h' where "enq h q a = Inr h'" "queues h' (Q(q \<mapsto> xs @ [a]))"
proof -
  have a: "a \<notin> set (q # xs)" using assms(2,3) unfolding fresh_def by blast
  from enq_holds[OF queues_holds[OF assms(1,2)] a] obtain h' where h: "enq h q a = Inr h'" "holds h' q (xs @ [a])"
    "\<And>p ys. holds h p ys \<Longrightarrow> set (p # ys) \<inter> set (a # q # xs) = {} \<Longrightarrow> holds h' p ys" by blast
  have "queues h' (Q(q \<mapsto> xs @ [a]))"
    by (rule queues_update[OF assms(1,2) h(2), where S = "{a}"]) (use assms(3) h(3) in auto)
  with h(1) show thesis by (rule that)
qed

lemma queues_deq:
  assumes "queues h Q" "Q q = Some (x # xs)"
  obtains h' where "front h q = Some x" "deq h q = Inr h'" "queues h' (Q(q \<mapsto> xs))" "fresh (Q(q \<mapsto> xs)) x"
proof -
  note hq = queues_holds[OF assms]
  from deq_holds[OF hq] obtain h' where h: "deq h q = Inr h'" "holds h' q xs"
    "\<And>p ys. holds h p ys \<Longrightarrow> set (p # ys) \<inter> set (q # x # xs) = {} \<Longrightarrow> holds h' p ys" by blast
  have "queues h' (Q(q \<mapsto> xs))"
    by (rule queues_update[OF assms h(2), where S = "{}"]) (use h(3) in auto)
  moreover have "fresh (Q(q \<mapsto> xs)) x"
    using holds_distinct[OF hq] queues_disjoint[OF assms(1) assms(2)] unfolding fresh_def by (auto split: if_splits)
  ultimately show thesis using that h(1) front_holds[OF hq] by simp
qed

lemma queues_front_empty: "queues h Q \<Longrightarrow> Q q = Some [] \<Longrightarrow> front h q = None"
  using front_holds[OF queues_holds] by simp

lemma fresh_enq: "fresh Q b \<Longrightarrow> b \<noteq> a \<Longrightarrow> Q q = Some xs \<Longrightarrow> fresh (Q(q \<mapsto> xs @ [a])) b"
  unfolding fresh_def by (auto split: if_splits)

end

lemma dlist_frameI:
  assumes "\<And>x. x \<notin> S \<Longrightarrow> next h' x = next h x \<and> prev h' x = prev h x"
    "dlist h p ys" "set (p # ys) \<inter> S = {}"
  shows "dlist h' p ys"
  by (rule dlist_frame[OF assms(2)]) (use assms in blast)

interpretation nodes: node_queue dlist list_add_tail list_first_entry_nullable list_remove_head
proof
  fix h :: "'a links" and q a x :: 'a and xs :: "'a list"
  show "distinct (q # xs)" if "dlist h q xs" using that by (simp add: dlist_def)
  show "list_first_entry_nullable h q = (if xs = [] then None else Some (hd xs))" if "dlist h q xs"
    using list_first_dlist[OF that] .
  show "\<exists>h'. list_add_tail h q a = Inr h' \<and> dlist h' q (xs @ [a])
      \<and> (\<forall>p ys. dlist h p ys \<and> set (p # ys) \<inter> set (a # q # xs) = {} \<longrightarrow> dlist h' p ys)"
    if "dlist h q xs" "a \<notin> set (q # xs)"
    by (rule list_add_tail_dlist[OF that]) (blast intro: dlist_frameI)
  show "\<exists>h'. list_remove_head h q = Inr h' \<and> dlist h' q xs
      \<and> (\<forall>p ys. dlist h p ys \<and> set (p # ys) \<inter> set (q # x # xs) = {} \<longrightarrow> dlist h' p ys)"
    if "dlist h q (x # xs)"
    by (rule list_remove_head_dlist[OF that]) (blast intro: dlist_frameI)
qed

section \<open>Properties\<close>

text \<open>
  C17. The list operations implement the operations on the list of nodes: insertion at either end puts
  a new node there, removal of any entry takes exactly this entry out and clears its pointers, and the
  traversal macro visits the nodes in order and ends.
\<close>

theorem list_ops_refine:
  assumes "dlist h head (as @ e # bs)" "new \<notin> set (head # as @ e # bs)"
  shows "(\<exists>h'. list_add_tail h head new = Inr h' \<and> dlist h' head (as @ e # bs @ [new]))
    \<and> (\<exists>h'. list_add_head h head new = Inr h' \<and> dlist h' head (new # as @ e # bs))
    \<and> (\<exists>h'. list_remove_entry h (Some e) = Inr h' \<and> dlist h' head (as @ bs) \<and> next h' e = None \<and> prev h' e = None)
    \<and> list_for_each (length as + length bs + 2) h head = Inr (as @ e # bs)"
proof (intro conjI)
  show "\<exists>h'. list_add_tail h head new = Inr h' \<and> dlist h' head (as @ e # bs @ [new])"
    by (rule list_add_tail_dlist[OF assms]) auto
  show "\<exists>h'. list_add_head h head new = Inr h' \<and> dlist h' head (new # as @ e # bs)"
    by (rule list_add_head_dlist[OF assms]) auto
  show "\<exists>h'. list_remove_entry h (Some e) = Inr h' \<and> dlist h' head (as @ bs) \<and> next h' e = None \<and> prev h' e = None"
    by (rule list_remove_entry_dlist[OF assms(1)]) auto
  show "list_for_each (length as + length bs + 2) h head = Inr (as @ e # bs)"
    unfolding list_for_each_def by (rule visited_linked) (use assms(1) in \<open>auto simp: dlist_def\<close>)
qed

text \<open>A list of three nodes behind the head 0, for a concrete instance.\<close>

definition sample_links :: "nat links" where
  "sample_links = \<lparr>prev = [0 \<mapsto> 3, 1 \<mapsto> 0, 2 \<mapsto> 1, 3 \<mapsto> 2], next = [0 \<mapsto> 1, 1 \<mapsto> 2, 2 \<mapsto> 3, 3 \<mapsto> 0]\<rparr>"

theorem list_ops_refine_witness:
  "\<exists>h'. list_remove_entry sample_links (Some 2) = Inr h' \<and> dlist h' 0 [1, 3] \<and> next h' 2 = None \<and> prev h' 2 = None"
  using list_ops_refine[of sample_links 0 "[1]" 2 "[3]" 4] by (simp add: dlist_def sample_links_def)

end
