(* ===== verification/Cpu_Topology.thy ===== *)
theory Cpu_Topology
  imports HyvPrelude
begin

text \<open>
  Logical processor numbers: the map between local APIC ids and cpu ids of \<^verbatim>\<open>arch/x64/vmm.c\<close>, the
  masks of present and online processors of \<^verbatim>\<open>include/cpu_topology.h\<close>, and the registration of the
  processors reported by the boot loader in \<^verbatim>\<open>arch/x64/setup.c\<close>.
\<close>

type_synonym cpuid = u32
type_synonym lapicid = u32

definition INVALID_CPUID :: cpuid where
  "INVALID_CPUID = NOT 0"

definition INVALID_LAPIC_ID :: lapicid where
  "INVALID_LAPIC_ID = NOT 0"

definition MAX_CPUS :: nat where
  "MAX_CPUS = 64"

definition CPUMASK_LEN :: u32 where
  "CPUMASK_LEN = 32"

section \<open>Processor masks\<close>

function mask_loop :: "u32 \<Rightarrow> cpuid \<Rightarrow> u32 \<Rightarrow> cpuid" where
  "mask_loop cpus offset idx =
     (if offset + idx < CPUMASK_LEN then
        if cpus AND push_bit (unat (offset + idx)) 1 \<noteq> 0 then offset + idx
        else mask_loop cpus offset (idx + 1)
      else INVALID_CPUID)"
  by auto

lemma unat_suc_below: "x < (32 :: u32) \<Longrightarrow> unat (x + 1) = unat x + 1"
  by (simp add: word_less_nat_alt unat_word_ariths(1))

termination mask_loop
  by (relation "measure (\<lambda>(_, offset, idx). 32 - unat (offset + idx))")
     (auto simp: CPUMASK_LEN_def unat_suc_below word_less_nat_alt simp flip: add.assoc)

declare mask_loop.simps [simp del]

definition get_next_cpuid_in_mask :: "u32 \<Rightarrow> cpuid \<Rightarrow> cpuid" where
  "get_next_cpuid_in_mask cpus offset = mask_loop cpus offset 0"

text \<open>The ids visited by \<^verbatim>\<open>for_each_cpuid_in_mask\<close> from the loop variable \<open>i\<close> on.\<close>

lemma mask_loop_result:
  "mask_loop cpus offset idx = INVALID_CPUID \<or>
   offset + idx \<le> mask_loop cpus offset idx \<and> mask_loop cpus offset idx < 32 \<and> bit cpus (unat (mask_loop cpus offset idx))"
proof (induction cpus offset idx rule: mask_loop.induct)
  case (1 cpus offset idx)
  have le: "offset + idx \<le> offset + (idx + 1)" if "offset + idx < 32"
    using unat_suc_below[OF that] by (simp add: word_le_nat_alt flip: add.assoc)
  have bit_iff: "cpus AND push_bit (unat (offset + idx)) 1 \<noteq> 0 \<longleftrightarrow> bit cpus (unat (offset + idx))"
    by (simp add: bit_iff_and_push_bit_not_eq_0)
  show ?case
    using 1 le unfolding mask_loop.simps[of cpus offset idx] bit_iff CPUMASK_LEN_def
    by (auto intro: order_trans)
qed

lemma INVALID_not_below [simp]: "\<not> INVALID_CPUID < 32"
  by (simp add: INVALID_CPUID_def)

function ids_loop :: "u32 \<Rightarrow> cpuid \<Rightarrow> cpuid list" where
  "ids_loop cpus i = (if i = INVALID_CPUID then [] else i # ids_loop cpus (get_next_cpuid_in_mask cpus (i + 1)))"
  by auto

lemma next_greater:
  assumes "i \<noteq> INVALID_CPUID" "get_next_cpuid_in_mask cpus (i + 1) \<noteq> INVALID_CPUID"
  shows "unat i < unat (get_next_cpuid_in_mask cpus (i + 1))"
proof -
  have "i + 1 \<noteq> 0" using assms(1) unfolding INVALID_CPUID_def by (metis add_eq_0_iff2 word_not_simps(1) bit.compl_zero)
  then have "unat (i + 1) = unat i + 1" by (simp add: unatSuc add.commute)
  then show ?thesis
    using assms(2) mask_loop_result[of cpus "i + 1" 0] unfolding get_next_cpuid_in_mask_def
    by (auto simp: word_le_nat_alt)
qed

termination ids_loop
proof (relation "measure (\<lambda>(cpus, i). if i = INVALID_CPUID then 0 else 2 ^ 32 - unat i)")
  fix cpus i :: u32
  assume "i \<noteq> INVALID_CPUID"
  then show "((cpus, get_next_cpuid_in_mask cpus (i + 1)), cpus, i)
      \<in> measure (\<lambda>(cpus, i). if i = INVALID_CPUID then 0 else 2 ^ 32 - unat i)"
    using next_greater[of i cpus] unsigned_less[of "get_next_cpuid_in_mask cpus (i + 1)", where 'a = nat] unsigned_less[of i, where 'a = nat] by auto
qed simp

declare ids_loop.simps [simp del]

definition for_each_cpuid_in_mask :: "u32 \<Rightarrow> cpuid list" where
  "for_each_cpuid_in_mask cpus = ids_loop cpus (get_next_cpuid_in_mask cpus 0)"

definition SET_BIT :: "u32 \<Rightarrow> u32 \<Rightarrow> u32 run" where
  "SET_BIT val bit_pos = (if unat bit_pos < 32 then Inr (val OR push_bit (unat bit_pos) 1) else Inl Undefined)"

section \<open>Processor numbers\<close>

text \<open>
  The static variables of \<^verbatim>\<open>vmm.c\<close>: the counter, the array of pairs of cpu id and local APIC id, and
  the array of local APIC ids by cpu id.
\<close>

record cpu_ids =
  cpuid_counter :: cpuid
  cpuid_lapic_id_pairs :: "(cpuid \<times> lapicid) list"
  cpuid_to_lapic_id_map :: "lapicid list"

definition init_cpu_ids :: cpu_ids where
  "init_cpu_ids = \<lparr>cpuid_counter = 0,
     cpuid_lapic_id_pairs = replicate MAX_CPUS (INVALID_CPUID, INVALID_LAPIC_ID),
     cpuid_to_lapic_id_map = replicate MAX_CPUS INVALID_LAPIC_ID\<rparr>"

definition cpuid_to_lapic_id :: "cpu_ids \<Rightarrow> cpuid \<Rightarrow> lapicid run" where
  "cpuid_to_lapic_id s cpuid = at (cpuid_to_lapic_id_map s) (unat cpuid)"

text \<open>\<open>pairs\<close> are the entries from index \<open>i\<close> on.\<close>

fun pairs_loop :: "cpu_ids \<Rightarrow> lapicid \<Rightarrow> bool \<Rightarrow> nat \<Rightarrow> (cpuid \<times> lapicid) list \<Rightarrow> (cpuid \<times> cpu_ids) run" where
  "pairs_loop s lapic_id create_if_missing i [] = Inr (INVALID_CPUID, s)"
| "pairs_loop s lapic_id create_if_missing i ((entry_cpuid, entry_lapic_id) # pairs) =
     (if entry_lapic_id = lapic_id then Inr (entry_cpuid, s)
      else if entry_lapic_id = INVALID_LAPIC_ID then
        if \<not> create_if_missing then Inr (INVALID_CPUID, s)
        else
          (let new = cpuid_counter s in
           andThen (put (cpuid_to_lapic_id_map s) (unat new) lapic_id) (\<lambda>lapics.
             Inr (new, s\<lparr>cpuid_counter := new + 1,
                         cpuid_lapic_id_pairs := (cpuid_lapic_id_pairs s)[i := (new, lapic_id)],
                         cpuid_to_lapic_id_map := lapics\<rparr>)))
      else pairs_loop s lapic_id create_if_missing (i + 1) pairs)"

definition get_cpuid_for_lapic_id :: "cpu_ids \<Rightarrow> lapicid \<Rightarrow> (cpuid \<times> cpu_ids) run" where
  "get_cpuid_for_lapic_id s lapic_id = pairs_loop s lapic_id True 0 (cpuid_lapic_id_pairs s)"

definition lapic_id_to_cpuid :: "cpu_ids \<Rightarrow> lapicid \<Rightarrow> cpuid run" where
  "lapic_id_to_cpuid s lapic_id =
     andThen (pairs_loop s lapic_id False 0 (cpuid_lapic_id_pairs s)) (\<lambda>(c, _). Inr c)"

text \<open>\<^verbatim>\<open>get_current_cpuid\<close> with the value of the local APIC id register as an argument.\<close>

definition get_current_cpuid :: "cpu_ids \<Rightarrow> lapicid \<Rightarrow> cpuid run" where
  "get_current_cpuid s lapic_id = lapic_id_to_cpuid s lapic_id"

section \<open>Registration of the processors\<close>

datatype cpu_state = CPU_NOT_INIT | CPU_INIT | CPU_IDLE | CPU_UNAVAILABLE

record cpu =
  cpu_id :: cpuid
  lapic_id :: lapicid
  bsp :: bool
  state :: cpu_state

definition INIT_CPU :: cpu where
  "INIT_CPU = \<lparr>cpu_id = INVALID_CPUID, lapic_id = INVALID_LAPIC_ID, bsp = False, state = CPU_NOT_INIT\<rparr>"

record topology =
  ids :: cpu_ids
  percpu_cpu :: "cpu list"
  cpumask_present :: u32
  cpumask :: u32

definition init_topology :: topology where
  "init_topology = \<lparr>ids = init_cpu_ids, percpu_cpu = replicate MAX_CPUS INIT_CPU, cpumask_present = 0, cpumask = 0\<rparr>"

definition topology_register_cpu :: "topology \<Rightarrow> lapicid \<Rightarrow> bool \<Rightarrow> topology run" where
  "topology_register_cpu t lapic is_bsp =
     andThen (get_cpuid_for_lapic_id (ids t) lapic) (\<lambda>(cpuid, s).
       let t = t\<lparr>ids := s\<rparr> in
       if cpuid = INVALID_CPUID then Inr t
       else andThen (at (percpu_cpu t) (unat cpuid)) (\<lambda>c.
         andThen (put (percpu_cpu t) (unat cpuid) (c\<lparr>cpu_id := cpuid, lapic_id := lapic, bsp := is_bsp\<rparr>)) (\<lambda>cs.
         andThen (SET_BIT (cpumask_present t) cpuid) (\<lambda>m.
           Inr (t\<lparr>percpu_cpu := cs, cpumask_present := m\<rparr>)))))"

fun register_cpus :: "topology \<Rightarrow> lapicid \<Rightarrow> lapicid list \<Rightarrow> topology run" where
  "register_cpus t bsp_lapic_id [] = Inr t"
| "register_cpus t bsp_lapic_id (l # ls) =
     (if l = bsp_lapic_id then register_cpus t bsp_lapic_id ls
      else andThen (topology_register_cpu t l False) (\<lambda>t. register_cpus t bsp_lapic_id ls))"

text \<open>The boot loader reports the id of the boot processor and the ids of all processors.\<close>

definition map_cpu_topology :: "topology \<Rightarrow> lapicid \<Rightarrow> lapicid list \<Rightarrow> topology run" where
  "map_cpu_topology t bsp_lapic_id cpus =
     andThen (topology_register_cpu t bsp_lapic_id True) (\<lambda>t. register_cpus t bsp_lapic_id cpus)"

definition register_cpu_online :: "topology \<Rightarrow> lapicid \<Rightarrow> topology run" where
  "register_cpu_online t lapic =
     andThen (get_current_cpuid (ids t) lapic) (\<lambda>cur.
     andThen (at (percpu_cpu t) (unat cur)) (\<lambda>c.
     andThen (put (percpu_cpu t) (unat cur) (c\<lparr>state := CPU_INIT\<rparr>)) (\<lambda>cs.
     andThen (SET_BIT (cpumask t) (cpu_id c)) (\<lambda>m.
       Inr (t\<lparr>percpu_cpu := cs, cpumask := m\<rparr>)))))"

section \<open>Lemmas on masks\<close>

lemma mask_loop_filter:
  "offset + idx = of_nat k \<Longrightarrow> k \<le> 32 \<Longrightarrow>
   mask_loop cpus offset idx = (case filter (bit cpus) [k..<32] of [] \<Rightarrow> INVALID_CPUID | j # js \<Rightarrow> of_nat j)"
proof (induction "32 - k" arbitrary: k idx)
  case 0
  then show ?case by (subst mask_loop.simps) (simp add: CPUMASK_LEN_def)
next
  case (Suc n)
  then have k: "k < 32" by simp
  then have u: "unat (offset + idx) = k" "offset + idx < 32"
    using Suc.prems(1) by (simp_all add: unat_of_nat word_less_nat_alt)
  have step: "offset + (idx + 1) = of_nat (Suc k)" using Suc.prems(1) by (simp add: algebra_simps)
  have "mask_loop cpus offset (idx + 1) = (case filter (bit cpus) [Suc k..<32] of [] \<Rightarrow> INVALID_CPUID | j # js \<Rightarrow> of_nat j)"
    by (rule Suc.hyps(1)[OF _ step]) (use Suc.hyps(2) k in auto)
  moreover have "cpus AND push_bit k 1 \<noteq> 0 \<longleftrightarrow> bit cpus k"
    by (simp add: bit_iff_and_push_bit_not_eq_0)
  ultimately show ?case
    using k u Suc.prems(1) by (subst mask_loop.simps) (simp add: CPUMASK_LEN_def upt_conv_Cons)
qed

lemma get_next_cpuid_filter:
  "k \<le> 32 \<Longrightarrow> get_next_cpuid_in_mask cpus (of_nat k) =
     (case filter (bit cpus) [k..<32] of [] \<Rightarrow> INVALID_CPUID | j # js \<Rightarrow> of_nat j)"
  unfolding get_next_cpuid_in_mask_def by (rule mask_loop_filter) simp_all

lemma of_nat_not_INVALID [simp]: "k \<le> 32 \<Longrightarrow> of_nat k \<noteq> INVALID_CPUID"
proof
  assume "k \<le> 32" "of_nat k = INVALID_CPUID"
  then have "unat (of_nat k :: u32) = unat INVALID_CPUID" "k < 2 ^ 32" by simp_all
  then show False using \<open>k \<le> 32\<close> by (simp add: INVALID_CPUID_def unat_of_nat unsigned_minus_1_eq_mask mask_eq_exp_minus_1)
qed

lemma ids_loop_filter:
  "k \<le> 32 \<Longrightarrow> ids_loop cpus (get_next_cpuid_in_mask cpus (of_nat k)) = map of_nat (filter (bit cpus) [k..<32])"
proof (induction "32 - k" arbitrary: k)
  case 0
  then show ?case using get_next_cpuid_filter[of 32 cpus] by (simp add: ids_loop.simps)
next
  case (Suc n)
  then have k: "k < 32" by simp
  have IH: "ids_loop cpus (get_next_cpuid_in_mask cpus (of_nat (Suc k))) = map of_nat (filter (bit cpus) [Suc k..<32])"
    by (rule Suc.hyps(1)) (use Suc.hyps(2) k in simp_all)
  show ?case
  proof (cases "bit cpus k")
    case True
    then have "get_next_cpuid_in_mask cpus (of_nat k) = of_nat k"
      using k by (simp add: get_next_cpuid_filter upt_conv_Cons)
    then show ?thesis
      using True k IH by (subst ids_loop.simps) (simp add: upt_conv_Cons add.commute)
  next
    case False
    then have "get_next_cpuid_in_mask cpus (of_nat k) = get_next_cpuid_in_mask cpus (of_nat (Suc k))"
      using k by (simp only: get_next_cpuid_filter upt_conv_Cons filter.simps if_False Suc_leI less_imp_le)
    then show ?thesis using False k IH by (simp add: upt_conv_Cons)
  qed
qed

lemma for_each_cpuid_filter: "for_each_cpuid_in_mask cpus = map of_nat (filter (bit cpus) [0..<32])"
  unfolding for_each_cpuid_in_mask_def using ids_loop_filter[of 0] by simp

section \<open>Lemmas on processor numbers\<close>

text \<open>The state after the local APIC ids \<open>ls\<close> have been registered, in this order.\<close>

definition id_pairs :: "nat \<Rightarrow> lapicid list \<Rightarrow> (cpuid \<times> lapicid) list" where
  "id_pairs i ls = zip (map of_nat [i..<i + length ls]) ls"

definition ids_ok :: "lapicid list \<Rightarrow> cpu_ids \<Rightarrow> bool" where
  "ids_ok ls s \<longleftrightarrow> distinct ls \<and> INVALID_LAPIC_ID \<notin> set ls \<and> length ls \<le> MAX_CPUS
     \<and> cpuid_counter s = of_nat (length ls)
     \<and> cpuid_lapic_id_pairs s = id_pairs 0 ls @ replicate (MAX_CPUS - length ls) (INVALID_CPUID, INVALID_LAPIC_ID)
     \<and> cpuid_to_lapic_id_map s = ls @ replicate (MAX_CPUS - length ls) INVALID_LAPIC_ID"

lemma id_pairs_Cons: "id_pairs i (l # ls) = (of_nat i, l) # id_pairs (Suc i) ls"
  by (simp add: id_pairs_def upt_conv_Cons del: upt_Suc)

lemma id_pairs_Nil [simp]: "id_pairs i [] = []"
  by (simp add: id_pairs_def)

lemma length_id_pairs [simp]: "length (id_pairs i ls) = length ls"
  by (simp add: id_pairs_def)

lemma id_pairs_snoc: "id_pairs i (ls @ [l]) = id_pairs i ls @ [(of_nat (i + length ls), l)]"
  by (induction ls arbitrary: i) (simp_all add: id_pairs_Cons)

lemma pairs_loop_found:
  "distinct ls \<Longrightarrow> INVALID_LAPIC_ID \<notin> set ls \<Longrightarrow> j < length ls \<Longrightarrow>
   pairs_loop s (ls ! j) create i (id_pairs i ls @ rest) = Inr (of_nat (i + j), s)"
proof (induction ls arbitrary: i j)
  case (Cons l ls)
  then show ?case by (cases j) (auto simp: id_pairs_Cons)
qed simp

lemma pairs_loop_missing:
  "l \<notin> set ls \<Longrightarrow> INVALID_LAPIC_ID \<notin> set ls \<Longrightarrow>
   pairs_loop s l create i (id_pairs i ls @ rest) = pairs_loop s l create (i + length ls) rest"
  by (induction ls arbitrary: i) (auto simp: id_pairs_Cons)

lemma ids_ok_init: "ids_ok [] init_cpu_ids"
  by (simp add: ids_ok_def init_cpu_ids_def)

lemma get_cpuid_known: "ids_ok ls s \<Longrightarrow> j < length ls \<Longrightarrow> get_cpuid_for_lapic_id s (ls ! j) = Inr (of_nat j, s)"
  using pairs_loop_found[of ls j s True 0] by (simp add: ids_ok_def get_cpuid_for_lapic_id_def)

lemma lapic_id_to_cpuid_known: "ids_ok ls s \<Longrightarrow> j < length ls \<Longrightarrow> lapic_id_to_cpuid s (ls ! j) = Inr (of_nat j)"
  using pairs_loop_found[of ls j s False 0] by (simp add: ids_ok_def lapic_id_to_cpuid_def)

lemma cpuid_to_lapic_id_known: "ids_ok ls s \<Longrightarrow> j < length ls \<Longrightarrow> cpuid_to_lapic_id s (of_nat j) = Inr (ls ! j)"
  by (simp add: ids_ok_def cpuid_to_lapic_id_def at_def unat_of_nat MAX_CPUS_def nth_append)

lemma get_cpuid_new:
  assumes ok: "ids_ok ls s" and l: "l \<notin> set ls" "l \<noteq> INVALID_LAPIC_ID" and room: "length ls < MAX_CPUS"
  obtains s' where "get_cpuid_for_lapic_id s l = Inr (of_nat (length ls), s')" "ids_ok (ls @ [l]) s'"
proof -
  let ?n = "length ls"
  obtain m where m: "MAX_CPUS - ?n = Suc m" using room by (metis Suc_diff_Suc)
  let ?s = "s\<lparr>cpuid_counter := of_nat ?n + 1, cpuid_lapic_id_pairs := (cpuid_lapic_id_pairs s)[?n := (of_nat ?n, l)],
    cpuid_to_lapic_id_map := (cpuid_to_lapic_id_map s)[?n := l]\<rparr>"
  have "unat (of_nat ?n :: u32) = ?n" using room by (simp add: unat_of_nat MAX_CPUS_def)
  then have "get_cpuid_for_lapic_id s l = Inr (of_nat ?n, ?s)"
    using ok l m pairs_loop_missing[of l ls s True 0] by (simp add: ids_ok_def get_cpuid_for_lapic_id_def Let_def)
  moreover have "ids_ok (ls @ [l]) ?s"
  proof -
    have "MAX_CPUS - Suc ?n = m" using m by simp
    then show ?thesis
      using ok l m room by (simp add: ids_ok_def id_pairs_snoc list_update_append)
  qed
  ultimately show thesis by (rule that)
qed

section \<open>Lemmas on the registration\<close>

lemma filter_less_upt: "n \<le> m \<Longrightarrow> filter (\<lambda>j. j < n) [0..<m] = [0..<n]"
  by (induction m) (auto simp: le_Suc_eq)

definition topology_ok :: "lapicid list \<Rightarrow> topology \<Rightarrow> bool" where
  "topology_ok ls t \<longleftrightarrow> ids_ok ls (ids t) \<and> length ls \<le> 32 \<and> length (percpu_cpu t) = MAX_CPUS
     \<and> (\<forall>j. bit (cpumask_present t) j \<longleftrightarrow> j < length ls)
     \<and> (\<forall>j < length ls. cpu_id (percpu_cpu t ! j) = of_nat j \<and> lapic_id (percpu_cpu t ! j) = ls ! j
          \<and> (bsp (percpu_cpu t ! j) \<longleftrightarrow> j = 0))"

lemma topology_ok_init: "topology_ok [] init_topology"
  by (simp add: topology_ok_def init_topology_def ids_ok_init)

lemma topology_register_cpu_ok:
  assumes ok: "topology_ok ls t" and l: "l \<notin> set ls" "l \<noteq> INVALID_LAPIC_ID" and room: "length ls < 32"
    and b: "b \<longleftrightarrow> ls = []"
  obtains t' where "topology_register_cpu t l b = Inr t'" "topology_ok (ls @ [l]) t'"
proof -
  let ?n = "length ls"
  have "ids_ok ls (ids t)" "?n < MAX_CPUS" using ok room by (simp_all add: topology_ok_def MAX_CPUS_def)
  then obtain s' where s': "get_cpuid_for_lapic_id (ids t) l = Inr (of_nat ?n, s')" "ids_ok (ls @ [l]) s'"
    using get_cpuid_new l by metis
  have u: "unat (of_nat ?n :: u32) = ?n" "of_nat ?n \<noteq> INVALID_CPUID" "?n < length (percpu_cpu t)"
    using room ok by (simp_all add: unat_of_nat topology_ok_def MAX_CPUS_def)
  let ?t = "t\<lparr>ids := s', percpu_cpu := (percpu_cpu t)[?n := (percpu_cpu t ! ?n)\<lparr>cpu_id := of_nat ?n, lapic_id := l, bsp := b\<rparr>],
    cpumask_present := cpumask_present t OR push_bit ?n 1\<rparr>"
  have "topology_register_cpu t l b = Inr ?t"
    using s'(1) u room by (simp add: topology_register_cpu_def SET_BIT_def Let_def)
  moreover have "topology_ok (ls @ [l]) ?t"
    using ok s'(2) room u b by (auto simp: topology_ok_def bit_simps nth_append nth_list_update less_Suc_eq)
  ultimately show thesis by (rule that)
qed

lemma register_cpus_ok:
  "topology_ok ls t \<Longrightarrow> ls \<noteq> [] \<Longrightarrow> b \<in> set ls \<Longrightarrow> distinct cpus \<Longrightarrow> INVALID_LAPIC_ID \<notin> set cpus \<Longrightarrow> set cpus \<inter> set ls \<subseteq> {b} \<Longrightarrow>
   length ls + length (filter (\<lambda>l. l \<noteq> b) cpus) \<le> 32 \<Longrightarrow>
   \<exists>t'. register_cpus t b cpus = Inr t' \<and> topology_ok (ls @ filter (\<lambda>l. l \<noteq> b) cpus) t'"
proof (induction cpus arbitrary: ls t)
  case (Cons c cpus)
  show ?case
  proof (cases "c = b")
    case True
    then show ?thesis using Cons by auto
  next
    case False
    then obtain t' where t': "topology_register_cpu t c False = Inr t'" "topology_ok (ls @ [c]) t'"
      using Cons.prems topology_register_cpu_ok[of ls t c False] by auto
    have "\<exists>t''. register_cpus t' b cpus = Inr t'' \<and> topology_ok ((ls @ [c]) @ filter (\<lambda>l. l \<noteq> b) cpus) t''"
      by (rule Cons.IH[OF t'(2)]) (use Cons.prems False in auto)
    then show ?thesis using t'(1) False by auto
  qed
qed simp

section \<open>Properties\<close>

text \<open>
  C30. The registration of the processors reported by the boot loader, at most 32 with distinct ids,
  gives the boot processor the id 0 and all others the following ids: the mask of present processors
  enumerates exactly these ids, and the two maps between cpu ids and local APIC ids are inverse to each
  other.
\<close>

theorem map_cpu_topology_bijection:
  assumes "distinct cpus" "b \<in> set cpus" "INVALID_LAPIC_ID \<notin> set cpus" "length cpus \<le> 32"
  shows "\<exists>t. map_cpu_topology init_topology b cpus = Inr t
    \<and> for_each_cpuid_in_mask (cpumask_present t) = map of_nat [0..<length cpus]
    \<and> lapic_id_to_cpuid (ids t) b = Inr 0
    \<and> (\<forall>l \<in> set cpus. \<exists>c. lapic_id_to_cpuid (ids t) l = Inr c \<and> c \<in> set (for_each_cpuid_in_mask (cpumask_present t))
         \<and> cpuid_to_lapic_id (ids t) c = Inr l)
    \<and> (\<forall>c \<in> set (for_each_cpuid_in_mask (cpumask_present t)). \<exists>l \<in> set cpus.
         cpuid_to_lapic_id (ids t) c = Inr l \<and> lapic_id_to_cpuid (ids t) l = Inr c)"
proof -
  let ?ls = "b # filter (\<lambda>l. l \<noteq> b) cpus"
  have perm: "set ?ls = set cpus" "distinct ?ls" using assms(1,2) by auto
  then have len: "length ?ls = length cpus" using assms(1) by (metis distinct_card)
  have "b \<noteq> INVALID_LAPIC_ID" using assms by auto
  then obtain t1 where t1: "topology_register_cpu init_topology b True = Inr t1" "topology_ok [b] t1"
    using topology_register_cpu_ok[OF topology_ok_init, of b True] by auto
  obtain t where t: "register_cpus t1 b cpus = Inr t" "topology_ok ?ls t"
    using register_cpus_ok[OF t1(2), of b cpus] assms len by auto
  have run: "map_cpu_topology init_topology b cpus = Inr t"
    using t1(1) t(1) by (simp add: map_cpu_topology_def)
  have ok: "ids_ok ?ls (ids t)" and bits: "\<And>j. bit (cpumask_present t) j \<longleftrightarrow> j < length cpus"
    using t(2) len unfolding topology_ok_def by simp_all
  have each: "for_each_cpuid_in_mask (cpumask_present t) = map of_nat [0..<length cpus]"
    unfolding for_each_cpuid_filter bits by (simp only: filter_less_upt[OF assms(4)])
  have idx: "\<exists>j < length cpus. l = ?ls ! j" if "l \<in> set cpus" for l
    using that perm(1) len by (metis in_set_conv_nth)
  have nth: "?ls ! j \<in> set cpus" if "j < length cpus" for j
    using that perm(1) len by (metis nth_mem)
  note known = lapic_id_to_cpuid_known[OF ok] cpuid_to_lapic_id_known[OF ok]
  show ?thesis
  proof (intro exI[of _ t] conjI ballI)
    show "lapic_id_to_cpuid (ids t) b = Inr 0" using known(1)[of 0] by simp
  next
    fix l assume "l \<in> set cpus"
    then obtain j where "j < length cpus" "l = ?ls ! j" using idx by blast
    then show "\<exists>c. lapic_id_to_cpuid (ids t) l = Inr c \<and> c \<in> set (for_each_cpuid_in_mask (cpumask_present t))
         \<and> cpuid_to_lapic_id (ids t) c = Inr l"
      using known[of j] len unfolding each by auto
  next
    fix c assume "c \<in> set (for_each_cpuid_in_mask (cpumask_present t))"
    then obtain j where "j < length cpus" "c = of_nat j" unfolding each by auto
    then show "\<exists>l \<in> set cpus. cpuid_to_lapic_id (ids t) c = Inr l \<and> lapic_id_to_cpuid (ids t) l = Inr c"
      using known[of j] len nth by auto
  qed (rule run each)+
qed

theorem map_cpu_topology_bijection_witness:
  "\<exists>t. map_cpu_topology init_topology 2 [0, 2, 4, 6] = Inr t
     \<and> for_each_cpuid_in_mask (cpumask_present t) = map of_nat [0..<4] \<and> lapic_id_to_cpuid (ids t) 2 = Inr 0"
proof -
  have "distinct [0, 2, 4, 6 :: lapicid]" "2 \<in> set [0, 2, 4, 6 :: lapicid]" "INVALID_LAPIC_ID \<notin> set [0, 2, 4, 6]"
    "length [0, 2, 4, 6 :: lapicid] = 4" "length [0, 2, 4, 6 :: lapicid] \<le> 32"
    by (simp_all add: INVALID_LAPIC_ID_def)
  then show ?thesis using map_cpu_topology_bijection[of "[0, 2, 4, 6]" 2] by metis
qed

text \<open>The thirty-third processor gets an id, but its bit is outside the mask of present processors.\<close>

lemma thirty_third_cpu:
  assumes "topology_ok ls t" "length ls = 32" "l \<notin> set ls" "l \<noteq> INVALID_LAPIC_ID"
  shows "topology_register_cpu t l False = Inl Undefined"
proof -
  have "ids_ok ls (ids t)" "length ls < MAX_CPUS" "length (percpu_cpu t) = 64"
    using assms by (simp_all add: topology_ok_def MAX_CPUS_def)
  moreover from this obtain s' where "get_cpuid_for_lapic_id (ids t) l = Inr (of_nat 32, s')"
    using get_cpuid_new assms(2-4) by metis
  ultimately show ?thesis
    using of_nat_not_INVALID[of 32] by (simp add: topology_register_cpu_def SET_BIT_def Let_def)
qed

end
