(* ===== verification/Sched.thy ===== *)
theory Sched
  imports List_Lib Cpu_Topology
begin

text \<open>
  The scheduler of \<^verbatim>\<open>sched.c\<close>: one queue of runnable and one of blocked tasks per processor, both
  intrusive lists of \<open>List_Lib\<close>, the turn of a processor (\<^verbatim>\<open>__schedule\<close>), and the distribution of the
  virtual processors of a VM over the online processors. Each section protected by a lock is one step;
  the code of a task is a parameter.
\<close>

section \<open>State\<close>

datatype task_sched_state = TASK_NOT_SCHEDULABLE | TASK_RUNNABLE | TASK_RUNNING | TASK_BLOCKED | TASK_KILLED

text \<open>
  Addresses of list nodes: the queue heads of a processor, the \<^verbatim>\<open>sched_queue\<close> field of a task, and the one
  of the static \<^verbatim>\<open>idle_task\<close>. A task is identified with its node (\<^verbatim>\<open>list_entry\<close>).
\<close>

datatype node = Runnable cpuid | Blocked cpuid | Task nat | Idle

text \<open>
  \<open>store\<close> holds the list nodes, \<open>task_state\<close> the states of the tasks, \<open>current\<close> and \<open>cpu_states\<close> the per-processor
  variables, \<open>kicks\<close> the processors that have been sent an inter-processor interrupt.
\<close>

record sched =
  store :: "node links"
  task_state :: "node \<Rightarrow> task_sched_state"
  current :: "cpuid \<Rightarrow> node option"
  cpu_states :: "cpuid \<Rightarrow> cpu_state"
  kicks :: "cpuid list"

section \<open>Operations\<close>

definition init_task_queue :: "sched \<Rightarrow> cpuid \<Rightarrow> sched" where
  "init_task_queue s c =
     s\<lparr>current := (current s)(c := None),
       store := INIT_LIST_HEAD (INIT_LIST_HEAD (store s) (Runnable c)) (Blocked c)\<rparr>"

definition init_task_queues :: "sched \<Rightarrow> u32 \<Rightarrow> sched" where
  "init_task_queues s present = foldl init_task_queue s (for_each_cpuid_in_mask present)"

definition set_task_state :: "sched \<Rightarrow> cpuid \<Rightarrow> task_sched_state \<Rightarrow> sched run" where
  "set_task_state s c st = andThen (deref (current s c)) (\<lambda>t. Inr (s\<lparr>task_state := (task_state s)(t := st)\<rparr>))"

definition tq_submit_blocked_task :: "sched \<Rightarrow> cpuid \<Rightarrow> node \<Rightarrow> sched run" where
  "tq_submit_blocked_task s c t = andThen (list_add_tail (store s) (Blocked c) t) (\<lambda>h. Inr (s\<lparr>store := h\<rparr>))"

definition tq_submit_runnable_task :: "sched \<Rightarrow> cpuid \<Rightarrow> node \<Rightarrow> sched run" where
  "tq_submit_runnable_task s c t = andThen (list_add_tail (store s) (Runnable c) t) (\<lambda>h. Inr (s\<lparr>store := h\<rparr>))"

definition tq_submit_task :: "sched \<Rightarrow> cpuid \<Rightarrow> node \<Rightarrow> sched run" where
  "tq_submit_task s c t =
     (case task_state s t of
        TASK_RUNNING \<Rightarrow> tq_submit_runnable_task s c t
      | TASK_RUNNABLE \<Rightarrow> tq_submit_runnable_task s c t
      | TASK_BLOCKED \<Rightarrow> tq_submit_blocked_task s c t
      | TASK_NOT_SCHEDULABLE \<Rightarrow> Inr s
      | TASK_KILLED \<Rightarrow> Inr s)"

definition tq_get_next_task :: "sched \<Rightarrow> cpuid \<Rightarrow> (node option \<times> sched) run" where
  "tq_get_next_task s c =
     (case list_first_entry_nullable (store s) (Runnable c) of
        None \<Rightarrow> Inr (None, s)
      | Some t \<Rightarrow> andThen (list_remove_head (store s) (Runnable c)) (\<lambda>h. Inr (Some t, s\<lparr>store := h\<rparr>)))"

text \<open>\<^verbatim>\<open>__schedule\<close> up to the launch of the task, and from its return on.\<close>

definition schedule_pick :: "sched \<Rightarrow> cpuid \<Rightarrow> (node \<times> sched) run" where
  "schedule_pick s c =
     andThen (tq_get_next_task s c) (\<lambda>(t, s).
       let (task, s) = (case t of
            None \<Rightarrow> (Idle, s\<lparr>cpu_states := (cpu_states s)(c := CPU_IDLE)\<rparr>)
          | Some t \<Rightarrow> (t, s));
           s = s\<lparr>current := (current s)(c := Some task)\<rparr>
       in andThen (set_task_state s c TASK_RUNNING) (\<lambda>s. Inr (task, s)))"

definition schedule_done :: "sched \<Rightarrow> cpuid \<Rightarrow> node \<Rightarrow> sched run" where
  "schedule_done s c task =
     (let s = s\<lparr>cpu_states := (cpu_states s)(c := CPU_INIT)\<rparr> in tq_submit_task s c task)"

definition schedule :: "(node \<Rightarrow> sched \<Rightarrow> sched run) \<Rightarrow> sched \<Rightarrow> cpuid \<Rightarrow> (node \<times> sched) run" where
  "schedule launch s c =
     andThen (schedule_pick s c) (\<lambda>(task, s).
     andThen (launch task s) (\<lambda>s.
     andThen (schedule_done s c task) (\<lambda>s. Inr (task, s))))"

text \<open>The first \<open>n\<close> turns of \<^verbatim>\<open>schedule_loop\<close>, with the tasks that ran.\<close>

fun schedule_loop :: "nat \<Rightarrow> (node \<Rightarrow> sched \<Rightarrow> sched run) \<Rightarrow> sched \<Rightarrow> cpuid \<Rightarrow> (node list \<times> sched) run" where
  "schedule_loop 0 launch s c = Inr ([], s)"
| "schedule_loop (Suc n) launch s c =
     andThen (schedule launch s c) (\<lambda>(t, s).
     andThen (schedule_loop n launch s c) (\<lambda>(ts, s). Inr (t # ts, s)))"

text \<open>\<open>prev_id\<close> is the static variable \<^verbatim>\<open>prev_submission_tq_cpuid\<close>; the result is its new value, too.\<close>

function get_next_submission_tq_cpuid :: "u32 \<Rightarrow> cpuid \<Rightarrow> cpuid" where
  "get_next_submission_tq_cpuid cpus prev_id =
     (if prev_id = INVALID_CPUID then get_next_cpuid_in_mask cpus 0
      else
        (let prev_id = get_next_cpuid_in_mask cpus (prev_id + 1) in
         if prev_id = INVALID_CPUID then get_next_submission_tq_cpuid cpus prev_id else prev_id))"
  by auto

termination get_next_submission_tq_cpuid
  by (relation "measure (\<lambda>(_, prev_id). if prev_id = INVALID_CPUID then 0 else 1)") auto

declare get_next_submission_tq_cpuid.simps [simp del]

text \<open>Submission of one virtual processor to the queue of processor \<open>c\<close>.\<close>

definition submit_vcpu :: "sched \<Rightarrow> cpuid \<Rightarrow> node \<Rightarrow> sched run" where
  "submit_vcpu s c vcpu =
     (if unat c < MAX_CPUS then
        andThen (tq_submit_task s c vcpu) (\<lambda>s.
          Inr (if cpu_states s c = CPU_IDLE then s\<lparr>kicks := kicks s @ [c]\<rparr> else s))
      else Inl OutOfBounds)"

fun sched_submit_vm :: "sched \<Rightarrow> u32 \<Rightarrow> cpuid \<Rightarrow> node list \<Rightarrow> (cpuid \<times> sched) run" where
  "sched_submit_vm s cpus prev_id [] = Inr (prev_id, s)"
| "sched_submit_vm s cpus prev_id (vcpu # vcpus) =
     (let cpuid = get_next_submission_tq_cpuid cpus prev_id in
      andThen (submit_vcpu s cpuid vcpu) (\<lambda>s. sched_submit_vm s cpus cpuid vcpus))"

section \<open>Turns of a processor\<close>

text \<open>The two queues of processor \<open>c\<close> in a system of queues.\<close>

abbreviation ready :: "sched \<Rightarrow> (node \<Rightarrow> node list option) \<Rightarrow> cpuid \<Rightarrow> node list \<Rightarrow> node list \<Rightarrow> bool" where
  "ready s Q c rs bs \<equiv> nodes.queues (store s) Q \<and> Q (Runnable c) = Some rs \<and> Q (Blocked c) = Some bs"

text \<open>The queues after task \<open>t\<close> with state \<open>st\<close> has been submitted to processor \<open>c\<close>.\<close>

definition submitted :: "(node \<Rightarrow> node list option) \<Rightarrow> cpuid \<Rightarrow> node \<Rightarrow> task_sched_state \<Rightarrow> (node \<Rightarrow> node list option)" where
  "submitted Q c t st =
     (if st = TASK_RUNNING \<or> st = TASK_RUNNABLE then Q(Runnable c \<mapsto> the (Q (Runnable c)) @ [t])
      else if st = TASK_BLOCKED then Q(Blocked c \<mapsto> the (Q (Blocked c)) @ [t])
      else Q)"

lemma tq_submit_task_ok:
  assumes "ready s Q c rs bs" "nodes.fresh Q t"
  obtains h where "tq_submit_task s c t = Inr (s\<lparr>store := h\<rparr>)" "nodes.queues h (submitted Q c t (task_state s t))"
proof (cases "task_state s t")
  case TASK_BLOCKED
  obtain h where "list_add_tail (store s) (Blocked c) t = Inr h" "nodes.queues h (Q(Blocked c \<mapsto> bs @ [t]))"
    using nodes.queues_enq[of "store s" Q "Blocked c" bs t] assms by blast
  then show thesis
    using TASK_BLOCKED assms by (intro that[of h]) (simp_all add: tq_submit_task_def tq_submit_blocked_task_def submitted_def)
next
  case TASK_NOT_SCHEDULABLE
  then show thesis using assms by (intro that[of "store s"]) (simp_all add: tq_submit_task_def submitted_def)
next
  case TASK_KILLED
  then show thesis using assms by (intro that[of "store s"]) (simp_all add: tq_submit_task_def submitted_def)
next
  case TASK_RUNNABLE
  obtain h where "list_add_tail (store s) (Runnable c) t = Inr h" "nodes.queues h (Q(Runnable c \<mapsto> rs @ [t]))"
    using nodes.queues_enq[of "store s" Q "Runnable c" rs t] assms by blast
  then show thesis
    using TASK_RUNNABLE assms by (intro that[of h]) (simp_all add: tq_submit_task_def tq_submit_runnable_task_def submitted_def)
next
  case TASK_RUNNING
  obtain h where "list_add_tail (store s) (Runnable c) t = Inr h" "nodes.queues h (Q(Runnable c \<mapsto> rs @ [t]))"
    using nodes.queues_enq[of "store s" Q "Runnable c" rs t] assms by blast
  then show thesis
    using TASK_RUNNING assms by (intro that[of h]) (simp_all add: tq_submit_task_def tq_submit_runnable_task_def submitted_def)
qed

lemma schedule_pick_task:
  assumes "ready s Q c (t # rs) bs"
  obtains s' where "schedule_pick s c = Inr (t, s')" "ready s' (Q(Runnable c \<mapsto> rs)) c rs bs"
    "nodes.fresh (Q(Runnable c \<mapsto> rs)) t" "current s' c = Some t" "cpu_states s' = cpu_states s"
    "task_state s' = (task_state s)(t := TASK_RUNNING)"
proof -
  obtain h where h: "list_first_entry_nullable (store s) (Runnable c) = Some t" "list_remove_head (store s) (Runnable c) = Inr h"
    "nodes.queues h (Q(Runnable c \<mapsto> rs))" "nodes.fresh (Q(Runnable c \<mapsto> rs)) t"
    using nodes.queues_deq[of "store s" Q "Runnable c" t rs] assms by blast
  then show thesis
    using assms by (intro that[of "s\<lparr>store := h, current := (current s)(c \<mapsto> t), task_state := (task_state s)(t := TASK_RUNNING)\<rparr>"])
      (auto simp: schedule_pick_def tq_get_next_task_def set_task_state_def)
qed

lemma schedule_pick_idle:
  assumes "ready s Q c [] bs"
  obtains s' where "schedule_pick s c = Inr (Idle, s')" "store s' = store s" "current s' c = Some Idle"
    "cpu_states s' c = CPU_IDLE" "task_state s' = (task_state s)(Idle := TASK_RUNNING)"
proof -
  have "list_first_entry_nullable (store s) (Runnable c) = None"
    using nodes.queues_front_empty[of "store s" Q "Runnable c"] assms by simp
  then show thesis
    by (intro that[of "s\<lparr>cpu_states := (cpu_states s)(c := CPU_IDLE), current := (current s)(c \<mapsto> Idle),
          task_state := (task_state s)(Idle := TASK_RUNNING)\<rparr>"])
      (auto simp: schedule_pick_def tq_get_next_task_def set_task_state_def)
qed

text \<open>
  What is required of the code of a task: it returns, and changes neither the queues nor the record of the
  current task. It may set the states of tasks.
\<close>

definition task_code :: "(node \<Rightarrow> sched \<Rightarrow> sched run) \<Rightarrow> bool" where
  "task_code launch \<longleftrightarrow> (\<forall>t s. \<exists>s'. launch t s = Inr s' \<and> store s' = store s \<and> current s' = current s)"

lemma schedule_turn:
  assumes r: "ready s Q c (t # rs) bs" and code: "task_code launch"
  obtains s' where "schedule launch s c = Inr (t, s')"
    "nodes.queues (store s') (submitted (Q(Runnable c \<mapsto> rs)) c t (task_state s' t))"
    "cpu_states s' c = CPU_INIT" "current s' c = Some t"
proof -
  from r obtain s1 where s1: "schedule_pick s c = Inr (t, s1)" "ready s1 (Q(Runnable c \<mapsto> rs)) c rs bs"
    "nodes.fresh (Q(Runnable c \<mapsto> rs)) t" "current s1 c = Some t"
    by (rule schedule_pick_task)
  obtain s2 where s2: "launch t s1 = Inr s2" "store s2 = store s1" "current s2 = current s1"
    using code unfolding task_code_def by blast
  let ?s3 = "s2\<lparr>cpu_states := (cpu_states s2)(c := CPU_INIT)\<rparr>"
  have "ready ?s3 (Q(Runnable c \<mapsto> rs)) c rs bs" using s1(2) s2(2) by simp
  then obtain h where h: "tq_submit_task ?s3 c t = Inr (?s3\<lparr>store := h\<rparr>)"
    "nodes.queues h (submitted (Q(Runnable c \<mapsto> rs)) c t (task_state ?s3 t))"
    using s1(3) by (rule tq_submit_task_ok)
  show thesis
    by (rule that[of "?s3\<lparr>store := h\<rparr>"]) (use s1 s2 h in \<open>simp_all add: schedule_def schedule_done_def Let_def\<close>)
qed

lemma submitted_runnable: "Q (Runnable c) = Some rs \<Longrightarrow> \<exists>us. submitted Q c t st (Runnable c) = Some (rs @ us)"
  by (auto simp: submitted_def)

lemma submitted_blocked: "Q (Blocked c) = Some bs \<Longrightarrow> \<exists>us. submitted Q c t st (Blocked c) = Some us"
  by (auto simp: submitted_def)

lemma schedule_loop_serves:
  assumes "ready s Q c (ts @ us) bs" "task_code launch"
  shows "\<exists>s'. schedule_loop (length ts) launch s c = Inr (ts, s')"
  using assms(1)
proof (induction ts arbitrary: s Q us bs)
  case (Cons t ts)
  then have "ready s Q c (t # ts @ us) bs" by simp
  then obtain s1 where s1: "schedule launch s c = Inr (t, s1)"
    "nodes.queues (store s1) (submitted (Q(Runnable c \<mapsto> ts @ us)) c t (task_state s1 t))"
    using schedule_turn[OF _ assms(2)] by metis
  obtain vs ws where "submitted (Q(Runnable c \<mapsto> ts @ us)) c t (task_state s1 t) (Runnable c) = Some ((ts @ us) @ vs)"
    "submitted (Q(Runnable c \<mapsto> ts @ us)) c t (task_state s1 t) (Blocked c) = Some ws"
    using submitted_runnable[of "Q(Runnable c \<mapsto> ts @ us)" c "ts @ us"]
      submitted_blocked[of "Q(Runnable c \<mapsto> ts @ us)" c bs] Cons.prems by (metis fun_upd_apply node.distinct(1))
  then have "\<exists>s'. schedule_loop (length ts) launch s1 c = Inr (ts, s')"
    by (intro Cons.IH[where us = "us @ vs" and bs = ws and Q = "submitted (Q(Runnable c \<mapsto> ts @ us)) c t (task_state s1 t)"])
       (use s1(2) in simp)
  then show ?case using s1(1) by auto
qed simp

section \<open>Distribution of virtual processors\<close>

text \<open>The online processors in the order of their ids.\<close>

abbreviation online :: "u32 \<Rightarrow> nat list" where
  "online cpus \<equiv> filter (bit cpus) [0..<32]"

lemma online_below: "k \<in> set (online cpus) \<Longrightarrow> k < 32"
  by simp

text \<open>The online processors behind the one at position \<open>j\<close>.\<close>

lemma filter_greater_sorted:
  fixes xs :: "nat list"
  shows "sorted_wrt (<) xs \<Longrightarrow> j < length xs \<Longrightarrow> filter (\<lambda>x. xs ! j < x) xs = drop (Suc j) xs"
proof (induction xs arbitrary: j)
  case (Cons x xs)
  then have "\<not> xs ! i < x" if "i < length xs" for i using that by (auto dest!: nth_mem)
  with Cons show ?case by (cases j) (auto simp: filter_id_conv)
qed simp

lemma upt_filter_greater: "filter (\<lambda>x. k < x) [0..<n] = [Suc k..<n]"
  by (induction n) auto

lemma online_drop:
  assumes "j < length (online cpus)"
  shows "filter (bit cpus) [Suc (online cpus ! j)..<32] = drop (Suc j) (online cpus)"
proof -
  have "sorted_wrt (<) (online cpus)" by (rule sorted_wrt_filter) simp
  then have "filter (\<lambda>x. online cpus ! j < x) (online cpus) = drop (Suc j) (online cpus)"
    using assms by (rule filter_greater_sorted)
  then show ?thesis
    by (simp only: filter_filter conj_commute[of "bit cpus _"] flip: upt_filter_greater)
qed

lemma next_submission_first:
  assumes "online cpus \<noteq> []"
  shows "get_next_submission_tq_cpuid cpus INVALID_CPUID = of_nat (online cpus ! 0)"
  using assms get_next_cpuid_filter[of 0 cpus]
  by (simp add: get_next_submission_tq_cpuid.simps split: list.splits)

lemma next_submission_step:
  assumes "j < length (online cpus)"
  shows "get_next_submission_tq_cpuid cpus (of_nat (online cpus ! j)) = of_nat (online cpus ! (Suc j mod length (online cpus)))"
proof -
  let ?k = "online cpus ! j"
  have k: "?k < 32" using nth_mem[OF assms] by simp
  have ne: "online cpus \<noteq> []" using assms by auto
  have nxt: "get_next_cpuid_in_mask cpus (of_nat ?k + 1) =
      (case drop (Suc j) (online cpus) of [] \<Rightarrow> INVALID_CPUID | i # is \<Rightarrow> of_nat i)"
    using get_next_cpuid_filter[of "Suc ?k" cpus] k online_drop[OF assms] by (simp add: add.commute)
  show ?thesis
  proof (cases "Suc j < length (online cpus)")
    case True
    then have "drop (Suc j) (online cpus) = online cpus ! Suc j # drop (Suc (Suc j)) (online cpus)"
      by (simp add: Cons_nth_drop_Suc)
    moreover have "online cpus ! Suc j < 32" using nth_mem[OF True] by simp
    ultimately show ?thesis
      using True k nxt by (simp add: get_next_submission_tq_cpuid.simps[of cpus "of_nat ?k"] Let_def)
  next
    case False
    then have "Suc j = length (online cpus)" using assms by simp
    then show ?thesis
      using k nxt next_submission_first[OF ne]
      by (simp add: get_next_submission_tq_cpuid.simps[of cpus "of_nat ?k"] Let_def)
  qed
qed

text \<open>
  The part of a list that falls to position \<open>p\<close> of \<open>m\<close> positions, when the elements are dealt out in turn
  starting with position \<open>j\<close>.
\<close>

fun share :: "nat \<Rightarrow> nat \<Rightarrow> nat \<Rightarrow> 'a list \<Rightarrow> 'a list" where
  "share m j p [] = []"
| "share m j p (v # vs) = (if j mod m = p then [v] else []) @ share m (Suc j) p vs"

lemma share_mod: "share m (j mod m) p vs = share m j p vs"
  by (induction vs arbitrary: j) (simp_all, metis mod_Suc_eq)

abbreviation cpu_at :: "u32 \<Rightarrow> nat \<Rightarrow> cpuid" where
  "cpu_at cpus p \<equiv> of_nat (online cpus ! p)"

lemma cpu_at_inject:
  assumes "p < length (online cpus)" "q < length (online cpus)"
  shows "cpu_at cpus p = cpu_at cpus q \<longleftrightarrow> p = q"
proof -
  have "unat (cpu_at cpus p) = online cpus ! p" "unat (cpu_at cpus q) = online cpus ! q"
    using nth_mem[OF assms(1)] nth_mem[OF assms(2)] by (auto simp: unat_of_nat)
  then have "cpu_at cpus p = cpu_at cpus q \<longleftrightarrow> online cpus ! p = online cpus ! q" by metis
  also have "\<dots> \<longleftrightarrow> p = q" using assms by (simp add: nth_eq_iff_index_eq)
  finally show ?thesis .
qed

lemma cpu_at_below: "p < length (online cpus) \<Longrightarrow> unat (cpu_at cpus p) < MAX_CPUS"
  using nth_mem[of p "online cpus"] by (simp add: MAX_CPUS_def unat_of_nat)

text \<open>The queues of the online processors, with their runnable tasks.\<close>

definition run_queues :: "u32 \<Rightarrow> sched \<Rightarrow> (nat \<Rightarrow> node list) \<Rightarrow> (node \<Rightarrow> node list option) \<Rightarrow> bool" where
  "run_queues cpus s rs Q \<longleftrightarrow> nodes.queues (store s) Q
     \<and> (\<forall>p < length (online cpus). Q (Runnable (cpu_at cpus p)) = Some (rs p) \<and> Q (Blocked (cpu_at cpus p)) \<noteq> None)"

lemma submit_vcpu_ok:
  assumes q: "run_queues cpus s rs Q" and p: "p < length (online cpus)" and v: "nodes.fresh Q v" "task_state s v = TASK_RUNNABLE"
  obtains s' where "submit_vcpu s (cpu_at cpus p) v = Inr s'"
    "run_queues cpus s' (rs(p := rs p @ [v])) (Q(Runnable (cpu_at cpus p) \<mapsto> rs p @ [v]))"
    "task_state s' = task_state s" "cpu_states s' = cpu_states s"
    "kicks s' = (if cpu_states s (cpu_at cpus p) = CPU_IDLE then kicks s @ [cpu_at cpus p] else kicks s)"
proof -
  let ?c = "cpu_at cpus p"
  obtain bs where r: "ready s Q ?c (rs p) bs" using q p unfolding run_queues_def by blast
  from r v(1) obtain h where h: "tq_submit_task s ?c v = Inr (s\<lparr>store := h\<rparr>)"
    "nodes.queues h (submitted Q ?c v (task_state s v))" by (rule tq_submit_task_ok)
  have "submitted Q ?c v (task_state s v) = Q(Runnable ?c \<mapsto> rs p @ [v])" using r v(2) by (simp add: submitted_def)
  then have "run_queues cpus (s\<lparr>store := h\<rparr>) (rs(p := rs p @ [v])) (Q(Runnable ?c \<mapsto> rs p @ [v]))"
    using q h(2) p cpu_at_inject unfolding run_queues_def by auto
  then show thesis
    using h(1) cpu_at_below[OF p]
    by (intro that[of "if cpu_states s ?c = CPU_IDLE then s\<lparr>store := h, kicks := kicks s @ [?c]\<rparr> else s\<lparr>store := h\<rparr>"])
       (auto simp: submit_vcpu_def run_queues_def)
qed

lemma sched_submit_vm_ok:
  assumes "run_queues cpus s rs Q" "online cpus \<noteq> []" "distinct vs"
    "\<And>v. v \<in> set vs \<Longrightarrow> nodes.fresh Q v \<and> task_state s v = TASK_RUNNABLE"
    "get_next_submission_tq_cpuid cpus prev_id = cpu_at cpus (j mod length (online cpus))"
  shows "\<exists>prev_id' s' Q'. sched_submit_vm s cpus prev_id vs = Inr (prev_id', s')
     \<and> run_queues cpus s' (\<lambda>p. rs p @ share (length (online cpus)) j p vs) Q'
     \<and> set (kicks s) \<subseteq> set (kicks s')
     \<and> (\<forall>p < length (online cpus). share (length (online cpus)) j p vs \<noteq> [] \<and> cpu_states s (cpu_at cpus p) = CPU_IDLE
          \<longrightarrow> cpu_at cpus p \<in> set (kicks s'))"
  using assms
proof (induction vs arbitrary: s rs Q prev_id j)
  case Nil
  then show ?case by auto
next
  case (Cons v vs)
  let ?m = "length (online cpus)" and ?p = "j mod length (online cpus)"
  have p: "?p < ?m" using Cons.prems(2) by simp
  obtain s1 where s1: "submit_vcpu s (cpu_at cpus ?p) v = Inr s1"
    "run_queues cpus s1 (rs(?p := rs ?p @ [v])) (Q(Runnable (cpu_at cpus ?p) \<mapsto> rs ?p @ [v]))"
    "task_state s1 = task_state s" "cpu_states s1 = cpu_states s"
    "kicks s1 = (if cpu_states s (cpu_at cpus ?p) = CPU_IDLE then kicks s @ [cpu_at cpus ?p] else kicks s)"
    using submit_vcpu_ok[OF Cons.prems(1) p] Cons.prems(4) by (metis list.set_intros(1))
  have q: "Q (Runnable (cpu_at cpus ?p)) = Some (rs ?p)" using Cons.prems(1) p unfolding run_queues_def by blast
  have "\<exists>prev_id' s' Q'. sched_submit_vm s1 cpus (cpu_at cpus ?p) vs = Inr (prev_id', s')
     \<and> run_queues cpus s' (\<lambda>p. (rs(?p := rs ?p @ [v])) p @ share ?m (Suc j) p vs) Q'
     \<and> set (kicks s1) \<subseteq> set (kicks s')
     \<and> (\<forall>p < ?m. share ?m (Suc j) p vs \<noteq> [] \<and> cpu_states s1 (cpu_at cpus p) = CPU_IDLE \<longrightarrow> cpu_at cpus p \<in> set (kicks s'))"
  proof (rule Cons.IH[OF s1(2) Cons.prems(2)])
    show "distinct vs" using Cons.prems(3) by simp
    show "nodes.fresh (Q(Runnable (cpu_at cpus ?p) \<mapsto> rs ?p @ [v])) w \<and> task_state s1 w = TASK_RUNNABLE"
      if "w \<in> set vs" for w
      using that Cons.prems(3,4) q s1(3) by (auto intro: nodes.fresh_enq)
    show "get_next_submission_tq_cpuid cpus (cpu_at cpus ?p) = cpu_at cpus (Suc j mod ?m)"
      using next_submission_step[OF p] by (simp add: mod_Suc_eq)
  qed
  then obtain prev_id' s' Q' where r: "sched_submit_vm s1 cpus (cpu_at cpus ?p) vs = Inr (prev_id', s')"
    "run_queues cpus s' (\<lambda>p. (rs(?p := rs ?p @ [v])) p @ share ?m (Suc j) p vs) Q'"
    "set (kicks s1) \<subseteq> set (kicks s')"
    "\<forall>p < ?m. share ?m (Suc j) p vs \<noteq> [] \<and> cpu_states s1 (cpu_at cpus p) = CPU_IDLE \<longrightarrow> cpu_at cpus p \<in> set (kicks s')"
    by blast
  have "(\<lambda>p. (rs(?p := rs ?p @ [v])) p @ share ?m (Suc j) p vs) = (\<lambda>p. rs p @ share ?m j p (v # vs))"
    by auto
  then show ?case
    using r s1 Cons.prems(5) by (intro exI[of _ prev_id'] exI[of _ s'] exI[of _ Q']) (auto split: if_splits)
qed

section \<open>Properties\<close>

text \<open>
  C10. The scheduler is fair: whatever states the tasks set, with \<open>n\<close> runnable tasks in the queue of a processor
  its next \<open>n\<close> turns run exactly these tasks, each once and in the order of the queue.
\<close>

theorem schedule_serves_queue:
  assumes "nodes.queues (store s) Q" "Q (Runnable c) = Some ts" "Q (Blocked c) = Some bs" "task_code launch"
  shows "\<exists>s'. schedule_loop (length ts) launch s c = Inr (ts, s')"
  using schedule_loop_serves[of s Q c ts "[]" bs launch] assms by simp

text \<open>
  The first VM is spread evenly: the virtual processors go in turn to the online processors in the
  order of their ids, each at the end of the queue there, and every idle processor that gets one is sent an
  interrupt.
\<close>

lemma sched_submit_vm_round_robin:
  assumes "run_queues cpus s rs Q" "online cpus \<noteq> []" "distinct vs"
    "\<And>v. v \<in> set vs \<Longrightarrow> nodes.fresh Q v \<and> task_state s v = TASK_RUNNABLE"
  shows "\<exists>prev_id' s' Q'. sched_submit_vm s cpus INVALID_CPUID vs = Inr (prev_id', s')
     \<and> run_queues cpus s' (\<lambda>p. rs p @ share (length (online cpus)) 0 p vs) Q'
     \<and> (\<forall>p < length (online cpus). share (length (online cpus)) 0 p vs \<noteq> [] \<and> cpu_states s (cpu_at cpus p) = CPU_IDLE
          \<longrightarrow> cpu_at cpus p \<in> set (kicks s'))"
  using sched_submit_vm_ok[OF assms, of INVALID_CPUID 0] next_submission_first[OF assms(2)] by auto

text \<open>The scheduler before the first turn, with two present processors.\<close>

definition start_sched :: sched where
  "start_sched = \<lparr>store = \<lparr>prev = \<lambda>_. None, next = \<lambda>_. None\<rparr>, task_state = \<lambda>_. TASK_RUNNABLE,
     current = \<lambda>_. None, cpu_states = \<lambda>_. CPU_INIT, kicks = []\<rparr>"

lemma online_3: "online 3 = [0, 1]"
  by (simp add: upt_rec bit_simps numeral_eq_Suc)

definition two_cpus :: sched where
  "two_cpus = init_task_queues start_sched 3"

definition empty_queues :: "node \<Rightarrow> node list option" where
  "empty_queues = [Runnable 0 \<mapsto> [], Blocked 0 \<mapsto> [], Runnable 1 \<mapsto> [], Blocked 1 \<mapsto> []]"

lemma two_cpus_eq:
  "two_cpus = start_sched\<lparr>store := INIT_LIST_HEAD (INIT_LIST_HEAD (INIT_LIST_HEAD (INIT_LIST_HEAD (store start_sched)
     (Runnable 0)) (Blocked 0)) (Runnable 1)) (Blocked 1)\<rparr>"
  by (simp add: two_cpus_def init_task_queues_def for_each_cpuid_filter online_3 init_task_queue_def start_sched_def fun_upd_idem)

lemma two_cpus_queues: "nodes.queues (store two_cpus) empty_queues"
  by (auto simp: nodes.queues_def two_cpus_eq empty_queues_def dlist_def INIT_LIST_HEAD_def split: if_splits)

lemma two_cpus_run_queues: "run_queues 3 two_cpus (\<lambda>_. []) empty_queues"
  using two_cpus_queues by (auto simp: run_queues_def online_3 empty_queues_def less_Suc_eq numeral_2_eq_2)

lemma sched_submit_vm_round_robin_witness:
  "\<exists>prev_id' s' Q'. sched_submit_vm two_cpus 3 INVALID_CPUID [Task 0, Task 1, Task 2] = Inr (prev_id', s')
     \<and> run_queues 3 s' (\<lambda>p. share 2 0 p [Task 0, Task 1, Task 2]) Q'
     \<and> share 2 0 0 [Task 0, Task 1, Task 2] = [Task 0, Task 2]"
proof -
  have "nodes.fresh empty_queues v \<and> task_state two_cpus v = TASK_RUNNABLE" if "v \<in> set [Task 0, Task 1, Task 2]" for v
    using that by (auto simp: nodes.fresh_def empty_queues_def two_cpus_eq start_sched_def split: if_splits)
  then obtain prev_id' s' Q' where "sched_submit_vm two_cpus 3 INVALID_CPUID [Task 0, Task 1, Task 2] = Inr (prev_id', s')"
    "run_queues 3 s' (\<lambda>p. [] @ share (length (online 3)) 0 p [Task 0, Task 1, Task 2]) Q'"
    using sched_submit_vm_round_robin[OF two_cpus_run_queues, of "[Task 0, Task 1, Task 2]"] unfolding online_3 by auto
  moreover have "length (online 3) = 2" by (simp only: online_3) simp
  ultimately show ?thesis by (auto simp del: sched_submit_vm.simps)
qed

theorem schedule_serves_queue_witness:
  "\<exists>s s'. tq_submit_task two_cpus 0 (Task 7) = Inr s \<and> schedule_loop 1 (\<lambda>_. Inr) s 0 = Inr ([Task 7], s')"
proof -
  have "ready two_cpus empty_queues 0 [] []" using two_cpus_queues by (simp add: empty_queues_def)
  moreover have "nodes.fresh empty_queues (Task 7)" by (simp add: nodes.fresh_def empty_queues_def split: if_splits)
  ultimately obtain h where h: "tq_submit_task two_cpus 0 (Task 7) = Inr (two_cpus\<lparr>store := h\<rparr>)"
    "nodes.queues h (submitted empty_queues 0 (Task 7) (task_state two_cpus (Task 7)))"
    by (rule tq_submit_task_ok)
  then have "nodes.queues (store (two_cpus\<lparr>store := h\<rparr>)) (empty_queues(Runnable 0 \<mapsto> [Task 7]))"
    by (simp add: submitted_def two_cpus_eq start_sched_def empty_queues_def)
  moreover have "task_code (\<lambda>_. Inr)" by (simp add: task_code_def)
  ultimately show ?thesis
    using h(1) schedule_serves_queue[of "two_cpus\<lparr>store := h\<rparr>" "empty_queues(Runnable 0 \<mapsto> [Task 7])" 0 "[Task 7]" "[]" "\<lambda>_. Inr"]
    by (auto simp: empty_queues_def)
qed

text \<open>
  The static idle task is queued like every other task after its turn. Once two processors have idled,
  its one list node is in two queues, and a virtual processor submitted to an idling processor drops out of
  the queue of this processor: it is runnable, but only the idle task is left in the queue.
\<close>

lemma idle_task_loses_vcpu:
  "\<exists>s1 s2 s3 s4 s5. schedule (\<lambda>_. Inr) two_cpus 0 = Inr (Idle, s1) \<and> schedule (\<lambda>_. Inr) s1 1 = Inr (Idle, s2)
     \<and> schedule_pick s2 0 = Inr (Idle, s3) \<and> submit_vcpu s3 0 (Task 0) = Inr s4 \<and> schedule_done s4 0 Idle = Inr s5
     \<and> task_state s5 (Task 0) = TASK_RUNNABLE \<and> list_for_each 4 (store s5) (Runnable 0) = Inr [Idle]"
  by (simp add: two_cpus_eq start_sched_def INIT_LIST_HEAD_def schedule_def schedule_pick_def schedule_done_def
      tq_get_next_task_def list_first_entry_nullable_def list_remove_head_def list_remove_entry_def list_unlink_def
      set_task_state_def tq_submit_task_def tq_submit_runnable_task_def list_add_tail_def list_add_between_def
      submit_vcpu_def MAX_CPUS_def list_for_each_def numeral_eq_Suc Let_def)

text \<open>
  A processor is marked idle only in its first idle turn: in the next one the idle task comes out of the
  queue, the processor sleeps without the mark, and a submission does not wake it up.
\<close>

lemma idle_state_lost:
  assumes "nodes.queues (store s) Q" "Q (Runnable c) = Some []" "Q (Blocked c) = Some bs" "nodes.fresh Q Idle"
  shows "\<exists>s1 s2. schedule (\<lambda>_. Inr) s c = Inr (Idle, s1) \<and> schedule_pick s1 c = Inr (Idle, s2) \<and> cpu_states s2 c = CPU_INIT"
proof -
  obtain s1 where s1: "schedule_pick s c = Inr (Idle, s1)" "store s1 = store s"
    "task_state s1 = (task_state s)(Idle := TASK_RUNNING)"
    using schedule_pick_idle[of s Q c bs] assms by metis
  let ?s = "s1\<lparr>cpu_states := (cpu_states s1)(c := CPU_INIT)\<rparr>"
  have "ready ?s Q c [] bs" using assms s1(2) by simp
  then obtain h where h: "tq_submit_task ?s c Idle = Inr (?s\<lparr>store := h\<rparr>)"
    "nodes.queues h (submitted Q c Idle (task_state ?s Idle))"
    using assms(4) by (rule tq_submit_task_ok)
  then have "ready (?s\<lparr>store := h\<rparr>) (Q(Runnable c \<mapsto> [Idle])) c (Idle # []) bs"
    using s1(3) assms by (simp add: submitted_def)
  then obtain s2 where s2: "schedule_pick (?s\<lparr>store := h\<rparr>) c = Inr (Idle, s2)"
    "cpu_states s2 = cpu_states (?s\<lparr>store := h\<rparr>)"
    by (rule schedule_pick_task)
  then show ?thesis
    using s1(1) h(1) by (intro exI[of _ "?s\<lparr>store := h\<rparr>"] exI[of _ s2]) (simp add: schedule_def schedule_done_def Let_def)
qed

lemma idle_state_lost_witness:
  "\<exists>s1 s2. schedule (\<lambda>_. Inr) two_cpus 0 = Inr (Idle, s1) \<and> schedule_pick s1 0 = Inr (Idle, s2) \<and> cpu_states s2 0 = CPU_INIT"
  by (rule idle_state_lost[OF two_cpus_queues]) (auto simp: empty_queues_def nodes.fresh_def split: if_splits)

end
