(* ===== verification/Spinlock.thy ===== *)
theory Spinlock
  imports HyvPrelude
begin

text \<open>
  The spin lock of \<^verbatim>\<open>arch/x64/spinlock.c\<close> and its use by several processors. The two atomic
  instructions are functions on the flag byte; a processor that calls \<^verbatim>\<open>arch_spinlock_acquire\<close> repeats
  the compare-and-exchange until it succeeds. The variants that save and restore the interrupt status act
  on the interrupt flag of the processor. Every interleaving of the processors is a path of \<open>lock_step\<close>.
\<close>

definition SPINLOCK_FREE :: u8 where
  "SPINLOCK_FREE = 0"

definition SPINLOCK_USED :: u8 where
  "SPINLOCK_USED = 1"

section \<open>The lock\<close>

text \<open>\<^verbatim>\<open>lock cmpxchg\<close>: the result of \<^verbatim>\<open>sete\<close> and the new flag.\<close>

definition atomic_acquire :: "u8 \<Rightarrow> bool \<times> u8" where
  "atomic_acquire flag =
     (let queried_state = SPINLOCK_FREE in
      if flag = queried_state then (True, SPINLOCK_USED) else (False, flag))"

text \<open>\<^verbatim>\<open>lock xchg\<close>.\<close>

definition atomic_release :: "u8 \<Rightarrow> u8" where
  "atomic_release flag = SPINLOCK_FREE"

text \<open>
  \<^verbatim>\<open>arch_spinlock_acquire\<close>: \<open>seen\<close> lists the values of the flag at the attempts, as other processors leave
  them. The result is the number of failed attempts and the flag; the loop never ends if no attempt
  succeeds.
\<close>

fun arch_spinlock_acquire :: "u8 list \<Rightarrow> (nat \<times> u8) run" where
  "arch_spinlock_acquire [] = Inl Spins"
| "arch_spinlock_acquire (flag # seen) =
     (let (res, flag) = atomic_acquire flag in
      if res then Inr (0, flag)
      else andThen (arch_spinlock_acquire seen) (\<lambda>(n, flag). Inr (Suc n, flag)))"

definition arch_spinlock_release :: "u8 \<Rightarrow> u8" where
  "arch_spinlock_release flag = atomic_release flag"

section \<open>Processors\<close>

text \<open>
  Where a processor is: outside, spinning in an acquire with or without a saved interrupt status, or
  holding the lock. \<open>irq\<close> is the interrupt flag of the processor.
\<close>

datatype lock_pc = Outside | Spinning "bool option" | Holding "bool option"

record 'c lock_system =
  lock_flag :: u8
  pc :: "'c \<Rightarrow> lock_pc"
  irq :: "'c \<Rightarrow> bool"

definition acquire_call :: "'c lock_system \<Rightarrow> 'c \<Rightarrow> 'c lock_system" where
  "acquire_call s c = s\<lparr>pc := (pc s)(c := Spinning None)\<rparr>"

text \<open>\<^verbatim>\<open>disable_irq_save_status\<close> followed by the call.\<close>

definition acquire_irq_save_call :: "'c lock_system \<Rightarrow> 'c \<Rightarrow> 'c lock_system" where
  "acquire_irq_save_call s c =
     s\<lparr>pc := (pc s)(c := Spinning (Some (irq s c))), irq := (irq s)(c := False)\<rparr>"

definition acquire_attempt :: "'c lock_system \<Rightarrow> 'c \<Rightarrow> bool option \<Rightarrow> 'c lock_system" where
  "acquire_attempt s c saved =
     (let (res, flag) = atomic_acquire (lock_flag s) in
      s\<lparr>lock_flag := flag, pc := (pc s)(c := if res then Holding saved else Spinning saved)\<rparr>)"

definition release_call :: "'c lock_system \<Rightarrow> 'c \<Rightarrow> bool option \<Rightarrow> 'c lock_system" where
  "release_call s c saved =
     (let s = s\<lparr>lock_flag := arch_spinlock_release (lock_flag s), pc := (pc s)(c := Outside)\<rparr> in
      case saved of None \<Rightarrow> s | Some status \<Rightarrow> s\<lparr>irq := (irq s)(c := status)\<rparr>)"

inductive lock_step :: "'c lock_system \<Rightarrow> 'c lock_system \<Rightarrow> bool" where
  call: "pc s c = Outside \<Longrightarrow> lock_step s (acquire_call s c)"
| call_irq_save: "pc s c = Outside \<Longrightarrow> lock_step s (acquire_irq_save_call s c)"
| attempt: "pc s c = Spinning saved \<Longrightarrow> lock_step s (acquire_attempt s c saved)"
| release: "pc s c = Holding saved \<Longrightarrow> lock_step s (release_call s c saved)"
| irq_change: "pc s c = Outside \<Longrightarrow> lock_step s (s\<lparr>irq := (irq s)(c := b)\<rparr>)"

inductive lock_reachable :: "'c lock_system \<Rightarrow> bool" where
  start: "lock_flag s = SPINLOCK_FREE \<Longrightarrow> (\<forall>c. pc s c = Outside) \<Longrightarrow> lock_reachable s"
| step: "lock_reachable s \<Longrightarrow> lock_step s s' \<Longrightarrow> lock_reachable s'"

inductive_cases lock_stepE: "lock_step s s'"

section \<open>The invariant\<close>

definition holds_lock :: "'c lock_system \<Rightarrow> 'c \<Rightarrow> bool" where
  "holds_lock s c \<longleftrightarrow> (\<exists>saved. pc s c = Holding saved)"

text \<open>
  The flag is set exactly while a processor holds the lock, at most one does, and processors that asked
  for it have their interrupts disabled until they leave.
\<close>

definition lock_ok :: "'c lock_system \<Rightarrow> bool" where
  "lock_ok s \<longleftrightarrow> (if lock_flag s = SPINLOCK_FREE then \<forall>c. \<not> holds_lock s c
       else lock_flag s = SPINLOCK_USED \<and> (\<exists>!c. holds_lock s c))
     \<and> (\<forall>c b. pc s c = Spinning (Some b) \<or> pc s c = Holding (Some b) \<longrightarrow> \<not> irq s c)"

lemma lock_ok_call:
  assumes "lock_ok s" "lock_flag s' = lock_flag s" "holds_lock s' = holds_lock s"
    "\<And>c b. pc s' c = Spinning (Some b) \<or> pc s' c = Holding (Some b) \<Longrightarrow> irq s' c \<Longrightarrow> pc s c = pc s' c \<and> irq s c"
  shows "lock_ok s'"
proof -
  have "\<not> irq s' c" if "pc s' c = Spinning (Some b) \<or> pc s' c = Holding (Some b)" for c b
    using assms(1) assms(4)[OF that] that unfolding lock_ok_def by metis
  then show ?thesis using assms(1-3) unfolding lock_ok_def by simp
qed

lemma lock_ok_step:
  fixes s :: "'c lock_system"
  shows "lock_step s s' \<Longrightarrow> lock_ok s \<Longrightarrow> lock_ok s'"
proof (erule lock_step.cases)
  fix t :: "'c lock_system" and c saved
  assume s: "s = t" "s' = acquire_attempt t c saved" "pc t c = Spinning saved" "lock_ok s"
  show "lock_ok s'"
  proof (cases "lock_flag t = SPINLOCK_FREE")
    case True
    then have "holds_lock s' d \<longleftrightarrow> d = c" for d
      using s by (auto simp: lock_ok_def acquire_attempt_def atomic_acquire_def holds_lock_def)
    then show ?thesis
      using True s by (auto simp: lock_ok_def acquire_attempt_def atomic_acquire_def SPINLOCK_FREE_def SPINLOCK_USED_def)
  next
    case False
    then have "s' = t" using s fun_upd_idem[of "pc t" c, OF s(3)] by (simp add: acquire_attempt_def atomic_acquire_def)
    then show ?thesis using s by simp
  qed
next
  fix t :: "'c lock_system" and c saved
  assume s: "s = t" "s' = release_call t c saved" "pc t c = Holding saved" "lock_ok s"
  have "holds_lock t c" using s(3) by (simp add: holds_lock_def)
  then have only: "\<And>d. holds_lock t d \<Longrightarrow> d = c" using s by (auto simp: lock_ok_def split: if_splits)
  have "pc s' = (pc t)(c := Outside)" "lock_flag s' = SPINLOCK_FREE" "\<And>d. d \<noteq> c \<Longrightarrow> irq s' d = irq t d"
    using s(2) by (auto simp: release_call_def arch_spinlock_release_def atomic_release_def Let_def split: option.splits)
  then show "lock_ok s'"
    using only s(1,4) by (auto simp: lock_ok_def holds_lock_def split: if_splits)
qed (auto simp: fun_eq_iff holds_lock_def acquire_call_def acquire_irq_save_call_def
    elim!: lock_ok_call split: if_splits)

lemma lock_reachable_ok: "lock_reachable s \<Longrightarrow> lock_ok s"
proof (induction rule: lock_reachable.induct)
  case (start s)
  then show ?case by (simp add: lock_ok_def holds_lock_def)
next
  case (step s s')
  then show ?case using lock_ok_step by blast
qed

section \<open>Properties\<close>

text \<open>
  C13. Mutual exclusion and progress: in every interleaving at most one processor holds the lock, it is held
  exactly while the flag is set, and whenever the flag is clear every spinning processor gets the lock with its
  next attempt. A processor that saved its interrupt status has interrupts disabled while it waits for the lock
  and while it holds it, and its release clears the flag and restores the saved status.
\<close>

theorem spinlock_mutual_exclusion:
  assumes "lock_reachable s"
  shows "(holds_lock s c \<and> holds_lock s d \<longrightarrow> c = d)
    \<and> ((\<exists>c. holds_lock s c) \<longleftrightarrow> lock_flag s = SPINLOCK_USED)
    \<and> (pc s c = Spinning saved \<and> lock_flag s = SPINLOCK_FREE \<longrightarrow> holds_lock (acquire_attempt s c saved) c)
    \<and> (pc s c = Spinning (Some b) \<or> pc s c = Holding (Some b) \<longrightarrow> \<not> irq s c)
    \<and> lock_flag (release_call s c (Some b)) = SPINLOCK_FREE \<and> irq (release_call s c (Some b)) c = b"
proof -
  note ok = lock_reachable_ok[OF assms]
  have "\<not> irq s c" if "pc s c = Spinning (Some b) \<or> pc s c = Holding (Some b)" using ok that by (auto simp: lock_ok_def)
  moreover have "lock_flag (release_call s c (Some b)) = SPINLOCK_FREE \<and> irq (release_call s c (Some b)) c = b"
    by (simp add: release_call_def arch_spinlock_release_def atomic_release_def)
  ultimately show ?thesis
    using ok by (auto simp: lock_ok_def acquire_attempt_def atomic_acquire_def holds_lock_def SPINLOCK_FREE_def SPINLOCK_USED_def
        split: if_splits)
qed

text \<open>Processor 0 takes the lock while processor 1 spins.\<close>

definition contended :: "nat lock_system" where
  "contended = acquire_attempt (acquire_irq_save_call (acquire_call
     \<lparr>lock_flag = SPINLOCK_FREE, pc = \<lambda>_. Outside, irq = \<lambda>_. True\<rparr> 1) 0) 0 (Some True)"

lemma contended_reachable: "lock_reachable contended"
proof -
  let ?s0 = "\<lparr>lock_flag = SPINLOCK_FREE, pc = \<lambda>_ :: nat. Outside, irq = \<lambda>_. True\<rparr>"
  have "lock_reachable ?s0" by (rule lock_reachable.start) simp_all
  then have "lock_reachable (acquire_call ?s0 1)" by (rule lock_reachable.step) (rule lock_step.call, simp)
  then have "lock_reachable (acquire_irq_save_call (acquire_call ?s0 1) 0)"
    by (rule lock_reachable.step) (rule lock_step.call_irq_save, simp add: acquire_call_def)
  then show ?thesis
    unfolding contended_def
    by (rule lock_reachable.step) (rule lock_step.attempt, simp add: acquire_call_def acquire_irq_save_call_def)
qed

theorem spinlock_mutual_exclusion_witness:
  "holds_lock contended 0 \<and> \<not> holds_lock contended 1 \<and> lock_flag contended = SPINLOCK_USED"
proof -
  have "holds_lock contended 0"
    by (simp add: contended_def acquire_attempt_def atomic_acquire_def acquire_call_def acquire_irq_save_call_def holds_lock_def)
  moreover have "\<And>d. holds_lock contended d \<Longrightarrow> 0 = d"
    using spinlock_mutual_exclusion[OF contended_reachable, of 0] calculation by blast
  ultimately show ?thesis using spinlock_mutual_exclusion[OF contended_reachable, of 0] by auto
qed

text \<open>
  The lock is not recursive: a processor that already holds it spins forever, since the flag it sees stays
  set at all attempts.
\<close>

lemma acquire_held_spins: "set seen \<subseteq> {SPINLOCK_USED} \<Longrightarrow> arch_spinlock_acquire seen = Inl Spins"
  by (induction seen) (auto simp: atomic_acquire_def SPINLOCK_FREE_def SPINLOCK_USED_def)

lemma acquire_returns:
  "set seen \<subseteq> {SPINLOCK_USED} \<Longrightarrow> arch_spinlock_acquire (seen @ SPINLOCK_FREE # rest) = Inr (length seen, SPINLOCK_USED)"
  by (induction seen) (auto simp: atomic_acquire_def SPINLOCK_FREE_def SPINLOCK_USED_def)

end
