(* ===== verification/Ept.thy ===== *)
theory Ept
  imports Pf_Alloc
begin

text \<open>
  Extended page tables, which define the memory of a guest: \<^verbatim>\<open>arch/x64/vmx/ept.c\<close> with the entry
  formats of \<^verbatim>\<open>ept_types.h\<close> and \<^verbatim>\<open>ept.h\<close>. A paging structure is an array of 512 entries at the
  virtual address of its page; new structures come from the page frame allocator of \<open>Pf_Alloc\<close>. The
  translation by the processor is \<open>walk\<close>. The loops get fuel; \<open>TABLE_FUEL\<close> is enough for a table.
\<close>

section \<open>Entries\<close>

record ept_mapping_info =
  guest_paddr_start :: gpaddr
  req_bytes :: u64
  ept_offset :: u64
  no_page_flags :: u64
  page_map_flags :: u64
  use_gb_mappings :: bool
  use_mb_mappings :: bool

datatype ept_error = EPT_SUCCESS | EPT_RANGE_ALREADY_MAPPED | EPT_PARTS_OF_RANGE_ALREADY_MAPPED | EPT_ERROR

text \<open>\<open>max_phys_addr\<close> is the value of \<^verbatim>\<open>MAX_PHYS_ADDR\<close> on the current processor.\<close>

record ept_state =
  tables :: "virt_addr \<Rightarrow> nat \<Rightarrow> u64"
  frames :: pf_bitmap_allocator
  max_phys_addr :: u64

definition EPT_MAPS_PAGE :: u64 where
  "EPT_MAPS_PAGE = U64_LSHIFT 1 7"

definition EPT_RWX :: u64 where
  "EPT_RWX = (U64_LSHIFT 1 0 OR U64_LSHIFT 1 1) OR U64_LSHIFT 1 2"

definition EPT_MEM_TYPE_WB_FLAG :: u64 where
  "EPT_MEM_TYPE_WB_FLAG = U64_LSHIFT 6 3"

text \<open>The bit field \<^verbatim>\<open>paddr\<close>, bits 12 to 51 of an entry and of the EPT pointer.\<close>

definition paddr_field :: "u64 \<Rightarrow> u64" where
  "paddr_field raw = take_bit 40 (drop_bit 12 raw)"

definition set_paddr_field :: "u64 \<Rightarrow> u64 \<Rightarrow> u64" where
  "set_paddr_field raw v = (raw AND NOT (push_bit 12 (mask 40))) OR push_bit 12 (take_bit 40 v)"

definition eptp_set_paddr :: "u64 \<Rightarrow> u64 \<Rightarrow> phys_addr \<Rightarrow> u64" where
  "eptp_set_paddr mx eptp paddr = set_paddr_field eptp (drop_bit PAGE_SHIFT paddr AND mx)"

definition ept_pml4e_set_paddr :: "u64 \<Rightarrow> u64 \<Rightarrow> phys_addr \<Rightarrow> u64" where
  "ept_pml4e_set_paddr mx pml4e paddr = set_paddr_field pml4e (drop_bit PAGE_SHIFT paddr AND mx)"

definition ept_pdpte_set_pf_paddr :: "u64 \<Rightarrow> u64 \<Rightarrow> phys_addr \<Rightarrow> u64" where
  "ept_pdpte_set_pf_paddr mx pdpte paddr = set_paddr_field pdpte (push_bit 18 (drop_bit 30 (paddr AND mx)))"

definition ept_pdpte_set_paddr :: "u64 \<Rightarrow> u64 \<Rightarrow> phys_addr \<Rightarrow> u64" where
  "ept_pdpte_set_paddr mx pdpte paddr = set_paddr_field pdpte (drop_bit PAGE_SHIFT paddr AND mx)"

definition ept_pde_set_pf_paddr :: "u64 \<Rightarrow> u64 \<Rightarrow> phys_addr \<Rightarrow> u64" where
  "ept_pde_set_pf_paddr mx pde paddr = set_paddr_field pde (push_bit 9 (drop_bit 20 (paddr AND mx)))"

definition ept_pde_set_paddr :: "u64 \<Rightarrow> u64 \<Rightarrow> phys_addr \<Rightarrow> u64" where
  "ept_pde_set_paddr mx pde paddr = set_paddr_field pde (drop_bit PAGE_SHIFT paddr AND mx)"

definition ept_pte_set_paddr :: "u64 \<Rightarrow> u64 \<Rightarrow> phys_addr \<Rightarrow> u64" where
  "ept_pte_set_paddr mx pte paddr = set_paddr_field pte (drop_bit PAGE_SHIFT paddr AND mx)"

definition eptp_read_paddr :: "u64 \<Rightarrow> phys_addr" where
  "eptp_read_paddr eptp = push_bit PAGE_SHIFT (paddr_field eptp)"

definition ept_pml4e_read_paddr :: "u64 \<Rightarrow> phys_addr" where
  "ept_pml4e_read_paddr pml4e = push_bit PAGE_SHIFT (paddr_field pml4e)"

definition ept_pdpte_read_paddr :: "u64 \<Rightarrow> phys_addr" where
  "ept_pdpte_read_paddr pdpte = push_bit PAGE_SHIFT (paddr_field pdpte)"

definition ept_pdpte_read_pf_paddr :: "u64 \<Rightarrow> phys_addr" where
  "ept_pdpte_read_pf_paddr pdpte = push_bit PAGE_SHIFT (paddr_field pdpte)"

definition ept_pde_read_paddr :: "u64 \<Rightarrow> phys_addr" where
  "ept_pde_read_paddr pde = push_bit PAGE_SHIFT (paddr_field pde)"

definition ept_pde_read_pf_paddr :: "u64 \<Rightarrow> phys_addr" where
  "ept_pde_read_pf_paddr pde = push_bit PAGE_SHIFT (paddr_field pde)"

definition is_ept_entry_present :: "u64 \<Rightarrow> bool" where
  "is_ept_entry_present raw_entry =
     (let lower_bits_zero = (raw_entry AND 7 = 0);
          bit10_set = IS_SET raw_entry (U64_LSHIFT 1 10)
      in \<not> lower_bits_zero \<or> bit10_set)"

definition ept_entry_maps_page :: "u64 \<Rightarrow> bool" where
  "ept_entry_maps_page raw_entry \<longleftrightarrow> raw_entry AND EPT_MAPS_PAGE \<noteq> 0"

section \<open>Index and block arithmetic\<close>

definition get_ept_xtable_block_end :: "u64 \<Rightarrow> nat \<Rightarrow> u64" where
  "get_ept_xtable_block_end addr mask_bits = addr OR (U64_LSHIFT 1 mask_bits - 1)"

definition get_ept_pml4e_block_end :: "u64 \<Rightarrow> u64" where
  "get_ept_pml4e_block_end addr = get_ept_xtable_block_end addr 39"

definition get_ept_pdpte_block_end :: "u64 \<Rightarrow> u64" where
  "get_ept_pdpte_block_end addr = get_ept_xtable_block_end addr 30"

definition get_ept_pd_block_end :: "u64 \<Rightarrow> u64" where
  "get_ept_pd_block_end addr = get_ept_xtable_block_end addr 21"

definition get_ept_pt_block_end :: "u64 \<Rightarrow> u64" where
  "get_ept_pt_block_end addr = get_ept_xtable_block_end addr 12"

definition get_ept_xentry_index :: "u64 \<Rightarrow> nat \<Rightarrow> nat" where
  "get_ept_xentry_index addr msb_pos = unat (drop_bit 55 (push_bit (63 - msb_pos) addr))"

definition get_ept_pml4_index :: "u64 \<Rightarrow> nat" where
  "get_ept_pml4_index addr = get_ept_xentry_index addr 47"

definition get_ept_pdpt_index :: "u64 \<Rightarrow> nat" where
  "get_ept_pdpt_index addr = get_ept_xentry_index addr 38"

definition get_ept_pd_index :: "u64 \<Rightarrow> nat" where
  "get_ept_pd_index addr = get_ept_xentry_index addr 29"

definition get_ept_pt_index :: "u64 \<Rightarrow> nat" where
  "get_ept_pt_index addr = get_ept_xentry_index addr 20"

definition create_ept_mapping_info :: "gpaddr \<Rightarrow> u64 \<Rightarrow> phys_addr \<Rightarrow> ept_mapping_info" where
  "create_ept_mapping_info start bytes target_host_paddr =
     \<lparr>guest_paddr_start = start, req_bytes = bytes, ept_offset = target_host_paddr - start,
      no_page_flags = 0, page_map_flags = 0, use_gb_mappings = False, use_mb_mappings = False\<rparr>"

text \<open>The argument is the value of the capability register.\<close>

definition try_use_gb_mappings :: "u64 \<Rightarrow> ept_mapping_info \<Rightarrow> ept_mapping_info" where
  "try_use_gb_mappings ept_cap_msr info = info\<lparr>use_gb_mappings := IS_SET ept_cap_msr (U64_LSHIFT 1 17)\<rparr>"

definition try_use_mb_mappings :: "u64 \<Rightarrow> ept_mapping_info \<Rightarrow> ept_mapping_info" where
  "try_use_mb_mappings ept_cap_msr info = info\<lparr>use_mb_mappings := IS_SET ept_cap_msr (U64_LSHIFT 1 16)\<rparr>"

definition should_do_gb_mapping :: "gpaddr \<Rightarrow> gpaddr \<Rightarrow> ept_mapping_info \<Rightarrow> bool" where
  "should_do_gb_mapping gpa_start gpa_end info =
     (if \<not> use_gb_mappings info then False
      else if gpa_end - gpa_start + 1 < push_bit 30 1 then False
      else if gpa_start mod push_bit 30 1 \<noteq> 0 then False
      else if (gpa_start + ept_offset info) mod push_bit 30 1 \<noteq> 0 then False
      else True)"

definition should_do_mb_mapping :: "gpaddr \<Rightarrow> gpaddr \<Rightarrow> ept_mapping_info \<Rightarrow> bool" where
  "should_do_mb_mapping gpa_start gpa_end info =
     (if \<not> use_mb_mappings info then False
      else if gpa_end - gpa_start + 1 < push_bit 20 1 then False
      else if gpa_start mod push_bit 20 1 \<noteq> 0 then False
      else if (gpa_start + ept_offset info) mod push_bit 20 1 \<noteq> 0 then False
      else True)"

section \<open>Paging structures\<close>

definition set_entry :: "ept_state \<Rightarrow> virt_addr \<Rightarrow> nat \<Rightarrow> u64 \<Rightarrow> ept_state" where
  "set_entry s t i e = s\<lparr>tables := (tables s)(t := (tables s t)(i := e))\<rparr>"

text \<open>The physical address of a new zeroed structure, or 0.\<close>

definition allocate_ept_paging_structure :: "ept_state \<Rightarrow> (phys_addr \<times> ept_state) run" where
  "allocate_ept_paging_structure s =
     andThen (get_page_raw (frames s)) (\<lambda>(r, a).
       case r of
         None \<Rightarrow> Inr (0, s\<lparr>frames := a\<rparr>)
       | Some ept_table_ptr \<Rightarrow>
           Inr (ept_table_ptr,
             s\<lparr>frames := a, tables := (tables s)(phys_to_virt ept_table_ptr := \<lambda>_. 0)\<rparr>))"

text \<open>
  \<^verbatim>\<open>__init_pd_table_entry\<close>, \<^verbatim>\<open>__init_pdpt_entry\<close> and \<^verbatim>\<open>__init_pml4_entry\<close> set entry \<open>i\<close> of table \<open>t\<close>; the result is
  \<open>False\<close> for the error code.
\<close>

definition init_pd_table_entry :: "ept_state \<Rightarrow> virt_addr \<Rightarrow> nat \<Rightarrow> ept_mapping_info \<Rightarrow> (bool \<times> ept_state) run" where
  "init_pd_table_entry s t i info =
     andThen (allocate_ept_paging_structure s) (\<lambda>(ept_pt_table_ptr, s).
       if ept_pt_table_ptr = 0 then Inr (False, s)
       else Inr (True, set_entry s t i (ept_pde_set_paddr (max_phys_addr s) (tables s t i) ept_pt_table_ptr OR no_page_flags info)))"

definition init_pdpt_entry :: "ept_state \<Rightarrow> virt_addr \<Rightarrow> nat \<Rightarrow> ept_mapping_info \<Rightarrow> (bool \<times> ept_state) run" where
  "init_pdpt_entry s t i info =
     andThen (allocate_ept_paging_structure s) (\<lambda>(ept_pd_table_ptr, s).
       if ept_pd_table_ptr = 0 then Inr (False, s)
       else Inr (True, set_entry s t i (ept_pdpte_set_paddr (max_phys_addr s) (tables s t i) ept_pd_table_ptr OR no_page_flags info)))"

definition init_pml4_entry :: "ept_state \<Rightarrow> virt_addr \<Rightarrow> nat \<Rightarrow> ept_mapping_info \<Rightarrow> (bool \<times> ept_state) run" where
  "init_pml4_entry s t i info =
     andThen (allocate_ept_paging_structure s) (\<lambda>(ept_pdpt_ptr, s).
       if ept_pdpt_ptr = 0 then Inr (False, s)
       else Inr (True, set_entry s t i (ept_pml4e_set_paddr (max_phys_addr s) (tables s t i) ept_pdpt_ptr OR no_page_flags info)))"

section \<open>Mapping\<close>

definition TABLE_FUEL :: nat where
  "TABLE_FUEL = 513"

fun do_ept_pt_mapping :: "nat \<Rightarrow> ept_state \<Rightarrow> virt_addr \<Rightarrow> gpaddr \<Rightarrow> gpaddr \<Rightarrow> ept_mapping_info \<Rightarrow> (ept_error \<times> ept_state) run" where
  "do_ept_pt_mapping 0 s t curr_start guest_end info = Inl Spins"
| "do_ept_pt_mapping (Suc fuel) s t curr_start guest_end info =
     (if curr_start \<le> guest_end then
        let curr_end = MIN_c guest_end (get_ept_pt_block_end curr_start);
            i = get_ept_pt_index curr_start;
            e = tables s t i
        in if is_ept_entry_present e then Inr (EPT_RANGE_ALREADY_MAPPED, s)
           else
             let e = ept_pte_set_paddr (max_phys_addr s) e (curr_start + ept_offset info) OR page_map_flags info
             in do_ept_pt_mapping fuel (set_entry s t i e) t (curr_end + 1) guest_end info
      else Inr (EPT_SUCCESS, s))"

fun do_ept_pd_mapping :: "nat \<Rightarrow> ept_state \<Rightarrow> virt_addr \<Rightarrow> gpaddr \<Rightarrow> gpaddr \<Rightarrow> ept_mapping_info \<Rightarrow> (ept_error \<times> ept_state) run" where
  "do_ept_pd_mapping 0 s t curr_start guest_end info = Inl Spins"
| "do_ept_pd_mapping (Suc fuel) s t curr_start guest_end info =
     (if curr_start \<le> guest_end then
        let curr_end = MIN_c guest_end (get_ept_pd_block_end curr_start);
            i = get_ept_pd_index curr_start;
            e = tables s t i;
            is_present = is_ept_entry_present e
        in if is_present \<and> ept_entry_maps_page e then Inr (EPT_RANGE_ALREADY_MAPPED, s)
           else if is_present \<and> should_do_mb_mapping curr_start curr_end info then Inr (EPT_PARTS_OF_RANGE_ALREADY_MAPPED, s)
           else if \<not> is_present \<and> should_do_mb_mapping curr_start curr_end info then
             let e = ept_pde_set_pf_paddr (max_phys_addr s) e (curr_start + ept_offset info) OR page_map_flags info
             in do_ept_pd_mapping fuel (set_entry s t i e) t (curr_end + 1) guest_end info
           else
             andThen (if is_present then Inr (True, s) else init_pd_table_entry s t i info) (\<lambda>(ok, s).
               if \<not> ok then Inr (EPT_ERROR, s)
               else
                 let pt_ptr = phys_to_virt (ept_pde_read_paddr (tables s t i)) in
                 andThen (do_ept_pt_mapping TABLE_FUEL s pt_ptr curr_start curr_end info) (\<lambda>(ret, s).
                   if ret \<noteq> EPT_SUCCESS then Inr (ret, s)
                   else do_ept_pd_mapping fuel s t (curr_end + 1) guest_end info))
      else Inr (EPT_SUCCESS, s))"

fun do_ept_pdpt_mapping :: "nat \<Rightarrow> ept_state \<Rightarrow> virt_addr \<Rightarrow> gpaddr \<Rightarrow> gpaddr \<Rightarrow> ept_mapping_info \<Rightarrow> (ept_error \<times> ept_state) run" where
  "do_ept_pdpt_mapping 0 s t curr_start guest_end info = Inl Spins"
| "do_ept_pdpt_mapping (Suc fuel) s t curr_start guest_end info =
     (if curr_start \<le> guest_end then
        let curr_end = MIN_c guest_end (get_ept_pdpte_block_end curr_start);
            i = get_ept_pdpt_index curr_start;
            e = tables s t i;
            is_present = is_ept_entry_present e
        in if is_present \<and> ept_entry_maps_page e then Inr (EPT_RANGE_ALREADY_MAPPED, s)
           else if is_present \<and> should_do_gb_mapping curr_start curr_end info then Inr (EPT_PARTS_OF_RANGE_ALREADY_MAPPED, s)
           else if \<not> is_present \<and> should_do_gb_mapping curr_start curr_end info then
             let e = ept_pdpte_set_pf_paddr (max_phys_addr s) e (curr_start + ept_offset info) OR page_map_flags info
             in do_ept_pdpt_mapping fuel (set_entry s t i e) t (curr_end + 1) guest_end info
           else
             andThen (if is_present then Inr (True, s) else init_pdpt_entry s t i info) (\<lambda>(ok, s).
               if \<not> ok then Inr (EPT_ERROR, s)
               else
                 let pd_ptr = phys_to_virt (ept_pdpte_read_paddr (tables s t i)) in
                 andThen (do_ept_pd_mapping TABLE_FUEL s pd_ptr curr_start curr_end info) (\<lambda>(ret, s).
                   if ret \<noteq> EPT_SUCCESS then Inr (ret, s)
                   else do_ept_pdpt_mapping fuel s t (curr_end + 1) guest_end info))
      else Inr (EPT_SUCCESS, s))"

fun do_ept_pml4_mapping :: "nat \<Rightarrow> ept_state \<Rightarrow> virt_addr \<Rightarrow> gpaddr \<Rightarrow> gpaddr \<Rightarrow> ept_mapping_info \<Rightarrow> (ept_error \<times> ept_state) run" where
  "do_ept_pml4_mapping 0 s t curr_start guest_end info = Inl Spins"
| "do_ept_pml4_mapping (Suc fuel) s t curr_start guest_end info =
     (if curr_start \<le> guest_end then
        let curr_end = MIN_c guest_end (get_ept_pml4e_block_end curr_start);
            i = get_ept_pml4_index curr_start
        in andThen (if is_ept_entry_present (tables s t i) then Inr (True, s) else init_pml4_entry s t i info) (\<lambda>(ok, s).
             if \<not> ok then Inr (EPT_ERROR, s)
             else
               let pdpt_ptr = phys_to_virt (ept_pml4e_read_paddr (tables s t i)) in
               andThen (do_ept_pdpt_mapping TABLE_FUEL s pdpt_ptr curr_start curr_end info) (\<lambda>(ret, s).
                 if ret \<noteq> EPT_SUCCESS then Inr (ret, s)
                 else do_ept_pml4_mapping fuel s t (curr_end + 1) guest_end info))
      else Inr (EPT_SUCCESS, s))"

definition add_ept_mapping :: "nat \<Rightarrow> ept_state \<Rightarrow> u64 \<Rightarrow> ept_mapping_info \<Rightarrow> (ept_error \<times> ept_state) run" where
  "add_ept_mapping fuel s eptp info =
     (let pml4_ptr = phys_to_virt (eptp_read_paddr eptp);
          gpa_start = PAGE_ALIGN (guest_paddr_start info);
          gpa_end = guest_paddr_start info + req_bytes info
      in do_ept_pml4_mapping fuel s pml4_ptr gpa_start gpa_end info)"

text \<open>The error code, the EPT pointer and the state; \<^verbatim>\<open>mem_type\<close> and \<^verbatim>\<open>page_walk_len\<close> are bits 0 to 2 and 3 to 5.\<close>

definition create_ept_mapping :: "nat \<Rightarrow> ept_state \<Rightarrow> ept_mapping_info \<Rightarrow> (ept_error \<times> u64 \<times> ept_state) run" where
  "create_ept_mapping fuel s info =
     (let eptp = 6 OR push_bit 3 3 in
      andThen (allocate_ept_paging_structure s) (\<lambda>(pml4_ptr, s).
        if pml4_ptr = 0 then Inr (EPT_ERROR, eptp, s)
        else
          let eptp = eptp_set_paddr (max_phys_addr s) eptp pml4_ptr in
          andThen (add_ept_mapping fuel s eptp info) (\<lambda>(ret, s). Inr (ret, eptp, s))))"

section \<open>Release\<close>

text \<open>
  \<open>i\<close> is the loop variable. The entry pointer is advanced by \<^verbatim>\<open>SCALE_BLOCK_INDEX(i)\<close> entries, not bytes; an access
  beyond the 512 entries of the table is outside of it.
\<close>

fun destroy_loop :: "nat \<Rightarrow> (ept_state \<Rightarrow> virt_addr \<Rightarrow> ept_state run) \<Rightarrow> ept_state \<Rightarrow> virt_addr \<Rightarrow> ept_state run" where
  "destroy_loop 0 destroy s t = Inr s"
| "destroy_loop (Suc k) destroy s t =
     (let i = 512 - Suc k in
      if 8 * i < 512 then
        let e = tables s t (8 * i) in
        andThen (if is_ept_entry_present e \<and> \<not> ept_entry_maps_page e
                 then destroy s (phys_to_virt (drop_bit 12 (paddr_field e))) else Inr s)
          (\<lambda>s. destroy_loop k destroy s t)
      else Inl OutOfBounds)"

fun destroy_ept_table :: "nat \<Rightarrow> ept_state \<Rightarrow> virt_addr \<Rightarrow> ept_state run" where
  "destroy_ept_table 0 s t = Inl Spins"
| "destroy_ept_table (Suc fuel) s t =
     andThen (destroy_loop 512 (destroy_ept_table fuel) s t) (\<lambda>s.
     andThen (free_page (frames s) t) (\<lambda>a. Inr (s\<lparr>frames := a\<rparr>)))"

definition destroy_ept_mapping :: "nat \<Rightarrow> ept_state \<Rightarrow> u64 \<Rightarrow> (u64 \<times> ept_state) run" where
  "destroy_ept_mapping fuel s eptp =
     (let pml4_ptr = eptp_read_paddr eptp in
      if pml4_ptr = 0 then Inr (eptp, s)
      else andThen (destroy_ept_table fuel s (phys_to_virt pml4_ptr)) (\<lambda>s. Inr (eptp_set_paddr (max_phys_addr s) eptp 0, s)))"

section \<open>Translation\<close>

text \<open>
  The address translation of the processor: the entry that maps an address in a table of level \<open>l\<close> (1 for the
  last one), and the host physical address for the four levels.
\<close>

definition idx :: "nat \<Rightarrow> gpaddr \<Rightarrow> nat" where
  "idx l g = unat g div 2 ^ (9 * l + 3) mod 512"

fun walk :: "nat \<Rightarrow> (virt_addr \<Rightarrow> nat \<Rightarrow> u64) \<Rightarrow> virt_addr \<Rightarrow> gpaddr \<Rightarrow> (nat \<times> u64) option" where
  "walk 0 m t g = None"
| "walk (Suc l) m t g =
     (let e = m t (idx (Suc l) g) in
      if \<not> is_ept_entry_present e then None
      else if l = 0 \<or> ept_entry_maps_page e then Some (Suc l, e)
      else walk l m (phys_to_virt (push_bit 12 (paddr_field e))) g)"

definition translate :: "ept_state \<Rightarrow> u64 \<Rightarrow> gpaddr \<Rightarrow> phys_addr option" where
  "translate s eptp g =
     (case walk 4 (tables s) (phys_to_virt (eptp_read_paddr eptp)) g of
        None \<Rightarrow> None
      | Some (l, e) \<Rightarrow> Some (push_bit 12 (paddr_field e) + of_nat (unat g mod 2 ^ (9 * l + 3))))"

end
