(* ===== verification/Ept_Tree.thy ===== *)
theory Ept_Tree
  imports Ept
begin

text \<open>
  Correctness of the EPT construction of \<open>Ept\<close> with 4 KB pages: the paging structures form a tree of distinct
  pages, all marked as used in the frame allocator, and mapping a range changes the translation exactly on
  this range. The proof is by levels: the locale \<open>table_level\<close> derives the contract of a level from the
  contract of the next one, and is interpreted for the page directory, the page directory pointer table and
  the PML4 table.
\<close>

section \<open>Arithmetic of indices, blocks and entries\<close>

lemma index_idx:
  assumes "l \<le> 4"
  shows "get_ept_xentry_index g (9 * l + 11) = idx l g"
proof -
  let ?k = "52 - 9 * l"
  have k: "63 - (9 * l + 11) = ?k" "(2 :: nat) ^ 55 = 2 ^ (9 * l + 3) * 2 ^ ?k" 
    using assms by (auto simp flip: power_add)
  have "get_ept_xentry_index g (9 * l + 11) = drop_bit 55 (take_bit 64 (push_bit ?k (unat g)))"
    unfolding get_ept_xentry_index_def k(1) by (simp add: unsigned_drop_bit_eq unsigned_push_bit_eq)
  also have "\<dots> = take_bit 9 (drop_bit 55 (push_bit ?k (unat g)))" by (simp add: drop_bit_take_bit)
  also have "\<dots> = idx l g"
    unfolding idx_def take_bit_eq_mod drop_bit_eq_div push_bit_eq_mult k(2) by simp
  finally show ?thesis .
qed

lemma or_mask_nat: "x OR mask b = x div 2 ^ b * 2 ^ b + (2 ^ b - 1)" for x :: nat
proof -
  have "x OR mask b = push_bit b (drop_bit b x) OR mask b"
    by (rule bit_eqI) (auto simp: bit_simps)
  also have "\<dots> = push_bit b (drop_bit b x) + mask b"
    by (rule disjunctive_add_eq_or[symmetric]) (auto intro!: bit_eqI simp: bit_simps)
  finally show ?thesis by (simp add: push_bit_eq_mult drop_bit_eq_div mask_eq_exp_minus_1)
qed

lemma block_end: 
  assumes "b < 64"
  shows "unat (get_ept_xtable_block_end g b) = unat g div 2 ^ b * 2 ^ b + (2 ^ b - 1)" 
proof -
  have "get_ept_xtable_block_end g b = g OR mask b"
    by (simp add: get_ept_xtable_block_end_def U64_LSHIFT_def mask_eq_exp_minus_1)
  then have "unat (get_ept_xtable_block_end g b) = unat g OR mask b"
    using assms by (auto intro!: bit_eqI simp: bit_simps)
  then show ?thesis by (simp only: or_mask_nat)
qed

lemma low_flags:
  fixes f :: u64
  assumes "drop_bit 12 f = 0"
  shows "\<not> bit f (n + 12)"
proof -
  have "bit (drop_bit 12 f) n = bit f (12 + n)" by (simp only: bit_drop_bit_eq comp_def)
  then show ?thesis using assms by (simp add: add.commute)
qed

lemma field_set: 
  assumes "drop_bit 12 f = 0"
  shows "paddr_field (set_paddr_field raw v OR f) = take_bit 40 v" 
proof (rule bit_eqI)
  fix n 
  have "\<not> bit f (n + 12)" using low_flags[OF assms] .
  then show "bit (paddr_field (set_paddr_field raw v OR f)) n = bit (take_bit 40 v) n"
    by (auto simp: paddr_field_def set_paddr_field_def bit_simps add.commute)
qed

lemma set_zero_low: "n < 12 \<Longrightarrow> bit (set_paddr_field 0 v OR f) n = bit f n"
  by (auto simp: set_paddr_field_def bit_simps)

section \<open>The tree of paging structures\<close>

abbreviation child :: "u64 \<Rightarrow> virt_addr" where
  "child e \<equiv> phys_to_virt (push_bit 12 (paddr_field e))"

text \<open>Does entry \<open>e\<close> of a table of level \<open>Suc l\<close> refer to another table?\<close>

definition inner :: "nat \<Rightarrow> u64 \<Rightarrow> bool" where
  "inner l e \<longleftrightarrow> l \<noteq> 0 \<and> is_ept_entry_present e \<and> \<not> ept_entry_maps_page e"

text \<open>The pages of the tree, and its shape: unused entries are 0 and no page occurs twice.\<close>

fun footprint :: "nat \<Rightarrow> (virt_addr \<Rightarrow> nat \<Rightarrow> u64) \<Rightarrow> virt_addr \<Rightarrow> virt_addr set" where
  "footprint 0 m t = {}"
| "footprint (Suc l) m t = insert t (\<Union>i \<in> {i. i < 512 \<and> inner l (m t i)}. footprint l m (child (m t i)))"

fun tree :: "nat \<Rightarrow> (virt_addr \<Rightarrow> nat \<Rightarrow> u64) \<Rightarrow> virt_addr \<Rightarrow> bool" where
  "tree 0 m t \<longleftrightarrow> True"
| "tree (Suc l) m t \<longleftrightarrow>
     (\<forall>i < 512. is_ept_entry_present (m t i) \<or> m t i = 0)
     \<and> (\<forall>i < 512. inner l (m t i) \<longrightarrow> tree l m (child (m t i)) \<and> t \<notin> footprint l m (child (m t i)))
     \<and> (\<forall>i < 512. \<forall>j < 512. inner l (m t i) \<and> inner l (m t j) \<and> i \<noteq> j \<longrightarrow>
          footprint l m (child (m t i)) \<inter> footprint l m (child (m t j)) = {})"

lemma idx_less [simp]: "idx l g < 512"
  by (simp add: idx_def)

lemma footprint_child: "i < 512 \<Longrightarrow> inner l (m t i) \<Longrightarrow> footprint l m (child (m t i)) \<subseteq> footprint (Suc l) m t"
  by auto

lemma footprint_self: "t \<in> footprint (Suc l) m t"
  by simp

lemma footprint_cong:
  "(\<And>v. v \<in> footprint l m t \<Longrightarrow> m' v = m v) \<Longrightarrow> footprint l m' t = footprint l m t"
proof (induction l arbitrary: t)
  case (Suc l)
  have t: "m' t = m t" using Suc.prems by simp
  have "footprint l m' (child (m t i)) = footprint l m (child (m t i))" if "i < 512" "inner l (m t i)" for i
    by (rule Suc.IH) (use Suc.prems that in auto)
  then show ?case using t by auto
qed simp

lemma tree_cong:
  "(\<And>v. v \<in> footprint l m t \<Longrightarrow> m' v = m v) \<Longrightarrow> tree l m t \<Longrightarrow> tree l m' t"
proof (induction l arbitrary: t)
  case (Suc l)
  have t: "m' t = m t" using Suc.prems by simp
  have sub: "footprint l m' (child (m t i)) = footprint l m (child (m t i))" "tree l m' (child (m t i))"
    if "i < 512" "inner l (m t i)" for i
    using Suc.prems that by (auto intro!: footprint_cong Suc.IH)
  show ?case using Suc.prems(2) sub by (simp add: t)
qed simp

lemma walk_cong:
  "(\<And>v. v \<in> footprint l m t \<Longrightarrow> m' v = m v) \<Longrightarrow> walk l m' t g = walk l m t g"
proof (induction l arbitrary: t)
  case (Suc l)
  have t: "m' t = m t" using Suc.prems by simp
  have "walk l m' (child (m t (idx (Suc l) g))) g = walk l m (child (m t (idx (Suc l) g))) g" if "inner l (m t (idx (Suc l) g))"
    by (rule Suc.IH) (use Suc.prems footprint_child[of "idx (Suc l) g" l m t] that in auto)
  then show ?case by (auto simp: t inner_def Let_def)
qed simp

text \<open>The walk at an inner and at an absent entry.\<close>

lemma walk_inner: "inner l (m t (idx (Suc l) g)) \<Longrightarrow> walk (Suc l) m t g = walk l m (child (m t (idx (Suc l) g))) g"
  by (simp add: inner_def Let_def)

lemma walk_absent: "\<not> is_ept_entry_present (m t (idx (Suc l) g)) \<Longrightarrow> walk (Suc l) m t g = None"
  by (simp add: Let_def)

declare walk.simps(2) [simp del]

section \<open>Ownership\<close>

definition owned :: "ept_state \<Rightarrow> virt_addr set" where
  "owned s = {phys_to_virt (pfn_to_phys (of_nat f)) | f. f < frame_count (frames s) \<and> frame_used (bitmap (frames s)) f}"

text \<open>
  The allocator is valid, hands out neither frame 0 nor frames outside the reach of an entry, and the
  physical address mask of the processor does not cut off frame numbers.
\<close>

definition state_ok :: "ept_state \<Rightarrow> bool" where
  "state_ok s \<longleftrightarrow> alloc_ok (frames s) \<and> frame_used (bitmap (frames s)) 0 \<and> frame_count (frames s) < 2 ^ 40
     \<and> (\<forall>f < 2 ^ 40. of_nat f AND max_phys_addr s = of_nat f)"

text \<open>A state in which the allocator has nothing left.\<close>

definition exhausted :: "ept_state \<Rightarrow> bool" where
  "exhausted s \<longleftrightarrow> get_page_raw (frames s) = Inr (None, frames s)"

definition tree_in :: "nat \<Rightarrow> ept_state \<Rightarrow> virt_addr \<Rightarrow> bool" where
  "tree_in l s t \<longleftrightarrow> state_ok s \<and> tree l (tables s) t \<and> footprint l (tables s) t \<subseteq> owned s"

text \<open>
  \<open>s'\<close> extends \<open>s\<close> within the tree at \<open>t\<close>: used frames stay used, the tree grows by unused frames only, and all
  other used pages keep their contents.
\<close>

definition extends :: "nat \<Rightarrow> virt_addr \<Rightarrow> ept_state \<Rightarrow> ept_state \<Rightarrow> bool" where
  "extends l t s s' \<longleftrightarrow> owned s \<subseteq> owned s' \<and> max_phys_addr s' = max_phys_addr s
     \<and> footprint l (tables s') t \<subseteq> footprint l (tables s) t \<union> - owned s
     \<and> (\<forall>v \<in> owned s - footprint l (tables s) t. tables s' v = tables s v)"

lemma extends_refl: "extends l t s s"
  by (simp add: extends_def)

lemma extends_trans:
  assumes "extends l t s s'" "extends l t s' s''"
  shows "extends l t s s''"
proof -
  have "tables s'' v = tables s v" if "v \<in> owned s - footprint l (tables s) t" for v
  proof -
    have "v \<in> owned s' - footprint l (tables s') t" using assms(1) that unfolding extends_def by blast
    then have "tables s'' v = tables s' v" using assms(2) unfolding extends_def by blast
    also have "\<dots> = tables s v" using assms(1) that unfolding extends_def by blast
    finally show ?thesis .
  qed
  then show ?thesis using assms unfolding extends_def by auto
qed

lemma pfn_to_phys_inj:
  assumes "f < 2 ^ 40" "f' < 2 ^ 40" "phys_to_virt (pfn_to_phys (of_nat f)) = phys_to_virt (pfn_to_phys (of_nat f'))"
  shows "f = f'"
proof -
  have "f < 2 ^ 52" "f' < 2 ^ 52" using assms(1,2) by simp_all
  then show ?thesis using pfn_of_pfn_to_phys assms(3) virt_phys_inverse(1) by metis
qed

lemma pfn_to_phys_nonzero:
  assumes "f < 2 ^ 40" "f \<noteq> 0"
  shows "pfn_to_phys (of_nat f) \<noteq> 0"
proof
  assume z: "pfn_to_phys (of_nat f) = 0"
  have "f < 2 ^ 52" using assms(1) by simp
  from pfn_of_pfn_to_phys[OF this] have "unat (phys_to_pfn 0) = f" unfolding z .
  then show False using assms(2) by (simp add: phys_to_pfn_def U64_RSHIFT_def)
qed

text \<open>Allocation of a paging structure.\<close>

lemma allocate_structure_cases:
  assumes ok: "state_ok s"
  obtains (full) s' where "allocate_ept_paging_structure s = Inr (0, s')" "exhausted s'"
  | (new) f s' where "allocate_ept_paging_structure s = Inr (pfn_to_phys (of_nat f), s')" "pfn_to_phys (of_nat f) \<noteq> 0" "f < 2 ^ 40"
      "state_ok s'" "phys_to_virt (pfn_to_phys (of_nat f)) \<notin> owned s"
      "owned s' = insert (phys_to_virt (pfn_to_phys (of_nat f))) (owned s)"
      "tables s' = (tables s)(phys_to_virt (pfn_to_phys (of_nat f)) := \<lambda>_. 0)" "max_phys_addr s' = max_phys_addr s"
proof -
  let ?a = "frames s"
  have a: "alloc_ok ?a" using ok by (simp add: state_ok_def)
  from pf.alloc_total[OF a, of 1] obtain r a' where r: "get_pages_raw ?a 1 = Inr (r, a')" "alloc_ok a'" "frame_count a' = frame_count ?a"
    by blast
  show thesis
  proof (cases r)
    case None
    then have "a' = ?a" using pf.alloc_none[OF a] r by simp
    then show thesis
      using r None by (intro full[of s]) (simp_all add: allocate_ept_paging_structure_def get_page_raw_def exhausted_def)
  next
    case (Some p)
    define f where "f = pfn_of p"
    have al: "p = pfn_to_phys (of_nat f)" "f < frame_count ?a" "\<not> frame_used (bitmap ?a) f"
      "\<And>j. j < frame_count ?a \<Longrightarrow> frame_used (bitmap a') j \<longleftrightarrow> j = f \<or> frame_used (bitmap ?a) j"
    proof -
      obtain f' where f': "p = pfn_to_phys (of_nat f')" "area_free ?a (unat (1 :: u64)) f'"
        using get_pages_raw_cases[OF a, of 1] r Some by auto
      then have "f' < 2 ^ 40" using ok by (auto simp: area_free_def state_ok_def)
      then have "f = f'" using f' pfn_of_pfn_to_phys[of f'] by (simp add: f_def)
      then show "p = pfn_to_phys (of_nat f)" using f' by simp
      show "f < frame_count ?a" "\<not> frame_used (bitmap ?a) f"
        "\<And>j. j < frame_count ?a \<Longrightarrow> frame_used (bitmap a') j \<longleftrightarrow> j = f \<or> frame_used (bitmap ?a) j"
        using pf.alloc_some[OF a r(1)[unfolded Some]] by (auto simp: f_def)
    qed
    have lt: "f < 2 ^ 40" using al(2) ok by (simp add: state_ok_def)
    have "f \<noteq> 0" using al(3) ok by (metis state_ok_def)
    then have nz: "pfn_to_phys (of_nat f) \<noteq> 0" using lt pfn_to_phys_nonzero by blast
    let ?v = "phys_to_virt (pfn_to_phys (of_nat f))"
    let ?s = "s\<lparr>frames := a', tables := (tables s)(?v := \<lambda>_. 0)\<rparr>"
    have "state_ok ?s" using ok r(2,3) al by (auto simp: state_ok_def)
    moreover have "?v \<notin> owned s"
    proof
      assume "?v \<in> owned s"
      then obtain f' where f': "?v = phys_to_virt (pfn_to_phys (of_nat f'))" "f' < frame_count ?a" "frame_used (bitmap ?a) f'"
        unfolding owned_def by blast
      moreover have "f' < 2 ^ 40" using f'(2) ok unfolding state_ok_def by linarith
      ultimately have "f = f'" using lt pfn_to_phys_inj by blast
      then show False using al(3) f'(3) by simp
    qed
    moreover have "owned ?s = insert ?v (owned s)" using al r(3) by (auto simp: owned_def)
    ultimately show thesis
      using r(1) Some al(1) nz lt
      by (intro new[of f ?s]) (simp_all add: allocate_ept_paging_structure_def get_page_raw_def)
  qed
qed

section \<open>The contract of a level\<close>

text \<open>\<open>region l\<close> is the part of the address above what a table of level \<open>l\<close> translates; \<open>region 0\<close> is the page number.\<close>

definition region :: "nat \<Rightarrow> gpaddr \<Rightarrow> nat" where
  "region l g = unat g div 2 ^ (9 * l + 12)"

lemma region_Suc: "region (Suc l) g = region l g div 512"
proof -
  have "(2 :: nat) ^ (9 * Suc l + 12) = 2 ^ (9 * l + 12) * 512" by (simp add: power_add)
  then show ?thesis unfolding region_def by (metis div_mult2_eq)
qed

lemma idx_region: "idx (Suc l) g = region l g mod 512"
proof -
  have "9 * Suc l + 3 = 9 * l + 12" by simp
  then show ?thesis unfolding idx_def region_def by metis
qed

lemma same_entry: "region (Suc l) g = region (Suc l) h \<Longrightarrow> idx (Suc l) g = idx (Suc l) h \<longleftrightarrow> region l g = region l h"
  unfolding region_Suc idx_region by (metis div_mult_mod_eq)

lemma region_le: "g \<le> h \<Longrightarrow> region l g \<le> region l h"
  by (simp add: region_def div_le_mono word_le_nat_alt)

lemma region_0: "region 0 g = region 0 h \<Longrightarrow> region l g = region l h"
  by (induction l) (simp_all add: region_Suc)

text \<open>The entry that maps the page of \<open>g\<close>.\<close>

definition leaf :: "ept_mapping_info \<Rightarrow> u64 \<Rightarrow> gpaddr \<Rightarrow> u64" where
  "leaf info mx g = set_paddr_field 0 (drop_bit 12 (PAGE_ALIGN g + ept_offset info) AND mx) OR page_map_flags info"

definition flags_ok :: "ept_mapping_info \<Rightarrow> bool" where
  "flags_ok info \<longleftrightarrow> drop_bit 12 (no_page_flags info) = 0 \<and> no_page_flags info AND 7 \<noteq> 0 \<and> no_page_flags info AND EPT_MAPS_PAGE = 0
     \<and> drop_bit 12 (page_map_flags info) = 0 \<and> page_map_flags info AND 7 \<noteq> 0"

text \<open>A page-aligned range within one table of level \<open>l\<close>, in which nothing is mapped.\<close>

definition unmapped :: "nat \<Rightarrow> ept_state \<Rightarrow> virt_addr \<Rightarrow> gpaddr \<Rightarrow> gpaddr \<Rightarrow> bool" where
  "unmapped l s t g0 g1 \<longleftrightarrow> tree_in l s t \<and> g0 \<le> g1 \<and> unat g1 < 2 ^ 48 \<and> region l g0 = region l g1 \<and> unat g0 mod 4096 = 0
     \<and> (\<forall>g. region l g = region l g0 \<and> region 0 g0 \<le> region 0 g \<and> region 0 g \<le> region 0 g1 \<longrightarrow> walk l (tables s) t g = None)"

definition mapped :: "ept_mapping_info \<Rightarrow> nat \<Rightarrow> ept_state \<Rightarrow> virt_addr \<Rightarrow> gpaddr \<Rightarrow> gpaddr \<Rightarrow> ept_state \<Rightarrow> bool" where
  "mapped info l s t g0 g1 s' \<longleftrightarrow> tree_in l s' t \<and> extends l t s s'
     \<and> (\<forall>g. region l g = region l g0 \<longrightarrow> walk l (tables s') t g =
          (if region 0 g0 \<le> region 0 g \<and> region 0 g \<le> region 0 g1 then Some (1, leaf info (max_phys_addr s) g)
           else walk l (tables s) t g))"

definition maps :: "ept_mapping_info \<Rightarrow> nat \<Rightarrow> (ept_state \<Rightarrow> virt_addr \<Rightarrow> gpaddr \<Rightarrow> gpaddr \<Rightarrow> (ept_error \<times> ept_state) run) \<Rightarrow> bool" where
  "maps info l F \<longleftrightarrow> flags_ok info \<longrightarrow> (\<forall>s t g0 g1. unmapped l s t g0 g1 \<longrightarrow>
     (\<exists>r s'. F s t g0 g1 = Inr (r, s') \<and> (r = EPT_SUCCESS \<and> mapped info l s t g0 g1 s' \<or> r = EPT_ERROR \<and> exhausted s')))"

lemma mapsE:
  assumes "maps info l F" "flags_ok info" "unmapped l s t g0 g1"
  obtains s' where "F s t g0 g1 = Inr (EPT_SUCCESS, s')" "mapped info l s t g0 g1 s'"
  | s' where "F s t g0 g1 = Inr (EPT_ERROR, s')" "exhausted s'"
  using assms unfolding maps_def by blast

lemma mapped_trans:
  assumes "mapped info l s t g0 h s1" "mapped info l s1 t h' g1 s2" "region l h' = region l g0"
    "region 0 h' = region 0 h + 1" "region 0 g0 \<le> region 0 h" "region 0 h < region 0 g1"
  shows "mapped info l s t g0 g1 s2"
proof -
  have m: "max_phys_addr s1 = max_phys_addr s" using assms(1) by (simp add: mapped_def extends_def)
  have "walk l (tables s2) t g = (if region 0 g0 \<le> region 0 g \<and> region 0 g \<le> region 0 g1
      then Some (1, leaf info (max_phys_addr s) g) else walk l (tables s) t g)" if g: "region l g = region l g0" for g
  proof -
    have "walk l (tables s2) t g = (if region 0 h' \<le> region 0 g \<and> region 0 g \<le> region 0 g1
        then Some (1, leaf info (max_phys_addr s1) g) else walk l (tables s1) t g)"
      using assms(2,3) g unfolding mapped_def by simp
    moreover have "walk l (tables s1) t g = (if region 0 g0 \<le> region 0 g \<and> region 0 g \<le> region 0 h
        then Some (1, leaf info (max_phys_addr s) g) else walk l (tables s) t g)"
      using assms(1) g unfolding mapped_def by simp
    ultimately show ?thesis using assms(4-6) m by auto
  qed
  moreover have "tree_in l s2 t" "extends l t s s2"
    using assms(1,2) extends_trans unfolding mapped_def by blast+
  ultimately show ?thesis unfolding mapped_def by blast
qed

section \<open>The loop over the entries of a table\<close>

text \<open>
  \<open>loop\<close> runs through the entries of a table of level \<open>Suc l\<close>, whose blocks have the size of \<open>region l\<close>, and calls
  \<open>block\<close> for the part of the range in each of them.
\<close>

locale block_loop =
  fixes info :: ept_mapping_info and l :: nat
    and block :: "ept_state \<Rightarrow> virt_addr \<Rightarrow> gpaddr \<Rightarrow> gpaddr \<Rightarrow> (ept_error \<times> ept_state) run"
    and loop :: "nat \<Rightarrow> ept_state \<Rightarrow> virt_addr \<Rightarrow> gpaddr \<Rightarrow> gpaddr \<Rightarrow> (ept_error \<times> ept_state) run"
  assumes level: "l < 4"
    and loop_done: "\<not> g0 \<le> g1 \<Longrightarrow> loop (Suc n) s t g0 g1 = Inr (EPT_SUCCESS, s)"
    and loop_step: "g0 \<le> g1 \<Longrightarrow> tree_in (Suc l) s t \<Longrightarrow> walk (Suc l) (tables s) t g0 = None \<Longrightarrow>
      unat g0 mod 4096 = 0 \<Longrightarrow> ce = MIN_c g1 (get_ept_xtable_block_end g0 (9 * l + 12)) \<Longrightarrow>
      loop (Suc n) s t g0 g1 = andThen (block s t g0 ce) (\<lambda>(r, s).
        if r \<noteq> EPT_SUCCESS then Inr (r, s) else loop n s t (ce + 1) g1)"
    and block_maps: "flags_ok info \<Longrightarrow> unmapped (Suc l) s t g0 ce \<Longrightarrow> region l g0 = region l ce \<Longrightarrow>
      \<exists>r s'. block s t g0 ce = Inr (r, s') \<and> (r = EPT_SUCCESS \<and> mapped info (Suc l) s t g0 ce s' \<or> r = EPT_ERROR \<and> exhausted s')"
begin

lemma block_bounds:
  assumes un: "unmapped (Suc l) s t g0 g1" and ce: "ce = MIN_c g1 (get_ept_xtable_block_end g0 (9 * l + 12))"
  shows "unmapped (Suc l) s t g0 ce" "region l g0 = region l ce"
    "ce \<noteq> g1 \<Longrightarrow> region l (ce + 1) = region l g0 + 1 \<and> region 0 (ce + 1) = region 0 ce + 1
       \<and> unat (ce + 1) mod 4096 = 0 \<and> ce + 1 \<le> g1"
proof -
  define B q C :: nat where "B = 2 ^ (9 * l + 12)" and "q = region l g0" and "C = 2 ^ (9 * l)"
  have B: "0 < B" "B = 4096 * C" "0 < C" by (simp_all add: B_def C_def power_add)
  let ?z = "get_ept_xtable_block_end g0 (9 * l + 12)"
  have z: "unat ?z = q * B + (B - 1)"
    using block_end[of "9 * l + 12" g0] level by (simp add: B_def q_def region_def)
  have le: "g0 \<le> g1" "unat g1 < 2 ^ 48" using un by (simp_all add: unmapped_def)
  have g0z: "g0 \<le> ?z"
    using mod_less_divisor[OF B(1), of "unat g0"] div_mult_mod_eq[of "unat g0" B]
    unfolding word_le_nat_alt z q_def region_def B_def[symmetric] by linarith
  have ce_le: "g0 \<le> ce" "ce \<le> g1" "ce \<le> ?z" using le(1) g0z by (auto simp: ce MIN_c_min)
  show reg: "region l g0 = region l ce"
  proof -
    have "q * B \<le> unat g0" by (simp add: q_def region_def B_def)
    then have "q * B \<le> unat ce" "unat ce < Suc q * B"
      using ce_le(1,3) z B(1) by (simp_all add: word_le_nat_alt)
    then have "unat ce div B = q" by (simp add: div_nat_eqI mult.commute)
    then show ?thesis by (simp add: q_def region_def B_def)
  qed
  have "region (Suc l) g0 = region (Suc l) ce" by (simp add: region_Suc reg)
  moreover have "unat ce < 2 ^ 48" using ce_le(2) le(2) by (simp add: word_le_nat_alt)
  ultimately show "unmapped (Suc l) s t g0 ce"
    using un ce_le region_le[OF ce_le(2), of 0] unfolding unmapped_def by (meson order_trans)
  assume ne: "ce \<noteq> g1"
  then have cez: "ce = ?z" "?z < g1" using ce by (auto simp: MIN_c_def split: if_splits)
  have Bq: "(q + 1) * B = q * B + B" by simp
  have u2: "unat ce = (q + 1) * B - 1" unfolding cez(1) z Bq using B(1) by simp
  have "unat ce < 2 ^ 48" using cez le(2) by (simp add: word_less_nat_alt)
  then have "unat (ce + 1) = unat ce + 1" by (simp add: unat_add_small)
  moreover have "0 < (q + 1) * B" using B(1) by simp
  ultimately have u: "unat (ce + 1) = (q + 1) * B" "unat ce = (q + 1) * B - 1" using u2 by linarith+
  have "unat (ce + 1) = 4096 * ((q + 1) * C)" unfolding u(1) B(2) by simp
  moreover have "unat ce = 4096 * ((q + 1) * C - 1) + 4095" using u(2) B by (simp add: algebra_simps)
  ultimately have "unat (ce + 1) mod 4096 = 0" "region 0 (ce + 1) = (q + 1) * C" "region 0 ce = (q + 1) * C - 1"
    by (simp_all add: region_def)
  moreover have "region l (ce + 1) = q + 1" unfolding region_def B_def[symmetric] u(1) using B(1) by simp
  moreover have "ce + 1 \<le> g1" using cez(2) u by (simp add: word_le_nat_alt word_less_nat_alt cez(1)[symmetric])
  moreover have "0 < (q + 1) * C" using B(3) by simp
  ultimately show "region l (ce + 1) = region l g0 + 1 \<and> region 0 (ce + 1) = region 0 ce + 1
       \<and> unat (ce + 1) mod 4096 = 0 \<and> ce + 1 \<le> g1"
    by (simp add: q_def)
qed

lemma loop_maps_range:
  "flags_ok info \<Longrightarrow> unmapped (Suc l) s t g0 g1 \<Longrightarrow> region l g1 - region l g0 + 2 \<le> n \<Longrightarrow>
   \<exists>r s'. loop n s t g0 g1 = Inr (r, s') \<and> (r = EPT_SUCCESS \<and> mapped info (Suc l) s t g0 g1 s' \<or> r = EPT_ERROR \<and> exhausted s')"
proof (induction n arbitrary: s g0)
  case (Suc n)
  define ce where "ce = MIN_c g1 (get_ept_xtable_block_end g0 (9 * l + 12))"
  note b = block_bounds[OF Suc.prems(2) ce_def]
  have un: "g0 \<le> g1" "tree_in (Suc l) s t" "walk (Suc l) (tables s) t g0 = None" "region (Suc l) g0 = region (Suc l) g1"
    "unat g1 < 2 ^ 48" "unat g0 mod 4096 = 0"
    using Suc.prems(2) region_le[of g0 g1 0] unfolding unmapped_def by auto
  have step: "loop (Suc n) s t g0 g1 = andThen (block s t g0 ce) (\<lambda>(r, s).
        if r \<noteq> EPT_SUCCESS then Inr (r, s) else loop n s t (ce + 1) g1)"
    using loop_step[OF un(1-3,6) ce_def] .
  from block_maps[OF Suc.prems(1) b(1,2)] consider
    (ok) s1 where "block s t g0 ce = Inr (EPT_SUCCESS, s1)" "mapped info (Suc l) s t g0 ce s1"
    | (err) s1 where "block s t g0 ce = Inr (EPT_ERROR, s1)" "exhausted s1" by blast
  then show ?case
  proof cases
    case ok
    show ?thesis
    proof (cases "ce = g1")
      case True
      obtain k where k: "n = Suc k" using Suc.prems(3) by (cases n) auto
      have "unat (g1 + 1) = unat g1 + 1" using un(5) by (simp add: unat_add_small)
      then have "\<not> g1 + 1 \<le> g1" by (simp add: word_le_nat_alt)
      then show ?thesis using step ok True loop_done k by simp
    next
      case False
      note nx = b(3)[OF False]
      have ce: "g0 \<le> ce" "region 0 ce < region 0 g1" "region (Suc l) (ce + 1) = region (Suc l) g0"
      proof -
        show "g0 \<le> ce" using b(1) by (simp add: unmapped_def)
        show "region 0 ce < region 0 g1" using nx region_le[of "ce + 1" g1 0] by simp
        have "region (Suc l) g0 \<le> region (Suc l) (ce + 1)" using nx by (simp add: region_Suc div_le_mono)
        then show "region (Suc l) (ce + 1) = region (Suc l) g0" using region_le[of "ce + 1" g1 "Suc l"] nx un(4) by simp
      qed
      have "unmapped (Suc l) s1 t (ce + 1) g1"
        using ok(2) Suc.prems(2) nx ce region_le[OF ce(1), of 0] unfolding unmapped_def mapped_def by auto
      moreover have "region l g1 - region l (ce + 1) + 2 \<le> n"
        using Suc.prems(3) nx region_le[of "ce + 1" g1 l] by simp
      ultimately obtain r s2 where s2: "loop n s1 t (ce + 1) g1 = Inr (r, s2)"
        "r = EPT_SUCCESS \<and> mapped info (Suc l) s1 t (ce + 1) g1 s2 \<or> r = EPT_ERROR \<and> exhausted s2"
        using Suc.IH Suc.prems(1) by blast
      have "mapped info (Suc l) s t g0 g1 s2" if "mapped info (Suc l) s1 t (ce + 1) g1 s2"
        using mapped_trans[OF ok(2) that ce(3)] nx ce region_le[OF ce(1), of 0] by simp
      then show ?thesis using step ok(1) s2 by auto
    qed
  next
    case err
    then show ?thesis using step by simp
  qed
qed simp

lemma loop_maps:
  assumes "TABLE_FUEL \<le> n"
  shows "maps info (Suc l) (loop n)"
proof -
  have "region l g1 - region l g0 + 2 \<le> n" if "unmapped (Suc l) s t g0 g1" for s t g0 g1
  proof -
    have "region l g0 div 512 = region l g1 div 512" using that by (simp add: unmapped_def region_Suc)
    moreover have "region l g1 mod 512 < 512" by simp
    ultimately have "region l g1 - region l g0 < 512"
      using div_mult_mod_eq[of "region l g0" 512] div_mult_mod_eq[of "region l g1" 512] by linarith
    then show ?thesis using assms by (simp add: TABLE_FUEL_def)
  qed
  then show ?thesis unfolding maps_def using loop_maps_range by blast
qed

end

section \<open>The page table\<close>

text \<open>The present bits and the page bit of entries made from flags.\<close>

lemma present_flags: "f AND 7 \<noteq> 0 \<Longrightarrow> is_ept_entry_present (set_paddr_field 0 v OR f)"
proof -
  have "(set_paddr_field 0 v OR f) AND 7 = f AND 7"
    by (rule bit_eqI) (auto simp: bit_simps set_paddr_field_def bit_numeral_rec split: nat.splits)
  then show "f AND 7 \<noteq> 0 \<Longrightarrow> ?thesis" by (simp add: is_ept_entry_present_def)
qed

lemma maps_page_flags: "ept_entry_maps_page (set_paddr_field 0 v OR f) \<longleftrightarrow> f AND EPT_MAPS_PAGE \<noteq> 0"
proof -
  have "(set_paddr_field 0 v OR f) AND EPT_MAPS_PAGE = f AND EPT_MAPS_PAGE"
    unfolding EPT_MAPS_PAGE_def U64_LSHIFT_def by (rule bit_eqI) (auto simp: bit_simps set_paddr_field_def bit_numeral_rec split: nat.splits)
  then show ?thesis by (simp add: ept_entry_maps_page_def)
qed

lemma set_entry_sel [simp]:
  "owned (set_entry s t i e) = owned s" "state_ok (set_entry s t i e) = state_ok s"
  "tables (set_entry s t i e) = (tables s)(t := (tables s t)(i := e))" "max_phys_addr (set_entry s t i e) = max_phys_addr s"
  by (simp_all add: set_entry_def owned_def state_ok_def)

lemma zero_absent [simp]: "\<not> is_ept_entry_present 0"
  by (simp add: is_ept_entry_present_def IS_SET_def)

lemma leaf_present: "flags_ok info \<Longrightarrow> is_ept_entry_present (leaf info mx g)"
  by (simp add: leaf_def flags_ok_def present_flags)

lemma walk_1_absent: "walk (Suc 0) m t g = None \<longleftrightarrow> \<not> is_ept_entry_present (m t (idx (Suc 0) g))"
  by (simp add: walk.simps Let_def)

text \<open>The effect of one entry of a page table.\<close>

definition pt_block :: "ept_mapping_info \<Rightarrow> ept_state \<Rightarrow> virt_addr \<Rightarrow> gpaddr \<Rightarrow> gpaddr \<Rightarrow> (ept_error \<times> ept_state) run" where
  "pt_block info s t g0 g1 = Inr (EPT_SUCCESS, set_entry s t (idx (Suc 0) g0) (leaf info (max_phys_addr s) g0))"

lemma PAGE_ALIGN_same_page: "region 0 g = region 0 h \<Longrightarrow> PAGE_ALIGN g = PAGE_ALIGN h"
  unfolding PAGE_ALIGN_def PAGE_SHIFT_def region_def
  by (metis (no_types) add.left_neutral mult_zero_right unat_drop_bit word_unat_eq_iff)

lemma PAGE_ALIGN_aligned: "unat g mod 4096 = 0 \<Longrightarrow> PAGE_ALIGN g = g"
proof -
  assume "unat g mod 4096 = 0"
  then have "unat (PAGE_ALIGN g) = unat g"
    unfolding PAGE_ALIGN_def PAGE_SHIFT_def
    using unat_less_size[of g] by (subst unat_push_bit_small) (auto simp: unat_drop_bit)
  then show ?thesis by (simp add: word_unat_eq_iff)
qed

lemma pt_block_maps:
  assumes "flags_ok info" "unmapped (Suc 0) s t g0 g1" "region 0 g0 = region 0 g1"
  shows "\<exists>r s'. pt_block info s t g0 g1 = Inr (r, s') \<and> (r = EPT_SUCCESS \<and> mapped info (Suc 0) s t g0 g1 s' \<or> r = EPT_ERROR \<and> exhausted s')"
proof -
  let ?e = "leaf info (max_phys_addr s) g0"
  let ?s = "set_entry s t (idx (Suc 0) g0) ?e"
  have tr: "tree_in (Suc 0) s t" using assms(2) by (simp add: unmapped_def)
  then have "tree_in (Suc 0) ?s t"
    using leaf_present[OF assms(1)] by (auto simp: tree_in_def inner_def)
  moreover have "extends (Suc 0) t s ?s" by (auto simp: extends_def inner_def)
  moreover have "walk (Suc 0) (tables ?s) t g = (if region 0 g0 \<le> region 0 g \<and> region 0 g \<le> region 0 g1
      then Some (1, leaf info (max_phys_addr s) g) else walk (Suc 0) (tables s) t g)" if g: "region (Suc 0) g = region (Suc 0) g0" for g
  proof (cases "region 0 g = region 0 g0")
    case True
    then have "idx (Suc 0) g = idx (Suc 0) g0" using same_entry[OF g] by simp
    moreover have "leaf info (max_phys_addr s) g = ?e" using PAGE_ALIGN_same_page[OF True] by (simp add: leaf_def)
    ultimately show ?thesis using True assms(3) leaf_present[OF assms(1)] by (simp add: walk.simps Let_def)
  next
    case False
    then have "idx (Suc 0) g \<noteq> idx (Suc 0) g0" using same_entry[OF g] by simp
    then show ?thesis using False assms(3) by (auto simp: walk.simps Let_def)
  qed
  ultimately have "mapped info (Suc 0) s t g0 g1 ?s" unfolding mapped_def by blast
  then show ?thesis unfolding pt_block_def by blast
qed

lemma pt_index: "get_ept_pt_index g = idx (Suc 0) g" "get_ept_pt_block_end g = get_ept_xtable_block_end g (9 * 0 + 12)"
  using index_idx[of 1 g] by (simp_all add: get_ept_pt_index_def get_ept_pt_block_end_def)

lemma tree_entry: "tree_in (Suc l) s t \<Longrightarrow> i < 512 \<Longrightarrow> \<not> is_ept_entry_present (tables s t i) \<Longrightarrow> tables s t i = 0"
  by (auto simp: tree_in_def)

lemma pt_entry: "tree_in (Suc 0) s t \<Longrightarrow> walk (Suc 0) (tables s) t g = None \<Longrightarrow> tables s t (idx (Suc 0) g) = 0"
  by (rule tree_entry) (simp_all only: walk_1_absent idx_less not_False_eq_True)

interpretation pt: block_loop info 0 "pt_block info" "\<lambda>n s t g0 g1. do_ept_pt_mapping n s t g0 g1 info" for info
proof
  fix s t g0 g1 ce n
  assume a: "g0 \<le> g1" "tree_in (Suc 0) s t" "walk (Suc 0) (tables s) t g0 = None" "unat g0 mod 4096 = 0"
    "ce = MIN_c g1 (get_ept_xtable_block_end g0 (9 * 0 + 12))"
  show "do_ept_pt_mapping (Suc n) s t g0 g1 info = andThen (pt_block info s t g0 ce) (\<lambda>(r, s).
        if r \<noteq> EPT_SUCCESS then Inr (r, s) else do_ept_pt_mapping n s t (ce + 1) g1 info)"
    using pt_entry[OF a(2,3)] a(1,4,5)
    by (simp add: pt_block_def pt_index leaf_def ept_pte_set_paddr_def PAGE_ALIGN_aligned PAGE_SHIFT_def Let_def)
qed (simp_all add: pt_block_maps)

section \<open>Tables of tables\<close>

text \<open>Entry \<open>i\<close> of table \<open>t\<close>, created if it is absent.\<close>

definition ensure_entry :: "ept_mapping_info \<Rightarrow> ept_state \<Rightarrow> virt_addr \<Rightarrow> nat \<Rightarrow> (bool \<times> ept_state) run" where
  "ensure_entry info s t i = (if is_ept_entry_present (tables s t i) then Inr (True, s) else init_pd_table_entry s t i info)"

text \<open>A table of zeros.\<close>

lemma zero_table:
  assumes "\<And>i. m t i = 0"
  shows "footprint (Suc l) m t = {t}" "tree (Suc l) m t" "walk (Suc l) m t g = None"
  using assms by (simp_all add: inner_def walk.simps Let_def)

lemma tree_inD:
  assumes "tree_in (Suc l) s t"
  shows "t \<in> owned s"
    "\<And>i. i < 512 \<Longrightarrow> inner l (tables s t i) \<Longrightarrow> tree_in l s (child (tables s t i)) \<and> t \<notin> footprint l (tables s) (child (tables s t i))"
    "\<And>i j. i < 512 \<Longrightarrow> j < 512 \<Longrightarrow> inner l (tables s t i) \<Longrightarrow> inner l (tables s t j) \<Longrightarrow> i \<noteq> j \<Longrightarrow>
       footprint l (tables s) (child (tables s t i)) \<inter> footprint l (tables s) (child (tables s t j)) = {}"
  using assms by (auto simp: tree_in_def)

text \<open>
  The tree after the subtree at entry \<open>i\<close> has been replaced by the tree at \<open>c\<close>, which takes only pages of the old
  subtree and unused ones.
\<close>

lemma tree_replace:
  assumes tr: "tree_in (Suc l) s t" and i: "i < 512"
    and st: "state_ok s'" "owned s \<subseteq> owned s'" "max_phys_addr s' = max_phys_addr s"
    and ent: "inner l (tables s' t i)" "\<And>j. j \<noteq> i \<Longrightarrow> tables s' t j = tables s t j"
    and sub: "tree l (tables s') (child (tables s' t i))" "footprint l (tables s') (child (tables s' t i)) \<subseteq> owned s' \<inter> (F \<union> - owned s)"
    and F: "F = (if inner l (tables s t i) then footprint l (tables s) (child (tables s t i)) else {})"
    and keep: "\<And>v. v \<in> owned s \<Longrightarrow> v \<notin> F \<Longrightarrow> v \<noteq> t \<Longrightarrow> tables s' v = tables s v"
  shows "tree_in (Suc l) s' t" "extends (Suc l) t s s'"
    "\<And>g. idx (Suc l) g \<noteq> i \<Longrightarrow> walk (Suc l) (tables s') t g = walk (Suc l) (tables s) t g"
proof -
  note d = tree_inD[OF tr]
  let ?fp = "\<lambda>j. footprint l (tables s) (child (tables s t j))"
  have own: "?fp j \<subseteq> owned s" if "j < 512" "inner l (tables s t j)" for j
    using d(2)[OF that] by (simp add: tree_in_def)
  have same: "tables s' v = tables s v" if "j < 512" "j \<noteq> i" "inner l (tables s t j)" "v \<in> ?fp j" for j v
    using that own[OF that(1,3)] d(2)[OF that(1,3)] d(3)[OF i that(1)] by (intro keep) (auto simp: F split: if_splits)
  have fp: "footprint l (tables s') (child (tables s t j)) = ?fp j" if "j < 512" "j \<noteq> i" "inner l (tables s t j)" for j
    by (rule footprint_cong) (rule same[OF that])
  have trj: "tree l (tables s') (child (tables s t j))" if "j < 512" "j \<noteq> i" "inner l (tables s t j)" for j
  proof (rule tree_cong)
    show "tree l (tables s) (child (tables s t j))" using d(2)[OF that(1,3)] by (simp add: tree_in_def)
  qed (rule same[OF that])
  have disj: "?fp j \<inter> footprint l (tables s') (child (tables s' t i)) = {}" if "j < 512" "j \<noteq> i" "inner l (tables s t j)" for j
    using sub(2) own[OF that(1,3)] d(3)[OF i that(1)] that by (auto simp: F split: if_splits)
  have t_new: "t \<notin> footprint l (tables s') (child (tables s' t i))"
    using sub(2) d(1) d(2)[OF i] by (auto simp: F split: if_splits)
  have ent': "tables s' t j = (if j = i then tables s' t i else tables s t j)" for j using ent(2) by simp
  have tree: "tree (Suc l) (tables s') t"
  proof (unfold tree.simps, intro conjI allI impI)
    fix j :: nat assume j: "j < 512"
    show "is_ept_entry_present (tables s' t j) \<or> tables s' t j = 0"
      using tr j ent(1) by (subst (1 2) ent') (auto simp: tree_in_def inner_def)
  next
    fix j :: nat assume j: "j < 512" "inner l (tables s' t j)"
    show "tree l (tables s') (child (tables s' t j))" and "t \<notin> footprint l (tables s') (child (tables s' t j))"
      using j sub(1) t_new trj[of j] fp[of j] d(2)[of j] ent(2)[of j] by (cases "j = i"; auto)+
  next
    fix j k :: nat assume jk: "j < 512" "k < 512" "inner l (tables s' t j) \<and> inner l (tables s' t k) \<and> j \<noteq> k"
    show "footprint l (tables s') (child (tables s' t j)) \<inter> footprint l (tables s') (child (tables s' t k)) = {}"
      using jk disj[of j] disj[of k] fp[of j] fp[of k] d(3)[of j k] ent(2)[of j] ent(2)[of k]
      by (cases "j = i"; cases "k = i"; auto)
  qed
  have fp_all: "footprint (Suc l) (tables s') t \<subseteq> footprint (Suc l) (tables s) t \<union> (owned s' \<inter> (F \<union> - owned s))"
  proof
    fix v assume "v \<in> footprint (Suc l) (tables s') t"
    then consider "v = t" | j where "j < 512" "inner l (tables s' t j)" "v \<in> footprint l (tables s') (child (tables s' t j))" by auto
    then show "v \<in> footprint (Suc l) (tables s) t \<union> (owned s' \<inter> (F \<union> - owned s))"
    proof cases
      case 2
      then show ?thesis
        using sub(2) fp[of j] ent(2)[of j] footprint_child[of j l "tables s" t] by (cases "j = i") auto
    qed simp
  qed
  have F_sub: "F \<subseteq> footprint (Suc l) (tables s) t" using i footprint_child[of i l "tables s" t] by (auto simp: F)
  have fp_own: "footprint (Suc l) (tables s) t \<subseteq> owned s" using tr by (simp add: tree_in_def)
  show "tree_in (Suc l) s' t" using tree st fp_all fp_own unfolding tree_in_def by blast
  have "t \<in> footprint (Suc l) (tables s) t" by simp
  then show "extends (Suc l) t s s'" using st fp_all F_sub keep unfolding extends_def by blast
  show "walk (Suc l) (tables s') t g = walk (Suc l) (tables s) t g" if g: "idx (Suc l) g \<noteq> i" for g
  proof (cases "inner l (tables s t (idx (Suc l) g))")
    case True
    then have "walk l (tables s') (child (tables s t (idx (Suc l) g))) g = walk l (tables s) (child (tables s t (idx (Suc l) g))) g"
      using same[OF idx_less g] by (intro walk_cong) auto
    then show ?thesis using True ent(2)[OF g] by (simp add: walk_inner)
  next
    case False
    then show ?thesis using ent(2)[OF g] by (auto simp: inner_def walk.simps Let_def)
  qed
qed

text \<open>An entry that refers to the new table of frame \<open>f\<close>.\<close>

lemma new_entry:
  assumes "state_ok s" "flags_ok info" "f < 2 ^ 40" "l \<noteq> 0"
  defines "e \<equiv> ept_pde_set_paddr (max_phys_addr s) 0 (pfn_to_phys (of_nat f)) OR no_page_flags info"
  shows "inner l e" "child e = phys_to_virt (pfn_to_phys (of_nat f))"
proof -
  have f52: "f < 2 ^ 52" using assms(3) by simp
  have "unat (drop_bit 12 (pfn_to_phys (of_nat f))) = f"
    using pfn_of_pfn_to_phys[OF f52] unfolding phys_to_pfn_def U64_RSHIFT_def PAGE_SHIFT_def .
  moreover have "unat (of_nat f :: u64) = f" using f52 by (simp add: unat_of_nat_small)
  ultimately have "drop_bit 12 (pfn_to_phys (of_nat f)) = (of_nat f :: u64)" by (simp only: word_unat_eq_iff)
  moreover have "(of_nat f :: u64) AND max_phys_addr s = of_nat f" using assms(1,3) by (simp add: state_ok_def)
  moreover have "take_bit 40 (of_nat f :: u64) = of_nat f"
    using assms(3) by (metis take_bit_nat_eq_self take_bit_of_nat)
  ultimately have "paddr_field e = of_nat f"
    using assms(2) unfolding e_def ept_pde_set_paddr_def PAGE_SHIFT_def by (subst field_set) (simp_all add: flags_ok_def)
  then show "child e = phys_to_virt (pfn_to_phys (of_nat f))" by (simp add: pfn_to_phys_def U64_LSHIFT_def PAGE_SHIFT_def)
  show "inner l e"
    using assms(2,4) present_flags maps_page_flags unfolding e_def ept_pde_set_paddr_def inner_def flags_ok_def by blast
qed

lemma ensure_entry_cases:
  assumes tr: "tree_in (Suc (Suc k)) s t" and i: "i < 512" and fl: "flags_ok info"
    and e: "is_ept_entry_present (tables s t i) \<longrightarrow> \<not> ept_entry_maps_page (tables s t i)"
  obtains (full) s' where "ensure_entry info s t i = Inr (False, s')" "exhausted s'"
  | (ok) s' where "ensure_entry info s t i = Inr (True, s')" "tree_in (Suc (Suc k)) s' t" "extends (Suc (Suc k)) t s s'"
      "inner (Suc k) (tables s' t i)" "\<And>g. walk (Suc (Suc k)) (tables s') t g = walk (Suc (Suc k)) (tables s) t g"
proof (cases "is_ept_entry_present (tables s t i)")
  case True
  then show thesis using tr e by (intro ok[of s]) (simp_all add: ensure_entry_def extends_refl inner_def)
next
  case False
  have z: "tables s t i = 0" using tree_entry[OF tr i False] .
  have sok: "state_ok s" using tr by (simp add: tree_in_def)
  from sok show thesis
  proof (cases rule: allocate_structure_cases)
    case (full s')
    then show thesis using False that(1)[of s'] by (simp add: ensure_entry_def init_pd_table_entry_def)
  next
    case (new f s1)
    let ?v = "phys_to_virt (pfn_to_phys (of_nat f))"
    let ?e = "ept_pde_set_paddr (max_phys_addr s1) 0 (pfn_to_phys (of_nat f)) OR no_page_flags info"
    have vt: "?v \<noteq> t" using new(5) tree_inD(1)[OF tr] by blast
    define s2 where "s2 = set_entry s1 t i ?e"
    have run: "ensure_entry info s t i = Inr (True, s2)"
      using False new(1,2,7) vt z by (simp add: ensure_entry_def init_pd_table_entry_def s2_def)
    note ne = new_entry[OF new(4) fl new(3), of "Suc k"]
    have m: "tables s2 ?v j = 0" "tables s2 t i = ?e" "j \<noteq> i \<Longrightarrow> tables s2 t j = tables s t j"
      "v \<noteq> t \<Longrightarrow> v \<noteq> ?v \<Longrightarrow> tables s2 v = tables s v" for j v
      using new(7) vt by (simp_all add: s2_def)
    have c: "child (tables s2 t i) = ?v" using ne m(2) by simp
    note zt = zero_table[of "tables s2" ?v, OF m(1)]
    have no: "\<not> inner (Suc k) (tables s t i)" using False by (simp add: inner_def)
    have "tree (Suc k) (tables s2) (child (tables s2 t i))" unfolding c by (rule zt(2))
    moreover have "footprint (Suc k) (tables s2) (child (tables s2 t i)) \<subseteq> owned s2 \<inter> ({} \<union> - owned s)"
      unfolding c zt(1) using new(5,6) by (simp add: s2_def)
    moreover have "state_ok s2" "owned s \<subseteq> owned s2" "max_phys_addr s2 = max_phys_addr s"
      using new(4,6,8) by (auto simp: s2_def)
    moreover have "inner (Suc k) (tables s2 t i)" using ne(1) m(2) by simp
    moreover have "tables s2 v = tables s v" if "v \<in> owned s" "v \<noteq> t" for v using m(4) that new(5) by blast
    ultimately have r: "tree_in (Suc (Suc k)) s2 t" "extends (Suc (Suc k)) t s s2"
      "\<And>g. idx (Suc (Suc k)) g \<noteq> i \<Longrightarrow> walk (Suc (Suc k)) (tables s2) t g = walk (Suc (Suc k)) (tables s) t g"
      using tree_replace[OF tr i, of s2 "{}"] m(3) no by simp_all
    have "walk (Suc (Suc k)) (tables s2) t g = walk (Suc (Suc k)) (tables s) t g" for g
    proof (cases "idx (Suc (Suc k)) g = i")
      case True
      then have "walk (Suc (Suc k)) (tables s2) t g = walk (Suc k) (tables s2) ?v g"
        using walk_inner[of "Suc k" "tables s2" t g] ne(1) m(2) c by simp
      then show ?thesis using zt(3) walk_absent[of "tables s" t "Suc k" g] False True by simp
    qed (rule r(3))
    then show thesis using that(2)[OF run r(1,2)] ne(1) m(2) by simp
  qed
qed

lemma sub_mapped:
  assumes tr: "tree_in (Suc l) s t" and i: "i = idx (Suc l) g0" "inner l (tables s t i)" and rg: "region l g0 = region l g1"
    and sub: "mapped info l s (child (tables s t i)) g0 g1 s'"
  shows "mapped info (Suc l) s t g0 g1 s'"
proof -
  let ?c = "child (tables s t i)"
  have i512: "i < 512" using i(1) by simp
  note d = tree_inD[OF tr]
  have ext: "extends l ?c s s'" and tr': "tree_in l s' ?c" using sub by (simp_all add: mapped_def)
  have t: "tables s' t = tables s t"
    using ext d(1) d(2)[OF i512 i(2)] unfolding extends_def by blast
  have "tables s' v = tables s v" if "v \<in> owned s" "v \<notin> footprint l (tables s) ?c" for v
    using ext that unfolding extends_def by blast
  moreover have "footprint l (tables s') ?c \<subseteq> owned s' \<inter> (footprint l (tables s) ?c \<union> - owned s)"
    using ext tr' unfolding extends_def tree_in_def by blast
  moreover have "state_ok s'" "owned s \<subseteq> owned s'" "max_phys_addr s' = max_phys_addr s" "tree l (tables s') ?c"
    using ext tr' unfolding extends_def tree_in_def by blast+
  ultimately have r: "tree_in (Suc l) s' t" "extends (Suc l) t s s'"
    "\<And>g. idx (Suc l) g \<noteq> i \<Longrightarrow> walk (Suc l) (tables s') t g = walk (Suc l) (tables s) t g"
    using tree_replace[OF tr i512, of s' "footprint l (tables s) ?c"] i(2) t by simp_all
  have "walk (Suc l) (tables s') t g = (if region 0 g0 \<le> region 0 g \<and> region 0 g \<le> region 0 g1
      then Some (1, leaf info (max_phys_addr s) g) else walk (Suc l) (tables s) t g)" if g: "region (Suc l) g = region (Suc l) g0" for g
  proof (cases "region l g = region l g0")
    case True
    then have ig: "idx (Suc l) g = i" using same_entry[OF g] i(1) by simp
    then have "walk (Suc l) (tables s') t g = walk l (tables s') ?c g" "walk (Suc l) (tables s) t g = walk l (tables s) ?c g"
      using walk_inner[of l "tables s'" t g] walk_inner[of l "tables s" t g] i(2) t by simp_all
    then show ?thesis using sub True unfolding mapped_def by simp
  next
    case False
    then have "idx (Suc l) g \<noteq> i" using same_entry[OF g] i(1) by simp
    moreover have "\<not> (region 0 g0 \<le> region 0 g \<and> region 0 g \<le> region 0 g1)"
    proof
      assume "region 0 g0 \<le> region 0 g \<and> region 0 g \<le> region 0 g1"
      then have "region l g0 \<le> region l g \<and> region l g \<le> region l g1"
        by (induction l) (simp_all add: region_Suc div_le_mono)
      then show False using False rg by simp
    qed
    ultimately show ?thesis using r(3) by auto
  qed
  then show ?thesis using r(1,2) unfolding mapped_def by blast
qed

text \<open>What a level does for one entry: the table behind it is created if necessary, and the part of the range is mapped there.\<close>

definition table_block :: "ept_mapping_info \<Rightarrow> nat \<Rightarrow> (ept_state \<Rightarrow> virt_addr \<Rightarrow> gpaddr \<Rightarrow> gpaddr \<Rightarrow> (ept_error \<times> ept_state) run)
    \<Rightarrow> ept_state \<Rightarrow> virt_addr \<Rightarrow> gpaddr \<Rightarrow> gpaddr \<Rightarrow> (ept_error \<times> ept_state) run" where
  "table_block info l sub s t g0 g1 =
     andThen (ensure_entry info s t (idx (Suc l) g0)) (\<lambda>(ok, s).
       if \<not> ok then Inr (EPT_ERROR, s) else sub s (child (tables s t (idx (Suc l) g0))) g0 g1)"

lemma table_block_maps:
  assumes sub: "maps info (Suc k) sub" and fl: "flags_ok info" and un: "unmapped (Suc (Suc k)) s t g0 g1"
    and rg: "region (Suc k) g0 = region (Suc k) g1"
  shows "\<exists>r s'. table_block info (Suc k) sub s t g0 g1 = Inr (r, s')
    \<and> (r = EPT_SUCCESS \<and> mapped info (Suc (Suc k)) s t g0 g1 s' \<or> r = EPT_ERROR \<and> exhausted s')"
proof -
  let ?i = "idx (Suc (Suc k)) g0"
  have tr: "tree_in (Suc (Suc k)) s t" and "walk (Suc (Suc k)) (tables s) t g0 = None"
    using un region_le[of g0 g1 0] by (simp_all add: unmapped_def)
  then have np: "is_ept_entry_present (tables s t ?i) \<longrightarrow> \<not> ept_entry_maps_page (tables s t ?i)"
    by (auto simp: walk.simps Let_def split: if_splits)
  show ?thesis
  proof (cases rule: ensure_entry_cases[OF tr idx_less[of "Suc (Suc k)" g0] fl np, case_names full ok])
    case (full s')
    then show ?thesis by (simp add: table_block_def)
  next
    case (ok s1)
    let ?c = "child (tables s1 t ?i)"
    have "walk (Suc k) (tables s1) ?c g = None" if "region (Suc k) g = region (Suc k) g0" "region 0 g0 \<le> region 0 g" "region 0 g \<le> region 0 g1" for g
    proof -
      have rS: "region (Suc (Suc k)) g = region (Suc (Suc k)) g0" using that(1) by (simp add: region_Suc)
      then have "idx (Suc (Suc k)) g = ?i" using same_entry that(1) by blast
      then have "walk (Suc k) (tables s1) ?c g = walk (Suc (Suc k)) (tables s1) t g"
        using walk_inner[of "Suc k" "tables s1" t g] ok(4) by simp
      also have "\<dots> = None" using un rS that(2,3) unfolding ok(5) unmapped_def by blast
      finally show ?thesis .
    qed
    then have "unmapped (Suc k) s1 ?c g0 g1"
      using tree_inD(2)[OF ok(2) idx_less ok(4)] un rg unfolding unmapped_def by blast
    from sub fl this show ?thesis
    proof (cases rule: mapsE)
      case (1 s2)
      have mx: "max_phys_addr s1 = max_phys_addr s" using ok(3) unfolding extends_def by blast
      have "mapped info (Suc (Suc k)) s1 t g0 g1 s2"
        using sub_mapped[OF ok(2) refl ok(4) rg 1(2)] .
      then have "mapped info (Suc (Suc k)) s t g0 g1 s2"
        using extends_trans[OF ok(3)] unfolding mapped_def ok(5) mx by blast
      then show ?thesis using ok(1) 1(1) by (simp add: table_block_def)
    next
      case (2 s2)
      then show ?thesis using ok(1) by (simp add: table_block_def)
    qed
  qed
qed

text \<open>A level above the page tables, given a next level that fulfils the contract.\<close>

locale table_level =
  fixes info :: ept_mapping_info and k :: nat
    and sub :: "ept_state \<Rightarrow> virt_addr \<Rightarrow> gpaddr \<Rightarrow> gpaddr \<Rightarrow> (ept_error \<times> ept_state) run"
    and loop :: "nat \<Rightarrow> ept_state \<Rightarrow> virt_addr \<Rightarrow> gpaddr \<Rightarrow> gpaddr \<Rightarrow> (ept_error \<times> ept_state) run"
  assumes sub_level: "k < 3"
    and sub_maps: "maps info (Suc k) sub"
    and sub_done: "\<not> g0 \<le> g1 \<Longrightarrow> loop (Suc n) s t g0 g1 = Inr (EPT_SUCCESS, s)"
    and sub_step: "g0 \<le> g1 \<Longrightarrow> walk (Suc (Suc k)) (tables s) t g0 = None \<Longrightarrow>
      ce = MIN_c g1 (get_ept_xtable_block_end g0 (9 * Suc k + 12)) \<Longrightarrow>
      loop (Suc n) s t g0 g1 = andThen (table_block info (Suc k) sub s t g0 ce) (\<lambda>(r, s).
        if r \<noteq> EPT_SUCCESS then Inr (r, s) else loop n s t (ce + 1) g1)"

sublocale table_level \<subseteq> block_loop info "Suc k" "table_block info (Suc k) sub" loop
proof
  show "Suc k < 4" using sub_level by simp
qed (rule sub_done sub_step table_block_maps[OF sub_maps]; assumption)+

text \<open>The entries of the three upper levels are written alike.\<close>

lemma init_entries:
  "init_pdpt_entry s t i info = init_pd_table_entry s t i info" "init_pml4_entry s t i info = init_pd_table_entry s t i info"
  unfolding init_pdpt_entry_def init_pml4_entry_def init_pd_table_entry_def ept_pdpte_set_paddr_def
    ept_pml4e_set_paddr_def ept_pde_set_paddr_def by (rule refl)+

lemma level_indices:
  "get_ept_pd_index g = idx (Suc (Suc 0)) g" "get_ept_pd_block_end g = get_ept_xtable_block_end g (9 * Suc 0 + 12)"
  "get_ept_pdpt_index g = idx (Suc (Suc (Suc 0))) g" "get_ept_pdpte_block_end g = get_ept_xtable_block_end g (9 * Suc (Suc 0) + 12)"
  "get_ept_pml4_index g = idx (Suc (Suc (Suc (Suc 0)))) g" "get_ept_pml4e_block_end g = get_ept_xtable_block_end g (9 * Suc (Suc (Suc 0)) + 12)"
  using index_idx[of 2 g] index_idx[of 3 g] index_idx[of 4 g]
  by (simp_all add: get_ept_pd_index_def get_ept_pd_block_end_def get_ept_pdpt_index_def get_ept_pdpte_block_end_def
      get_ept_pml4_index_def get_ept_pml4e_block_end_def numeral_eq_Suc)

lemmas upper_levels = table_block_def ensure_entry_def init_entries level_indices ept_pde_read_paddr_def
  ept_pdpte_read_paddr_def ept_pml4e_read_paddr_def PAGE_SHIFT_def

lemma walk_None_inner: "walk (Suc (Suc k)) m t g = None \<Longrightarrow> is_ept_entry_present (m t (idx (Suc (Suc k)) g)) \<Longrightarrow>
   \<not> ept_entry_maps_page (m t (idx (Suc (Suc k)) g))"
  by (auto simp: walk.simps Let_def split: if_splits)

text \<open>The mapping information of a range that is mapped with 4 KB pages.\<close>

definition small_pages :: "ept_mapping_info \<Rightarrow> ept_mapping_info" where
  "small_pages info = info\<lparr>use_gb_mappings := False, use_mb_mappings := False\<rparr>"

lemma small_pages_no_large [simp]:
  "\<not> should_do_mb_mapping g0 g1 (small_pages info)" "\<not> should_do_gb_mapping g0 g1 (small_pages info)"
  by (simp_all add: small_pages_def should_do_mb_mapping_def should_do_gb_mapping_def)

interpretation pd: table_level "small_pages info" 0 "\<lambda>s t g0 g1. do_ept_pt_mapping TABLE_FUEL s t g0 g1 (small_pages info)"
  "\<lambda>n s t g0 g1. do_ept_pd_mapping n s t g0 g1 (small_pages info)" for info
proof
  fix g0 g1 ce t :: u64 and s :: ept_state and n
  assume a: "g0 \<le> g1" "walk (Suc (Suc 0)) (tables s) t g0 = None" "ce = MIN_c g1 (get_ept_xtable_block_end g0 (9 * Suc 0 + 12))"
  show "do_ept_pd_mapping (Suc n) s t g0 g1 (small_pages info) =
      andThen (table_block (small_pages info) (Suc 0) (\<lambda>s t g0 g1. do_ept_pt_mapping TABLE_FUEL s t g0 g1 (small_pages info)) s t g0 ce)
        (\<lambda>(r, s). if r \<noteq> EPT_SUCCESS then Inr (r, s) else do_ept_pd_mapping n s t (ce + 1) g1 (small_pages info))"
    using a walk_None_inner[OF a(2)]
    by (auto simp: upper_levels Let_def andThen_def split: sum.splits)
qed (use pt.loop_maps[of TABLE_FUEL] in auto)

interpretation pdpt: table_level "small_pages info" "Suc 0" "\<lambda>s t g0 g1. do_ept_pd_mapping TABLE_FUEL s t g0 g1 (small_pages info)"
  "\<lambda>n s t g0 g1. do_ept_pdpt_mapping n s t g0 g1 (small_pages info)" for info
proof
  fix g0 g1 ce t :: u64 and s :: ept_state and n
  assume a: "g0 \<le> g1" "walk (Suc (Suc (Suc 0))) (tables s) t g0 = None"
    "ce = MIN_c g1 (get_ept_xtable_block_end g0 (9 * Suc (Suc 0) + 12))"
  show "do_ept_pdpt_mapping (Suc n) s t g0 g1 (small_pages info) =
      andThen (table_block (small_pages info) (Suc (Suc 0)) (\<lambda>s t g0 g1. do_ept_pd_mapping TABLE_FUEL s t g0 g1 (small_pages info)) s t g0 ce)
        (\<lambda>(r, s). if r \<noteq> EPT_SUCCESS then Inr (r, s) else do_ept_pdpt_mapping n s t (ce + 1) g1 (small_pages info))"
    using a walk_None_inner[OF a(2)]
    by (auto simp: upper_levels Let_def andThen_def split: sum.splits)
qed (use pd.loop_maps[of TABLE_FUEL] in auto)

interpretation pml4: table_level "small_pages info" "Suc (Suc 0)" "\<lambda>s t g0 g1. do_ept_pdpt_mapping TABLE_FUEL s t g0 g1 (small_pages info)"
  "\<lambda>n s t g0 g1. do_ept_pml4_mapping n s t g0 g1 (small_pages info)" for info
proof
  fix g0 g1 ce t :: u64 and s :: ept_state and n
  assume a: "g0 \<le> g1" "walk (Suc (Suc (Suc (Suc 0)))) (tables s) t g0 = None"
    "ce = MIN_c g1 (get_ept_xtable_block_end g0 (9 * Suc (Suc (Suc 0)) + 12))"
  show "do_ept_pml4_mapping (Suc n) s t g0 g1 (small_pages info) =
      andThen (table_block (small_pages info) (Suc (Suc (Suc 0))) (\<lambda>s t g0 g1. do_ept_pdpt_mapping TABLE_FUEL s t g0 g1 (small_pages info)) s t g0 ce)
        (\<lambda>(r, s). if r \<noteq> EPT_SUCCESS then Inr (r, s) else do_ept_pml4_mapping n s t (ce + 1) g1 (small_pages info))"
    using a walk_None_inner[OF a(2)]
    by (auto simp: upper_levels Let_def andThen_def split: sum.splits)
qed (use pdpt.loop_maps[of TABLE_FUEL] in auto)

section \<open>Whole mappings\<close>

lemma flags_small_pages [simp]: "flags_ok (small_pages info) = flags_ok info"
  by (simp add: flags_ok_def small_pages_def)

lemma leaf_small_pages [simp]: "leaf (small_pages info) mx g = leaf info mx g"
  by (simp add: leaf_def small_pages_def)

text \<open>The host address that a leaf entry gives.\<close>

lemma leaf_target:
  assumes "state_ok s" "flags_ok info" "unat (PAGE_ALIGN g + ept_offset info) < 2 ^ 52" "unat (PAGE_ALIGN g + ept_offset info) mod 4096 = 0"
  shows "push_bit 12 (paddr_field (leaf info (max_phys_addr s) g)) = PAGE_ALIGN g + ept_offset info"
proof -
  let ?h = "PAGE_ALIGN g + ept_offset info"
  define f where "f = unat (drop_bit 12 ?h)"
  have f: "drop_bit 12 ?h = of_nat f" "f < 2 ^ 40"
    using assms(3) by (simp_all add: f_def unat_drop_bit word_unat_eq_iff unat_of_nat_small)
  have "(of_nat f :: u64) AND max_phys_addr s = of_nat f" using assms(1) f(2) by (simp add: state_ok_def)
  moreover have "take_bit 40 (of_nat f :: u64) = of_nat f" using f(2) by (metis take_bit_nat_eq_self take_bit_of_nat)
  ultimately have "paddr_field (leaf info (max_phys_addr s) g) = drop_bit 12 ?h"
    using assms(2) unfolding leaf_def f(1) by (subst field_set) (simp_all add: flags_ok_def)
  then show ?thesis using PAGE_ALIGN_aligned[OF assms(4)] by (simp add: PAGE_ALIGN_def PAGE_SHIFT_def)
qed

lemma page_start: "unat (PAGE_ALIGN g) = region 0 g * 4096"
proof -
  have "unat g div 4096 * 4096 \<le> unat g" by simp
  also have "\<dots> < 2 ^ 64" using unat_less_size[of g] by simp
  finally show ?thesis
    unfolding PAGE_ALIGN_def PAGE_SHIFT_def by (subst unat_push_bit_small) (simp_all add: unat_drop_bit region_def)
qed

lemma page_split: "PAGE_ALIGN g + of_nat (unat g mod 4096) = g"
proof -
  have "unat g = region 0 g * 4096 + unat g mod 4096" by (simp add: region_def)
  then have "(of_nat (unat g) :: u64) = of_nat (region 0 g * 4096) + of_nat (unat g mod 4096)" by (metis of_nat_add)
  then show ?thesis by (simp flip: page_start)
qed

definition root_table :: "u64 \<Rightarrow> virt_addr" where
  "root_table eptp = phys_to_virt (eptp_read_paddr eptp)"

lemma new_eptp:
  assumes "state_ok s" "f < 2 ^ 40"
  shows "root_table (eptp_set_paddr (max_phys_addr s) eptp (pfn_to_phys (of_nat f))) = phys_to_virt (pfn_to_phys (of_nat f))"
proof -
  have f52: "f < 2 ^ 52" using assms(2) by simp
  have "unat (drop_bit 12 (pfn_to_phys (of_nat f))) = f"
    using pfn_of_pfn_to_phys[OF f52] unfolding phys_to_pfn_def U64_RSHIFT_def PAGE_SHIFT_def .
  moreover have "unat (of_nat f :: u64) = f" using f52 by (simp add: unat_of_nat_small)
  ultimately have "drop_bit 12 (pfn_to_phys (of_nat f)) = (of_nat f :: u64)" by (simp only: word_unat_eq_iff)
  moreover have "(of_nat f :: u64) AND max_phys_addr s = of_nat f" using assms by (simp add: state_ok_def)
  moreover have "take_bit 40 (of_nat f :: u64) = of_nat f" using assms(2) by (metis take_bit_nat_eq_self take_bit_of_nat)
  moreover have "paddr_field (set_paddr_field eptp v) = take_bit 40 v" for v using field_set[of 0 eptp v] by simp
  ultimately show ?thesis
    unfolding root_table_def eptp_read_paddr_def eptp_set_paddr_def PAGE_SHIFT_def
    by (simp add: pfn_to_phys_def U64_LSHIFT_def PAGE_SHIFT_def)
qed

text \<open>A new EPT: success with exactly the range mapped, or an exhausted allocator.\<close>

definition new_mapping :: "ept_mapping_info \<Rightarrow> ept_state \<Rightarrow> u64 \<Rightarrow> ept_state \<Rightarrow> bool" where
  "new_mapping info s eptp s' \<longleftrightarrow> state_ok s' \<and> owned s \<subseteq> owned s' \<and> max_phys_addr s' = max_phys_addr s
     \<and> (\<forall>v \<in> owned s. tables s' v = tables s v)
     \<and> footprint 4 (tables s') (root_table eptp) \<inter> owned s = {}
     \<and> (\<forall>g. unat g < 2 ^ 48 \<longrightarrow> walk 4 (tables s') (root_table eptp) g =
          (if region 0 (guest_paddr_start info) \<le> region 0 g \<and> region 0 g \<le> region 0 (guest_paddr_start info + req_bytes info)
           then Some (1, leaf info (max_phys_addr s) g) else None))"

lemma create_ept_mapping_new:
  assumes ok: "state_ok s" and fl: "flags_ok info" and fuel: "TABLE_FUEL \<le> fuel"
    and rng: "unat (guest_paddr_start info) + unat (req_bytes info) < 2 ^ 48"
  obtains (full) eptp s' where "create_ept_mapping fuel s (small_pages info) = Inr (EPT_ERROR, eptp, s')" "exhausted s'"
  | (new) eptp s' where "create_ept_mapping fuel s (small_pages info) = Inr (EPT_SUCCESS, eptp, s')" "new_mapping info s eptp s'"
  using ok
proof (cases rule: allocate_structure_cases)
  case (full s1)
  then show thesis using that(1) by (simp add: create_ept_mapping_def)
next
  case (new f s1)
  let ?v = "phys_to_virt (pfn_to_phys (of_nat f))"
  let ?g0 = "PAGE_ALIGN (guest_paddr_start info)" and ?g1 = "guest_paddr_start info + req_bytes info"
  define eptp where "eptp = eptp_set_paddr (max_phys_addr s1) (6 OR push_bit 3 3) (pfn_to_phys (of_nat f))"
  have root: "root_table eptp = ?v" unfolding eptp_def using new_eptp[OF new(4,3)] .
  have g1: "unat ?g1 = unat (guest_paddr_start info) + unat (req_bytes info)" using rng by (simp add: unat_add_small)
  have r0: "region 0 ?g0 = region 0 (guest_paddr_start info)" by (simp add: region_def page_start)
  have le: "?g0 \<le> ?g1" unfolding word_le_nat_alt g1 page_start by (simp add: region_def)
  have reg4: "region 4 g = 0" if "unat g < 2 ^ 48" for g using that by (simp add: region_def)
  have small: "unat ?g0 < 2 ^ 48" "unat ?g1 < 2 ^ 48" using rng le g1 by (simp_all add: word_le_nat_alt)
  have zero: "tables s1 ?v i = 0" for i using new(7) by simp
  have four: "Suc 3 = 4" "Suc (Suc (Suc (Suc 0))) = 4" by simp_all
  note zt = zero_table[of "tables s1" ?v 3, OF zero, unfolded four]
  have "tree_in 4 s1 ?v" unfolding tree_in_def zt(1) using zt(2) new(4,6) by simp
  then have "unmapped 4 s1 ?v ?g0 ?g1"
    using zt(3) le small reg4 by (simp add: unmapped_def page_start)
  then obtain r s2 where s2: "do_ept_pml4_mapping fuel s1 ?v ?g0 ?g1 (small_pages info) = Inr (r, s2)"
    "r = EPT_SUCCESS \<and> mapped (small_pages info) 4 s1 ?v ?g0 ?g1 s2 \<or> r = EPT_ERROR \<and> exhausted s2"
    using pml4.loop_maps[OF fuel, of info] fl unfolding maps_def four flags_small_pages by blast
  have run: "create_ept_mapping fuel s (small_pages info) = Inr (r, eptp, s2)"
    using new(1,2) s2(1) root
    by (simp add: create_ept_mapping_def add_ept_mapping_def eptp_def root_table_def small_pages_def Let_def)
  from s2(2) show thesis
  proof
    assume "r = EPT_ERROR \<and> exhausted s2"
    then show thesis using that(1) run by blast
  next
    assume m: "r = EPT_SUCCESS \<and> mapped (small_pages info) 4 s1 ?v ?g0 ?g1 s2"
    then have ext: "extends 4 ?v s1 s2" and tr: "tree_in 4 s2 ?v" unfolding mapped_def by blast+
    note fp1 = zt(1)
    have "new_mapping info s eptp s2"
      unfolding new_mapping_def root
    proof (intro conjI allI impI ballI)
      show "state_ok s2" using tr by (simp add: tree_in_def)
      show "owned s \<subseteq> owned s2" "max_phys_addr s2 = max_phys_addr s" using ext new(6,8) unfolding extends_def by auto
      show "tables s2 v = tables s v" if "v \<in> owned s" for v
      proof -
        have "v \<in> owned s1 - footprint 4 (tables s1) ?v" unfolding fp1 new(6) using that new(5) by auto
        then have "tables s2 v = tables s1 v" using ext unfolding extends_def by blast
        then show ?thesis using that new(5,7) by auto
      qed
      show "footprint 4 (tables s2) ?v \<inter> owned s = {}" using ext new(5) unfolding extends_def fp1 new(6) by blast
    next
      fix g :: u64 assume "unat g < 2 ^ 48"
      then have "walk 4 (tables s2) ?v g = (if region 0 ?g0 \<le> region 0 g \<and> region 0 g \<le> region 0 ?g1
          then Some (1, leaf info (max_phys_addr s1) g) else walk 4 (tables s1) ?v g)"
        using m reg4 small(1) unfolding mapped_def by simp
      then show "walk 4 (tables s2) ?v g = (if region 0 (guest_paddr_start info) \<le> region 0 g \<and> region 0 g \<le> region 0 ?g1
          then Some (1, leaf info (max_phys_addr s) g) else None)"
        using zt(3)[of g] new(8) r0 by simp
    qed
    then show thesis using that(2) run m by blast
  qed
qed

text \<open>The translation that a new EPT defines.\<close>

lemma new_mapping_translate:
  assumes new: "new_mapping info s eptp s'" and fl: "flags_ok info" and g: "unat g < 2 ^ 48"
  defines "mapped_page \<equiv> region 0 (guest_paddr_start info) \<le> region 0 g \<and> region 0 g \<le> region 0 (guest_paddr_start info + req_bytes info)"
  assumes h: "mapped_page \<Longrightarrow> unat (PAGE_ALIGN g + ept_offset info) < 2 ^ 52 \<and> unat (PAGE_ALIGN g + ept_offset info) mod 4096 = 0"
  shows "translate s' eptp g = (if mapped_page then Some (g + ept_offset info) else None)"
proof -
  have w: "walk 4 (tables s') (root_table eptp) g = (if mapped_page then Some (1, leaf info (max_phys_addr s) g) else None)"
    using new g by (simp add: new_mapping_def mapped_page_def)
  show ?thesis
  proof (cases mapped_page)
    case True
    have "state_ok s'" "max_phys_addr s' = max_phys_addr s" using new by (simp_all add: new_mapping_def)
    then have "push_bit 12 (paddr_field (leaf info (max_phys_addr s) g)) = PAGE_ALIGN g + ept_offset info"
      using leaf_target[of s' info g] fl h[OF True] by simp
    moreover have "PAGE_ALIGN g + ept_offset info + of_nat (unat g mod 4096) = g + ept_offset info"
      using page_split[of g] by (metis add.assoc add.commute)
    ultimately show ?thesis using w True by (simp add: translate_def root_table_def)
  next
    case False
    then show ?thesis using w by (simp add: translate_def root_table_def)
  qed
qed

section \<open>Properties\<close>

text \<open>
  A 2 MB page maps the wrong memory: the entry that maps a block of 2 MB of guest memory to the host address
  \<open>h\<close>, which must be a multiple of 1 MB, gives the host address \<open>2 * h\<close> instead.
\<close>

lemma mb_page_maps_wrong_memory:
  assumes "tables s t 0 = 0" "use_mb_mappings info" "flags_ok info"
    "page_map_flags info AND EPT_MAPS_PAGE \<noteq> 0" "ept_offset info = h" "unat h mod 2 ^ 20 = 0" "unat h < 2 ^ 51"
    "h AND max_phys_addr s = h"
  shows "\<exists>s'. do_ept_pd_mapping TABLE_FUEL s t 0 0x1FFFFF info = Inr (EPT_SUCCESS, s')
    \<and> (\<exists>e. walk 2 (tables s') t 0 = Some (2, e) \<and> push_bit 12 (paddr_field e) = 2 * h)"
proof -
  let ?e = "ept_pde_set_pf_paddr (max_phys_addr s) 0 h OR page_map_flags info"
  obtain k where k: "TABLE_FUEL = Suc (Suc k)" using that[of 511] by (simp add: TABLE_FUEL_def)
  have h0: "h mod push_bit 20 1 = 0"
    using assms(6) by (simp add: word_unat_eq_iff unat_mod_distrib)
  have f: "paddr_field ?e = take_bit 40 (push_bit 9 (drop_bit 20 h))"
    using assms(3) unfolding ept_pde_set_pf_paddr_def assms(8) by (subst field_set) (simp_all add: flags_ok_def)
  have "unat (push_bit 12 (paddr_field ?e)) = unat (2 * h)"
  proof -
    define q where "q = unat h div 2 ^ 20"
    have q: "unat h = q * 2 ^ 20" "q < 2 ^ 31" using assms(6,7) by (auto simp: q_def)
    have d: "unat (push_bit 9 (drop_bit 20 h)) = q * 2 ^ 9"
      using q(2) by (subst unat_push_bit_small) (simp_all add: unat_drop_bit q_def)
    then have "unat (paddr_field ?e) = q * 2 ^ 9"
      unfolding f using q(2) by (simp add: unsigned_take_bit_eq take_bit_nat_eq_self)
    then have "unat (push_bit 12 (paddr_field ?e)) = q * 2 ^ 21"
      using q(2) by (subst unat_push_bit_small) simp_all
    moreover have "unat (2 * h) = 2 * unat h" using assms(7) by (simp add: unat_word_ariths)
    ultimately show ?thesis using q(1) by simp
  qed
  then have t: "push_bit 12 (paddr_field ?e) = 2 * h" by (simp only: word_unat_eq_iff)
  have mb: "should_do_mb_mapping 0 0x1FFFFF info" using assms(2,5) h0 by (simp add: should_do_mb_mapping_def)
  have run: "do_ept_pd_mapping TABLE_FUEL s t 0 0x1FFFFF info = Inr (EPT_SUCCESS, set_entry s t 0 ?e)"
    using assms(1,5) mb
    by (simp add: k Let_def MIN_c_def get_ept_pd_block_end_def get_ept_xtable_block_end_def U64_LSHIFT_def
        get_ept_pd_index_def get_ept_xentry_index_def)
  have "is_ept_entry_present ?e" "ept_entry_maps_page ?e"
    using assms(3,4) present_flags maps_page_flags unfolding ept_pde_set_pf_paddr_def flags_ok_def by blast+
  then have "walk 2 (tables (set_entry s t 0 ?e)) t 0 = Some (2, ?e)"
    by (simp add: numeral_2_eq_2 walk.simps idx_def Let_def)
  then show ?thesis using run t by blast
qed

text \<open>An empty page directory in a state with a small allocator.\<close>

definition empty_state :: ept_state where
  "empty_state = \<lparr>tables = \<lambda>_ _. 0, frames = small_allocator, max_phys_addr = 0xFFFFFFFFFFFFF\<rparr>"

definition mb_info :: ept_mapping_info where
  "mb_info = \<lparr>guest_paddr_start = 0, req_bytes = 0x1FFFFF, ept_offset = 0x100000, no_page_flags = EPT_RWX,
     page_map_flags = EPT_MAPS_PAGE OR EPT_RWX, use_gb_mappings = False, use_mb_mappings = True\<rparr>"

lemma mb_page_maps_wrong_memory_witness:
  "\<exists>s'. do_ept_pd_mapping TABLE_FUEL empty_state 0 0 0x1FFFFF mb_info = Inr (EPT_SUCCESS, s')
    \<and> (\<exists>e. walk 2 (tables s') 0 0 = Some (2, e) \<and> push_bit 12 (paddr_field e) = 0x200000)"
  using mb_page_maps_wrong_memory[where s = empty_state and t = 0 and info = mb_info and h = "0x100000"]
  by (simp add: empty_state_def mb_info_def flags_ok_def EPT_MAPS_PAGE_def EPT_RWX_def U64_LSHIFT_def)

lemma destroy_loop_faults: "0 < k \<Longrightarrow> \<exists>e. destroy_loop k destroy s t = Inl e"
proof (induction k arbitrary: s)
  case (Suc k)
  show ?case
  proof (cases "k = 0")
    case False
    then show ?thesis using Suc.IH by (auto simp: Let_def andThen_def split: sum.splits)
  qed simp
qed simp

text \<open>
  The release of an EPT never completes: its loop steps through the entries of each table eight at a time
  and leaves the table.
\<close>

lemma destroy_ept_mapping_faults:
  assumes "eptp_read_paddr eptp \<noteq> 0"
  shows "\<exists>e. destroy_ept_mapping fuel s eptp = Inl e"
proof (cases fuel)
  case (Suc n)
  obtain e where "destroy_loop 512 (destroy_ept_table n) s (phys_to_virt (eptp_read_paddr eptp)) = Inl e"
    using destroy_loop_faults[of 512] by (metis zero_less_numeral)
  then show ?thesis using assms Suc by (simp add: destroy_ept_mapping_def Let_def del: destroy_loop.simps)
qed (use assms in \<open>simp add: destroy_ept_mapping_def\<close>)

lemma destroy_ept_mapping_faults_witness: "\<exists>e. destroy_ept_mapping 4 empty_state 0x100E = Inl e"
  by (rule destroy_ept_mapping_faults) (simp add: eptp_read_paddr_def paddr_field_def PAGE_SHIFT_def)

end
