(* ===== verification/Vm_Memory.thy ===== *)
theory Vm_Memory
  imports Ept_Tree Str_Lib Vm_Config
begin

text \<open>
  The memory of a VM (\<^verbatim>\<open>arch/x64/vm/vm.c\<close>): contiguous host memory from the page frame allocator, mapped into
  the guest address space by an EPT, and copying into it. It joins the components \<open>Vm_Config\<close>, \<open>Pf_Alloc\<close>, \<open>Ept\<close> and
  \<open>Str_Lib\<close>; the properties are what a guest can reach.
\<close>

section \<open>Operations\<close>

record vm_physical_memory =
  pm_start :: phys_addr
  pm_end :: phys_addr

definition get_vm_memory_size :: "vm_physical_memory \<Rightarrow> u64" where
  "get_vm_memory_size pm = (pm_end pm - pm_start pm) + 1"

definition vm_memory_contig_range_fits :: "vm_physical_memory \<Rightarrow> gpaddr \<Rightarrow> u64 \<Rightarrow> bool" where
  "vm_memory_contig_range_fits pm start nbytes =
     (let total_size = get_vm_memory_size pm;
          highest_addr = total_size - 1
      in start \<le> highest_addr \<and> nbytes \<le> total_size - start)"

text \<open>\<open>data\<close> is the address of the source; \<open>False\<close> is the error code.\<close>

definition copy_to_vm_gpaddr :: "mem \<Rightarrow> vm_physical_memory \<Rightarrow> gpaddr \<Rightarrow> virt_addr \<Rightarrow> u64 \<Rightarrow> bool \<times> mem" where
  "copy_to_vm_gpaddr m pm start data nbytes =
     (if \<not> vm_memory_contig_range_fits pm start nbytes then (False, m)
      else
        let host_pa_start = pm_start pm + start
        in (True, memcpy m (phys_to_virt host_pa_start) data (unat nbytes)))"

text \<open>The mapping that \<^verbatim>\<open>virtualize_guest_physical_mem\<close> asks for, with the EPT capability register as an argument.\<close>

definition guest_mapping_info :: "u64 \<Rightarrow> u64 \<Rightarrow> phys_addr \<Rightarrow> ept_mapping_info" where
  "guest_mapping_info ept_cap_msr bytes host_start =
     try_use_gb_mappings ept_cap_msr (try_use_mb_mappings ept_cap_msr
       ((create_ept_mapping_info 0 bytes host_start)
          \<lparr>no_page_flags := EPT_RWX, page_map_flags := EPT_MAPS_PAGE OR EPT_RWX OR EPT_MEM_TYPE_WB_FLAG\<rparr>))"

text \<open>The memory of the VM and its EPT pointer, or \<open>None\<close> on an error.\<close>

definition virtualize_guest_physical_mem ::
  "nat \<Rightarrow> u64 \<Rightarrow> ept_state \<Rightarrow> vm_config \<Rightarrow> ((vm_physical_memory \<times> u64) option \<times> ept_state) run" where
  "virtualize_guest_physical_mem fuel ept_cap_msr s config =
     (let bytes = get_vm_config_req_bytes config;
          req_pages = bytes_to_nr_pages bytes
      in andThen (get_pages_raw (frames s) req_pages) (\<lambda>(r, a).
           let s = s\<lparr>frames := a\<rparr> in
           case r of
             None \<Rightarrow> Inr (None, s)
           | Some contig_vm_mem_start \<Rightarrow>
               let info = guest_mapping_info ept_cap_msr bytes contig_vm_mem_start in
               andThen (create_ept_mapping fuel s info) (\<lambda>(ret, eptp, s).
                 if ret \<noteq> EPT_SUCCESS then
                   andThen (free_pages_raw (frames s) req_pages contig_vm_mem_start) (\<lambda>a.
                   andThen (destroy_ept_mapping fuel (s\<lparr>frames := a\<rparr>) eptp) (\<lambda>(_, s). Inr (None, s)))
                 else
                   Inr (Some (\<lparr>pm_start = contig_vm_mem_start,
                               pm_end = contig_vm_mem_start + (req_pages * PAGE_SIZE) - 1\<rparr>, eptp), s))))"

definition destroy_virtualized_guest_mem :: "nat \<Rightarrow> ept_state \<Rightarrow> vm_physical_memory \<Rightarrow> u64 \<Rightarrow> (u64 \<times> ept_state) run" where
  "destroy_virtualized_guest_mem fuel s pm eptp =
     (let size_bytes = get_vm_memory_size pm;
          pages = bytes_to_nr_pages size_bytes
      in andThen (free_pages_raw (frames s) pages (pm_start pm)) (\<lambda>a. destroy_ept_mapping fuel (s\<lparr>frames := a\<rparr>) eptp))"

text \<open>
  \<^verbatim>\<open>remap_vlapic_base\<close> of \<^verbatim>\<open>arch/x64/vm/vlapic.c\<close>: the page for accesses to the local APIC is mapped into the guest.
\<close>

definition remap_vlapic_base :: "nat \<Rightarrow> ept_state \<Rightarrow> u64 \<Rightarrow> phys_addr \<Rightarrow> gpaddr \<Rightarrow> (bool \<times> ept_state) run" where
  "remap_vlapic_base fuel s eptp apic_access_page vlapic_base =
     (let info = (create_ept_mapping_info vlapic_base PAGE_SIZE apic_access_page)
            \<lparr>no_page_flags := EPT_RWX, page_map_flags := EPT_RWX OR EPT_MAPS_PAGE OR U64_LSHIFT 0 3\<rparr>
      in andThen (add_ept_mapping fuel s eptp info) (\<lambda>(ret, s). Inr (ret = EPT_SUCCESS, s)))"

section \<open>Copying\<close>

lemma range_fits:
  assumes "vm_memory_contig_range_fits pm start nbytes" "pm_start pm \<le> pm_end pm" "i < unat nbytes"
  shows "unat (pm_start pm + start + of_nat i) = unat (pm_start pm) + unat start + i"
    "unat (pm_start pm) + unat start + i \<le> unat (pm_end pm)"
proof -
  let ?s = "unat (pm_start pm)" and ?e = "unat (pm_end pm)"
  have d: "unat (pm_end pm - pm_start pm) = ?e - ?s" "?s \<le> ?e" using assms(2) by (simp_all add: unat_sub_small word_le_nat_alt)
  have st: "start \<le> pm_end pm - pm_start pm" and sz: "nbytes \<le> (pm_end pm - pm_start pm) + 1 - start"
    using assms(1) by (simp_all add: vm_memory_contig_range_fits_def get_vm_memory_size_def)
  have st': "unat start \<le> ?e - ?s" using st d(1) by (simp add: word_le_nat_alt)
  have e: "?e < 2 ^ 64" using unat_less_size[of "pm_end pm"] by simp
  have eq: "(pm_end pm - pm_start pm) + 1 - start = (pm_end pm - pm_start pm - start) + 1" by simp
  have "unat (pm_end pm - pm_start pm - start) = ?e - ?s - unat start" using st d(1) by (simp add: unat_sub_small)
  moreover have "unat ((pm_end pm - pm_start pm - start) + 1) \<le> unat (pm_end pm - pm_start pm - start) + 1"
    using unat_word_ariths(1)[of "pm_end pm - pm_start pm - start" 1]
      mod_less_eq_dividend[of "unat (pm_end pm - pm_start pm - start) + unat (1 :: u64)"] by simp
  ultimately have "unat nbytes \<le> ?e - ?s - unat start + 1" using sz[unfolded eq word_le_nat_alt] by linarith
  then show le: "?s + unat start + i \<le> ?e" using assms(3) st' d(2) by linarith
  have "unat (pm_start pm + start) = ?s + unat start" using le e by (intro unat_add_small) simp
  moreover have "unat (of_nat i :: u64) = i" using le e by (simp add: unat_of_nat_small)
  ultimately show "unat (pm_start pm + start + of_nat i) = ?s + unat start + i"
    using le e by (subst unat_add_small) simp_all
qed

text \<open>The virtual addresses of the memory of a VM.\<close>

definition vm_bytes :: "vm_physical_memory \<Rightarrow> virt_addr set" where
  "vm_bytes pm = {a. pm_start pm \<le> virt_to_phys a \<and> virt_to_phys a \<le> pm_end pm}"

lemma unat_phys_to_virt:
  assumes "unat p < 2 ^ 47"
  shows "unat (phys_to_virt p) = unat p + 0xFFFF800000000000"
  unfolding phys_to_virt_def phys_to_virt_off_def HYPERVISOR_DIRECT_MAPPING_OFFSET_def
  using assms by (subst unat_add_small) simp_all

lemma copy_target:
  assumes "vm_memory_contig_range_fits pm start nbytes" "pm_start pm \<le> pm_end pm" "unat (pm_end pm) < 2 ^ 47"
  shows "fits (phys_to_virt (pm_start pm + start)) (unat nbytes)"
    "range_of (phys_to_virt (pm_start pm + start)) (unat nbytes) \<subseteq> vm_bytes pm"
proof -
  note r = range_fits[OF assms(1,2)]
  show "fits (phys_to_virt (pm_start pm + start)) (unat nbytes)"
  proof (cases "unat nbytes = 0")
    case True
    then show ?thesis using unat_less_size[of "phys_to_virt (pm_start pm + start)"] by (simp add: fits_def)
  next
    case False
    then have u: "unat (pm_start pm + start) = unat (pm_start pm) + unat start" using r(1)[of 0] by simp
    have "unat (pm_start pm) + unat start + (unat nbytes - 1) \<le> unat (pm_end pm)" using r(2)[of "unat nbytes - 1"] False by simp
    then show ?thesis using False u assms(3) unat_phys_to_virt[of "pm_start pm + start"] by (simp add: fits_def)
  qed
  show "range_of (phys_to_virt (pm_start pm + start)) (unat nbytes) \<subseteq> vm_bytes pm"
  proof
    fix a assume "a \<in> range_of (phys_to_virt (pm_start pm + start)) (unat nbytes)"
    then obtain i where i: "i < unat nbytes" "a = phys_to_virt (pm_start pm + start) + of_nat i" unfolding range_of_def by blast
    then have "virt_to_phys a = pm_start pm + start + of_nat i"
      by (simp add: virt_to_phys_def virt_to_phys_off_def phys_to_virt_def phys_to_virt_off_def)
    then show "a \<in> vm_bytes pm" using r[OF i(1)] by (simp add: vm_bytes_def word_le_nat_alt)
  qed
qed

section \<open>Guest memory\<close>

lemma guest_info:
  assumes "\<not> bit cap 16" "\<not> bit cap 17"
  shows "guest_mapping_info cap bytes host = small_pages (guest_mapping_info cap bytes host)"
proof -
  have "IS_SET cap (U64_LSHIFT 1 16) = bit cap 16" "IS_SET cap (U64_LSHIFT 1 17) = bit cap 17"
    by (simp_all add: IS_SET_def U64_LSHIFT_def bit_iff_and_push_bit_not_eq_0 del: push_bit_of_1)
  then show ?thesis
    using assms by (simp add: guest_mapping_info_def small_pages_def try_use_gb_mappings_def try_use_mb_mappings_def create_ept_mapping_info_def)
qed

lemma guest_info_sel [simp]:
  "guest_paddr_start (guest_mapping_info cap bytes host) = 0" "req_bytes (guest_mapping_info cap bytes host) = bytes"
  "ept_offset (guest_mapping_info cap bytes host) = host"
  by (simp_all add: guest_mapping_info_def try_use_gb_mappings_def try_use_mb_mappings_def create_ept_mapping_info_def)

lemma guest_info_flags [simp]: "flags_ok (guest_mapping_info cap bytes host)"
  by (simp add: flags_ok_def guest_mapping_info_def try_use_gb_mappings_def try_use_mb_mappings_def create_ept_mapping_info_def
      EPT_RWX_def EPT_MAPS_PAGE_def EPT_MEM_TYPE_WB_FLAG_def U64_LSHIFT_def)

text \<open>The outcome of a successful set-up of guest memory of the given size.\<close>

definition guest_memory :: "ept_state \<Rightarrow> u64 \<Rightarrow> vm_physical_memory \<Rightarrow> u64 \<Rightarrow> ept_state \<Rightarrow> bool" where
  "guest_memory s bytes pm eptp s' \<longleftrightarrow>
     (\<exists>f. pm_start pm = pfn_to_phys (of_nat f) \<and> area_free (frames s) (unat (bytes_to_nr_pages bytes)) f)
     \<and> pm_end pm = pm_start pm + bytes_to_nr_pages bytes * PAGE_SIZE - 1
     \<and> (\<forall>g. unat g < 2 ^ 48 \<longrightarrow> translate s' eptp g = (if region 0 g \<le> region 0 bytes then Some (pm_start pm + g) else None))"

lemma pages_cover:
  assumes "unat bytes < 2 ^ 48"
  shows "region 0 bytes \<le> unat (bytes_to_nr_pages bytes)"
    "unat bytes mod 4096 = 0 \<Longrightarrow> unat (bytes_to_nr_pages bytes) = region 0 bytes"
proof -
  have "unat (bytes + 4095) = unat bytes + 4095" using assms by (simp add: unat_add_small)
  then have u: "unat (bytes_to_nr_pages bytes) = (unat bytes + 4095) div 4096"
    by (simp add: bytes_to_nr_pages_def PAGE_SIZE_def PAGE_SHIFT_def unat_drop_bit)
  show "region 0 bytes \<le> unat (bytes_to_nr_pages bytes)" unfolding u by (simp add: region_def div_le_mono)
  show "unat (bytes_to_nr_pages bytes) = region 0 bytes" if m: "unat bytes mod 4096 = 0"
  proof -
    have "unat bytes = 4096 * (unat bytes div 4096)" using m mult_div_mod_eq[of 4096 "unat bytes"] by simp
    then obtain q where "unat bytes = 4096 * q" by blast
    then show ?thesis unfolding u region_def by simp
  qed
qed

lemma host_page:
  assumes "f + n < 2 ^ 40" "region 0 g \<le> n"
  shows "unat (PAGE_ALIGN g + pfn_to_phys (of_nat f)) < 2 ^ 52" "unat (PAGE_ALIGN g + pfn_to_phys (of_nat f)) mod 4096 = 0"
proof -
  have f: "unat (pfn_to_phys (of_nat f)) = f * 4096"
    using assms(1) unfolding pfn_to_phys_def U64_LSHIFT_def PAGE_SHIFT_def
    by (subst unat_push_bit_small) (simp_all add: unat_of_nat_small)
  have "region 0 g * 4096 + f * 4096 < 2 ^ 52" using assms by simp
  moreover from this have "unat (PAGE_ALIGN g + pfn_to_phys (of_nat f)) = region 0 g * 4096 + f * 4096"
    using unat_add_small[of "PAGE_ALIGN g" "pfn_to_phys (of_nat f)"] by (simp add: page_start f)
  ultimately show "unat (PAGE_ALIGN g + pfn_to_phys (of_nat f)) < 2 ^ 52"
    "unat (PAGE_ALIGN g + pfn_to_phys (of_nat f)) mod 4096 = 0" by simp_all
qed

lemma state_ok_allocated:
  assumes "state_ok s" "allocates (frames s) nr f a'" "alloc_ok a'"
  shows "state_ok (s\<lparr>frames := a'\<rparr>)"
proof -
  have "frame_count a' = frame_count (frames s)" using assms(2) by (simp add: allocates_def frame_count_def)
  moreover have "0 < frame_count (frames s)" using assms(1) by (simp add: state_ok_def alloc_ok_def frame_count_def)
  ultimately show ?thesis using assms unfolding state_ok_def allocates_def by auto
qed

lemma virtualize_cases:
  assumes ok: "state_ok s" and cap: "\<not> bit cap 16" "\<not> bit cap 17" and fuel: "TABLE_FUEL \<le> fuel"
    and small: "unat (get_vm_config_req_bytes config) < 2 ^ 48"
  defines "bytes \<equiv> get_vm_config_req_bytes config"
  obtains (no_memory) "virtualize_guest_physical_mem fuel cap s config = Inr (None, s)"
      "get_pages_raw (frames s) (bytes_to_nr_pages bytes) = Inr (None, frames s)"
  | (no_tables) p a eptp s' where "get_pages_raw (frames s) (bytes_to_nr_pages bytes) = Inr (Some p, a)"
      "create_ept_mapping fuel (s\<lparr>frames := a\<rparr>) (guest_mapping_info cap bytes p) = Inr (EPT_ERROR, eptp, s')" "exhausted s'"
      "\<forall>x s''. virtualize_guest_physical_mem fuel cap s config \<noteq> Inr (Some x, s'')"
      "eptp_read_paddr eptp \<noteq> 0 \<Longrightarrow> \<exists>e. virtualize_guest_physical_mem fuel cap s config = Inl e"
  | (ready) pm eptp s' where "virtualize_guest_physical_mem fuel cap s config = Inr (Some (pm, eptp), s')"
      "guest_memory s bytes pm eptp s'"
proof -
  let ?n = "bytes_to_nr_pages bytes"
  have a: "alloc_ok (frames s)" using ok by (simp add: state_ok_def)
  from get_pages_raw_cases[OF a, of ?n] consider
    (none) "get_pages_raw (frames s) ?n = Inr (None, frames s)"
    | (some) f a' where "get_pages_raw (frames s) ?n = Inr (Some (pfn_to_phys (of_nat f)), a')"
        "area_free (frames s) (unat ?n) f" "allocates (frames s) ?n f a'" "alloc_ok a'" by auto
  then show thesis
  proof cases
    case none
    then show thesis using no_memory by (simp add: virtualize_guest_physical_mem_def bytes_def Let_def)
  next
    case some
    let ?p = "pfn_to_phys (of_nat f)"
    let ?info = "guest_mapping_info cap bytes ?p" and ?s = "s\<lparr>frames := a'\<rparr>"
    have sok: "state_ok ?s" using state_ok_allocated[OF ok some(3,4)] .
    have rng: "unat (guest_paddr_start ?info) + unat (req_bytes ?info) < 2 ^ 48" using small by (simp add: bytes_def)
    from sok guest_info_flags fuel rng show thesis
    proof (cases rule: create_ept_mapping_new)
      case (full eptp s')
      then have c: "create_ept_mapping fuel ?s ?info = Inr (EPT_ERROR, eptp, s')" using guest_info[OF cap, of bytes ?p] by simp
      have "virtualize_guest_physical_mem fuel cap s config \<noteq> Inr (Some x, s'')" for x s''
        using some(1) c by (auto simp: virtualize_guest_physical_mem_def andThen_eq_Inr Let_def simp flip: bytes_def)
      moreover have "\<exists>e. virtualize_guest_physical_mem fuel cap s config = Inl e" if "eptp_read_paddr eptp \<noteq> 0"
      proof -
        have "\<exists>e. andThen (free_pages_raw (frames s') ?n ?p) (\<lambda>a. andThen (destroy_ept_mapping fuel (s'\<lparr>frames := a\<rparr>) eptp) (\<lambda>(_, s). Inr (None, s))) = Inl e"
          by (cases "free_pages_raw (frames s') ?n ?p") (use destroy_ept_mapping_faults[OF that, of fuel] in \<open>auto simp: andThen_eq_Inl\<close>)
        then show ?thesis using some(1) c by (simp add: virtualize_guest_physical_mem_def Let_def flip: bytes_def)
      qed
      ultimately show thesis using no_tables[OF some(1) c full(2)] by blast
    next
      case (new eptp s')
      let ?pm = "\<lparr>pm_start = ?p, pm_end = ?p + ?n * PAGE_SIZE - 1\<rparr>"
      have run: "virtualize_guest_physical_mem fuel cap s config = Inr (Some (?pm, eptp), s')"
        using some(1) new(1) guest_info[OF cap, of bytes ?p]
        by (simp add: virtualize_guest_physical_mem_def Let_def flip: bytes_def)
      have lt: "f + unat ?n < 2 ^ 40" using some(2) ok by (simp add: area_free_def state_ok_def)
      have "translate s' eptp g = (if region 0 g \<le> region 0 bytes then Some (?p + g) else None)" if g: "unat g < 2 ^ 48" for g
      proof -
        have "region 0 g \<le> unat ?n" if "region 0 g \<le> region 0 bytes"
          using that pages_cover(1)[of bytes] small by (simp add: bytes_def)
        then show ?thesis
          using new_mapping_translate[OF new(2) guest_info_flags g] host_page[OF lt, of g]
          by (simp add: region_def add.commute)
      qed
      then have "guest_memory s bytes ?pm eptp s'" using some(2) unfolding guest_memory_def by auto
      then show thesis using ready run by blast
    qed
  qed
qed

section \<open>A VM with one page\<close>

text \<open>An allocator of 16 frames of which the bits of \<open>b\<close> are used, and the set-up of a VM of one page on it.\<close>

definition demo_allocator :: "u8 \<Rightarrow> nat \<Rightarrow> u64 \<Rightarrow> pf_bitmap_allocator" where
  "demo_allocator b h n = \<lparr>pf_addr = 0, bitmap = [b, 0], last_alloc_byte_hint = 0, last_alloc_bit_hint = h,
     allocatable_frames = 15 - n, allocated_page_frames = n\<rparr>"

definition demo_state :: ept_state where
  "demo_state = \<lparr>tables = \<lambda>_ _. 0, frames = demo_allocator 0x80 0 0, max_phys_addr = 0xFFFFFFFFFFFFF\<rparr>"

definition demo_config :: vm_config where
  "demo_config = \<lparr>cfg_name = None, cfg_type = GUEST_UNSPECIFIED, nr_vcpus = 1, mem_size = 4096, granularity = BYTES,
     boot_linux = \<lparr>lb_bzImage = \<lparr>fi_addr = 0, fi_size = 0\<rparr>, lb_initramfs = \<lparr>fi_addr = 0, fi_size = 0\<rparr>, lb_cmdline = None\<rparr>,
     uart_info = \<lparr>configured = False, host_base_port = 0, host_irq = 0, vm_irq = 0\<rparr>\<rparr>"

lemma demo_frames:
  "get_pages_raw (demo_allocator 0x80 0 0) 1 = Inr (Some 0x1000, demo_allocator 0xC0 2 1)"
  "get_page_raw (demo_allocator 0xC0 2 1) = Inr (Some 0x2000, demo_allocator 0xE0 3 2)"
  "get_page_raw (demo_allocator 0xE0 3 2) = Inr (Some 0x3000, demo_allocator 0xF0 4 3)"
  "get_page_raw (demo_allocator 0xF0 4 3) = Inr (Some 0x4000, demo_allocator 0xF8 5 4)"
  "get_page_raw (demo_allocator 0xF8 5 4) = Inr (Some 0x5000, demo_allocator 0xFC 6 5)"
  by code_simp+

lemma demo_state_ok: "state_ok demo_state"
proof -
  have "of_nat f AND (0xFFFFFFFFFFFFF :: u64) = of_nat f" if "f < 2 ^ 40" for f
  proof -
    have "(0xFFFFFFFFFFFFF :: u64) = mask 52" by (simp add: mask_eq_exp_minus_1)
    moreover have "take_bit 52 (of_nat f :: u64) = of_nat f"
      using that by (simp add: take_bit_of_nat take_bit_nat_eq_self)
    ultimately show ?thesis by (simp add: take_bit_eq_mask)
  qed
  then show ?thesis
    by (simp add: state_ok_def demo_state_def demo_allocator_def alloc_ok_def bitmap_size_def frame_count_def frame_used_def)
qed

lemma demo_bytes: "get_vm_config_req_bytes demo_config = 4096"
  by (simp add: get_vm_config_req_bytes_def demo_config_def)

lemma demo_pages: "bytes_to_nr_pages 4096 = 1"
  by code_simp

lemma demo_state_frames: "frames demo_state = demo_allocator 0x80 0 0"
  by (simp add: demo_state_def)

lemma demo_mapping:
  "\<exists>eptp s'. create_ept_mapping TABLE_FUEL (demo_state\<lparr>frames := demo_allocator 0xC0 2 1\<rparr>) (guest_mapping_info 0 4096 0x1000)
    = Inr (EPT_SUCCESS, eptp, s')"
proof -
  obtain k where k: "TABLE_FUEL = Suc (Suc (Suc k))" using that[of 510] by (simp add: TABLE_FUEL_def)
  show ?thesis
    by (simp add: create_ept_mapping_def demo_state_def allocate_ept_paging_structure_def demo_frames k add_ept_mapping_def
        guest_mapping_info_def try_use_gb_mappings_def try_use_mb_mappings_def create_ept_mapping_info_def PAGE_ALIGN_def Let_def
        MIN_c_def upper_levels init_pd_table_entry_def get_ept_xtable_block_end_def set_entry_def idx_def is_ept_entry_present_def
        should_do_mb_mapping_def should_do_gb_mapping_def ept_pde_set_paddr_def set_paddr_field_def paddr_field_def EPT_RWX_def
        U64_LSHIFT_def IS_SET_def ept_entry_maps_page_def EPT_MAPS_PAGE_def pt_index eptp_read_paddr_def eptp_set_paddr_def
        EPT_MEM_TYPE_WB_FLAG_def ept_pte_set_paddr_def phys_to_virt_def phys_to_virt_off_def HYPERVISOR_DIRECT_MAPPING_OFFSET_def)
qed

lemma demo_run:
  "\<exists>eptp s'. virtualize_guest_physical_mem TABLE_FUEL 0 demo_state demo_config
    = Inr (Some (\<lparr>pm_start = 0x1000, pm_end = 0x1FFF\<rparr>, eptp), s')"
  using demo_mapping
  by (auto simp: virtualize_guest_physical_mem_def demo_bytes demo_pages demo_frames demo_state_frames PAGE_SIZE_def
      PAGE_SHIFT_def Let_def)

section \<open>Properties\<close>

text \<open>
  C1. The memory a guest can reach, on processors without EPT pages of 2 MB and 1 GB and for requests below \<open>2 ^ 48\<close> bytes.
  There are three outcomes. Setting up a VM takes an area of free frames and maps guest addresses to it in
  order, and the mapped guest pages are exactly those up to the page of the requested size. It reports an error and
  changes nothing because the frame allocator has no contiguous area. Or no frame for a paging structure is left: the
  mapping is then reported as failed, but unless already the top table is missing, its release faults, so that the
  call does not return.
\<close>

theorem guest_memory_translation:
  assumes "state_ok s" "\<not> bit cap 16" "\<not> bit cap 17" "TABLE_FUEL \<le> fuel" "unat (get_vm_config_req_bytes config) < 2 ^ 48"
  shows "(\<exists>pm eptp s'. virtualize_guest_physical_mem fuel cap s config = Inr (Some (pm, eptp), s')
        \<and> guest_memory s (get_vm_config_req_bytes config) pm eptp s')
    \<or> get_pages_raw (frames s) (bytes_to_nr_pages (get_vm_config_req_bytes config)) = Inr (None, frames s)
        \<and> virtualize_guest_physical_mem fuel cap s config = Inr (None, s)
    \<or> (\<exists>p a eptp s'. get_pages_raw (frames s) (bytes_to_nr_pages (get_vm_config_req_bytes config)) = Inr (Some p, a)
        \<and> create_ept_mapping fuel (s\<lparr>frames := a\<rparr>) (guest_mapping_info cap (get_vm_config_req_bytes config) p) = Inr (EPT_ERROR, eptp, s')
        \<and> exhausted s' \<and> (eptp_read_paddr eptp \<noteq> 0 \<longrightarrow> (\<exists>e. virtualize_guest_physical_mem fuel cap s config = Inl e)))"
  using assms by (cases rule: virtualize_cases) blast+

theorem guest_memory_translation_witness:
  "\<exists>pm eptp s'. virtualize_guest_physical_mem TABLE_FUEL 0 demo_state demo_config = Inr (Some (pm, eptp), s')
    \<and> guest_memory demo_state 4096 pm eptp s'"
  using guest_memory_translation[OF demo_state_ok, of 0 TABLE_FUEL demo_config] demo_frames(1) demo_mapping
  unfolding demo_bytes by (auto simp: demo_pages demo_state_frames)

text \<open>
  C18. A guest reaches memory that is not its own: on processors without EPT pages of 2 MB and 1 GB, when the requested size
  is a multiple of the page size below \<open>2 ^ 48\<close> and the memory was set up, the guest page behind the end of its memory is
  mapped to the frame that follows the frames of the VM.
\<close>

theorem guest_reaches_next_frame:
  assumes "state_ok s" "\<not> bit cap 16" "\<not> bit cap 17" "TABLE_FUEL \<le> fuel" "unat (get_vm_config_req_bytes config) < 2 ^ 48"
    "virtualize_guest_physical_mem fuel cap s config = Inr (Some (pm, eptp), s')"
    "unat (get_vm_config_req_bytes config) mod 4096 = 0"
  shows "translate s' eptp (get_vm_memory_size pm) = Some (pm_end pm + 1)"
proof -
  let ?b = "get_vm_config_req_bytes config"
  have g: "guest_memory s ?b pm eptp s'" using assms(1-5) by (cases rule: virtualize_cases) (use assms(6) in auto)
  have "bytes_to_nr_pages ?b * PAGE_SIZE = ?b"
  proof -
    have "unat (bytes_to_nr_pages ?b) * 4096 = unat ?b"
      unfolding pages_cover(2)[OF assms(5,7)] region_def using assms(7) mult_div_mod_eq[of 4096 "unat ?b"] by simp
    then have "unat (bytes_to_nr_pages ?b * PAGE_SIZE) = unat ?b"
      using unat_less_size[of ?b] by (simp add: PAGE_SIZE_def unat_word_ariths)
    then show ?thesis by (simp add: word_unat_eq_iff)
  qed
  then have "get_vm_memory_size pm = ?b" "pm_end pm + 1 = pm_start pm + ?b"
    using g by (simp_all add: guest_memory_def get_vm_memory_size_def)
  then show ?thesis using g assms(5) unfolding guest_memory_def by simp
qed

theorem guest_reaches_next_frame_witness:
  "\<exists>eptp s'. virtualize_guest_physical_mem TABLE_FUEL 0 demo_state demo_config
      = Inr (Some (\<lparr>pm_start = 0x1000, pm_end = 0x1FFF\<rparr>, eptp), s')
    \<and> translate s' eptp 0x1000 = Some 0x2000"
proof -
  obtain eptp s' where r: "virtualize_guest_physical_mem TABLE_FUEL 0 demo_state demo_config
      = Inr (Some (\<lparr>pm_start = 0x1000, pm_end = 0x1FFF\<rparr>, eptp), s')" using demo_run by blast
  then have "translate s' eptp 0x1000 = Some 0x2000"
    using guest_reaches_next_frame[OF demo_state_ok _ _ _ _ r] by (simp add: demo_bytes get_vm_memory_size_def)
  with r show ?thesis by blast
qed

text \<open>
  C19. Copying into a VM stays in its memory: a copy is refused exactly when the range does not fit, and otherwise
  writes the source bytes to the requested guest addresses, which are memory of the VM, and changes no other
  byte. The VM lies below \<open>2 ^ 47\<close> and the source is a range of addresses outside the VM.
\<close>

theorem copy_to_vm_gpaddr_contained:
  assumes "pm_start pm \<le> pm_end pm" "unat (pm_end pm) < 2 ^ 47" "fits data (unat nbytes)"
    "range_of data (unat nbytes) \<inter> vm_bytes pm = {}"
  shows "case copy_to_vm_gpaddr m pm start data nbytes of (ok, m') \<Rightarrow>
      (ok \<longleftrightarrow> vm_memory_contig_range_fits pm start nbytes)
    \<and> (if ok then (\<forall>i < unat nbytes. m' (phys_to_virt (pm_start pm + start + of_nat i)) = m (data + of_nat i))
          \<and> range_of (phys_to_virt (pm_start pm + start)) (unat nbytes) \<subseteq> vm_bytes pm
          \<and> (\<forall>a. a \<notin> range_of (phys_to_virt (pm_start pm + start)) (unat nbytes) \<longrightarrow> m' a = m a)
        else m' = m)"
proof (cases "vm_memory_contig_range_fits pm start nbytes")
  case True
  let ?d = "phys_to_virt (pm_start pm + start)"
  note t = copy_target[OF True assms(1,2)]
  have c: "memcpy m ?d data (unat nbytes) = copied m ?d data (unat nbytes)"
    using memcpy_correct[OF t(1) assms(3)] assms(4) t(2) by blast
  have "copied m ?d data (unat nbytes) (phys_to_virt (pm_start pm + start + of_nat i)) = m (data + of_nat i)" if "i < unat nbytes" for i
  proof -
    have "phys_to_virt (pm_start pm + start + of_nat i) = ?d + of_nat i"
      by (simp add: phys_to_virt_def phys_to_virt_off_def algebra_simps)
    moreover have "?d + of_nat i \<in> range_of ?d (unat nbytes)" using that unfolding range_of_def by blast
    ultimately show ?thesis by (simp add: copied_def)
  qed
  then show ?thesis using True c t(2) by (auto simp: copy_to_vm_gpaddr_def copied_def)
qed (simp add: copy_to_vm_gpaddr_def)

theorem copy_to_vm_gpaddr_contained_witness:
  "\<exists>m'. copy_to_vm_gpaddr (\<lambda>_. 7) \<lparr>pm_start = 0x1000, pm_end = 0x1FFF\<rparr> 0x10 0x5000 2 = (True, m')
    \<and> m' (phys_to_virt 0x1011) = 7"
proof -
  let ?pm = "\<lparr>pm_start = 0x1000, pm_end = 0x1FFF\<rparr>"
  have "{i :: nat. i < 2} = {0, 1}" by auto
  then have "range_of 0x5000 2 = (\<lambda>i :: nat. 0x5000 + of_nat i) ` {0, 1}" unfolding range_of_def by blast
  then have "range_of 0x5000 2 \<inter> vm_bytes ?pm = {}"
    by (simp add: vm_bytes_def virt_to_phys_def virt_to_phys_off_def HYPERVISOR_DIRECT_MAPPING_OFFSET_def)
  moreover have "vm_memory_contig_range_fits ?pm 0x10 2" by (simp add: vm_memory_contig_range_fits_def get_vm_memory_size_def)
  ultimately show ?thesis
    using copy_to_vm_gpaddr_contained[where pm = ?pm and data = "0x5000" and nbytes = 2 and m = "\<lambda>_. 7" and start = "0x10"]
    by (force simp: fits_def dest: spec[of _ "1 :: nat"] split: prod.splits)
qed

end
