(* ===== verification/Vmx_Policy.thy ===== *)
theory Vmx_Policy
  imports HyvPrelude
begin

text \<open>
  The control words of a virtual processor: \<^verbatim>\<open>arch/x64/vmx/policy.c\<close> and \<^verbatim>\<open>policy.h\<close> with the word formats of
  \<^verbatim>\<open>vmcs.h\<close>, and the policy that \<^verbatim>\<open>arch/x64/vm/vm.c\<close> configures. The model specific registers of the
  processor are an argument \<open>read_msr\<close>. A control word is its raw value; a flag of the bit field is a position.
  The specification is which settings the processor allows (\<open>settings_allowed\<close>) and which settings depend on
  others (\<open>control_dependencies\<close>), as the processor manual documents the checks at VM entry.
\<close>

section \<open>Registers and control words\<close>

type_synonym msrs = "u64 \<Rightarrow> u64"

datatype vmx_msr =
    MSRX64_IA32_VMX_BASIC | MSR_IA32_VMX_PINBASED_CTLS | MSR_IA32_VMX_TRUE_PINBASED_CTLS
  | MSR_IA32_VMX_PROCBASED_CTLS | MSR_IA32_VMX_TRUE_PROCBASED_CTLS | MSR_IA32_VMX_PROCBASED_CTLS2
  | MSR_IA32_VMX_PROCBASED_CTLS3 | MSR_IA32_VMX_EXIT_CTLS | MSR_IA32_VMX_TRUE_EXIT_CTLS | MSR_IA32_VMX_EXIT_CTLS2
  | MSR_IA32_VMX_ENTRY_CTLS | MSR_IA32_VMX_TRUE_ENTRY_CTLS

fun msr_address :: "vmx_msr \<Rightarrow> u64" where
  "msr_address MSRX64_IA32_VMX_BASIC = 0x480"
| "msr_address MSR_IA32_VMX_PINBASED_CTLS = 0x481"
| "msr_address MSR_IA32_VMX_TRUE_PINBASED_CTLS = 0x48D"
| "msr_address MSR_IA32_VMX_PROCBASED_CTLS = 0x482"
| "msr_address MSR_IA32_VMX_TRUE_PROCBASED_CTLS = 0x48E"
| "msr_address MSR_IA32_VMX_PROCBASED_CTLS2 = 0x48B"
| "msr_address MSR_IA32_VMX_PROCBASED_CTLS3 = 0x492"
| "msr_address MSR_IA32_VMX_EXIT_CTLS = 0x483"
| "msr_address MSR_IA32_VMX_TRUE_EXIT_CTLS = 0x48F"
| "msr_address MSR_IA32_VMX_EXIT_CTLS2 = 0x493"
| "msr_address MSR_IA32_VMX_ENTRY_CTLS = 0x484"
| "msr_address MSR_IA32_VMX_TRUE_ENTRY_CTLS = 0x490"

definition VMX_DEFAULT1_CTLS_MAY_BE_0 :: "msrs \<Rightarrow> bool" where
  "VMX_DEFAULT1_CTLS_MAY_BE_0 read_msr = IS_SET (read_msr (msr_address MSRX64_IA32_VMX_BASIC)) (U64_LSHIFT 1 55)"

definition get_x_ctls_msr :: "msrs \<Rightarrow> vmx_msr \<Rightarrow> vmx_msr \<Rightarrow> u64" where
  "get_x_ctls_msr read_msr true_msr msr =
     (if VMX_DEFAULT1_CTLS_MAY_BE_0 read_msr then read_msr (msr_address true_msr) else read_msr (msr_address msr))"

definition get_pinbased_ctls_msr :: "msrs \<Rightarrow> u64" where
  "get_pinbased_ctls_msr read_msr = get_x_ctls_msr read_msr MSR_IA32_VMX_TRUE_PINBASED_CTLS MSR_IA32_VMX_PINBASED_CTLS"

definition get_procbased_ctls1_msr :: "msrs \<Rightarrow> u64" where
  "get_procbased_ctls1_msr read_msr = get_x_ctls_msr read_msr MSR_IA32_VMX_TRUE_PROCBASED_CTLS MSR_IA32_VMX_PROCBASED_CTLS"

definition get_procbased_ctls2_msr :: "msrs \<Rightarrow> u64" where
  "get_procbased_ctls2_msr read_msr = read_msr (msr_address MSR_IA32_VMX_PROCBASED_CTLS2)"

definition get_procbased_ctls3_msr :: "msrs \<Rightarrow> u64" where
  "get_procbased_ctls3_msr read_msr = read_msr (msr_address MSR_IA32_VMX_PROCBASED_CTLS3)"

definition get_vmexit_ctls1_msr :: "msrs \<Rightarrow> u64" where
  "get_vmexit_ctls1_msr read_msr = get_x_ctls_msr read_msr MSR_IA32_VMX_TRUE_EXIT_CTLS MSR_IA32_VMX_EXIT_CTLS"

definition get_vmexit_ctls2_msr :: "msrs \<Rightarrow> u64" where
  "get_vmexit_ctls2_msr read_msr = read_msr (msr_address MSR_IA32_VMX_EXIT_CTLS2)"

definition get_vmentry_ctls_msr :: "msrs \<Rightarrow> u64" where
  "get_vmentry_ctls_msr read_msr = get_x_ctls_msr read_msr MSR_IA32_VMX_TRUE_ENTRY_CTLS MSR_IA32_VMX_ENTRY_CTLS"

definition U32_LSHIFT :: "u32 \<Rightarrow> nat \<Rightarrow> u32" where
  "U32_LSHIFT val shift = push_bit shift val"

definition VMCS_PIN_BASED_CTLS_DEFAULT1 :: u32 where
  "VMCS_PIN_BASED_CTLS_DEFAULT1 = (U32_LSHIFT 1 1 OR U32_LSHIFT 1 2) OR U32_LSHIFT 1 4"

text \<open>
  The macro has a comma where the other masks have an operator: its value is that of the last operand.
\<close>

definition VMCS_PROCBASED_CTLS1_DEFAULT1 :: u32 where
  "VMCS_PROCBASED_CTLS1_DEFAULT1 =
     (let _ = ((U32_LSHIFT 1 1 OR U32_LSHIFT 7 4) OR U32_LSHIFT 1 8) OR U32_LSHIFT 15 13 in U32_LSHIFT 1 26)"

definition VMCS_EXIT_CTLS1_DEFAULT1 :: u32 where
  "VMCS_EXIT_CTLS1_DEFAULT1 = ((511 OR U32_LSHIFT 3 10) OR U32_LSHIFT 3 13) OR U32_LSHIFT 3 16"

definition VMCS_ENTRY_CTLS_DEFAULT1 :: u32 where
  "VMCS_ENTRY_CTLS_DEFAULT1 = 511 OR U32_LSHIFT 1 12"

text \<open>The positions of the flags that are used, by word.\<close>

definition external_interrupt_exiting :: nat where "external_interrupt_exiting = 0"
definition process_posted_interrupts :: nat where "process_posted_interrupts = 7"

definition activate_tertiary_controls :: nat where "activate_tertiary_controls = 17"
definition tpr_shadow :: nat where "tpr_shadow = 21"
definition io_bitmaps :: nat where "io_bitmaps = 25"
definition msr_bitmaps :: nat where "msr_bitmaps = 28"
definition activate_secondary_controls :: nat where "activate_secondary_controls = 31"

definition virtualize_apic_accesses :: nat where "virtualize_apic_accesses = 0"
definition enable_ept :: nat where "enable_ept = 1"
definition enable_rdtscp :: nat where "enable_rdtscp = 3"
definition virtualize_x2apic_mode :: nat where "virtualize_x2apic_mode = 4"
definition unrestricted_guest :: nat where "unrestricted_guest = 7"
definition apic_register_virtualization :: nat where "apic_register_virtualization = 8"
definition virtual_interrupt_delivery :: nat where "virtual_interrupt_delivery = 9"
definition enable_invpcid :: nat where "enable_invpcid = 12"

definition host_addr_space_size :: nat where "host_addr_space_size = 9"
definition ack_interrupt_on_exit :: nat where "ack_interrupt_on_exit = 15"
definition save_ia32_efer :: nat where "save_ia32_efer = 20"
definition exit_load_ia32_efer :: nat where "exit_load_ia32_efer = 21"

definition ia32e_mode_guest :: nat where "ia32e_mode_guest = 9"
definition entry_load_ia32_efer :: nat where "entry_load_ia32_efer = 15"

text \<open>A word whose fields are set to 1 one after the other.\<close>

definition set_fields :: "nat list \<Rightarrow> 'a::len word \<Rightarrow> 'a word" where
  "set_fields ns w = fold set_bit ns w"

section \<open>Operations\<close>

record vmx_virt_policy =
  pin_ctls :: u32
  proc_ctls1 :: u32
  proc_ctls2 :: u32
  proc_ctls3 :: u64
  exit_ctls1 :: u32
  exit_ctls2 :: u64
  entry_ctls :: u32

datatype vmx_policy_option =
    VMX_POLICY_PROCBASED_CTLS2 | VMX_POLICY_PROCBASED_CTLS3 | VMX_POLICY_VM_EXIT_CTLS2
  | VMX_POLICY_EPT | VMX_POLICY_MSR_BITMAP | VMX_POLICY_UNRESTRICTED_GUEST

datatype vmx_policy_vrfy_status =
    VMX_POLICY_VALID | VMX_POLICY_INVALID | VMX_POLICY_RESERVED_FIELD_CONFIGURED
  | VMX_POLICY_INVALID_OPTION_SET | VMX_POLICY_UNSUPPORTED_CTL_ACTIVATED

text \<open>\<open>vmx_caps\<close>, the capabilities of the current processor, is an argument where it is read.\<close>

fun vmx_caps_is_option_supported :: "vmx_virt_policy \<Rightarrow> vmx_policy_option \<Rightarrow> bool" where
  "vmx_caps_is_option_supported vmx_caps VMX_POLICY_PROCBASED_CTLS2 = bit (proc_ctls1 vmx_caps) activate_secondary_controls"
| "vmx_caps_is_option_supported vmx_caps VMX_POLICY_PROCBASED_CTLS3 = bit (proc_ctls1 vmx_caps) activate_tertiary_controls"
| "vmx_caps_is_option_supported vmx_caps VMX_POLICY_VM_EXIT_CTLS2 = bit (exit_ctls1 vmx_caps) activate_secondary_controls"
| "vmx_caps_is_option_supported vmx_caps VMX_POLICY_EPT =
     (bit (proc_ctls1 vmx_caps) activate_secondary_controls \<and> bit (proc_ctls2 vmx_caps) enable_ept)"
| "vmx_caps_is_option_supported vmx_caps VMX_POLICY_MSR_BITMAP = bit (proc_ctls1 vmx_caps) msr_bitmaps"
| "vmx_caps_is_option_supported vmx_caps VMX_POLICY_UNRESTRICTED_GUEST =
     (bit (proc_ctls1 vmx_caps) activate_secondary_controls \<and> bit (proc_ctls2 vmx_caps) unrestricted_guest)"

definition set_reserved_pinbased_ctls :: "msrs \<Rightarrow> u32 \<Rightarrow> u32" where
  "set_reserved_pinbased_ctls read_msr ctls =
     (let pinbased_msr = get_pinbased_ctls_msr read_msr;
          allowed0 = U64_LOWER32 pinbased_msr;
          allowed1 = U64_UPPER32 pinbased_msr
      in (ctls OR allowed0) AND allowed1)"

definition set_reserved_pinbased_ctls_default1 :: "msrs \<Rightarrow> u32 \<Rightarrow> u32" where
  "set_reserved_pinbased_ctls_default1 read_msr ctls =
     set_reserved_pinbased_ctls read_msr (ctls OR VMCS_PIN_BASED_CTLS_DEFAULT1)"

definition set_reserved_procbased_ctls1 :: "msrs \<Rightarrow> u32 \<Rightarrow> u32" where
  "set_reserved_procbased_ctls1 read_msr ctls =
     (let procbased_msr = get_procbased_ctls1_msr read_msr;
          allowed0 = U64_LOWER32 procbased_msr;
          allowed1 = U64_UPPER32 procbased_msr
      in (ctls OR allowed0) AND allowed1)"

definition set_reserved_procbased_ctls1_default1 :: "msrs \<Rightarrow> u32 \<Rightarrow> u32" where
  "set_reserved_procbased_ctls1_default1 read_msr ctls =
     set_reserved_procbased_ctls1 read_msr (ctls OR VMCS_PROCBASED_CTLS1_DEFAULT1)"

definition set_reserved_procbased_ctls2 :: "msrs \<Rightarrow> vmx_virt_policy \<Rightarrow> u32 \<Rightarrow> u32" where
  "set_reserved_procbased_ctls2 read_msr vmx_caps ctls =
     (if \<not> vmx_caps_is_option_supported vmx_caps VMX_POLICY_PROCBASED_CTLS2 then 0
      else
        let procbased_msr = get_procbased_ctls2_msr read_msr;
            allowed1 = U64_UPPER32 procbased_msr
        in ctls AND allowed1)"

definition set_reserved_procbased_ctls3 :: "msrs \<Rightarrow> vmx_virt_policy \<Rightarrow> u64 \<Rightarrow> u64" where
  "set_reserved_procbased_ctls3 read_msr vmx_caps ctls =
     (if \<not> vmx_caps_is_option_supported vmx_caps VMX_POLICY_PROCBASED_CTLS3 then 0
      else ctls AND get_procbased_ctls3_msr read_msr)"

definition set_reserved_vm_exit_ctls1 :: "msrs \<Rightarrow> u32 \<Rightarrow> u32" where
  "set_reserved_vm_exit_ctls1 read_msr ctls =
     (let exit_msr = get_vmexit_ctls1_msr read_msr;
          allowed0 = U64_LOWER32 exit_msr;
          allowed1 = U64_UPPER32 exit_msr
      in (ctls OR allowed0) AND allowed1)"

definition set_reserved_vm_exit_ctls1_default1 :: "msrs \<Rightarrow> u32 \<Rightarrow> u32" where
  "set_reserved_vm_exit_ctls1_default1 read_msr ctls =
     set_reserved_vm_exit_ctls1 read_msr (ctls OR VMCS_EXIT_CTLS1_DEFAULT1)"

definition set_reserved_vm_exit_ctls2 :: "msrs \<Rightarrow> vmx_virt_policy \<Rightarrow> u64 \<Rightarrow> u64" where
  "set_reserved_vm_exit_ctls2 read_msr vmx_caps ctls =
     (if \<not> vmx_caps_is_option_supported vmx_caps VMX_POLICY_VM_EXIT_CTLS2 then 0
      else ctls AND get_vmexit_ctls2_msr read_msr)"

definition set_reserved_vm_entry_ctls :: "msrs \<Rightarrow> u32 \<Rightarrow> u32" where
  "set_reserved_vm_entry_ctls read_msr ctls =
     (let entry_msr = get_vmentry_ctls_msr read_msr;
          allowed0 = U64_LOWER32 entry_msr;
          allowed1 = U64_UPPER32 entry_msr
      in (ctls OR allowed0) AND allowed1)"

definition set_reserved_vm_entry_ctls_default1 :: "msrs \<Rightarrow> u32 \<Rightarrow> u32" where
  "set_reserved_vm_entry_ctls_default1 read_msr ctls =
     set_reserved_vm_entry_ctls read_msr (ctls OR VMCS_ENTRY_CTLS_DEFAULT1)"

text \<open>
  The words that \<^verbatim>\<open>init_vmx_capabilities\<close> requires.
\<close>

definition min_pin_ctls :: u32 where
  "min_pin_ctls = set_fields [external_interrupt_exiting, process_posted_interrupts] 0"

definition min_proc_ctls1 :: u32 where
  "min_proc_ctls1 = set_fields [activate_secondary_controls, msr_bitmaps, tpr_shadow] 0"

definition min_proc_ctls2 :: u32 where
  "min_proc_ctls2 = set_fields [enable_ept, unrestricted_guest, enable_invpcid, enable_rdtscp, virtualize_apic_accesses,
     virtualize_x2apic_mode, apic_register_virtualization, virtual_interrupt_delivery] 0"

definition min_exit_ctls1 :: u32 where
  "min_exit_ctls1 = set_fields [ack_interrupt_on_exit, host_addr_space_size, exit_load_ia32_efer, save_ia32_efer] 0"

definition min_entry_ctls :: u32 where
  "min_entry_ctls = set_fields [ia32e_mode_guest, entry_load_ia32_efer] 0"

text \<open>\<open>True\<close> is the return value 0; on an error the capabilities that were set before remain.\<close>

definition init_vmx_capabilities :: "msrs \<Rightarrow> vmx_virt_policy \<Rightarrow> bool \<times> vmx_virt_policy" where
  "init_vmx_capabilities read_msr vmx_caps =
     (let vmx_caps = vmx_caps\<lparr>pin_ctls := set_reserved_pinbased_ctls_default1 read_msr min_pin_ctls\<rparr> in
      if pin_ctls vmx_caps AND min_pin_ctls \<noteq> min_pin_ctls then (False, vmx_caps)
      else
      let vmx_caps = vmx_caps\<lparr>proc_ctls1 := set_reserved_procbased_ctls1_default1 read_msr min_proc_ctls1\<rparr> in
      if proc_ctls1 vmx_caps AND min_proc_ctls1 \<noteq> min_proc_ctls1 then (False, vmx_caps)
      else
      let (ok, vmx_caps) =
        (if bit (proc_ctls1 vmx_caps) activate_secondary_controls then
           let vmx_caps = vmx_caps\<lparr>proc_ctls2 := set_reserved_procbased_ctls2 read_msr vmx_caps min_proc_ctls2\<rparr>
           in (proc_ctls2 vmx_caps AND min_proc_ctls2 = min_proc_ctls2, vmx_caps)
         else (True, vmx_caps\<lparr>proc_ctls2 := 0\<rparr>)) in
      if \<not> ok then (False, vmx_caps)
      else
      let (ok, vmx_caps) =
        (if bit (proc_ctls1 vmx_caps) activate_tertiary_controls then
           let vmx_caps = vmx_caps\<lparr>proc_ctls3 := set_reserved_procbased_ctls3 read_msr vmx_caps 0\<rparr>
           in (proc_ctls3 vmx_caps AND 0 = 0, vmx_caps)
         else (True, vmx_caps\<lparr>proc_ctls3 := 0\<rparr>)) in
      if \<not> ok then (False, vmx_caps)
      else
      let vmx_caps = vmx_caps\<lparr>exit_ctls1 := set_reserved_vm_exit_ctls1_default1 read_msr min_exit_ctls1\<rparr> in
      if exit_ctls1 vmx_caps AND min_exit_ctls1 \<noteq> min_exit_ctls1 then (False, vmx_caps)
      else
      let (ok, vmx_caps) =
        (if bit (exit_ctls1 vmx_caps) activate_secondary_controls then
           let vmx_caps = vmx_caps\<lparr>exit_ctls2 := set_reserved_vm_exit_ctls2 read_msr vmx_caps 0\<rparr>
           in (exit_ctls2 vmx_caps AND 0 = 0, vmx_caps)
         else (True, vmx_caps\<lparr>exit_ctls2 := 0\<rparr>)) in
      if \<not> ok then (False, vmx_caps)
      else
      let vmx_caps = vmx_caps\<lparr>entry_ctls := set_reserved_vm_entry_ctls_default1 read_msr min_entry_ctls\<rparr> in
      if entry_ctls vmx_caps AND min_entry_ctls \<noteq> min_entry_ctls then (False, vmx_caps)
      else (True, vmx_caps))"

definition zero_policy :: vmx_virt_policy where
  "zero_policy = \<lparr>pin_ctls = 0, proc_ctls1 = 0, proc_ctls2 = 0, proc_ctls3 = 0, exit_ctls1 = 0, exit_ctls2 = 0, entry_ctls = 0\<rparr>"

definition vmx_init_default_policy :: "msrs \<Rightarrow> vmx_virt_policy" where
  "vmx_init_default_policy read_msr =
     (let policy = zero_policy;
          policy = policy\<lparr>pin_ctls := set_reserved_pinbased_ctls_default1 read_msr (pin_ctls policy)\<rparr>;
          policy = policy\<lparr>proc_ctls1 := set_reserved_procbased_ctls1_default1 read_msr (proc_ctls1 policy)\<rparr>;
          policy = policy\<lparr>exit_ctls1 := set_reserved_vm_exit_ctls1_default1 read_msr (exit_ctls1 policy)\<rparr>
      in policy\<lparr>entry_ctls := set_reserved_vm_entry_ctls_default1 read_msr (entry_ctls policy)\<rparr>)"

fun vmx_policy_is_option_configured :: "vmx_virt_policy \<Rightarrow> vmx_policy_option \<Rightarrow> bool" where
  "vmx_policy_is_option_configured policy VMX_POLICY_PROCBASED_CTLS2 = bit (proc_ctls1 policy) activate_secondary_controls"
| "vmx_policy_is_option_configured policy VMX_POLICY_PROCBASED_CTLS3 = bit (proc_ctls1 policy) activate_tertiary_controls"
| "vmx_policy_is_option_configured policy VMX_POLICY_VM_EXIT_CTLS2 = bit (exit_ctls1 policy) activate_secondary_controls"
| "vmx_policy_is_option_configured policy VMX_POLICY_EPT =
     (bit (proc_ctls1 policy) activate_secondary_controls \<and> bit (proc_ctls2 policy) enable_ept)"
| "vmx_policy_is_option_configured policy VMX_POLICY_MSR_BITMAP = bit (proc_ctls1 policy) msr_bitmaps"
| "vmx_policy_is_option_configured policy VMX_POLICY_UNRESTRICTED_GUEST =
     (bit (proc_ctls1 policy) activate_secondary_controls \<and> bit (proc_ctls2 policy) unrestricted_guest)"

definition VALIDATE_CONTROL :: "'a::len word \<Rightarrow> 'a word \<Rightarrow> bool" where
  "VALIDATE_CONTROL raw_caps raw_policy = (raw_caps AND raw_policy = raw_policy)"

definition policy_validates_against_capabilities :: "vmx_virt_policy \<Rightarrow> vmx_virt_policy \<Rightarrow> vmx_policy_vrfy_status" where
  "policy_validates_against_capabilities vmx_caps policy =
     (if \<not> VALIDATE_CONTROL (pin_ctls vmx_caps) (pin_ctls policy) then VMX_POLICY_INVALID_OPTION_SET
      else if \<not> VALIDATE_CONTROL (proc_ctls1 vmx_caps) (proc_ctls1 policy) then VMX_POLICY_INVALID_OPTION_SET
      else if bit (proc_ctls1 policy) activate_secondary_controls
        \<and> \<not> VALIDATE_CONTROL (proc_ctls2 vmx_caps) (proc_ctls2 policy) then VMX_POLICY_INVALID_OPTION_SET
      else if bit (proc_ctls1 policy) activate_tertiary_controls
        \<and> \<not> VALIDATE_CONTROL (proc_ctls3 vmx_caps) (proc_ctls3 policy) then VMX_POLICY_INVALID_OPTION_SET
      else if \<not> VALIDATE_CONTROL (exit_ctls1 vmx_caps) (exit_ctls1 policy) then VMX_POLICY_INVALID_OPTION_SET
      else if bit (exit_ctls1 policy) activate_secondary_controls
        \<and> \<not> VALIDATE_CONTROL (exit_ctls2 vmx_caps) (exit_ctls2 policy) then VMX_POLICY_INVALID_OPTION_SET
      else if \<not> VALIDATE_CONTROL (entry_ctls vmx_caps) (entry_ctls policy) then VMX_POLICY_INVALID_OPTION_SET
      else VMX_POLICY_VALID)"

definition policy_validates_against_default_values ::
  "msrs \<Rightarrow> vmx_virt_policy \<Rightarrow> vmx_virt_policy \<Rightarrow> vmx_policy_vrfy_status" where
  "policy_validates_against_default_values read_msr vmx_caps policy =
     (if pin_ctls policy \<noteq> set_reserved_pinbased_ctls read_msr (pin_ctls policy) then VMX_POLICY_RESERVED_FIELD_CONFIGURED
      else if proc_ctls1 policy \<noteq> set_reserved_procbased_ctls1 read_msr (proc_ctls1 policy) then VMX_POLICY_RESERVED_FIELD_CONFIGURED
      else if proc_ctls2 policy \<noteq> set_reserved_procbased_ctls2 read_msr vmx_caps (proc_ctls2 policy) then VMX_POLICY_RESERVED_FIELD_CONFIGURED
      else if proc_ctls3 policy \<noteq> set_reserved_procbased_ctls3 read_msr vmx_caps (proc_ctls3 policy) then VMX_POLICY_RESERVED_FIELD_CONFIGURED
      else if exit_ctls1 policy \<noteq> set_reserved_vm_exit_ctls1 read_msr (exit_ctls1 policy) then VMX_POLICY_RESERVED_FIELD_CONFIGURED
      else if exit_ctls2 policy \<noteq> set_reserved_vm_exit_ctls2 read_msr vmx_caps (exit_ctls2 policy) then VMX_POLICY_RESERVED_FIELD_CONFIGURED
      else if entry_ctls policy \<noteq> set_reserved_vm_entry_ctls read_msr (entry_ctls policy) then VMX_POLICY_RESERVED_FIELD_CONFIGURED
      else VMX_POLICY_VALID)"

definition validate_control_dependencies :: "vmx_virt_policy \<Rightarrow> vmx_policy_vrfy_status" where
  "validate_control_dependencies policy = VMX_POLICY_VALID"

definition validate_vmx_virt_policy :: "msrs \<Rightarrow> vmx_virt_policy \<Rightarrow> vmx_virt_policy \<Rightarrow> vmx_policy_vrfy_status" where
  "validate_vmx_virt_policy read_msr vmx_caps policy =
     (if policy_validates_against_default_values read_msr vmx_caps policy \<noteq> VMX_POLICY_VALID then VMX_POLICY_INVALID
      else if policy_validates_against_capabilities vmx_caps policy \<noteq> VMX_POLICY_VALID then VMX_POLICY_INVALID
      else if \<not> bit (proc_ctls1 policy) activate_secondary_controls \<and> proc_ctls2 policy \<noteq> 0 then VMX_POLICY_INVALID
      else if \<not> bit (proc_ctls1 policy) activate_tertiary_controls \<and> proc_ctls3 policy \<noteq> 0 then VMX_POLICY_INVALID
      else if \<not> bit (exit_ctls1 policy) activate_secondary_controls \<and> exit_ctls2 policy \<noteq> 0 then VMX_POLICY_INVALID
      else if validate_control_dependencies policy \<noteq> VMX_POLICY_VALID then VMX_POLICY_INVALID
      else VMX_POLICY_VALID)"

definition configure_base_virt_policy :: "msrs \<Rightarrow> vmx_virt_policy" where
  "configure_base_virt_policy read_msr =
     (let policy = vmx_init_default_policy read_msr in
      policy\<lparr>pin_ctls := set_fields [external_interrupt_exiting] (pin_ctls policy),
        proc_ctls1 := set_fields [activate_secondary_controls, msr_bitmaps, io_bitmaps, tpr_shadow] (proc_ctls1 policy),
        proc_ctls2 := set_fields [enable_invpcid, enable_ept, unrestricted_guest, enable_rdtscp, virtualize_apic_accesses,
          apic_register_virtualization] (proc_ctls2 policy),
        exit_ctls1 := set_fields [host_addr_space_size, exit_load_ia32_efer, save_ia32_efer] (exit_ctls1 policy),
        entry_ctls := set_fields [entry_load_ia32_efer] (entry_ctls policy)\<rparr>)"

section \<open>Words and their capabilities\<close>

lemma word_bits_eq: "(v :: 'a::len word) = w \<longleftrightarrow> (\<forall>n. bit v n \<longleftrightarrow> bit w n)"
  by (auto intro: bit_word_eqI)


lemma VALIDATE_CONTROL_iff: "VALIDATE_CONTROL caps w \<longleftrightarrow> (\<forall>n. bit w n \<longrightarrow> bit caps n)"
  unfolding VALIDATE_CONTROL_def by (auto simp: word_bits_eq bit_and_iff)

lemma bit_set_fields: "bit (set_fields ns (w :: 'a::len word)) n \<longleftrightarrow> bit w n \<or> n < LENGTH('a) \<and> n \<in> set ns"
  unfolding set_fields_def by (induction ns arbitrary: w) (auto simp: bit_set_bit_iff)

lemma bit_LOWER32: "bit (U64_LOWER32 w) n \<longleftrightarrow> n < 32 \<and> bit w n"
  unfolding U64_LOWER32_def by (auto simp: bit_simps bit_ucast_iff add.commute dest: bit_imp_le_length)

lemma bit_UPPER32: "bit (U64_UPPER32 w) n \<longleftrightarrow> n < 32 \<and> bit w (32 + n)"
  unfolding U64_UPPER32_def by (auto simp: bit_simps bit_ucast_iff add.commute)

text \<open>
  A capability register gives the bits that must be 1 in its low half and those that may be 1 in its high
  half; a bit that must be 1 may be 1.
\<close>

definition consistent :: "u64 \<Rightarrow> bool" where
  "consistent msr \<longleftrightarrow> (\<forall>n < 32. bit msr n \<longrightarrow> bit msr (32 + n))"

definition word_ok :: "u64 \<Rightarrow> u32 \<Rightarrow> bool" where
  "word_ok msr w \<longleftrightarrow> (\<forall>n < 32. (bit msr n \<longrightarrow> bit w n) \<and> (bit w n \<longrightarrow> bit msr (32 + n)))"

lemma u32_bits: "(\<forall>n < 32. bit w n \<longrightarrow> P n) \<longleftrightarrow> (\<forall>n. bit (w :: u32) n \<longrightarrow> P n)"
  using bit_imp_le_length[of w] by auto

lemma word_ok_iff: "word_ok msr w \<longleftrightarrow> (\<forall>n < 32. bit msr n \<longrightarrow> bit w n) \<and> (\<forall>n. bit w n \<longrightarrow> bit msr (32 + n))"
  unfolding word_ok_def u32_bits[symmetric] by auto

text \<open>The four functions that set reserved bits from a register with both halves keep one contract.\<close>

locale control_word =
  fixes sanitize :: "msrs \<Rightarrow> u32 \<Rightarrow> u32" and msr :: "msrs \<Rightarrow> u64"
  assumes sanitize_bits: "n < 32 \<Longrightarrow> bit (sanitize r w) n \<longleftrightarrow> (bit w n \<or> bit (msr r) n) \<and> bit (msr r) (32 + n)"
begin

lemma sanitized_bit: "bit (sanitize r w) n \<longleftrightarrow> n < 32 \<and> (bit w n \<or> bit (msr r) n) \<and> bit (msr r) (32 + n)"
  using sanitize_bits[of n r w] bit_imp_le_length[of "sanitize r w" n] by auto

lemma fixed_point: "consistent (msr r) \<Longrightarrow> w = sanitize r w \<longleftrightarrow> word_ok (msr r) w"
  unfolding word_ok_iff consistent_def using bit_imp_le_length[of w]
  by (auto simp: word_bits_eq[of w] sanitized_bit)

lemma sanitized_ok: "consistent (msr r) \<Longrightarrow> word_ok (msr r) (sanitize r w)"
  unfolding word_ok_def consistent_def by (auto simp: sanitized_bit)

lemma requirement_met:
  "sanitize r (m OR d) AND m = m \<longleftrightarrow> (\<forall>n. bit m n \<longrightarrow> bit (msr r) (32 + n))"
  by (auto simp: word_bits_eq bit_and_iff bit_or_iff sanitized_bit dest: bit_imp_le_length)

end

lemmas reserved_word_defs = Let_def bit_simps bit_LOWER32 bit_UPPER32

interpretation pin: control_word set_reserved_pinbased_ctls get_pinbased_ctls_msr
  by unfold_locales (simp add: set_reserved_pinbased_ctls_def reserved_word_defs)

interpretation proc1: control_word set_reserved_procbased_ctls1 get_procbased_ctls1_msr
  by unfold_locales (simp add: set_reserved_procbased_ctls1_def reserved_word_defs)

interpretation exit1: control_word set_reserved_vm_exit_ctls1 get_vmexit_ctls1_msr
  by unfold_locales (simp add: set_reserved_vm_exit_ctls1_def reserved_word_defs)

interpretation entry: control_word set_reserved_vm_entry_ctls get_vmentry_ctls_msr
  by unfold_locales (simp add: set_reserved_vm_entry_ctls_def reserved_word_defs)

text \<open>The registers of a processor.\<close>

definition msrs_ok :: "msrs \<Rightarrow> bool" where
  "msrs_ok r \<longleftrightarrow> consistent (get_pinbased_ctls_msr r) \<and> consistent (get_procbased_ctls1_msr r)
     \<and> consistent (get_vmexit_ctls1_msr r) \<and> consistent (get_vmentry_ctls_msr r)"

text \<open>
  The settings that the capability registers of the processor allow: every word within its allowed 0-settings and
  1-settings, secondary and tertiary words only where they are activated.
\<close>

definition settings_allowed :: "msrs \<Rightarrow> vmx_virt_policy \<Rightarrow> bool" where
  "settings_allowed r p \<longleftrightarrow>
     word_ok (get_pinbased_ctls_msr r) (pin_ctls p) \<and> word_ok (get_procbased_ctls1_msr r) (proc_ctls1 p)
     \<and> (bit (proc_ctls1 p) activate_secondary_controls \<longrightarrow> (\<forall>n < 32. bit (proc_ctls2 p) n \<longrightarrow> bit (get_procbased_ctls2_msr r) (32 + n)))
     \<and> (bit (proc_ctls1 p) activate_tertiary_controls \<longrightarrow> (\<forall>n. bit (proc_ctls3 p) n \<longrightarrow> bit (get_procbased_ctls3_msr r) n))
     \<and> word_ok (get_vmexit_ctls1_msr r) (exit_ctls1 p)
     \<and> (bit (exit_ctls1 p) activate_secondary_controls \<longrightarrow> (\<forall>n. bit (exit_ctls2 p) n \<longrightarrow> bit (get_vmexit_ctls2_msr r) n))
     \<and> word_ok (get_vmentry_ctls_msr r) (entry_ctls p)"

text \<open>
  The documented dependencies between the controls, on a processor in 64-bit mode outside of system management mode: virtual NMIs
  need NMI exiting and NMI-window exiting needs virtual NMIs; the virtualization of x2APIC mode and of APIC registers, the delivery of virtual interrupts and
  IPI virtualization need the TPR shadow; x2APIC mode excludes the virtualization of APIC accesses; virtual interrupts need exits for external
  interrupts; posted interrupts need virtual interrupts and acknowledged exits; an unrestricted guest, page-modification logging,
  mode-based execution, sub-page permissions and guest-physical trace addresses need EPT; the timer value is only saved if the timer is
  active; the two controls of system management mode are clear; and the host runs in 64-bit mode.
\<close>

definition secondary_control :: "vmx_virt_policy \<Rightarrow> nat \<Rightarrow> bool" where
  "secondary_control p n \<longleftrightarrow> bit (proc_ctls1 p) activate_secondary_controls \<and> bit (proc_ctls2 p) n"

definition control_dependencies :: "vmx_virt_policy \<Rightarrow> bool" where
  "control_dependencies p \<longleftrightarrow>
     (bit (pin_ctls p) 5 \<longrightarrow> bit (pin_ctls p) 3) \<and> (bit (proc_ctls1 p) 22 \<longrightarrow> bit (pin_ctls p) 5)
     \<and> (\<forall>n \<in> {virtualize_x2apic_mode, apic_register_virtualization, virtual_interrupt_delivery}. secondary_control p n \<longrightarrow> bit (proc_ctls1 p) tpr_shadow)
     \<and> (bit (proc_ctls1 p) activate_tertiary_controls \<and> bit (proc_ctls3 p) 4 \<longrightarrow> bit (proc_ctls1 p) tpr_shadow)
     \<and> (secondary_control p virtualize_x2apic_mode \<longrightarrow> \<not> secondary_control p virtualize_apic_accesses)
     \<and> (secondary_control p virtual_interrupt_delivery \<longrightarrow> bit (pin_ctls p) external_interrupt_exiting)
     \<and> (bit (pin_ctls p) process_posted_interrupts \<longrightarrow> secondary_control p virtual_interrupt_delivery \<and> bit (exit_ctls1 p) ack_interrupt_on_exit)
     \<and> (\<forall>n \<in> {unrestricted_guest, 17, 22, 23, 24}. secondary_control p n \<longrightarrow> secondary_control p enable_ept)
     \<and> (bit (exit_ctls1 p) 22 \<longrightarrow> bit (pin_ctls p) 6)
     \<and> \<not> bit (entry_ctls p) 10 \<and> \<not> bit (entry_ctls p) 11 \<and> bit (exit_ctls1 p) host_addr_space_size"

text \<open>The mandatory settings of the processor are in the class of controls that the manual calls default1.\<close>

definition default1_only :: "msrs \<Rightarrow> bool" where
  "default1_only r \<longleftrightarrow> (\<forall>n < 32. (bit (get_pinbased_ctls_msr r) n \<longrightarrow> n \<in> {1, 2, 4})
     \<and> (bit (get_procbased_ctls1_msr r) n \<longrightarrow> n \<in> {1, 4, 5, 6, 8, 13, 14, 15, 16, 26})
     \<and> (bit (get_vmexit_ctls1_msr r) n \<longrightarrow> n \<in> {0..8} \<union> {10, 11, 13, 14, 16, 17})
     \<and> (bit (get_vmentry_ctls_msr r) n \<longrightarrow> n \<in> {0..8} \<union> {12}))"

definition within :: "vmx_virt_policy \<Rightarrow> vmx_virt_policy \<Rightarrow> bool" where
  "within caps p \<longleftrightarrow> (\<forall>n. bit (pin_ctls p) n \<longrightarrow> bit (pin_ctls caps) n) \<and> (\<forall>n. bit (proc_ctls1 p) n \<longrightarrow> bit (proc_ctls1 caps) n)
     \<and> (\<forall>n. bit (proc_ctls2 p) n \<longrightarrow> bit (proc_ctls2 caps) n) \<and> (\<forall>n. bit (proc_ctls3 p) n \<longrightarrow> bit (proc_ctls3 caps) n)
     \<and> (\<forall>n. bit (exit_ctls1 p) n \<longrightarrow> bit (exit_ctls1 caps) n) \<and> (\<forall>n. bit (exit_ctls2 p) n \<longrightarrow> bit (exit_ctls2 caps) n)
     \<and> (\<forall>n. bit (entry_ctls p) n \<longrightarrow> bit (entry_ctls caps) n)"

definition inactive_zero :: "vmx_virt_policy \<Rightarrow> bool" where
  "inactive_zero p \<longleftrightarrow> (\<not> bit (proc_ctls1 p) activate_secondary_controls \<longrightarrow> proc_ctls2 p = 0)
     \<and> (\<not> bit (proc_ctls1 p) activate_tertiary_controls \<longrightarrow> proc_ctls3 p = 0)
     \<and> (\<not> bit (exit_ctls1 p) activate_secondary_controls \<longrightarrow> exit_ctls2 p = 0)"

lemma reserved2_fixed:
  "w = set_reserved_procbased_ctls2 r caps w \<longleftrightarrow>
     (if bit (proc_ctls1 caps) activate_secondary_controls then \<forall>n < 32. bit w n \<longrightarrow> bit (get_procbased_ctls2_msr r) (32 + n) else w = 0)"
  using bit_imp_le_length[of w] unfolding u32_bits
  by (auto simp: set_reserved_procbased_ctls2_def Let_def word_bits_eq[of w] bit_and_iff bit_UPPER32)

lemma reserved3_fixed:
  "w = set_reserved_procbased_ctls3 r caps w \<longleftrightarrow>
     (if bit (proc_ctls1 caps) activate_tertiary_controls then \<forall>n. bit w n \<longrightarrow> bit (get_procbased_ctls3_msr r) n else w = 0)"
  by (auto simp: set_reserved_procbased_ctls3_def word_bits_eq[of w] bit_and_iff)

lemma reserved_exit2_fixed:
  "w = set_reserved_vm_exit_ctls2 r caps w \<longleftrightarrow>
     (if bit (exit_ctls1 caps) activate_secondary_controls then \<forall>n. bit w n \<longrightarrow> bit (get_vmexit_ctls2_msr r) n else w = 0)"
  by (auto simp: set_reserved_vm_exit_ctls2_def word_bits_eq[of w] bit_and_iff)


text \<open>The options the hypervisor requires of a processor.\<close>

definition supports :: "u64 \<Rightarrow> u32 \<Rightarrow> bool" where
  "supports msr w \<longleftrightarrow> (\<forall>n. bit w n \<longrightarrow> bit msr (32 + n))"

definition required :: "msrs \<Rightarrow> bool" where
  "required r \<longleftrightarrow> supports (get_pinbased_ctls_msr r) min_pin_ctls \<and> supports (get_procbased_ctls1_msr r) min_proc_ctls1
     \<and> supports (get_procbased_ctls2_msr r) min_proc_ctls2 \<and> supports (get_vmexit_ctls1_msr r) min_exit_ctls1
     \<and> supports (get_vmentry_ctls_msr r) min_entry_ctls"

lemma min_bits:
  "bit min_pin_ctls n \<longleftrightarrow> n \<in> {0, 7}" "bit min_proc_ctls1 n \<longleftrightarrow> n \<in> {31, 28, 21}"
  "bit min_proc_ctls2 n \<longleftrightarrow> n \<in> {0, 1, 3, 4, 7, 8, 9, 12}" "bit min_exit_ctls1 n \<longleftrightarrow> n \<in> {9, 15, 20, 21}"
  "bit min_entry_ctls n \<longleftrightarrow> n \<in> {9, 15}"
  by (auto simp: min_pin_ctls_def min_proc_ctls1_def min_proc_ctls2_def min_exit_ctls1_def min_entry_ctls_def bit_set_fields
      external_interrupt_exiting_def process_posted_interrupts_def activate_secondary_controls_def msr_bitmaps_def tpr_shadow_def
      enable_ept_def unrestricted_guest_def enable_invpcid_def enable_rdtscp_def virtualize_apic_accesses_def
      virtualize_x2apic_mode_def apic_register_virtualization_def virtual_interrupt_delivery_def ack_interrupt_on_exit_def
      host_addr_space_size_def exit_load_ia32_efer_def save_ia32_efer_def ia32e_mode_guest_def entry_load_ia32_efer_def)

text \<open>The capabilities that a successful initialization records.\<close>

definition recorded :: "msrs \<Rightarrow> vmx_virt_policy" where
  "recorded r = \<lparr>pin_ctls = set_reserved_pinbased_ctls_default1 r min_pin_ctls,
     proc_ctls1 = set_reserved_procbased_ctls1_default1 r min_proc_ctls1, proc_ctls2 = min_proc_ctls2, proc_ctls3 = 0,
     exit_ctls1 = set_reserved_vm_exit_ctls1_default1 r min_exit_ctls1, exit_ctls2 = 0,
     entry_ctls = set_reserved_vm_entry_ctls_default1 r min_entry_ctls\<rparr>"

lemmas default1_defs = set_reserved_pinbased_ctls_default1_def set_reserved_procbased_ctls1_default1_def
  set_reserved_vm_exit_ctls1_default1_def set_reserved_vm_entry_ctls_default1_def

lemmas sanitized_bits = pin.sanitized_bit proc1.sanitized_bit exit1.sanitized_bit entry.sanitized_bit

lemma secondary_active: "supports (get_procbased_ctls1_msr r) min_proc_ctls1 \<Longrightarrow>
    bit (set_reserved_procbased_ctls1_default1 r min_proc_ctls1) activate_secondary_controls"
  by (auto simp: default1_defs sanitized_bits bit_or_iff supports_def activate_secondary_controls_def min_bits)

lemma allowed1_kept: "U64_UPPER32 msr AND w = w \<longleftrightarrow> supports msr w"
  using bit_imp_le_length[of w] by (auto simp: word_bits_eq bit_and_iff bit_UPPER32 supports_def)

lemma min_words_met:
  "set_reserved_pinbased_ctls_default1 r min_pin_ctls AND min_pin_ctls = min_pin_ctls \<longleftrightarrow> supports (get_pinbased_ctls_msr r) min_pin_ctls"
  "set_reserved_procbased_ctls1_default1 r min_proc_ctls1 AND min_proc_ctls1 = min_proc_ctls1 \<longleftrightarrow> supports (get_procbased_ctls1_msr r) min_proc_ctls1"
  "set_reserved_vm_exit_ctls1_default1 r min_exit_ctls1 AND min_exit_ctls1 = min_exit_ctls1 \<longleftrightarrow> supports (get_vmexit_ctls1_msr r) min_exit_ctls1"
  "set_reserved_vm_entry_ctls_default1 r min_entry_ctls AND min_entry_ctls = min_entry_ctls \<longleftrightarrow> supports (get_vmentry_ctls_msr r) min_entry_ctls"
  unfolding default1_defs supports_def pin.requirement_met proc1.requirement_met exit1.requirement_met entry.requirement_met
  by simp_all

lemma min_proc2_met:
  "(min_proc_ctls2 AND U64_UPPER32 msr) AND min_proc_ctls2 = min_proc_ctls2 \<longleftrightarrow> supports msr min_proc_ctls2"
  "supports msr min_proc_ctls2 \<Longrightarrow> min_proc_ctls2 AND U64_UPPER32 msr = min_proc_ctls2"
  using allowed1_kept[of msr min_proc_ctls2] by (simp_all add: and.commute and.left_commute)

lemma init_vmx_capabilities_cases:
  "if required r then init_vmx_capabilities r c = (True, recorded r) else \<exists>caps. init_vmx_capabilities r c = (False, caps)"
proof (cases "supports (get_pinbased_ctls_msr r) min_pin_ctls \<and> supports (get_procbased_ctls1_msr r) min_proc_ctls1
    \<and> supports (get_procbased_ctls2_msr r) min_proc_ctls2")
  case True
  then have "bit (set_reserved_procbased_ctls1_default1 r min_proc_ctls1) activate_secondary_controls" using secondary_active by blast
  then show ?thesis
    using True by (simp add: init_vmx_capabilities_def Let_def min_words_met min_proc2_met required_def recorded_def
        set_reserved_procbased_ctls2_def set_reserved_procbased_ctls3_def set_reserved_vm_exit_ctls2_def)
next
  case False
  then have "\<not> required r" by (auto simp: required_def)
  moreover have "\<exists>caps. init_vmx_capabilities r c = (False, caps)"
    using False secondary_active[of r]
    by (auto simp: init_vmx_capabilities_def Let_def min_words_met min_proc2_met set_reserved_procbased_ctls2_def)
  ultimately show ?thesis by simp
qed

lemma default_policy_sel:
  "pin_ctls (vmx_init_default_policy r) = set_reserved_pinbased_ctls r VMCS_PIN_BASED_CTLS_DEFAULT1"
  "proc_ctls1 (vmx_init_default_policy r) = set_reserved_procbased_ctls1 r VMCS_PROCBASED_CTLS1_DEFAULT1"
  "proc_ctls2 (vmx_init_default_policy r) = 0" "proc_ctls3 (vmx_init_default_policy r) = 0"
  "exit_ctls1 (vmx_init_default_policy r) = set_reserved_vm_exit_ctls1 r VMCS_EXIT_CTLS1_DEFAULT1"
  "exit_ctls2 (vmx_init_default_policy r) = 0"
  "entry_ctls (vmx_init_default_policy r) = set_reserved_vm_entry_ctls r VMCS_ENTRY_CTLS_DEFAULT1"
  by (simp_all add: vmx_init_default_policy_def zero_policy_def default1_defs)

lemma default_policy_ok:
  assumes "msrs_ok r"
  shows "settings_allowed r (vmx_init_default_policy r)" "within (recorded r) (vmx_init_default_policy r)"
    "inactive_zero (vmx_init_default_policy r)"
  using assms
  by (simp_all add: settings_allowed_def within_def inactive_zero_def default_policy_sel recorded_def msrs_ok_def default1_defs
      pin.sanitized_ok proc1.sanitized_ok exit1.sanitized_ok entry.sanitized_ok sanitized_bits bit_or_iff)

lemma base_policy_bits:
  "bit (pin_ctls (configure_base_virt_policy r)) n \<longleftrightarrow> n = 0 \<or> bit (set_reserved_pinbased_ctls r VMCS_PIN_BASED_CTLS_DEFAULT1) n"
  "bit (proc_ctls1 (configure_base_virt_policy r)) n \<longleftrightarrow>
     n \<in> {31, 28, 25, 21} \<or> bit (set_reserved_procbased_ctls1 r VMCS_PROCBASED_CTLS1_DEFAULT1) n"
  "bit (proc_ctls2 (configure_base_virt_policy r)) n \<longleftrightarrow> n \<in> {12, 1, 7, 3, 0, 8}" "proc_ctls3 (configure_base_virt_policy r) = 0"
  "bit (exit_ctls1 (configure_base_virt_policy r)) n \<longleftrightarrow> n \<in> {9, 21, 20} \<or> bit (set_reserved_vm_exit_ctls1 r VMCS_EXIT_CTLS1_DEFAULT1) n"
  "exit_ctls2 (configure_base_virt_policy r) = 0"
  "bit (entry_ctls (configure_base_virt_policy r)) n \<longleftrightarrow> n = 15 \<or> bit (set_reserved_vm_entry_ctls r VMCS_ENTRY_CTLS_DEFAULT1) n"
  by (auto simp: configure_base_virt_policy_def Let_def default_policy_sel bit_set_fields external_interrupt_exiting_def
      activate_secondary_controls_def msr_bitmaps_def io_bitmaps_def tpr_shadow_def enable_invpcid_def enable_ept_def
      unrestricted_guest_def enable_rdtscp_def virtualize_apic_accesses_def apic_register_virtualization_def
      host_addr_space_size_def exit_load_ia32_efer_def save_ia32_efer_def entry_load_ia32_efer_def)

lemma required_bits:
  assumes "required r"
  shows "n \<in> {0, 7} \<Longrightarrow> bit (get_pinbased_ctls_msr r) (32 + n)"
    "n \<in> {31, 28, 21} \<Longrightarrow> bit (get_procbased_ctls1_msr r) (32 + n)"
    "n \<in> {0, 1, 3, 4, 7, 8, 9, 12} \<Longrightarrow> bit (get_procbased_ctls2_msr r) (32 + n)"
    "n \<in> {9, 15, 20, 21} \<Longrightarrow> bit (get_vmexit_ctls1_msr r) (32 + n)"
    "n \<in> {9, 15} \<Longrightarrow> bit (get_vmentry_ctls_msr r) (32 + n)"
  using assms unfolding required_def supports_def min_bits by blast+

lemma word_ok_with:
  assumes "word_ok msr v" "\<And>n. bit w n \<longleftrightarrow> n \<in> N \<or> bit v n" "\<And>n. n \<in> N \<Longrightarrow> bit msr (32 + n)"
  shows "word_ok msr w"
  using assms unfolding word_ok_def by auto

lemma validation_exact:
  assumes "msrs_ok r"
  shows "validate_vmx_virt_policy r caps p = VMX_POLICY_VALID \<longleftrightarrow> settings_allowed r p \<and> within caps p \<and> inactive_zero p"
proof -
  have def: "policy_validates_against_default_values r caps p = VMX_POLICY_VALID \<longleftrightarrow>
      word_ok (get_pinbased_ctls_msr r) (pin_ctls p) \<and> word_ok (get_procbased_ctls1_msr r) (proc_ctls1 p)
      \<and> proc_ctls2 p = set_reserved_procbased_ctls2 r caps (proc_ctls2 p) \<and> proc_ctls3 p = set_reserved_procbased_ctls3 r caps (proc_ctls3 p)
      \<and> word_ok (get_vmexit_ctls1_msr r) (exit_ctls1 p) \<and> exit_ctls2 p = set_reserved_vm_exit_ctls2 r caps (exit_ctls2 p)
      \<and> word_ok (get_vmentry_ctls_msr r) (entry_ctls p)"
    using assms unfolding msrs_ok_def policy_validates_against_default_values_def
    by (simp add: pin.fixed_point proc1.fixed_point exit1.fixed_point entry.fixed_point)
  have caps: "policy_validates_against_capabilities caps p = VMX_POLICY_VALID \<and> inactive_zero p \<longleftrightarrow> within caps p \<and> inactive_zero p"
    unfolding policy_validates_against_capabilities_def within_def inactive_zero_def VALIDATE_CONTROL_iff by auto
  have all: "validate_vmx_virt_policy r caps p = VMX_POLICY_VALID \<longleftrightarrow>
      policy_validates_against_default_values r caps p = VMX_POLICY_VALID
      \<and> policy_validates_against_capabilities caps p = VMX_POLICY_VALID \<and> inactive_zero p"
    by (auto simp: validate_vmx_virt_policy_def inactive_zero_def validate_control_dependencies_def)
  show ?thesis unfolding all caps def reserved2_fixed reserved3_fixed reserved_exit2_fixed
    by (auto simp: settings_allowed_def within_def inactive_zero_def)
qed

section \<open>Properties\<close>

text \<open>
  C31. What the validation checks: on a processor with consistent capability registers, a policy is accepted exactly
  if every control word is within the settings that the capability registers allow, every option is among the recorded
  capabilities, and words that are not activated are zero. The dependencies between controls are not
  checked, see \<open>dependencies_not_validated\<close>.
\<close>

theorem policy_validation_exact:
  assumes "msrs_ok r"
  shows "validate_vmx_virt_policy r caps p = VMX_POLICY_VALID \<longleftrightarrow> settings_allowed r p \<and> within caps p \<and> inactive_zero p"
  using assms by (rule validation_exact)

text \<open>A processor that allows every option and demands none.\<close>

definition all_allowed :: u64 where
  "all_allowed = push_bit 32 (mask 32)"

definition plain_processor :: msrs where
  "plain_processor _ = all_allowed"

lemma plain_processor_msrs:
  "get_pinbased_ctls_msr plain_processor = all_allowed" "get_procbased_ctls1_msr plain_processor = all_allowed"
  "get_procbased_ctls2_msr plain_processor = all_allowed" "get_vmexit_ctls1_msr plain_processor = all_allowed"
  "get_vmentry_ctls_msr plain_processor = all_allowed"
  by (simp_all add: get_pinbased_ctls_msr_def get_procbased_ctls1_msr_def get_procbased_ctls2_msr_def get_vmexit_ctls1_msr_def
      get_vmentry_ctls_msr_def get_x_ctls_msr_def plain_processor_def)

lemma bit_all_allowed: "bit all_allowed n \<longleftrightarrow> 32 \<le> n \<and> n < 64"
  by (auto simp: all_allowed_def bit_simps)

lemma plain_processor_ok: "msrs_ok plain_processor" "required plain_processor"
  by (auto simp: msrs_ok_def consistent_def required_def supports_def plain_processor_msrs bit_all_allowed min_bits)

theorem policy_validation_exact_witness:
  "validate_vmx_virt_policy plain_processor zero_policy zero_policy = VMX_POLICY_VALID"
  using policy_validation_exact[OF plain_processor_ok(1), of zero_policy zero_policy]
  by (simp add: settings_allowed_def within_def inactive_zero_def zero_policy_def word_ok_def plain_processor_msrs bit_all_allowed)

text \<open>The validation accepts a policy with an unrestricted guest but without EPT, which the processor refuses at VM entry.\<close>

lemma dependencies_not_validated:
  assumes "p = zero_policy\<lparr>proc_ctls1 := push_bit 31 1, proc_ctls2 := push_bit 7 1\<rparr>"
  shows "validate_vmx_virt_policy plain_processor p p = VMX_POLICY_VALID \<and> \<not> control_dependencies p"
proof -
  have "settings_allowed plain_processor p"
    by (auto simp: assms settings_allowed_def zero_policy_def word_ok_def plain_processor_msrs bit_all_allowed activate_secondary_controls_def
        activate_tertiary_controls_def bit_simps)
  moreover have "within p p" "inactive_zero p"
    by (auto simp: assms within_def inactive_zero_def zero_policy_def activate_secondary_controls_def bit_simps)
  moreover have "secondary_control p unrestricted_guest" "\<not> secondary_control p enable_ept"
    by (simp_all add: assms secondary_control_def activate_secondary_controls_def unrestricted_guest_def enable_ept_def bit_simps)
  ultimately show ?thesis using validation_exact[OF plain_processor_ok(1)] unfolding control_dependencies_def by blast
qed

text \<open>
  Capabilities: initialization succeeds exactly on processors that support all required options, and then
  the default policy passes the validation.
\<close>

lemma init_vmx_capabilities_exact:
  assumes "msrs_ok r"
  shows "case init_vmx_capabilities r c of (ok, caps) \<Rightarrow> (ok \<longleftrightarrow> required r)
    \<and> (ok \<longrightarrow> validate_vmx_virt_policy r caps (vmx_init_default_policy r) = VMX_POLICY_VALID)"
  using init_vmx_capabilities_cases[of r c] validation_exact[OF assms, of "recorded r" "vmx_init_default_policy r"]
    default_policy_ok[OF assms] by (auto split: if_splits)

lemma init_vmx_capabilities_exact_witness:
  "\<exists>caps. init_vmx_capabilities plain_processor zero_policy = (True, caps)
    \<and> validate_vmx_virt_policy plain_processor caps (vmx_init_default_policy plain_processor) = VMX_POLICY_VALID"
  using init_vmx_capabilities_exact[OF plain_processor_ok(1), of zero_policy] plain_processor_ok(2) by (auto split: prod.splits)

lemma base_policy_facts:
  assumes "msrs_ok r" "init_vmx_capabilities r c = (True, caps)" "bit (get_procbased_ctls1_msr r) (32 + io_bitmaps)"
  shows "settings_allowed r (configure_base_virt_policy r)"
    and "\<not> bit (get_procbased_ctls1_msr r) io_bitmaps \<Longrightarrow>
      validate_vmx_virt_policy r caps (configure_base_virt_policy r) = VMX_POLICY_INVALID"
proof -
  have req: "required r" and caps: "caps = recorded r"
    using init_vmx_capabilities_cases[of r c] assms(2) by (auto split: if_splits)
  let ?p = "configure_base_virt_policy r"
  have c: "consistent (get_pinbased_ctls_msr r)" "consistent (get_procbased_ctls1_msr r)" "consistent (get_vmexit_ctls1_msr r)"
    "consistent (get_vmentry_ctls_msr r)" using assms(1) by (simp_all add: msrs_ok_def)
  note b = required_bits[OF req]
  have "word_ok (get_pinbased_ctls_msr r) (pin_ctls ?p)"
    by (rule word_ok_with[where N = "{0}", OF pin.sanitized_ok[OF c(1)]]) (use base_policy_bits(1) b(1)[of 0] in auto)
  moreover have "bit (get_procbased_ctls1_msr r) (32 + n)" if "n \<in> {31, 28, 25, 21}" for n
    using that b(2)[of n] assms(3) by (auto simp: io_bitmaps_def)
  then have "word_ok (get_procbased_ctls1_msr r) (proc_ctls1 ?p)"
    by (intro word_ok_with[where N = "{31, 28, 25, 21}", OF proc1.sanitized_ok[OF c(2)]]) (use base_policy_bits(2) in auto)
  moreover have "word_ok (get_vmexit_ctls1_msr r) (exit_ctls1 ?p)"
    by (rule word_ok_with[where N = "{9, 21, 20}", OF exit1.sanitized_ok[OF c(3)]]) (use base_policy_bits(5) b(4)[of 9] b(4)[of 20] b(4)[of 21] in auto)
  moreover have "word_ok (get_vmentry_ctls_msr r) (entry_ctls ?p)"
    by (rule word_ok_with[where N = "{15}", OF entry.sanitized_ok[OF c(4)]]) (use base_policy_bits(7) b(5)[of 15] in auto)
  moreover have "bit (get_procbased_ctls2_msr r) (32 + n)" if "bit (proc_ctls2 ?p) n" for n
    using that b(3)[of n] unfolding base_policy_bits by blast
  ultimately show "settings_allowed r ?p" by (simp add: settings_allowed_def base_policy_bits(4,6))
  assume no: "\<not> bit (get_procbased_ctls1_msr r) io_bitmaps"
  have "bit (proc_ctls1 ?p) 25" by (simp add: base_policy_bits(2))
  moreover have "\<not> bit (proc_ctls1 caps) 25"
    using no by (simp add: caps recorded_def default1_defs sanitized_bits bit_or_iff min_bits io_bitmaps_def
        VMCS_PROCBASED_CTLS1_DEFAULT1_def U32_LSHIFT_def bit_simps)
  ultimately have "\<not> within caps ?p" unfolding within_def by blast
  then have "validate_vmx_virt_policy r caps ?p \<noteq> VMX_POLICY_VALID" by (simp add: validation_exact[OF assms(1)])
  then show "validate_vmx_virt_policy r caps ?p = VMX_POLICY_INVALID"
    by (auto simp: validate_vmx_virt_policy_def split: if_splits)
qed

lemma base_policy_dependencies:
  assumes "default1_only r"
  shows "control_dependencies (configure_base_virt_policy r)" "\<not> bit (get_procbased_ctls1_msr r) io_bitmaps"
proof -
  let ?p = "configure_base_virt_policy r"
  note D = assms[unfolded default1_only_def, THEN spec, THEN mp]
  have d: "\<not> bit (get_pinbased_ctls_msr r) 5" "\<not> bit (get_pinbased_ctls_msr r) 7" using D[of 5] D[of 7] by simp_all
  have e: "\<not> bit (get_procbased_ctls1_msr r) 22" "\<not> bit (get_procbased_ctls1_msr r) 25" using D[of 22] D[of 25] by simp_all
  have f: "\<not> bit (get_vmexit_ctls1_msr r) 22" "\<not> bit (get_vmentry_ctls_msr r) 10" "\<not> bit (get_vmentry_ctls_msr r) 11"
    using D[of 22] D[of 10] D[of 11] by simp_all
  show "\<not> bit (get_procbased_ctls1_msr r) io_bitmaps" using e by (simp add: io_bitmaps_def)
  have "\<not> bit (pin_ctls ?p) 5" "\<not> bit (pin_ctls ?p) 7" "bit (pin_ctls ?p) 0"
    using d by (simp_all add: base_policy_bits(1) sanitized_bits VMCS_PIN_BASED_CTLS_DEFAULT1_def U32_LSHIFT_def bit_simps)
  moreover have "\<not> bit (proc_ctls1 ?p) 22" "bit (proc_ctls1 ?p) 21" "bit (proc_ctls1 ?p) 31"
    using e by (simp_all add: base_policy_bits(2) sanitized_bits VMCS_PROCBASED_CTLS1_DEFAULT1_def U32_LSHIFT_def bit_simps)
  moreover have "\<not> bit (exit_ctls1 ?p) 22" "bit (exit_ctls1 ?p) 9" "\<not> bit (entry_ctls ?p) 10" "\<not> bit (entry_ctls ?p) 11"
    using f by (simp_all add: base_policy_bits(5,7) sanitized_bits VMCS_EXIT_CTLS1_DEFAULT1_def VMCS_ENTRY_CTLS_DEFAULT1_def U32_LSHIFT_def bit_simps)
  ultimately show "control_dependencies ?p"
    by (simp add: control_dependencies_def secondary_control_def base_policy_bits(3,4) activate_secondary_controls_def virtualize_x2apic_mode_def
        apic_register_virtualization_def virtual_interrupt_delivery_def tpr_shadow_def virtualize_apic_accesses_def external_interrupt_exiting_def
        process_posted_interrupts_def unrestricted_guest_def enable_ept_def host_addr_space_size_def)
qed

text \<open>
  C32. The policy of every virtual processor, on a processor with consistent capability registers whose mandatory settings
  are those of the default1 class, that supports I/O bitmaps, and on which the capabilities were initialized: its
  control words are within the allowed settings and respect the dependencies between controls that are documented
  for VM entry. The validation however rejects it, because the recorded capabilities do not contain I/O bitmaps.
\<close>

theorem base_policy_accepted_not_validated:
  assumes "msrs_ok r" "default1_only r" "init_vmx_capabilities r c = (True, caps)" "bit (get_procbased_ctls1_msr r) (32 + io_bitmaps)"
  shows "settings_allowed r (configure_base_virt_policy r) \<and> control_dependencies (configure_base_virt_policy r)
    \<and> validate_vmx_virt_policy r caps (configure_base_virt_policy r) = VMX_POLICY_INVALID"
  using base_policy_facts[OF assms(1,3,4)] base_policy_dependencies[OF assms(2)] by blast

theorem base_policy_accepted_not_validated_witness:
  "\<exists>caps. init_vmx_capabilities plain_processor zero_policy = (True, caps)
    \<and> control_dependencies (configure_base_virt_policy plain_processor)
    \<and> validate_vmx_virt_policy plain_processor caps (configure_base_virt_policy plain_processor) = VMX_POLICY_INVALID"
proof -
  obtain caps where i: "init_vmx_capabilities plain_processor zero_policy = (True, caps)"
    using init_vmx_capabilities_cases[of plain_processor zero_policy] plain_processor_ok(2) by auto
  moreover have "bit (get_procbased_ctls1_msr plain_processor) (32 + io_bitmaps)" "default1_only plain_processor"
    by (simp_all add: default1_only_def plain_processor_msrs bit_all_allowed io_bitmaps_def)
  ultimately show ?thesis using base_policy_accepted_not_validated[OF plain_processor_ok(1) _ i] by blast
qed

end
