(* ===== verification/Frames.thy ===== *)
theory Frames
  imports Pf_Alloc
begin

text \<open>
  Page frames in the direct mapping: the virtual addresses of frames, the outcomes of an allocation seen as
  memory, and the part of memory that later allocations leave alone. The users of the page frame allocator
  share these lemmas.
\<close>

section \<open>Addresses\<close>

abbreviation OFF :: nat where
  "OFF \<equiv> 0xFFFF800000000000"

abbreviation frame_addr :: "nat \<Rightarrow> virt_addr" where
  "frame_addr f \<equiv> phys_to_virt (pfn_to_phys (of_nat f))"

lemma unat_frame_addr:
  assumes "f < 2 ^ 35"
  shows "unat (frame_addr f) = f * 4096 + OFF"
proof -
  have p: "unat (pfn_to_phys (of_nat f)) = f * 4096"
    using assms unfolding pfn_to_phys_def U64_LSHIFT_def PAGE_SHIFT_def
    by (subst unat_push_bit_small) (simp_all add: unat_of_nat_small)
  show ?thesis
    unfolding phys_to_virt_def phys_to_virt_off_def HYPERVISOR_DIRECT_MAPPING_OFFSET_def
    using assms p by (subst unat_add_small) simp_all
qed

definition page_index :: "virt_addr \<Rightarrow> nat" where
  "page_index p = unat (phys_to_pfn (virt_to_phys p))"

lemma page_index_unat:
  assumes "OFF \<le> unat a"
  shows "page_index a = (unat a - OFF) div 4096"
proof -
  have "unat (virt_to_phys a) = unat a - OFF"
    unfolding virt_to_phys_def virt_to_phys_off_def HYPERVISOR_DIRECT_MAPPING_OFFSET_def
    using assms by (subst unat_sub_small) (simp_all add: word_le_nat_alt)
  then show ?thesis by (simp add: page_index_def phys_to_pfn_def U64_RSHIFT_def PAGE_SHIFT_def unat_drop_bit)
qed

lemma unat_in_run:
  assumes "f + n < 2 ^ 35" "x \<le> n * 4096"
  shows "unat (frame_addr f + of_nat x) = f * 4096 + OFF + x"
proof -
  have "f * 4096 + OFF + x < 2 ^ 64" using assms by simp
  moreover have "x < 2 ^ 64" using assms by simp
  ultimately show ?thesis
    using assms(1) by (subst unat_add_small) (simp_all add: unat_frame_addr unat_of_nat_small)
qed

lemma page_index_frame_addr: "f < 2 ^ 35 \<Longrightarrow> page_index (frame_addr f) = f"
  by (subst page_index_unat) (simp_all add: unat_frame_addr)

lemma get_pages_cases:
  assumes "alloc_ok a"
  obtains (none) "get_pages a nr = Inr (None, a)"
  | (some) f a' where "get_pages a nr = Inr (Some (frame_addr f), a')" "area_free a (unat nr) f" "allocates a nr f a'" "alloc_ok a'" "nr \<noteq> 0"
  using get_pages_raw_cases[OF assms, of nr] unfolding get_pages_def by auto

lemma area_freeD: "area_free a n f \<Longrightarrow> f \<le> g \<Longrightarrow> g < f + n \<Longrightarrow> \<not> frame_used (bitmap a) g \<and> g < frame_count a"
  unfolding area_free_def by (metis le_add_diff_inverse nat_add_left_cancel_less order_less_le_trans)

section \<open>Memory that allocations keep\<close>

text \<open>\<open>x\<close> is no byte of a free frame.\<close>

definition reserved :: "pf_bitmap_allocator \<Rightarrow> u64 \<Rightarrow> bool" where
  "reserved a x \<longleftrightarrow> (\<forall>f < frame_count a. x \<in> range_of (frame_addr f) 4096 \<longrightarrow> frame_used (bitmap a) f)"

lemma run_pages:
  assumes "x \<in> range_of (frame_addr f) (n * 4096)"
  shows "\<exists>g. f \<le> g \<and> g < f + n \<and> x \<in> range_of (frame_addr g) 4096"
proof -
  obtain i where i: "i < n * 4096" "x = frame_addr f + of_nat i" using assms unfolding range_of_def by blast
  let ?g = "f + i div 4096"
  have "of_nat i = of_nat (i div 4096) * (4096 :: u64) + of_nat (i mod 4096)"
    by (metis div_mult_mod_eq of_nat_add of_nat_mult of_nat_numeral)
  then have "x = frame_addr ?g + of_nat (i mod 4096)"
    using i(2) by (simp add: phys_to_virt_def phys_to_virt_off_def pfn_to_phys_def U64_LSHIFT_def PAGE_SHIFT_def push_bit_eq_mult algebra_simps)
  moreover have "?g < f + n" using i(1) by (simp add: less_mult_imp_div_less)
  moreover have "i mod 4096 < 4096" by simp
  ultimately show ?thesis unfolding range_of_def by (intro exI[of _ ?g]) (auto simp: exI[of _ "i mod 4096"])
qed

lemma reserved_not_allocated: "reserved a x \<Longrightarrow> area_free a n f \<Longrightarrow> x \<notin> range_of (frame_addr f) (n * 4096)"
  using run_pages[of x f n] area_freeD[of a n f] unfolding reserved_def by blast

lemma reserved_mono: "allocates a nr f a' \<Longrightarrow> reserved a x \<Longrightarrow> reserved a' x"
  by (auto simp: reserved_def allocates_def frame_count_def)

text \<open>The bytes of an allocated area are reserved afterwards.\<close>

lemma allocated_reserved:
  assumes "allocates a nr f a'" "frame_count a < 2 ^ 35" "area_free a (unat nr) f" "x \<in> range_of (frame_addr f) (unat nr * 4096)"
  shows "reserved a' x"
proof -
  obtain g where g: "f \<le> g" "g < f + unat nr" "x \<in> range_of (frame_addr g) 4096" using run_pages[OF assms(4)] by blast
  have fc: "frame_count a' = frame_count a" using assms(1) by (simp add: allocates_def frame_count_def)
  have "h = g" if h: "h < frame_count a" "x \<in> range_of (frame_addr h) 4096" for h
  proof -
    have gh: "g < 2 ^ 35" "h < 2 ^ 35" using g(2) h(1) assms(2,3) by (auto simp: area_free_def)
    obtain i j where ij: "i < 4096" "x = frame_addr g + of_nat i" "j < 4096" "x = frame_addr h + of_nat j"
      using g(3) h(2) unfolding range_of_def by blast
    have e: "unat x = k * 4096 + OFF + i" if "k < 2 ^ 35" "i < 4096" "x = frame_addr k + of_nat i" for k i
    proof -
      have "k * 4096 + OFF + i < 2 ^ 64" using that by simp
      then show ?thesis unfolding that(3) using that(1,2) by (subst unat_add_small) (simp_all add: unat_frame_addr unat_of_nat_small)
    qed
    have "g * 4096 + i = h * 4096 + j" using e[OF gh(1) ij(1,2)] e[OF gh(2) ij(3,4)] by simp
    then have "(g * 4096 + i) div 4096 = (h * 4096 + j) div 4096" by simp
    then show ?thesis using ij(1,3) by simp
  qed
  then show ?thesis using assms(1,3) g fc unfolding reserved_def allocates_def area_free_def by auto
qed

lemma reserved_low: "unat x < OFF \<Longrightarrow> frame_count a < 2 ^ 35 \<Longrightarrow> reserved a x"
proof -
  assume a: "unat x < OFF" "frame_count a < 2 ^ 35"
  have "OFF \<le> unat (frame_addr f + of_nat i)" if "f < frame_count a" "i < 4096" for f i
  proof -
    have "f * 4096 + OFF + i < 2 ^ 64" using that a(2) by simp
    then show ?thesis using that a(2) by (subst unat_add_small) (simp_all add: unat_frame_addr unat_of_nat_small)
  qed
  then show ?thesis using a(1) unfolding reserved_def range_of_def by (auto simp: not_le[symmetric])
qed

text \<open>The zeroing variants of the allocation.\<close>

lemma get_pages_zeroed_cases:
  assumes "alloc_ok a" "frame_count a < 2 ^ 35"
  obtains (none) "get_pages_zeroed a nr m = Inr (None, a, m)"
  | (some) f a' where "get_pages_zeroed a nr m = Inr (Some (frame_addr f), a', memset m (frame_addr f) 0 (unat nr * 4096))"
      "area_free a (unat nr) f" "allocates a nr f a'" "alloc_ok a'" "nr \<noteq> 0"
  using assms(1)
proof (cases rule: get_pages_cases[of _ nr])
  case none
  then show thesis using that(1) by (simp add: get_pages_zeroed_def)
next
  case (some f a')
  have "unat nr * 4096 < 2 ^ 64" using some(2) assms(2) by (auto simp: area_free_def)
  then have "unat (push_bit PAGE_SHIFT nr) = unat nr * 4096" by (subst unat_push_bit_small) (simp_all add: PAGE_SHIFT_def)
  then show thesis using that(2)[of f a'] some by (simp add: get_pages_zeroed_def)
qed

lemma get_pages_zeroed_none:
  assumes "alloc_ok a" "get_pages_zeroed a nr m = Inr (None, r)"
  shows "nr = 0 \<or> nr > free_frames a \<or> \<not> (\<exists>f. area_free a (unat nr) f)"
  using get_pages_raw_cases[OF assms(1), of nr] assms(2) unfolding get_pages_zeroed_def get_pages_def by auto

lemma get_pages_zeroed_counted:
  assumes "alloc_ok a" "get_pages_zeroed a nr m = Inr (Some p, r)"
  shows "nr \<le> free_frames a"
  using get_pages_raw_cases[OF assms(1), of nr] assms(2) unfolding get_pages_zeroed_def get_pages_def by auto

lemma get_page_zeroed_pages: "get_page_zeroed a m = get_pages_zeroed a 1 m"
proof -
  have "unat (push_bit PAGE_SHIFT (1 :: u64)) = unat PAGE_SIZE" by (simp add: PAGE_SIZE_def PAGE_SHIFT_def)
  then show ?thesis by (simp only: get_page_zeroed_def get_pages_zeroed_def get_page_def get_pages_def get_page_raw_def)
qed

end
