(* ===== verification/Halloc.thy ===== *)
theory Halloc
  imports Frames
begin

text \<open>
  The heap allocator (\<^verbatim>\<open>halloc.c\<close>, \<^verbatim>\<open>halloc_internal.h\<close>): free lists of chunks of a power of two, threaded
  through the free chunks themselves, on pages of the page frame allocator, which also serves large requests.
  The state holds the bins, the array of page descriptors, the 8-byte words of memory by address, the page
  frame allocator and the lock. An acquire while the lock is held does not return (\<open>Spins\<close>).
\<close>

section \<open>Configuration\<close>

definition HALLOC_FLAGS_CLEAR :: u8 where
  "HALLOC_FLAGS_CLEAR = 0"

definition HALLOC_FLAGS_PAGE_GRANULARITY :: u8 where
  "HALLOC_FLAGS_PAGE_GRANULARITY = push_bit 4 1"

definition HALLOC_FLAGS_MANAGED :: u8 where
  "HALLOC_FLAGS_MANAGED = push_bit 5 1"

definition HALLOC_FLAGS_BIN_INDEX_MASK :: u8 where
  "HALLOC_FLAGS_BIN_INDEX_MASK = 7"

definition NR_OF_BINS :: nat where
  "NR_OF_BINS = 7"

definition INVALID_BIN_INDEX :: nat where
  "INVALID_BIN_INDEX = 10"

record bin_config =
  bin_index :: u8
  chunk_shift :: nat
  nr_of_init_pages :: nat
  repopulate_nr_pages :: nat

definition INIT_BIN_CONFIG :: "u8 \<Rightarrow> nat \<Rightarrow> nat \<Rightarrow> nat \<Rightarrow> bin_config" where
  "INIT_BIN_CONFIG idx shift init_pages repopulate_pages =
     \<lparr>bin_index = idx, chunk_shift = shift, nr_of_init_pages = init_pages, repopulate_nr_pages = repopulate_pages\<rparr>"

definition bin_configs :: "bin_config list" where
  "bin_configs =
     [INIT_BIN_CONFIG 0 5 1 1, INIT_BIN_CONFIG 1 6 1 1, INIT_BIN_CONFIG 2 7 1 1, INIT_BIN_CONFIG 3 8 1 1,
      INIT_BIN_CONFIG 4 9 1 2, INIT_BIN_CONFIG 5 10 4 4, INIT_BIN_CONFIG 6 11 8 8]"

definition HALLOC_DEFAULT_ALIGNMENT :: u8 where
  "HALLOC_DEFAULT_ALIGNMENT = 8"

definition MAX_SUPPORTED_ALLOCATION_SIZE :: u64 where
  "MAX_SUPPORTED_ALLOCATION_SIZE = push_bit (12 + 8) 1"

section \<open>State\<close>

record alloc_page =
  halloc_flags :: u8
  contig_allocated :: u8

record halloc_state =
  bins :: "u64 list"
  alloc_pages_array :: "alloc_page list"
  heap_words :: "u64 \<Rightarrow> u64"
  page_frames :: pf_bitmap_allocator
  halloc_lock :: bool

definition acquire_halloc :: "halloc_state \<Rightarrow> halloc_state run" where
  "acquire_halloc s = (if halloc_lock s then Inl Spins else Inr (s\<lparr>halloc_lock := True\<rparr>))"

definition release_halloc :: "halloc_state \<Rightarrow> halloc_state" where
  "release_halloc s = s\<lparr>halloc_lock := False\<rparr>"

text \<open>\<^verbatim>\<open>memset\<close> of whole words to 0.\<close>

definition clear_words :: "(u64 \<Rightarrow> u64) \<Rightarrow> u64 \<Rightarrow> nat \<Rightarrow> u64 \<Rightarrow> u64" where
  "clear_words m start n = (\<lambda>a. if unat start \<le> unat a \<and> unat a < unat start + n then 0 else m a)"

section \<open>Operations\<close>

definition get_alloc_page_bin_index :: "alloc_page \<Rightarrow> nat" where
  "get_alloc_page_bin_index page = unat (halloc_flags page AND HALLOC_FLAGS_BIN_INDEX_MASK)"

fun flags_loop :: "alloc_page list \<Rightarrow> virt_addr \<Rightarrow> nat \<Rightarrow> nat \<Rightarrow> u8 \<Rightarrow> alloc_page list run" where
  "flags_loop pages start i 0 flags = Inr pages"
| "flags_loop pages start i (Suc n) flags =
     (let pfn = page_index (start + of_nat i * PAGE_SIZE) in
      andThen (at pages pfn) (\<lambda>page.
      andThen (put pages pfn (page\<lparr>halloc_flags := flags\<rparr>)) (\<lambda>pages.
        flags_loop pages start (Suc i) n flags)))"

definition set_page_range_halloc_flags :: "alloc_page list \<Rightarrow> virt_addr \<Rightarrow> nat \<Rightarrow> u8 \<Rightarrow> alloc_page list run" where
  "set_page_range_halloc_flags pages start nr_pages flags = flags_loop pages start 0 nr_pages flags"

text \<open>
  The loop that links the chunks from the last to the first; one round per chunk and a last test are enough
  fuel.
\<close>

fun populate_loop :: "nat \<Rightarrow> (u64 \<Rightarrow> u64) \<Rightarrow> virt_addr \<Rightarrow> virt_addr \<Rightarrow> u64 \<Rightarrow> u64 \<Rightarrow> ((u64 \<Rightarrow> u64) \<times> u64) run" where
  "populate_loop 0 m chunk_pos pages_start chunk_size next_chunk = Inl Spins"
| "populate_loop (Suc fuel) m chunk_pos pages_start chunk_size next_chunk =
     (if pages_start \<le> chunk_pos then
        populate_loop fuel (m(chunk_pos := next_chunk)) (chunk_pos - chunk_size) pages_start chunk_size chunk_pos
      else Inr (m, next_chunk))"

text \<open>\<open>False\<close> is the result -1.\<close>

definition populate_bin :: "halloc_state \<Rightarrow> nat \<Rightarrow> nat \<Rightarrow> nat \<Rightarrow> (bool \<times> halloc_state) run" where
  "populate_bin s idx shift nr_pages =
     andThen (get_pages (page_frames s) (of_nat nr_pages)) (\<lambda>(r, a).
       let s = s\<lparr>page_frames := a\<rparr> in
       case r of
         None \<Rightarrow> Inr (False, s)
       | Some pages_start \<Rightarrow>
           andThen (set_page_range_halloc_flags (alloc_pages_array s) pages_start nr_pages
                      (HALLOC_FLAGS_MANAGED OR of_nat idx)) (\<lambda>pages.
           let chunk_size = push_bit shift 1;
               chunk_pos = pages_start + push_bit PAGE_SHIFT (of_nat nr_pages) - chunk_size
           in andThen (populate_loop (nr_pages * 2 ^ PAGE_SHIFT div 2 ^ shift + 1) (heap_words s) chunk_pos pages_start chunk_size 0) (\<lambda>(m, next_chunk).
              andThen (put (bins s) idx next_chunk) (\<lambda>bs.
                Inr (True, s\<lparr>alloc_pages_array := pages, heap_words := m, bins := bs\<rparr>)))))"

definition repopulate_bin :: "halloc_state \<Rightarrow> nat \<Rightarrow> bin_config \<Rightarrow> (bool \<times> halloc_state) run" where
  "repopulate_bin s idx config = populate_bin s idx (chunk_shift config) (repopulate_nr_pages config)"

fun init_bins_loop :: "halloc_state \<Rightarrow> bin_config list \<Rightarrow> (bool \<times> halloc_state) run" where
  "init_bins_loop s [] = Inr (True, s)"
| "init_bins_loop s (config # configs) =
     andThen (populate_bin s (unat (bin_index config)) (chunk_shift config) (nr_of_init_pages config)) (\<lambda>(ok, s).
       if ok then init_bins_loop s configs else Inr (False, s))"

text \<open>
  \<open>uninit\<close> is the contents of the pages that hold the array, which are not cleared. A page holds 2048
  descriptors of two bytes.
\<close>

definition init_halloc :: "halloc_state \<Rightarrow> system_memory_info \<Rightarrow> (nat \<Rightarrow> alloc_page) \<Rightarrow> (bool \<times> halloc_state) run" where
  "init_halloc s sys_mem_info uninit =
     (let s = s\<lparr>bins := replicate NR_OF_BINS 0, alloc_pages_array := []\<rparr>;
          needed_pages = ROUND_UP (nr_of_pfns sys_mem_info * 2) PAGE_SIZE
      in andThen (get_pages (page_frames s) needed_pages) (\<lambda>(r, a).
           let s = s\<lparr>page_frames := a\<rparr> in
           case r of
             None \<Rightarrow> Inr (False, s)
           | Some array \<Rightarrow>
               let s = s\<lparr>alloc_pages_array := map uninit [0 ..< unat needed_pages * 2048]\<rparr> in
               andThen (init_bins_loop s bin_configs) (\<lambda>(ok, s).
                 if ok then Inr (True, s)
                 else andThen (free_pages (page_frames s) needed_pages array) (\<lambda>a. Inr (False, s\<lparr>page_frames := a\<rparr>)))))"

definition size_to_bin_index :: "u64 \<Rightarrow> nat" where
  "size_to_bin_index sz =
     (if sz \<le> 32 then 0 else if sz \<le> 64 then 1 else if sz \<le> 128 then 2 else if sz \<le> 256 then 3
      else if sz \<le> 512 then 4 else if sz \<le> 1024 then 5 else if sz \<le> 2048 then 6 else INVALID_BIN_INDEX)"

definition pf_fallback_allocation :: "halloc_state \<Rightarrow> u64 \<Rightarrow> (virt_addr option \<times> halloc_state) run" where
  "pf_fallback_allocation s req =
     (let pages_needed = ROUND_UP req PAGE_SIZE in
      andThen (get_pages (page_frames s) pages_needed) (\<lambda>(r, a).
        let s = s\<lparr>page_frames := a\<rparr> in
        case r of
          None \<Rightarrow> Inr (None, s)
        | Some pages_start \<Rightarrow>
            andThen (acquire_halloc s) (\<lambda>s.
            let pfn = page_index pages_start in
            andThen (at (alloc_pages_array s) pfn) (\<lambda>page.
            andThen (put (alloc_pages_array s) pfn (page\<lparr>contig_allocated := ucast pages_needed,
                halloc_flags := HALLOC_FLAGS_PAGE_GRANULARITY OR HALLOC_FLAGS_MANAGED\<rparr>)) (\<lambda>pages.
              Inr (Some pages_start, release_halloc (s\<lparr>alloc_pages_array := pages\<rparr>)))))))"

definition hmalloc_align :: "halloc_state \<Rightarrow> u64 \<Rightarrow> u8 \<Rightarrow> (virt_addr option \<times> halloc_state) run" where
  "hmalloc_align s req alignment =
     (if req = 0 \<or> \<not> IS_POWER_OF_TWO alignment then Inr (None, s)
      else
        let actual_req = MAX_c req (ucast alignment);
            idx = size_to_bin_index actual_req
        in if idx = INVALID_BIN_INDEX then
             if actual_req > MAX_SUPPORTED_ALLOCATION_SIZE then Inr (None, s) else pf_fallback_allocation s actual_req
           else
             andThen (acquire_halloc s) (\<lambda>s.
             andThen (at bin_configs idx) (\<lambda>config.
             andThen (at (bins s) idx) (\<lambda>header.
             andThen (if header = 0 then repopulate_bin s idx config else Inr (True, s)) (\<lambda>(ok, s).
               if \<not> ok then Inr (None, s)
               else
                 andThen (at (bins s) idx) (\<lambda>header.
                 andThen (put (bins s) idx (heap_words s header)) (\<lambda>bs.
                   let s = s\<lparr>bins := bs, heap_words := clear_words (heap_words s) header (2 ^ chunk_shift config)\<rparr>
                   in Inr (Some header, release_halloc s))))))))"

definition hmalloc :: "halloc_state \<Rightarrow> u64 \<Rightarrow> (virt_addr option \<times> halloc_state) run" where
  "hmalloc s req = hmalloc_align s req HALLOC_DEFAULT_ALIGNMENT"

definition hfree :: "halloc_state \<Rightarrow> virt_addr \<Rightarrow> halloc_state run" where
  "hfree s ptr =
     andThen (acquire_halloc s) (\<lambda>s.
     andThen (at (alloc_pages_array s) (page_index ptr)) (\<lambda>page.
       if IS_CLEAR (halloc_flags page) HALLOC_FLAGS_MANAGED then Inr (release_halloc s)
       else if IS_SET (halloc_flags page) HALLOC_FLAGS_PAGE_GRANULARITY then
         let nr_pages = unat (contig_allocated page) in
         andThen (set_page_range_halloc_flags (alloc_pages_array s) ptr nr_pages HALLOC_FLAGS_CLEAR) (\<lambda>pages.
         andThen (free_pages (page_frames s) (of_nat nr_pages) ptr) (\<lambda>a.
           Inr (release_halloc (s\<lparr>alloc_pages_array := pages, page_frames := a\<rparr>))))
       else
         let idx = get_alloc_page_bin_index page in
         andThen (at (bins s) idx) (\<lambda>head.
         andThen (put (bins s) idx ptr) (\<lambda>bs.
           Inr (release_halloc (s\<lparr>heap_words := (heap_words s)(ptr := head), bins := bs\<rparr>))))))"

end
