(* ===== verification/Halloc_Heap.thy ===== *)
theory Halloc_Heap
  imports Halloc
begin

text \<open>
  The invariant of the heap allocator and what its users rely on. The state is related to free lists \<open>F\<close>, live
  chunks \<open>U\<close> and pages \<open>B\<close> of each bin, and live runs of pages \<open>G\<close>.
\<close>

section \<open>Blocks\<close>

text \<open>A block and the page it starts in.\<close>

definition block :: "u64 \<Rightarrow> nat \<Rightarrow> nat set" where
  "block a n = {unat a ..< unat a + n}"

lemma block_in_page:
  assumes "unat a mod 2 ^ k = 0" "k \<le> 12" "x \<in> block a (2 ^ k)"
  shows "x div 4096 = unat a div 4096"
proof -
  have m: "(4096 :: nat) = 2 ^ k * 2 ^ (12 - k)" using assms(2) by (simp flip: power_add)
  obtain q where q: "unat a = q * 2 ^ k" using assms(1) that[of "unat a div 2 ^ k"] by (simp add: mod_0_imp_dvd)
  obtain r where r: "r < 2 ^ k" "x = q * 2 ^ k + r"
    using assms(3) q that[of "x - unat a"] by (auto simp: block_def)
  then have "x div 2 ^ k = q" "unat a div 2 ^ k = q" using q by simp_all
  then show ?thesis by (simp add: m div_mult2_eq)
qed

lemma aligned_blocks_disjoint:
  assumes "unat a mod n = 0" "unat b mod n = 0" "a \<noteq> b"
  shows "block a n \<inter> block b n = {}"
proof (rule ccontr)
  assume "block a n \<inter> block b n \<noteq> {}"
  then obtain x where "x \<in> block a n" "x \<in> block b n" by blast
  then have x: "unat a \<le> x" "x < unat a + n" "unat b \<le> x" "x < unat b + n" by (simp_all add: block_def)
  obtain p q where pq: "unat a = n * p" "unat b = n * q" using assms(1,2) by (meson dvdE mod_0_imp_dvd)
  have "x div n = r" if "n * r \<le> x" "x < n * r + n" for r using that by (simp add: div_nat_eqI)
  then have "p = q" using x pq by metis
  then show False using pq assms(3) by (simp add: word_unat_eq_iff)
qed

section \<open>Free lists\<close>

fun chain :: "(u64 \<Rightarrow> u64) \<Rightarrow> u64 \<Rightarrow> u64 list \<Rightarrow> bool" where
  "chain m p [] \<longleftrightarrow> p = 0"
| "chain m p (x # xs) \<longleftrightarrow> p = x \<and> x \<noteq> 0 \<and> chain m (m x) xs"

lemma chain_cong: "(\<And>a. a \<in> set xs \<Longrightarrow> m a = m' a) \<Longrightarrow> chain m p xs = chain m' p xs"
  by (induction xs arbitrary: p) auto

lemma chain_null: "chain m p xs \<Longrightarrow> p = 0 \<longleftrightarrow> xs = []"
  by (cases xs) auto

lemma chain_fresh: "a \<notin> set xs \<Longrightarrow> chain (m(a := v)) p xs = chain m p xs"
  by (intro chain_cong) auto

text \<open>The loop of \<^verbatim>\<open>populate_bin\<close> puts \<open>n\<close> consecutive chunks in front of a list.\<close>

lemma populate_loop_links:
  assumes "unat base + n * unat sz < 2 ^ 64" "0 < unat sz" "unat sz \<le> unat base"
    "chain m p xs" "\<And>k. k < n \<Longrightarrow> base + of_nat k * sz \<notin> set xs"
  shows "\<exists>m' p'. populate_loop (n + 1) m (base + of_nat n * sz - sz) base sz p = Inr (m', p')
    \<and> chain m' p' (map (\<lambda>k. base + of_nat k * sz) [0 ..< n] @ xs)
    \<and> (\<forall>a. a \<notin> (\<lambda>k. base + of_nat k * sz) ` {..< n} \<longrightarrow> m' a = m a)"
  using assms
proof (induction n arbitrary: m p xs)
  case 0
  have "unat (base - sz) = unat base - unat sz" using 0(3) by (simp add: unat_sub_small word_le_nat_alt)
  then have "\<not> base \<le> base - sz" using 0(2,3) by (simp add: word_le_nat_alt)
  then show ?case using 0(4) by simp
next
  case (Suc n)
  let ?c = "base + of_nat n * sz"
  have u: "unat (base + of_nat k * sz) = unat base + k * unat sz" if "k \<le> n" for k
  proof -
    have "k * unat sz \<le> Suc n * unat sz" using that by (intro mult_le_mono1) simp
    then have "unat base + k * unat sz < 2 ^ 64" using Suc.prems(1) by linarith
    moreover from this have "k * unat sz < 2 ^ 64" by simp
    moreover have "k < 2 ^ 64"
      using \<open>k * unat sz < 2 ^ 64\<close> Suc.prems(2) by (metis le_less_trans mult.commute mult_le_mono1 mult_1 Suc_leI One_nat_def)
    ultimately show ?thesis by (simp add: unat_word_ariths unat_of_nat_small)
  qed
  have pos: "base + of_nat (Suc n) * sz - sz = ?c" by (simp add: algebra_simps)
  have ge: "base \<le> ?c" using u[of n] by (simp add: word_le_nat_alt)
  have fresh: "?c \<notin> set xs" using Suc.prems(5)[of n] by simp
  have ne: "base + of_nat k * sz \<noteq> ?c" if "k < n" for k
    using u[of k] u[of n] that Suc.prems(2) by (metis add_left_cancel less_imp_le mult_cancel2 nat_neq_iff order_refl)
  have "?c \<noteq> 0" using u[of n] Suc.prems(2,3) by (metis add_is_0 le_zero_eq neq0_conv order_refl unat_0)
  then have c: "chain (m(?c := p)) ?c (?c # xs)" using Suc.prems(4) fresh by (simp add: chain_fresh)
  obtain m' p' where ih: "populate_loop (n + 1) (m(?c := p)) (base + of_nat n * sz - sz) base sz ?c = Inr (m', p')"
    "chain m' p' (map (\<lambda>k. base + of_nat k * sz) [0 ..< n] @ ?c # xs)"
    "\<forall>a. a \<notin> (\<lambda>k. base + of_nat k * sz) ` {..< n} \<longrightarrow> m' a = (m(?c := p)) a"
  proof -
    have b: "unat base + n * unat sz < 2 ^ 64" using Suc.prems(1) by simp
    have d: "base + of_nat k * sz \<notin> set (?c # xs)" if "k < n" for k using that ne[of k] Suc.prems(5)[of k] by simp
    show thesis using Suc.IH[OF b Suc.prems(2,3) c d] that by blast
  qed
  have "populate_loop (Suc n + 1) m (base + of_nat (Suc n) * sz - sz) base sz p = Inr (m', p')"
    using ih(1) ge unfolding pos by simp
  moreover have "m' a = m a" if "a \<notin> (\<lambda>k. base + of_nat k * sz) ` {..< Suc n}" for a
    using that ih(3) by (auto simp: lessThan_Suc)
  ultimately show ?case using ih(2) by auto
qed

section \<open>The invariant\<close>

text \<open>
  \<open>B\<close> gives the bin of a page, \<open>chunk_at B i a\<close> says that \<open>a\<close> is the address of a chunk of bin \<open>i\<close>, which has
  \<open>2 ^ (5 + i)\<close> bytes.
\<close>

definition chunk_at :: "(nat \<rightharpoonup> nat) \<Rightarrow> nat \<Rightarrow> u64 \<Rightarrow> bool" where
  "chunk_at B i a \<longleftrightarrow> OFF \<le> unat a \<and> unat a mod 2 ^ (5 + i) = 0 \<and> B (page_index a) = Some i"

definition bin_page :: "halloc_state \<Rightarrow> nat \<Rightarrow> nat \<Rightarrow> bool" where
  "bin_page s f i \<longleftrightarrow> i < 7 \<and> f < length (alloc_pages_array s) \<and> f < frame_count (page_frames s)
     \<and> frame_used (bitmap (page_frames s)) f \<and> halloc_flags (alloc_pages_array s ! f) = HALLOC_FLAGS_MANAGED OR of_nat i"

definition page_run :: "halloc_state \<Rightarrow> nat \<Rightarrow> nat \<Rightarrow> bool" where
  "page_run s f k \<longleftrightarrow> 0 < k \<and> k < 256 \<and> f + k \<le> length (alloc_pages_array s) \<and> f + k \<le> frame_count (page_frames s)
     \<and> halloc_flags (alloc_pages_array s ! f) = HALLOC_FLAGS_PAGE_GRANULARITY OR HALLOC_FLAGS_MANAGED
     \<and> contig_allocated (alloc_pages_array s ! f) = of_nat k
     \<and> (\<forall>j < k. frame_used (bitmap (page_frames s)) (f + j))"

definition frames_ok :: "halloc_state \<Rightarrow> bool" where
  "frames_ok s \<longleftrightarrow> alloc_ok (page_frames s) \<and> frame_count (page_frames s) < 2 ^ 35
     \<and> (\<forall>f < frame_count (page_frames s). length (alloc_pages_array s) \<le> f \<longrightarrow> frame_used (bitmap (page_frames s)) f)"

definition bin_ok :: "halloc_state \<Rightarrow> u64 list \<Rightarrow> u64 set \<Rightarrow> (nat \<rightharpoonup> nat) \<Rightarrow> nat \<Rightarrow> bool" where
  "bin_ok s xs L B i \<longleftrightarrow> chain (heap_words s) (bins s ! i) xs \<and> distinct xs \<and> set xs \<inter> L = {}
     \<and> (\<forall>a \<in> set xs \<union> L. chunk_at B i a)"

definition heap_inv ::
  "halloc_state \<Rightarrow> (nat \<Rightarrow> u64 list) \<Rightarrow> (nat \<Rightarrow> u64 set) \<Rightarrow> (nat \<rightharpoonup> nat) \<Rightarrow> (nat \<rightharpoonup> nat) \<Rightarrow> bool" where
  "heap_inv s F U B G \<longleftrightarrow> frames_ok s \<and> length (bins s) = 7
     \<and> (\<forall>i < 7. bin_ok s (F i) (U i) B i)
     \<and> (\<forall>f i. B f = Some i \<longrightarrow> bin_page s f i)
     \<and> (\<forall>f k. G f = Some k \<longrightarrow> page_run s f k \<and> (\<forall>j < k. B (f + j) = None))
     \<and> (\<forall>f k f' k'. G f = Some k \<longrightarrow> G f' = Some k' \<longrightarrow> f \<noteq> f' \<longrightarrow> {f ..< f + k} \<inter> {f' ..< f' + k'} = {})"

lemma frame_div:
  assumes "OFF \<le> x"
  shows "(x - OFF) div 4096 = x div 4096 - 0xFFFF800000000"
proof -
  obtain y where "x = y + 0xFFFF800000000 * 4096" using assms that[of "x - OFF"] by simp
  then show ?thesis by (simp only: div_mult_self1)
qed

lemma chunk_page:
  assumes "chunk_at B i a" "i < 7" "x \<in> block a (2 ^ (5 + i))"
  shows "(x - OFF) div 4096 = page_index a" "OFF \<le> x"
proof -
  have a: "OFF \<le> unat a" "x div 4096 = unat a div 4096"
    using assms block_in_page[of a "5 + i" x] by (simp_all add: chunk_at_def)
  show x: "OFF \<le> x" using a(1) assms(3) by (simp add: block_def)
  show "(x - OFF) div 4096 = page_index a" using a by (simp add: page_index_unat frame_div[OF x] frame_div)
qed

lemma chunks_disjoint:
  assumes "chunk_at B i a" "chunk_at B j b" "i < 7" "j < 7" "a \<noteq> b"
  shows "block a (2 ^ (5 + i)) \<inter> block b (2 ^ (5 + j)) = {}"
proof (cases "page_index a = page_index b")
  case True
  then have "i = j" using assms(1,2) by (simp add: chunk_at_def)
  then show ?thesis using assms(1,2,5) aligned_blocks_disjoint[of a "2 ^ (5 + i)" b] by (simp add: chunk_at_def)
next
  case False
  then show ?thesis using chunk_page(1)[OF assms(1,3)] chunk_page(1)[OF assms(2,4)] by (metis disjoint_iff)
qed

section \<open>Pages\<close>

lemma flags_loop_writes:
  assumes "f + i + n \<le> length pages" "f + i + n < 2 ^ 35"
  shows "\<exists>pages'. flags_loop pages (frame_addr f) i n flags = Inr pages' \<and> length pages' = length pages
    \<and> (\<forall>j. pages' ! j = (if f + i \<le> j \<and> j < f + i + n then (pages ! j)\<lparr>halloc_flags := flags\<rparr> else pages ! j))"
  using assms
proof (induction n arbitrary: i pages)
  case (Suc n)
  have "frame_addr f + of_nat i * PAGE_SIZE = frame_addr f + of_nat (i * 4096)" by (simp add: PAGE_SIZE_def)
  moreover have "unat (frame_addr f + of_nat (i * 4096)) = (f + i) * 4096 + OFF"
    using unat_in_run[of f i "i * 4096"] Suc.prems(2) by simp
  ultimately have pi: "page_index (frame_addr f + of_nat i * PAGE_SIZE) = f + i" by (simp add: page_index_unat)
  let ?p = "pages[f + i := (pages ! (f + i))\<lparr>halloc_flags := flags\<rparr>]"
  obtain pages' where ih: "flags_loop ?p (frame_addr f) (Suc i) n flags = Inr pages'" "length pages' = length pages"
    "\<forall>j. pages' ! j = (if f + Suc i \<le> j \<and> j < f + Suc i + n then (?p ! j)\<lparr>halloc_flags := flags\<rparr> else ?p ! j)"
    using Suc.IH[of "Suc i" ?p] Suc.prems by auto
  have lt: "f + i < length pages" using Suc.prems(1) by simp
  have "flags_loop pages (frame_addr f) i (Suc n) flags = Inr pages'" using ih(1) lt by (simp add: pi Let_def)
  moreover have "pages' ! j = (if f + i \<le> j \<and> j < f + i + Suc n then (pages ! j)\<lparr>halloc_flags := flags\<rparr> else pages ! j)" for j
    using ih(3) lt by (auto simp: nth_list_update)
  ultimately show ?case using ih(2) by blast
qed auto

lemma set_flags_writes:
  assumes "f + n \<le> length pages" "f + n < 2 ^ 35"
  obtains pages' where "set_page_range_halloc_flags pages (frame_addr f) n flags = Inr pages'" "length pages' = length pages"
    "\<And>j. pages' ! j = (if f \<le> j \<and> j < f + n then (pages ! j)\<lparr>halloc_flags := flags\<rparr> else pages ! j)"
  using flags_loop_writes[of f 0 n pages flags] assms that unfolding set_page_range_halloc_flags_def by auto

text \<open>The chunks that \<open>n\<close> pages from frame \<open>f\<close> on are divided into.\<close>

definition chunks :: "nat \<Rightarrow> nat \<Rightarrow> nat \<Rightarrow> u64 list" where
  "chunks f n i = map (\<lambda>k. frame_addr f + of_nat k * push_bit (5 + i) 1) [0 ..< n * 4096 div 2 ^ (5 + i)]"

lemma chunk_size_dvd: "i < 7 \<Longrightarrow> 2 ^ (5 + i) dvd (4096 :: nat)"
  using le_imp_power_dvd[of "5 + i" 12 "2 :: nat"] by simp

lemma chunk_count: "i < 7 \<Longrightarrow> n * 4096 div 2 ^ (5 + i) * 2 ^ (5 + i) = n * (4096 :: nat)"
  by (intro dvd_div_mult_self dvd_mult chunk_size_dvd)

lemma chunk_addr:
  assumes "i < 7" "f + n < 2 ^ 35" "k < n * 4096 div 2 ^ (5 + i)"
  shows "unat (frame_addr f + of_nat k * push_bit (5 + i) 1) = f * 4096 + OFF + k * 2 ^ (5 + i)"
    "k * 2 ^ (5 + i) < n * 4096"
proof -
  have "k * 2 ^ (5 + i) < n * 4096 div 2 ^ (5 + i) * 2 ^ (5 + i)" using assms(3) by simp
  then show lt: "k * 2 ^ (5 + i) < n * 4096" using chunk_count[OF assms(1)] by simp
  have "of_nat k * push_bit (5 + i) (1 :: u64) = of_nat (k * 2 ^ (5 + i))" by (simp add: push_bit_eq_mult)
  then show "unat (frame_addr f + of_nat k * push_bit (5 + i) 1) = f * 4096 + OFF + k * 2 ^ (5 + i)"
    using unat_in_run[of f n "k * 2 ^ (5 + i)"] lt assms(2) by simp
qed

lemma chunks_at:
  assumes "i < 7" "f + n < 2 ^ 35" "a \<in> set (chunks f n i)"
  shows "OFF \<le> unat a" "unat a mod 2 ^ (5 + i) = 0" "f \<le> page_index a" "page_index a < f + n"
proof -
  obtain k where k: "k < n * 4096 div 2 ^ (5 + i)" "a = frame_addr f + of_nat k * push_bit (5 + i) 1"
    using assms(3) by (auto simp: chunks_def)
  note u = chunk_addr[OF assms(1,2) k(1), folded k(2)]
  show off: "OFF \<le> unat a" using u(1) by simp
  have "(f * 4096 + OFF) mod 2 ^ (5 + i) = 0"
  proof -
    have "f * 4096 + OFF = 4096 * (f + 0xFFFF800000000)" by simp
    then show ?thesis using chunk_size_dvd[OF assms(1)] by (metis dvd_imp_mod_0 dvd_mult2)
  qed
  then show "unat a mod 2 ^ (5 + i) = 0" using u(1) by simp
  have "unat a - OFF = f * 4096 + k * 2 ^ (5 + i)" using u(1) by simp
  then show "f \<le> page_index a" "page_index a < f + n"
    using u(2) off by (simp_all add: page_index_unat less_mult_imp_div_less algebra_simps)
qed

lemma chunks_distinct:
  assumes "i < 7" "f + n < 2 ^ 35"
  shows "distinct (chunks f n i)"
proof -
  have "inj_on (\<lambda>k. frame_addr f + of_nat k * push_bit (5 + i) 1) {0 ..< n * 4096 div 2 ^ (5 + i)}"
  proof (rule inj_onI)
    fix k l assume kl: "k \<in> {0 ..< n * 4096 div 2 ^ (5 + i)}" "l \<in> {0 ..< n * 4096 div 2 ^ (5 + i)}"
      "frame_addr f + of_nat k * push_bit (5 + i) 1 = frame_addr f + of_nat l * push_bit (5 + i) 1"
    then have "k * 2 ^ (5 + i) = l * 2 ^ (5 + i)"
      using chunk_addr(1)[OF assms, of k] chunk_addr(1)[OF assms, of l] by simp
    then show "k = l" by simp
  qed
  then show ?thesis by (simp add: chunks_def distinct_map)
qed

text \<open>A state that has taken the frames from \<open>f\<close> on, and nothing else of the pages of the heap changed.\<close>

definition takes :: "halloc_state \<Rightarrow> nat \<Rightarrow> nat \<Rightarrow> halloc_state \<Rightarrow> bool" where
  "takes s f n s' \<longleftrightarrow> area_free (page_frames s) n f \<and> alloc_ok (page_frames s')
     \<and> frame_count (page_frames s') = frame_count (page_frames s)
     \<and> (\<forall>j < frame_count (page_frames s). frame_used (bitmap (page_frames s')) j =
          (f \<le> j \<and> j < f + n \<or> frame_used (bitmap (page_frames s)) j))
     \<and> length (alloc_pages_array s') = length (alloc_pages_array s)
     \<and> (\<forall>j. \<not> (f \<le> j \<and> j < f + n) \<longrightarrow> alloc_pages_array s' ! j = alloc_pages_array s ! j)"

lemma takes_in_array: "frames_ok s \<Longrightarrow> takes s f n s' \<Longrightarrow> f \<le> g \<Longrightarrow> g < f + n \<Longrightarrow> g < length (alloc_pages_array s)"
  unfolding frames_ok_def takes_def using area_freeD by (meson not_le)

lemma takes_frames_ok: "frames_ok s \<Longrightarrow> takes s f n s' \<Longrightarrow> frames_ok s'"
  by (auto simp: frames_ok_def takes_def)

lemma takes_bin_page: "takes s f n s' \<Longrightarrow> bin_page s g i \<Longrightarrow> bin_page s' g i \<and> \<not> (f \<le> g \<and> g < f + n)"
  unfolding takes_def bin_page_def using area_freeD by metis

lemma takes_page_run:
  assumes "takes s f n s'" "page_run s g k"
  shows "page_run s' g k" "j < k \<Longrightarrow> \<not> (f \<le> g + j \<and> g + j < f + n)"
proof -
  have u: "frame_used (bitmap (page_frames s)) (g + j)" "g + j < frame_count (page_frames s)" if "j < k" for j
    using assms(2) that by (auto simp: page_run_def)
  then show no: "j < k \<Longrightarrow> \<not> (f \<le> g + j \<and> g + j < f + n)" for j using assms(1) area_freeD unfolding takes_def by metis
  have "0 < k" using assms(2) by (simp add: page_run_def)
  then have "alloc_pages_array s' ! g = alloc_pages_array s ! g" using no[of 0] assms(1) by (simp add: takes_def)
  then show "page_run s' g k" using assms u unfolding page_run_def takes_def by auto
qed

lemma heap_invD:
  assumes "heap_inv s F U B G"
  shows "frames_ok s" "length (bins s) = 7" "\<And>i. i < 7 \<Longrightarrow> bin_ok s (F i) (U i) B i" "\<And>f i. B f = Some i \<Longrightarrow> bin_page s f i"
    "\<And>f k. G f = Some k \<Longrightarrow> page_run s f k" "\<And>f k j. G f = Some k \<Longrightarrow> j < k \<Longrightarrow> B (f + j) = None"
    "\<And>f k f' k'. G f = Some k \<Longrightarrow> G f' = Some k' \<Longrightarrow> f \<noteq> f' \<Longrightarrow> {f ..< f + k} \<inter> {f' ..< f' + k'} = {}"
  using assms unfolding heap_inv_def by (simp_all only: simp_thms)

lemma bin_okD:
  assumes "bin_ok s xs L B i"
  shows "chain (heap_words s) (bins s ! i) xs" "distinct xs" "set xs \<inter> L = {}" "\<And>a. a \<in> set xs \<Longrightarrow> chunk_at B i a"
    "\<And>a. a \<in> L \<Longrightarrow> chunk_at B i a"
  using assms unfolding bin_ok_def by blast+

text \<open>Pages are added to a bin.\<close>

lemma heap_inv_new_pages:
  assumes inv: "heap_inv s F U B G" and t: "takes s f n s'" and i: "i < 7" "F i = []"
    and flags: "\<And>j. f \<le> j \<Longrightarrow> j < f + n \<Longrightarrow> halloc_flags (alloc_pages_array s' ! j) = HALLOC_FLAGS_MANAGED OR of_nat i"
    and words: "\<And>a. a \<notin> set (chunks f n i) \<Longrightarrow> heap_words s' a = heap_words s a"
    and bins: "bins s' = (bins s)[i := p]" "chain (heap_words s') p (chunks f n i)"
  shows "heap_inv s' (F(i := chunks f n i)) U (\<lambda>g. if f \<le> g \<and> g < f + n then Some i else B g) G"
proof -
  let ?B = "\<lambda>g. if f \<le> g \<and> g < f + n then Some i else B g"
  note d = heap_invD[OF inv]
  have fr: "f + n < 2 ^ 35" using t d(1) by (simp add: takes_def area_free_def frames_ok_def)
  note new = chunks_at[OF i(1) fr]
  have old: "chunk_at ?B j a" "\<not> (f \<le> page_index a \<and> page_index a < f + n)" if "chunk_at B j a" for j a
    using that d(4) takes_bin_page[OF t, of "page_index a"] by (auto simp: chunk_at_def)
  have in_bin: "chunk_at B j a" if "j < 7" "a \<in> set (F j) \<union> U j" for j a
    using bin_okD(4,5)[OF d(3)[OF that(1)]] that(2) by blast
  have "bin_ok s' ((F(i := chunks f n i)) j) (U j) ?B j" if j: "j < 7" for j
  proof (cases "j = i")
    case True
    have "a \<notin> U i" if "a \<in> set (chunks f n i)" for a using new[OF that] in_bin[of i a] old(2)[of i a] i(1) by auto
    moreover have "chunk_at ?B i a" if "a \<in> set (chunks f n i)" for a using new[OF that] by (simp add: chunk_at_def)
    moreover have "chunk_at ?B i a" if "a \<in> U i" for a using old(1) in_bin[of i a] that i(1) by blast
    ultimately show ?thesis
      using True bins d(2) i(1) chunks_distinct[OF i(1) fr] unfolding bin_ok_def by auto
  next
    case False
    have "heap_words s' a = heap_words s a" if "a \<in> set (F j)" for a
      using words new[of a] old(2)[of j a] in_bin[OF j, of a] that by blast
    then show ?thesis
      using False bins(1) d(3)[OF j] old(1) chain_cong[of "F j" "heap_words s'" "heap_words s"] unfolding bin_ok_def by auto
  qed
  moreover have "bin_page s' g k" if "?B g = Some k" for g k
  proof (cases "f \<le> g \<and> g < f + n")
    case True
    have "g < frame_count (page_frames s)" using t True area_freeD[of "page_frames s" n f g] by (simp add: takes_def)
    then show ?thesis
      using that True flags[of g] takes_in_array[OF d(1) t, of g] t i(1) by (simp add: bin_page_def takes_def)
  next
    case False
    then have "B g = Some k" using that by (auto split: if_splits)
    then show ?thesis using d(4) takes_bin_page[OF t] by blast
  qed
  moreover have "page_run s' g k" "\<forall>j < k. ?B (g + j) = None" if "G g = Some k" for g k
    using takes_page_run[OF t d(5)[OF that]] d(6)[OF that] by auto
  ultimately show ?thesis
    using takes_frames_ok[OF d(1) t] d(2,7) bins(1) unfolding heap_inv_def by simp
qed

lemma populate_bin_cases:
  assumes inv: "heap_inv s F U B G" and i: "i < 7" "F i = []" and n: "n < 256"
  obtains (full) "populate_bin s i (5 + i) n = Inr (False, s)" "get_pages (page_frames s) (of_nat n) = Inr (None, page_frames s)"
  | (new) f s' where "populate_bin s i (5 + i) n = Inr (True, s')" "takes s f n s'" "0 < n" "halloc_lock s' = halloc_lock s"
      "heap_inv s' (F(i := chunks f n i)) U (\<lambda>g. if f \<le> g \<and> g < f + n then Some i else B g) G"
proof -
  note d = heap_invD[OF inv]
  have a: "alloc_ok (page_frames s)" using d(1) by (simp add: frames_ok_def)
  have un: "unat (of_nat n :: u64) = n" using n by (simp add: unat_of_nat_small)
  from a show thesis
  proof (cases rule: get_pages_cases[of _ "of_nat n"])
    case none
    then show thesis using full by (simp add: populate_bin_def Let_def)
  next
    case (some f a')
    have fr: "f + n < 2 ^ 35" using some(2) d(1) by (simp add: area_free_def frames_ok_def un)
    have len: "f + n \<le> length (alloc_pages_array s)"
    proof (cases n)
      case (Suc k)
      have "f + k < frame_count (page_frames s)" "\<not> frame_used (bitmap (page_frames s)) (f + k)"
        using area_freeD[OF some(2), of "f + k"] Suc un by simp_all
      then show ?thesis using d(1) Suc by (auto simp: frames_ok_def not_le)
    qed (use some(5) in simp)
    obtain pages' where pg: "set_page_range_halloc_flags (alloc_pages_array s) (frame_addr f) n (HALLOC_FLAGS_MANAGED OR of_nat i) = Inr pages'"
      "length pages' = length (alloc_pages_array s)"
      "\<And>j. pages' ! j = (if f \<le> j \<and> j < f + n then (alloc_pages_array s ! j)\<lparr>halloc_flags := HALLOC_FLAGS_MANAGED OR of_nat i\<rparr> else alloc_pages_array s ! j)"
      using set_flags_writes[OF len fr] by metis
    let ?sz = "push_bit (5 + i) 1 :: u64" and ?c = "n * 4096 div 2 ^ (5 + i)"
    have sz: "unat ?sz = 2 ^ (5 + i)" using i(1) power_strict_increasing[of "5 + i" 64 "2 :: nat"] by (subst unat_push_bit_small) simp_all
    have base: "unat (frame_addr f) = f * 4096 + OFF" using fr by (simp add: unat_frame_addr)
    have end_pos: "frame_addr f + push_bit PAGE_SHIFT (of_nat n) - ?sz = frame_addr f + of_nat ?c * ?sz - ?sz"
    proof -
      have "of_nat ?c * ?sz = of_nat (?c * 2 ^ (5 + i))" by (simp add: push_bit_eq_mult)
      then show ?thesis unfolding chunk_count[OF i(1)] by (simp add: push_bit_eq_mult PAGE_SHIFT_def)
    qed
    have "unat (frame_addr f) + ?c * unat ?sz < 2 ^ 64" unfolding sz base chunk_count[OF i(1)] using fr by simp
    moreover have "(2 :: nat) ^ (5 + i) \<le> 4096" using chunk_size_dvd[OF i(1)] by (rule dvd_imp_le) simp
    ultimately obtain m' p where pl: "populate_loop (?c + 1) (heap_words s) (frame_addr f + of_nat ?c * ?sz - ?sz) (frame_addr f) ?sz 0 = Inr (m', p)"
      "chain m' p (chunks f n i)" "\<And>a. a \<notin> set (chunks f n i) \<Longrightarrow> m' a = heap_words s a"
      using populate_loop_links[of "frame_addr f" ?c ?sz "heap_words s" 0 "[]"] sz base by (auto simp: chunks_def atLeast0LessThan)
    define s' where "s' = s\<lparr>page_frames := a', alloc_pages_array := pages', heap_words := m', bins := (bins s)[i := p]\<rparr>"
    have run: "populate_bin s i (5 + i) n = Inr (True, s')"
    proof -
      have "populate_loop (n * 2 ^ PAGE_SHIFT div 2 ^ (5 + i) + 1) (heap_words s)
          (frame_addr f + push_bit PAGE_SHIFT (of_nat n) - ?sz) (frame_addr f) ?sz 0 = Inr (m', p)"
        using pl(1) unfolding end_pos by (simp add: PAGE_SHIFT_def del: populate_loop.simps)
      moreover have "put (bins s) i p = Inr ((bins s)[i := p])" using d(2) i(1) by simp
      moreover have "alloc_pages_array (s\<lparr>page_frames := a'\<rparr>) = alloc_pages_array s"
        "heap_words (s\<lparr>page_frames := a'\<rparr>) = heap_words s" "bins (s\<lparr>page_frames := a'\<rparr>) = bins s" by simp_all
      ultimately show ?thesis
        by (simp only: populate_bin_def Let_def some(1) pg(1) andThen_Inr prod.case option.case s'_def)
    qed
    have t: "takes s f n s'"
      using some(2-4) pg(2,3) by (simp add: takes_def s'_def allocates_def frame_count_def un)
    have "heap_inv s' (F(i := chunks f n i)) U (\<lambda>g. if f \<le> g \<and> g < f + n then Some i else B g) G"
      using inv t i pg(3) pl(2,3) by (intro heap_inv_new_pages[where p = p]) (simp_all add: s'_def)
    moreover have "0 < n" using some(5) by (cases n) auto
    ultimately show thesis using new[OF run t] by (simp add: s'_def)
  qed
qed

section \<open>Allocation and release\<close>

text \<open>The live blocks of the heap, as sets of byte addresses.\<close>

definition live :: "(nat \<Rightarrow> u64 set) \<Rightarrow> (nat \<rightharpoonup> nat) \<Rightarrow> nat set set" where
  "live U G = {block a (2 ^ (5 + i)) | i a. i < 7 \<and> a \<in> U i} \<union> {block (frame_addr f) (k * 4096) | f k. G f = Some k}"

lemma bin_config_at:
  assumes "i < 7"
  shows "i < length bin_configs" "chunk_shift (bin_configs ! i) = 5 + i" "0 < repopulate_nr_pages (bin_configs ! i)"
    "repopulate_nr_pages (bin_configs ! i) < 256"
proof -
  have "i \<in> {0, 1, 2, 3, 4, 5, 6}" using assms by auto
  then show "i < length bin_configs" "chunk_shift (bin_configs ! i) = 5 + i" "0 < repopulate_nr_pages (bin_configs ! i)"
    "repopulate_nr_pages (bin_configs ! i) < 256"
    by (auto simp: bin_configs_def INIT_BIN_CONFIG_def)
qed

lemma size_to_bin_index_cases:
  obtains (bin) "size_to_bin_index sz < 7" "sz \<le> 2 ^ (5 + size_to_bin_index sz)" "unat sz \<le> 2 ^ (5 + size_to_bin_index sz)"
  | (large) "size_to_bin_index sz = INVALID_BIN_INDEX" "2048 < unat sz"
  unfolding size_to_bin_index_def INVALID_BIN_INDEX_def
  by (cases "sz \<le> 32"; cases "sz \<le> 64"; cases "sz \<le> 128"; cases "sz \<le> 256"; cases "sz \<le> 512"; cases "sz \<le> 1024"; cases "sz \<le> 2048")
    (auto simp: word_le_nat_alt)

lemma heap_inv_lock [simp]: "heap_inv (s\<lparr>halloc_lock := b\<rparr>) F U B G = heap_inv s F U B G"
  unfolding heap_inv_def frames_ok_def bin_ok_def bin_page_def page_run_def by simp

lemma pages_unchanged:
  "frames_ok (s\<lparr>bins := bs, heap_words := m\<rparr>) = frames_ok s" "bin_page (s\<lparr>bins := bs, heap_words := m\<rparr>) = bin_page s"
  "page_run (s\<lparr>bins := bs, heap_words := m\<rparr>) = page_run s"
  by (simp_all add: fun_eq_iff frames_ok_def bin_page_def page_run_def)

lemma heap_inv_words:
  assumes "heap_inv s F U B G"
    and "\<And>i. i < 7 \<Longrightarrow> bin_ok (s\<lparr>bins := bs, heap_words := m\<rparr>) (F' i) (U' i) B i" "length bs = 7"
  shows "heap_inv (s\<lparr>bins := bs, heap_words := m\<rparr>) F' U' B G"
  using assms unfolding heap_inv_def pages_unchanged by simp

lemma clear_words_block: "clear_words m c n a = (if unat a \<in> block c n then 0 else m a)"
  by (simp add: clear_words_def block_def)

text \<open>The first chunk of a bin is handed out.\<close>

lemma heap_inv_take:
  assumes inv: "heap_inv s F U B G" and i: "i < 7" "F i = c # cs"
  defines "s' \<equiv> s\<lparr>bins := (bins s)[i := heap_words s c], heap_words := clear_words (heap_words s) c (2 ^ (5 + i))\<rparr>"
  shows "heap_inv s' (F(i := cs)) (U(i := insert c (U i))) B G" "c \<notin> U i" "bins s ! i = c" "c \<noteq> 0" "chunk_at B i c"
proof -
  note d = heap_invD[OF inv]
  note bi = bin_okD[OF d(3)[OF i(1)]]
  show head: "bins s ! i = c" "c \<noteq> 0" and c: "chunk_at B i c" "c \<notin> U i" using bi(1,3,4) i(2) by auto
  have keep: "clear_words (heap_words s) c (2 ^ (5 + i)) a = heap_words s a" if "chunk_at B j a" "j < 7" "a \<noteq> c" for a j
  proof -
    have "unat a \<in> block a (2 ^ (5 + j))" by (simp add: block_def)
    then show ?thesis using chunks_disjoint[OF that(1) c(1) that(2) i(1) that(3)] by (auto simp: clear_words_block)
  qed
  have "bin_ok s' ((F(i := cs)) j) ((U(i := insert c (U i))) j) B j" if j: "j < 7" for j
  proof (cases "j = i")
    case True
    have "chain (clear_words (heap_words s) c (2 ^ (5 + i))) (heap_words s c) cs = chain (heap_words s) (heap_words s c) cs"
      using keep[of i] bi(2,4) i by (intro chain_cong) auto
    then show ?thesis using True bi i d(2) by (auto simp: bin_ok_def s'_def)
  next
    case False
    note bj = bin_okD[OF d(3)[OF j]]
    have "a \<noteq> c" if "a \<in> set (F j)" for a using bj(4)[OF that] c(1) False by (auto simp: chunk_at_def)
    then have "chain (clear_words (heap_words s) c (2 ^ (5 + i))) (bins s ! j) (F j) = chain (heap_words s) (bins s ! j) (F j)"
      using keep[of j] bj(4) j by (intro chain_cong) auto
    then show ?thesis using False d(3)[OF j] by (simp add: bin_ok_def s'_def)
  qed
  then show "heap_inv s' (F(i := cs)) (U(i := insert c (U i))) B G"
    unfolding s'_def using inv d(2) by (intro heap_inv_words) auto
qed

text \<open>A run of pages is handed out, or a run is returned.\<close>

lemma heap_inv_pages:
  assumes inv: "heap_inv s F U B G" and t: "takes s f k s'" and k: "0 < k" "k < 256"
    and pages: "halloc_flags (alloc_pages_array s' ! f) = HALLOC_FLAGS_PAGE_GRANULARITY OR HALLOC_FLAGS_MANAGED"
      "contig_allocated (alloc_pages_array s' ! f) = of_nat k"
    and same: "bins s' = bins s" "heap_words s' = heap_words s"
  shows "heap_inv s' F U B (G(f \<mapsto> k))" "G f = None"
    "\<And>g n. G g = Some n \<Longrightarrow> {f ..< f + k} \<inter> {g ..< g + n} = {}" "\<And>j. f \<le> j \<Longrightarrow> j < f + k \<Longrightarrow> B j = None"
proof -
  note d = heap_invD[OF inv]
  show no: "\<And>j. f \<le> j \<Longrightarrow> j < f + k \<Longrightarrow> B j = None" using takes_bin_page[OF t] d(4) by (metis not_None_eq)
  show dj: "{f ..< f + k} \<inter> {g ..< g + n} = {}" if "G g = Some n" for g n
  proof -
    have "x \<notin> {f ..< f + k}" if "x \<in> {g ..< g + n}" for x
    proof -
      have "x - g < n" "g + (x - g) = x" using that by auto
      then show ?thesis using takes_page_run(2)[OF t d(5)[OF \<open>G g = Some n\<close>], of "x - g"] by auto
    qed
    then show ?thesis by blast
  qed
  show none: "G f = None"
  proof (cases "G f")
    case (Some n)
    then have "0 < n" using d(5) by (auto simp: page_run_def)
    then show ?thesis using dj[OF Some] k(1) by auto
  qed
  have "f + k - 1 < length (alloc_pages_array s)" using takes_in_array[OF d(1) t, of "f + k - 1"] k(1) by simp
  moreover have "area_free (page_frames s) k f" using t by (simp add: takes_def)
  then have "f + k \<le> frame_count (page_frames s)" by (simp add: area_free_def)
  ultimately have "page_run s' f k" using t k pages unfolding page_run_def takes_def by auto
  then have "page_run s' g n" if "(G(f \<mapsto> k)) g = Some n" for g n
    using that takes_page_run(1)[OF t d(5)] by (cases "g = f") auto
  moreover have "B (g + j) = None" if "(G(f \<mapsto> k)) g = Some n" "j < n" for g n j
    using that no d(6) by (cases "g = f") auto
  moreover have "bin_ok s' (F i) (U i) B i" if "i < 7" for i using d(3)[OF that] same by (simp add: bin_ok_def)
  moreover have "bin_page s' g i" if "B g = Some i" for g i using d(4)[OF that] takes_bin_page[OF t] by blast
  moreover have "{g ..< g + n} \<inter> {g' ..< g' + n'} = {}"
    if "(G(f \<mapsto> k)) g = Some n" "(G(f \<mapsto> k)) g' = Some n'" "g \<noteq> g'" for g n g' n'
    using that d(7)[of g n g' n'] dj[of g' n'] dj[of g n] by (cases "g = f"; cases "g' = f") (auto simp: Int_commute)
  ultimately show "heap_inv s' F U B (G(f \<mapsto> k))"
    using takes_frames_ok[OF d(1) t] d(2) same unfolding heap_inv_def by simp
qed

text \<open>The outcome of a request: the size that is served and the live blocks afterwards.\<close>

definition serves ::
  "(nat \<Rightarrow> u64 set) \<Rightarrow> (nat \<rightharpoonup> nat) \<Rightarrow> u64 \<Rightarrow> nat \<Rightarrow> halloc_state \<Rightarrow> (nat \<Rightarrow> u64 set) \<Rightarrow> (nat \<rightharpoonup> nat) \<Rightarrow> bool" where
  "serves U G p n s' U' G' \<longleftrightarrow> live U' G' = insert (block p n) (live U G) \<and> (\<forall>b \<in> live U G. block p n \<inter> b = {})
     \<and> (\<exists>F B. heap_inv s' F U' B G') \<and> \<not> halloc_lock s'"

lemma chunk_at_words: "chunk_at B i c \<Longrightarrow> i < 7 \<Longrightarrow> f < 2 ^ 35 \<Longrightarrow> k < 256 \<Longrightarrow> f + k < 2 ^ 35
    \<Longrightarrow> (\<And>j. f \<le> j \<Longrightarrow> j < f + k \<Longrightarrow> B j = None) \<Longrightarrow> block c (2 ^ (5 + i)) \<inter> block (frame_addr f) (k * 4096) = {}"
proof (rule ccontr)
  assume a: "chunk_at B i c" "i < 7" "f < 2 ^ 35" "\<And>j. f \<le> j \<Longrightarrow> j < f + k \<Longrightarrow> B j = None"
    "block c (2 ^ (5 + i)) \<inter> block (frame_addr f) (k * 4096) \<noteq> {}"
  then obtain x where x: "x \<in> block c (2 ^ (5 + i))" "x \<in> block (frame_addr f) (k * 4096)" by blast
  have "f * 4096 \<le> x - OFF" "x - OFF < (f + k) * 4096"
    using x(2) a(3) by (auto simp: block_def unat_frame_addr)
  then have "f \<le> (x - OFF) div 4096" "(x - OFF) div 4096 < f + k"
    by (simp_all add: less_mult_imp_div_less)
  then show False using a(1,4) chunk_page(1)[OF a(1,2) x(1)] by (simp add: chunk_at_def)
qed

lemma runs_disjoint:
  assumes "{f ..< f + k} \<inter> {g ..< g + n} = {}" "f < 2 ^ 35" "g < 2 ^ 35"
  shows "block (frame_addr f) (k * 4096) \<inter> block (frame_addr g) (n * 4096) = {}"
proof (rule ccontr)
  assume "block (frame_addr f) (k * 4096) \<inter> block (frame_addr g) (n * 4096) \<noteq> {}"
  then obtain x where "x \<in> block (frame_addr f) (k * 4096)" "x \<in> block (frame_addr g) (n * 4096)" by blast
  then have "f * 4096 \<le> x - OFF" "x - OFF < (f + k) * 4096" "g * 4096 \<le> x - OFF" "x - OFF < (g + n) * 4096"
    using assms(2,3) by (auto simp: block_def unat_frame_addr)
  then have "(x - OFF) div 4096 \<in> {f ..< f + k} \<inter> {g ..< g + n}" by (auto simp: less_mult_imp_div_less)
  then show False using assms(1) by blast
qed

lemma run_bounds: "heap_inv s F U B G \<Longrightarrow> G f = Some k \<Longrightarrow> f < 2 ^ 35 \<and> k < 256 \<and> f + k < 2 ^ 35"
  using heap_invD(1,5)[of s F U B G] by (fastforce simp: page_run_def frames_ok_def)

lemma live_chunk_disjoint:
  assumes inv: "heap_inv s F U B G" and c: "chunk_at B i c" "i < 7" "c \<notin> U i" and b: "b \<in> live U G"
  shows "block c (2 ^ (5 + i)) \<inter> b = {}"
proof -
  note d = heap_invD[OF inv]
  from b consider (chunk) j a where "b = block a (2 ^ (5 + j))" "j < 7" "a \<in> U j"
    | (run) f k where "b = block (frame_addr f) (k * 4096)" "G f = Some k" unfolding live_def by blast
  then show ?thesis
  proof cases
    case chunk
    have "chunk_at B j a" using bin_okD(5)[OF d(3)[OF chunk(2)]] chunk(3) by blast
    moreover from this have "a \<noteq> c" using c chunk by (auto simp: chunk_at_def)
    ultimately show ?thesis using chunks_disjoint[OF c(1) _ c(2) chunk(2)] chunk(1) by blast
  next
    case run
    have "B j = None" if "f \<le> j" "j < f + k" for j using d(6)[OF run(2), of "j - f"] that by auto
    then show ?thesis using chunk_at_words[OF c(1,2)] run_bounds[OF inv run(2)] run(1) by blast
  qed
qed

lemma live_insert:
  "live (U(i := insert c (U i))) G = (if i < 7 then insert (block c (2 ^ (5 + i))) (live U G) else live U G)"
  unfolding live_def by (auto split: if_splits)

lemma live_run: "G f = None \<Longrightarrow> live U (G(f \<mapsto> k)) = insert (block (frame_addr f) (k * 4096)) (live U G)"
  unfolding live_def by (auto split: if_splits) (metis option.distinct(1))

definition take_first :: "halloc_state \<Rightarrow> nat \<Rightarrow> bin_config \<Rightarrow> (virt_addr option \<times> halloc_state) run" where
  "take_first s i config =
     andThen (at (bins s) i) (\<lambda>header.
     andThen (put (bins s) i (heap_words s header)) (\<lambda>bs.
       Inr (Some header, release_halloc (s\<lparr>bins := bs, heap_words := clear_words (heap_words s) header (2 ^ chunk_shift config)\<rparr>))))"

lemma take_first_serves:
  assumes inv: "heap_inv s F U B G" and i: "i < 7" "F i = c # cs"
  shows "\<exists>s'. take_first s i (bin_configs ! i) = Inr (Some c, s')
    \<and> serves U G c (2 ^ (5 + i)) s' (U(i := insert c (U i))) G
    \<and> (\<forall>a. unat a \<in> block c (2 ^ (5 + i)) \<longrightarrow> heap_words s' a = 0) \<and> unat c mod 2 ^ (5 + i) = 0 \<and> c \<noteq> 0"
proof -
  note t = heap_inv_take[OF inv i]
  have len: "length (bins s) = 7" using heap_invD(2)[OF inv] .
  let ?s = "s\<lparr>bins := (bins s)[i := heap_words s c], heap_words := clear_words (heap_words s) c (2 ^ (5 + i))\<rparr>"
  have "take_first s i (bin_configs ! i) = Inr (Some c, ?s\<lparr>halloc_lock := False\<rparr>)"
    using t(3) len i(1) bin_config_at(2)[OF i(1)] by (simp add: take_first_def release_halloc_def)
  moreover have "serves U G c (2 ^ (5 + i)) (?s\<lparr>halloc_lock := False\<rparr>) (U(i := insert c (U i))) G"
    unfolding serves_def
  proof (intro conjI)
    show "live (U(i := insert c (U i))) G = insert (block c (2 ^ (5 + i))) (live U G)" using i(1) by (simp only: live_insert if_True)
    show "\<forall>b \<in> live U G. block c (2 ^ (5 + i)) \<inter> b = {}" using live_chunk_disjoint[OF inv t(5) i(1) t(2)] by blast
    show "\<exists>F B. heap_inv (?s\<lparr>halloc_lock := False\<rparr>) F (U(i := insert c (U i))) B G"
      unfolding heap_inv_lock using t(1) by blast
  qed simp
  moreover have "\<forall>a. unat a \<in> block c (2 ^ (5 + i)) \<longrightarrow> heap_words (?s\<lparr>halloc_lock := False\<rparr>) a = 0" by (simp add: clear_words_block)
  moreover have "unat c mod 2 ^ (5 + i) = 0" using t(5) by (simp add: chunk_at_def)
  ultimately show ?thesis using t(4) by (intro exI[of _ "?s\<lparr>halloc_lock := False\<rparr>"] conjI)
qed

text \<open>A request whose bin has a free chunk receives the first one.\<close>

lemma hmalloc_first:
  assumes inv: "heap_inv s F U B G" "\<not> halloc_lock s" and req: "req \<noteq> 0" "IS_POWER_OF_TWO al"
    and i: "i = size_to_bin_index (MAX_c req (ucast al))" "i < 7" "F i = c # cs"
  shows "\<exists>s'. hmalloc_align s req al = Inr (Some c, s') \<and> serves U G c (2 ^ (5 + i)) s' (U(i := insert c (U i))) G"
proof -
  note d = heap_invD[OF inv(1)]
  let ?s = "s\<lparr>halloc_lock := True\<rparr>"
  have inv1: "heap_inv ?s F U B G" using inv(1) by simp
  have null: "bins s ! i \<noteq> 0" using chain_null[OF bin_okD(1)[OF d(3)[OF i(2)]]] i(3) by simp
  have "i \<noteq> INVALID_BIN_INDEX" using i(2) by (simp add: INVALID_BIN_INDEX_def)
  then have "hmalloc_align s req al = take_first ?s i (bin_configs ! i)"
    using req inv(2) i(2) bin_config_at(1)[OF i(2)] d(2) null
    unfolding hmalloc_align_def Let_def i(1)[symmetric] take_first_def by (simp add: acquire_halloc_def)
  then show ?thesis using take_first_serves[OF inv1 i(2,3)] by auto
qed

lemma hmalloc_small:
  assumes inv: "heap_inv s F U B G" "\<not> halloc_lock s" and req: "req \<noteq> 0" "IS_POWER_OF_TWO al"
  defines "i \<equiv> size_to_bin_index (MAX_c req (ucast al))"
  assumes i: "i < 7"
  obtains (chunk) c s' U' where "hmalloc_align s req al = Inr (Some c, s')" "serves U G c (2 ^ (5 + i)) s' U' G"
      "\<forall>a. unat a \<in> block c (2 ^ (5 + i)) \<longrightarrow> heap_words s' a = 0" "unat c mod 2 ^ (5 + i) = 0" "c \<noteq> 0"
  | (stuck) "hmalloc_align s req al = Inr (None, s\<lparr>halloc_lock := True\<rparr>)" "F i = []"
      "get_pages (page_frames s) (of_nat (repopulate_nr_pages (bin_configs ! i))) = Inr (None, page_frames s)"
proof -
  note d = heap_invD[OF inv(1)]
  let ?s = "s\<lparr>halloc_lock := True\<rparr>" and ?c = "bin_configs ! i"
  have inv1: "heap_inv ?s F U B G" using inv(1) by simp
  have null: "bins s ! i = 0 \<longleftrightarrow> F i = []" using bin_okD(1)[OF d(3)[OF i]] by (rule chain_null)
  have "i \<noteq> INVALID_BIN_INDEX" using i by (simp add: INVALID_BIN_INDEX_def)
  then have run: "hmalloc_align s req al =
      andThen (if F i = [] then repopulate_bin ?s i ?c else Inr (True, ?s)) (\<lambda>(ok, s). if \<not> ok then Inr (None, s) else take_first s i ?c)"
    using req inv(2) i bin_config_at(1)[OF i] d(2) null
    unfolding hmalloc_align_def Let_def i_def[symmetric] take_first_def by (simp add: acquire_halloc_def)
  have done_by: thesis if h: "heap_inv s2 F2 U B2 G" "F2 i \<noteq> []" "hmalloc_align s req al = take_first s2 i ?c" for s2 F2 B2
  proof -
    obtain c cs where "F2 i = c # cs" using h(2) by (cases "F2 i") auto
    from take_first_serves[OF h(1) i this] obtain s' where t: "take_first s2 i ?c = Inr (Some c, s')"
      "serves U G c (2 ^ (5 + i)) s' (U(i := insert c (U i))) G" "\<forall>a. unat a \<in> block c (2 ^ (5 + i)) \<longrightarrow> heap_words s' a = 0"
      "unat c mod 2 ^ (5 + i) = 0" "c \<noteq> 0" by (elim exE conjE) (rule that)
    show thesis by (rule chunk[OF _ t(2-5)]) (simp only: h(3) t(1))
  qed
  show thesis
  proof (cases "F i = []")
    case False
    then show thesis using done_by[OF inv1] run by simp
  next
    case True
    from inv1 i True bin_config_at(4)[OF i] show thesis
    proof (cases rule: populate_bin_cases)
      case full
      then show thesis using run True stuck by (simp add: repopulate_bin_def bin_config_at(2)[OF i])
    next
      case (new f s2)
      let ?n = "repopulate_nr_pages ?c"
      have "0 < ?n * 4096 div 2 ^ (5 + i)"
        using chunk_count[OF i, of ?n] new(3) by (metis gr0I mult_0 mult_is_0 zero_neq_numeral nat_less_le)
      then have "chunks f ?n i \<noteq> []" by (simp add: chunks_def)
      then show thesis using done_by[OF new(5)] run True new(1) by (simp add: repopulate_bin_def bin_config_at(2)[OF i])
    qed
  qed
qed

lemma pages_of_request:
  assumes "2048 < unat req" "unat req \<le> 2 ^ 20"
  shows "unat (ROUND_UP req PAGE_SIZE) = (unat req + 4095) div 4096" "unat req \<le> unat (ROUND_UP req PAGE_SIZE) * 4096"
    "0 < unat (ROUND_UP req PAGE_SIZE)" "unat (ROUND_UP req PAGE_SIZE) \<le> 256"
proof -
  have "unat (req + 4095) = unat req + 4095" using assms(2) by (subst unat_add_small) simp_all
  then show u: "unat (ROUND_UP req PAGE_SIZE) = (unat req + 4095) div 4096"
    by (simp add: ROUND_UP_def PAGE_SIZE_def unat_div_distrib)
  show "unat req \<le> unat (ROUND_UP req PAGE_SIZE) * 4096" "0 < unat (ROUND_UP req PAGE_SIZE)" "unat (ROUND_UP req PAGE_SIZE) \<le> 256"
    unfolding u using assms by simp_all
qed

lemma hmalloc_large:
  assumes inv: "heap_inv s F U B G" "\<not> halloc_lock s" and req: "2048 < unat req" "unat req \<le> 2 ^ 20"
  defines "k \<equiv> unat (ROUND_UP req PAGE_SIZE)"
  obtains (pages) p s' G' where "pf_fallback_allocation s req = Inr (Some p, s')" "k < 256" "serves U G p (k * 4096) s' U G'"
      "unat p mod 4096 = 0" "p \<noteq> 0"
  | (oversized) f s' where "pf_fallback_allocation s req = Inr (Some (frame_addr f), s')" "k = 256" "takes s f k s'" "\<not> halloc_lock s'"
      "contig_allocated (alloc_pages_array s' ! f) = 0"
      "halloc_flags (alloc_pages_array s' ! f) = HALLOC_FLAGS_PAGE_GRANULARITY OR HALLOC_FLAGS_MANAGED"
  | (full) "pf_fallback_allocation s req = Inr (None, s)"
proof -
  note d = heap_invD[OF inv(1)] and p = pages_of_request[OF req, folded k_def]
  have a: "alloc_ok (page_frames s)" using d(1) by (simp add: frames_ok_def)
  let ?n = "ROUND_UP req PAGE_SIZE"
  from a show thesis
  proof (cases rule: get_pages_cases[of _ ?n])
    case none
    then show thesis using full by (simp add: pf_fallback_allocation_def Let_def)
  next
    case (some f a')
    have fr: "f + k < 2 ^ 35" using some(2) d(1) by (simp add: area_free_def frames_ok_def k_def)
    have idx: "page_index (frame_addr f) = f" using fr by (intro page_index_frame_addr) simp
    have "f < length (alloc_pages_array s)"
      using area_freeD[OF some(2), of f] p(3) d(1) by (auto simp: frames_ok_def k_def not_le)
    then have lt: "f < length (alloc_pages_array s)" .
    let ?page = "(alloc_pages_array s ! f)\<lparr>contig_allocated := ucast ?n, halloc_flags := HALLOC_FLAGS_PAGE_GRANULARITY OR HALLOC_FLAGS_MANAGED\<rparr>"
    define s' where "s' = s\<lparr>page_frames := a', alloc_pages_array := (alloc_pages_array s)[f := ?page], halloc_lock := False\<rparr>"
    have run: "pf_fallback_allocation s req = Inr (Some (frame_addr f), s')"
      using some(1) inv(2) lt by (simp add: pf_fallback_allocation_def Let_def acquire_halloc_def release_halloc_def idx s'_def)
    have t: "takes s f k s'" using some(2-4) p(3) by (auto simp: takes_def s'_def allocates_def frame_count_def k_def nth_list_update)
    have fl: "halloc_flags (alloc_pages_array s' ! f) = HALLOC_FLAGS_PAGE_GRANULARITY OR HALLOC_FLAGS_MANAGED"
      "contig_allocated (alloc_pages_array s' ! f) = of_nat k"
      using lt by (simp_all add: s'_def k_def)
    show thesis
    proof (cases "k = 256")
      case True
      then show thesis using oversized[OF run _ t _ _ fl(1)] fl(2) by (simp add: s'_def)
    next
      case False
      then have lt256: "k < 256" using p(4) by simp
      note h = heap_inv_pages[OF inv(1) t p(3) lt256 fl]
      have same: "bins s' = bins s" "heap_words s' = heap_words s" by (simp_all add: s'_def)
      have "block (frame_addr f) (k * 4096) \<inter> b = {}" if "b \<in> live U G" for b
        using that unfolding live_def
      proof (elim UnE CollectE exE conjE)
        fix i c assume b: "b = block c (2 ^ (5 + i))" "i < 7" "c \<in> U i"
        then have "chunk_at B i c" using bin_okD(5)[OF d(3)] by blast
        from chunk_at_words[OF this b(2) _ lt256 fr h(4)[OF same]] fr show ?thesis unfolding b(1) by (simp add: Int_commute)
      next
        fix g n assume b: "b = block (frame_addr g) (n * 4096)" "G g = Some n"
        show ?thesis unfolding b(1) using runs_disjoint[OF h(3)[OF same b(2)]] run_bounds[OF inv(1) b(2)] fr by simp
      qed
      then have "serves U G (frame_addr f) (k * 4096) s' U (G(f \<mapsto> k))"
        using h(1,2)[OF same] live_run[of G f U k] unfolding serves_def by (auto simp: s'_def)
      moreover have "unat (frame_addr f) mod 4096 = 0"
      proof -
        have "unat (frame_addr f) = 4096 * (f + 0xFFFF800000000)" using fr by (simp add: unat_frame_addr)
        then show ?thesis by simp
      qed
      moreover have "frame_addr f \<noteq> 0" using unat_frame_addr[of f] fr by (metis add_is_0 less_imp_le add_lessD1 unat_0 zero_neq_numeral)
      ultimately show thesis by (rule pages[OF run lt256])
    qed
  qed
qed

lemma bin_flags:
  assumes "i < 7"
  shows "\<not> IS_CLEAR (HALLOC_FLAGS_MANAGED OR of_nat i) HALLOC_FLAGS_MANAGED"
    "\<not> IS_SET (HALLOC_FLAGS_MANAGED OR of_nat i) HALLOC_FLAGS_PAGE_GRANULARITY"
    "unat ((HALLOC_FLAGS_MANAGED OR of_nat i) AND HALLOC_FLAGS_BIN_INDEX_MASK) = i"
proof -
  have "i \<in> {0, 1, 2, 3, 4, 5, 6}" using assms by auto
  then show "\<not> IS_CLEAR (HALLOC_FLAGS_MANAGED OR of_nat i) HALLOC_FLAGS_MANAGED"
    "\<not> IS_SET (HALLOC_FLAGS_MANAGED OR of_nat i) HALLOC_FLAGS_PAGE_GRANULARITY"
    "unat ((HALLOC_FLAGS_MANAGED OR of_nat i) AND HALLOC_FLAGS_BIN_INDEX_MASK) = i"
    by (auto simp: IS_CLEAR_def IS_SET_def HALLOC_FLAGS_MANAGED_def HALLOC_FLAGS_PAGE_GRANULARITY_def HALLOC_FLAGS_BIN_INDEX_MASK_def)
qed

lemma run_flags:
  "\<not> IS_CLEAR (HALLOC_FLAGS_PAGE_GRANULARITY OR HALLOC_FLAGS_MANAGED) HALLOC_FLAGS_MANAGED"
  "IS_SET (HALLOC_FLAGS_PAGE_GRANULARITY OR HALLOC_FLAGS_MANAGED) HALLOC_FLAGS_PAGE_GRANULARITY"
  by (simp_all add: IS_CLEAR_def IS_SET_def HALLOC_FLAGS_MANAGED_def HALLOC_FLAGS_PAGE_GRANULARITY_def)

lemma hfree_chunk:
  assumes inv: "heap_inv s F U B G" "\<not> halloc_lock s" and c: "i < 7" "c \<in> U i"
  shows "\<exists>s'. hfree s c = Inr s' \<and> heap_inv s' (F(i := c # F i)) (U(i := U i - {c})) B G \<and> \<not> halloc_lock s'"
proof -
  note d = heap_invD[OF inv(1)]
  note bi = bin_okD[OF d(3)[OF c(1)]]
  have at: "chunk_at B i c" using bi(5) c(2) .
  have pg: "bin_page s (page_index c) i" using at d(4) by (simp add: chunk_at_def)
  let ?s = "s\<lparr>bins := (bins s)[i := c], heap_words := (heap_words s)(c := bins s ! i)\<rparr>"
  have run: "hfree s c = Inr (?s\<lparr>halloc_lock := False\<rparr>)"
    using inv(2) pg d(2) c(1)
    by (simp add: hfree_def acquire_halloc_def release_halloc_def bin_page_def bin_flags get_alloc_page_bin_index_def)
  have fresh: "c \<notin> set (F j)" if "j < 7" for j
    using bi(3) c(2) at bin_okD(4)[OF d(3)[OF that], of c] by (cases "j = i") (auto simp: chunk_at_def)
  have "c \<noteq> 0" using at by (auto simp: chunk_at_def)
  then have "bin_ok ?s ((F(i := c # F i)) j) ((U(i := U i - {c})) j) B j" if "j < 7" for j
    using d(3)[OF that] bi fresh[OF that] fresh[OF c(1)] at c d(2) by (cases "j = i") (auto simp: bin_ok_def chain_fresh)
  then have "heap_inv ?s (F(i := c # F i)) (U(i := U i - {c})) B G" using inv(1) d(2) by (intro heap_inv_words) auto
  then show ?thesis using run by simp
qed

lemma hfree_run:
  assumes inv: "heap_inv s F U B G" "\<not> halloc_lock s" and g: "G f = Some k"
  shows "\<exists>s'. hfree s (frame_addr f) = Inr s' \<and> heap_inv s' F U B (G(f := None)) \<and> \<not> halloc_lock s'
    \<and> area_free (page_frames s') k f"
proof -
  note d = heap_invD[OF inv(1)]
  have r: "page_run s f k" using d(5) g .
  have b: "f < 2 ^ 35" "k < 256" "f + k < 2 ^ 35" using run_bounds[OF inv(1) g] by auto
  let ?a = "page_frames s"
  have len: "f + k \<le> length (alloc_pages_array s)" "f + k \<le> frame_count ?a" "f < length (alloc_pages_array s)" "0 < k"
    using r by (auto simp: page_run_def)
  obtain pages' where pg: "set_page_range_halloc_flags (alloc_pages_array s) (frame_addr f) k HALLOC_FLAGS_CLEAR = Inr pages'"
    "length pages' = length (alloc_pages_array s)"
    "\<And>j. pages' ! j = (if f \<le> j \<and> j < f + k then (alloc_pages_array s ! j)\<lparr>halloc_flags := HALLOC_FLAGS_CLEAR\<rparr> else alloc_pages_array s ! j)"
    using set_flags_writes[OF len(1) b(3)] by metis
  have uk: "unat (of_nat k :: u64) = k" "unat (of_nat k :: u8) = k" using b(2) by (simp_all add: unat_of_nat_small)
  have pf: "pfn_of (pfn_to_phys (of_nat f)) = f" using b(1) by (intro pfn_of_pfn_to_phys) simp
  have sz: "8 * length (bitmap ?a) \<le> 2 ^ 52" using d(1) by (auto simp: frames_ok_def alloc_ok_def bitmap_size_def)
  obtain bm where bm: "clear_bitmap_region (pfn_to_phys (of_nat f)) (of_nat k) (bitmap ?a) = Inr bm" "length bm = length (bitmap ?a)"
    "\<forall>j < 8 * length (bitmap ?a). frame_used bm j = (\<not> (f \<le> j \<and> j < f + k) \<and> frame_used (bitmap ?a) j)"
    using clear_region_ok[of "pfn_to_phys (of_nat f)" "of_nat k" "bitmap ?a"] len(2) sz unfolding pf uk
    by (auto simp: frame_count_def bitmap_size_def)
  define a' where "a' = freed_nr_frames (of_nat k) (?a\<lparr>bitmap := bm\<rparr>)"
  have fc: "frame_count a' = frame_count ?a" "bitmap a' = bm" and ao: "alloc_ok a'"
    using bm(2) d(1) by (auto simp: a'_def frame_count_def bitmap_size_def freed_nr_frames_def alloc_ok_def frames_ok_def)
  have fu: "frame_used (bitmap a') j = frame_used (bitmap ?a) j" if "j < frame_count ?a" "\<not> (f \<le> j \<and> j < f + k)" for j
    using bm(3) that fc(2) by (simp add: frame_count_def bitmap_size_def)
  define s' where "s' = s\<lparr>alloc_pages_array := pages', page_frames := a', halloc_lock := False\<rparr>"
  have run: "hfree s (frame_addr f) = Inr s'"
    using inv(2) r len(3) pg(1) bm(1) page_index_frame_addr[OF b(1)] uk
    by (simp add: hfree_def acquire_halloc_def release_halloc_def page_run_def run_flags Let_def free_pages_def free_pages_raw_def
        s'_def a'_def)
  have out: "\<not> (f \<le> g' + j \<and> g' + j < f + k)" if "(G(f := None)) g' = Some n" "j < n" for g' n j
    using that d(7)[OF g, of g' n] by (auto split: if_splits)
  have "page_run s' g' n" if "(G(f := None)) g' = Some n" for g' n
  proof -
    have p: "page_run s g' n" using that d(5) by (auto split: if_splits)
    then have "0 < n" by (simp add: page_run_def)
    then have "pages' ! g' = alloc_pages_array s ! g'" using out[OF that, of 0] pg(3) by auto
    then show ?thesis using p fu out[OF that] pg(2) by (auto simp: page_run_def s'_def fc(1))
  qed
  moreover have "bin_page s' g' i" if "B g' = Some i" for g' i
  proof -
    have "\<not> (f \<le> g' \<and> g' < f + k)"
    proof
      assume "f \<le> g' \<and> g' < f + k"
      then have "g' - f < k" "f + (g' - f) = g'" by auto
      then show False using d(6)[OF g, of "g' - f"] that by simp
    qed
    then show ?thesis using d(4)[OF that] fu pg(2,3) by (auto simp: bin_page_def s'_def fc(1))
  qed
  moreover have "frames_ok s'" using d(1) ao fu len(1) pg(2) by (auto simp: frames_ok_def s'_def fc(1))
  moreover have "bin_ok s' (F i) (U i) B i" if "i < 7" for i using d(3)[OF that] by (simp add: bin_ok_def s'_def)
  moreover have "length (bins s') = 7" using d(2) by (simp add: s'_def)
  ultimately have "heap_inv s' F U B (G(f := None))"
    using d(6,7) unfolding heap_inv_def by (auto split: if_splits)
  moreover have "area_free (page_frames s') k f"
    using len(2,4) bm(3) fc by (auto simp: area_free_def s'_def frame_count_def bitmap_size_def)
  ultimately show ?thesis using run by (auto simp: s'_def)
qed

end
