(* ===== verification/Halloc_Api.thy ===== *)
theory Halloc_Api
  imports Halloc_Heap
begin

text \<open>
  What the heap allocator promises: the interface of a heap as a locale, its interpretation on \<^verbatim>\<open>hmalloc\<close> and
  \<^verbatim>\<open>hfree\<close>, the state \<^verbatim>\<open>init_halloc\<close> leaves, and the requests the allocator does not survive.
\<close>

section \<open>The interface\<close>

text \<open>
  What the users of a heap rely on. \<open>inv s L\<close> says that the set of live blocks is \<open>L\<close>; a request of an admissible
  size returns, and if it returns memory, this is a block of at least the requested size apart from all live
  blocks; a live block can be released. A failed request may leave the heap unusable.
\<close>

locale object_heap =
  fixes alloc :: "'s \<Rightarrow> u64 \<Rightarrow> (u64 option \<times> 's) run"
    and free :: "'s \<Rightarrow> u64 \<Rightarrow> 's run"
    and inv :: "'s \<Rightarrow> nat set set \<Rightarrow> bool"
    and admissible :: "u64 \<Rightarrow> bool"
  assumes alloc_returns: "inv s L \<Longrightarrow> admissible n \<Longrightarrow> \<exists>r s'. alloc s n = Inr (r, s')"
    and alloc_some: "inv s L \<Longrightarrow> admissible n \<Longrightarrow> alloc s n = Inr (Some p, s') \<Longrightarrow>
      \<exists>m. unat n \<le> m \<and> 0 < m \<and> inv s' (insert (block p m) L) \<and> (\<forall>b \<in> L. block p m \<inter> b = {})"
    and free_live: "inv s L \<Longrightarrow> block p m \<in> L \<Longrightarrow> 0 < m \<Longrightarrow> \<exists>s'. free s p = Inr s' \<and> inv s' (L - {block p m})"
begin

text \<open>The requests of a client that stops at the first failure.\<close>

fun alloc_many :: "'s \<Rightarrow> u64 list \<Rightarrow> (u64 list \<times> 's option) run" where
  "alloc_many s [] = Inr ([], Some s)"
| "alloc_many s (n # ns) =
     andThen (alloc s n) (\<lambda>(r, s). case r of
         None \<Rightarrow> Inr ([], None)
       | Some p \<Rightarrow> andThen (alloc_many s ns) (\<lambda>(ps, s). Inr (p # ps, s)))"

lemma alloc_many_disjoint:
  assumes "inv s L" "\<forall>n \<in> set ns. admissible n"
  shows "\<exists>ps r ms. alloc_many s ns = Inr (ps, r) \<and> length ms = length ps \<and> length ps \<le> length ns
    \<and> (\<forall>i < length ps. unat (ns ! i) \<le> ms ! i \<and> 0 < ms ! i \<and> (\<forall>b \<in> L. block (ps ! i) (ms ! i) \<inter> b = {}))
    \<and> (\<forall>i < length ps. \<forall>j < i. block (ps ! i) (ms ! i) \<inter> block (ps ! j) (ms ! j) = {})
    \<and> (\<forall>s'. r = Some s' \<longrightarrow> length ps = length ns \<and> inv s' (L \<union> {block (ps ! i) (ms ! i) | i. i < length ps}))"
  using assms
proof (induction ns arbitrary: s L)
  case Nil
  then show ?case by (intro exI[of _ "[]"] exI[of _ "Some s"]) auto
next
  case (Cons n ns)
  obtain r s1 where r: "alloc s n = Inr (r, s1)" using alloc_returns[OF Cons.prems(1), of n] Cons.prems(2) by auto
  show ?case
  proof (cases r)
    case None
    then show ?thesis using r by (intro exI[of _ "[]"] exI[of _ None]) auto
  next
    case (Some p)
    obtain m where m: "unat n \<le> m" "0 < m" "inv s1 (insert (block p m) L)" "\<forall>b \<in> L. block p m \<inter> b = {}"
      using alloc_some[OF Cons.prems(1) _ r[unfolded Some]] Cons.prems(2) by auto
    obtain ps r' ms where ih: "alloc_many s1 ns = Inr (ps, r')" "length ms = length ps" "length ps \<le> length ns"
      "\<forall>i < length ps. unat (ns ! i) \<le> ms ! i \<and> 0 < ms ! i \<and> (\<forall>b \<in> insert (block p m) L. block (ps ! i) (ms ! i) \<inter> b = {})"
      "\<forall>i < length ps. \<forall>j < i. block (ps ! i) (ms ! i) \<inter> block (ps ! j) (ms ! j) = {}"
      "\<forall>s'. r' = Some s' \<longrightarrow> length ps = length ns \<and> inv s' (insert (block p m) L \<union> {block (ps ! i) (ms ! i) | i. i < length ps})"
      using Cons.IH[OF m(3)] Cons.prems(2) by auto
    have run: "alloc_many s (n # ns) = Inr (p # ps, r')" using r Some ih(1) by simp
    have all: "{block ((p # ps) ! i) ((m # ms) ! i) | i. i < length (p # ps)}
        = insert (block p m) {block (ps ! i) (ms ! i) | i. i < length ps}"
      by (simp add: setcompr_eq_image lessThan_def[symmetric] lessThan_Suc_eq_insert_0 image_image)
    show ?thesis
    proof (intro exI[of _ "p # ps"] exI[of _ r'] exI[of _ "m # ms"] conjI)
      show "\<forall>i < length (p # ps). unat ((n # ns) ! i) \<le> (m # ms) ! i \<and> 0 < (m # ms) ! i
          \<and> (\<forall>b \<in> L. block ((p # ps) ! i) ((m # ms) ! i) \<inter> b = {})"
        using m ih(4) by (simp add: All_less_Suc2)
      show "\<forall>i < length (p # ps). \<forall>j < i. block ((p # ps) ! i) ((m # ms) ! i) \<inter> block ((p # ps) ! j) ((m # ms) ! j) = {}"
        using ih(4,5) by (simp add: All_less_Suc2)
      show "\<forall>s'. r' = Some s' \<longrightarrow> length (p # ps) = length (n # ns)
          \<and> inv s' (L \<union> {block ((p # ps) ! i) ((m # ms) ! i) | i. i < length (p # ps)})"
        using ih(6) unfolding all by auto
    qed (use run ih(2,3) in auto)
  qed
qed

end

definition heap_live :: "halloc_state \<Rightarrow> nat set set \<Rightarrow> bool" where
  "heap_live s L \<longleftrightarrow> (\<exists>F U B G. heap_inv s F U B G \<and> L = live U G) \<and> \<not> halloc_lock s"

definition admissible :: "u64 \<Rightarrow> bool" where
  "admissible req \<longleftrightarrow> unat req \<le> 255 * 4096"

lemma block_eq: "0 < m \<Longrightarrow> block p m = block q n \<longleftrightarrow> p = q \<and> m = n"
proof
  assume m: "0 < m" and eq: "block p m = block q n"
  have n: "m = n" using arg_cong[OF eq, of card] by (simp add: block_def)
  then have "unat p = unat q" using eq m atLeastLessThan_inj(1)[of "unat p" "unat p + m" "unat q" "unat q + n"] by (simp add: block_def)
  with n show "p = q \<and> m = n" by (simp add: word_unat_eq_iff)
qed simp

lemma live_remove_chunk:
  assumes inv: "heap_inv s F U B G" and c: "i < 7" "c \<in> U i"
  shows "live (U(i := U i - {c})) G = live U G - {block c (2 ^ (5 + i))}"
proof -
  let ?U = "U(i := U i - {c})" and ?b = "block c (2 ^ (5 + i))"
  have "U = ?U(i := insert c (?U i))" by (rule ext) (use c(2) in auto)
  then have l: "live U G = insert ?b (live ?U G)" using live_insert[of ?U i c G] c(1) by simp
  have inv': "heap_inv s F ?U B G"
    using inv unfolding heap_inv_def bin_ok_def by (auto simp: Diff_Int_distrib)
  have "chunk_at B i c" using bin_okD(5)[OF heap_invD(3)[OF inv c(1)] c(2)] .
  then have "?b \<notin> live ?U G" using live_chunk_disjoint[OF inv' _ c(1), of c ?b] by (auto simp: block_def)
  with l show ?thesis by simp
qed

lemma live_remove_run:
  assumes inv: "heap_inv s F U B G" and g: "G f = Some k"
  shows "live U (G(f := None)) = live U G - {block (frame_addr f) (k * 4096)}"
proof -
  let ?b = "block (frame_addr f) (k * 4096)"
  note d = heap_invD[OF inv] and b = run_bounds[OF inv g]
  have "0 < k" using d(5)[OF g] by (simp add: page_run_def)
  then have ne: "?b \<noteq> {}" by (simp add: block_def)
  have no: "B j = None" if "f \<le> j" "j < f + k" for j using d(6)[OF g, of "j - f"] that by auto
  have "G = (G(f := None))(f \<mapsto> k)" using g by auto
  then have l: "live U G = insert ?b (live U (G(f := None)))" using live_run[of "G(f := None)" f U k] by simp
  have "?b \<inter> x = {}" if "x \<in> live U (G(f := None))" for x
    using that unfolding live_def
  proof (elim UnE CollectE exE conjE)
    fix i c assume x: "x = block c (2 ^ (5 + i))" "i < 7" "c \<in> U i"
    then have "chunk_at B i c" using bin_okD(5)[OF d(3)] by blast
    from chunk_at_words[OF this x(2) _ _ _ no] b show ?thesis unfolding x(1) by (simp add: Int_commute)
  next
    fix h n assume x: "x = block (frame_addr h) (n * 4096)" "(G(f := None)) h = Some n"
    then have "h \<noteq> f" "G h = Some n" by (auto split: if_splits)
    then show ?thesis using runs_disjoint[of f k h n] d(7)[OF g, of h n] b run_bounds[OF inv, of h n] unfolding x(1) by auto
  qed
  then have "?b \<notin> live U (G(f := None))" using ne by blast
  with l show ?thesis by simp
qed

lemma actual_request: "unat (MAX_c (req :: u64) (ucast (al :: u8))) = max (unat req) (unat al)"
proof -
  have "unat (ucast al :: u64) = unat al" using unat_less_size[of al] by (simp add: unsigned_ucast_eq take_bit_nat_eq_self)
  then show ?thesis by (simp add: MAX_c_max max_def word_le_nat_alt)
qed

lemma serves_live:
  assumes "serves U G p m s' U' G'"
  shows "heap_live s' (insert (block p m) (live U G))" "\<forall>b \<in> live U G. block p m \<inter> b = {}"
  using assms unfolding serves_def heap_live_def by metis+

lemma mod_32: "unat a mod m = 0 \<Longrightarrow> 32 dvd m \<Longrightarrow> unat a mod 32 = 0"
  by (meson dvd_imp_mod_0 dvd_trans mod_0_imp_dvd)

lemma IS_POWER_OF_TWO_8: "IS_POWER_OF_TWO HALLOC_DEFAULT_ALIGNMENT"
  by (simp add: IS_POWER_OF_TWO_def HALLOC_DEFAULT_ALIGNMENT_def)

lemma power_of_two_byte:
  assumes "IS_POWER_OF_TWO (al :: u8)" "al \<noteq> 0"
  shows "\<exists>k. unat al = 2 ^ k"
proof -
  have "list_all (\<lambda>n. (word_of_nat n :: u8) AND (word_of_nat n - 1) = 0 \<longrightarrow> n \<in> {0, 1, 2, 4, 8, 16, 32, 64, 128}) [0 ..< 256]"
    by code_simp
  moreover have "unat al < 256" using unat_less_size[of al] by simp
  ultimately have "unat al \<in> {0, 1, 2, 4, 8, 16, 32, 64, 128}"
    using assms(1) by (simp add: list_all_iff IS_POWER_OF_TWO_def)
  then have "unat al \<in> {2 ^ 0, 2 ^ 1, 2 ^ 2, 2 ^ 3, 2 ^ 4, 2 ^ 5, 2 ^ 6, 2 ^ 7}" using assms(2) by (simp add: unat_eq_0)
  then show ?thesis by blast
qed

lemma aligned_to:
  assumes "IS_POWER_OF_TWO (al :: u8)" "al \<noteq> 0" "unat al \<le> 2 ^ m" "unat p mod 2 ^ m = 0"
  shows "unat p mod unat al = 0"
proof -
  obtain k where k: "unat al = 2 ^ k" using power_of_two_byte[OF assms(1,2)] by blast
  then have "k \<le> m" using assms(3) by simp
  then show ?thesis using assms(4) k by (metis dvd_imp_mod_0 dvd_trans le_imp_power_dvd mod_0_imp_dvd)
qed

text \<open>A request to \<^verbatim>\<open>hmalloc_align\<close> in a state with live blocks \<open>L\<close>.\<close>

lemma hmalloc_align_cases:
  assumes "heap_live s L" "IS_POWER_OF_TWO al" "req \<noteq> 0"
  obtains (memory) p m s' where "hmalloc_align s req al = Inr (Some p, s')" "max (unat req) (unat al) \<le> m" "heap_live s' (insert (block p m) L)"
      "\<forall>b \<in> L. block p m \<inter> b = {}" "p \<noteq> 0" "unat p mod 32 = 0" "al \<noteq> 0 \<longrightarrow> unat p mod unat al = 0" "0 < m" "unat req \<le> 255 * 4096"
      "unat req \<le> 2048 \<longrightarrow> (\<forall>a. unat a \<in> block p m \<longrightarrow> heap_words s' a = 0)"
  | (oversized) f s' where "hmalloc_align s req al = Inr (Some (frame_addr f), s')" "255 * 4096 < unat req" "takes s f 256 s'"
      "\<not> halloc_lock s'" "contig_allocated (alloc_pages_array s' ! f) = 0"
      "halloc_flags (alloc_pages_array s' ! f) = HALLOC_FLAGS_PAGE_GRANULARITY OR HALLOC_FLAGS_MANAGED"
  | (stuck) "hmalloc_align s req al = Inr (None, s\<lparr>halloc_lock := True\<rparr>)" "unat req \<le> 2048"
      "get_pages (page_frames s) (of_nat (repopulate_nr_pages (bin_configs ! size_to_bin_index (MAX_c req (ucast al)))))
        = Inr (None, page_frames s)"
  | (refused) "hmalloc_align s req al = Inr (None, s)" "2048 < unat req"
proof -
  obtain F U B G where inv: "heap_inv s F U B G" "L = live U G" "\<not> halloc_lock s" using assms(1) unfolding heap_live_def by blast
  let ?r = "MAX_c req (ucast al)"
  have al: "unat al < 256" using unat_less_size[of al] by simp
  show thesis
  proof (cases rule: size_to_bin_index_cases[of ?r])
    case bin
    let ?i = "size_to_bin_index ?r"
    have le: "(2 :: nat) ^ (5 + ?i) \<le> 2048" using power_increasing[of "5 + ?i" 11 "2 :: nat"] bin(1) by simp
    from inv(1,3) assms(3,2) bin(1) show thesis
    proof (cases rule: hmalloc_small)
      case (chunk c s' U')
      note sv = serves_live[OF chunk(2)]
      show thesis
      proof (rule memory[OF chunk(1)])
        show "max (unat req) (unat al) \<le> 2 ^ (5 + ?i)" using bin(3) unfolding actual_request .
        show "heap_live s' (insert (block c (2 ^ (5 + ?i))) L)" "\<forall>b \<in> L. block c (2 ^ (5 + ?i)) \<inter> b = {}" using sv inv(2) by simp_all
        show "unat req \<le> 255 * 4096" using bin(3) le unfolding actual_request by simp
        show "unat c mod 32 = 0" using mod_32[OF chunk(4)] le_imp_power_dvd[of 5 "5 + ?i" "2 :: nat"] by simp
        show "al \<noteq> 0 \<longrightarrow> unat c mod unat al = 0" using aligned_to[OF assms(2) _ _ chunk(4)] bin(3) unfolding actual_request by simp
      qed (use chunk in simp_all)
    next
      case stuck2: stuck
      then show thesis using stuck[OF stuck2(1) _ stuck2(3)] bin(3) le unfolding actual_request by simp
    qed
  next
    case large
    then have big: "2048 < unat req" using al unfolding actual_request by (simp add: max_def split: if_splits)
    from large have run: "hmalloc_align s req al = (if ?r > MAX_SUPPORTED_ALLOCATION_SIZE then Inr (None, s) else pf_fallback_allocation s ?r)"
      using assms(2,3) by (simp add: hmalloc_align_def Let_def)
    show thesis
    proof (cases "?r > MAX_SUPPORTED_ALLOCATION_SIZE")
      case True
      then show thesis using run refused big by simp
    next
      case False
      then have "unat ?r \<le> 2 ^ 20" by (simp add: word_le_nat_alt not_less MAX_SUPPORTED_ALLOCATION_SIZE_def)
      note p = pages_of_request[OF large(2) this]
      from inv(1,3) large(2) \<open>unat ?r \<le> 2 ^ 20\<close> show thesis
      proof (cases rule: hmalloc_large)
        case (pages q s' G')
        note sv = serves_live[OF pages(3)]
        let ?k = "unat (ROUND_UP ?r PAGE_SIZE)"
        show thesis
        proof (rule memory[of q s' "?k * 4096"])
          show "hmalloc_align s req al = Inr (Some q, s')" using pages(1) run False by simp
          show "max (unat req) (unat al) \<le> ?k * 4096" using p(2) unfolding actual_request .
          show "heap_live s' (insert (block q (?k * 4096)) L)" "\<forall>b \<in> L. block q (?k * 4096) \<inter> b = {}" using sv inv(2) by simp_all
          have "?k * 4096 \<le> 255 * 4096" using pages(2) by (intro mult_le_mono1) simp
          then show "unat req \<le> 255 * 4096" using p(2) unfolding actual_request by simp
          show "unat q mod 32 = 0" using mod_32[OF pages(4)] by simp
          show "al \<noteq> 0 \<longrightarrow> unat q mod unat al = 0" using aligned_to[OF assms(2), of 12 q] pages(4) al by simp
          show "unat req \<le> 2048 \<longrightarrow> (\<forall>a. unat a \<in> block q (?k * 4096) \<longrightarrow> heap_words s' a = 0)" using big by simp
        qed (use pages(5) p(3) in simp_all)
      next
        case oversized2: (oversized f s')
        have "255 * 4096 < unat ?r" using p(1) oversized2(2) by simp
        then have "255 * 4096 < unat req" using al unfolding actual_request by (simp add: max_def split: if_splits)
        then show thesis using oversized[of f s'] oversized2 run False by simp
      next
        case full
        then show thesis using run False refused big by simp
      qed
    qed
  qed
qed

section \<open>The interpretation\<close>

lemma hfree_live:
  assumes "heap_live s L" "block p m \<in> L" "0 < m"
  shows "\<exists>s'. hfree s p = Inr s' \<and> heap_live s' (L - {block p m})"
proof -
  obtain F U B G where inv: "heap_inv s F U B G" "L = live U G" "\<not> halloc_lock s" using assms(1) unfolding heap_live_def by blast
  from assms(2) consider (chunk) i c where "block p m = block c (2 ^ (5 + i))" "i < 7" "c \<in> U i"
    | (pages) f k where "block p m = block (frame_addr f) (k * 4096)" "G f = Some k"
    unfolding inv(2) live_def by blast
  then show ?thesis
  proof cases
    case chunk
    then have "c = p" using block_eq[OF assms(3)] by blast
    with hfree_chunk[OF inv(1,3) chunk(2,3)] live_remove_chunk[OF inv(1) chunk(2,3)] show ?thesis
      unfolding heap_live_def inv(2) chunk(1) by metis
  next
    case pages
    then have "p = frame_addr f" using block_eq[OF assms(3)] by blast
    with hfree_run[OF inv(1,3) pages(2)] live_remove_run[OF inv(1) pages(2)] show ?thesis
      unfolding heap_live_def inv(2) pages(1) by metis
  qed
qed

lemma hmalloc_live:
  assumes "heap_live s L" "admissible n"
  shows "(\<exists>p s' m. hmalloc s n = Inr (Some p, s') \<and> unat n \<le> m \<and> 0 < m \<and> heap_live s' (insert (block p m) L) \<and> (\<forall>b \<in> L. block p m \<inter> b = {}))
    \<or> (\<exists>s'. hmalloc s n = Inr (None, s'))"
proof (cases "n = 0")
  case True
  then show ?thesis by (simp add: hmalloc_def hmalloc_align_def)
next
  case False
  from assms(1) IS_POWER_OF_TWO_8 False show ?thesis
  proof (cases rule: hmalloc_align_cases)
    case (memory p m s')
    then show ?thesis unfolding hmalloc_def by (metis max.bounded_iff)
  next
    case oversized
    then show ?thesis using assms(2) by (simp add: admissible_def)
  qed (simp_all add: hmalloc_def)
qed

interpretation heap: object_heap hmalloc hfree heap_live admissible
proof
  show "\<exists>r s'. hmalloc s n = Inr (r, s')" if "heap_live s L" "admissible n" for s L n
    using hmalloc_live[OF that] by blast
  show "\<exists>m. unat n \<le> m \<and> 0 < m \<and> heap_live s' (insert (block p m) L) \<and> (\<forall>b \<in> L. block p m \<inter> b = {})"
    if "heap_live s L" "admissible n" "hmalloc s n = Inr (Some p, s')" for s L n p s'
    using hmalloc_live[OF that(1,2)] that(3) by auto
  show "\<exists>s'. hfree s p = Inr s' \<and> heap_live s' (L - {block p m})" if "heap_live s L" "block p m \<in> L" "0 < m" for s L p m
    using that by (rule hfree_live)
qed

section \<open>Initialisation\<close>

text \<open>The state with no block and no page in any bin.\<close>

lemma heap_live_empty:
  assumes "frames_ok s" "bins s = replicate 7 0" "\<not> halloc_lock s"
  shows "heap_live s {}"
proof -
  have "heap_inv s (\<lambda>_. []) (\<lambda>_. {}) Map.empty Map.empty" using assms by (simp add: heap_inv_def bin_ok_def)
  moreover have "live (\<lambda>_. {}) Map.empty = {}" by (simp add: live_def)
  ultimately show ?thesis using assms(3) unfolding heap_live_def by metis
qed

lemma init_config_at:
  assumes "i < 7"
  shows "unat (bin_index (bin_configs ! i)) = i" "0 < nr_of_init_pages (bin_configs ! i)" "nr_of_init_pages (bin_configs ! i) < 256"
proof -
  have "i \<in> {0, 1, 2, 3, 4, 5, 6}" using assms by auto
  then show "unat (bin_index (bin_configs ! i)) = i" "0 < nr_of_init_pages (bin_configs ! i)" "nr_of_init_pages (bin_configs ! i) < 256"
    by (auto simp: bin_configs_def INIT_BIN_CONFIG_def)
qed

lemma chunks_nonempty: "i < 7 \<Longrightarrow> 0 < n \<Longrightarrow> chunks f n i \<noteq> []"
  using chunk_count[of i n] by (cases "n * 4096 div 2 ^ (5 + i) = 0") (auto simp: chunks_def)

lemma init_bins_loop_cases:
  assumes "heap_inv s F (\<lambda>_. {}) B Map.empty" "\<forall>i < 7. k \<le> i \<longleftrightarrow> F i = []" "k \<le> 7" "\<not> halloc_lock s"
  shows "\<exists>ok s'. init_bins_loop s (drop k bin_configs) = Inr (ok, s') \<and> \<not> halloc_lock s'
    \<and> (\<exists>F' B'. heap_inv s' F' (\<lambda>_. {}) B' Map.empty \<and> (ok \<longrightarrow> (\<forall>i < 7. F' i \<noteq> [])))
    \<and> frame_count (page_frames s') = frame_count (page_frames s)
    \<and> (\<forall>j < frame_count (page_frames s). frame_used (bitmap (page_frames s)) j \<longrightarrow> frame_used (bitmap (page_frames s')) j)"
  using assms
proof (induction "7 - k" arbitrary: k s F B)
  case 0
  then show ?case by (force simp: bin_configs_def)
next
  case (Suc n)
  then have k: "k < 7" by simp
  note c = bin_config_at[OF k] init_config_at[OF k]
  have d: "drop k bin_configs = bin_configs ! k # drop (Suc k) bin_configs" using c(1) by (rule Cons_nth_drop_Suc[symmetric])
  from Suc.prems(1) k Suc.prems(2)[rule_format, OF k, THEN iffD1, OF order_refl] c(7) show ?case
  proof (cases rule: populate_bin_cases)
    case full
    then show ?thesis using Suc.prems(1,4) c unfolding d by force
  next
    case (new f s')
    let ?F = "F(k := chunks f (nr_of_init_pages (bin_configs ! k)) k)"
    have "chunks f (nr_of_init_pages (bin_configs ! k)) k \<noteq> []" using chunks_nonempty[OF k new(3)] .
    then have F: "\<forall>i < 7. Suc k \<le> i \<longleftrightarrow> ?F i = []" using Suc.prems(2) by (auto simp: le_less Suc_le_eq)
    have u: "frame_count (page_frames s') = frame_count (page_frames s)"
      "\<forall>j < frame_count (page_frames s). frame_used (bitmap (page_frames s)) j \<longrightarrow> frame_used (bitmap (page_frames s')) j"
      using new(2) by (simp_all add: takes_def)
    have "n = 7 - Suc k" "Suc k \<le> 7" "\<not> halloc_lock s'" using Suc.hyps(2) k new(4) Suc.prems(4) by auto
    from Suc.hyps(1)[OF this(1) new(5) F this(2,3)] show ?thesis using new(1) c u unfolding d by force
  qed
qed

lemma descriptor_pages:
  assumes "unat n < 2 ^ 35"
  shows "unat n \<le> unat (ROUND_UP (n * 2) PAGE_SIZE) * 2048" "unat (ROUND_UP (n * 2) PAGE_SIZE) < 2 ^ 35"
proof -
  have "unat (n * 2) = unat n * 2" using assms by (subst unat_mult_lem[THEN iffD1]) simp_all
  moreover from this have "unat (n * 2 + 4095) = unat n * 2 + 4095" using assms by (subst unat_add_small) simp_all
  ultimately have u: "unat (ROUND_UP (n * 2) PAGE_SIZE) = (unat n * 2 + 4095) div 4096"
    by (simp add: ROUND_UP_def PAGE_SIZE_def unat_div_distrib)
  show "unat n \<le> unat (ROUND_UP (n * 2) PAGE_SIZE) * 2048" "unat (ROUND_UP (n * 2) PAGE_SIZE) < 2 ^ 35"
    unfolding u using assms by simp_all
qed

lemma free_pages_returns:
  assumes "alloc_ok a" "f + unat nr \<le> frame_count a" "f < 2 ^ 35"
  shows "\<exists>a'. free_pages a nr (frame_addr f) = Inr a'"
proof -
  have "pfn_of (pfn_to_phys (of_nat f)) = f" using assms(3) by (intro pfn_of_pfn_to_phys) simp
  then show ?thesis using clear_region_ok[of "pfn_to_phys (of_nat f)" nr "bitmap a"] assms(1,2)
    by (auto simp: free_pages_def free_pages_raw_def alloc_ok_def frame_count_def bitmap_size_def)
qed

text \<open>
  Starting the heap never faults, whatever the uncleared memory of the page descriptors holds. If it
  reports success, no memory is in use, the allocator is in a state in which requests are served and every
  size class has a chunk to hand out.
\<close>

lemma init_halloc_ready:
  assumes "alloc_ok (page_frames s)" "frame_count (page_frames s) < 2 ^ 35" "unat (nr_of_pfns info) < 2 ^ 35" "\<not> halloc_lock s"
    and "\<forall>f < frame_count (page_frames s). unat (nr_of_pfns info) \<le> f \<longrightarrow> frame_used (bitmap (page_frames s)) f"
  shows "\<exists>ok s'. init_halloc s info uninit = Inr (ok, s') \<and> (ok \<longrightarrow> heap_live s' {} \<and> length (bins s') = 7 \<and> (\<forall>i < 7. bins s' ! i \<noteq> 0))"
proof -
  let ?n = "ROUND_UP (nr_of_pfns info * 2) PAGE_SIZE" and ?s = "s\<lparr>bins := replicate NR_OF_BINS 0, alloc_pages_array := []\<rparr>"
  note dp = descriptor_pages[OF assms(3)]
  from assms(1) show ?thesis
  proof (cases rule: get_pages_cases[of _ ?n])
    case none
    then show ?thesis by (auto simp: init_halloc_def Let_def)
  next
    case (some f a)
    let ?t = "?s\<lparr>page_frames := a, alloc_pages_array := map uninit [0 ..< unat ?n * 2048]\<rparr>"
    have fc: "frame_count a = frame_count (page_frames s)" using some(3) by (simp add: allocates_def frame_count_def)
    have "frames_ok ?t" using some(3,4) assms(2,5) dp(1) unfolding frames_ok_def by (auto simp: fc allocates_def)
    then have "heap_inv ?t (\<lambda>_. []) (\<lambda>_. {}) Map.empty Map.empty" by (simp add: heap_inv_def bin_ok_def NR_OF_BINS_def)
    from init_bins_loop_cases[OF this, of 0] assms(4) obtain ok s' F B where
      l: "init_bins_loop ?t bin_configs = Inr (ok, s')" "\<not> halloc_lock s'" "heap_inv s' F (\<lambda>_. {}) B Map.empty"
      "ok \<longrightarrow> (\<forall>i < 7. F i \<noteq> [])" "frame_count (page_frames s') = frame_count a" by auto
    have fr: "f + unat ?n \<le> frame_count (page_frames s')" "f < 2 ^ 35" using some(2) assms(2) fc l(5) by (auto simp: area_free_def)
    have "alloc_ok (page_frames s')" using heap_invD(1)[OF l(3)] by (simp add: frames_ok_def)
    from free_pages_returns[OF this fr] obtain a' where a': "free_pages (page_frames s') ?n (frame_addr f) = Inr a'" by blast
    have run: "init_halloc s info uninit = Inr (ok, if ok then s' else s'\<lparr>page_frames := a'\<rparr>)"
      using some(1) l(1) a' by (simp add: init_halloc_def Let_def)
    have "live (\<lambda>_. {}) Map.empty = {}" by (simp add: live_def)
    then have h: "heap_live s' {}" using l(2,3) unfolding heap_live_def by metis
    have "bins s' ! i \<noteq> 0" if "i < 7" "F i \<noteq> []" for i
      using chain_null[OF bin_okD(1)[OF heap_invD(3)[OF l(3) that(1)]]] that(2) by simp
    then show ?thesis using run h l(4) heap_invD(2)[OF l(3)] by auto
  qed
qed

section \<open>Requests and releases\<close>

text \<open>
  C2. What a user of \<^verbatim>\<open>hmalloc_align\<close> may rely on for requests of up to 255 pages: the call returns, and memory it
  returns starts at an address other than NULL with the requested alignment, lies apart from all live memory
  and is as large as requested; requests served from a bin are cleared.
\<close>

theorem hmalloc_align_sound:
  assumes "heap_live s L" "IS_POWER_OF_TWO al" "al \<noteq> 0" "req \<noteq> 0" "admissible req"
  shows "\<exists>r s'. hmalloc_align s req al = Inr (r, s') \<and> (case r of
      Some p \<Rightarrow> p \<noteq> 0 \<and> unat p mod unat al = 0 \<and> (\<exists>m \<ge> unat req. heap_live s' (insert (block p m) L) \<and> (\<forall>b \<in> L. block p m \<inter> b = {})
        \<and> (unat req \<le> 2048 \<longrightarrow> (\<forall>a. unat a \<in> block p m \<longrightarrow> heap_words s' a = 0)))
    | None \<Rightarrow> s' = s\<lparr>halloc_lock := halloc_lock s'\<rparr> \<and> (halloc_lock s' \<longrightarrow> unat req \<le> 2048
        \<and> get_pages (page_frames s) (of_nat (repopulate_nr_pages (bin_configs ! size_to_bin_index (MAX_c req (ucast al)))))
          = Inr (None, page_frames s)))"
  using assms(1,2,4)
proof (cases rule: hmalloc_align_cases)
  case (memory p m s')
  then show ?thesis using assms(3) by (intro exI[of _ "Some p"] exI[of _ s']) (auto intro!: exI[of _ m])
next
  case (oversized f s')
  then show ?thesis using assms(5) by (simp add: admissible_def)
next
  case refused
  then show ?thesis using assms(1) by (auto simp: heap_live_def)
qed simp

lemma size_class:
  assumes "i < 7" "unat sz \<le> 2 ^ (5 + i)" "i = 0 \<or> 2 ^ (5 + i) < 2 * unat sz"
  shows "size_to_bin_index sz = i"
proof -
  have "i \<in> {0, 1, 2, 3, 4, 5, 6}" using assms(1) by auto
  then show ?thesis using assms(2,3) by (auto simp: size_to_bin_index_def word_le_nat_alt)
qed

text \<open>A released chunk is the next one that is handed out for its size.\<close>

lemma chunk_reused:
  assumes inv: "heap_inv s F U B G" "\<not> halloc_lock s" and c: "i < 7" "c \<in> U i"
    and n: "n \<noteq> 0" "unat n \<le> 2 ^ (5 + i)" "i = 0 \<or> 2 ^ (5 + i) < 2 * unat n"
  shows "\<exists>s' s''. hfree s c = Inr s' \<and> heap_live s' (live U G - {block c (2 ^ (5 + i))}) \<and> hmalloc s' n = Inr (Some c, s'') \<and> heap_live s'' (live U G)"
proof -
  let ?U = "U(i := U i - {c})"
  obtain s' where s': "hfree s c = Inr s'" "heap_inv s' (F(i := c # F i)) ?U B G" "\<not> halloc_lock s'"
    using hfree_chunk[OF inv c] by blast
  have mx: "unat (MAX_c n (ucast HALLOC_DEFAULT_ALIGNMENT)) = max (unat n) 8" unfolding actual_request by (simp add: HALLOC_DEFAULT_ALIGNMENT_def)
  have "(8 :: nat) \<le> 2 ^ (5 + i)" using power_increasing[of 3 "5 + i" "2 :: nat"] by simp
  then have "size_to_bin_index (MAX_c n (ucast HALLOC_DEFAULT_ALIGNMENT)) = i"
    using n unfolding mx[symmetric] by (intro size_class[OF c(1)]) (auto simp: mx max_def)
  from hmalloc_first[OF s'(2,3) n(1) IS_POWER_OF_TWO_8 this[symmetric] c(1)] obtain s'' where
    r: "hmalloc s' n = Inr (Some c, s'')" "serves ?U G c (2 ^ (5 + i)) s'' (?U(i := insert c (?U i))) G" by (auto simp: hmalloc_def)
  have "?U(i := insert c (?U i)) = U" by (rule ext) (use c(2) in auto)
  then have "(\<exists>F B. heap_inv s'' F U B G) \<and> \<not> halloc_lock s''" using r(2) unfolding serves_def by metis
  then have "heap_live s'' (live U G)" unfolding heap_live_def by blast
  then show ?thesis using s' r(1) live_remove_chunk[OF inv(1) c] unfolding heap_live_def by metis
qed

text \<open>
  C33. A live block can be given back and used again: \<^verbatim>\<open>hfree\<close> returns and exactly that block is no longer live. A chunk of a
  bin is the block that the next request of its size class receives; the pages of a larger block are free for the
  page frame allocator.
\<close>

theorem hfree_releases:
  assumes "heap_live s L" "block p m \<in> L" "0 < m"
  shows "\<exists>s'. hfree s p = Inr s' \<and> heap_live s' (L - {block p m})
    \<and> (m \<le> 2048 \<longrightarrow> (\<forall>n. n \<noteq> 0 \<and> unat n \<le> m \<and> (m \<le> 32 \<or> m < 2 * unat n) \<longrightarrow> (\<exists>s''. hmalloc s' n = Inr (Some p, s'') \<and> heap_live s'' L)))
    \<and> (2048 < m \<longrightarrow> area_free (page_frames s') (m div 4096) (page_index p))"
proof -
  obtain F U B G where inv: "heap_inv s F U B G" "L = live U G" "\<not> halloc_lock s" using assms(1) unfolding heap_live_def by blast
  from assms(2) consider (chunk) i c where "block p m = block c (2 ^ (5 + i))" "i < 7" "c \<in> U i"
    | (pages) f k where "block p m = block (frame_addr f) (k * 4096)" "G f = Some k"
    unfolding inv(2) live_def by blast
  then show ?thesis
  proof cases
    case chunk
    then have pm: "c = p" "m = 2 ^ (5 + i)" using block_eq[OF assms(3)] by blast+
    have le: "(2 :: nat) ^ (5 + i) \<le> 2048" using power_increasing[of "5 + i" 11 "2 :: nat"] chunk(2) by simp
    have one: "i = 0 \<or> (2 :: nat) ^ (5 + i) < 2 * unat n" if "(2 :: nat) ^ (5 + i) \<le> 32 \<or> (2 :: nat) ^ (5 + i) < 2 * unat n" for n :: u64
      using that power_strict_increasing_iff[of "2 :: nat" 5 "5 + i"] by auto
    obtain s' where "hfree s p = Inr s'" "heap_live s' (L - {block p m})" using hfree_live[OF assms] by blast
    moreover have "\<exists>s''. hmalloc s' n = Inr (Some p, s'') \<and> heap_live s'' L"
      if "hfree s p = Inr s'" "n \<noteq> 0" "unat n \<le> m" "m \<le> 32 \<or> m < 2 * unat n" for n s'
      using chunk_reused[OF inv(1,3) chunk(2,3) that(2), unfolded pm(1)] that(1,3,4) one[of n] unfolding pm(2) inv(2) by auto
    ultimately show ?thesis using le pm(2) by auto
  next
    case pages
    then have pm: "p = frame_addr f" "m = k * 4096" using block_eq[OF assms(3)] by blast+
    note h = hfree_run[OF inv(1,3) pages(2)]
    have f: "page_index p = f" using run_bounds[OF inv(1) pages(2)] pm(1) by (simp add: page_index_frame_addr)
    obtain s' where "hfree s p = Inr s'" "heap_live s' (L - {block p m})" using hfree_live[OF assms] by blast
    moreover have "0 < k" using assms(3) pm(2) by simp
    ultimately show ?thesis using h f pm by auto
  qed
qed

lemma small_takes_lock:
  assumes "n \<noteq> 0" "unat n \<le> 2048" "halloc_lock s"
  shows "hmalloc s n = Inl Spins"
proof -
  have "unat (MAX_c n (ucast HALLOC_DEFAULT_ALIGNMENT)) \<le> 2048"
    using assms(2) unfolding actual_request by (simp add: HALLOC_DEFAULT_ALIGNMENT_def)
  then have "size_to_bin_index (MAX_c n (ucast HALLOC_DEFAULT_ALIGNMENT)) \<noteq> INVALID_BIN_INDEX"
    by (cases rule: size_to_bin_index_cases[of "MAX_c n (ucast HALLOC_DEFAULT_ALIGNMENT)"]) (auto simp: INVALID_BIN_INDEX_def)
  then show ?thesis using assms IS_POWER_OF_TWO_8 by (simp add: hmalloc_def hmalloc_align_def Let_def acquire_halloc_def)
qed

text \<open>
  C34. Once a request of 1 to 2048 bytes fails, because its bin is empty and no page frame is left to refill it, the call returns without
  releasing the lock of the heap: every later request of 1 to 2048 bytes and every release spins forever. (Larger requests do
  not need the lock before they fail.)
\<close>

theorem hmalloc_failure_locks_heap:
  assumes "heap_live s L" "req \<noteq> 0" "unat req \<le> 2048" "hmalloc s req = Inr (None, s')"
  shows "halloc_lock s' \<and> (\<forall>ptr. hfree s' ptr = Inl Spins) \<and> (\<forall>n. n \<noteq> 0 \<longrightarrow> unat n \<le> 2048 \<longrightarrow> hmalloc s' n = Inl Spins)"
proof -
  have lock: "halloc_lock s'"
    using assms(1) IS_POWER_OF_TWO_8 assms(2)
  proof (cases rule: hmalloc_align_cases)
  qed (use assms(3,4) in \<open>auto simp: hmalloc_def\<close>)
  then show ?thesis using small_takes_lock by (simp add: hfree_def acquire_halloc_def)
qed

text \<open>
  The largest request, of 256 pages, is stored as 0 pages in the 8 bit of the descriptor: releasing the block
  changes nothing, and its pages are lost.
\<close>

lemma oversized_never_released:
  assumes "heap_live s L" "255 * 4096 < unat req" "hmalloc s req = Inr (Some p, s')"
  shows "hfree s' p = Inr s' \<and> (\<exists>f. takes s f 256 s' \<and> p = frame_addr f)"
proof -
  have "req \<noteq> 0" using assms(2) by auto
  have ok: "frames_ok s" using assms(1) unfolding heap_live_def by (auto dest: heap_invD(1))
  from assms(1) IS_POWER_OF_TWO_8 \<open>req \<noteq> 0\<close> show ?thesis
  proof (cases rule: hmalloc_align_cases)
    case (oversized f t)
    then have eq: "p = frame_addr f" "s' = t" using assms(3) by (simp_all add: hmalloc_def)
    have f: "f < length (alloc_pages_array t)" "f < 2 ^ 35"
      using takes_in_array[OF ok oversized(3), of f] oversized(3) ok by (auto simp: takes_def area_free_def frames_ok_def)
    have "free_pages (page_frames t) 0 (frame_addr f) = Inr (page_frames t)"
      by (simp add: free_pages_def free_pages_raw_def clear_bitmap_region_def freed_nr_frames_def)
    then have "hfree t (frame_addr f) = Inr t"
      using oversized(4,5,6) f page_index_frame_addr[OF f(2)]
      by (simp add: hfree_def acquire_halloc_def release_halloc_def run_flags Let_def set_page_range_halloc_flags_def)
    then show ?thesis using eq oversized(3) by blast
  next
    case (memory q m t)
    then show ?thesis using assms(2) by simp
  qed (use assms(3) in \<open>simp_all add: hmalloc_def\<close>)
qed

text \<open>Releasing NULL reads the descriptor of a page that no machine with at most 48 bits of physical memory has.\<close>

lemma hfree_null:
  assumes "\<not> halloc_lock s" "length (alloc_pages_array s) \<le> 2 ^ 35"
  shows "hfree s 0 = Inl OutOfBounds"
proof -
  have "phys_to_pfn (virt_to_phys 0) = 2 ^ 35" by code_simp
  then have "page_index 0 = 2 ^ 35" by (simp add: page_index_def)
  then show ?thesis using assms by (simp add: hfree_def acquire_halloc_def at_def)
qed

section \<open>An example\<close>

definition example_heap :: halloc_state where
  "example_heap = \<lparr>bins = replicate 7 0, alloc_pages_array = replicate 16 \<lparr>halloc_flags = 0, contig_allocated = 0\<rparr>,
     heap_words = (\<lambda>_. 0), page_frames = small_allocator, halloc_lock = False\<rparr>"

lemma example_heap_live: "heap_live example_heap {}"
proof (rule heap_live_empty)
  show "frames_ok example_heap" using small_allocator_ok
    by (simp add: frames_ok_def example_heap_def frame_count_def bitmap_size_def) (simp add: small_allocator_def)
qed (simp_all add: example_heap_def)

lemma example_request: "\<exists>p s' m. hmalloc example_heap 100 = Inr (Some p, s') \<and> 100 \<le> m \<and> heap_live s' {block p m}"
proof -
  have i: "size_to_bin_index (MAX_c 100 (ucast HALLOC_DEFAULT_ALIGNMENT)) = 2" by code_simp
  have "area_free small_allocator 1 5" using small_allocator_free unfolding area_free_def by force
  then have g: "get_pages small_allocator 1 \<noteq> Inr (None, small_allocator)"
    using get_pages_raw_cases[OF small_allocator_ok, of 1]
    by (auto simp: get_pages_def free_frames_def) (simp add: small_allocator_def)
  have "(100 :: u64) \<noteq> 0" by simp
  with example_heap_live IS_POWER_OF_TWO_8 show ?thesis
  proof (cases rule: hmalloc_align_cases)
    case (memory p m s')
    then show ?thesis unfolding hmalloc_def by auto
  next
    case stuck
    then show ?thesis using g unfolding i by (simp add: example_heap_def bin_configs_def INIT_BIN_CONFIG_def)
  qed simp_all
qed

theorem hmalloc_align_sound_witness:
  "\<exists>r s'. hmalloc_align example_heap 100 16 = Inr (r, s') \<and> (case r of Some p \<Rightarrow> p \<noteq> 0 \<and> unat p mod 16 = 0 | None \<Rightarrow> True)"
  using hmalloc_align_sound[OF example_heap_live, of 16 100]
  by (auto simp: IS_POWER_OF_TWO_def admissible_def split: option.splits)

theorem hfree_releases_witness:
  "\<exists>p s' s''. hmalloc example_heap 100 = Inr (Some p, s') \<and> hfree s' p = Inr s'' \<and> heap_live s'' {}"
proof -
  obtain p s' m where p: "hmalloc example_heap 100 = Inr (Some p, s')" "100 \<le> m" "heap_live s' {block p m}"
    using example_request by blast
  with hfree_releases[OF p(3), of p m] show ?thesis by auto
qed

text \<open>The example with all page frames in use.\<close>

definition full_heap :: halloc_state where
  "full_heap = example_heap\<lparr>page_frames := small_allocator\<lparr>bitmap := [0xFF, 0xFF], allocatable_frames := 0\<rparr>\<rparr>"

lemma full_heap_live: "heap_live full_heap {}"
proof (rule heap_live_empty)
  show "frames_ok full_heap"
    by (simp add: frames_ok_def full_heap_def example_heap_def frame_count_def bitmap_size_def alloc_ok_def small_allocator_def)
qed (simp_all add: full_heap_def example_heap_def)

theorem hmalloc_failure_locks_heap_witness:
  "\<exists>s'. hmalloc full_heap 32 = Inr (None, s') \<and> hmalloc s' 1 = Inl Spins \<and> hfree s' 4096 = Inl Spins"
proof -
  have "hmalloc full_heap 32 = Inr (None, full_heap\<lparr>halloc_lock := True\<rparr>)"
    by (simp add: hmalloc_def hmalloc_align_def Let_def HALLOC_DEFAULT_ALIGNMENT_def IS_POWER_OF_TWO_def MAX_c_def size_to_bin_index_def
        INVALID_BIN_INDEX_def acquire_halloc_def bin_configs_def INIT_BIN_CONFIG_def repopulate_bin_def populate_bin_def get_pages_def
        get_pages_raw_def free_frames_def full_heap_def example_heap_def small_allocator_def at_def)
  then show ?thesis using hmalloc_failure_locks_heap[OF full_heap_live, of 32] by simp
qed

lemma init_halloc_ready_witness:
  "\<exists>ok s'. init_halloc example_heap \<lparr>total_size = 0, early_usable_memory = 0, total_usable_memory = 0, lowest_mapped_addr = 0,
     highest_mapped_addr = 0, largest_mapped_pfn = 15, nr_of_pfns = 16\<rparr> (\<lambda>_. \<lparr>halloc_flags = 7, contig_allocated = 3\<rparr>) = Inr (ok, s')
   \<and> (ok \<longrightarrow> heap_live s' {})"
  using init_halloc_ready[of example_heap "\<lparr>total_size = 0, early_usable_memory = 0, total_usable_memory = 0, lowest_mapped_addr = 0,
     highest_mapped_addr = 0, largest_mapped_pfn = 15, nr_of_pfns = 16\<rparr>" "\<lambda>_. \<lparr>halloc_flags = 7, contig_allocated = 3\<rparr>"]
    small_allocator_ok
  by (auto simp: example_heap_def frame_count_def bitmap_size_def small_allocator_def)

end
