(* ===== verification/Byte_Mem.thy ===== *)
theory Byte_Mem
  imports Str_Lib
begin

text \<open>
  Fields of structures in byte memory: loads and stores of little-endian words of 1, 2, 4 and 8 bytes. Members
  of packed structures are read and written at their offsets with these operations.
\<close>

section \<open>Bytes of a word\<close>

definition word_bytes :: "'a::len word \<Rightarrow> nat \<Rightarrow> u8 list" where
  "word_bytes w n = map (\<lambda>i. ucast (drop_bit (8 * i) w)) [0 ..< n]"

fun from_bytes :: "u8 list \<Rightarrow> 'a::len word" where
  "from_bytes [] = 0"
| "from_bytes (b # bs) = ucast b OR push_bit 8 (from_bytes bs)"

lemma length_word_bytes [simp]: "length (word_bytes w n) = n"
  by (simp add: word_bytes_def)

lemma word_bytes_0 [simp]: "word_bytes w 0 = []"
  by (simp add: word_bytes_def)

lemma word_bytes_Suc: "word_bytes w (Suc n) = ucast w # word_bytes (drop_bit 8 w) n"
proof -
  have "[0 ..< Suc n] = 0 # map Suc [0 ..< n]" by (simp add: map_Suc_upt upt_conv_Cons)
  then show ?thesis by (simp add: word_bytes_def comp_def add.commute)
qed

lemma from_word_bytes: "from_bytes (word_bytes (w :: 'a::len word) n) = take_bit (8 * n) w"
proof (induction n arbitrary: w)
  case (Suc n)
  have "(ucast (ucast w :: u8) :: 'a word) = take_bit 8 w"
    by (rule bit_eqI) (auto simp: bit_ucast_iff bit_take_bit_iff)
  moreover have "push_bit 8 (take_bit (8 * n) (drop_bit 8 w)) OR take_bit 8 w = take_bit (8 * Suc n) w"
    by (rule bit_eqI) (auto simp: bit_or_iff bit_push_bit_iff bit_take_bit_iff bit_drop_bit_eq not_less)
  ultimately show ?case by (simp add: word_bytes_Suc Suc.IH or.commute)
qed simp

section \<open>Loads and stores\<close>

definition store_bytes :: "mem \<Rightarrow> u64 \<Rightarrow> u8 list \<Rightarrow> mem" where
  "store_bytes m a bs = (\<lambda>x. if unat (x - a) < length bs then bs ! unat (x - a) else m x)"

definition load_bytes :: "mem \<Rightarrow> u64 \<Rightarrow> nat \<Rightarrow> u8 list" where
  "load_bytes m a n = map (\<lambda>i. m (a + of_nat i)) [0 ..< n]"

definition load8 :: "mem \<Rightarrow> u64 \<Rightarrow> u8" where
  "load8 m a = m a"

definition load16 :: "mem \<Rightarrow> u64 \<Rightarrow> u16" where
  "load16 m a = from_bytes (load_bytes m a 2)"

definition load32 :: "mem \<Rightarrow> u64 \<Rightarrow> u32" where
  "load32 m a = from_bytes (load_bytes m a 4)"

definition load64 :: "mem \<Rightarrow> u64 \<Rightarrow> u64" where
  "load64 m a = from_bytes (load_bytes m a 8)"

definition store8 :: "mem \<Rightarrow> u64 \<Rightarrow> u8 \<Rightarrow> mem" where
  "store8 m a v = m(a := v)"

definition store16 :: "mem \<Rightarrow> u64 \<Rightarrow> u16 \<Rightarrow> mem" where
  "store16 m a v = store_bytes m a (word_bytes v 2)"

definition store32 :: "mem \<Rightarrow> u64 \<Rightarrow> u32 \<Rightarrow> mem" where
  "store32 m a v = store_bytes m a (word_bytes v 4)"

definition store64 :: "mem \<Rightarrow> u64 \<Rightarrow> u64 \<Rightarrow> mem" where
  "store64 m a v = store_bytes m a (word_bytes v 8)"

named_theorems mem_defs \<open>definitions of loads and stores\<close>

lemmas [mem_defs] = load16_def load32_def load64_def store16_def store32_def store64_def

lemma length_load_bytes [simp]: "length (load_bytes m a n) = n"
  by (simp add: load_bytes_def)

lemma nth_load_bytes [simp]: "i < n \<Longrightarrow> load_bytes m a n ! i = m (a + of_nat i)"
  by (simp add: load_bytes_def)

lemma store_bytes_range: "length bs < 2 ^ 64 \<Longrightarrow> x \<notin> range_of a (length bs) \<Longrightarrow> store_bytes m a bs x = m x"
proof -
  assume "x \<notin> range_of a (length bs)"
  moreover have "x = a + of_nat (unat (x - a))" by simp
  ultimately have "\<not> unat (x - a) < length bs" unfolding range_of_def by blast
  then show ?thesis by (simp add: store_bytes_def)
qed

lemma store_bytes_at: "length bs \<le> 2 ^ 64 \<Longrightarrow> i < length bs \<Longrightarrow> store_bytes m a bs (a + of_nat i) = bs ! i"
  by (simp add: store_bytes_def unat_of_nat_small)

lemma load_store_bytes: "length bs \<le> 2 ^ 64 \<Longrightarrow> load_bytes (store_bytes m a bs) a (length bs) = bs"
  by (rule nth_equalityI) (simp_all add: store_bytes_at)

lemma load_bytes_cong: "(\<And>x. x \<in> range_of a n \<Longrightarrow> m x = m' x) \<Longrightarrow> load_bytes m a n = load_bytes m' a n"
  by (rule nth_equalityI) (auto simp: range_of_def)

lemma load_store_words [simp]:
  "load16 (store16 m a v) a = v" "load32 (store32 m a w) a = w" "load64 (store64 m a u) a = u"
  using load_store_bytes[of "word_bytes v 2" m a] load_store_bytes[of "word_bytes w 4" m a] load_store_bytes[of "word_bytes u 8" m a]
  by (simp_all add: mem_defs from_word_bytes take_bit_word_eq_self)

text \<open>Two fields of one object, at offsets below \<open>2 ^ 63\<close>, that do not overlap.\<close>

lemma offset_notin_range:
  assumes "i < 2 ^ 63" "j + n \<le> 2 ^ 63" "i < j \<or> j + n \<le> i"
  shows "a + of_nat i \<notin> range_of (a + of_nat j) n"
proof
  assume "a + of_nat i \<in> range_of (a + of_nat j) n"
  then obtain k where k: "k < n" "a + of_nat i = a + of_nat j + of_nat k" unfolding range_of_def by blast
  then have "(of_nat i :: u64) = of_nat (j + k)" by simp
  then have "i = j + k" using word_of_nat_inj[of i "j + k", where 'a = 64] assms k(1) by simp
  then show False using assms(3) k(1) by simp
qed

lemma load_bytes_store_other:
  assumes "i + n \<le> 2 ^ 63" "j + length bs \<le> 2 ^ 63" "i + n \<le> j \<or> j + length bs \<le> i"
  shows "load_bytes (store_bytes m (a + of_nat j) bs) (a + of_nat i) n = load_bytes m (a + of_nat i) n"
proof (rule nth_equalityI)
  fix k assume k: "k < length (load_bytes (store_bytes m (a + of_nat j) bs) (a + of_nat i) n)"
  then have "a + of_nat (i + k) \<notin> range_of (a + of_nat j) (length bs)" using assms by (intro offset_notin_range) auto
  then have "a + of_nat i + of_nat k \<notin> range_of (a + of_nat j) (length bs)" by (simp add: add.assoc)
  then show "load_bytes (store_bytes m (a + of_nat j) bs) (a + of_nat i) n ! k = load_bytes m (a + of_nat i) n ! k"
    using k assms(2) by (simp add: store_bytes_range)
qed simp

end
