(* ===== verification/Descriptors.thy ===== *)
theory Descriptors
  imports Byte_Mem Frames
begin

text \<open>
  Segmentation and descriptor tables (\<^verbatim>\<open>arch/x64/segmentation.c\<close>, \<^verbatim>\<open>arch/x64/gdt_idt.c\<close>): the packed descriptors,
  the tables in byte memory, the task state segment with its interrupt stacks and the gates of the interrupt
  table. The specification is how the processor reads a descriptor.
\<close>

section \<open>Descriptors\<close>

text \<open>A bit-field of \<open>n\<close> bits at bit \<open>i\<close>: its contribution to the word and its value.\<close>

definition bit_field :: "nat \<Rightarrow> nat \<Rightarrow> 'a::len word \<Rightarrow> u64" where
  "bit_field i n v = push_bit i (take_bit n (ucast v))"

definition get_bits :: "u64 \<Rightarrow> nat \<Rightarrow> nat \<Rightarrow> u64" where
  "get_bits w i n = take_bit n (drop_bit i w)"

definition TI_GDT :: u16 where
  "TI_GDT = 0"

datatype descriptor_type = SYSTEM_SEGMENT_DESC | CODE_DATA_SEGMENT_DESC

definition SEGMENT_PRESENT :: u16 where
  "SEGMENT_PRESENT = 1"

definition DATA_RW_ACCESSED :: u16 where
  "DATA_RW_ACCESSED = 3"

definition DATA_RW_EXPAND_DOWN :: u16 where
  "DATA_RW_EXPAND_DOWN = 6"

definition CODE_EXECUTE_ONLY_ACCESSED :: u16 where
  "CODE_EXECUTE_ONLY_ACCESSED = 9"

definition CODE_EXECUTE_READ_ACCESSED :: u16 where
  "CODE_EXECUTE_READ_ACCESSED = 11"

definition IA32E_TSS :: u16 where
  "IA32E_TSS = 9"

definition IA32E_INTERRUPT_GATE :: u16 where
  "IA32E_INTERRUPT_GATE = 14"

definition IA32E_TRAP_GATE :: u16 where
  "IA32E_TRAP_GATE = 15"

record segment_selector =
  sel_rpl :: u16
  sel_ti :: u16
  sel_index :: u16

definition selector_word :: "segment_selector \<Rightarrow> u16" where
  "selector_word s = take_bit 2 (sel_rpl s) OR push_bit 2 (take_bit 1 (sel_ti s)) OR push_bit 3 (take_bit 13 (sel_index s))"

definition GDT_SELECTOR :: "u16 \<Rightarrow> u16 \<Rightarrow> u16 \<Rightarrow> segment_selector" where
  "GDT_SELECTOR idx ti rpl = \<lparr>sel_rpl = rpl, sel_ti = ti, sel_index = idx\<rparr>"

record segment_descriptor =
  sd_limit0 :: u16
  sd_low_base :: u16
  sd_mid_base :: u16
  sd_type :: u16
  sd_s :: u16
  sd_dpl :: u16
  sd_p :: u16
  sd_limit1 :: u16
  sd_avl :: u16
  sd_l :: u16
  sd_db :: u16
  sd_g :: u16
  sd_high_base :: u16

definition segment_descriptor_word :: "segment_descriptor \<Rightarrow> u64" where
  "segment_descriptor_word d =
     bit_field 0 16 (sd_limit0 d) OR bit_field 16 16 (sd_low_base d) OR bit_field 32 8 (sd_mid_base d) OR bit_field 40 4 (sd_type d)
     OR bit_field 44 1 (sd_s d) OR bit_field 45 2 (sd_dpl d) OR bit_field 47 1 (sd_p d) OR bit_field 48 4 (sd_limit1 d)
     OR bit_field 52 1 (sd_avl d) OR bit_field 53 1 (sd_l d) OR bit_field 54 1 (sd_db d) OR bit_field 55 1 (sd_g d)
     OR bit_field 56 8 (sd_high_base d)"

definition desc_type_bit :: "descriptor_type \<Rightarrow> u16" where
  "desc_type_bit t = (case t of SYSTEM_SEGMENT_DESC \<Rightarrow> 0 | CODE_DATA_SEGMENT_DESC \<Rightarrow> 1)"

definition DEFINE_SEGMENT_DESCRIPTOR :: "descriptor_type \<Rightarrow> u16 \<Rightarrow> u16 \<Rightarrow> u16 \<Rightarrow> segment_descriptor" where
  "DEFINE_SEGMENT_DESCRIPTOR desc_type seg_type dpl l =
     \<lparr>sd_limit0 = 0, sd_low_base = 0, sd_mid_base = 0, sd_type = seg_type, sd_s = desc_type_bit desc_type, sd_dpl = dpl, sd_p = SEGMENT_PRESENT,
      sd_limit1 = 0, sd_avl = 0, sd_l = l, sd_db = 0, sd_g = 0, sd_high_base = 0\<rparr>"

definition hyvemind_cs_segment_desc :: segment_descriptor where
  "hyvemind_cs_segment_desc = DEFINE_SEGMENT_DESCRIPTOR CODE_DATA_SEGMENT_DESC CODE_EXECUTE_ONLY_ACCESSED 0 1"

definition hyvemind_data_segment_desc :: segment_descriptor where
  "hyvemind_data_segment_desc = DEFINE_SEGMENT_DESCRIPTOR CODE_DATA_SEGMENT_DESC DATA_RW_EXPAND_DOWN 0 0"

record tss_descriptor =
  td_limit0 :: u16
  td_base0 :: u16
  td_base1 :: u16
  td_type :: u16
  td_dpl :: u16
  td_p :: u16
  td_limit1 :: u16
  td_avl :: u16
  td_g :: u16
  td_base2 :: u16
  td_base3 :: u32

text \<open>The 16 bytes of the descriptor as two words; the reserved fields are 0.\<close>

definition tss_descriptor_words :: "tss_descriptor \<Rightarrow> u64 \<times> u64" where
  "tss_descriptor_words d =
     (bit_field 0 16 (td_limit0 d) OR bit_field 16 16 (td_base0 d) OR bit_field 32 8 (td_base1 d) OR bit_field 40 4 (td_type d)
      OR bit_field 45 2 (td_dpl d) OR bit_field 47 1 (td_p d) OR bit_field 48 4 (td_limit1 d) OR bit_field 52 1 (td_avl d)
      OR bit_field 55 1 (td_g d) OR bit_field 56 8 (td_base2 d),
      bit_field 0 32 (td_base3 d))"

record idt_gate =
  ig_low_offset :: u16
  ig_selector :: segment_selector
  ig_ist :: u16
  ig_type :: u16
  ig_dpl :: u16
  ig_p :: u16
  ig_mid_offset :: u16
  ig_high_offset :: u32

definition idt_gate_words :: "idt_gate \<Rightarrow> u64 \<times> u64" where
  "idt_gate_words g =
     (bit_field 0 16 (ig_low_offset g) OR bit_field 16 16 (selector_word (ig_selector g)) OR bit_field 32 3 (ig_ist g) OR bit_field 40 4 (ig_type g)
      OR bit_field 45 2 (ig_dpl g) OR bit_field 47 1 (ig_p g) OR bit_field 48 16 (ig_mid_offset g),
      bit_field 0 32 (ig_high_offset g))"

definition HYVEMIND_CS_SEGMENT_INDEX :: u16 where
  "HYVEMIND_CS_SEGMENT_INDEX = 1"

definition HYVEMIND_DATA_SEGMENT_INDEX :: u16 where
  "HYVEMIND_DATA_SEGMENT_INDEX = 2"

definition HYVEMIND_TSS_INDEX :: u16 where
  "HYVEMIND_TSS_INDEX = 3"

section \<open>The task state segment\<close>

definition get_base_from_tss_descriptor :: "tss_descriptor \<Rightarrow> virt_addr" where
  "get_base_from_tss_descriptor d =
     ucast (td_base0 d) OR U64_LSHIFT (ucast (td_base1 d)) 16 OR U64_LSHIFT (ucast (td_base2 d)) 24 OR U64_LSHIFT (ucast (td_base3 d)) 32"

definition set_tss_desc_limit :: "tss_descriptor \<Rightarrow> u32 \<Rightarrow> tss_descriptor" where
  "set_tss_desc_limit d limit = d\<lparr>td_limit0 := ucast (limit AND 0xFFFF), td_limit1 := ucast (drop_bit 16 limit AND 0xF)\<rparr>"

definition set_tss_desc_base :: "tss_descriptor \<Rightarrow> virt_addr \<Rightarrow> tss_descriptor" where
  "set_tss_desc_base d base =
     (let lower32 = U64_LOWER32 base; first16 = U32_LOWER16 lower32; second16 = U32_UPPER16 lower32
      in d\<lparr>td_base0 := first16, td_base1 := U16_LOWER8 second16, td_base2 := U16_UPPER8 second16, td_base3 := U64_UPPER32 base\<rparr>)"

text \<open>The structure is padded to its alignment of a page.\<close>

definition sizeof_tss :: nat where
  "sizeof_tss = 4096"

definition create_tss_desc :: "virt_addr \<Rightarrow> u8 \<Rightarrow> tss_descriptor" where
  "create_tss_desc tss_segment dpl =
     set_tss_desc_base (set_tss_desc_limit
       \<lparr>td_limit0 = 0, td_base0 = 0, td_base1 = 0, td_type = IA32E_TSS, td_dpl = ucast dpl, td_p = SEGMENT_PRESENT, td_limit1 = 0, td_avl = 0,
        td_g = 0, td_base2 = 0, td_base3 = 0\<rparr> (of_nat sizeof_tss - 1)) tss_segment"

text \<open>The offset of entry \<open>k\<close> of the interrupt stack table in the segment.\<close>

definition ist_offset :: "nat \<Rightarrow> nat" where
  "ist_offset k = 36 + 8 * k"

record table_state =
  tmem :: mem
  tframes :: pf_bitmap_allocator

text \<open>\<open>False\<close> is the result -1.\<close>

definition allocate_tss_ist :: "table_state \<Rightarrow> virt_addr \<Rightarrow> nat \<Rightarrow> u64 \<Rightarrow> (bool \<times> table_state) run" where
  "allocate_tss_ist s tss index nr_stack_pages =
     (if index = 0 then Inr (False, s)
      else andThen (get_pages_zeroed (tframes s) nr_stack_pages (tmem s)) (\<lambda>(r, a, m).
        let s = s\<lparr>tframes := a, tmem := m\<rparr> in
        case r of
          None \<Rightarrow> Inr (False, s)
        | Some stack_bot \<Rightarrow>
            let stack_start = stack_bot + nr_stack_pages * PAGE_SIZE - 8;
                m = store32 (tmem s) (tss + of_nat (ist_offset (index - 1))) (U64_LOWER32 stack_start);
                m = store32 m (tss + of_nat (ist_offset (index - 1) + 4)) (U64_UPPER32 stack_start)
            in Inr (True, s\<lparr>tmem := m\<rparr>)))"

definition init_default_tss :: "table_state \<Rightarrow> virt_addr \<Rightarrow> u64 \<Rightarrow> (bool \<times> table_state) run" where
  "init_default_tss s tss nr_stack_pages =
     (let s = s\<lparr>tmem := memset (tmem s) tss 0 sizeof_tss\<rparr> in
      andThen (allocate_tss_ist s tss 1 nr_stack_pages) (\<lambda>(ok, s).
        if \<not> ok then Inr (False, s)
        else andThen (allocate_tss_ist s tss 2 nr_stack_pages) (\<lambda>(ok, s). Inr (ok, s))))"

section \<open>The tables\<close>

text \<open>A code or data descriptor has 8 bytes, a system descriptor 16; \<open>desc\<close> holds them as words.\<close>

definition write_gdt_entry :: "mem \<Rightarrow> virt_addr \<Rightarrow> u64 \<times> u64 \<Rightarrow> nat \<Rightarrow> descriptor_type \<Rightarrow> mem" where
  "write_gdt_entry m gdt desc index type =
     (let m' = store64 m (gdt + of_nat (8 * index)) (fst desc)
      in if type = SYSTEM_SEGMENT_DESC then store64 m' (gdt + of_nat (8 * index + 8)) (snd desc) else m')"

definition init_new_gdt :: "mem \<Rightarrow> virt_addr \<Rightarrow> mem" where
  "init_new_gdt m gdt =
     (let m = memset m gdt 0 4096;
          m = write_gdt_entry m gdt (segment_descriptor_word hyvemind_cs_segment_desc, 0) (unat HYVEMIND_CS_SEGMENT_INDEX) CODE_DATA_SEGMENT_DESC
      in write_gdt_entry m gdt (segment_descriptor_word hyvemind_data_segment_desc, 0) (unat HYVEMIND_DATA_SEGMENT_INDEX) CODE_DATA_SEGMENT_DESC)"

definition TSS_IST_DEFAULT_SIZE_PAGES :: u64 where
  "TSS_IST_DEFAULT_SIZE_PAGES = 4"

definition install_new_tss :: "table_state \<Rightarrow> virt_addr \<Rightarrow> (bool \<times> table_state) run" where
  "install_new_tss s gdt =
     andThen (get_page_zeroed (tframes s) (tmem s)) (\<lambda>(r, a, m).
       let s = s\<lparr>tframes := a, tmem := m\<rparr> in
       case r of
         None \<Rightarrow> Inr (False, s)
       | Some tss_page \<Rightarrow>
           andThen (init_default_tss s tss_page TSS_IST_DEFAULT_SIZE_PAGES) (\<lambda>(ok, s).
             if \<not> ok then Inr (False, s)
             else
               let tss_desc = create_tss_desc tss_page 0
               in Inr (True, s\<lparr>tmem := write_gdt_entry (tmem s) gdt (tss_descriptor_words tss_desc) (unat HYVEMIND_TSS_INDEX) SYSTEM_SEGMENT_DESC\<rparr>)))"

definition set_idt_gate_offset :: "idt_gate \<Rightarrow> u64 \<Rightarrow> idt_gate" where
  "set_idt_gate_offset gate off =
     (let lower32 = U64_LOWER32 off
      in gate\<lparr>ig_low_offset := U32_LOWER16 lower32, ig_mid_offset := U32_UPPER16 lower32, ig_high_offset := U64_UPPER32 off\<rparr>)"

definition create_idt_gate :: "virt_addr \<Rightarrow> u16 \<Rightarrow> u16 \<Rightarrow> idt_gate" where
  "create_idt_gate handler_addr type ist_index =
     set_idt_gate_offset
       \<lparr>ig_low_offset = 0, ig_selector = GDT_SELECTOR HYVEMIND_CS_SEGMENT_INDEX TI_GDT 0, ig_ist = ist_index, ig_type = type, ig_dpl = 0,
        ig_p = SEGMENT_PRESENT, ig_mid_offset = 0, ig_high_offset = 0\<rparr> handler_addr"

definition write_idt_entry :: "mem \<Rightarrow> virt_addr \<Rightarrow> nat \<Rightarrow> idt_gate \<Rightarrow> mem" where
  "write_idt_entry m idt index gate =
     store64 (store64 m (idt + of_nat (16 * index)) (fst (idt_gate_words gate))) (idt + of_nat (16 * index + 8)) (snd (idt_gate_words gate))"

definition register_idt_handler :: "mem \<Rightarrow> virt_addr \<Rightarrow> nat \<Rightarrow> u16 \<Rightarrow> virt_addr \<Rightarrow> u16 \<Rightarrow> mem" where
  "register_idt_handler m idt index type handler ist_index = write_idt_entry m idt index (create_idt_gate handler type ist_index)"

definition IRQ_DIVIDE_ERROR_VECTOR :: nat where
  "IRQ_DIVIDE_ERROR_VECTOR = 0"

definition IRQ_APIC_TIMER_VECTOR :: nat where
  "IRQ_APIC_TIMER_VECTOR = 0x30"

definition IRQ_CPU_KICK_VECTOR :: nat where
  "IRQ_CPU_KICK_VECTOR = 0xf0"

text \<open>The addresses of the assembly entry points are arguments.\<close>

definition init_shared_idt :: "mem \<Rightarrow> virt_addr \<Rightarrow> virt_addr \<Rightarrow> virt_addr \<Rightarrow> virt_addr \<Rightarrow> mem" where
  "init_shared_idt m idt div_handler timer_handler kick_handler =
     (let m = memset m idt 0 4096;
          m = register_idt_handler m idt IRQ_DIVIDE_ERROR_VECTOR IA32E_TRAP_GATE div_handler 0;
          m = register_idt_handler m idt IRQ_APIC_TIMER_VECTOR IA32E_INTERRUPT_GATE timer_handler 1
      in register_idt_handler m idt IRQ_CPU_KICK_VECTOR IA32E_INTERRUPT_GATE kick_handler 1)"

section \<open>How the processor reads a descriptor\<close>

record gate_view =
  gv_present :: bool
  gv_type :: u64
  gv_dpl :: u64
  gv_ist :: u64
  gv_selector :: u64
  gv_offset :: u64

definition gate_view_of :: "u64 \<Rightarrow> u64 \<Rightarrow> gate_view" where
  "gate_view_of lo hi =
     \<lparr>gv_present = bit lo 47, gv_type = get_bits lo 40 5, gv_dpl = get_bits lo 45 2, gv_ist = get_bits lo 32 3, gv_selector = get_bits lo 16 16,
      gv_offset = get_bits lo 0 16 OR push_bit 16 (get_bits lo 48 16) OR push_bit 32 (get_bits hi 0 32)\<rparr>"

definition idt_entry :: "mem \<Rightarrow> virt_addr \<Rightarrow> nat \<Rightarrow> gate_view" where
  "idt_entry m idt v = gate_view_of (load64 m (idt + of_nat (16 * v))) (load64 m (idt + of_nat (16 * v + 8)))"

record system_view =
  sv_present :: bool
  sv_type :: u64
  sv_dpl :: u64
  sv_base :: u64
  sv_limit :: u64

definition system_view_of :: "u64 \<Rightarrow> u64 \<Rightarrow> system_view" where
  "system_view_of lo hi =
     \<lparr>sv_present = bit lo 47, sv_type = get_bits lo 40 5, sv_dpl = get_bits lo 45 2,
      sv_base = get_bits lo 16 24 OR push_bit 24 (get_bits lo 56 8) OR push_bit 32 (get_bits hi 0 32),
      sv_limit = (get_bits lo 0 16 OR push_bit 16 (get_bits lo 48 4)) * (if bit lo 55 then 4096 else 1)\<rparr>"

definition tss_entry :: "mem \<Rightarrow> virt_addr \<Rightarrow> nat \<Rightarrow> system_view" where
  "tss_entry m gdt i = system_view_of (load64 m (gdt + of_nat (8 * i))) (load64 m (gdt + of_nat (8 * i + 8)))"

definition ist_pointer :: "mem \<Rightarrow> virt_addr \<Rightarrow> nat \<Rightarrow> u64" where
  "ist_pointer m tss k = load64 m (tss + of_nat (ist_offset (k - 1)))"

section \<open>Encodings\<close>

lemma bit_bit_field: "bit (bit_field i n (v :: 'a::len word)) j \<longleftrightarrow> i \<le> j \<and> j < i + n \<and> j < 64 \<and> bit v (j - i)"
  by (auto simp: bit_field_def bit_push_bit_iff bit_take_bit_iff bit_ucast_iff bit_imp_le_length)

lemma bit_get_bits: "bit (get_bits w i n) j \<longleftrightarrow> j < n \<and> bit w (i + j)"
  by (auto simp: get_bits_def bit_take_bit_iff bit_drop_bit_eq)

lemma low_byte_mask: "push_bit 8 1 - 1 = (mask 8 :: u16)"
  by (simp add: mask_eq_exp_minus_1)

lemma bit_cut:
  "bit (U64_LOWER32 v) j \<longleftrightarrow> j < 32 \<and> bit v j" "bit (U64_UPPER32 v) j \<longleftrightarrow> j < 32 \<and> bit v (32 + j)"
  "bit (U32_LOWER16 w) j \<longleftrightarrow> j < 16 \<and> bit w j" "bit (U32_UPPER16 w) j \<longleftrightarrow> j < 16 \<and> bit w (16 + j)"
  "bit (U16_LOWER8 x) j \<longleftrightarrow> j < 8 \<and> bit x j" "bit (U16_UPPER8 x) j \<longleftrightarrow> bit x (8 + j)"
  unfolding U16_LOWER8_def low_byte_mask
  by (auto simp: U64_LOWER32_def U64_UPPER32_def U32_LOWER16_def U32_UPPER16_def U16_UPPER8_def bit_ucast_iff
      bit_drop_bit_eq bit_push_bit_iff bit_and_iff bit_mask_iff bit_imp_le_length)

lemmas field_bits = bit_bit_field bit_get_bits bit_cut bit_or_iff bit_push_bit_iff bit_ucast_iff

lemma selector_8: "selector_word (GDT_SELECTOR 1 TI_GDT 0) = 8"
  by (simp add: selector_word_def GDT_SELECTOR_def TI_GDT_def)

lemma halves_join: "ucast (U32_LOWER16 (U64_LOWER32 h)) OR push_bit 16 (ucast (U32_UPPER16 (U64_LOWER32 h))) OR push_bit 32 (ucast (U64_UPPER32 h)) = (h :: u64)"
proof (rule bit_word_eqI)
  fix n assume "n < LENGTH(64)"
  then consider "n < 16" | "16 \<le> n" "n < 32" | "32 \<le> n" "n < 64" by fastforce
  then show "bit (ucast (U32_LOWER16 (U64_LOWER32 h)) OR push_bit 16 (ucast (U32_UPPER16 (U64_LOWER32 h))) OR push_bit 32 (ucast (U64_UPPER32 h)) :: u64) n = bit h n"
    by cases (auto simp: field_bits)
qed

lemma take_bit_ucast: "take_bit LENGTH('b) (ucast (w :: 'b::len word) :: u64) = ucast w"
  by (rule bit_eqI) (auto simp: bit_take_bit_iff bit_ucast_iff bit_imp_le_length)

lemmas take_bit_ucasts = take_bit_ucast[where 'b = 16, simplified] take_bit_ucast[where 'b = 32, simplified]

lemma get_bits_fields:
  "get_bits (x OR y) i n = get_bits x i n OR get_bits y i n"
  "i + n \<le> a \<or> a + k \<le> i \<Longrightarrow> get_bits (bit_field a k v) i n = 0"
  "a + k \<le> 64 \<Longrightarrow> get_bits (bit_field a k v) a k = take_bit k (ucast v)"
  by (rule bit_eqI, auto simp: field_bits bit_take_bit_iff bit_imp_le_length)+

lemma get_bits_inside:
  assumes "i \<le> a" "a + k \<le> i + n" "a + k \<le> 64"
  shows "get_bits (bit_field a k v) i n = push_bit (a - i) (take_bit k (ucast v))"
proof (rule bit_word_eqI)
  fix j assume j: "j < LENGTH(64)"
  have "i + j - a = j - (a - i)" "a \<le> i + j \<longleftrightarrow> a - i \<le> j" using assms(1) by arith+
  then show "bit (get_bits (bit_field a k v) i n) j = bit (push_bit (a - i) (take_bit k (ucast v)) :: u64) j"
    using assms j by (auto simp: field_bits bit_take_bit_iff)
qed

lemma gate_view_create:
  "gate_view_of (fst (idt_gate_words (create_idt_gate h t i))) (snd (idt_gate_words (create_idt_gate h t i))) =
     \<lparr>gv_present = True, gv_type = take_bit 4 (ucast t), gv_dpl = 0, gv_ist = take_bit 3 (ucast i), gv_selector = 8, gv_offset = h\<rparr>"
proof -
  let ?g = "create_idt_gate h t i"
  have sel: "ig_low_offset ?g = U32_LOWER16 (U64_LOWER32 h)" "ig_mid_offset ?g = U32_UPPER16 (U64_LOWER32 h)" "ig_high_offset ?g = U64_UPPER32 h"
    "ig_selector ?g = GDT_SELECTOR 1 TI_GDT 0" "ig_ist ?g = i" "ig_type ?g = t" "ig_dpl ?g = 0" "ig_p ?g = 1"
    by (simp_all add: create_idt_gate_def set_idt_gate_offset_def Let_def HYVEMIND_CS_SEGMENT_INDEX_def SEGMENT_PRESENT_def)
  have "get_bits (bit_field 40 4 t) 40 5 = take_bit 4 (ucast t)"
    by (simp add: get_bits_inside)
  then show ?thesis unfolding gate_view_of_def idt_gate_words_def sel selector_8
    by (simp add: get_bits_fields take_bit_ucasts halves_join bit_or_iff bit_bit_field)
qed

lemma tss_base_join:
  "ucast (U32_LOWER16 (U64_LOWER32 b)) OR push_bit 16 (ucast (U16_LOWER8 (U32_UPPER16 (U64_LOWER32 b))))
     OR push_bit 24 (ucast (U16_UPPER8 (U32_UPPER16 (U64_LOWER32 b)))) OR push_bit 32 (ucast (U64_UPPER32 b)) = (b :: u64)" (is "?l = b")
proof (rule bit_word_eqI)
  fix n assume "n < LENGTH(64)"
  then consider "n < 16" | "16 \<le> n" "n < 24" | "24 \<le> n" "n < 32" | "32 \<le> n" "n < 64" by fastforce
  then show "bit ?l n = bit b n" by cases (auto simp: field_bits)
qed

text \<open>The base that \<^verbatim>\<open>get_current_tss_base\<close> reads back is the one the descriptor was created with.\<close>

lemma tss_base_read: "get_base_from_tss_descriptor (create_tss_desc b dpl) = b"
  by (simp add: get_base_from_tss_descriptor_def create_tss_desc_def set_tss_desc_base_def Let_def U64_LSHIFT_def tss_base_join)

lemma system_view_create:
  "system_view_of (fst (tss_descriptor_words (create_tss_desc b dpl))) (snd (tss_descriptor_words (create_tss_desc b dpl))) =
     \<lparr>sv_present = True, sv_type = 9, sv_dpl = take_bit 2 (ucast dpl), sv_base = b, sv_limit = 4095\<rparr>"
proof -
  let ?d = "create_tss_desc b dpl"
  have sel: "td_base0 ?d = U32_LOWER16 (U64_LOWER32 b)" "td_base1 ?d = U16_LOWER8 (U32_UPPER16 (U64_LOWER32 b))"
    "td_base2 ?d = U16_UPPER8 (U32_UPPER16 (U64_LOWER32 b))" "td_base3 ?d = U64_UPPER32 b" "td_type ?d = 9" "td_dpl ?d = ucast dpl"
    "td_p ?d = 1" "td_limit0 ?d = 4095" "td_limit1 ?d = 0" "td_avl ?d = 0" "td_g ?d = 0"
    by (simp_all add: create_tss_desc_def set_tss_desc_base_def set_tss_desc_limit_def Let_def SEGMENT_PRESENT_def IA32E_TSS_def sizeof_tss_def)
  have bytes: "take_bit 8 (ucast (U16_LOWER8 x) :: u64) = ucast (U16_LOWER8 x)" "take_bit 8 (ucast (U16_UPPER8 x) :: u64) = ucast (U16_UPPER8 x)" for x
    by (rule bit_eqI, auto simp: field_bits bit_take_bit_iff dest: bit_imp_le_length)+
  have dpl: "ucast (ucast dpl :: u16) = (ucast dpl :: u64)" by (rule bit_eqI) (auto simp: bit_ucast_iff dest: bit_imp_le_length)
  show ?thesis unfolding system_view_of_def tss_descriptor_words_def sel
    by (simp add: get_bits_fields get_bits_inside take_bit_ucasts bytes bit_or_iff bit_bit_field tss_base_join[unfolded or.assoc] or.assoc dpl)
qed

section \<open>The interrupt table\<close>

lemma load64_other:
  assumes "i + 8 \<le> 2 ^ 63" "j + 8 \<le> 2 ^ 63" "i + 8 \<le> j \<or> j + 8 \<le> i"
  shows "load64 (store64 m (a + of_nat j) v) (a + of_nat i) = load64 m (a + of_nat i)"
  using load_bytes_store_other[of i 8 j "word_bytes v 8" m a] assms by (simp add: load64_def store64_def)

lemma load64_zero:
  assumes "i + 8 \<le> n" "n \<le> 2 ^ 63"
  shows "load64 (memset m a 0 n) (a + of_nat i) = 0"
proof -
  have "memset m a 0 n (a + of_nat i + of_nat k) = 0" if "k < 8" for k
  proof -
    have "a + of_nat (i + k) \<in> range_of a n" using that assms(1) unfolding range_of_def by (intro CollectI exI[of _ "i + k"]) simp
    then show ?thesis by (simp add: memset_apply add.assoc)
  qed
  then have "load_bytes (memset m a 0 n) (a + of_nat i) 8 = replicate 8 0" by (intro nth_equalityI) simp_all
  then show ?thesis by (simp add: load64_def eval_nat_numeral)
qed

lemma register_idt_entry:
  assumes "v < 256" "index < 256"
  shows "idt_entry (register_idt_handler m idt index t h i) idt v =
    (if v = index then \<lparr>gv_present = True, gv_type = take_bit 4 (ucast t), gv_dpl = 0, gv_ist = take_bit 3 (ucast i), gv_selector = 8, gv_offset = h\<rparr>
     else idt_entry m idt v)"
proof (cases "v = index")
  case True
  then show ?thesis using assms(2)
    by (simp add: idt_entry_def register_idt_handler_def write_idt_entry_def gate_view_create load64_other del: of_nat_add of_nat_mult)
next
  case False
  then have "16 * v + 16 \<le> 16 * index \<or> 16 * index + 16 \<le> 16 * v" by auto
  then show ?thesis using assms False
    by (auto simp: idt_entry_def register_idt_handler_def write_idt_entry_def load64_other simp del: of_nat_add of_nat_mult)
qed

text \<open>
  C36. The interrupt table after \<^verbatim>\<open>init_shared_idt\<close>, as the processor reads it: the divide error, the timer and the
  kick vector have present gates of ring 0 for exactly the given entry points in the code segment of the
  hypervisor, the interrupts on the first interrupt stack; no other vector is present.
\<close>

theorem init_shared_idt_gates:
  assumes "v < 256"
  shows "idt_entry (init_shared_idt m idt div_handler timer_handler kick_handler) idt v =
    (if v = 0 then \<lparr>gv_present = True, gv_type = 15, gv_dpl = 0, gv_ist = 0, gv_selector = 8, gv_offset = div_handler\<rparr>
     else if v = 0x30 then \<lparr>gv_present = True, gv_type = 14, gv_dpl = 0, gv_ist = 1, gv_selector = 8, gv_offset = timer_handler\<rparr>
     else if v = 0xf0 then \<lparr>gv_present = True, gv_type = 14, gv_dpl = 0, gv_ist = 1, gv_selector = 8, gv_offset = kick_handler\<rparr>
     else \<lparr>gv_present = False, gv_type = 0, gv_dpl = 0, gv_ist = 0, gv_selector = 0, gv_offset = 0\<rparr>)"
proof -
  have z: "idt_entry (memset m idt 0 4096) idt v = \<lparr>gv_present = False, gv_type = 0, gv_dpl = 0, gv_ist = 0, gv_selector = 0, gv_offset = 0\<rparr>"
    using assms by (simp add: idt_entry_def load64_zero gate_view_of_def get_bits_def del: of_nat_add of_nat_mult)
  show ?thesis using assms
    by (simp add: init_shared_idt_def Let_def register_idt_entry z IRQ_DIVIDE_ERROR_VECTOR_def IRQ_APIC_TIMER_VECTOR_def IRQ_CPU_KICK_VECTOR_def
        IA32E_TRAP_GATE_def IA32E_INTERRUPT_GATE_def)
qed

theorem init_shared_idt_gates_witness:
  "gv_offset (idt_entry (init_shared_idt (\<lambda>_. 0xAA) 0x5000 1 2 3) 0x5000 0x30) = 2"
  using init_shared_idt_gates[where v = "0x30" and m = "\<lambda>_. 0xAA" and idt = "0x5000" and div_handler = 1 and timer_handler = 2 and kick_handler = 3] by simp

section \<open>The task state segment\<close>

lemma store32_pair: "store32 (store32 m a (U64_LOWER32 v)) (a + 4) (U64_UPPER32 v) = store64 m a v"
proof (rule ext)
  fix x
  let ?d = "x - a"
  have lo: "ucast (drop_bit (8 * k) (U64_LOWER32 v)) = (ucast (drop_bit (8 * k) v) :: u8)" if "k < 4" for k
    using that by (intro bit_eqI) (auto simp: bit_ucast_iff bit_drop_bit_eq bit_cut)
  have hi: "ucast (drop_bit (8 * k) (U64_UPPER32 v)) = (ucast (drop_bit (8 * (k + 4)) v) :: u8)" if "k < 4" for k
    using that by (intro bit_eqI) (auto simp: bit_ucast_iff bit_drop_bit_eq bit_cut algebra_simps)
  have sub: "x - (a + 4) = ?d - 4" by simp
  consider "unat ?d < 4" | "4 \<le> unat ?d" by linarith
  then show "store32 (store32 m a (U64_LOWER32 v)) (a + 4) (U64_UPPER32 v) x = store64 m a v x"
  proof cases
    case 1
    then have "\<not> unat (?d - 4) < 4" by (simp add: unat_sub_if')
    then show ?thesis using 1 lo by (simp add: store32_def store64_def store_bytes_def sub word_bytes_def)
  next
    case 2
    then have "unat (?d - 4) = unat ?d - 4" by (simp add: unat_sub_small word_le_nat_alt)
    then show ?thesis using 2 hi[of "unat ?d - 4"] by (auto simp: store32_def store64_def store_bytes_def sub word_bytes_def)
  qed
qed

lemma allocate_tss_ist_cases:
  assumes "alloc_ok (tframes s)" "frame_count (tframes s) < 2 ^ 35" "k \<noteq> 0"
  obtains (none) "allocate_tss_ist s tss k nr = Inr (False, s)"
  | (some) f a where "allocate_tss_ist s tss k nr = Inr (True, s\<lparr>tframes := a,
        tmem := store64 (memset (tmem s) (frame_addr f) 0 (unat nr * 4096)) (tss + of_nat (ist_offset (k - 1))) (frame_addr f + nr * 4096 - 8)\<rparr>)"
      "area_free (tframes s) (unat nr) f" "allocates (tframes s) nr f a" "alloc_ok a" "frame_count a < 2 ^ 35"
  using assms(1,2)
proof (cases rule: get_pages_zeroed_cases[where nr = nr and m = "tmem s"])
  case none
  then show thesis using that(1) assms(3) by (simp add: allocate_tss_ist_def)
next
  case (some f a)
  have "frame_count a < 2 ^ 35" using some(3) assms(2) by (simp add: allocates_def frame_count_def)
  then show thesis using that(2)[of f a] some assms(3)
    by (simp add: allocate_tss_ist_def Let_def PAGE_SIZE_def store32_pair add.assoc[symmetric])
qed

lemma store64_keeps: "x \<notin> range_of a 8 \<Longrightarrow> store64 m a v x = m x"
  by (simp add: store64_def store_bytes_range)

lemma load64_cong: "(\<And>x. x \<in> range_of a 8 \<Longrightarrow> m x = m' x) \<Longrightarrow> load64 m a = load64 m' a"
  using load_bytes_cong[of a 8 m m'] by (simp add: load64_def)

lemma load64_frame:
  "range_of a 8 \<inter> range_of b 8 = {} \<Longrightarrow> load64 (store64 m b v) a = load64 m a"
  "range_of a 8 \<inter> range_of b n = {} \<Longrightarrow> load64 (memset m b c n) a = load64 m a"
  using load64_cong[of a "store64 m b v" m] load64_cong[of a "memset m b c n" m]
  by (auto simp: store64_keeps memset_apply disjoint_iff)

lemma sub_range: "i + n \<le> k \<Longrightarrow> range_of (a + of_nat i) n \<subseteq> range_of a k"
proof
  fix x assume "i + n \<le> k" "x \<in> range_of (a + of_nat i) n"
  then obtain j where "j < n" "x = a + of_nat (i + j)" unfolding range_of_def by (auto simp: add.assoc)
  with \<open>i + n \<le> k\<close> show "x \<in> range_of a k" unfolding range_of_def by (intro CollectI exI[of _ "i + j"]) simp
qed

text \<open>What a successful installation leaves: \<open>t\<close>, \<open>f\<close> and \<open>g\<close> are the frames of the segment and of its two stacks.\<close>

definition tss_installed :: "table_state \<Rightarrow> virt_addr \<Rightarrow> table_state \<Rightarrow> nat \<Rightarrow> nat \<Rightarrow> nat \<Rightarrow> bool" where
  "tss_installed s gdt s' t f g \<longleftrightarrow>
     tss_entry (tmem s') gdt 3 = \<lparr>sv_present = True, sv_type = 9, sv_dpl = 0, sv_base = frame_addr t, sv_limit = 4095\<rparr>
     \<and> ist_pointer (tmem s') (frame_addr t) 1 = frame_addr f + 4 * 4096 - 8
     \<and> ist_pointer (tmem s') (frame_addr t) 2 = frame_addr g + 4 * 4096 - 8
     \<and> area_free (tframes s) 1 t \<and> area_free (tframes s) 4 f \<and> area_free (tframes s) 4 g
     \<and> t \<notin> {f ..< f + 4} \<and> t \<notin> {g ..< g + 4} \<and> {f ..< f + 4} \<inter> {g ..< g + 4} = {}
     \<and> (\<forall>x. reserved (tframes s) x \<longrightarrow> x \<notin> range_of (gdt + 24) 16 \<longrightarrow> tmem s' x = tmem s x)"

lemma area_free_before: "allocates a nr f a' \<Longrightarrow> area_free a' n g \<Longrightarrow> area_free a n g \<and> {f ..< f + unat nr} \<inter> {g ..< g + n} = {}"
proof -
  assume a: "allocates a nr f a'" "area_free a' n g"
  have fc: "frame_count a' = frame_count a" using a(1) by (simp add: allocates_def frame_count_def)
  have "\<not> (f \<le> j \<and> j < f + unat nr) \<and> \<not> frame_used (bitmap a) j" if "g \<le> j" "j < g + n" for j
    using area_freeD[OF a(2) that] a(1) fc by (auto simp: allocates_def)
  note j = this
  have "x \<notin> {g ..< g + n}" if "x \<in> {f ..< f + unat nr}" for x using j[of x] that by auto
  then have "{f ..< f + unat nr} \<inter> {g ..< g + n} = {}" by blast
  moreover have "area_free a n g" using a(2) fc j by (auto simp: area_free_def)
  ultimately show ?thesis by blast
qed

lemma install_new_tss_stores:
  assumes "range_of gdt 40 \<inter> range_of t 4096 = {}" "range_of t 4096 \<inter> range_of f n = {}" "range_of t 4096 \<inter> range_of g n = {}"
    and "m1 = store64 (memset (memset m t 0 4096) f 0 n) (t + of_nat 36) S1" "m2 = store64 (memset m1 g 0 n) (t + of_nat 44) S2"
    and "m3 = store64 (store64 m2 (gdt + of_nat 24) lo) (gdt + of_nat 32) hi"
  shows "load64 m3 (gdt + of_nat 24) = lo" "load64 m3 (gdt + of_nat 32) = hi" "load64 m3 (t + of_nat 36) = S1" "load64 m3 (t + of_nat 44) = S2"
    "x \<notin> range_of t 4096 \<Longrightarrow> x \<notin> range_of f n \<Longrightarrow> x \<notin> range_of g n \<Longrightarrow> x \<notin> range_of (gdt + 24) 16 \<Longrightarrow> m3 x = m x"
proof -
  have gd: "range_of (gdt + of_nat 24) 8 \<subseteq> range_of gdt 40" "range_of (gdt + of_nat 32) 8 \<subseteq> range_of gdt 40"
    by (rule sub_range, simp)+
  have td: "range_of (t + of_nat 36) 8 \<subseteq> range_of t 4096" "range_of (t + of_nat 44) 8 \<subseteq> range_of t 4096"
    by (rule sub_range, simp)+
  have two: "load64 (store64 k (a + of_nat j) v) (a + of_nat i) = load64 k (a + of_nat i)" if "i + 8 \<le> j \<or> j + 8 \<le> i" "i < 100" "j < 100" for k a i j v
    using that by (intro load64_other) auto
  show "load64 m3 (gdt + of_nat 24) = lo" "load64 m3 (gdt + of_nat 32) = hi" unfolding assms(6)
    using two[of 24 32 "store64 m2 (gdt + of_nat 24) lo" gdt hi] by (simp_all del: of_nat_numeral)
  have out: "load64 m3 a = load64 m2 a" if "range_of a 8 \<subseteq> range_of t 4096" for a
    unfolding assms(6) using that gd assms(1) by (subst load64_frame(1), blast)+ simp
  show "load64 m3 (t + of_nat 44) = S2" unfolding out[OF td(2)] assms(5) by (simp del: of_nat_numeral)
  have "load64 m2 (t + of_nat 36) = load64 (memset m1 g 0 n) (t + of_nat 36)" unfolding assms(5) by (subst two) simp_all
  also have "\<dots> = load64 m1 (t + of_nat 36)" using td(1) assms(3) by (intro load64_frame(2)) blast
  also have "\<dots> = S1" unfolding assms(4) by (simp del: of_nat_numeral)
  finally show "load64 m3 (t + of_nat 36) = S1" unfolding out[OF td(1)] .
  assume x: "x \<notin> range_of t 4096" "x \<notin> range_of f n" "x \<notin> range_of g n" "x \<notin> range_of (gdt + 24) 16"
  have "range_of (gdt + of_nat 24) 8 \<subseteq> range_of (gdt + 24) 16" "range_of (gdt + of_nat 32) 8 \<subseteq> range_of (gdt + 24) 16"
    using sub_range[of 0 8 16 "gdt + 24"] sub_range[of 8 8 16 "gdt + 24"] by (simp_all add: add.assoc)
  then show "m3 x = m x" using x td unfolding assms(4-6)
    by (subst store64_keeps, blast)+ (simp add: memset_apply, (subst store64_keeps, blast)+, simp add: memset_apply)
qed

lemma memset_twice: "memset (memset m a c n) a c n = memset m a c n"
  by (rule ext) (simp add: memset_apply)

text \<open>The memory in terms of \<open>install_new_tss_stores\<close>.\<close>

lemma tss_installedI:
  assumes "frame_count (tframes s) < 2 ^ 35" "\<forall>x \<in> range_of gdt 40. reserved (tframes s) x"
    and t: "area_free (tframes s) 1 t" "allocates (tframes s) 1 t a1"
    and f: "area_free a1 4 f" "allocates a1 4 f a2" and g: "area_free a2 4 g"
    and m: "m1 = store64 (memset (memset (tmem s) (frame_addr t) 0 4096) (frame_addr f) 0 (4 * 4096)) (frame_addr t + of_nat 36) (frame_addr f + 4 * 4096 - 8)"
      "m2 = store64 (memset m1 (frame_addr g) 0 (4 * 4096)) (frame_addr t + of_nat 44) (frame_addr g + 4 * 4096 - 8)"
      "tmem s' = store64 (store64 m2 (gdt + of_nat 24) (fst (tss_descriptor_words (create_tss_desc (frame_addr t) 0)))) (gdt + of_nat 32)
         (snd (tss_descriptor_words (create_tss_desc (frame_addr t) 0)))"
  shows "tss_installed s gdt s' t f g"
proof -
  have af: "area_free (tframes s) 4 f" "t \<notin> {f ..< f + 4}" using area_free_before[OF t(2) f(1)] by auto
  have ag: "area_free a1 4 g" "{f ..< f + 4} \<inter> {g ..< g + 4} = {}" using area_free_before[OF f(2) g] by auto
  then have ag': "area_free (tframes s) 4 g" "t \<notin> {g ..< g + 4}" using area_free_before[OF t(2) ag(1)] by auto
  have rt: "reserved a1 x" if "x \<in> range_of (frame_addr t) 4096" for x
    using allocated_reserved[OF t(2) assms(1), of x] t(1) that by simp
  have r: "range_of gdt 40 \<inter> range_of (frame_addr t) 4096 = {}" "range_of (frame_addr t) 4096 \<inter> range_of (frame_addr f) (4 * 4096) = {}"
    "range_of (frame_addr t) 4096 \<inter> range_of (frame_addr g) (4 * 4096) = {}"
    using assms(2) reserved_not_allocated[OF _ t(1)] rt reserved_not_allocated[OF _ f(1)] reserved_not_allocated[OF _ g] reserved_mono[OF f(2)]
    by fastforce+
  note st = install_new_tss_stores[OF r m]
  have "tmem s' x = tmem s x" if "reserved (tframes s) x" "x \<notin> range_of (gdt + 24) 16" for x
    using that reserved_not_allocated[OF that(1) t(1)] reserved_not_allocated[OF that(1) af(1)] reserved_not_allocated[OF that(1) ag'(1)]
    by (intro st(5)) simp_all
  moreover have "tss_entry (tmem s') gdt 3 = \<lparr>sv_present = True, sv_type = 9, sv_dpl = 0, sv_base = frame_addr t, sv_limit = 4095\<rparr>"
    using st(1,2) system_view_create[of "frame_addr t" 0] by (simp add: tss_entry_def)
  moreover have "ist_pointer (tmem s') (frame_addr t) 1 = frame_addr f + 4 * 4096 - 8" "ist_pointer (tmem s') (frame_addr t) 2 = frame_addr g + 4 * 4096 - 8"
    using st(3,4) by (simp_all add: ist_pointer_def ist_offset_def)
  ultimately show ?thesis using t(1) af ag(2) ag' unfolding tss_installed_def by blast
qed

text \<open>
  C35. \<^verbatim>\<open>install_new_tss\<close> never faults. If it succeeds, the task register entry of the table, as the processor reads
  it, describes a present segment of one page, whose first two interrupt stack pointers are the last word of
  two areas of four pages; the three areas were free and are disjoint, and of the memory in use before only
  the entry itself is changed.
\<close>

theorem install_new_tss_ready:
  assumes "alloc_ok (tframes s)" "frame_count (tframes s) < 2 ^ 35" "\<forall>x \<in> range_of gdt 40. reserved (tframes s) x"
  shows "\<exists>ok s'. install_new_tss s gdt = Inr (ok, s') \<and> (ok \<longrightarrow> (\<exists>t f g. tss_installed s gdt s' t f g))"
  using assms(1,2)
proof (cases rule: get_pages_zeroed_cases[where nr = 1 and m = "tmem s"])
  case none
  then show ?thesis by (auto simp: install_new_tss_def get_page_zeroed_pages)
next
  case (some t a1)
  let ?t = "frame_addr t" and ?m1 = "memset (memset (tmem s) (frame_addr t) 0 4096) (frame_addr t) 0 4096"
  let ?s1 = "s\<lparr>tframes := a1, tmem := ?m1\<rparr>"
  have fc1: "frame_count a1 < 2 ^ 35" using some(3) assms(2) by (simp add: allocates_def frame_count_def)
  have run1: "install_new_tss s gdt = andThen (andThen (allocate_tss_ist ?s1 ?t 1 4) (\<lambda>(ok, s).
        if \<not> ok then Inr (False, s) else andThen (allocate_tss_ist s ?t 2 4) (\<lambda>(ok, s). Inr (ok, s))))
      (\<lambda>(ok, s). if \<not> ok then Inr (False, s) else let tss_desc = create_tss_desc ?t 0
        in Inr (True, s\<lparr>tmem := write_gdt_entry (tmem s) gdt (tss_descriptor_words tss_desc) (unat HYVEMIND_TSS_INDEX) SYSTEM_SEGMENT_DESC\<rparr>))"
    using some(1) by (simp add: install_new_tss_def get_page_zeroed_pages init_default_tss_def TSS_IST_DEFAULT_SIZE_PAGES_def sizeof_tss_def
        Let_def[of "s\<lparr>tframes := a1, tmem := memset (tmem s) ?t 0 4096\<rparr>"] Let_def[of ?s1])
  have "alloc_ok (tframes ?s1)" "frame_count (tframes ?s1) < 2 ^ 35" "1 \<noteq> (0 :: nat)" using some(4) fc1 by simp_all
  then show ?thesis
  proof (cases rule: allocate_tss_ist_cases[where k = 1 and tss = ?t and nr = 4])
    case none
    then show ?thesis using run1 by auto
  next
    case st1: (some f a2)
    let ?m2 = "store64 (memset ?m1 (frame_addr f) 0 (unat (4 :: u64) * 4096)) (?t + of_nat (ist_offset (1 - 1))) (frame_addr f + 4 * 4096 - 8)"
    let ?s2 = "?s1\<lparr>tframes := a2, tmem := ?m2\<rparr>"
    have "alloc_ok (tframes ?s2)" "frame_count (tframes ?s2) < 2 ^ 35" "2 \<noteq> (0 :: nat)" using st1(4,5) by simp_all
    then show ?thesis
    proof (cases rule: allocate_tss_ist_cases[where k = 2 and tss = ?t and nr = 4])
      case none
      then show ?thesis using run1 st1(1) by auto
    next
      case st2: (some g a3)
      let ?m3 = "store64 (memset ?m2 (frame_addr g) 0 (unat (4 :: u64) * 4096)) (?t + of_nat (ist_offset (2 - 1))) (frame_addr g + 4 * 4096 - 8)"
      let ?s3 = "?s2\<lparr>tframes := a3, tmem := ?m3\<rparr>"
      let ?d = "tss_descriptor_words (create_tss_desc ?t 0)"
      let ?s4 = "?s3\<lparr>tmem := write_gdt_entry ?m3 gdt ?d 3 SYSTEM_SEGMENT_DESC\<rparr>"
      have run: "install_new_tss s gdt = Inr (True, ?s4)" using run1 st1(1) st2(1) by (simp add: HYVEMIND_TSS_INDEX_def)
      have "tss_installed s gdt ?s4 t f g"
        by (rule tss_installedI[OF assms(2,3) _ some(3) _ _ _ refl refl])
          (use some(2) st1(2,3) st2(2) in \<open>simp_all add: write_gdt_entry_def memset_twice ist_offset_def\<close>)
      then show ?thesis using run by blast
    qed
  qed
qed

theorem install_new_tss_ready_witness:
  "\<exists>ok s'. install_new_tss \<lparr>tmem = \<lambda>_. 0, tframes = small_allocator\<lparr>allocatable_frames := 64\<rparr>\<rparr> 0x1000 = Inr (ok, s')
     \<and> (ok \<longrightarrow> sv_present (tss_entry (tmem s') 0x1000 3))"
proof -
  let ?s = "\<lparr>tmem = \<lambda>_. 0, tframes = small_allocator\<lparr>allocatable_frames := 64\<rparr>\<rparr>"
  have fc: "frame_count (tframes ?s) < 2 ^ 35" by (simp add: frame_count_def bitmap_size_def small_allocator_def)
  moreover have "reserved (tframes ?s) x" if "x \<in> range_of 0x1000 40" for x
  proof -
    obtain i where "i < 40" "x = 0x1000 + of_nat i" using \<open>x \<in> range_of 0x1000 40\<close> unfolding range_of_def by blast
    then have "unat x = 0x1000 + i" by (simp add: unat_offset[of _ 40] fits_def)
    with \<open>i < 40\<close> fc show ?thesis by (intro reserved_low) auto
  qed
  moreover have "alloc_ok (tframes ?s)" by (simp add: alloc_ok_def small_allocator_def bitmap_size_def)
  ultimately show ?thesis using install_new_tss_ready[of ?s "0x1000"] unfolding tss_installed_def by auto
qed

text \<open>The table that the task state segment is entered into.\<close>

lemma init_new_gdt_entries:
  assumes "i < 512"
  shows "load64 (init_new_gdt m gdt) (gdt + of_nat (8 * i)) =
    (if i = 1 then 0x0020990000000000 else if i = 2 then 0x0000960000000000 else 0)"
proof -
  have d: "segment_descriptor_word hyvemind_cs_segment_desc = 0x0020990000000000" "segment_descriptor_word hyvemind_data_segment_desc = 0x0000960000000000"
    by code_simp+
  have two: "load64 (store64 k (a + of_nat (8 * j)) v) (a + of_nat (8 * i)) = (if i = j then v else load64 k (a + of_nat (8 * i)))"
    if "j < 512" for k a j v
  proof (cases "i = j")
    case False
    then have "8 * i + 8 \<le> 8 * j \<or> 8 * j + 8 \<le> 8 * i" by arith
    then show ?thesis using load64_other[of "8 * i" "8 * j" k a v] assms that False by (simp del: of_nat_mult)
  qed simp
  have e: "init_new_gdt m gdt = store64 (store64 (memset m gdt 0 4096) (gdt + of_nat (8 * 1)) 0x0020990000000000) (gdt + of_nat (8 * 2)) 0x0000960000000000"
    by (simp add: init_new_gdt_def write_gdt_entry_def Let_def d HYVEMIND_CS_SEGMENT_INDEX_def HYVEMIND_DATA_SEGMENT_INDEX_def)
  have "1 < (512 :: nat)" "2 < (512 :: nat)" by simp_all
  then show ?thesis unfolding e two[OF \<open>2 < 512\<close>] two[OF \<open>1 < 512\<close>] using load64_zero[of "8 * i" 4096 m gdt] assms by simp
qed

end
