(* ===== verification/Linux_Loader.thy ===== *)
theory Linux_Loader
  imports Descriptors Vm_Memory
begin

text \<open>
  Loading a Linux kernel into a VM (\<^verbatim>\<open>arch/x64/loader/linux_loader.c\<close>, \<^verbatim>\<open>include/loader/linux.h\<close>): the checks on the setup
  header of the image, and the placement of the kernel, the initial file system, the descriptor table, the
  command line and the boot parameters in guest memory. Packed structures are bytes in memory at their
  offsets; the header is read from memory where the code reads it.
\<close>

section \<open>The setup header\<close>

definition LINUX_GUEST_DEFAULT_GDT_GPADDR :: gpaddr where
  "LINUX_GUEST_DEFAULT_GDT_GPADDR = 0x10000"

definition LINUX_GUEST_DEFAULT_COMMAND_LINE_GPADDR :: gpaddr where
  "LINUX_GUEST_DEFAULT_COMMAND_LINE_GPADDR = 0x20000"

definition LINUX_GUEST_DEFAULT_ZERO_PAGE_GPADDR :: gpaddr where
  "LINUX_GUEST_DEFAULT_ZERO_PAGE_GPADDR = 0x30000"

definition LINUX_BOOT_SECTOR_SIZE :: u32 where
  "LINUX_BOOT_SECTOR_SIZE = 512"

definition SETUP_HEADER_OFFSET :: u64 where
  "SETUP_HEADER_OFFSET = 0x1F1"

definition SETUP_HEADER_MAGIC_NUMBER :: u16 where
  "SETUP_HEADER_MAGIC_NUMBER = 0xAA55"

definition SETUP_HEADER_MAGIC_SIG_RAW :: u32 where
  "SETUP_HEADER_MAGIC_SIG_RAW = 0x53726448"

definition SETUP_HEADER_MAGIC_SIG_OFFSET :: u64 where
  "SETUP_HEADER_MAGIC_SIG_OFFSET = 0x202"

definition SETUP_HEADER_JMP_OPCODE :: u16 where
  "SETUP_HEADER_JMP_OPCODE = 0xEB"

definition LINUX_BOOT_MIN_PROTOCOL_VERSION :: u16 where
  "LINUX_BOOT_MIN_PROTOCOL_VERSION = 0x020F"

definition BZIMAGE_MIN_BOOT_PROTOCOL_VERSION :: u16 where
  "BZIMAGE_MIN_BOOT_PROTOCOL_VERSION = 0x0200"

definition SETUP_LOADFLAGS_LOADED_HIGH :: u8 where
  "SETUP_LOADFLAGS_LOADED_HIGH = 1"

definition SETUP_LOADFLAGS_CAN_USE_HEAP :: u8 where
  "SETUP_LOADFLAGS_CAN_USE_HEAP = push_bit 7 1"

definition LINUX_E820_TYPE_RAM :: u32 where
  "LINUX_E820_TYPE_RAM = 1"

record setup_header =
  sh_setup_sects :: u8
  sh_root_flags :: u16
  sh_syssize :: u32
  sh_ram_size :: u16
  sh_vid_mode :: u16
  sh_root_dev :: u16
  sh_boot_flag :: u16
  sh_jump :: u16
  sh_header :: u32
  sh_version :: u16
  sh_realmode_swtch :: u32
  sh_start_sys_seg :: u16
  sh_kernel_version :: u16
  sh_type_of_loader :: u8
  sh_loadflags :: u8
  sh_setup_move_size :: u16
  sh_code32_start :: u32
  sh_ramdisk_image :: u32
  sh_ramdisk_size :: u32
  sh_bootsect_kludge :: u32
  sh_heap_end_ptr :: u16
  sh_ext_loader_ver :: u8
  sh_ext_loader_type :: u8
  sh_cmd_line_ptr :: u32
  sh_initrd_addr_max :: u32
  sh_kernel_alignment :: u32
  sh_relocatable_kernel :: u8
  sh_min_alignment :: u8
  sh_xloadflags :: u16
  sh_cmdline_size :: u32
  sh_hardware_subarch :: u32
  sh_hardware_subarch_data :: u64
  sh_payload_offset :: u32
  sh_payload_length :: u32
  sh_setup_data :: u64
  sh_pref_address :: u64
  sh_init_size :: u32
  sh_handover_offset :: u32
  sh_kernel_info_offset :: u32

definition sizeof_setup_header :: nat where
  "sizeof_setup_header = 123"

definition read_setup_header :: "mem \<Rightarrow> u64 \<Rightarrow> setup_header" where
  "read_setup_header m a =
     \<lparr>sh_setup_sects = load8 m a, sh_root_flags = load16 m (a + 1), sh_syssize = load32 m (a + 3), sh_ram_size = load16 m (a + 7),
      sh_vid_mode = load16 m (a + 9), sh_root_dev = load16 m (a + 11), sh_boot_flag = load16 m (a + 13), sh_jump = load16 m (a + 15),
      sh_header = load32 m (a + 17), sh_version = load16 m (a + 21), sh_realmode_swtch = load32 m (a + 23), sh_start_sys_seg = load16 m (a + 27),
      sh_kernel_version = load16 m (a + 29), sh_type_of_loader = load8 m (a + 31), sh_loadflags = load8 m (a + 32), sh_setup_move_size = load16 m (a + 33),
      sh_code32_start = load32 m (a + 35), sh_ramdisk_image = load32 m (a + 39), sh_ramdisk_size = load32 m (a + 43), sh_bootsect_kludge = load32 m (a + 47),
      sh_heap_end_ptr = load16 m (a + 51), sh_ext_loader_ver = load8 m (a + 53), sh_ext_loader_type = load8 m (a + 54), sh_cmd_line_ptr = load32 m (a + 55),
      sh_initrd_addr_max = load32 m (a + 59), sh_kernel_alignment = load32 m (a + 63), sh_relocatable_kernel = load8 m (a + 67), sh_min_alignment = load8 m (a + 68),
      sh_xloadflags = load16 m (a + 69), sh_cmdline_size = load32 m (a + 71), sh_hardware_subarch = load32 m (a + 75), sh_hardware_subarch_data = load64 m (a + 79),
      sh_payload_offset = load32 m (a + 87), sh_payload_length = load32 m (a + 91), sh_setup_data = load64 m (a + 95), sh_pref_address = load64 m (a + 103),
      sh_init_size = load32 m (a + 111), sh_handover_offset = load32 m (a + 115), sh_kernel_info_offset = load32 m (a + 119)\<rparr>"

text \<open>In a function of type \<^verbatim>\<open>bool\<close> the result -1 is converted to true.\<close>

definition valid_linux_setup_header :: "setup_header \<Rightarrow> bool" where
  "valid_linux_setup_header hdr =
     (if sh_boot_flag hdr \<noteq> SETUP_HEADER_MAGIC_NUMBER then False
      else if sh_header hdr \<noteq> SETUP_HEADER_MAGIC_SIG_RAW then False
      else if (sh_jump hdr AND 0xFF) \<noteq> SETUP_HEADER_JMP_OPCODE then False
      else
        let declared_setup_hdr_end = SETUP_HEADER_MAGIC_SIG_OFFSET + ucast (drop_bit 8 (sh_jump hdr) AND 0xFF);
            expected_setup_hdr_end = SETUP_HEADER_OFFSET + of_nat sizeof_setup_header
        in if declared_setup_hdr_end \<noteq> expected_setup_hdr_end then (-1 :: int) \<noteq> 0 else True)"

definition verify_bzImage :: "setup_header \<Rightarrow> bool" where
  "verify_bzImage hdr =
     (if sh_version hdr < BZIMAGE_MIN_BOOT_PROTOCOL_VERSION then False
      else if (sh_loadflags hdr AND SETUP_LOADFLAGS_LOADED_HIGH) = 0 then False
      else True)"

section \<open>Loading\<close>

record linux_load_info =
  pm_kernel :: gpaddr
  pm_kernel_size :: u64
  pm_kernel_entry_point :: gpaddr
  gdt_page :: gpaddr
  zero_page :: gpaddr
  command_line_string :: gpaddr

definition boot_cs_desc :: segment_descriptor where
  "boot_cs_desc =
     \<lparr>sd_limit0 = 0xFFFF, sd_low_base = 0, sd_mid_base = 0, sd_type = CODE_EXECUTE_READ_ACCESSED, sd_s = desc_type_bit CODE_DATA_SEGMENT_DESC,
      sd_dpl = 0, sd_p = SEGMENT_PRESENT, sd_limit1 = 0xF, sd_avl = 0, sd_l = 0, sd_db = 1, sd_g = 1, sd_high_base = 0\<rparr>"

definition boot_ds_desc :: segment_descriptor where
  "boot_ds_desc =
     \<lparr>sd_limit0 = 0xFFFF, sd_low_base = 0, sd_mid_base = 0, sd_type = DATA_RW_ACCESSED, sd_s = desc_type_bit CODE_DATA_SEGMENT_DESC,
      sd_dpl = 0, sd_p = SEGMENT_PRESENT, sd_limit1 = 0xF, sd_avl = 0, sd_l = 0, sd_db = 1, sd_g = 1, sd_high_base = 0\<rparr>"

definition fill_boot_gdt :: "mem \<Rightarrow> virt_addr \<Rightarrow> mem" where
  "fill_boot_gdt m gdt =
     write_gdt_entry (write_gdt_entry m gdt (segment_descriptor_word boot_cs_desc, 0) 2 CODE_DATA_SEGMENT_DESC) gdt
       (segment_descriptor_word boot_ds_desc, 0) 3 CODE_DATA_SEGMENT_DESC"

text \<open>A zeroed page is filled, copied into the VM and released; \<open>False\<close> is the result -1.\<close>

definition copy_new_page :: "table_state \<Rightarrow> vm_physical_memory \<Rightarrow> gpaddr \<Rightarrow> (mem \<Rightarrow> virt_addr \<Rightarrow> mem) \<Rightarrow> (bool \<times> table_state) run" where
  "copy_new_page s pm load_addr fill =
     andThen (get_page_zeroed (tframes s) (tmem s)) (\<lambda>(r, a, m).
       case r of
         None \<Rightarrow> Inr (False, s\<lparr>tframes := a, tmem := m\<rparr>)
       | Some page \<Rightarrow>
           let (ok, m) = copy_to_vm_gpaddr (fill m page) pm load_addr page PAGE_SIZE
           in andThen (free_page a page) (\<lambda>a. Inr (ok, s\<lparr>tframes := a, tmem := m\<rparr>)))"

definition load_32bit_boot_gdt :: "table_state \<Rightarrow> vm_physical_memory \<Rightarrow> gpaddr \<Rightarrow> (bool \<times> table_state) run" where
  "load_32bit_boot_gdt s pm load_addr = copy_new_page s pm load_addr fill_boot_gdt"

text \<open>The boot parameters: a copy of the setup header with some members replaced, and the memory map of one entry.\<close>

definition fill_boot_params :: "virt_addr \<Rightarrow> gpaddr \<Rightarrow> u64 \<Rightarrow> vm_physical_memory \<Rightarrow> mem \<Rightarrow> virt_addr \<Rightarrow> mem" where
  "fill_boot_params setup_header initramfs_gpaddr initramfs_size pm m boot_params =
     (let m = memcpy m (boot_params + 0x1F1) setup_header sizeof_setup_header;
          m = store8 m (boot_params + 0x210) 0xFF;
          m = store8 m (boot_params + 0x211) (load8 m (boot_params + 0x211) AND NOT SETUP_LOADFLAGS_CAN_USE_HEAP);
          m = store32 m (boot_params + 0x228) (ucast LINUX_GUEST_DEFAULT_COMMAND_LINE_GPADDR);
          m = store32 m (boot_params + 0x218) (ucast initramfs_gpaddr);
          m = store32 m (boot_params + 0x21C) (ucast initramfs_size);
          m = store8 m (boot_params + 0x1E8) 1;
          m = store64 m (boot_params + 0x2D0) 0;
          m = store64 m (boot_params + 0x2D8) (get_vm_memory_size pm)
      in store32 m (boot_params + 0x2E0) LINUX_E820_TYPE_RAM)"

text \<open>
  The checks on the image. The result is the offset of the protected mode kernel in the image, its declared
  size, its load address and the size that has to fit.
\<close>

definition check_image :: "mem \<Rightarrow> file_info \<Rightarrow> (u32 \<times> u64 \<times> gpaddr \<times> u64) option" where
  "check_image m bzImage =
     (if fi_size bzImage < SETUP_HEADER_OFFSET + of_nat sizeof_setup_header then None
      else
        let hdr = read_setup_header m (fi_addr bzImage + SETUP_HEADER_OFFSET) in
        if \<not> valid_linux_setup_header hdr then None
        else if \<not> verify_bzImage hdr then None
        else if sh_version hdr < LINUX_BOOT_MIN_PROTOCOL_VERSION then None
        else
          let setup_sects = (if sh_setup_sects hdr = 0 then 4 else sh_setup_sects hdr);
              pm_kernel_offset = (ucast setup_sects + 1) * LINUX_BOOT_SECTOR_SIZE
          in if ucast pm_kernel_offset \<ge> fi_size bzImage then None
             else
               let available_pm_kernel_size = fi_size bzImage - ucast pm_kernel_offset;
                   declared_pm_kernel_size = push_bit 4 (ucast (sh_syssize hdr))
               in if declared_pm_kernel_size = 0 then None
                  else if declared_pm_kernel_size > available_pm_kernel_size then None
                  else if sh_code32_start hdr = 0 then None
                  else Some (pm_kernel_offset, declared_pm_kernel_size, ucast (sh_code32_start hdr),
                             MAX_c declared_pm_kernel_size (ucast (sh_init_size hdr))))"

definition initramfs_address :: "setup_header \<Rightarrow> u64 \<Rightarrow> gpaddr" where
  "initramfs_address hdr effective_pm_kernel_load_size =
     align_forward (sh_pref_address hdr + effective_pm_kernel_load_size + 1) (ucast PAGE_SIZE)"

text \<open>The kernel and the initial file system; the result is the address of the latter, or \<open>None\<close> on an error.\<close>

definition place_images :: "table_state \<Rightarrow> vm_physical_memory \<Rightarrow> linux_boot_info \<Rightarrow> u32 \<times> u64 \<times> gpaddr \<times> u64 \<Rightarrow> gpaddr option \<times> table_state" where
  "place_images s pm linux = (\<lambda>(pm_kernel_offset, declared_pm_kernel_size, gpaddr_pm_kernel_load_addr, effective_pm_kernel_load_size).
     if \<not> vm_memory_contig_range_fits pm gpaddr_pm_kernel_load_addr effective_pm_kernel_load_size then (None, s)
     else
       let (ok, m) = copy_to_vm_gpaddr (tmem s) pm gpaddr_pm_kernel_load_addr (fi_addr (lb_bzImage linux) + ucast pm_kernel_offset) declared_pm_kernel_size;
           s = s\<lparr>tmem := m\<rparr>
       in if \<not> ok then (None, s)
          else
            let initramfs_gpaddr = initramfs_address (read_setup_header (tmem s) (fi_addr (lb_bzImage linux) + SETUP_HEADER_OFFSET))
                  effective_pm_kernel_load_size
            in if \<not> vm_memory_contig_range_fits pm initramfs_gpaddr (fi_size (lb_initramfs linux)) then (None, s)
               else
                 let (ok, m) = copy_to_vm_gpaddr (tmem s) pm initramfs_gpaddr (fi_addr (lb_initramfs linux)) (fi_size (lb_initramfs linux))
                 in (if ok then Some initramfs_gpaddr else None, s\<lparr>tmem := m\<rparr>))"

text \<open>
  The descriptor table, the command line, which is stored at \<open>command_line\<close>, and the boot parameters; the result is
  the return code.
\<close>

definition place_boot_data :: "table_state \<Rightarrow> vm_physical_memory \<Rightarrow> linux_boot_info \<Rightarrow> virt_addr \<Rightarrow> gpaddr \<Rightarrow> (int \<times> table_state) run" where
  "place_boot_data s pm linux command_line initramfs_gpaddr =
     (let setup_header = fi_addr (lb_bzImage linux) + SETUP_HEADER_OFFSET in
      andThen (load_32bit_boot_gdt s pm LINUX_GUEST_DEFAULT_GDT_GPADDR) (\<lambda>(ok, s).
      if \<not> ok then Inr (-1, s)
      else
        andThen (name_ptr (lb_cmdline linux)) (\<lambda>text.
        andThen (strlen (cstring text)) (\<lambda>n.
        let command_line_len = (of_nat n :: u32) in
        if command_line_len > sh_cmdline_size (read_setup_header (tmem s) setup_header) then Inr (1, s)
        else
          let (ok, m) = copy_to_vm_gpaddr (tmem s) pm LINUX_GUEST_DEFAULT_COMMAND_LINE_GPADDR command_line (ucast (command_line_len + 1));
              s = s\<lparr>tmem := m\<rparr>
          in if \<not> ok then Inr (-1, s)
             else
               andThen (copy_new_page s pm LINUX_GUEST_DEFAULT_ZERO_PAGE_GPADDR
                          (fill_boot_params setup_header initramfs_gpaddr (fi_size (lb_initramfs linux)) pm)) (\<lambda>(ok, s).
                 Inr (if ok then 0 else -1, s))))))"

text \<open>The return code is 0 on success. The load information is only written on success.\<close>

definition load_linux_32bit_direct_boot_for_vm ::
  "table_state \<Rightarrow> vm_physical_memory \<Rightarrow> vm_config \<Rightarrow> virt_addr \<Rightarrow> linux_load_info \<Rightarrow> (int \<times> linux_load_info \<times> table_state) run" where
  "load_linux_32bit_direct_boot_for_vm s pm config command_line load_info =
     (let linux = boot_linux config in
      case check_image (tmem s) (lb_bzImage linux) of
        None \<Rightarrow> Inr (-1, load_info, s)
      | Some img \<Rightarrow>
          let (_, declared_pm_kernel_size, gpaddr_pm_kernel_load_addr, _) = img;
              (initramfs, s) = place_images s pm linux img
          in case initramfs of
               None \<Rightarrow> Inr (-1, load_info, s)
             | Some initramfs_gpaddr \<Rightarrow>
                 andThen (place_boot_data s pm linux command_line initramfs_gpaddr) (\<lambda>(ret, s).
                 if ret \<noteq> 0 then Inr (ret, load_info, s)
                 else
                   Inr (0, \<lparr>pm_kernel = gpaddr_pm_kernel_load_addr, pm_kernel_size = declared_pm_kernel_size,
                            pm_kernel_entry_point = gpaddr_pm_kernel_load_addr, gdt_page = LINUX_GUEST_DEFAULT_GDT_GPADDR,
                            zero_page = LINUX_GUEST_DEFAULT_ZERO_PAGE_GPADDR,
                            command_line_string = LINUX_GUEST_DEFAULT_COMMAND_LINE_GPADDR\<rparr>, s)))"

section \<open>Guest memory\<close>

abbreviation gv :: "vm_physical_memory \<Rightarrow> gpaddr \<Rightarrow> virt_addr" where
  "gv pm g \<equiv> phys_to_virt (pm_start pm + g)"

text \<open>The memory of the VM is in use, and so is every area that is copied from, which lies outside the VM.\<close>

definition load_env :: "table_state \<Rightarrow> vm_physical_memory \<Rightarrow> bool" where
  "load_env s pm \<longleftrightarrow> alloc_ok (tframes s) \<and> frame_count (tframes s) < 2 ^ 35 \<and> pm_start pm \<le> pm_end pm \<and> unat (pm_end pm) < 2 ^ 47
     \<and> (\<forall>x \<in> vm_bytes pm. reserved (tframes s) x)"

definition source_area :: "table_state \<Rightarrow> vm_physical_memory \<Rightarrow> u64 \<Rightarrow> nat \<Rightarrow> bool" where
  "source_area s pm a n \<longleftrightarrow> fits a n \<and> (\<forall>x \<in> range_of a n. reserved (tframes s) x \<and> x \<notin> vm_bytes pm)"

lemma copy_step:
  assumes "load_env s pm" "fits a (unat n)" "range_of a (unat n) \<inter> vm_bytes pm = {}"
  shows "copy_to_vm_gpaddr m pm g a n =
    (if vm_memory_contig_range_fits pm g n then (True, copied m (gv pm g) a (unat n)) else (False, m))"
proof (cases "vm_memory_contig_range_fits pm g n")
  case True
  have "pm_start pm \<le> pm_end pm" "unat (pm_end pm) < 2 ^ 47" using assms(1) by (simp_all add: load_env_def)
  note t = copy_target[OF True this]
  have "memcpy m (gv pm g) a (unat n) = copied m (gv pm g) a (unat n)" using memcpy_correct[OF t(1) assms(2)] assms(3) t(2) by blast
  then show ?thesis using True by (simp add: copy_to_vm_gpaddr_def Let_def)
qed (simp add: copy_to_vm_gpaddr_def)

text \<open>Two areas of a VM.\<close>

lemma gv_range:
  assumes "load_env s pm" "vm_memory_contig_range_fits pm g n" "x \<in> range_of (gv pm g) (unat n)"
  shows "x \<in> vm_bytes pm" "\<exists>i < unat n. unat (virt_to_phys x) = unat (pm_start pm) + unat g + i \<and> x = gv pm g + of_nat i"
proof -
  have pm: "pm_start pm \<le> pm_end pm" "unat (pm_end pm) < 2 ^ 47" using assms(1) by (simp_all add: load_env_def)
  show "x \<in> vm_bytes pm" using copy_target(2)[OF assms(2) pm] assms(3) by blast
  obtain i where i: "i < unat n" "x = gv pm g + of_nat i" using assms(3) unfolding range_of_def by blast
  have "virt_to_phys x = pm_start pm + g + of_nat i"
    unfolding i(2) by (simp add: virt_to_phys_def virt_to_phys_off_def phys_to_virt_def phys_to_virt_off_def)
  then show "\<exists>i < unat n. unat (virt_to_phys x) = unat (pm_start pm) + unat g + i \<and> x = gv pm g + of_nat i"
    using range_fits(1)[OF assms(2) pm(1) i(1)] i by auto
qed

lemma gv_disjoint:
  assumes "load_env s pm" "vm_memory_contig_range_fits pm g n" "vm_memory_contig_range_fits pm h k"
    and "unat g + unat n \<le> unat h \<or> unat h + unat k \<le> unat g"
  shows "range_of (gv pm g) (unat n) \<inter> range_of (gv pm h) (unat k) = {}"
proof (rule equals0I)
  fix x assume x: "x \<in> range_of (gv pm g) (unat n) \<inter> range_of (gv pm h) (unat k)"
  obtain i where i: "i < unat n" "unat (virt_to_phys x) = unat (pm_start pm) + unat g + i" using gv_range(2)[OF assms(1,2)] x by blast
  obtain j where "j < unat k" "unat (virt_to_phys x) = unat (pm_start pm) + unat h + j" using gv_range(2)[OF assms(1,3)] x by blast
  with i assms(4) show False by auto
qed

lemma load_copied:
  assumes "fits a n"
  shows "load_bytes (copied m d a n) d n = load_bytes m a n"
proof (rule nth_equalityI)
  fix i assume i: "i < length (load_bytes (copied m d a n) d n)"
  then have "d + of_nat i \<in> range_of d n" unfolding range_of_def by auto
  then show "load_bytes (copied m d a n) d n ! i = load_bytes m a n ! i" using i by (simp add: copied_def)
qed simp

lemma copied_keeps: "range_of b k \<inter> range_of d n = {} \<Longrightarrow> load_bytes (copied m d a n) b k = load_bytes m b k"
  by (rule load_bytes_cong) (auto simp: copied_def)

section \<open>New pages\<close>

definition page_filler :: "(mem \<Rightarrow> virt_addr \<Rightarrow> mem) \<Rightarrow> bool" where
  "page_filler fill \<longleftrightarrow> (\<forall>m p x. x \<notin> range_of p 4096 \<longrightarrow> fill m p x = m x)"

text \<open>The state after a new page was used: the frames are as before, and so is all memory in use except for the target.\<close>

definition page_copied :: "table_state \<Rightarrow> vm_physical_memory \<Rightarrow> gpaddr \<Rightarrow> (mem \<Rightarrow> virt_addr \<Rightarrow> mem) \<Rightarrow> table_state \<Rightarrow> virt_addr \<Rightarrow> bool" where
  "page_copied s pm g fill s' p \<longleftrightarrow> vm_memory_contig_range_fits pm g PAGE_SIZE \<and> (\<forall>x \<in> range_of p 4096. \<not> reserved (tframes s) x) \<and> fits p 4096
     \<and> (\<forall>x. reserved (tframes s) x \<longrightarrow> tmem s' x =
          (if x \<in> range_of (gv pm g) 4096 then fill (memset (tmem s) p 0 4096) p (p + (x - gv pm g)) else tmem s x))"

definition same_frames :: "table_state \<Rightarrow> table_state \<Rightarrow> bool" where
  "same_frames s s' \<longleftrightarrow> alloc_ok (tframes s') \<and> frame_count (tframes s') = frame_count (tframes s)
     \<and> (\<forall>j < frame_count (tframes s). frame_used (bitmap (tframes s')) j = frame_used (bitmap (tframes s)) j)
     \<and> free_frames (tframes s') = free_frames (tframes s)"

text \<open>A page can be allocated.\<close>

definition page_available :: "pf_bitmap_allocator \<Rightarrow> bool" where
  "page_available a \<longleftrightarrow> 1 \<le> free_frames a \<and> (\<exists>f < frame_count a. \<not> frame_used (bitmap a) f)"

lemma same_frames_available: "same_frames s s' \<Longrightarrow> page_available (tframes s') = page_available (tframes s)"
  by (auto simp: same_frames_def page_available_def)

lemma same_frames_reserved: "same_frames s s' \<Longrightarrow> reserved (tframes s') x = reserved (tframes s) x"
  by (auto simp: same_frames_def reserved_def)

lemma same_frames_env: "same_frames s s' \<Longrightarrow> load_env s pm \<Longrightarrow> load_env s' pm"
  using same_frames_reserved[of s s'] by (simp add: load_env_def same_frames_def)

lemma same_frames_trans: "same_frames s t \<Longrightarrow> same_frames t u \<Longrightarrow> same_frames s u"
  by (simp add: same_frames_def)

lemma free_frame_not_reserved: "\<not> frame_used (bitmap a) f \<Longrightarrow> f < frame_count a \<Longrightarrow> x \<in> range_of (frame_addr f) 4096 \<Longrightarrow> \<not> reserved a x"
  by (auto simp: reserved_def)

lemma copy_new_page_cases:
  assumes env: "load_env s pm" and fill: "page_filler fill"
  obtains (failed) s' where "copy_new_page s pm g fill = Inr (False, s')" "same_frames s s'" "\<forall>x. reserved (tframes s) x \<longrightarrow> tmem s' x = tmem s x"
      "\<not> (page_available (tframes s) \<and> vm_memory_contig_range_fits pm g PAGE_SIZE)"
  | (copied) s' p where "copy_new_page s pm g fill = Inr (True, s')" "same_frames s s'" "page_copied s pm g fill s' p"
      "page_available (tframes s)"
proof -
  have ok: "alloc_ok (tframes s)" "frame_count (tframes s) < 2 ^ 35" using env by (simp_all add: load_env_def)
  from ok show thesis
  proof (cases rule: get_pages_zeroed_cases[where nr = 1 and m = "tmem s"])
    case none
    have "\<forall>f < frame_count (tframes s). \<not> frame_used (bitmap (tframes s)) f \<longrightarrow> area_free (tframes s) (Suc 0) f" by (simp add: area_free_def)
    then have "\<not> page_available (tframes s)" using get_pages_zeroed_none[OF ok(1) none] by (auto simp: page_available_def)
    with none show thesis using failed[of s] ok(1) by (simp add: copy_new_page_def get_page_zeroed_pages same_frames_def)
  next
    case (some f a)
    let ?p = "frame_addr f" and ?m = "fill (memset (tmem s) (frame_addr f) 0 4096) (frame_addr f)"
    have f: "f < frame_count (tframes s)" "\<not> frame_used (bitmap (tframes s)) f" "f < 2 ^ 35" using some(2) ok(2) by (auto simp: area_free_def)
    have nr: "\<not> reserved (tframes s) x" if "x \<in> range_of ?p 4096" for x using free_frame_not_reserved[OF f(2,1) that] .
    have pf: "pfn_of (pfn_to_phys (of_nat f)) = f" using f(3) by (intro pfn_of_pfn_to_phys) simp
    obtain a' where a': "free_page a ?p = Inr a'" "same_frames s (s\<lparr>tframes := a', tmem := m\<rparr>)" for m
      using release_undoes[OF ok(1), of 1 "pfn_to_phys (of_nat f)" a] some(2-4) pf
      by (auto simp: free_page_def free_page_raw_def same_frames_def free_frames_def)
    have fp: "fits ?p 4096" using f(3) by (simp add: fits_def unat_frame_addr)
    have "range_of ?p 4096 \<inter> vm_bytes pm = {}" using nr env by (auto simp: load_env_def)
    then have c: "copy_to_vm_gpaddr ?m pm g ?p PAGE_SIZE =
        (if vm_memory_contig_range_fits pm g PAGE_SIZE then (True, copied ?m (gv pm g) ?p 4096) else (False, ?m))"
      using copy_step[OF env, of ?p PAGE_SIZE ?m g] fp by (simp add: PAGE_SIZE_def)
    have keep: "?m x = tmem s x" if "reserved (tframes s) x" for x
    proof -
      have "x \<notin> range_of ?p 4096" using that nr by blast
      then show ?thesis using fill unfolding page_filler_def by (metis memset_apply)
    qed
    have run: "copy_new_page s pm g fill = (case copy_to_vm_gpaddr ?m pm g ?p PAGE_SIZE of (ok, m) \<Rightarrow> Inr (ok, s\<lparr>tframes := a', tmem := m\<rparr>))"
      using some(1) a'(1) by (simp add: copy_new_page_def get_page_zeroed_pages split: prod.splits)
    show thesis
    proof (cases "vm_memory_contig_range_fits pm g PAGE_SIZE")
      case True
      then have "page_copied s pm g fill (s\<lparr>tframes := a', tmem := copied ?m (gv pm g) ?p 4096\<rparr>) ?p"
        using nr keep fp by (simp add: page_copied_def copied_def)
      moreover have "page_available (tframes s)" using get_pages_zeroed_counted[OF ok(1) some(1)] f by (auto simp: page_available_def)
      ultimately show thesis using copied run c True a'(2) by simp
    next
      case False
      then show thesis using failed run c a'(2) keep by simp
    qed
  qed
qed

section \<open>The contents of the new pages\<close>

lemma copy_up_keeps: "x \<notin> range_of d (i + n) \<Longrightarrow> copy_up m d a i n x = m x"
proof (induction n arbitrary: i m)
  case (Suc n)
  have "x \<noteq> d + of_nat i" using Suc.prems unfolding range_of_def by auto
  then show ?case using Suc.IH[of "Suc i"] Suc.prems by simp
qed simp

lemma memcpy_keeps: "x \<notin> range_of d n \<Longrightarrow> memcpy m d a n x = m x"
  by (simp add: memcpy_def copy_up_keeps)

lemma store8_bytes: "store8 m a v = store_bytes m a [v]"
  by (rule ext) (auto simp: store8_def store_bytes_def unat_eq_0)

lemma load8_bytes: "load8 m a = hd (load_bytes m a 1)"
  by (simp add: load8_def load_bytes_def)

text \<open>Members of a page at fixed offsets.\<close>

lemma load_store_numeral:
  "numeral i + n \<le> (numeral j :: nat) \<or> numeral j + length bs \<le> (numeral i :: nat) \<Longrightarrow> numeral i + n \<le> (2 ^ 63 :: nat) \<Longrightarrow>
    numeral j + length bs \<le> (2 ^ 63 :: nat) \<Longrightarrow>
    load_bytes (store_bytes m (a + numeral j) bs) (a + numeral i) n = load_bytes m (a + numeral i) n"
  using load_bytes_store_other[of "numeral i" n "numeral j" bs m a] by simp

lemma load_store_same: "length bs = n \<Longrightarrow> n \<le> 2 ^ 64 \<Longrightarrow> load_bytes (store_bytes m a bs) a n = bs"
  using load_store_bytes[of bs m a] by blast

lemma sub_range_numeral: "numeral i + n \<le> k \<Longrightarrow> range_of (a + numeral i) n \<subseteq> range_of a k"
  using sub_range[of "numeral i" n k a] by simp

lemma store_bytes_keeps: "x \<notin> range_of a k \<Longrightarrow> numeral i + length bs \<le> k \<Longrightarrow> k < 2 ^ 64 \<Longrightarrow> store_bytes m (a + numeral i) bs x = m x"
  using store_bytes_range[of bs x "a + numeral i" m] sub_range_numeral[of i "length bs" k a] by auto

lemma page_filler_gdt: "page_filler fill_boot_gdt"
  by (auto simp: page_filler_def fill_boot_gdt_def write_gdt_entry_def store64_def store_bytes_keeps[where k = 4096])

lemma page_filler_params: "page_filler (fill_boot_params sh g n pm)"
proof -
  have "memcpy m (p + 0x1F1) a sizeof_setup_header x = m x" if "x \<notin> range_of p 4096" for m a p x
    using that sub_range[of "0x1F1" 123 4096 p] by (intro memcpy_keeps) (auto simp: sizeof_setup_header_def)
  then show ?thesis
    by (auto simp: page_filler_def fill_boot_params_def Let_def store8_bytes mem_defs store_bytes_keeps[where k = 4096])
qed

text \<open>The descriptors that the guest is started with: flat segments of 4 GB.\<close>

lemma boot_gdt_contents:
  "load64 (fill_boot_gdt m p) (p + 16) = 0x00CF9B000000FFFF" "load64 (fill_boot_gdt m p) (p + 24) = 0x00CF93000000FFFF"
proof -
  have d: "segment_descriptor_word boot_cs_desc = 0x00CF9B000000FFFF" "segment_descriptor_word boot_ds_desc = 0x00CF93000000FFFF" by code_simp+
  show "load64 (fill_boot_gdt m p) (p + 16) = 0x00CF9B000000FFFF" "load64 (fill_boot_gdt m p) (p + 24) = 0x00CF93000000FFFF"
    by (simp_all add: fill_boot_gdt_def write_gdt_entry_def d load64_def store64_def load_store_numeral load_store_same from_word_bytes take_bit_word_eq_self)
qed

text \<open>The boot parameters in terms of the setup header at \<open>sh\<close>.\<close>

lemma boot_params_contents:
  assumes "fits p 4096" "fits sh 123" "range_of sh 123 \<inter> range_of p 4096 = {}"
    and m'_def: "m' = fill_boot_params sh g n pm m p"
  shows "load8 m' (p + 0x1E8) = 1" "load64 m' (p + 0x2D0) = 0" "load64 m' (p + 0x2D8) = get_vm_memory_size pm" "load32 m' (p + 0x2E0) = 1"
    "load8 m' (p + 0x210) = 0xFF" "load8 m' (p + 0x211) = sh_loadflags (read_setup_header m sh) AND 0x7F"
    "load32 m' (p + 0x228) = 0x20000" "load32 m' (p + 0x218) = ucast g" "load32 m' (p + 0x21C) = ucast n"
    "load32 m' (p + 0x214) = sh_code32_start (read_setup_header m sh)"
proof -
  have r: "range_of (p + 0x1F1) 123 \<subseteq> range_of p 4096" using sub_range[of "0x1F1" 123 4096 p] by simp
  have "unat (p + of_nat 0x1F1) = unat p + 0x1F1" using unat_offset[OF assms(1), of "0x1F1"] by simp
  then have "fits (p + 0x1F1) 123" using assms(1) by (simp add: fits_def)
  then have c: "memcpy m (p + 0x1F1) sh 123 = copied m (p + 0x1F1) sh 123"
    using memcpy_correct[of "p + 0x1F1" 123 sh m] r assms(2,3) by blast
  have h: "load_bytes (copied m (p + 0x1F1) sh 123) (p + 0x1F1 + of_nat i) k = load_bytes m (sh + of_nat i) k" if "i + k \<le> 123" for i k
  proof (rule nth_equalityI)
    fix j assume j: "j < length (load_bytes (copied m (p + 0x1F1) sh 123) (p + 0x1F1 + of_nat i) k)"
    then have "p + 0x1F1 + of_nat (i + j) \<in> range_of (p + 0x1F1) 123" using that unfolding range_of_def by (intro CollectI exI[of _ "i + j"]) simp
    then show "load_bytes (copied m (p + 0x1F1) sh 123) (p + 0x1F1 + of_nat i) k ! j = load_bytes m (sh + of_nat i) k ! j"
      using j by (simp add: copied_def add.assoc)
  qed simp
  note h' = h[of 32 1, unfolded add.assoc, simplified] h[of 35 4, unfolded add.assoc, simplified]
  note simps = m'_def fill_boot_params_def Let_def sizeof_setup_header_def c store8_bytes load8_bytes mem_defs load_store_numeral load_store_same
    from_word_bytes take_bit_word_eq_self
  show "load8 m' (p + 0x1E8) = 1" "load64 m' (p + 0x2D0) = 0" "load64 m' (p + 0x2D8) = get_vm_memory_size pm" "load32 m' (p + 0x2E0) = 1"
    "load8 m' (p + 0x210) = 0xFF" "load32 m' (p + 0x228) = 0x20000" "load32 m' (p + 0x218) = ucast g" "load32 m' (p + 0x21C) = ucast n"
    by (simp_all add: simps LINUX_GUEST_DEFAULT_COMMAND_LINE_GPADDR_def LINUX_E820_TYPE_RAM_def)
  show "load32 m' (p + 0x214) = sh_code32_start (read_setup_header m sh)" by (simp add: simps h' read_setup_header_def)
  have "NOT SETUP_LOADFLAGS_CAN_USE_HEAP = 0x7F" by code_simp
  then show "load8 m' (p + 0x211) = sh_loadflags (read_setup_header m sh) AND 0x7F" by (simp add: simps h' read_setup_header_def)
qed

section \<open>Containment\<close>

text \<open>A state during loading: frames and all memory in use outside the VM are as in the beginning.\<close>

definition contained :: "table_state \<Rightarrow> vm_physical_memory \<Rightarrow> table_state \<Rightarrow> bool" where
  "contained s pm t \<longleftrightarrow> same_frames s t \<and> (\<forall>x. reserved (tframes s) x \<longrightarrow> x \<notin> vm_bytes pm \<longrightarrow> tmem t x = tmem s x)"

lemma contained_refl: "load_env s pm \<Longrightarrow> contained s pm s"
  by (simp add: contained_def same_frames_def load_env_def)

lemma contained_env: "load_env s pm \<Longrightarrow> contained s pm t \<Longrightarrow> load_env t pm"
  using same_frames_env by (auto simp: contained_def)

lemma contained_source: "contained s pm t \<Longrightarrow> source_area s pm a n \<Longrightarrow> source_area t pm a n"
  using same_frames_reserved[of s t] by (auto simp: contained_def source_area_def)

lemma contained_load: "contained s pm t \<Longrightarrow> source_area s pm a n \<Longrightarrow> load_bytes (tmem t) a n = load_bytes (tmem s) a n"
  by (rule load_bytes_cong) (auto simp: contained_def source_area_def)

lemma copy_contained:
  assumes "load_env s pm" "contained s pm t" "source_area s pm a (unat n)"
  obtains (copied) "copy_to_vm_gpaddr (tmem t) pm g a n = (True, copied (tmem t) (gv pm g) a (unat n))" "vm_memory_contig_range_fits pm g n"
      "contained s pm (t\<lparr>tmem := copied (tmem t) (gv pm g) a (unat n)\<rparr>)"
  | (refused) "copy_to_vm_gpaddr (tmem t) pm g a n = (False, tmem t)" "\<not> vm_memory_contig_range_fits pm g n"
proof -
  have c: "copy_to_vm_gpaddr (tmem t) pm g a n =
      (if vm_memory_contig_range_fits pm g n then (True, copied (tmem t) (gv pm g) a (unat n)) else (False, tmem t))"
    by (rule copy_step[OF assms(1)]) (use assms(3) in \<open>auto simp: source_area_def\<close>)
  show thesis
  proof (cases "vm_memory_contig_range_fits pm g n")
    case True
    have "contained s pm (t\<lparr>tmem := copied (tmem t) (gv pm g) a (unat n)\<rparr>)"
      using assms(2) gv_range(1)[OF assms(1) True] by (auto simp: contained_def same_frames_def copied_def)
    then show thesis using copied c True by simp
  next
    case False
    then show thesis using refused c by simp
  qed
qed

lemma page_contained:
  assumes "load_env s pm" "contained s pm t" "page_filler fill"
  obtains (copied) t' p where "copy_new_page t pm g fill = Inr (True, t')" "contained s pm t'" "page_copied t pm g fill t' p"
      "page_available (tframes s)"
  | (failed) t' where "copy_new_page t pm g fill = Inr (False, t')" "contained s pm t'"
      "\<not> (page_available (tframes s) \<and> vm_memory_contig_range_fits pm g PAGE_SIZE)"
proof -
  have env: "load_env t pm" using contained_env[OF assms(1,2)] .
  have r: "reserved (tframes t) x = reserved (tframes s) x" for x using assms(2) same_frames_reserved by (simp add: contained_def)
  have av: "page_available (tframes t) = page_available (tframes s)" using assms(2) same_frames_available by (simp add: contained_def)
  from env assms(3) show thesis
  proof (cases rule: copy_new_page_cases[where g = g])
    case (failed t')
    then have "contained s pm t'" using assms(2) r same_frames_trans by (auto simp: contained_def)
    then show thesis using failed(1,4) that(2) av by simp
  next
    case (copied t' p)
    have "x \<in> vm_bytes pm" if "x \<in> range_of (gv pm g) 4096" for x
      using gv_range(1)[OF env, of g PAGE_SIZE x] copied(3) that by (simp add: page_copied_def PAGE_SIZE_def)
    then have "contained s pm t'" using assms(2) r same_frames_trans[OF _ copied(2)] copied(3) by (auto simp: contained_def page_copied_def)
    then show thesis using copied(1,3,4) that(1) av by blast
  qed
qed

text \<open>The areas that the loader copies from.\<close>

definition sources_ok :: "table_state \<Rightarrow> vm_physical_memory \<Rightarrow> vm_config \<Rightarrow> virt_addr \<Rightarrow> string \<Rightarrow> bool" where
  "sources_ok s pm config cl text \<longleftrightarrow> lb_cmdline (boot_linux config) = Some text \<and> nul_free text \<and> length text < 2 ^ 32 - 1
     \<and> source_area s pm (fi_addr (lb_bzImage (boot_linux config))) (unat (fi_size (lb_bzImage (boot_linux config))))
     \<and> source_area s pm (fi_addr (lb_initramfs (boot_linux config))) (unat (fi_size (lb_initramfs (boot_linux config))))
     \<and> source_area s pm cl (length text + 1)"

lemma source_sub:
  assumes "source_area s pm a n" "i + k \<le> n"
  shows "source_area s pm (a + of_nat i) k"
proof -
  have "fits (a + of_nat i) k"
  proof (cases "k = 0")
    case True
    then show ?thesis using unat_less_size[of "a + of_nat i"] by (simp add: fits_def)
  next
    case False
    then have "unat (a + of_nat i) = unat a + i" using assms by (intro unat_offset[of a n]) (auto simp: source_area_def)
    then show ?thesis using assms by (simp add: source_area_def fits_def)
  qed
  then show ?thesis using assms sub_range[OF assms(2), of a] by (auto simp: source_area_def)
qed

lemma read_header_cong:
  assumes "\<And>x. x \<in> range_of a 123 \<Longrightarrow> m x = m' x"
  shows "read_setup_header m a = read_setup_header m' a"
proof -
  have b: "load_bytes m (a + of_nat i) k = load_bytes m' (a + of_nat i) k" if "i + k \<le> 123" for i k
    using sub_range[OF that, of a] assms by (intro load_bytes_cong) blast
  have n: "load_bytes m (a + numeral i) k = load_bytes m' (a + numeral i) k" if "numeral i + k \<le> 123" for i k
    using b[of "numeral i" k] that by simp
  have z: "load_bytes m a 1 = load_bytes m' a 1" "load_bytes m (a + 1) 2 = load_bytes m' (a + 1) 2" using b[of 0 1] b[of 1 2] by simp_all
  note z = z z(1)[unfolded One_nat_def]
  show ?thesis by (simp add: read_setup_header_def load8_bytes mem_defs n z)
qed

lemma unat_ucast_u32: "unat (ucast (w :: u32) :: u64) = unat w"
  using unat_less_size[of w] by (simp add: unsigned_ucast_eq take_bit_nat_eq_self)

lemma check_image_bounds:
  assumes "check_image m bz = Some (off, n, g, e)"
  shows "unat off + unat n \<le> unat (fi_size bz)" "0x1F1 + 123 \<le> unat (fi_size bz)" "n \<le> e" "n \<noteq> 0"
proof -
  have a: "\<not> fi_size bz < 0x1F1 + 123" "ucast off < fi_size bz" "n \<le> fi_size bz - ucast off" "n \<noteq> 0" "e = MAX_c n (ucast (sh_init_size (read_setup_header m (fi_addr bz + 0x1F1))))"
    using assms by (auto simp: check_image_def Let_def SETUP_HEADER_OFFSET_def sizeof_setup_header_def not_le not_less split: if_splits)
  show "0x1F1 + 123 \<le> unat (fi_size bz)" using a(1) by (simp add: word_less_nat_alt)
  have "unat (ucast off :: u64) = unat off" by (rule unat_ucast_u32)
  then show "unat off + unat n \<le> unat (fi_size bz)" using a(2,3) by (simp add: word_le_nat_alt word_less_nat_alt unat_sub_small)
  show "n \<le> e" "n \<noteq> 0" using a(4,5) by (simp_all add: MAX_c_max)
qed

text \<open>The header is the same whenever it is read.\<close>

lemma contained_header:
  assumes "contained s pm t" "source_area s pm a n" "0x1F1 + 123 \<le> n"
  shows "read_setup_header (tmem t) (a + SETUP_HEADER_OFFSET) = read_setup_header (tmem s) (a + SETUP_HEADER_OFFSET)"
proof (rule read_header_cong)
  fix x assume "x \<in> range_of (a + SETUP_HEADER_OFFSET) 123"
  then have "x \<in> range_of a n" using sub_range[OF assms(3), of a] by (auto simp: SETUP_HEADER_OFFSET_def)
  then show "tmem t x = tmem s x" using assms(1,2) by (auto simp: contained_def source_area_def)
qed

text \<open>The state after the kernel and the initial file system are placed.\<close>

definition images_at :: "table_state \<Rightarrow> vm_physical_memory \<Rightarrow> linux_boot_info \<Rightarrow> u32 \<Rightarrow> u64 \<Rightarrow> gpaddr \<Rightarrow> gpaddr \<Rightarrow> table_state" where
  "images_at s pm linux off n g ir =
     s\<lparr>tmem := copied (copied (tmem s) (gv pm g) (fi_addr (lb_bzImage linux) + ucast off) (unat n)) (gv pm ir)
        (fi_addr (lb_initramfs linux)) (unat (fi_size (lb_initramfs linux)))\<rparr>"

lemma fits_smaller: "vm_memory_contig_range_fits pm g e \<Longrightarrow> n \<le> e \<Longrightarrow> vm_memory_contig_range_fits pm g n"
  by (auto simp: vm_memory_contig_range_fits_def Let_def)

lemma place_images_cases:
  assumes env: "load_env s pm" and ci: "check_image (tmem s) (lb_bzImage linux) = Some (off, n, g, e)"
    and sbz: "source_area s pm (fi_addr (lb_bzImage linux)) (unat (fi_size (lb_bzImage linux)))"
    and sird: "source_area s pm (fi_addr (lb_initramfs linux)) (unat (fi_size (lb_initramfs linux)))"
  defines "ir \<equiv> initramfs_address (read_setup_header (tmem s) (fi_addr (lb_bzImage linux) + SETUP_HEADER_OFFSET)) e"
  obtains (failed) t where "place_images s pm linux (off, n, g, e) = (None, t)" "contained s pm t"
      "\<not> (vm_memory_contig_range_fits pm g e \<and> vm_memory_contig_range_fits pm ir (fi_size (lb_initramfs linux)))"
  | (placed) "place_images s pm linux (off, n, g, e) = (Some ir, images_at s pm linux off n g ir)" "contained s pm (images_at s pm linux off n g ir)"
      "contained s pm (s\<lparr>tmem := copied (tmem s) (gv pm g) (fi_addr (lb_bzImage linux) + ucast off) (unat n)\<rparr>)"
      "vm_memory_contig_range_fits pm g e" "vm_memory_contig_range_fits pm g n" "vm_memory_contig_range_fits pm ir (fi_size (lb_initramfs linux))"
proof (cases "vm_memory_contig_range_fits pm g e")
  case False
  then show thesis using failed[of s] contained_refl[OF env] by (simp add: place_images_def)
next
  case fe: True
  note b = check_image_bounds[OF ci]
  have "source_area s pm (fi_addr (lb_bzImage linux) + of_nat (unat off)) (unat n)" using source_sub[OF sbz b(1)] .
  then have sk: "source_area s pm (fi_addr (lb_bzImage linux) + ucast off) (unat n)" by simp
  from env contained_refl[OF env] sk show thesis
  proof (cases rule: copy_contained[where g = g])
    case refused
    then show thesis using fits_smaller[OF fe b(3)] by blast
  next
    case k: copied
    let ?t = "s\<lparr>tmem := copied (tmem s) (gv pm g) (fi_addr (lb_bzImage linux) + ucast off) (unat n)\<rparr>"
    note h = contained_header[OF k(3) sbz b(2)]
    from env k(3) sird show thesis
    proof (cases rule: copy_contained[where g = ir])
      case refused
      then show thesis using failed[of ?t] fe k h by (simp add: place_images_def Let_def ir_def)
    next
      case r: copied
      then show thesis using placed fe k h by (simp add: place_images_def Let_def ir_def images_at_def)
    qed
  qed
qed

lemma place_boot_data_cases:
  assumes env: "load_env s pm" and t2: "contained s pm t2" and cmd: "lb_cmdline linux = Some text" "nul_free text" "length text < 2 ^ 32 - 1"
    and sbz: "source_area s pm (fi_addr (lb_bzImage linux)) (unat (fi_size (lb_bzImage linux)))" "0x1F1 + 123 \<le> unat (fi_size (lb_bzImage linux))"
    and scl: "source_area s pm cl (length text + 1)"
  defines "sh \<equiv> fi_addr (lb_bzImage linux) + SETUP_HEADER_OFFSET"
  defines "ok \<equiv> vm_memory_contig_range_fits pm 0x10000 PAGE_SIZE \<and> of_nat (length text) \<le> sh_cmdline_size (read_setup_header (tmem s) sh)
     \<and> vm_memory_contig_range_fits pm 0x20000 (of_nat (length text + 1)) \<and> vm_memory_contig_range_fits pm 0x30000 PAGE_SIZE \<and> page_available (tframes s)"
  obtains (failed) code t where "place_boot_data t2 pm linux cl ir = Inr (code, t)" "code \<noteq> 0" "contained s pm t" "\<not> ok"
  | (placed) t3 t4 t5 p q where "place_boot_data t2 pm linux cl ir = Inr (0, t5)" ok
      "page_copied t2 pm 0x10000 fill_boot_gdt t3 p" "contained s pm t3"
      "t4 = t3\<lparr>tmem := copied (tmem t3) (gv pm 0x20000) cl (length text + 1)\<rparr>" "contained s pm t4"
      "page_copied t4 pm 0x30000 (fill_boot_params sh ir (fi_size (lb_initramfs linux)) pm) t5 q" "contained s pm t5"
proof -
  let ?n = "ucast (of_nat (length text) + 1 :: u32) :: u64"
  have "unat (of_nat (length text) + 1 :: u32) = length text + 1" using cmd(3) by (subst unat_add_small) (simp_all add: unat_of_nat_small)
  then have len: "unat ?n = length text + 1" by (simp add: unat_ucast_u32)
  then have n: "?n = of_nat (length text + 1)" by (metis of_nat_unat ucast_id)
  note defs = place_boot_data_def Let_def cmd name_ptr_def load_32bit_boot_gdt_def LINUX_GUEST_DEFAULT_GDT_GPADDR_def
    LINUX_GUEST_DEFAULT_COMMAND_LINE_GPADDR_def LINUX_GUEST_DEFAULT_ZERO_PAGE_GPADDR_def sh_def[symmetric]
  from env t2 page_filler_gdt show thesis
  proof (cases rule: page_contained[where g = "0x10000"])
    case (failed t)
    then have "\<not> ok" by (auto simp: ok_def)
    then show thesis using that(1)[of "-1" t] failed by (simp add: defs)
  next
    case gd: (copied t3 p)
    note h3 = contained_header[OF gd(2) sbz, folded sh_def]
    show thesis
    proof (cases "of_nat (length text) > sh_cmdline_size (read_setup_header (tmem s) sh)")
      case True
      then have "\<not> ok" by (auto simp: ok_def)
      then show thesis using failed[of 1 t3] True gd h3 by (simp add: defs)
    next
      case short: False
      from env gd(2) scl[folded len] show thesis
      proof (cases rule: copy_contained[where g = "0x20000"])
        case refused
        then have "\<not> ok" unfolding ok_def n by blast
        then show thesis using failed[of "-1" t3] refused gd h3 short by (simp add: defs)
      next
        case c: copied
        note c4 = c[unfolded len]
        from env c4(3) page_filler_params[of sh ir "fi_size (lb_initramfs linux)" pm] show thesis
        proof (cases rule: page_contained[where g = "0x30000"])
          case (failed t)
          then have "\<not> ok" by (auto simp: ok_def)
          then show thesis using that(1)[of "-1" t] failed gd h3 short c4 by (simp add: defs)
        next
          case z: (copied t5 q)
          have "place_boot_data t2 pm linux cl ir = Inr (0, t5)" using gd h3 short c4 z by (simp add: defs)
          moreover have ok using gd(3,4) short c4(2) z(3) unfolding ok_def n by (simp add: page_copied_def)
          ultimately show thesis using placed gd(2,3) c4(3) z(2,3) by blast
        qed
      qed
    qed
  qed
qed

text \<open>The conditions under which an image is loaded.\<close>

definition loadable :: "table_state \<Rightarrow> vm_physical_memory \<Rightarrow> vm_config \<Rightarrow> string \<Rightarrow> bool" where
  "loadable s pm config text =
     (let bz = lb_bzImage (boot_linux config); hdr = read_setup_header (tmem s) (fi_addr bz + SETUP_HEADER_OFFSET)
      in case check_image (tmem s) bz of
        None \<Rightarrow> False
      | Some (off, n, g, e) \<Rightarrow> vm_memory_contig_range_fits pm g e
          \<and> vm_memory_contig_range_fits pm (initramfs_address hdr e) (fi_size (lb_initramfs (boot_linux config)))
          \<and> vm_memory_contig_range_fits pm 0x10000 PAGE_SIZE \<and> of_nat (length text) \<le> sh_cmdline_size hdr
          \<and> vm_memory_contig_range_fits pm 0x20000 (of_nat (length text + 1)) \<and> vm_memory_contig_range_fits pm 0x30000 PAGE_SIZE
          \<and> page_available (tframes s))"

text \<open>The states of a successful run, after the areas are placed.\<close>

definition load_run :: "table_state \<Rightarrow> vm_physical_memory \<Rightarrow> vm_config \<Rightarrow> virt_addr \<Rightarrow> string \<Rightarrow> u32 \<Rightarrow> u64 \<Rightarrow> gpaddr \<Rightarrow> gpaddr \<Rightarrow>
    table_state \<Rightarrow> table_state \<Rightarrow> table_state \<Rightarrow> virt_addr \<Rightarrow> virt_addr \<Rightarrow> bool" where
  "load_run s pm config cl text off n g ir t3 t4 t5 p q \<longleftrightarrow>
     (let bz = lb_bzImage (boot_linux config); ird = lb_initramfs (boot_linux config);
          t1 = s\<lparr>tmem := copied (tmem s) (gv pm g) (fi_addr bz + ucast off) (unat n)\<rparr>;
          t2 = t1\<lparr>tmem := copied (tmem t1) (gv pm ir) (fi_addr ird) (unat (fi_size ird))\<rparr>
      in vm_memory_contig_range_fits pm g n \<and> contained s pm t1
         \<and> vm_memory_contig_range_fits pm ir (fi_size ird) \<and> contained s pm t2
         \<and> page_copied t2 pm 0x10000 fill_boot_gdt t3 p \<and> contained s pm t3
         \<and> vm_memory_contig_range_fits pm 0x20000 (of_nat (length text + 1))
         \<and> t4 = t3\<lparr>tmem := copied (tmem t3) (gv pm 0x20000) cl (length text + 1)\<rparr> \<and> contained s pm t4
         \<and> page_copied t4 pm 0x30000 (fill_boot_params (fi_addr bz + SETUP_HEADER_OFFSET) ir (fi_size ird) pm) t5 q \<and> contained s pm t5)"

lemma load_linux_cases:
  assumes env: "load_env s pm" and src: "sources_ok s pm config cl text"
  obtains (failed) code t where "load_linux_32bit_direct_boot_for_vm s pm config cl li = Inr (code, li, t)" "code \<noteq> 0" "contained s pm t"
      "\<not> loadable s pm config text"
  | (loaded) off n g e ir t3 t4 t5 p q where
      "load_linux_32bit_direct_boot_for_vm s pm config cl li = Inr (0, \<lparr>pm_kernel = g, pm_kernel_size = n, pm_kernel_entry_point = g,
         gdt_page = 0x10000, zero_page = 0x30000, command_line_string = 0x20000\<rparr>, t5)"
      "check_image (tmem s) (lb_bzImage (boot_linux config)) = Some (off, n, g, e)" "vm_memory_contig_range_fits pm g e"
      "ir = initramfs_address (read_setup_header (tmem s) (fi_addr (lb_bzImage (boot_linux config)) + SETUP_HEADER_OFFSET)) e"
      "load_run s pm config cl text off n g ir t3 t4 t5 p q" "loadable s pm config text"
proof -
  let ?l = "boot_linux config"
  have cmd: "lb_cmdline ?l = Some text" "nul_free text" "length text < 2 ^ 32 - 1"
    and so: "source_area s pm (fi_addr (lb_bzImage ?l)) (unat (fi_size (lb_bzImage ?l)))"
      "source_area s pm (fi_addr (lb_initramfs ?l)) (unat (fi_size (lb_initramfs ?l)))" "source_area s pm cl (length text + 1)"
    using src by (simp_all add: sources_ok_def)
  note defs = load_linux_32bit_direct_boot_for_vm_def Let_def LINUX_GUEST_DEFAULT_GDT_GPADDR_def
    LINUX_GUEST_DEFAULT_COMMAND_LINE_GPADDR_def LINUX_GUEST_DEFAULT_ZERO_PAGE_GPADDR_def
  show thesis
  proof (cases "check_image (tmem s) (lb_bzImage ?l)")
    case None
    then show thesis using failed[of "-1" s] contained_refl[OF env] by (simp add: defs loadable_def)
  next
    case (Some r)
    then obtain off n g e where ci: "check_image (tmem s) (lb_bzImage ?l) = Some (off, n, g, e)" by (cases r) auto
    let ?ir = "initramfs_address (read_setup_header (tmem s) (fi_addr (lb_bzImage ?l) + SETUP_HEADER_OFFSET)) e"
    from env ci so(1,2) show thesis
    proof (cases rule: place_images_cases)
      case (failed t)
      then have "\<not> loadable s pm config text" using ci by (auto simp: loadable_def Let_def)
      then show thesis using that(1)[of "-1" t] failed ci by (simp add: defs)
    next
      case im: placed
      let ?t2 = "images_at s pm ?l off n g ?ir"
      from env im(2) cmd so(1) check_image_bounds(2)[OF ci] so(3) show thesis
      proof (cases rule: place_boot_data_cases[where ir = ?ir])
        case (failed code t)
        then have "\<not> loadable s pm config text" using ci by (auto simp: loadable_def Let_def)
        then show thesis using that(1)[of code t] failed ci im by (simp add: defs)
      next
        case (placed t3 t4 t5 p q)
        have "load_run s pm config cl text off n g ?ir t3 t4 t5 p q"
          using im placed by (simp add: load_run_def Let_def images_at_def)
        moreover have "loadable s pm config text" using ci im(4,6) placed(2) by (simp add: loadable_def Let_def)
        ultimately show thesis using loaded ci im(1,4) placed(1) by (simp add: defs)
      qed
    qed
  qed
qed

section \<open>What the guest finds\<close>

lemma page_copied_other:
  assumes "page_copied s pm g fill s' p" "load_env s pm" "range_of b k \<subseteq> vm_bytes pm" "range_of b k \<inter> range_of (gv pm g) 4096 = {}"
  shows "load_bytes (tmem s') b k = load_bytes (tmem s) b k"
proof (rule load_bytes_cong)
  fix x assume "x \<in> range_of b k"
  then have "reserved (tframes s) x" "x \<notin> range_of (gv pm g) 4096" using assms(2-4) by (auto simp: load_env_def)
  then show "tmem s' x = tmem s x" using assms(1) by (simp add: page_copied_def)
qed

lemma page_copied_at:
  assumes "page_copied s pm g fill s' p" "load_env s pm" "i + k \<le> 4096"
  shows "load_bytes (tmem s') (gv pm g + of_nat i) k = load_bytes (fill (memset (tmem s) p 0 4096) p) (p + of_nat i) k"
proof (rule nth_equalityI)
  fix j assume j: "j < length (load_bytes (tmem s') (gv pm g + of_nat i) k)"
  let ?x = "gv pm g + of_nat (i + j)"
  have x: "?x \<in> range_of (gv pm g) 4096" using j assms(3) unfolding range_of_def by (intro CollectI exI[of _ "i + j"]) simp
  then have "reserved (tframes s) ?x"
    using gv_range(1)[OF assms(2), of g PAGE_SIZE ?x] assms(1,2) by (simp add: page_copied_def load_env_def PAGE_SIZE_def)
  then have "tmem s' ?x = fill (memset (tmem s) p 0 4096) p (p + (?x - gv pm g))" using assms(1) x by (simp add: page_copied_def)
  then show "load_bytes (tmem s') (gv pm g + of_nat i) k ! j = load_bytes (fill (memset (tmem s) p 0 4096) p) (p + of_nat i) k ! j"
    using j by (simp add: add.assoc)
qed simp

text \<open>The boot parameters at an address, with the members that the loader is responsible for.\<close>

definition boot_params_at :: "mem \<Rightarrow> virt_addr \<Rightarrow> setup_header \<Rightarrow> gpaddr \<Rightarrow> u64 \<Rightarrow> u64 \<Rightarrow> bool" where
  "boot_params_at m z hdr ir ir_size mem_bytes \<longleftrightarrow>
     load8 m (z + 0x1E8) = 1 \<and> load64 m (z + 0x2D0) = 0 \<and> load64 m (z + 0x2D8) = mem_bytes \<and> load32 m (z + 0x2E0) = 1
     \<and> load8 m (z + 0x210) = 0xFF \<and> load8 m (z + 0x211) = sh_loadflags hdr AND 0x7F \<and> load32 m (z + 0x228) = 0x20000
     \<and> load32 m (z + 0x218) = ucast ir \<and> load32 m (z + 0x21C) = ucast ir_size \<and> load32 m (z + 0x214) = sh_code32_start hdr"

lemma boot_params_copied:
  assumes "page_copied s pm g (fill_boot_params sh ir n pm) s' q" "load_env s pm" "source_area s pm sh 123"
  shows "boot_params_at (tmem s') (gv pm g) (read_setup_header (tmem s) sh) ir n (get_vm_memory_size pm)"
proof -
  let ?m = "memset (tmem s) q 0 4096"
  have d: "range_of sh 123 \<inter> range_of q 4096 = {}" using assms(1,3) by (auto simp: page_copied_def source_area_def)
  have f: "fits q 4096" "fits sh 123" using assms(1,3) by (simp_all add: page_copied_def source_area_def)
  have h: "read_setup_header ?m sh = read_setup_header (tmem s) sh" using d by (intro read_header_cong) (auto simp: memset_apply)
  have l: "load_bytes (tmem s') (gv pm g + numeral i) k = load_bytes (fill_boot_params sh ir n pm ?m q) (q + numeral i) k"
    if "numeral i + k \<le> 4096" for i k
    using page_copied_at[OF assms(1,2) that] by simp
  note c = boot_params_contents[OF f d refl, of ir n pm ?m, unfolded h]
  show ?thesis unfolding boot_params_at_def using c by (simp add: load8_bytes mem_defs l)
qed

definition guest_image :: "table_state \<Rightarrow> vm_physical_memory \<Rightarrow> vm_config \<Rightarrow> virt_addr \<Rightarrow> string \<Rightarrow> u32 \<Rightarrow> u64 \<Rightarrow> gpaddr \<Rightarrow> gpaddr \<Rightarrow> mem \<Rightarrow> bool" where
  "guest_image s pm config cl text off n g ir m \<longleftrightarrow>
     (let bz = lb_bzImage (boot_linux config); ird = lb_initramfs (boot_linux config)
      in load_bytes m (gv pm g) (unat n) = load_bytes (tmem s) (fi_addr bz + ucast off) (unat n)
       \<and> load_bytes m (gv pm ir) (unat (fi_size ird)) = load_bytes (tmem s) (fi_addr ird) (unat (fi_size ird))
       \<and> load_bytes m (gv pm 0x20000) (length text + 1) = load_bytes (tmem s) cl (length text + 1)
       \<and> load64 m (gv pm 0x10000 + 16) = 0x00CF9B000000FFFF \<and> load64 m (gv pm 0x10000 + 24) = 0x00CF93000000FFFF
       \<and> boot_params_at m (gv pm 0x30000) (read_setup_header (tmem s) (fi_addr bz + SETUP_HEADER_OFFSET)) ir (fi_size ird) (get_vm_memory_size pm))"

lemma vm_area: "load_env s pm \<Longrightarrow> vm_memory_contig_range_fits pm g n \<Longrightarrow> range_of (gv pm g) (unat n) \<subseteq> vm_bytes pm"
  using gv_range(1) by blast

lemma load_run_image:
  assumes env: "load_env s pm" and src: "sources_ok s pm config cl text" and run: "load_run s pm config cl text off n g ir t3 t4 t5 p q"
    and ci: "check_image (tmem s) (lb_bzImage (boot_linux config)) = Some (off, n, g, e)"
    and lay: "0x31000 \<le> unat g" "unat g + unat n \<le> unat ir" "length text < 0x10000"
  shows "guest_image s pm config cl text off n g ir (tmem t5)"
proof -
  let ?bz = "lb_bzImage (boot_linux config)" and ?ird = "lb_initramfs (boot_linux config)"
  define t1 where "t1 = s\<lparr>tmem := copied (tmem s) (gv pm g) (fi_addr ?bz + ucast off) (unat n)\<rparr>"
  define t2 where "t2 = t1\<lparr>tmem := copied (tmem t1) (gv pm ir) (fi_addr ?ird) (unat (fi_size ?ird))\<rparr>"
  have r: "vm_memory_contig_range_fits pm g n" "contained s pm t1" "vm_memory_contig_range_fits pm ir (fi_size ?ird)" "contained s pm t2"
    "page_copied t2 pm 0x10000 fill_boot_gdt t3 p" "contained s pm t3" "vm_memory_contig_range_fits pm 0x20000 (of_nat (length text + 1))"
    "t4 = t3\<lparr>tmem := copied (tmem t3) (gv pm 0x20000) cl (length text + 1)\<rparr>" "contained s pm t4"
    "page_copied t4 pm 0x30000 (fill_boot_params (fi_addr ?bz + SETUP_HEADER_OFFSET) ir (fi_size ?ird) pm) t5 q" "contained s pm t5"
    using run unfolding load_run_def Let_def t1_def[symmetric] t2_def[symmetric] by blast+
  note env2 = contained_env[OF env r(4)] and env4 = contained_env[OF env r(9)]
  have fp: "vm_memory_contig_range_fits pm 0x10000 PAGE_SIZE" "vm_memory_contig_range_fits pm 0x30000 PAGE_SIZE"
    using r(5,10) by (simp_all add: page_copied_def)
  have u: "unat PAGE_SIZE = 4096" "unat (of_nat (length text + 1) :: u64) = length text + 1" using lay(3) by (simp_all add: PAGE_SIZE_def unat_of_nat_small del: of_nat_Suc)
  let ?K = "range_of (gv pm g) (unat n)" and ?I = "range_of (gv pm ir) (unat (fi_size ?ird))" and ?G = "range_of (gv pm 0x10000) 4096"
    and ?C = "range_of (gv pm 0x20000) (length text + 1)" and ?Z = "range_of (gv pm 0x30000) 4096"
  have a: "?K \<subseteq> vm_bytes pm" "?I \<subseteq> vm_bytes pm" "?G \<subseteq> vm_bytes pm" "?C \<subseteq> vm_bytes pm"
    using vm_area[OF env] r(1,3,7) fp u by metis+
  note dis = gv_disjoint[OF env]
  have d: "?K \<inter> ?I = {}" "?K \<inter> ?G = {}" "?K \<inter> ?C = {}" "?K \<inter> ?Z = {}" "?I \<inter> ?G = {}" "?I \<inter> ?C = {}" "?I \<inter> ?Z = {}"
    "?G \<inter> ?C = {}" "?G \<inter> ?Z = {}" "?C \<inter> ?Z = {}"
    using dis[OF r(1,3)] dis[OF r(1) fp(1)] dis[OF r(1,7)] dis[OF r(1) fp(2)] dis[OF r(3) fp(1)] dis[OF r(3,7)] dis[OF r(3) fp(2)]
      dis[OF fp(1) r(7)] dis[OF fp] dis[OF r(7) fp(2)] lay u by simp_all
  have k5: "load_bytes (tmem t5) b k = load_bytes (tmem t4) b k" if "range_of b k \<subseteq> vm_bytes pm" "range_of b k \<inter> ?Z = {}" for b k
    using page_copied_other[OF r(10) env4 that] .
  have k4: "load_bytes (tmem t4) b k = load_bytes (tmem t3) b k" if "range_of b k \<inter> ?C = {}" for b k
    using copied_keeps[OF that] by (simp add: r(8))
  have k3: "load_bytes (tmem t3) b k = load_bytes (tmem t2) b k" if "range_of b k \<subseteq> vm_bytes pm" "range_of b k \<inter> ?G = {}" for b k
    using page_copied_other[OF r(5) env2 that] .
  have src': "source_area s pm (fi_addr ?bz) (unat (fi_size ?bz))" "source_area s pm (fi_addr ?ird) (unat (fi_size ?ird))" "source_area s pm cl (length text + 1)"
    using src by (simp_all add: sources_ok_def)
  note b = check_image_bounds[OF ci]
  have sk: "source_area s pm (fi_addr ?bz + ucast off) (unat n)" using source_sub[OF src'(1) b(1)] by simp
  have fit: "fits (fi_addr ?bz + ucast off) (unat n)" "fits (fi_addr ?ird) (unat (fi_size ?ird))" "fits cl (length text + 1)"
    using sk src' by (simp_all add: source_area_def)
  have kernel: "load_bytes (tmem t5) (gv pm g) (unat n) = load_bytes (tmem s) (fi_addr ?bz + ucast off) (unat n)"
    using k5[OF a(1) d(4)] k4[OF d(3)] k3[OF a(1) d(2)] copied_keeps[OF d(1)] load_copied[OF fit(1)] by (simp add: t1_def t2_def)
  have initrd: "load_bytes (tmem t5) (gv pm ir) (unat (fi_size ?ird)) = load_bytes (tmem s) (fi_addr ?ird) (unat (fi_size ?ird))"
    using k5[OF a(2) d(7)] k4[OF d(6)] k3[OF a(2) d(5)] load_copied[OF fit(2)] contained_load[OF r(2) src'(2)] by (simp add: t2_def)
  have line: "load_bytes (tmem t5) (gv pm 0x20000) (length text + 1) = load_bytes (tmem s) cl (length text + 1)"
    using k5[OF a(4) d(10)] load_copied[OF fit(3)] contained_load[OF r(6) src'(3)] by (simp add: r(8))
  have gdt: "load_bytes (tmem t5) (gv pm 0x10000 + of_nat i) 8 = load_bytes (fill_boot_gdt (memset (tmem t2) p 0 4096) p) (p + of_nat i) 8"
    if "i + 8 \<le> 4096" for i
  proof -
    have "range_of (gv pm 0x10000 + of_nat i) 8 \<subseteq> ?G" using sub_range[OF that] .
    then have x: "range_of (gv pm 0x10000 + of_nat i) 8 \<subseteq> vm_bytes pm" "range_of (gv pm 0x10000 + of_nat i) 8 \<inter> ?Z = {}"
      "range_of (gv pm 0x10000 + of_nat i) 8 \<inter> ?C = {}" using a(3) d(8,9) by blast+
    show ?thesis using k5[OF x(1,2)] k4[OF x(3)] page_copied_at[OF r(5) env2 that] by simp
  qed
  have "source_area s pm (fi_addr ?bz + of_nat 0x1F1) 123" using source_sub[OF src'(1) b(2)] .
  then have "source_area t4 pm (fi_addr ?bz + SETUP_HEADER_OFFSET) 123" using contained_source[OF r(9)] by (simp add: SETUP_HEADER_OFFSET_def)
  note zero = boot_params_copied[OF r(10) env4 this, unfolded contained_header[OF r(9) src'(1) b(2)]]
  show ?thesis using kernel initrd line gdt[of 16] gdt[of 24] zero boot_gdt_contents[of "memset (tmem t2) p 0 4096" p]
    by (simp add: guest_image_def Let_def load64_def)
qed

section \<open>Properties\<close>

text \<open>
  C4. Loading a kernel stays in its VM. The conditions: a command line is configured (without one the loader dereferences a null pointer), the memory of the VM is one range
  below \<open>2 ^ 47\<close> that is not in free frames, the image, the initial file system and the command line are in memory outside the VM that is in use, and
  the allocator is well-formed with fewer than \<open>2 ^ 35\<close> frames. Then, whatever the image contains, the call returns, the same frames are in use as before, and of the
  memory that is in use only that of the VM is changed (the page that is allocated as a buffer and released again was free). It succeeds exactly when
  the image passes the checks, every part fits into the VM and a page is free; otherwise the load information is not touched.
\<close>

theorem load_linux_contained:
  assumes "load_env s pm" "sources_ok s pm config cl text"
  shows "\<exists>code li' t. load_linux_32bit_direct_boot_for_vm s pm config cl li = Inr (code, li', t) \<and> contained s pm t
    \<and> (code = 0 \<longleftrightarrow> loadable s pm config text) \<and> (code \<noteq> 0 \<longrightarrow> li' = li)"
  using assms
proof (cases rule: load_linux_cases[where li = li])
  case (failed code t)
  then show ?thesis by auto
next
  case (loaded off n g e ir t3 t4 t5 p q)
  then show ?thesis by (auto simp: load_run_def Let_def)
qed

text \<open>
  C5. Under the conditions of loading (a command line, and sources in used memory outside the VM), and if the image is loaded at 0x31000 or above, the kernel ends at
  or below the address of the initial file system, and the command line is shorter than 0x10000 bytes, the guest finds what it needs to boot after a successful load: the
  kernel at its load address, the initial file system, flat segments in the descriptor table, the command line, and boot parameters that refer to them and
  describe the memory of the VM. The loader itself does not check these three layout conditions.
\<close>

theorem load_linux_guest_image:
  assumes "load_env s pm" "sources_ok s pm config cl text"
    and "load_linux_32bit_direct_boot_for_vm s pm config cl li = Inr (0, li', t)"
    and "check_image (tmem s) (lb_bzImage (boot_linux config)) = Some (off, n, g, e)"
    and "ir = initramfs_address (read_setup_header (tmem s) (fi_addr (lb_bzImage (boot_linux config)) + SETUP_HEADER_OFFSET)) e"
    and "0x31000 \<le> unat g" "unat g + unat n \<le> unat ir" "length text < 0x10000"
  shows "guest_image s pm config cl text off n g ir (tmem t) \<and> pm_kernel_entry_point li' = g \<and> gdt_page li' = 0x10000 \<and> zero_page li' = 0x30000"
  using assms(1,2)
proof (cases rule: load_linux_cases[where li = li])
  case (failed code t)
  then show ?thesis using assms(3) by simp
next
  case (loaded off' n' g' e' ir' t3 t4 t5 p q)
  then have eq: "off' = off" "n' = n" "g' = g" "e' = e" "ir' = ir" "t5 = t" using assms(3-5) by simp_all
  then show ?thesis using load_run_image[OF assms(1,2) loaded(5)[unfolded eq] assms(4,6-8)] loaded(1) assms(3) by auto
qed

text \<open>The end of the setup header that an image declares is never checked: -1 is true as a \<^verbatim>\<open>bool\<close>.\<close>

lemma header_end_not_checked:
  "valid_linux_setup_header hdr \<longleftrightarrow> sh_boot_flag hdr = 0xAA55 \<and> sh_header hdr = 0x53726448 \<and> (sh_jump hdr AND 0xFF) = 0xEB"
  by (simp add: valid_linux_setup_header_def Let_def SETUP_HEADER_MAGIC_NUMBER_def SETUP_HEADER_MAGIC_SIG_RAW_def SETUP_HEADER_JMP_OPCODE_def)

section \<open>An example\<close>

lemma low_source_area:
  assumes "frame_count (tframes s) < 2 ^ 35" "unat (pm_end pm) < 2 ^ 47" "unat a + n \<le> 2 ^ 47"
  shows "source_area s pm a n"
proof -
  have f: "fits a n" using assms(3) by (simp add: fits_def)
  have "reserved (tframes s) x \<and> x \<notin> vm_bytes pm" if "x \<in> range_of a n" for x
  proof -
    obtain i where "i < n" "x = a + of_nat i" using \<open>x \<in> range_of a n\<close> unfolding range_of_def by blast
    then have u: "unat x < 2 ^ 47" using unat_offset[OF f] assms(3) by simp
    then have "unat (virt_to_phys x) = unat x + 2 ^ 47"
      by (simp add: virt_to_phys_def virt_to_phys_off_def HYPERVISOR_DIRECT_MAPPING_OFFSET_def unat_sub_if')
    then have "x \<notin> vm_bytes pm" using assms(2) by (simp add: vm_bytes_def word_le_nat_alt)
    moreover have "reserved (tframes s) x" using u assms(1) by (intro reserved_low) simp_all
    ultimately show ?thesis by blast
  qed
  with f show ?thesis by (simp add: source_area_def)
qed

lemma vm_above_frames:
  assumes "frame_count a < 2 ^ 35" "frame_count a * 4096 \<le> unat (pm_start pm)" "x \<in> vm_bytes pm"
  shows "reserved a x"
proof -
  have "x \<notin> range_of (frame_addr f) 4096" if f: "f < frame_count a" for f
  proof
    assume "x \<in> range_of (frame_addr f) 4096"
    then obtain i where i: "i < 4096" "x = frame_addr f + of_nat i" unfolding range_of_def by blast
    have p: "unat (pfn_to_phys (of_nat f)) = f * 4096"
      using f assms(1) unfolding pfn_to_phys_def U64_LSHIFT_def PAGE_SHIFT_def by (subst unat_push_bit_small) (simp_all add: unat_of_nat_small)
    have "virt_to_phys x = pfn_to_phys (of_nat f) + of_nat i"
      unfolding i(2) by (simp add: virt_to_phys_def virt_to_phys_off_def phys_to_virt_def phys_to_virt_off_def)
    moreover have "unat (pfn_to_phys (of_nat f) + of_nat i) = f * 4096 + i"
      using f i(1) assms(1) p by (subst unat_add_small) (simp_all add: unat_of_nat_small)
    moreover have "unat (pm_start pm) \<le> unat (virt_to_phys x)" using assms(3) by (simp add: vm_bytes_def word_le_nat_alt)
    moreover have "f * 4096 + i < frame_count a * 4096" using f i(1) by simp
    ultimately show False using assms(2) by simp
  qed
  then show ?thesis by (simp add: reserved_def)
qed

text \<open>An image of four sectors with a kernel of 16 bytes, for a VM of 16 MB.\<close>

definition example_vm :: vm_physical_memory where
  "example_vm = \<lparr>pm_start = 0x1000000, pm_end = 0x1FFFFFF\<rparr>"

definition example_load :: table_state where
  "example_load = \<lparr>tmem = (\<lambda>_. 0)(0x4001F1 := 1, 0x4001F4 := 1, 0x4001FE := 0x55, 0x4001FF := 0xAA, 0x400200 := 0xEB, 0x400201 := 0x6A,
     0x400202 := 0x48, 0x400203 := 0x64, 0x400204 := 0x72, 0x400205 := 0x53, 0x400206 := 0x0F, 0x400207 := 0x02, 0x400211 := 1,
     0x400216 := 0x10, 0x400238 := 0xFF, 0x40025A := 0x10, 0x400261 := 0x10, 0x400400 := 0xF4), tframes = small_allocator\<rparr>"

definition example_config :: vm_config where
  "example_config = \<lparr>cfg_name = Some ''g'', cfg_type = LINUX_DIRECT_BOOT_32BIT, nr_vcpus = 1, mem_size = 16, granularity = MB,
     boot_linux = \<lparr>lb_bzImage = \<lparr>fi_addr = 0x400000, fi_size = 0x800\<rparr>, lb_initramfs = \<lparr>fi_addr = 0x500000, fi_size = 32\<rparr>, lb_cmdline = Some ''ro''\<rparr>,
     uart_info = \<lparr>configured = False, host_base_port = 0, host_irq = 0, vm_irq = 0\<rparr>\<rparr>"

lemma example_check: "check_image (tmem example_load) (lb_bzImage (boot_linux example_config)) = Some (1024, 16, 0x100000, 0x1000)"
  by code_simp

lemma example_initramfs:
  "initramfs_address (read_setup_header (tmem example_load) (fi_addr (lb_bzImage (boot_linux example_config)) + SETUP_HEADER_OFFSET)) 0x1000 = 0x102000"
  by code_simp

lemma example_env: "load_env example_load example_vm" "sources_ok example_load example_vm example_config 0x600000 ''ro''"
proof -
  have fc: "frame_count (tframes example_load) = 16" by (simp add: example_load_def frame_count_def bitmap_size_def small_allocator_def)
  then show "load_env example_load example_vm"
    using small_allocator_ok vm_above_frames[of "tframes example_load" example_vm] by (simp add: load_env_def example_vm_def) (simp add: example_load_def)
  have l: "source_area example_load example_vm a n" if "unat a + n \<le> 2 ^ 47" for a n
    using that fc by (intro low_source_area) (simp_all add: example_vm_def)
  show "sources_ok example_load example_vm example_config 0x600000 ''ro''" by (simp add: sources_ok_def example_config_def l nul_free_def)
qed

lemma example_loadable: "loadable example_load example_vm example_config ''ro''"
proof -
  have c: "2 \<le> sh_cmdline_size (read_setup_header (tmem example_load) (0x400000 + SETUP_HEADER_OFFSET))" by code_simp
  have "\<not> frame_used (bitmap small_allocator) 5" using small_allocator_free unfolding area_free_def by force
  then have p: "page_available (tframes example_load)"
    by (auto simp: page_available_def example_load_def free_frames_def frame_count_def bitmap_size_def small_allocator_def intro!: exI[of _ 5])
  show ?thesis using example_initramfs c p unfolding loadable_def Let_def example_check
    by (simp add: vm_memory_contig_range_fits_def get_vm_memory_size_def example_vm_def PAGE_SIZE_def example_config_def)
qed

definition no_load_info :: linux_load_info where
  "no_load_info = \<lparr>pm_kernel = 0, pm_kernel_size = 0, pm_kernel_entry_point = 0, gdt_page = 0, zero_page = 0, command_line_string = 0\<rparr>"

theorem load_linux_contained_witness:
  "\<exists>li t. load_linux_32bit_direct_boot_for_vm example_load example_vm example_config 0x600000 no_load_info = Inr (0, li, t)
    \<and> contained example_load example_vm t"
  using load_linux_contained[OF example_env] example_loadable by blast

theorem load_linux_guest_image_witness:
  "\<exists>li t. load_linux_32bit_direct_boot_for_vm example_load example_vm example_config 0x600000 no_load_info = Inr (0, li, t)
    \<and> guest_image example_load example_vm example_config 0x600000 ''ro'' 1024 16 0x100000 0x102000 (tmem t)"
  using example_env
proof (cases rule: load_linux_cases[where li = no_load_info])
  case (failed code t)
  then show ?thesis using example_loadable by simp
next
  case (loaded off n g e ir t3 t4 t5 p q)
  then show ?thesis using load_linux_guest_image[OF example_env loaded(1) example_check example_initramfs[symmetric]] by auto
qed

end
