(* ===== verification/Vmcs.thy ===== *)
theory Vmcs
  imports Vmx_Policy Cpu_Topology
begin

text \<open>
  Virtual machine control structures: the field encodings of \<^verbatim>\<open>arch/x64/include/vmx/vmcs.h\<close> and the instruction
  wrappers of \<^verbatim>\<open>vmx_ops.h\<close>. The contents of a structure are a function from encodings to values. Which pointers
  and fields an instruction refuses is a property of the processor and an argument (\<open>vmx_processor\<close>); what an accepted
  instruction does to the current structure of the executing processor is modelled as the manual of the processor
  defines it.
\<close>

section \<open>Encodings\<close>

text \<open>16 bit fields\<close>

definition VIRTUAL_PROCESSOR_ID :: u64 where "VIRTUAL_PROCESSOR_ID = 0x0"
definition POSTED_INTERRUPT_NOTIFICATION_VECTOR :: u64 where "POSTED_INTERRUPT_NOTIFICATION_VECTOR = 0x2"
definition EPTP_INDEX :: u64 where "EPTP_INDEX = 0x4"
definition GUEST_ES_SELECTOR :: u64 where "GUEST_ES_SELECTOR = 0x800"
definition GUEST_CS_SELECTOR :: u64 where "GUEST_CS_SELECTOR = 0x802"
definition GUEST_SS_SELECTOR :: u64 where "GUEST_SS_SELECTOR = 0x804"
definition GUEST_DS_SELECTOR :: u64 where "GUEST_DS_SELECTOR = 0x806"
definition GUEST_FS_SELECTOR :: u64 where "GUEST_FS_SELECTOR = 0x808"
definition GUEST_GS_SELECTOR :: u64 where "GUEST_GS_SELECTOR = 0x80A"
definition GUEST_LDTR_SELECTOR :: u64 where "GUEST_LDTR_SELECTOR = 0x80C"
definition GUEST_TR_SELECTOR :: u64 where "GUEST_TR_SELECTOR = 0x80E"
definition GUEST_INTERRUPT_STATUS :: u64 where "GUEST_INTERRUPT_STATUS = 0x810"
definition HOST_ES_SELECTOR :: u64 where "HOST_ES_SELECTOR = 0xC00"
definition HOST_CS_SELECTOR :: u64 where "HOST_CS_SELECTOR = 0xC02"
definition HOST_SS_SELECTOR :: u64 where "HOST_SS_SELECTOR = 0xC04"
definition HOST_DS_SELECTOR :: u64 where "HOST_DS_SELECTOR = 0xC06"
definition HOST_FS_SELECTOR :: u64 where "HOST_FS_SELECTOR = 0xC08"
definition HOST_GS_SELECTOR :: u64 where "HOST_GS_SELECTOR = 0xC0A"
definition HOST_TR_SELECTOR :: u64 where "HOST_TR_SELECTOR = 0xC0C"

text \<open>64 bit fields (encodings for access type FULL)\<close>

definition ADDRESS_IO_BITMAP_A :: u64 where "ADDRESS_IO_BITMAP_A = 0x2000"
definition ADDRESS_IO_BITMAP_B :: u64 where "ADDRESS_IO_BITMAP_B = 0x2002"
definition ADDRESS_MSR_BITMAPS :: u64 where "ADDRESS_MSR_BITMAPS = 0x2004"
definition VM_EXIT_MSR_STORE_ADDRESS :: u64 where "VM_EXIT_MSR_STORE_ADDRESS = 0x2006"
definition VM_EXIT_MSR_LOAD_ADDRESS :: u64 where "VM_EXIT_MSR_LOAD_ADDRESS = 0x2008"
definition VM_ENTRY_MSR_LOAD_ADDRESS :: u64 where "VM_ENTRY_MSR_LOAD_ADDRESS = 0x200A"
definition VIRTUAL_APIC_PAGE :: u64 where "VIRTUAL_APIC_PAGE = 0x2012"
definition APIC_ACCESS_PAGE :: u64 where "APIC_ACCESS_PAGE = 0x2014"
definition VM_FUNCTION_CONTROLS :: u64 where "VM_FUNCTION_CONTROLS = 0x2018"
definition EPT_POINTER :: u64 where "EPT_POINTER = 0x201A"
definition VMREAD_BITMAP_ADDRESS :: u64 where "VMREAD_BITMAP_ADDRESS = 0x2026"
definition VMWRITE_BITMAP_ADDRESS :: u64 where "VMWRITE_BITMAP_ADDRESS = 0x2028"
definition TERT_PROC_BASED_VM_EXEC_CONTROLS :: u64 where "TERT_PROC_BASED_VM_EXEC_CONTROLS = 0x2034"
definition SECONDARY_VM_EXIT_CONTROLS :: u64 where "SECONDARY_VM_EXIT_CONTROLS = 0x2044"
definition GUEST_PHYSICAL_ADDRESS :: u64 where "GUEST_PHYSICAL_ADDRESS = 0x2400"
definition VMCS_LINK_POINTER :: u64 where "VMCS_LINK_POINTER = 0x2800"
definition GUEST_IA32_DEBUGCTL :: u64 where "GUEST_IA32_DEBUGCTL = 0x2802"
definition GUEST_IA32_PAT :: u64 where "GUEST_IA32_PAT = 0x2804"
definition GUEST_IA32_EFER :: u64 where "GUEST_IA32_EFER = 0x2806"
definition GUEST_PDPTE0 :: u64 where "GUEST_PDPTE0 = 0x280A"
definition GUEST_PDPTE1 :: u64 where "GUEST_PDPTE1 = 0x280C"
definition GUEST_PDPTE2 :: u64 where "GUEST_PDPTE2 = 0x280E"
definition GUEST_PDPTE3 :: u64 where "GUEST_PDPTE3 = 0x2810"
definition HOST_IA32_PAT :: u64 where "HOST_IA32_PAT = 0x2C00"
definition HOST_IA32_EFER :: u64 where "HOST_IA32_EFER = 0x2C02"

text \<open>32 bit fields\<close>

definition PIN_BASED_VM_EXECUTION_CONTROLS :: u64 where "PIN_BASED_VM_EXECUTION_CONTROLS = 0x4000"
definition PRIMARY_PROC_BASED_VM_EXEC_CONTROLS :: u64 where "PRIMARY_PROC_BASED_VM_EXEC_CONTROLS = 0x4002"
definition EXCEPTION_BITMAP :: u64 where "EXCEPTION_BITMAP = 0x4004"
definition PAGE_FAULT_ERROR_CODE_MASK :: u64 where "PAGE_FAULT_ERROR_CODE_MASK = 0x4006"
definition PAGE_FAULT_ERROR_CODE_MATCH :: u64 where "PAGE_FAULT_ERROR_CODE_MATCH = 0x4008"
definition PRIMARY_VM_EXIT_CONTROLS :: u64 where "PRIMARY_VM_EXIT_CONTROLS = 0x400C"
definition VM_EXIT_MSR_STORE_COUNT :: u64 where "VM_EXIT_MSR_STORE_COUNT = 0x400E"
definition VM_EXIT_MSR_LOAD_COUNT :: u64 where "VM_EXIT_MSR_LOAD_COUNT = 0x4010"
definition VM_ENTRY_CONTROLS :: u64 where "VM_ENTRY_CONTROLS = 0x4012"
definition VM_ENTRY_MSR_LOAD_COUNT :: u64 where "VM_ENTRY_MSR_LOAD_COUNT = 0x4014"
definition INJECTED_EVENT_IDENTIFICATION :: u64 where "INJECTED_EVENT_IDENTIFICATION = 0x4016"
definition INJECTED_EVENT_ERROR_CODE :: u64 where "INJECTED_EVENT_ERROR_CODE = 0x4018"
definition VM_ENTRY_INSTRUCTION_LENGTH :: u64 where "VM_ENTRY_INSTRUCTION_LENGTH = 0x401A"
definition TPR_TRESHOLD :: u64 where "TPR_TRESHOLD = 0x401C"
definition SECONDARY_PROC_BASED_VM_EXEC_CONTROLS :: u64 where "SECONDARY_PROC_BASED_VM_EXEC_CONTROLS = 0x401E"
definition INSTRUCTION_TIMEOUT_CONTROL :: u64 where "INSTRUCTION_TIMEOUT_CONTROL = 0x4024"
definition VM_INSTRUCTION_ERROR :: u64 where "VM_INSTRUCTION_ERROR = 0x4400"
definition EXIT_REASON :: u64 where "EXIT_REASON = 0x4402"
definition EXITING_EVENT_IDENTIFICATION :: u64 where "EXITING_EVENT_IDENTIFICATION = 0x4404"
definition EXITING_EVENT_ERROR_CODE :: u64 where "EXITING_EVENT_ERROR_CODE = 0x4406"
definition ORIGINAL_EVENT_IDENTIFICATION :: u64 where "ORIGINAL_EVENT_IDENTIFICATION = 0x4408"
definition ORIGINAL_EVENT_ERROR_CODE :: u64 where "ORIGINAL_EVENT_ERROR_CODE = 0x440A"
definition VM_EXIT_INSTRUCTION_LENGTH :: u64 where "VM_EXIT_INSTRUCTION_LENGTH = 0x440C"
definition VM_EXIT_INSTRUCTION_INFORMATION :: u64 where "VM_EXIT_INSTRUCTION_INFORMATION = 0x440E"
definition GUEST_ES_LIMIT :: u64 where "GUEST_ES_LIMIT = 0x4800"
definition GUEST_CS_LIMIT :: u64 where "GUEST_CS_LIMIT = 0x4802"
definition GUEST_SS_LIMIT :: u64 where "GUEST_SS_LIMIT = 0x4804"
definition GUEST_DS_LIMIT :: u64 where "GUEST_DS_LIMIT = 0x4806"
definition GUEST_FS_LIMIT :: u64 where "GUEST_FS_LIMIT = 0x4808"
definition GUEST_GS_LIMIT :: u64 where "GUEST_GS_LIMIT = 0x480A"
definition GUEST_LDTR_LIMIT :: u64 where "GUEST_LDTR_LIMIT = 0x480C"
definition GUEST_TR_LIMIT :: u64 where "GUEST_TR_LIMIT = 0x480E"
definition GUEST_GDTR_LIMIT :: u64 where "GUEST_GDTR_LIMIT = 0x4810"
definition GUEST_IDTR_LIMIT :: u64 where "GUEST_IDTR_LIMIT = 0x4812"
definition GUEST_ES_ACCESS_RIGHTS :: u64 where "GUEST_ES_ACCESS_RIGHTS = 0x4814"
definition GUEST_CS_ACCESS_RIGHTS :: u64 where "GUEST_CS_ACCESS_RIGHTS = 0x4816"
definition GUEST_SS_ACCESS_RIGHTS :: u64 where "GUEST_SS_ACCESS_RIGHTS = 0x4818"
definition GUEST_DS_ACCESS_RIGHTS :: u64 where "GUEST_DS_ACCESS_RIGHTS = 0x481A"
definition GUEST_FS_ACCESS_RIGHTS :: u64 where "GUEST_FS_ACCESS_RIGHTS = 0x481C"
definition GUEST_GS_ACCESS_RIGHTS :: u64 where "GUEST_GS_ACCESS_RIGHTS = 0x481E"
definition GUEST_LDTR_ACCESS_RIGHTS :: u64 where "GUEST_LDTR_ACCESS_RIGHTS = 0x4820"
definition GUEST_TR_ACCESS_RIGHTS :: u64 where "GUEST_TR_ACCESS_RIGHTS = 0x4822"
definition GUEST_INTERRUPTIBILITY_STATE :: u64 where "GUEST_INTERRUPTIBILITY_STATE = 0x4824"
definition GUEST_ACTIVITY_STATE :: u64 where "GUEST_ACTIVITY_STATE = 0x4826"
definition GUEST_IA32_SYSENTER_CS :: u64 where "GUEST_IA32_SYSENTER_CS = 0x482A"
definition VMX_PREEMPTION_TIMER_VALUE :: u64 where "VMX_PREEMPTION_TIMER_VALUE = 0x482E"
definition HOST_IA32_SYSENTER_CS :: u64 where "HOST_IA32_SYSENTER_CS = 0x4C00"

text \<open>Normal width fields\<close>

definition CR0_GUEST_HOST_MASK :: u64 where "CR0_GUEST_HOST_MASK = 0x6000"
definition CR4_GUEST_HOST_MASK :: u64 where "CR4_GUEST_HOST_MASK = 0x6002"
definition CR0_READ_SHADOW :: u64 where "CR0_READ_SHADOW = 0x6004"
definition CR4_READ_SHADOW :: u64 where "CR4_READ_SHADOW = 0x6006"
definition EXIT_QUALIFICATION :: u64 where "EXIT_QUALIFICATION = 0x6400"
definition IO_RCX :: u64 where "IO_RCX = 0x6402"
definition IO_RSI :: u64 where "IO_RSI = 0x6404"
definition IO_RDI :: u64 where "IO_RDI = 0x6406"
definition IO_RIP :: u64 where "IO_RIP = 0x6408"
definition GUEST_LINEAR_ADDRESS :: u64 where "GUEST_LINEAR_ADDRESS = 0x640A"
definition GUEST_CR0 :: u64 where "GUEST_CR0 = 0x6800"
definition GUEST_CR3 :: u64 where "GUEST_CR3 = 0x6802"
definition GUEST_CR4 :: u64 where "GUEST_CR4 = 0x6804"
definition GUEST_ES_BASE :: u64 where "GUEST_ES_BASE = 0x6806"
definition GUEST_CS_BASE :: u64 where "GUEST_CS_BASE = 0x6808"
definition GUEST_SS_BASE :: u64 where "GUEST_SS_BASE = 0x680A"
definition GUEST_DS_BASE :: u64 where "GUEST_DS_BASE = 0x680C"
definition GUEST_FS_BASE :: u64 where "GUEST_FS_BASE = 0x680E"
definition GUEST_GS_BASE :: u64 where "GUEST_GS_BASE = 0x6810"
definition GUEST_LDTR_BASE :: u64 where "GUEST_LDTR_BASE = 0x6812"
definition GUEST_TR_BASE :: u64 where "GUEST_TR_BASE = 0x6814"
definition GUEST_GDTR_BASE :: u64 where "GUEST_GDTR_BASE = 0x6816"
definition GUEST_IDTR_BASE :: u64 where "GUEST_IDTR_BASE = 0x6818"
definition GUEST_DR7 :: u64 where "GUEST_DR7 = 0x681A"
definition GUEST_RSP :: u64 where "GUEST_RSP = 0x681C"
definition GUEST_RIP :: u64 where "GUEST_RIP = 0x681E"
definition GUEST_RFLAGS :: u64 where "GUEST_RFLAGS = 0x6820"
definition GUEST_PENDING_DEBUG_EXCEPTIONS :: u64 where "GUEST_PENDING_DEBUG_EXCEPTIONS = 0x6822"
definition GUEST_IA32_SYSENTER_ESP :: u64 where "GUEST_IA32_SYSENTER_ESP = 0x6824"
definition GUEST_IA32_SYSENTER_EIP :: u64 where "GUEST_IA32_SYSENTER_EIP = 0x6826"
definition HOST_CR0 :: u64 where "HOST_CR0 = 0x6C00"
definition HOST_CR3 :: u64 where "HOST_CR3 = 0x6C02"
definition HOST_CR4 :: u64 where "HOST_CR4 = 0x6C04"
definition HOST_FS_BASE :: u64 where "HOST_FS_BASE = 0x6C06"
definition HOST_GS_BASE :: u64 where "HOST_GS_BASE = 0x6C08"
definition HOST_TR_BASE :: u64 where "HOST_TR_BASE = 0x6C0A"
definition HOST_GDTR_BASE :: u64 where "HOST_GDTR_BASE = 0x6C0C"
definition HOST_IDTR_BASE :: u64 where "HOST_IDTR_BASE = 0x6C0E"
definition HOST_IA32_SYSENTER_ESP :: u64 where "HOST_IA32_SYSENTER_ESP = 0x6C10"
definition HOST_IA32_SYSENTER_EIP :: u64 where "HOST_IA32_SYSENTER_EIP = 0x6C12"
definition HOST_RSP :: u64 where "HOST_RSP = 0x6C14"
definition HOST_RIP :: u64 where "HOST_RIP = 0x6C16"

definition fields16 :: "u64 list" where
  "fields16 = [VIRTUAL_PROCESSOR_ID, POSTED_INTERRUPT_NOTIFICATION_VECTOR, EPTP_INDEX, GUEST_ES_SELECTOR, GUEST_CS_SELECTOR, GUEST_SS_SELECTOR, GUEST_DS_SELECTOR, GUEST_FS_SELECTOR, GUEST_GS_SELECTOR, GUEST_LDTR_SELECTOR, GUEST_TR_SELECTOR, GUEST_INTERRUPT_STATUS, HOST_ES_SELECTOR, HOST_CS_SELECTOR, HOST_SS_SELECTOR, HOST_DS_SELECTOR, HOST_FS_SELECTOR, HOST_GS_SELECTOR, HOST_TR_SELECTOR]"

definition fields64 :: "u64 list" where
  "fields64 = [ADDRESS_IO_BITMAP_A, ADDRESS_IO_BITMAP_B, ADDRESS_MSR_BITMAPS, VM_EXIT_MSR_STORE_ADDRESS, VM_EXIT_MSR_LOAD_ADDRESS, VM_ENTRY_MSR_LOAD_ADDRESS, VIRTUAL_APIC_PAGE, APIC_ACCESS_PAGE, VM_FUNCTION_CONTROLS, EPT_POINTER, VMREAD_BITMAP_ADDRESS, VMWRITE_BITMAP_ADDRESS, TERT_PROC_BASED_VM_EXEC_CONTROLS, SECONDARY_VM_EXIT_CONTROLS, GUEST_PHYSICAL_ADDRESS, VMCS_LINK_POINTER, GUEST_IA32_DEBUGCTL, GUEST_IA32_PAT, GUEST_IA32_EFER, GUEST_PDPTE0, GUEST_PDPTE1, GUEST_PDPTE2, GUEST_PDPTE3, HOST_IA32_PAT, HOST_IA32_EFER]"

definition fields32 :: "u64 list" where
  "fields32 = [PIN_BASED_VM_EXECUTION_CONTROLS, PRIMARY_PROC_BASED_VM_EXEC_CONTROLS, EXCEPTION_BITMAP, PAGE_FAULT_ERROR_CODE_MASK, PAGE_FAULT_ERROR_CODE_MATCH, PRIMARY_VM_EXIT_CONTROLS, VM_EXIT_MSR_STORE_COUNT, VM_EXIT_MSR_LOAD_COUNT, VM_ENTRY_CONTROLS, VM_ENTRY_MSR_LOAD_COUNT, INJECTED_EVENT_IDENTIFICATION, INJECTED_EVENT_ERROR_CODE, VM_ENTRY_INSTRUCTION_LENGTH, TPR_TRESHOLD, SECONDARY_PROC_BASED_VM_EXEC_CONTROLS, INSTRUCTION_TIMEOUT_CONTROL, VM_INSTRUCTION_ERROR, EXIT_REASON, EXITING_EVENT_IDENTIFICATION, EXITING_EVENT_ERROR_CODE, ORIGINAL_EVENT_IDENTIFICATION, ORIGINAL_EVENT_ERROR_CODE, VM_EXIT_INSTRUCTION_LENGTH, VM_EXIT_INSTRUCTION_INFORMATION, GUEST_ES_LIMIT, GUEST_CS_LIMIT, GUEST_SS_LIMIT, GUEST_DS_LIMIT, GUEST_FS_LIMIT, GUEST_GS_LIMIT, GUEST_LDTR_LIMIT, GUEST_TR_LIMIT, GUEST_GDTR_LIMIT, GUEST_IDTR_LIMIT, GUEST_ES_ACCESS_RIGHTS, GUEST_CS_ACCESS_RIGHTS, GUEST_SS_ACCESS_RIGHTS, GUEST_DS_ACCESS_RIGHTS, GUEST_FS_ACCESS_RIGHTS, GUEST_GS_ACCESS_RIGHTS, GUEST_LDTR_ACCESS_RIGHTS, GUEST_TR_ACCESS_RIGHTS, GUEST_INTERRUPTIBILITY_STATE, GUEST_ACTIVITY_STATE, GUEST_IA32_SYSENTER_CS, VMX_PREEMPTION_TIMER_VALUE, HOST_IA32_SYSENTER_CS]"

definition fields_natural :: "u64 list" where
  "fields_natural = [CR0_GUEST_HOST_MASK, CR4_GUEST_HOST_MASK, CR0_READ_SHADOW, CR4_READ_SHADOW, EXIT_QUALIFICATION, IO_RCX, IO_RSI, IO_RDI, IO_RIP, GUEST_LINEAR_ADDRESS, GUEST_CR0, GUEST_CR3, GUEST_CR4, GUEST_ES_BASE, GUEST_CS_BASE, GUEST_SS_BASE, GUEST_DS_BASE, GUEST_FS_BASE, GUEST_GS_BASE, GUEST_LDTR_BASE, GUEST_TR_BASE, GUEST_GDTR_BASE, GUEST_IDTR_BASE, GUEST_DR7, GUEST_RSP, GUEST_RIP, GUEST_RFLAGS, GUEST_PENDING_DEBUG_EXCEPTIONS, GUEST_IA32_SYSENTER_ESP, GUEST_IA32_SYSENTER_EIP, HOST_CR0, HOST_CR3, HOST_CR4, HOST_FS_BASE, HOST_GS_BASE, HOST_TR_BASE, HOST_GDTR_BASE, HOST_IDTR_BASE, HOST_IA32_SYSENTER_ESP, HOST_IA32_SYSENTER_EIP, HOST_RSP, HOST_RIP]"

lemmas field_defs = VIRTUAL_PROCESSOR_ID_def POSTED_INTERRUPT_NOTIFICATION_VECTOR_def EPTP_INDEX_def GUEST_ES_SELECTOR_def GUEST_CS_SELECTOR_def GUEST_SS_SELECTOR_def GUEST_DS_SELECTOR_def GUEST_FS_SELECTOR_def GUEST_GS_SELECTOR_def GUEST_LDTR_SELECTOR_def GUEST_TR_SELECTOR_def GUEST_INTERRUPT_STATUS_def HOST_ES_SELECTOR_def HOST_CS_SELECTOR_def HOST_SS_SELECTOR_def HOST_DS_SELECTOR_def HOST_FS_SELECTOR_def HOST_GS_SELECTOR_def HOST_TR_SELECTOR_def ADDRESS_IO_BITMAP_A_def ADDRESS_IO_BITMAP_B_def ADDRESS_MSR_BITMAPS_def VM_EXIT_MSR_STORE_ADDRESS_def VM_EXIT_MSR_LOAD_ADDRESS_def VM_ENTRY_MSR_LOAD_ADDRESS_def VIRTUAL_APIC_PAGE_def APIC_ACCESS_PAGE_def VM_FUNCTION_CONTROLS_def EPT_POINTER_def VMREAD_BITMAP_ADDRESS_def VMWRITE_BITMAP_ADDRESS_def TERT_PROC_BASED_VM_EXEC_CONTROLS_def SECONDARY_VM_EXIT_CONTROLS_def GUEST_PHYSICAL_ADDRESS_def VMCS_LINK_POINTER_def GUEST_IA32_DEBUGCTL_def GUEST_IA32_PAT_def GUEST_IA32_EFER_def GUEST_PDPTE0_def GUEST_PDPTE1_def GUEST_PDPTE2_def GUEST_PDPTE3_def HOST_IA32_PAT_def HOST_IA32_EFER_def PIN_BASED_VM_EXECUTION_CONTROLS_def PRIMARY_PROC_BASED_VM_EXEC_CONTROLS_def EXCEPTION_BITMAP_def PAGE_FAULT_ERROR_CODE_MASK_def PAGE_FAULT_ERROR_CODE_MATCH_def PRIMARY_VM_EXIT_CONTROLS_def VM_EXIT_MSR_STORE_COUNT_def VM_EXIT_MSR_LOAD_COUNT_def VM_ENTRY_CONTROLS_def VM_ENTRY_MSR_LOAD_COUNT_def INJECTED_EVENT_IDENTIFICATION_def INJECTED_EVENT_ERROR_CODE_def VM_ENTRY_INSTRUCTION_LENGTH_def TPR_TRESHOLD_def SECONDARY_PROC_BASED_VM_EXEC_CONTROLS_def INSTRUCTION_TIMEOUT_CONTROL_def VM_INSTRUCTION_ERROR_def EXIT_REASON_def EXITING_EVENT_IDENTIFICATION_def EXITING_EVENT_ERROR_CODE_def ORIGINAL_EVENT_IDENTIFICATION_def ORIGINAL_EVENT_ERROR_CODE_def VM_EXIT_INSTRUCTION_LENGTH_def VM_EXIT_INSTRUCTION_INFORMATION_def GUEST_ES_LIMIT_def GUEST_CS_LIMIT_def GUEST_SS_LIMIT_def GUEST_DS_LIMIT_def GUEST_FS_LIMIT_def GUEST_GS_LIMIT_def GUEST_LDTR_LIMIT_def GUEST_TR_LIMIT_def GUEST_GDTR_LIMIT_def GUEST_IDTR_LIMIT_def GUEST_ES_ACCESS_RIGHTS_def GUEST_CS_ACCESS_RIGHTS_def GUEST_SS_ACCESS_RIGHTS_def GUEST_DS_ACCESS_RIGHTS_def GUEST_FS_ACCESS_RIGHTS_def GUEST_GS_ACCESS_RIGHTS_def GUEST_LDTR_ACCESS_RIGHTS_def GUEST_TR_ACCESS_RIGHTS_def GUEST_INTERRUPTIBILITY_STATE_def GUEST_ACTIVITY_STATE_def GUEST_IA32_SYSENTER_CS_def VMX_PREEMPTION_TIMER_VALUE_def HOST_IA32_SYSENTER_CS_def CR0_GUEST_HOST_MASK_def CR4_GUEST_HOST_MASK_def CR0_READ_SHADOW_def CR4_READ_SHADOW_def EXIT_QUALIFICATION_def IO_RCX_def IO_RSI_def IO_RDI_def IO_RIP_def GUEST_LINEAR_ADDRESS_def GUEST_CR0_def GUEST_CR3_def GUEST_CR4_def GUEST_ES_BASE_def GUEST_CS_BASE_def GUEST_SS_BASE_def GUEST_DS_BASE_def GUEST_FS_BASE_def GUEST_GS_BASE_def GUEST_LDTR_BASE_def GUEST_TR_BASE_def GUEST_GDTR_BASE_def GUEST_IDTR_BASE_def GUEST_DR7_def GUEST_RSP_def GUEST_RIP_def GUEST_RFLAGS_def GUEST_PENDING_DEBUG_EXCEPTIONS_def GUEST_IA32_SYSENTER_ESP_def GUEST_IA32_SYSENTER_EIP_def HOST_CR0_def HOST_CR3_def HOST_CR4_def HOST_FS_BASE_def HOST_GS_BASE_def HOST_TR_BASE_def HOST_GDTR_BASE_def HOST_IDTR_BASE_def HOST_IA32_SYSENTER_ESP_def HOST_IA32_SYSENTER_EIP_def HOST_RSP_def HOST_RIP_def

text \<open>The parts of an encoding.\<close>

definition enc_access_type :: "u64 \<Rightarrow> u64" where
  "enc_access_type enc = take_bit 1 enc"

definition enc_width :: "u64 \<Rightarrow> u64" where
  "enc_width enc = take_bit 2 (drop_bit 13 enc)"

definition enc_reserved :: "u64 \<Rightarrow> u64" where
  "enc_reserved enc = enc AND 0xFFFF9000"

text \<open>The number of bits of a field: 16, 64, 32 or the natural width, which is 64 as well.\<close>

definition field_bits :: "u64 \<Rightarrow> nat" where
  "field_bits enc = (if enc_width enc = 0 then 16 else if enc_width enc = 2 then 32 else 64)"

section \<open>Results\<close>

definition VMX_SUCCESS :: int where "VMX_SUCCESS = 0"
definition VMX_OP_FAIL_INVALID :: int where "VMX_OP_FAIL_INVALID = 29"
definition VMX_VM_ENTRY_ERROR :: int where "VMX_VM_ENTRY_ERROR = 34"

definition NO_CURRENT_VMCS_ADDR :: u64 where
  "NO_CURRENT_VMCS_ADDR = NOT 0"

definition NO_VMCS_LINK_PTR :: u64 where
  "NO_VMCS_LINK_PTR = NOT 0"

section \<open>Instructions\<close>

text \<open>
  The error number with which the processor refuses an operand; 0 for an operand it accepts. Loading a pointer
  depends on the revision identifier at the beginning of the structure as well.
\<close>

record vmx_processor =
  vmclear_error :: "phys_addr \<Rightarrow> int"
  vmptrld_error :: "phys_addr \<Rightarrow> u32 \<Rightarrow> int"
  vmread_error :: "u64 \<Rightarrow> int"
  vmwrite_error :: "u64 \<Rightarrow> int"

type_synonym fields = "u64 \<Rightarrow> u64"

text \<open>The control structures in memory by address, and the current one of each processor.\<close>

record vmcs_state =
  regions :: "phys_addr \<Rightarrow> fields"
  current_vmcs :: "cpuid \<Rightarrow> phys_addr"

text \<open>The outcome of a failed instruction: without a current structure there is no place for an error number.\<close>

definition vm_fail :: "vmcs_state \<Rightarrow> cpuid \<Rightarrow> int \<Rightarrow> int" where
  "vm_fail s c e = (if current_vmcs s c = NO_CURRENT_VMCS_ADDR then VMX_OP_FAIL_INVALID else e)"

definition vmclear :: "vmx_processor \<Rightarrow> cpuid \<Rightarrow> phys_addr \<Rightarrow> vmcs_state \<Rightarrow> int \<times> vmcs_state" where
  "vmclear hw c p s =
     (if vmclear_error hw p \<noteq> 0 then (vm_fail s c (vmclear_error hw p), s)
      else (VMX_SUCCESS, if current_vmcs s c = p then s\<lparr>current_vmcs := (current_vmcs s)(c := NO_CURRENT_VMCS_ADDR)\<rparr> else s))"

definition vmptrld :: "vmx_processor \<Rightarrow> cpuid \<Rightarrow> phys_addr \<Rightarrow> u32 \<Rightarrow> vmcs_state \<Rightarrow> int \<times> vmcs_state" where
  "vmptrld hw c p revision s =
     (if vmptrld_error hw p revision \<noteq> 0 then (vm_fail s c (vmptrld_error hw p revision), s)
      else (VMX_SUCCESS, s\<lparr>current_vmcs := (current_vmcs s)(c := p)\<rparr>))"

text \<open>A read that fails stores nothing.\<close>

definition vmread :: "vmx_processor \<Rightarrow> cpuid \<Rightarrow> u64 \<Rightarrow> vmcs_state \<Rightarrow> int \<times> u64 option" where
  "vmread hw c enc s =
     (if current_vmcs s c = NO_CURRENT_VMCS_ADDR then (VMX_OP_FAIL_INVALID, None)
      else if vmread_error hw enc \<noteq> 0 then (vmread_error hw enc, None)
      else (VMX_SUCCESS, Some (regions s (current_vmcs s c) enc)))"

definition vmwrite :: "vmx_processor \<Rightarrow> cpuid \<Rightarrow> u64 \<Rightarrow> u64 \<Rightarrow> vmcs_state \<Rightarrow> int \<times> vmcs_state" where
  "vmwrite hw c enc val s =
     (let p = current_vmcs s c in
      if p = NO_CURRENT_VMCS_ADDR then (VMX_OP_FAIL_INVALID, s)
      else if vmwrite_error hw enc \<noteq> 0 then (vmwrite_error hw enc, s)
      else (VMX_SUCCESS, s\<lparr>regions := (regions s)(p := (regions s p)(enc := take_bit (field_bits enc) val))\<rparr>))"

text \<open>Writes one after the other whose results the caller ignores.\<close>

fun vmwrites :: "vmx_processor \<Rightarrow> cpuid \<Rightarrow> (u64 \<times> u64) list \<Rightarrow> vmcs_state \<Rightarrow> vmcs_state" where
  "vmwrites hw c [] s = s"
| "vmwrites hw c ((enc, val) # ws) s = vmwrites hw c ws (snd (vmwrite hw c enc val s))"

section \<open>The effect of writes\<close>

text \<open>What a block of writes makes of the fields of a structure.\<close>

fun put_fields :: "vmx_processor \<Rightarrow> (u64 \<times> u64) list \<Rightarrow> fields \<Rightarrow> fields" where
  "put_fields hw [] fs = fs"
| "put_fields hw ((enc, val) # ws) fs =
     put_fields hw ws (if vmwrite_error hw enc = 0 then fs(enc := take_bit (field_bits enc) val) else fs)"

lemma vmwrites_none: "current_vmcs s c = NO_CURRENT_VMCS_ADDR \<Longrightarrow> vmwrites hw c ws s = s"
  by (induction ws) (auto simp: vmwrite_def)

lemma vmwrites_put:
  "current_vmcs s c \<noteq> NO_CURRENT_VMCS_ADDR \<Longrightarrow> vmwrites hw c ws s
     = s\<lparr>regions := (regions s)(current_vmcs s c := put_fields hw ws (regions s (current_vmcs s c)))\<rparr>"
  by (induction hw c ws s rule: vmwrites.induct) (auto simp: vmwrite_def Let_def)

lemma vmwrites_current [simp]: "current_vmcs (vmwrites hw c ws s) = current_vmcs s"
  by (cases "current_vmcs s c = NO_CURRENT_VMCS_ADDR") (simp_all add: vmwrites_none vmwrites_put)

lemma vmwrites_other: "p \<noteq> current_vmcs s c \<Longrightarrow> regions (vmwrites hw c ws s) p = regions s p"
  by (cases "current_vmcs s c = NO_CURRENT_VMCS_ADDR") (simp_all add: vmwrites_none vmwrites_put)

lemma put_fields_append: "put_fields hw (vs @ ws) fs = put_fields hw ws (put_fields hw vs fs)"
  by (induction hw vs fs rule: put_fields.induct) simp_all

lemma vmwrites_append: "vmwrites hw c (vs @ ws) s = vmwrites hw c ws (vmwrites hw c vs s)"
  by (induction hw c vs s rule: vmwrites.induct) simp_all

lemma put_fields_other: "enc \<notin> fst ` set ws \<Longrightarrow> put_fields hw ws fs enc = fs enc"
  by (induction hw ws fs rule: put_fields.induct) auto

text \<open>A field that is written once holds the value at its width.\<close>

lemma put_fields_at:
  assumes "distinct (map fst ws)" "(enc, val) \<in> set ws" "vmwrite_error hw enc = 0"
  shows "put_fields hw ws fs enc = take_bit (field_bits enc) val"
  using assms
proof (induction hw ws fs rule: put_fields.induct)
  case (2 hw e v ws fs)
  show ?case
  proof (cases "(enc, val) \<in> set ws")
    case True
    then show ?thesis using 2 by simp
  next
    case False
    then have "e = enc" "v = val" "enc \<notin> fst ` set ws" using "2.prems" by auto
    then show ?thesis using "2.prems"(3) by (simp add: put_fields_other)
  qed
qed simp

section \<open>The encodings are well-formed\<close>

lemmas field_lists_def = fields16_def fields64_def fields32_def fields_natural_def

lemmas encoding_parts = enc_access_type_def enc_reserved_def enc_width_def

lemma encodings_ascending: "successively (<) (fields16 @ fields64 @ fields32 @ fields_natural)"
  by (simp add: field_lists_def field_defs)

text \<open>
  The encodings identify the fields: no two of them are equal, every one selects the full access type with its reserved bits clear,
  and its width is that of the group in which the source declares it.
\<close>

lemma vmcs_encodings_wellformed:
  "distinct (fields16 @ fields64 @ fields32 @ fields_natural)
   \<and> list_all (\<lambda>enc. enc_access_type enc = 0 \<and> enc_reserved enc = 0) (fields16 @ fields64 @ fields32 @ fields_natural)
   \<and> list_all (\<lambda>enc. enc_width enc = 0) fields16 \<and> list_all (\<lambda>enc. enc_width enc = 1) fields64
   \<and> list_all (\<lambda>enc. enc_width enc = 2) fields32 \<and> list_all (\<lambda>enc. enc_width enc = 3) fields_natural"
proof (intro conjI)
  show "distinct (fields16 @ fields64 @ fields32 @ fields_natural)"
    using encodings_ascending by (simp add: successively_conv_sorted_wrt strict_sorted_iff)
qed (simp_all only: field_lists_def list_all_append list.pred_inject append.simps, simp_all add: encoding_parts field_defs)

end
