(* ===== verification/Vmx_Vcpu.thy ===== *)
theory Vmx_Vcpu
  imports Vmcs Descriptors
begin

text \<open>
  Virtual processors and their control structures: the structures of \<^verbatim>\<open>include/vm.h\<close>, \<^verbatim>\<open>asm/vm.h\<close> and
  \<^verbatim>\<open>asm/vcpu_guest_reg_state.h\<close>, and the part of \<^verbatim>\<open>arch/x64/vmx/vmx.c\<close> that allocates a control structure, makes it current
  on a processor, clears it and releases it. Virtual processors are identified by the addresses of their structures.
\<close>

section \<open>Structures\<close>

datatype vmcs_launch_state = VMCS_LS_INVALID | VMCS_LS_CLEAR | VMCS_LS_LAUNCHED

datatype vcpu_state = VCPU_CREATED | VCPU_RUNNING | VCPU_NOT_RUNNING | VCPU_READY | VCPU_NOT_READY

datatype vlapic_mode = VLAPIC_DISABLED | VLAPIC_XAPIC | VLAPIC_X2APIC

record vcpu_user_regs =
  r15 :: u64
  r14 :: u64
  r13 :: u64
  r12 :: u64
  r11 :: u64
  r10 :: u64
  r9 :: u64
  r8 :: u64
  rax :: u64
  rbx :: u64
  rcx :: u64
  rdx :: u64
  rsi :: u64
  rdi :: u64
  rbp :: u64
  rip :: u64
  rsp :: u64
  rflags :: u64

record vlapic =
  vl_mode :: vlapic_mode
  physical_apic_id :: u32
  apic_base_msr :: u64
  virtual_apic_page :: phys_addr
  timer_frequency :: u64

text \<open>A null pointer to a policy is \<open>None\<close>.\<close>

record vmx_vcpu_state =
  vmcs_ptr :: phys_addr
  active_cpu :: cpuid
  launch_state :: vmcs_launch_state
  vlapic_of :: vlapic
  virt_policy :: "vmx_virt_policy option"

record vcpu =
  vcpu_vm :: u64
  vcpu_st :: vcpu_state
  user_regs :: vcpu_user_regs
  vcpu_vmx :: vmx_vcpu_state

text \<open>
  The state that the operations share: the control structures, \<^verbatim>\<open>curr_vcpu\<close> of each processor (0 is null), the structures of the virtual
  processors by address, and memory with its page frames.
\<close>

record vmx_machine =
  vmcs :: vmcs_state
  curr_vcpu :: "cpuid \<Rightarrow> u64"
  vcpus :: "u64 \<Rightarrow> vcpu"
  pages :: table_state

definition zero_regs :: vcpu_user_regs where
  "zero_regs = \<lparr>r15 = 0, r14 = 0, r13 = 0, r12 = 0, r11 = 0, r10 = 0, r9 = 0, r8 = 0, rax = 0, rbx = 0, rcx = 0, rdx = 0,
     rsi = 0, rdi = 0, rbp = 0, rip = 0, rsp = 0, rflags = 0\<rparr>"

text \<open>A structure that was cleared with \<^verbatim>\<open>memset\<close>.\<close>

definition zero_vcpu :: vcpu where
  "zero_vcpu = \<lparr>vcpu_vm = 0, vcpu_st = VCPU_CREATED, user_regs = zero_regs,
     vcpu_vmx = \<lparr>vmcs_ptr = 0, active_cpu = 0, launch_state = VMCS_LS_INVALID,
       vlapic_of = \<lparr>vl_mode = VLAPIC_DISABLED, physical_apic_id = 0, apic_base_msr = 0, virtual_apic_page = 0, timer_frequency = 0\<rparr>,
       virt_policy = None\<rparr>\<rparr>"

definition upd_vmx :: "u64 \<Rightarrow> (vmx_vcpu_state \<Rightarrow> vmx_vcpu_state) \<Rightarrow> vmx_machine \<Rightarrow> vmx_machine" where
  "upd_vmx v f s = s\<lparr>vcpus := (vcpus s)(v := (vcpus s v)\<lparr>vcpu_vmx := f (vcpu_vmx (vcpus s v))\<rparr>)\<rparr>"

abbreviation vmx_of :: "vmx_machine \<Rightarrow> u64 \<Rightarrow> vmx_vcpu_state" where
  "vmx_of s v \<equiv> vcpu_vmx (vcpus s v)"

section \<open>Operations\<close>

text \<open>\<^verbatim>\<open>__vmx_clear_vcpu\<close>: the result of \<^verbatim>\<open>vmclear\<close> is ignored.\<close>

definition vmx_clear_vcpu_local :: "vmx_processor \<Rightarrow> cpuid \<Rightarrow> u64 \<Rightarrow> vmx_machine \<Rightarrow> vmx_machine" where
  "vmx_clear_vcpu_local hw c v s =
     (if active_cpu (vmx_of s v) \<noteq> c then s
      else
        let s = s\<lparr>vmcs := snd (vmclear hw c (vmcs_ptr (vmx_of s v)) (vmcs s))\<rparr>;
            s = upd_vmx v (\<lambda>x. x\<lparr>active_cpu := INVALID_CPUID, launch_state := VMCS_LS_CLEAR\<rparr>) s
        in if v = curr_vcpu s c then s\<lparr>curr_vcpu := (curr_vcpu s)(c := 0)\<rparr> else s)"

definition vmx_clear_vcpu :: "vmx_processor \<Rightarrow> cpuid \<Rightarrow> u64 \<Rightarrow> vmx_machine \<Rightarrow> vmx_machine run" where
  "vmx_clear_vcpu hw c v s =
     (if active_cpu (vmx_of s v) = INVALID_CPUID then Inr s
      else if active_cpu (vmx_of s v) = c then Inr (vmx_clear_vcpu_local hw c v s)
      else Inl Die)"

definition vmx_load_vcpu :: "vmx_processor \<Rightarrow> cpuid \<Rightarrow> u64 \<Rightarrow> vmx_machine \<Rightarrow> int \<times> vmx_machine" where
  "vmx_load_vcpu hw c v s =
     (let p = vmcs_ptr (vmx_of s v);
          (res, m) = vmptrld hw c p (load32 (tmem (pages s)) (phys_to_virt p)) (vmcs s);
          s = s\<lparr>vmcs := m\<rparr>
      in if res \<noteq> VMX_SUCCESS then (res, s) else (0, upd_vmx v (\<lambda>x. x\<lparr>active_cpu := c\<rparr>) s))"

definition vmx_make_vcpu_current :: "vmx_processor \<Rightarrow> cpuid \<Rightarrow> u64 \<Rightarrow> vmx_machine \<Rightarrow> (int \<times> vmx_machine) run" where
  "vmx_make_vcpu_current hw c v s =
     (if v = curr_vcpu s c then Inr (0, s)
      else
        let s = (if active_cpu (vmx_of s v) = INVALID_CPUID then upd_vmx v (\<lambda>x. x\<lparr>active_cpu := c\<rparr>) s else s)
        in andThen (if active_cpu (vmx_of s v) \<noteq> c then vmx_clear_vcpu hw c v s else Inr s) (\<lambda>s.
             let (res, s) = vmx_load_vcpu hw c v s
             in if res \<noteq> 0 then Inr (res, upd_vmx v (\<lambda>x. x\<lparr>active_cpu := INVALID_CPUID\<rparr>) s)
                else Inr (0, s\<lparr>curr_vcpu := (curr_vcpu s)(c := v)\<rparr>)))"

definition vmx_destroy_vcpu :: "vmx_processor \<Rightarrow> cpuid \<Rightarrow> u64 \<Rightarrow> vmx_machine \<Rightarrow> vmx_machine run" where
  "vmx_destroy_vcpu hw c v s =
     andThen (vmx_clear_vcpu hw c v s) (\<lambda>s.
       andThen (free_page_raw (tframes (pages s)) (vmcs_ptr (vmx_of s v))) (\<lambda>a.
         Inr (upd_vmx v (\<lambda>x. x\<lparr>vmcs_ptr := 0\<rparr>) (s\<lparr>pages := (pages s)\<lparr>tframes := a\<rparr>\<rparr>))))"

definition tag_region_with_vmx_revisionid :: "msrs \<Rightarrow> phys_addr \<Rightarrow> mem \<Rightarrow> mem" where
  "tag_region_with_vmx_revisionid read_msr region m =
     (let vmx_basic = read_msr (msr_address MSRX64_IA32_VMX_BASIC);
          revision_id = U64_LOWER32 vmx_basic
      in store32 m (phys_to_virt region) revision_id)"

text \<open>The address 0 is a failed allocation.\<close>

definition create_new_vmcs_area :: "msrs \<Rightarrow> table_state \<Rightarrow> (phys_addr \<times> table_state) run" where
  "create_new_vmcs_area read_msr t =
     andThen (get_page_zeroed (tframes t) (tmem t)) (\<lambda>(r, a, m).
       case r of
         None \<Rightarrow> Inr (0, t\<lparr>tframes := a, tmem := m\<rparr>)
       | Some vaddr \<Rightarrow>
           let vmcs_area_ptr = virt_to_phys vaddr
           in Inr (vmcs_area_ptr, t\<lparr>tframes := a, tmem := tag_region_with_vmx_revisionid read_msr vmcs_area_ptr m\<rparr>))"

definition ERR_NO_MEM :: int where
  "ERR_NO_MEM = 1"

definition vmx_vcpu_allocate :: "vmx_processor \<Rightarrow> msrs \<Rightarrow> cpuid \<Rightarrow> u64 \<Rightarrow> vmx_machine \<Rightarrow> (int \<times> vmx_machine) run" where
  "vmx_vcpu_allocate hw read_msr c v s =
     andThen (create_new_vmcs_area read_msr (pages s)) (\<lambda>(p, t).
       let s = s\<lparr>pages := t\<rparr> in
       if p = 0 then Inr (- ERR_NO_MEM, s)
       else
         let (res, m) = vmclear hw c p (vmcs s);
             s = s\<lparr>vmcs := m\<rparr>
         in if res \<noteq> VMX_SUCCESS then
              andThen (free_page_raw (tframes (pages s)) p) (\<lambda>a. Inr (- 1, s\<lparr>pages := (pages s)\<lparr>tframes := a\<rparr>\<rparr>))
            else Inr (0, upd_vmx v (\<lambda>x. x\<lparr>vmcs_ptr := p, launch_state := VMCS_LS_CLEAR, active_cpu := INVALID_CPUID\<rparr>) s))"

section \<open>The invariant\<close>

lemma upd_vmx_simps [simp]:
  "vmx_of (upd_vmx v f s) w = (if w = v then f (vmx_of s v) else vmx_of s w)"
  "vmcs (upd_vmx v f s) = vmcs s" "curr_vcpu (upd_vmx v f s) = curr_vcpu s" "pages (upd_vmx v f s) = pages s"
  by (simp_all add: upd_vmx_def)

lemma upd_vmx_cong: "(\<And>x. f x = g x) \<Longrightarrow> upd_vmx v f s = upd_vmx v g s"
  by (simp add: upd_vmx_def)

lemma upd_vmx_twice [simp]: "upd_vmx v f (upd_vmx v g s) = upd_vmx v (\<lambda>x. f (g x)) s"
  by (simp add: upd_vmx_def)

lemma upd_vmx_vmcs [simp]: "(upd_vmx v f s)\<lparr>vmcs := m\<rparr> = upd_vmx v f (s\<lparr>vmcs := m\<rparr>)"
  by (simp add: upd_vmx_def)

lemma upd_vmx_pages [simp]: "(upd_vmx v f s)\<lparr>pages := m\<rparr> = upd_vmx v f (s\<lparr>pages := m\<rparr>)"
  by (simp add: upd_vmx_def)

text \<open>A virtual processor with a control structure.\<close>

definition live :: "vmx_machine \<Rightarrow> u64 \<Rightarrow> bool" where
  "live s v \<longleftrightarrow> v \<noteq> 0 \<and> vmcs_ptr (vmx_of s v) \<noteq> 0"

text \<open>What a processor executes with: the structure of the virtual processor recorded for it, or none.\<close>

definition binding_ok :: "vmx_machine \<Rightarrow> cpuid \<Rightarrow> bool" where
  "binding_ok s c \<longleftrightarrow>
     (if curr_vcpu s c = 0 then current_vmcs (vmcs s) c = NO_CURRENT_VMCS_ADDR
      else live s (curr_vcpu s c) \<and> active_cpu (vmx_of s (curr_vcpu s c)) = c
        \<and> current_vmcs (vmcs s) c = vmcs_ptr (vmx_of s (curr_vcpu s c)))"

text \<open>The control structure of a virtual processor is a page frame of its own which the processor accepts.\<close>

definition area_ok :: "vmx_processor \<Rightarrow> pf_bitmap_allocator \<Rightarrow> phys_addr \<Rightarrow> bool" where
  "area_ok hw a p \<longleftrightarrow> (\<exists>f < frame_count a. p = pfn_to_phys (of_nat f) \<and> frame_used (bitmap a) f) \<and> vmclear_error hw p = 0"

definition areas_ok :: "vmx_processor \<Rightarrow> vmx_machine \<Rightarrow> bool" where
  "areas_ok hw s \<longleftrightarrow> alloc_ok (tframes (pages s)) \<and> frame_count (tframes (pages s)) < 2 ^ 35
     \<and> (\<forall>v. live s v \<longrightarrow> area_ok hw (tframes (pages s)) (vmcs_ptr (vmx_of s v)))
     \<and> (\<forall>v w. live s v \<and> live s w \<and> vmcs_ptr (vmx_of s v) = vmcs_ptr (vmx_of s w) \<longrightarrow> v = w)"

definition vmx_ok :: "vmx_processor \<Rightarrow> vmx_machine \<Rightarrow> bool" where
  "vmx_ok hw s \<longleftrightarrow> areas_ok hw s \<and> (\<forall>c. binding_ok s c) \<and> curr_vcpu s INVALID_CPUID = 0"

text \<open>
  The operations on the processors of the machine. An allocation starts from a cleared structure, the other
  operations need one with a control structure; a block of writes goes to the structure current on the processor.
\<close>

inductive vmx_step :: "vmx_processor \<Rightarrow> msrs \<Rightarrow> vmx_machine \<Rightarrow> vmx_machine \<Rightarrow> bool" for hw read_msr where
  step_allocate: "v \<noteq> 0 \<Longrightarrow> vmcs_ptr (vmx_of s v) = 0 \<Longrightarrow> vmx_vcpu_allocate hw read_msr c v s = Inr (res, t) \<Longrightarrow> vmx_step hw read_msr s t"
| step_current: "live s v \<Longrightarrow> c \<noteq> INVALID_CPUID \<Longrightarrow> vmx_make_vcpu_current hw c v s = Inr (res, t) \<Longrightarrow> vmx_step hw read_msr s t"
| step_clear: "live s v \<Longrightarrow> vmx_clear_vcpu hw c v s = Inr t \<Longrightarrow> vmx_step hw read_msr s t"
| step_destroy: "live s v \<Longrightarrow> vmx_destroy_vcpu hw c v s = Inr t \<Longrightarrow> vmx_step hw read_msr s t"
| step_write: "vmx_step hw read_msr s (s\<lparr>vmcs := vmwrites hw c ws (vmcs s)\<rparr>)"

abbreviation vmx_steps :: "vmx_processor \<Rightarrow> msrs \<Rightarrow> vmx_machine \<Rightarrow> vmx_machine \<Rightarrow> bool" where
  "vmx_steps hw read_msr \<equiv> (vmx_step hw read_msr)\<^sup>*\<^sup>*"

lemma areas_ok_same:
  assumes "pages t = pages s" "\<And>w. vmcs_ptr (vmx_of t w) = vmcs_ptr (vmx_of s w)"
  shows "areas_ok hw t = areas_ok hw s"
  unfolding areas_ok_def live_def assms ..

lemma vmx_okD:
  assumes "vmx_ok hw s"
  shows "binding_ok s c" "alloc_ok (tframes (pages s))" "frame_count (tframes (pages s)) < 2 ^ 35" "curr_vcpu s INVALID_CPUID = 0"
    "live s v \<Longrightarrow> area_ok hw (tframes (pages s)) (vmcs_ptr (vmx_of s v))"
    "live s v \<Longrightarrow> live s w \<Longrightarrow> vmcs_ptr (vmx_of s v) = vmcs_ptr (vmx_of s w) \<Longrightarrow> v = w"
  using assms by (auto simp: vmx_ok_def areas_ok_def)

lemma frame_phys_ne_none: "pfn_to_phys (of_nat f) \<noteq> NO_CURRENT_VMCS_ADDR"
proof
  assume "pfn_to_phys (of_nat f) = NO_CURRENT_VMCS_ADDR"
  then have "bit (pfn_to_phys (of_nat f)) 0" by (simp add: NO_CURRENT_VMCS_ADDR_def)
  then show False by (simp add: pfn_to_phys_def U64_LSHIFT_def PAGE_SHIFT_def bit_push_bit_iff)
qed

lemma area_ok_ne_none: "area_ok hw a p \<Longrightarrow> p \<noteq> NO_CURRENT_VMCS_ADDR"
  using frame_phys_ne_none by (auto simp: area_ok_def)

subsection \<open>Making a virtual processor current\<close>

lemma vm_fail_nonzero: "e \<noteq> 0 \<Longrightarrow> vm_fail s c e \<noteq> 0"
  by (simp add: vm_fail_def VMX_OP_FAIL_INVALID_def)

definition bound :: "cpuid \<Rightarrow> u64 \<Rightarrow> vmx_machine \<Rightarrow> vmx_machine" where
  "bound c v s = (upd_vmx v (\<lambda>x. x\<lparr>active_cpu := c\<rparr>) (s\<lparr>vmcs := (vmcs s)\<lparr>current_vmcs := (current_vmcs (vmcs s))(c := vmcs_ptr (vmx_of s v))\<rparr>\<rparr>))
     \<lparr>curr_vcpu := (curr_vcpu s)(c := v)\<rparr>"

abbreviation loadable_vmcs :: "vmx_processor \<Rightarrow> vmx_machine \<Rightarrow> u64 \<Rightarrow> bool" where
  "loadable_vmcs hw s v \<equiv> vmptrld_error hw (vmcs_ptr (vmx_of s v)) (load32 (tmem (pages s)) (phys_to_virt (vmcs_ptr (vmx_of s v)))) = 0"

lemma load_vcpu_cases:
  obtains (loaded) "loadable_vmcs hw s v"
    "vmx_load_vcpu hw c v s = (0, upd_vmx v (\<lambda>x. x\<lparr>active_cpu := c\<rparr>) (s\<lparr>vmcs := (vmcs s)\<lparr>current_vmcs := (current_vmcs (vmcs s))(c := vmcs_ptr (vmx_of s v))\<rparr>\<rparr>))"
  | (refused) e where "\<not> loadable_vmcs hw s v" "e \<noteq> 0" "vmx_load_vcpu hw c v s = (e, s)"
proof (cases "loadable_vmcs hw s v")
  case True
  then show thesis by (intro loaded) (simp_all add: vmx_load_vcpu_def vmptrld_def Let_def VMX_SUCCESS_def)
next
  case False
  then show thesis by (intro refused[OF False vm_fail_nonzero[OF False]]) (simp add: vmx_load_vcpu_def vmptrld_def Let_def VMX_SUCCESS_def vm_fail_nonzero)
qed

lemma make_current_cases:
  obtains (same) "v = curr_vcpu s c" "vmx_make_vcpu_current hw c v s = Inr (0, s)"
  | (elsewhere) "v \<noteq> curr_vcpu s c" "active_cpu (vmx_of s v) \<noteq> INVALID_CPUID" "active_cpu (vmx_of s v) \<noteq> c" "vmx_make_vcpu_current hw c v s = Inl Die"
  | (loaded) "v \<noteq> curr_vcpu s c" "active_cpu (vmx_of s v) = INVALID_CPUID \<or> active_cpu (vmx_of s v) = c" "loadable_vmcs hw s v"
      "vmx_make_vcpu_current hw c v s = Inr (0, bound c v s)"
  | (refused) e where "v \<noteq> curr_vcpu s c" "active_cpu (vmx_of s v) = INVALID_CPUID \<or> active_cpu (vmx_of s v) = c" "\<not> loadable_vmcs hw s v" "e \<noteq> 0"
      "vmx_make_vcpu_current hw c v s = Inr (e, upd_vmx v (\<lambda>x. x\<lparr>active_cpu := INVALID_CPUID\<rparr>) s)"
proof (cases "v = curr_vcpu s c \<or> active_cpu (vmx_of s v) \<noteq> INVALID_CPUID \<and> active_cpu (vmx_of s v) \<noteq> c")
  case True
  then show thesis using same elsewhere by (auto simp: vmx_make_vcpu_current_def vmx_clear_vcpu_def)
next
  case False
  define s' where "s' = (if active_cpu (vmx_of s v) = INVALID_CPUID then upd_vmx v (\<lambda>x. x\<lparr>active_cpu := c\<rparr>) s else s)"
  have act: "active_cpu (vmx_of s' v) = c" using False by (auto simp: s'_def)
  have ptr: "vmcs_ptr (vmx_of s' v) = vmcs_ptr (vmx_of s v)" "pages s' = pages s" "vmcs s' = vmcs s" "curr_vcpu s' = curr_vcpu s" by (auto simp: s'_def)
  have upd: "upd_vmx v (\<lambda>x. x\<lparr>active_cpu := d\<rparr>) s' = upd_vmx v (\<lambda>x. x\<lparr>active_cpu := d\<rparr>) s" for d by (simp add: s'_def)
  have run: "vmx_make_vcpu_current hw c v s = (let (res, s) = vmx_load_vcpu hw c v s'
     in if res \<noteq> 0 then Inr (res, upd_vmx v (\<lambda>x. x\<lparr>active_cpu := INVALID_CPUID\<rparr>) s) else Inr (0, s\<lparr>curr_vcpu := (curr_vcpu s)(c := v)\<rparr>))"
    using False act by (simp add: vmx_make_vcpu_current_def Let_def s'_def[symmetric])
  show thesis
  proof (cases rule: load_vcpu_cases[of hw s' v c])
    case loaded': loaded
    have "upd_vmx v (\<lambda>x. x\<lparr>active_cpu := c\<rparr>) (s'\<lparr>vmcs := m\<rparr>) = upd_vmx v (\<lambda>x. x\<lparr>active_cpu := c\<rparr>) (s\<lparr>vmcs := m\<rparr>)" for m
      using upd[of c] by (metis upd_vmx_vmcs)
    then show thesis using loaded' False ptr run by (intro loaded) (auto simp: bound_def)
  next
    case refused': (refused e)
    then show thesis using False ptr run upd by (intro refused[of e]) auto
  qed
qed

lemma bound_simps [simp]:
  "vmx_of (bound c v s) w = (if w = v then (vmx_of s v)\<lparr>active_cpu := c\<rparr> else vmx_of s w)" "pages (bound c v s) = pages s"
  "curr_vcpu (bound c v s) = (curr_vcpu s)(c := v)" "regions (vmcs (bound c v s)) = regions (vmcs s)"
  "current_vmcs (vmcs (bound c v s)) = (current_vmcs (vmcs s))(c := vmcs_ptr (vmx_of s v))"
  "live (bound c v s) w = live s w"
  by (simp_all add: bound_def live_def upd_vmx_def)

lemma curr_vcpu_active:
  assumes "vmx_ok hw s" "live s v" "curr_vcpu s d = v"
  shows "active_cpu (vmx_of s v) = d" "d \<noteq> INVALID_CPUID" "current_vmcs (vmcs s) d = vmcs_ptr (vmx_of s v)"
proof -
  have v: "v \<noteq> 0" using assms(2) by (simp add: live_def)
  show "active_cpu (vmx_of s v) = d" "current_vmcs (vmcs s) d = vmcs_ptr (vmx_of s v)"
    using vmx_okD(1)[OF assms(1), of d] v assms(3) by (simp_all add: binding_ok_def)
  show "d \<noteq> INVALID_CPUID" using vmx_okD(4)[OF assms(1)] v assms(3) by auto
qed

lemma not_current:
  assumes "vmx_ok hw s" "live s v" "v \<noteq> curr_vcpu s c" "active_cpu (vmx_of s v) = INVALID_CPUID \<or> active_cpu (vmx_of s v) = c"
  shows "curr_vcpu s d \<noteq> v"
proof
  assume d: "curr_vcpu s d = v"
  note a = curr_vcpu_active(1,2)[OF assms(1,2) d]
  then have "d = c" using assms(4) by simp
  then show False using d assms(3) by simp
qed

lemma make_current_ok:
  assumes ok: "vmx_ok hw s" and v: "live s v" and c: "c \<noteq> INVALID_CPUID" and run: "vmx_make_vcpu_current hw c v s = Inr (res, t)"
  shows "vmx_ok hw t"
proof (cases rule: make_current_cases[of v s c hw])
  case same
  then show ?thesis using ok run by simp
next
  case elsewhere
  then show ?thesis using run by simp
next
  case loaded
  have "binding_ok (bound c v s) d" for d
  proof (cases "d = c")
    case True
    then show ?thesis using v by (simp add: binding_ok_def live_def)
  next
    case False
    have "curr_vcpu s d \<noteq> v" using not_current[OF ok v loaded(1,2)] .
    then show ?thesis using False vmx_okD(1)[OF ok, of d] by (simp add: binding_ok_def)
  qed
  moreover have "areas_ok hw (bound c v s)" using ok areas_ok_same[of "bound c v s" s] by (simp add: vmx_ok_def)
  ultimately show ?thesis using ok loaded(4) run c by (simp add: vmx_ok_def)
next
  case (refused e)
  let ?t = "upd_vmx v (\<lambda>x. x\<lparr>active_cpu := INVALID_CPUID\<rparr>) s"
  have lv: "live ?t w = live s w" for w by (simp add: live_def)
  have "binding_ok ?t d" for d
  proof -
    have "curr_vcpu s d \<noteq> v" using not_current[OF ok v refused(1,2)] .
    then show ?thesis using vmx_okD(1)[OF ok, of d] lv by (simp add: binding_ok_def)
  qed
  moreover have "areas_ok hw ?t" using ok areas_ok_same[of ?t s] by (simp add: vmx_ok_def)
  ultimately show ?thesis using ok refused(5) run by (simp add: vmx_ok_def)
qed

subsection \<open>Clearing and releasing\<close>

definition cleared :: "cpuid \<Rightarrow> u64 \<Rightarrow> vmx_machine \<Rightarrow> vmx_machine" where
  "cleared c v s = (let s' = upd_vmx v (\<lambda>x. x\<lparr>active_cpu := INVALID_CPUID, launch_state := VMCS_LS_CLEAR\<rparr>) s
     in if curr_vcpu s c = v then s'\<lparr>vmcs := (vmcs s)\<lparr>current_vmcs := (current_vmcs (vmcs s))(c := NO_CURRENT_VMCS_ADDR)\<rparr>, curr_vcpu := (curr_vcpu s)(c := 0)\<rparr> else s')"

lemma current_iff:
  assumes ok: "vmx_ok hw s" and v: "live s v"
  shows "current_vmcs (vmcs s) c = vmcs_ptr (vmx_of s v) \<longleftrightarrow> curr_vcpu s c = v"
proof
  assume eq: "current_vmcs (vmcs s) c = vmcs_ptr (vmx_of s v)"
  have b: "binding_ok s c" using vmx_okD(1)[OF ok] .
  have "current_vmcs (vmcs s) c \<noteq> NO_CURRENT_VMCS_ADDR" using eq area_ok_ne_none vmx_okD(5)[OF ok v] by metis
  then have "curr_vcpu s c \<noteq> 0" using b by (auto simp: binding_ok_def)
  then have "live s (curr_vcpu s c)" "vmcs_ptr (vmx_of s (curr_vcpu s c)) = vmcs_ptr (vmx_of s v)" using b eq by (simp_all add: binding_ok_def)
  then show "curr_vcpu s c = v" using vmx_okD(6)[OF ok _ v] by metis
next
  assume "curr_vcpu s c = v"
  then show "current_vmcs (vmcs s) c = vmcs_ptr (vmx_of s v)" using curr_vcpu_active(3)[OF ok v] by simp
qed

lemma clear_local:
  assumes "vmx_ok hw s" "live s v" "active_cpu (vmx_of s v) = c"
  shows "vmx_clear_vcpu_local hw c v s = cleared c v s"
proof -
  have e: "vmclear_error hw (vmcs_ptr (vmx_of s v)) = 0" using vmx_okD(5)[OF assms(1,2)] by (simp add: area_ok_def)
  then show ?thesis using assms(3) current_iff[OF assms(1,2), of c]
    by (auto simp: vmx_clear_vcpu_local_def vmclear_def cleared_def Let_def upd_vmx_def)
qed

lemma clear_cases:
  assumes "vmx_ok hw s" "live s v"
  obtains (inactive) "active_cpu (vmx_of s v) = INVALID_CPUID" "vmx_clear_vcpu hw c v s = Inr s"
  | (here) "active_cpu (vmx_of s v) = c" "c \<noteq> INVALID_CPUID" "vmx_clear_vcpu hw c v s = Inr (cleared c v s)"
  | (elsewhere) "active_cpu (vmx_of s v) \<noteq> INVALID_CPUID" "active_cpu (vmx_of s v) \<noteq> c" "vmx_clear_vcpu hw c v s = Inl Die"
  using clear_local[OF assms] by (auto simp: vmx_clear_vcpu_def)

lemma cleared_simps [simp]:
  "vmx_of (cleared c v s) w = (if w = v then (vmx_of s v)\<lparr>active_cpu := INVALID_CPUID, launch_state := VMCS_LS_CLEAR\<rparr> else vmx_of s w)"
  "pages (cleared c v s) = pages s" "regions (vmcs (cleared c v s)) = regions (vmcs s)" "live (cleared c v s) w = live s w"
  "curr_vcpu (cleared c v s) = (if curr_vcpu s c = v then (curr_vcpu s)(c := 0) else curr_vcpu s)"
  "current_vmcs (vmcs (cleared c v s)) = (if curr_vcpu s c = v then (current_vmcs (vmcs s))(c := NO_CURRENT_VMCS_ADDR) else current_vmcs (vmcs s))"
  by (simp_all add: cleared_def live_def upd_vmx_def Let_def)

lemma cleared_ok:
  assumes ok: "vmx_ok hw s" and v: "live s v" and act: "active_cpu (vmx_of s v) = c"
  shows "vmx_ok hw (cleared c v s)" "curr_vcpu (cleared c v s) d \<noteq> v"
proof -
  have only: "curr_vcpu s d = v \<Longrightarrow> d = c" for d using curr_vcpu_active(1)[OF ok v] act by auto
  have v0: "v \<noteq> 0" using v by (simp add: live_def)
  show n: "curr_vcpu (cleared c v s) d \<noteq> v" for d using only[of d] v0 by auto
  have "binding_ok (cleared c v s) d" for d
  proof (cases "curr_vcpu s d = v")
    case True
    then show ?thesis using only[OF True] by (simp add: binding_ok_def)
  next
    case False
    have k: "curr_vcpu (cleared c v s) d = curr_vcpu s d" "current_vmcs (vmcs (cleared c v s)) d = current_vmcs (vmcs s) d" using False by auto
    show ?thesis using vmx_okD(1)[OF ok, of d] False unfolding binding_ok_def k cleared_simps(4) by simp
  qed
  moreover have "areas_ok hw (cleared c v s)" using ok areas_ok_same[of "cleared c v s" s] by (simp add: vmx_ok_def)
  ultimately show "vmx_ok hw (cleared c v s)" using vmx_okD(4)[OF ok] by (simp add: vmx_ok_def)
qed

lemma clear_vcpu_ok:
  assumes "vmx_ok hw s" "live s v" "vmx_clear_vcpu hw c v s = Inr t"
  shows "vmx_ok hw t" "live t v" "curr_vcpu t d \<noteq> v" "active_cpu (vmx_of t v) = INVALID_CPUID" "regions (vmcs t) = regions (vmcs s)" "vmcs_ptr (vmx_of t w) = vmcs_ptr (vmx_of s w)"
    "pages t = pages s"
proof -
  have "vmx_ok hw t \<and> live t v \<and> (\<forall>d. curr_vcpu t d \<noteq> v) \<and> active_cpu (vmx_of t v) = INVALID_CPUID \<and> regions (vmcs t) = regions (vmcs s) \<and> (\<forall>w. vmcs_ptr (vmx_of t w) = vmcs_ptr (vmx_of s w))
    \<and> pages t = pages s"
    using assms(1,2)
  proof (cases rule: clear_cases[where c = c])
    case inactive
    then have "curr_vcpu s d \<noteq> v" for d using curr_vcpu_active(1,2)[OF assms(1,2), of d] by auto
    then show ?thesis using inactive assms by simp
  next
    case here
    then show ?thesis using cleared_ok[OF assms(1,2) here(1)] assms by simp
  next
    case elsewhere
    then show ?thesis using assms(3) by simp
  qed
  then show "vmx_ok hw t" "live t v" "curr_vcpu t d \<noteq> v" "active_cpu (vmx_of t v) = INVALID_CPUID" "regions (vmcs t) = regions (vmcs s)" "vmcs_ptr (vmx_of t w) = vmcs_ptr (vmx_of s w)"
    "pages t = pages s" by blast+
qed

lemma free_frame:
  assumes "alloc_ok a" "f < frame_count a"
  shows "\<exists>a'. free_page_raw a (pfn_to_phys (of_nat f)) = Inr a' \<and> alloc_ok a' \<and> frame_count a' = frame_count a
    \<and> (\<forall>j < frame_count a. frame_used (bitmap a') j \<longleftrightarrow> j \<noteq> f \<and> frame_used (bitmap a) j)"
proof -
  have sz: "8 * length (bitmap a) \<le> 2 ^ 52" "f < 8 * length (bitmap a)" using assms by (auto simp: alloc_ok_def frame_count_def bitmap_size_def)
  then have p: "pfn_of (pfn_to_phys (of_nat f)) = f" using pfn_of_pfn_to_phys[of f] by simp
  obtain bm where bm: "clear_bitmap_region (pfn_to_phys (of_nat f)) 1 (bitmap a) = Inr bm" "length bm = length (bitmap a)"
    "\<forall>j < 8 * length (bitmap a). frame_used bm j = (\<not> (f \<le> j \<and> j < f + 1) \<and> frame_used (bitmap a) j)"
    using clear_region_ok[of "pfn_to_phys (of_nat f)" 1 "bitmap a"] sz p by auto
  have "(\<not> (f \<le> j \<and> j < f + 1)) = (j \<noteq> f)" for j by auto
  then show ?thesis using bm assms(1)
    by (auto simp: free_page_raw_def free_pages_raw_def freed_nr_frames_def alloc_ok_def bitmap_size_def frame_count_def)
qed

lemma destroy_vcpu_ok:
  assumes ok: "vmx_ok hw s" and v: "live s v" and run: "vmx_destroy_vcpu hw c v s = Inr t"
  shows "vmx_ok hw t" "\<not> live t v" "regions (vmcs t) = regions (vmcs s)"
proof -
  obtain s' where s': "vmx_clear_vcpu hw c v s = Inr s'" using run unfolding vmx_destroy_vcpu_def by (elim andThen_InrE)
  note c = clear_vcpu_ok[OF ok v s']
  let ?a = "tframes (pages s')"
  obtain f where f: "f < frame_count ?a" "vmcs_ptr (vmx_of s' v) = pfn_to_phys (of_nat f)" "frame_used (bitmap ?a) f"
    using vmx_okD(5)[OF c(1,2)] by (auto simp: area_ok_def)
  obtain a' where a': "free_page_raw ?a (pfn_to_phys (of_nat f)) = Inr a'" "alloc_ok a'" "frame_count a' = frame_count ?a"
    "\<And>j. j < frame_count ?a \<Longrightarrow> frame_used (bitmap a') j \<longleftrightarrow> j \<noteq> f \<and> frame_used (bitmap ?a) j"
    using free_frame[OF vmx_okD(2)[OF c(1)] f(1)] by blast
  have t: "t = upd_vmx v (\<lambda>x. x\<lparr>vmcs_ptr := 0\<rparr>) (s'\<lparr>pages := (pages s')\<lparr>tframes := a'\<rparr>\<rparr>)"
    using run s' a'(1) f(2) by (simp add: vmx_destroy_vcpu_def)
  have lt: "live t w \<longleftrightarrow> live s' w \<and> w \<noteq> v" and pt: "live t w \<Longrightarrow> vmcs_ptr (vmx_of t w) = vmcs_ptr (vmx_of s' w)" for w
    by (auto simp: t live_def)
  show "\<not> live t v" "regions (vmcs t) = regions (vmcs s)" using lt c(5) by (auto simp: t)
  have "area_ok hw a' (vmcs_ptr (vmx_of t w))" if w: "live t w" for w
  proof -
    have w': "live s' w" "w \<noteq> v" using w lt by auto
    obtain g where g: "g < frame_count ?a" "vmcs_ptr (vmx_of s' w) = pfn_to_phys (of_nat g)" "frame_used (bitmap ?a) g" "vmclear_error hw (vmcs_ptr (vmx_of s' w)) = 0"
      using vmx_okD(5)[OF c(1) w'(1)] by (auto simp: area_ok_def)
    have "g \<noteq> f" using g(2) f(2) vmx_okD(6)[OF c(1) w'(1) c(2)] w'(2) by auto
    then show ?thesis using g a'(3,4) pt[OF w] by (auto simp: area_ok_def)
  qed
  moreover have "w = w'" if "live t w" "live t w'" "vmcs_ptr (vmx_of t w) = vmcs_ptr (vmx_of t w')" for w w'
    using vmx_okD(6)[OF c(1), of w w'] that lt pt by metis
  moreover have "tframes (pages t) = a'" by (simp add: t)
  ultimately have ar: "areas_ok hw t" using a'(2,3) vmx_okD(3)[OF c(1)] unfolding areas_ok_def by metis
  have "binding_ok t d" for d
  proof -
    have "curr_vcpu t d = curr_vcpu s' d" "curr_vcpu s' d \<noteq> v" "current_vmcs (vmcs t) d = current_vmcs (vmcs s') d" using c(3) by (simp_all add: t)
    moreover have "vmx_of t w = vmx_of s' w" if "w \<noteq> v" for w using that by (simp add: t)
    ultimately show ?thesis using vmx_okD(1)[OF c(1), of d] by (simp add: binding_ok_def lt)
  qed
  moreover have "curr_vcpu t INVALID_CPUID = 0" using vmx_okD(4)[OF c(1)] by (simp add: t)
  ultimately show "vmx_ok hw t" using ar by (simp add: vmx_ok_def)
qed

subsection \<open>Allocation\<close>

lemma create_vmcs_cases:
  assumes "alloc_ok (tframes t)" "frame_count (tframes t) < 2 ^ 35"
  obtains (none) "create_new_vmcs_area r t = Inr (0, t)"
  | (some) f a' where "create_new_vmcs_area r t = Inr (pfn_to_phys (of_nat f), t\<lparr>tframes := a', tmem :=
        tag_region_with_vmx_revisionid r (pfn_to_phys (of_nat f)) (memset (tmem t) (frame_addr f) 0 4096)\<rparr>)"
      "area_free (tframes t) 1 f" "allocates (tframes t) 1 f a'" "alloc_ok a'"
  using assms
proof (cases rule: get_pages_zeroed_cases[of _ 1 "tmem t"])
  case g: none
  then show thesis by (intro none) (simp add: create_new_vmcs_area_def get_page_zeroed_pages)
next
  case g: (some f a')
  then show thesis by (intro some[of f a']) (simp_all add: create_new_vmcs_area_def get_page_zeroed_pages Let_def)
qed

lemma vmx_ok_more_frames:
  assumes ok: "vmx_ok hw s" and t: "alloc_ok (tframes t)" "frame_count (tframes t) = frame_count (tframes (pages s))"
    and u: "\<And>f. f < frame_count (tframes t) \<Longrightarrow> frame_used (bitmap (tframes (pages s))) f \<Longrightarrow> frame_used (bitmap (tframes t)) f"
  shows "vmx_ok hw (s\<lparr>pages := t\<rparr>)"
proof -
  have l: "live (s\<lparr>pages := t\<rparr>) w = live s w" for w by (simp add: live_def)
  have "area_ok hw (tframes t) (vmcs_ptr (vmx_of s w))" if "live s w" for w
    using vmx_okD(5)[OF ok that] t(2) u by (auto simp: area_ok_def)
  then have "areas_ok hw (s\<lparr>pages := t\<rparr>)" unfolding areas_ok_def l using t vmx_okD(3)[OF ok] vmx_okD(6)[OF ok] by simp
  moreover have "binding_ok (s\<lparr>pages := t\<rparr>) c" for c using vmx_okD(1)[OF ok, of c] l by (simp add: binding_ok_def)
  ultimately show ?thesis using vmx_okD(4)[OF ok] by (simp add: vmx_ok_def)
qed

text \<open>A new structure is never one that a processor uses.\<close>

lemma fresh_not_current:
  assumes ok: "vmx_ok hw s" and f: "area_free (tframes (pages s)) 1 f"
  shows "current_vmcs (vmcs s) c \<noteq> pfn_to_phys (of_nat f)" "live s w \<Longrightarrow> vmcs_ptr (vmx_of s w) \<noteq> pfn_to_phys (of_nat f)"
proof -
  have nu: "\<not> frame_used (bitmap (tframes (pages s))) f" "f < frame_count (tframes (pages s))" using area_freeD[OF f, of f] by simp_all
  have inj: "f = g" if "pfn_to_phys (of_nat f) = pfn_to_phys (of_nat g)" "g < frame_count (tframes (pages s))" for g
  proof -
    have "f < 2 ^ 52" "g < 2 ^ 52" using that(2) nu(2) vmx_okD(3)[OF ok] by simp_all
    then show "f = g" using arg_cong[OF that(1), of pfn_of] by (simp only: pfn_of_pfn_to_phys)
  qed
  show l: "vmcs_ptr (vmx_of s w) \<noteq> pfn_to_phys (of_nat f)" if "live s w" for w
    using vmx_okD(5)[OF ok that] nu inj by (auto simp: area_ok_def)
  show "current_vmcs (vmcs s) c \<noteq> pfn_to_phys (of_nat f)"
    using vmx_okD(1)[OF ok, of c] frame_phys_ne_none[of f] l by (auto simp: binding_ok_def split: if_splits)
qed

lemma vcpu_allocate_cases:
  assumes ok: "vmx_ok hw s" and v: "v \<noteq> 0" "vmcs_ptr (vmx_of s v) = 0"
  obtains (failed) res t where "vmx_vcpu_allocate hw r c v s = Inr (res, t)" "res \<noteq> 0" "vmx_ok hw t" "vcpus t = vcpus s" "vmcs t = vmcs s" "curr_vcpu t = curr_vcpu s"
  | (allocated) f t where "vmx_vcpu_allocate hw r c v s = Inr (0, t)" "vmx_ok hw t" "live t v" "active_cpu (vmx_of t v) = INVALID_CPUID"
      "launch_state (vmx_of t v) = VMCS_LS_CLEAR" "vmcs_ptr (vmx_of t v) = pfn_to_phys (of_nat f)" "area_free (tframes (pages s)) 1 f"
      "load32 (tmem (pages t)) (frame_addr f) = U64_LOWER32 (r (msr_address MSRX64_IA32_VMX_BASIC))" "curr_vcpu t = curr_vcpu s" "vmcs t = vmcs s"
  using vmx_okD(2,3)[OF ok]
proof (cases rule: create_vmcs_cases[where r = r])
  case none
  then show thesis using ok by (intro failed[of "- ERR_NO_MEM" s]) (simp_all add: vmx_vcpu_allocate_def ERR_NO_MEM_def)
next
  case (some f a')
  let ?p = "pfn_to_phys (of_nat f)"
  let ?t = "(pages s)\<lparr>tframes := a', tmem := tag_region_with_vmx_revisionid r ?p (memset (tmem (pages s)) (frame_addr f) 0 4096)\<rparr>"
  have fc: "frame_count a' = frame_count (tframes (pages s))" and us: "\<And>j. j < frame_count a' \<Longrightarrow> frame_used (bitmap a') j \<longleftrightarrow> j = f \<or> frame_used (bitmap (tframes (pages s))) j"
    using some(3) by (auto simp: allocates_def frame_count_def)
  have ok1: "vmx_ok hw (s\<lparr>pages := ?t\<rparr>)" using some(4) fc us by (intro vmx_ok_more_frames[OF ok]) auto
  note fresh = fresh_not_current[OF ok some(2)]
  have clr: "vmclear hw c ?p (vmcs s) = (if vmclear_error hw ?p = 0 then VMX_SUCCESS else vm_fail (vmcs s) c (vmclear_error hw ?p), vmcs s)"
    using fresh(1) by (simp add: vmclear_def)
  have f: "f < frame_count (tframes (pages s))" "\<not> frame_used (bitmap (tframes (pages s))) f" using area_freeD[OF some(2), of f] by simp_all
  consider "?p = 0" | "?p \<noteq> 0" "vmclear_error hw ?p \<noteq> 0" | "?p \<noteq> 0" "vmclear_error hw ?p = 0" by blast
  then show thesis
  proof cases
    case 1
    then show thesis using ok1 some(1) by (intro failed[of "- ERR_NO_MEM" "s\<lparr>pages := ?t\<rparr>"]) (simp_all add: vmx_vcpu_allocate_def ERR_NO_MEM_def)
  next
    case 2
    obtain a'' where a'': "free_page_raw a' ?p = Inr a''" "alloc_ok a''" "frame_count a'' = frame_count a'" "\<And>j. j < frame_count a' \<Longrightarrow> frame_used (bitmap a'') j \<longleftrightarrow> j \<noteq> f \<and> frame_used (bitmap a') j"
      using free_frame[OF some(4), of f] f fc by auto
    have "vmx_ok hw (s\<lparr>pages := ?t\<lparr>tframes := a''\<rparr>\<rparr>)" using a'' us fc f by (intro vmx_ok_more_frames[OF ok]) auto
    then show thesis using 2 some(1) a''(1) clr vm_fail_nonzero[OF 2(2)]
      by (intro failed[of "- 1" "s\<lparr>pages := ?t\<lparr>tframes := a''\<rparr>\<rparr>"]) (simp_all add: vmx_vcpu_allocate_def VMX_SUCCESS_def)
  next
    case 3
    let ?u = "upd_vmx v (\<lambda>x. x\<lparr>vmcs_ptr := ?p, launch_state := VMCS_LS_CLEAR, active_cpu := INVALID_CPUID\<rparr>) (s\<lparr>pages := ?t\<rparr>)"
    have nl: "\<not> live s v" using v by (simp add: live_def)
    have l: "live ?u w \<longleftrightarrow> w = v \<or> live s w" for w using v 3 by (auto simp: live_def)
    have "area_ok hw a' (vmcs_ptr (vmx_of ?u w))" if "live ?u w" for w
      using that us f fc vmx_okD(5)[OF ok1, of w] 3 nl by (cases "w = v") (auto simp: l area_ok_def live_def)
    moreover have "w = w'" if "live ?u w" "live ?u w'" "vmcs_ptr (vmx_of ?u w) = vmcs_ptr (vmx_of ?u w')" for w w'
      using that fresh(2)[of w] fresh(2)[of w'] vmx_okD(6)[OF ok, of w w'] by (cases "w = v"; cases "w' = v") (simp_all add: l)
    ultimately have ar: "areas_ok hw ?u" unfolding areas_ok_def using some(4) fc vmx_okD(3)[OF ok] by simp
    have b: "binding_ok ?u d" for d
    proof -
      have "curr_vcpu s d \<noteq> v" using vmx_okD(1)[OF ok, of d] nl v(1) by (auto simp: binding_ok_def)
      then show ?thesis using vmx_okD(1)[OF ok, of d] by (simp add: binding_ok_def l)
    qed
    have "vmx_vcpu_allocate hw r c v s = Inr (0, ?u)" using 3 some(1) clr by (simp add: vmx_vcpu_allocate_def)
    then show thesis using ar b l vmx_okD(4)[OF ok] some(2)
      by (intro allocated[of ?u f]) (simp_all add: vmx_ok_def tag_region_with_vmx_revisionid_def Let_def)
  qed
qed

section \<open>Properties\<close>

lemma vmx_step_ok: "vmx_step hw r s t \<Longrightarrow> vmx_ok hw s \<Longrightarrow> vmx_ok hw t"
proof (induction rule: vmx_step.induct)
  case (step_allocate v s c res t)
  from step_allocate(4,1,2) show ?case using step_allocate(3) by (cases rule: vcpu_allocate_cases[where r = r and c = c]) auto
next
  case (step_current s v c res t)
  then show ?case using make_current_ok by blast
next
  case (step_clear s v c t)
  then show ?case using clear_vcpu_ok(1) by blast
next
  case (step_destroy s v c t)
  then show ?case using destroy_vcpu_ok(1) by blast
next
  case (step_write s c ws)
  let ?t = "s\<lparr>vmcs := vmwrites hw c ws (vmcs s)\<rparr>"
  have "live ?t w = live s w" for w by (simp add: live_def)
  then have "binding_ok ?t d" for d using vmx_okD(1)[OF step_write, of d] by (simp add: binding_ok_def)
  moreover have "areas_ok hw ?t" using step_write areas_ok_same[of ?t s] by (simp add: vmx_ok_def)
  ultimately show ?case using vmx_okD(4)[OF step_write] by (simp add: vmx_ok_def)
qed

text \<open>
  C9. Whatever sequence of operations the processors execute, the control structure that is current on a processor is
  that of the virtual processor recorded for it, which is active there; no structure is current on two processors,
  and the structures of different virtual processors are different page frames.
\<close>

theorem vmcs_binding_invariant:
  assumes "vmx_steps hw r s t" "vmx_ok hw s"
  shows "vmx_ok hw t
    \<and> (\<forall>c. current_vmcs (vmcs t) c \<noteq> NO_CURRENT_VMCS_ADDR \<longrightarrow>
         live t (curr_vcpu t c) \<and> active_cpu (vmx_of t (curr_vcpu t c)) = c \<and> current_vmcs (vmcs t) c = vmcs_ptr (vmx_of t (curr_vcpu t c)))
    \<and> (\<forall>c d. current_vmcs (vmcs t) c = current_vmcs (vmcs t) d \<and> current_vmcs (vmcs t) c \<noteq> NO_CURRENT_VMCS_ADDR \<longrightarrow> c = d)"
proof -
  have ok: "vmx_ok hw t" using assms by (induction rule: rtranclp_induct) (auto intro: vmx_step_ok)
  have cur: "live t (curr_vcpu t c) \<and> active_cpu (vmx_of t (curr_vcpu t c)) = c \<and> current_vmcs (vmcs t) c = vmcs_ptr (vmx_of t (curr_vcpu t c))"
    if "current_vmcs (vmcs t) c \<noteq> NO_CURRENT_VMCS_ADDR" for c
    using vmx_okD(1)[OF ok, of c] that by (auto simp: binding_ok_def split: if_splits)
  have "c = d" if e: "current_vmcs (vmcs t) c = current_vmcs (vmcs t) d" "current_vmcs (vmcs t) c \<noteq> NO_CURRENT_VMCS_ADDR" for c d
    using cur[OF e(2)] cur[of d] e vmx_okD(6)[OF ok, of "curr_vcpu t c" "curr_vcpu t d"] by metis
  then show ?thesis using ok cur by blast
qed

text \<open>
  A virtual processor whose allocation succeeded can be made current, provided that the processor accepts a free page frame with the
  revision identifier it announces.
\<close>

lemma fresh_vcpu_becomes_current:
  assumes ok: "vmx_ok hw s" and v: "v \<noteq> 0" "vmcs_ptr (vmx_of s v) = 0" and run: "vmx_vcpu_allocate hw r c v s = Inr (0, t)"
    and acc: "\<And>f. area_free (tframes (pages s)) 1 f \<Longrightarrow> vmptrld_error hw (pfn_to_phys (of_nat f)) (U64_LOWER32 (r (msr_address MSRX64_IA32_VMX_BASIC))) = 0"
  shows "vmx_make_vcpu_current hw d v t = Inr (0, bound d v t)" "live t v" "active_cpu (vmx_of t v) = INVALID_CPUID"
proof -
  have *: "vmx_make_vcpu_current hw d v t = Inr (0, bound d v t) \<and> live t v \<and> active_cpu (vmx_of t v) = INVALID_CPUID"
    using ok v
  proof (cases rule: vcpu_allocate_cases[where r = r and c = c])
    case (failed res t')
    then show ?thesis using run by simp
  next
    case (allocated f t')
    then have t': "t' = t" using run by simp
    have ld: "loadable_vmcs hw t v" using allocated(6-8) acc t' by simp
    have "\<not> live s v" using v by (simp add: live_def)
    then have n: "v \<noteq> curr_vcpu t d" using allocated(9) t' v vmx_okD(1)[OF ok, of d] by (auto simp: binding_ok_def)
    show ?thesis using make_current_cases[of v t d hw] ld n allocated(3,4) t' by auto
  qed
  then show "vmx_make_vcpu_current hw d v t = Inr (0, bound d v t)" "live t v" "active_cpu (vmx_of t v) = INVALID_CPUID" by blast+
qed

section \<open>An example\<close>

definition willing_processor :: vmx_processor where
  "willing_processor = \<lparr>vmclear_error = (\<lambda>_. 0), vmptrld_error = (\<lambda>_ _. 0), vmread_error = (\<lambda>_. 0), vmwrite_error = (\<lambda>_. 0)\<rparr>"

definition idle_machine :: vmx_machine where
  "idle_machine = \<lparr>vmcs = \<lparr>regions = (\<lambda>_ _. 0), current_vmcs = (\<lambda>_. NO_CURRENT_VMCS_ADDR)\<rparr>, curr_vcpu = (\<lambda>_. 0), vcpus = (\<lambda>_. zero_vcpu),
     pages = \<lparr>tmem = (\<lambda>_. 0), tframes = small_allocator\<rparr>\<rparr>"

lemma idle_machine_ok: "vmx_ok hw idle_machine"
  by (simp add: vmx_ok_def areas_ok_def binding_ok_def live_def idle_machine_def zero_vcpu_def small_allocator_ok frame_count_def bitmap_size_def)
    (simp add: small_allocator_def)

lemma idle_allocates:
  assumes "v \<noteq> 0"
  obtains t where "vmx_vcpu_allocate willing_processor r c v idle_machine = Inr (0, t)"
proof -
  have fr: "area_free small_allocator (unat (1 :: u64)) 5" using small_allocator_free unfolding area_free_def by force
  have e: "vmcs_ptr (vmx_of idle_machine v) = 0" by (simp add: idle_machine_def zero_vcpu_def)
  have p: "pages idle_machine = \<lparr>tmem = (\<lambda>_. 0), tframes = small_allocator\<rparr>" by (simp add: idle_machine_def)
  have fc: "frame_count small_allocator < 2 ^ 35" by (simp add: small_allocator_def frame_count_def bitmap_size_def)
  obtain q t where q: "create_new_vmcs_area r (pages idle_machine) = Inr (q, t)" "q \<noteq> 0"
    using small_allocator_ok fc
  proof (cases rule: get_pages_zeroed_cases[where nr = 1 and m = "\<lambda>_. 0"])
    case none
    then show thesis using get_pages_zeroed_none[OF small_allocator_ok none] fr by (auto simp: free_frames_def small_allocator_def)
  next
    case (some f a')
    have f: "f < 2 ^ 35" "\<not> frame_used (bitmap small_allocator) f" using area_freeD[OF some(2), of f] fc by simp_all
    have "f \<noteq> 0" using f(2) by (cases "f = 0") (simp_all add: small_allocator_def frame_used_def)
    then have "pfn_to_phys (of_nat f) \<noteq> 0" using pfn_of_pfn_to_phys[of f] f(1) by (auto simp: phys_to_pfn_def U64_RSHIFT_def)
    then show thesis using that some(1) p by (simp add: create_new_vmcs_area_def get_page_zeroed_pages Let_def)
  qed
  then show thesis using that by (simp add: vmx_vcpu_allocate_def vmclear_def willing_processor_def idle_machine_def Let_def)
qed

theorem vmcs_binding_invariant_witness:
  "\<exists>t. vmx_steps willing_processor (\<lambda>_. 0) idle_machine t \<and> curr_vcpu t 2 = 0x5000 \<and> vmx_ok willing_processor t"
proof -
  obtain t where t: "vmx_vcpu_allocate willing_processor (\<lambda>_. 0) 2 0x5000 idle_machine = Inr (0, t)" by (rule idle_allocates[of "0x5000"]) simp_all
  have e: "vmcs_ptr (vmx_of idle_machine 0x5000) = 0" by (simp add: idle_machine_def zero_vcpu_def)
  note b = fresh_vcpu_becomes_current[OF idle_machine_ok _ e t]
  have u: "vmx_make_vcpu_current willing_processor 2 0x5000 t = Inr (0, bound 2 0x5000 t)" "live t 0x5000"
    using b by (simp_all add: willing_processor_def)
  have "vmx_step willing_processor (\<lambda>_. 0) idle_machine t" using e t by (intro step_allocate) simp_all
  moreover have "vmx_step willing_processor (\<lambda>_. 0) t (bound 2 0x5000 t)" using u by (intro step_current) (simp_all add: INVALID_CPUID_def)
  ultimately have s: "vmx_steps willing_processor (\<lambda>_. 0) idle_machine (bound 2 0x5000 t)" by (meson rtranclp.rtrancl_into_rtrancl r_into_rtranclp)
  show ?thesis using vmcs_binding_invariant[OF s idle_machine_ok] s by (intro exI[of _ "bound 2 0x5000 t"]) simp
qed

end
