(* ===== verification/Guest_Regs.thy ===== *)
theory Guest_Regs
  imports Vmx_Vcpu "HOL-Library.Sublist"
begin

text \<open>
  The register state of a guest: the initial states of \<^verbatim>\<open>arch/x64/vcpu.c\<close> and the functions of \<^verbatim>\<open>arch/x64/vmx/vmx.c\<close> and
  \<^verbatim>\<open>arch/x64/vm/vm.c\<close> that write a state into the control structure of a virtual processor. Control registers and
  access rights are their raw words.
\<close>

section \<open>Words with bit-fields\<close>

definition put_bits :: "nat \<Rightarrow> nat \<Rightarrow> 'a::len word \<Rightarrow> 'a word \<Rightarrow> 'a word" where
  "put_bits i n v w = (w AND NOT (push_bit i (2 ^ n - 1))) OR push_bit i (take_bit n v)"

definition field_at :: "'a::len word \<Rightarrow> nat \<Rightarrow> nat \<Rightarrow> 'a word" where
  "field_at w i n = take_bit n (drop_bit i w)"

definition VMX_CR0_FIXED0 :: "msrs \<Rightarrow> u64" where "VMX_CR0_FIXED0 read_msr = read_msr 0x486"
definition VMX_CR0_FIXED1 :: "msrs \<Rightarrow> u64" where "VMX_CR0_FIXED1 read_msr = read_msr 0x487"
definition VMX_CR4_FIXED0 :: "msrs \<Rightarrow> u64" where "VMX_CR4_FIXED0 read_msr = read_msr 0x488"
definition VMX_CR4_FIXED1 :: "msrs \<Rightarrow> u64" where "VMX_CR4_FIXED1 read_msr = read_msr 0x489"

definition sanitize_cr0_for_vmx_operation :: "msrs \<Rightarrow> u64 \<Rightarrow> u64" where
  "sanitize_cr0_for_vmx_operation read_msr cr0 = (cr0 OR VMX_CR0_FIXED0 read_msr) AND VMX_CR0_FIXED1 read_msr"

definition sanitize_cr3_for_vmx_operation :: "u64 \<Rightarrow> u64" where
  "sanitize_cr3_for_vmx_operation cr3 = put_bits 63 1 0 (put_bits 52 9 0 (put_bits 5 7 0 (put_bits 0 3 0 cr3)))"

definition sanitize_cr4_for_vmx_operation :: "msrs \<Rightarrow> u64 \<Rightarrow> u64" where
  "sanitize_cr4_for_vmx_operation read_msr cr4 = (cr4 OR VMX_CR4_FIXED0 read_msr) AND VMX_CR4_FIXED1 read_msr"

text \<open>The positions of the flags of \<^verbatim>\<open>union cr0\<close> that are used.\<close>

definition cr0_pe :: nat where "cr0_pe = 0"
definition cr0_et :: nat where "cr0_et = 4"
definition cr0_wp :: nat where "cr0_wp = 16"
definition cr0_nw :: nat where "cr0_nw = 29"
definition cr0_cd :: nat where "cr0_cd = 30"
definition cr0_pg :: nat where "cr0_pg = 31"

section \<open>Register states\<close>

definition IA32E_LDT :: u32 where "IA32E_LDT = 2"
definition IA32E_TSS_BUSY :: u32 where "IA32E_TSS_BUSY = 11"

text \<open>The fields of \<^verbatim>\<open>union guest_state_access_rights\<close>.\<close>

definition set_segment_type :: "u32 \<Rightarrow> u32 \<Rightarrow> u32" where "set_segment_type v ar = put_bits 0 4 v ar"
definition set_descriptor_type :: "descriptor_type \<Rightarrow> u32 \<Rightarrow> u32" where "set_descriptor_type d ar = put_bits 4 1 (ucast (desc_type_bit d)) ar"
definition set_present :: "u16 \<Rightarrow> u32 \<Rightarrow> u32" where "set_present v ar = put_bits 7 1 (ucast v) ar"
definition set_ar_l :: "u32 \<Rightarrow> u32 \<Rightarrow> u32" where "set_ar_l v ar = put_bits 13 1 v ar"
definition set_segment_unusable :: "u32 \<Rightarrow> u32 \<Rightarrow> u32" where "set_segment_unusable v ar = put_bits 16 1 v ar"

record vcpu_segment =
  raw_selector :: u16
  seg_base :: u64
  seg_limit :: u32
  access_rights :: u32

record vcpu_sys_table =
  tab_base :: u64
  tab_limit :: u32

record vcpu_segments =
  cs_seg :: vcpu_segment
  ss_seg :: vcpu_segment
  ds_seg :: vcpu_segment
  es_seg :: vcpu_segment
  fs_seg :: vcpu_segment
  gs_seg :: vcpu_segment
  ldtr_seg :: vcpu_segment
  tr_seg :: vcpu_segment

record vcpu_guest_reg_state =
  g_cr0 :: u64
  g_cr3 :: u64
  g_cr4 :: u64
  g_dr7 :: u64
  g_efer :: u64
  uregs :: vcpu_user_regs
  segments :: vcpu_segments
  gdtr :: vcpu_sys_table
  idtr :: vcpu_sys_table

definition DEFINE_VCPU_SEG :: "u16 \<Rightarrow> u64 \<Rightarrow> u32 \<Rightarrow> u32 \<Rightarrow> vcpu_segment" where
  "DEFINE_VCPU_SEG selector base limit ar = \<lparr>raw_selector = selector, seg_base = base, seg_limit = limit, access_rights = ar\<rparr>"

definition zero_segment :: vcpu_segment where
  "zero_segment = DEFINE_VCPU_SEG 0 0 0 0"

definition zero_reg_state :: vcpu_guest_reg_state where
  "zero_reg_state = \<lparr>g_cr0 = 0, g_cr3 = 0, g_cr4 = 0, g_dr7 = 0, g_efer = 0, uregs = zero_regs,
     segments = \<lparr>cs_seg = zero_segment, ss_seg = zero_segment, ds_seg = zero_segment, es_seg = zero_segment, fs_seg = zero_segment,
       gs_seg = zero_segment, ldtr_seg = zero_segment, tr_seg = zero_segment\<rparr>,
     gdtr = \<lparr>tab_base = 0, tab_limit = 0\<rparr>, idtr = \<lparr>tab_base = 0, tab_limit = 0\<rparr>\<rparr>"

definition get_unusable_ar :: u32 where
  "get_unusable_ar = set_segment_unusable 1 0"

definition reset_segments_to_init_state :: "vcpu_segments \<Rightarrow> vcpu_segments" where
  "reset_segments_to_init_state segs =
     (let cs_ar = set_segment_type (ucast CODE_EXECUTE_READ_ACCESSED) (set_descriptor_type CODE_DATA_SEGMENT_DESC (set_present SEGMENT_PRESENT 0));
          seg_ar = set_segment_type (ucast DATA_RW_ACCESSED) (set_descriptor_type CODE_DATA_SEGMENT_DESC (set_present SEGMENT_PRESENT 0));
          ldtr_ar = set_segment_type IA32E_LDT (set_descriptor_type SYSTEM_SEGMENT_DESC (set_present SEGMENT_PRESENT 0));
          tr_ar = set_segment_type IA32E_TSS_BUSY (set_descriptor_type SYSTEM_SEGMENT_DESC (set_present SEGMENT_PRESENT 0))
      in segs\<lparr>cs_seg := DEFINE_VCPU_SEG 0xF000 0xFFFF0000 0xFFFF cs_ar, ss_seg := DEFINE_VCPU_SEG 0 0 0xFFFF seg_ar,
           ds_seg := DEFINE_VCPU_SEG 0 0 0xFFFF seg_ar, es_seg := DEFINE_VCPU_SEG 0 0 0xFFFF seg_ar, fs_seg := DEFINE_VCPU_SEG 0 0 0xFFFF seg_ar,
           gs_seg := DEFINE_VCPU_SEG 0 0 0xFFFF seg_ar, ldtr_seg := DEFINE_VCPU_SEG 0 0 0xFFFF ldtr_ar, tr_seg := DEFINE_VCPU_SEG 0 0 0xFFFF tr_ar\<rparr>)"

text \<open>\<^verbatim>\<open>eip\<close> and \<^verbatim>\<open>eflags\<close> are the low halves of \<^verbatim>\<open>rip\<close> and \<^verbatim>\<open>rflags\<close>.\<close>

definition set_eip :: "u32 \<Rightarrow> vcpu_user_regs \<Rightarrow> vcpu_user_regs" where
  "set_eip v u = u\<lparr>rip := put_bits 0 32 (ucast v) (rip u)\<rparr>"

definition set_eflags :: "u32 \<Rightarrow> vcpu_user_regs \<Rightarrow> vcpu_user_regs" where
  "set_eflags v u = u\<lparr>rflags := put_bits 0 32 (ucast v) (rflags u)\<rparr>"

definition reset_guest_reg_state_to_init_state :: "msrs \<Rightarrow> vcpu_guest_reg_state" where
  "reset_guest_reg_state_to_init_state read_msr =
     (let st = zero_reg_state;
          st = st\<lparr>g_cr0 := set_bit cr0_nw (set_bit cr0_cd (set_bit cr0_et (g_cr0 st)))\<rparr>;
          st = st\<lparr>g_cr0 := sanitize_cr0_for_vmx_operation read_msr (g_cr0 st)\<rparr>;
          st = st\<lparr>g_cr4 := sanitize_cr4_for_vmx_operation read_msr (g_cr4 st)\<rparr>;
          st = st\<lparr>g_dr7 := 0x400, uregs := set_eip 0xFFF0 (set_eflags 2 (uregs st))\<rparr>;
          st = st\<lparr>segments := reset_segments_to_init_state (segments st)\<rparr>
      in st\<lparr>gdtr := \<lparr>tab_base = 0, tab_limit = 0xFFFF\<rparr>, idtr := \<lparr>tab_base = 0, tab_limit = 0xFFFF\<rparr>\<rparr>)"

definition init_segments_for_linux_32bit :: "vcpu_segments \<Rightarrow> vcpu_segments" where
  "init_segments_for_linux_32bit segs =
     (let unusable_ar = get_unusable_ar;
          segs = segs\<lparr>cs_seg := \<lparr>raw_selector = 0x10, seg_base = 0, seg_limit = 0xFFFFFFFF, access_rights = 0xC09B\<rparr>\<rparr>;
          segs = segs\<lparr>ds_seg := \<lparr>raw_selector = 0x18, seg_base = 0, seg_limit = 0xFFFFFFFF, access_rights = 0xC093\<rparr>\<rparr>;
          segs = segs\<lparr>es_seg := ds_seg segs, ss_seg := ds_seg segs\<rparr>;
          segs = segs\<lparr>gs_seg := (gs_seg segs)\<lparr>access_rights := unusable_ar\<rparr>, fs_seg := (fs_seg segs)\<lparr>access_rights := unusable_ar\<rparr>,
            ldtr_seg := (ldtr_seg segs)\<lparr>access_rights := unusable_ar\<rparr>\<rparr>;
          tr_ar = set_segment_type IA32E_TSS_BUSY (set_descriptor_type SYSTEM_SEGMENT_DESC (set_present SEGMENT_PRESENT 0))
      in segs\<lparr>tr_seg := DEFINE_VCPU_SEG 0 0 0xFFFF tr_ar\<rparr>)"

definition init_guest_reg_state_for_linux_32bit :: "msrs \<Rightarrow> vcpu_guest_reg_state" where
  "init_guest_reg_state_for_linux_32bit read_msr =
     (let st = zero_reg_state;
          st = st\<lparr>g_cr0 := sanitize_cr0_for_vmx_operation read_msr (g_cr0 st)\<rparr>;
          st = st\<lparr>g_cr0 := unset_bit cr0_pg (set_bit cr0_pe (g_cr0 st))\<rparr>;
          st = st\<lparr>g_cr4 := sanitize_cr4_for_vmx_operation read_msr (g_cr4 st)\<rparr>;
          st = st\<lparr>uregs := set_eflags 2 (uregs st)\<rparr>;
          st = st\<lparr>segments := init_segments_for_linux_32bit (segments st)\<rparr>
      in st\<lparr>gdtr := (gdtr st)\<lparr>tab_limit := 0xFF\<rparr>\<rparr>)"

text \<open>The registers of the processor that executes the hypervisor.\<close>

record host_regs =
  h_cr0 :: u64
  h_cr3 :: u64
  h_cr4 :: u64
  h_dr7 :: u64
  h_efer :: u64
  h_cs :: u16
  h_tr :: u16
  h_tss_base :: u64
  h_gdtr_base :: u64
  h_gdtr_limit :: u16
  h_idtr_base :: u64
  h_idtr_limit :: u16

definition mirror_host_ctrl_regs :: "host_regs \<Rightarrow> vcpu_guest_reg_state \<Rightarrow> vcpu_guest_reg_state" where
  "mirror_host_ctrl_regs h st = st\<lparr>g_cr0 := h_cr0 h, g_cr3 := h_cr3 h, g_cr4 := h_cr4 h\<rparr>"

definition get_current_tr_ar :: u32 where
  "get_current_tr_ar = set_present SEGMENT_PRESENT (set_descriptor_type SYSTEM_SEGMENT_DESC (set_segment_type IA32E_TSS_BUSY 0))"

definition get_current_cs_ar :: u32 where
  "get_current_cs_ar = set_ar_l 1 (set_present SEGMENT_PRESENT
     (set_descriptor_type CODE_DATA_SEGMENT_DESC (set_segment_type (ucast CODE_EXECUTE_ONLY_ACCESSED) 0)))"

definition mirror_host_segment_registers :: "host_regs \<Rightarrow> vcpu_segments \<Rightarrow> vcpu_segments" where
  "mirror_host_segment_registers h segs =
     (let unusable_ar = get_unusable_ar in
      segs\<lparr>cs_seg := (cs_seg segs)\<lparr>raw_selector := h_cs h, access_rights := get_current_cs_ar\<rparr>,
        tr_seg := (tr_seg segs)\<lparr>raw_selector := h_tr h, seg_base := h_tss_base h, seg_limit := of_nat sizeof_tss - 1, access_rights := get_current_tr_ar\<rparr>,
        ss_seg := (ss_seg segs)\<lparr>access_rights := unusable_ar\<rparr>, ds_seg := (ds_seg segs)\<lparr>access_rights := unusable_ar\<rparr>,
        es_seg := (es_seg segs)\<lparr>access_rights := unusable_ar\<rparr>, fs_seg := (fs_seg segs)\<lparr>access_rights := unusable_ar\<rparr>,
        gs_seg := (gs_seg segs)\<lparr>access_rights := unusable_ar\<rparr>, ldtr_seg := (ldtr_seg segs)\<lparr>access_rights := unusable_ar\<rparr>\<rparr>)"

definition init_guest_reg_state_mirroring_host :: "host_regs \<Rightarrow> vcpu_guest_reg_state" where
  "init_guest_reg_state_mirroring_host h =
     (let st = mirror_host_ctrl_regs h zero_reg_state;
          st = st\<lparr>g_dr7 := h_dr7 h, g_efer := h_efer h, uregs := (uregs st)\<lparr>rflags := 2\<rparr>\<rparr>;
          st = st\<lparr>segments := mirror_host_segment_registers h (segments st)\<rparr>
      in st\<lparr>gdtr := \<lparr>tab_base = h_gdtr_base h, tab_limit = ucast (h_gdtr_limit h)\<rparr>,
           idtr := \<lparr>tab_base = h_idtr_base h, tab_limit = ucast (h_idtr_limit h)\<rparr>\<rparr>)"

section \<open>Writing a state\<close>

text \<open>The pattern of the functions below: the result of making the virtual processor current is ignored.\<close>

definition write_guest :: "vmx_processor \<Rightarrow> cpuid \<Rightarrow> u64 \<Rightarrow> (u64 \<times> u64) list \<Rightarrow> vmx_machine \<Rightarrow> vmx_machine run" where
  "write_guest hw c v ws s =
     andThen (vmx_make_vcpu_current hw c v s) (\<lambda>(_, s). Inr (s\<lparr>vmcs := vmwrites hw c ws (vmcs s)\<rparr>))"

definition vmx_set_guest_cr0 :: "vmx_processor \<Rightarrow> cpuid \<Rightarrow> u64 \<Rightarrow> u64 \<Rightarrow> vmx_machine \<Rightarrow> (int \<times> vmx_machine) run" where
  "vmx_set_guest_cr0 hw c v cr0 s =
     (case virt_policy (vmx_of s v) of
        None \<Rightarrow> Inl NullDeref
      | Some policy \<Rightarrow>
          if \<not> vmx_policy_is_option_configured policy VMX_POLICY_UNRESTRICTED_GUEST \<and> bit cr0 cr0_pg \<and> \<not> bit cr0 cr0_pe then Inr (- 1, s)
          else andThen (write_guest hw c v [(GUEST_CR0, cr0)] s) (\<lambda>s. Inr (0, s)))"

definition vmx_set_guest_cr3 :: "vmx_processor \<Rightarrow> cpuid \<Rightarrow> u64 \<Rightarrow> u64 \<Rightarrow> vmx_machine \<Rightarrow> vmx_machine run" where
  "vmx_set_guest_cr3 hw c v cr3 s = write_guest hw c v [(GUEST_CR3, cr3)] s"

definition vmx_set_guest_cr4 :: "vmx_processor \<Rightarrow> cpuid \<Rightarrow> u64 \<Rightarrow> u64 \<Rightarrow> vmx_machine \<Rightarrow> vmx_machine run" where
  "vmx_set_guest_cr4 hw c v cr4 s = write_guest hw c v [(GUEST_CR4, cr4)] s"

definition vmx_set_guest_efer :: "vmx_processor \<Rightarrow> cpuid \<Rightarrow> u64 \<Rightarrow> u64 \<Rightarrow> vmx_machine \<Rightarrow> vmx_machine run" where
  "vmx_set_guest_efer hw c v efer s = write_guest hw c v [(GUEST_IA32_EFER, efer)] s"

definition vmx_get_default_cr4_mask_and_shadow :: "msrs \<Rightarrow> u64 \<times> u64" where
  "vmx_get_default_cr4_mask_and_shadow read_msr =
     (let vmx_flexible_cr4_bits = VMX_CR4_FIXED0 read_msr XOR VMX_CR4_FIXED1 read_msr;
          vmx_fixed_cr4_bits = NOT vmx_flexible_cr4_bits
      in (vmx_fixed_cr4_bits, VMX_CR4_FIXED0 read_msr AND VMX_CR4_FIXED1 read_msr))"

definition vmx_set_cr4_mask_and_shadow :: "vmx_processor \<Rightarrow> cpuid \<Rightarrow> u64 \<Rightarrow> u64 \<Rightarrow> u64 \<Rightarrow> vmx_machine \<Rightarrow> vmx_machine run" where
  "vmx_set_cr4_mask_and_shadow hw c v msk shadow s = write_guest hw c v [(CR4_GUEST_HOST_MASK, msk), (CR4_READ_SHADOW, shadow)] s"

datatype x86_sys_table = X86_GDT | X86_IDT

definition vmx_set_system_table :: "vmx_processor \<Rightarrow> cpuid \<Rightarrow> u64 \<Rightarrow> x86_sys_table \<Rightarrow> vcpu_sys_table \<Rightarrow> vmx_machine \<Rightarrow> (int \<times> vmx_machine) run" where
  "vmx_set_system_table hw c v type table s =
     (let table = table\<lparr>tab_limit := tab_limit table AND 0xFFF\<rparr>;
          ws = (case type of
            X86_GDT \<Rightarrow> [(GUEST_GDTR_BASE, tab_base table), (GUEST_GDTR_LIMIT, ucast (tab_limit table))]
          | X86_IDT \<Rightarrow> [(GUEST_IDTR_BASE, tab_base table), (GUEST_IDTR_LIMIT, ucast (tab_limit table))])
      in andThen (write_guest hw c v ws s) (\<lambda>s. Inr (0, s)))"

datatype x86_segment_reg = X86_CS_REG | X86_SS_REG | X86_DS_REG | X86_ES_REG | X86_FS_REG | X86_GS_REG | X86_TR_REG | X86_LDTR_REG

text \<open>The fields that the macro \<^verbatim>\<open>WRITE_GUEST_SEGMENT_REG\<close> writes.\<close>

fun segment_fields :: "x86_segment_reg \<Rightarrow> u64 list" where
  "segment_fields X86_CS_REG = [GUEST_CS_SELECTOR, GUEST_CS_BASE, GUEST_CS_LIMIT, GUEST_CS_ACCESS_RIGHTS]"
| "segment_fields X86_SS_REG = [GUEST_SS_SELECTOR, GUEST_SS_BASE, GUEST_SS_LIMIT, GUEST_SS_ACCESS_RIGHTS]"
| "segment_fields X86_DS_REG = [GUEST_DS_SELECTOR, GUEST_DS_BASE, GUEST_DS_LIMIT, GUEST_DS_ACCESS_RIGHTS]"
| "segment_fields X86_ES_REG = [GUEST_ES_SELECTOR, GUEST_ES_BASE, GUEST_ES_LIMIT, GUEST_ES_ACCESS_RIGHTS]"
| "segment_fields X86_FS_REG = [GUEST_FS_SELECTOR, GUEST_FS_BASE, GUEST_FS_LIMIT, GUEST_FS_ACCESS_RIGHTS]"
| "segment_fields X86_GS_REG = [GUEST_GS_SELECTOR, GUEST_GS_BASE, GUEST_GS_LIMIT, GUEST_GS_ACCESS_RIGHTS]"
| "segment_fields X86_TR_REG = [GUEST_TR_SELECTOR, GUEST_TR_BASE, GUEST_TR_LIMIT, GUEST_TR_ACCESS_RIGHTS]"
| "segment_fields X86_LDTR_REG = [GUEST_LDTR_SELECTOR, GUEST_LDTR_BASE, GUEST_LDTR_LIMIT, GUEST_LDTR_ACCESS_RIGHTS]"

definition WRITE_GUEST_SEGMENT_REG :: "x86_segment_reg \<Rightarrow> vcpu_segment \<Rightarrow> (u64 \<times> u64) list" where
  "WRITE_GUEST_SEGMENT_REG reg segment =
     zip (segment_fields reg) [ucast (raw_selector segment), seg_base segment, ucast (seg_limit segment), ucast (access_rights segment)]"

text \<open>The checks of \<^verbatim>\<open>__vmx_set_ldtr_segment_register\<close>.\<close>

definition ldtr_accepted :: "vcpu_segment \<Rightarrow> bool" where
  "ldtr_accepted segment =
     (let ar = access_rights segment in
      if field_at ar 16 1 \<noteq> 0 then True
      else if field_at (raw_selector segment) 2 1 \<noteq> 0 then False
      else if \<not> is_paging_canonical (seg_base segment) then False
      else if field_at ar 0 4 \<noteq> IA32E_LDT then False
      else if field_at ar 4 1 \<noteq> ucast (desc_type_bit SYSTEM_SEGMENT_DESC) then False
      else if field_at ar 7 1 \<noteq> ucast SEGMENT_PRESENT then False
      else if field_at ar 8 4 \<noteq> 0 \<or> field_at ar 17 15 \<noteq> 0 then False
      else if (seg_limit segment AND 0xFFFF) \<noteq> 0xFFF \<and> field_at ar 15 1 \<noteq> 0 then False
      else if drop_bit 20 (seg_limit segment) \<noteq> 0 \<and> field_at ar 15 1 \<noteq> 1 then False
      else True)"

definition vmx_set_segment_register ::
  "vmx_processor \<Rightarrow> cpuid \<Rightarrow> u64 \<Rightarrow> x86_segment_reg \<Rightarrow> vcpu_segment \<Rightarrow> vmx_machine \<Rightarrow> (int \<times> vmx_machine) run" where
  "vmx_set_segment_register hw c v reg segment s =
     (if reg = X86_CS_REG \<and> drop_bit 32 (seg_base segment) \<noteq> 0 \<or> reg = X86_LDTR_REG \<and> \<not> ldtr_accepted segment
      then andThen (write_guest hw c v [] s) (\<lambda>s. Inr (- 1, s))
      else andThen (write_guest hw c v (WRITE_GUEST_SEGMENT_REG reg segment) s) (\<lambda>s. Inr (0, s)))"

definition upd_vcpu :: "u64 \<Rightarrow> (vcpu \<Rightarrow> vcpu) \<Rightarrow> vmx_machine \<Rightarrow> vmx_machine" where
  "upd_vcpu v f s = s\<lparr>vcpus := (vcpus s)(v := f (vcpus s v))\<rparr>"

text \<open>A call whose result is combined with the results before.\<close>

definition or_ret :: "(int \<times> vmx_machine) run \<Rightarrow> (vmx_machine \<Rightarrow> (int \<times> vmx_machine) run) \<Rightarrow> (int \<times> vmx_machine) run" where
  "or_ret m f = andThen m (\<lambda>(ret, s). andThen (f s) (\<lambda>(r, s). Inr (ret OR r, s)))"

definition set_vcpu_reg_state :: "vmx_processor \<Rightarrow> cpuid \<Rightarrow> u64 \<Rightarrow> vcpu_guest_reg_state \<Rightarrow> vmx_machine \<Rightarrow> (int \<times> vmx_machine) run" where
  "set_vcpu_reg_state hw c v st s =
     (let s = upd_vcpu v (\<lambda>x. x\<lparr>user_regs := uregs st\<rparr>) s;
          segs = segments st;
          m = or_ret (Inr (0, s)) (vmx_set_guest_cr0 hw c v (g_cr0 st));
          m = or_ret m (\<lambda>s. andThen (vmx_set_guest_cr3 hw c v (g_cr3 st) s) (\<lambda>s. Inr (0, s)));
          m = or_ret m (\<lambda>s. andThen (vmx_set_guest_cr4 hw c v (g_cr4 st) s) (\<lambda>s. Inr (0, s)));
          m = or_ret m (\<lambda>s. andThen (vmx_set_guest_efer hw c v (g_efer st) s) (\<lambda>s. Inr (0, s)));
          m = or_ret m (vmx_set_segment_register hw c v X86_CS_REG (cs_seg segs));
          m = or_ret m (vmx_set_segment_register hw c v X86_SS_REG (ss_seg segs));
          m = or_ret m (vmx_set_segment_register hw c v X86_DS_REG (ds_seg segs));
          m = or_ret m (vmx_set_segment_register hw c v X86_ES_REG (es_seg segs));
          m = or_ret m (vmx_set_segment_register hw c v X86_FS_REG (fs_seg segs));
          m = or_ret m (vmx_set_segment_register hw c v X86_GS_REG (gs_seg segs));
          m = or_ret m (vmx_set_segment_register hw c v X86_TR_REG (tr_seg segs));
          m = or_ret m (vmx_set_segment_register hw c v X86_LDTR_REG (ldtr_seg segs));
          m = or_ret m (vmx_set_system_table hw c v X86_GDT (gdtr st))
      in or_ret m (vmx_set_system_table hw c v X86_IDT (idtr st)))"

section \<open>The effect on a virtual processor\<close>

text \<open>Processor \<open>c\<close> can make \<open>v\<close> current.\<close>

definition bindable :: "vmx_processor \<Rightarrow> cpuid \<Rightarrow> u64 \<Rightarrow> vmx_machine \<Rightarrow> bool" where
  "bindable hw c v s \<longleftrightarrow> vmx_ok hw s \<and> live s v \<and> c \<noteq> INVALID_CPUID
     \<and> (curr_vcpu s c = v \<or> (active_cpu (vmx_of s v) = INVALID_CPUID \<or> active_cpu (vmx_of s v) = c) \<and> loadable_vmcs hw s v)"

definition written :: "vmx_processor \<Rightarrow> cpuid \<Rightarrow> u64 \<Rightarrow> (u64 \<times> u64) list \<Rightarrow> vmx_machine \<Rightarrow> vmx_machine" where
  "written hw c v ws s = (let b = bound c v s; p = vmcs_ptr (vmx_of s v)
     in b\<lparr>vmcs := (vmcs b)\<lparr>regions := (regions (vmcs b))(p := put_fields hw ws (regions (vmcs b) p))\<rparr>\<rparr>)"

lemma bound_same:
  assumes "vmx_ok hw s" "live s v" "curr_vcpu s c = v"
  shows "bound c v s = s"
proof -
  note a = curr_vcpu_active[OF assms]
  have "(vmx_of s v)\<lparr>active_cpu := c\<rparr> = vmx_of s v" by (subst a(1)[symmetric]) simp
  moreover have "(current_vmcs (vmcs s))(c := vmcs_ptr (vmx_of s v)) = current_vmcs (vmcs s)" "(curr_vcpu s)(c := v) = curr_vcpu s"
    using a(3) assms(3) by (simp_all add: fun_upd_idem)
  ultimately show ?thesis by (simp add: bound_def upd_vmx_def)
qed

lemma written_simps [simp]:
  "vmx_of (written hw c v ws s) w = (if w = v then (vmx_of s v)\<lparr>active_cpu := c\<rparr> else vmx_of s w)" "pages (written hw c v ws s) = pages s"
  "curr_vcpu (written hw c v ws s) = (curr_vcpu s)(c := v)"
  "current_vmcs (vmcs (written hw c v ws s)) = (current_vmcs (vmcs s))(c := vmcs_ptr (vmx_of s v))"
  "regions (vmcs (written hw c v ws s)) = (regions (vmcs s))(vmcs_ptr (vmx_of s v) := put_fields hw ws (regions (vmcs s) (vmcs_ptr (vmx_of s v))))"
  "live (written hw c v ws s) w = live s w"
  by (simp_all add: written_def Let_def live_def)

lemma bindable_run:
  assumes "bindable hw c v s"
  shows "\<exists>r. vmx_make_vcpu_current hw c v s = Inr (r, bound c v s)"
proof (cases rule: make_current_cases[of v s c hw])
  case same
  have "bound c v s = s" using assms bound_same[OF _ _ same(1)[symmetric]] unfolding bindable_def by blast
  then show ?thesis using same(2) by auto
qed (use assms in \<open>auto simp: bindable_def\<close>)

lemma bound_ok: "bindable hw c v s \<Longrightarrow> vmx_ok hw (bound c v s)"
  using bindable_run[of hw c v s] make_current_ok[of hw s v c] by (auto simp: bindable_def)

lemma written_ok:
  assumes "bindable hw c v s"
  shows "vmx_ok hw (written hw c v ws s)"
proof -
  have cur: "current_vmcs (vmcs (bound c v s)) c = vmcs_ptr (vmx_of s v)" by simp
  have ne: "vmcs_ptr (vmx_of s v) \<noteq> NO_CURRENT_VMCS_ADDR" using assms area_ok_ne_none vmx_okD(5) unfolding bindable_def by metis
  have "vmx_step hw r (bound c v s) (written hw c v ws s)" for r
    using step_write[of hw r "bound c v s" c ws] ne by (simp add: vmwrites_put written_def Let_def)
  then show ?thesis using vmx_step_ok bound_ok[OF assms] by blast
qed

lemma written_bindable: "bindable hw c v s \<Longrightarrow> bindable hw c v (written hw c v ws s)"
  using written_ok by (simp add: bindable_def)

lemma written_bound: "bindable hw c v s \<Longrightarrow> bound c v (written hw c v ws s) = written hw c v ws s"
  using bound_same[OF written_ok] by (simp add: bindable_def)

lemma write_guest_run:
  assumes "bindable hw c v s"
  shows "write_guest hw c v ws s = Inr (written hw c v ws s)"
proof -
  obtain r where r: "vmx_make_vcpu_current hw c v s = Inr (r, bound c v s)" using bindable_run[OF assms] by blast
  have ne: "vmcs_ptr (vmx_of s v) \<noteq> NO_CURRENT_VMCS_ADDR" using assms area_ok_ne_none vmx_okD(5) unfolding bindable_def by metis
  then show ?thesis using r by (simp add: write_guest_def vmwrites_put written_def Let_def)
qed

lemma written_append: "bindable hw c v s \<Longrightarrow> written hw c v ws (written hw c v vs s) = written hw c v (vs @ ws) s"
  by (subst written_def) (simp add: written_bound, simp add: written_def Let_def put_fields_append)

text \<open>One call of the sequence: it writes \<open>ws\<close> and returns \<open>r\<close>, whatever was written before.\<close>

definition writes :: "vmx_processor \<Rightarrow> cpuid \<Rightarrow> u64 \<Rightarrow> vmx_virt_policy \<Rightarrow> (vmx_machine \<Rightarrow> (int \<times> vmx_machine) run) \<Rightarrow> int \<Rightarrow> (u64 \<times> u64) list \<Rightarrow> bool" where
  "writes hw c v policy f r ws \<longleftrightarrow> (\<forall>s. bindable hw c v s \<longrightarrow> virt_policy (vmx_of s v) = Some policy \<longrightarrow> f s = Inr (r, written hw c v ws s))"

lemma or_ret_written:
  assumes "bindable hw c v s" "virt_policy (vmx_of s v) = Some policy" "m = Inr (ret, written hw c v vs s)" "writes hw c v policy f r ws"
  shows "or_ret m f = Inr (ret OR r, written hw c v (vs @ ws) s)"
  using assms written_bindable[OF assms(1), of vs] written_append[OF assms(1), of ws vs] by (simp add: or_ret_def writes_def)

text \<open>What is refused, and the writes and the result of a whole state.\<close>

definition cr0_refused :: "vmx_virt_policy \<Rightarrow> u64 \<Rightarrow> bool" where
  "cr0_refused policy cr0 \<longleftrightarrow> \<not> vmx_policy_is_option_configured policy VMX_POLICY_UNRESTRICTED_GUEST \<and> bit cr0 cr0_pg \<and> \<not> bit cr0 cr0_pe"

definition segment_refused :: "x86_segment_reg \<Rightarrow> vcpu_segment \<Rightarrow> bool" where
  "segment_refused reg segment \<longleftrightarrow> reg = X86_CS_REG \<and> drop_bit 32 (seg_base segment) \<noteq> 0 \<or> reg = X86_LDTR_REG \<and> \<not> ldtr_accepted segment"

definition segment_writes :: "x86_segment_reg \<Rightarrow> vcpu_segment \<Rightarrow> (u64 \<times> u64) list" where
  "segment_writes reg segment = (if segment_refused reg segment then [] else WRITE_GUEST_SEGMENT_REG reg segment)"

definition control_writes :: "vmx_virt_policy \<Rightarrow> vcpu_guest_reg_state \<Rightarrow> (u64 \<times> u64) list" where
  "control_writes policy st = (if cr0_refused policy (g_cr0 st) then [] else [(GUEST_CR0, g_cr0 st)])
     @ [(GUEST_CR3, g_cr3 st), (GUEST_CR4, g_cr4 st), (GUEST_IA32_EFER, g_efer st)]"

definition all_segment_writes :: "vcpu_segments \<Rightarrow> (u64 \<times> u64) list" where
  "all_segment_writes segs = segment_writes X86_CS_REG (cs_seg segs) @ segment_writes X86_SS_REG (ss_seg segs) @ segment_writes X86_DS_REG (ds_seg segs)
     @ segment_writes X86_ES_REG (es_seg segs) @ segment_writes X86_FS_REG (fs_seg segs) @ segment_writes X86_GS_REG (gs_seg segs)
     @ segment_writes X86_TR_REG (tr_seg segs) @ segment_writes X86_LDTR_REG (ldtr_seg segs)"

definition table_writes :: "vcpu_guest_reg_state \<Rightarrow> (u64 \<times> u64) list" where
  "table_writes st = [(GUEST_GDTR_BASE, tab_base (gdtr st)), (GUEST_GDTR_LIMIT, ucast (tab_limit (gdtr st) AND 0xFFF)),
     (GUEST_IDTR_BASE, tab_base (idtr st)), (GUEST_IDTR_LIMIT, ucast (tab_limit (idtr st) AND 0xFFF))]"

definition reg_writes :: "vmx_virt_policy \<Rightarrow> vcpu_guest_reg_state \<Rightarrow> (u64 \<times> u64) list" where
  "reg_writes policy st = control_writes policy st @ all_segment_writes (segments st) @ table_writes st"

definition regs_refused :: "vmx_virt_policy \<Rightarrow> vcpu_guest_reg_state \<Rightarrow> bool" where
  "regs_refused policy st \<longleftrightarrow> cr0_refused policy (g_cr0 st) \<or> segment_refused X86_CS_REG (cs_seg (segments st))
     \<or> segment_refused X86_LDTR_REG (ldtr_seg (segments st))"

lemma writes_segment:
  "writes hw c v policy (vmx_set_segment_register hw c v reg segment) (if segment_refused reg segment then - 1 else 0) (segment_writes reg segment)"
  by (auto simp: writes_def vmx_set_segment_register_def segment_refused_def segment_writes_def write_guest_run)

lemma writes_table:
  "writes hw c v policy (vmx_set_system_table hw c v X86_GDT t) 0 [(GUEST_GDTR_BASE, tab_base t), (GUEST_GDTR_LIMIT, ucast (tab_limit t AND 0xFFF))]"
  "writes hw c v policy (vmx_set_system_table hw c v X86_IDT t) 0 [(GUEST_IDTR_BASE, tab_base t), (GUEST_IDTR_LIMIT, ucast (tab_limit t AND 0xFFF))]"
  by (simp_all add: writes_def vmx_set_system_table_def Let_def write_guest_run)

lemma writes_cr:
  "writes hw c v policy (\<lambda>s. andThen (vmx_set_guest_cr3 hw c v x s) (\<lambda>s. Inr (0, s))) 0 [(GUEST_CR3, x)]"
  "writes hw c v policy (\<lambda>s. andThen (vmx_set_guest_cr4 hw c v x s) (\<lambda>s. Inr (0, s))) 0 [(GUEST_CR4, x)]"
  "writes hw c v policy (\<lambda>s. andThen (vmx_set_guest_efer hw c v x s) (\<lambda>s. Inr (0, s))) 0 [(GUEST_IA32_EFER, x)]"
  by (simp_all add: writes_def vmx_set_guest_cr3_def vmx_set_guest_cr4_def vmx_set_guest_efer_def write_guest_run)

text \<open>The first two calls: a refused CR0 does not even make the virtual processor current.\<close>

lemma first_writes:
  assumes "bindable hw c v s" "virt_policy (vmx_of s v) = Some policy"
  shows "or_ret (or_ret (Inr (0, s)) (vmx_set_guest_cr0 hw c v cr0)) (\<lambda>s. andThen (vmx_set_guest_cr3 hw c v x s) (\<lambda>s. Inr (0, s)))
    = Inr (if cr0_refused policy cr0 then - 1 else 0, written hw c v ((if cr0_refused policy cr0 then [] else [(GUEST_CR0, cr0)]) @ [(GUEST_CR3, x)]) s)"
proof (cases "cr0_refused policy cr0")
  case True
  then show ?thesis using assms by (simp add: or_ret_def vmx_set_guest_cr0_def cr0_refused_def vmx_set_guest_cr3_def write_guest_run)
next
  case False
  have m: "or_ret (Inr (0, s)) (vmx_set_guest_cr0 hw c v cr0) = Inr (0, written hw c v [(GUEST_CR0, cr0)] s)"
    using False assms by (simp add: or_ret_def vmx_set_guest_cr0_def cr0_refused_def write_guest_run)
  show ?thesis using or_ret_written[OF assms m writes_cr(1)[of hw c v policy x]] False by simp
qed

lemma regs_bindable: "bindable hw c v (upd_vcpu w (\<lambda>x. x\<lparr>user_regs := u\<rparr>) s) = bindable hw c v s"
proof -
  let ?s = "upd_vcpu w (\<lambda>x. x\<lparr>user_regs := u\<rparr>) s"
  have eq: "vmx_of ?s x = vmx_of s x" "pages ?s = pages s" "vmcs ?s = vmcs s" "curr_vcpu ?s = curr_vcpu s" for x by (simp_all add: upd_vcpu_def)
  show ?thesis unfolding bindable_def vmx_ok_def areas_ok_def binding_ok_def live_def eq ..
qed

lemma set_vcpu_reg_state_run:
  assumes b: "bindable hw c v s" "virt_policy (vmx_of s v) = Some policy"
  shows "set_vcpu_reg_state hw c v st s = Inr (if regs_refused policy st then - 1 else 0,
    written hw c v (reg_writes policy st) (upd_vcpu v (\<lambda>x. x\<lparr>user_regs := uregs st\<rparr>) s))"
proof -
  let ?s = "upd_vcpu v (\<lambda>x. x\<lparr>user_regs := uregs st\<rparr>) s"
  have b': "bindable hw c v ?s" "virt_policy (vmx_of ?s v) = Some policy" using b regs_bindable by (simp, simp add: upd_vcpu_def)
  have seg: "segment_refused reg sg \<Longrightarrow> reg = X86_CS_REG \<or> reg = X86_LDTR_REG" for reg sg by (auto simp: segment_refused_def)
  note step = or_ret_written[OF b']
  note chain = step[OF step[OF step[OF step[OF step[OF step[OF step[OF step[OF step[OF step[OF step[OF step[OF first_writes[OF b', of "g_cr0 st" "g_cr3 st"]
    writes_cr(2)] writes_cr(3)] writes_segment] writes_segment] writes_segment] writes_segment] writes_segment] writes_segment] writes_segment] writes_segment]
    writes_table(1)] writes_table(2)]
  show ?thesis unfolding set_vcpu_reg_state_def Let_def
    by (subst chain) (auto simp: reg_writes_def control_writes_def all_segment_writes_def table_writes_def regs_refused_def dest: seg)
qed

lemma subseq_distinct: "subseq xs ys \<Longrightarrow> distinct ys \<Longrightarrow> distinct xs"
  by (auto simp: subseq_conv_nths intro: distinct_nthsI)

lemma subseq_segment: "subseq (map fst (segment_writes reg sg)) (segment_fields reg)"
  by (cases reg) (simp_all add: segment_writes_def WRITE_GUEST_SEGMENT_REG_def)

lemma reg_fields_distinct: "distinct (map fst (reg_writes policy st))"
proof -
  let ?all = "[GUEST_CR0, GUEST_CR3, GUEST_CR4, GUEST_IA32_EFER] @ (segment_fields X86_CS_REG @ segment_fields X86_SS_REG @ segment_fields X86_DS_REG
     @ segment_fields X86_ES_REG @ segment_fields X86_FS_REG @ segment_fields X86_GS_REG @ segment_fields X86_TR_REG @ segment_fields X86_LDTR_REG)
     @ [GUEST_GDTR_BASE, GUEST_GDTR_LIMIT, GUEST_IDTR_BASE, GUEST_IDTR_LIMIT]"
  have "subseq (map fst (control_writes policy st)) [GUEST_CR0, GUEST_CR3, GUEST_CR4, GUEST_IA32_EFER]" by (simp add: control_writes_def)
  moreover have "map fst (table_writes st) = [GUEST_GDTR_BASE, GUEST_GDTR_LIMIT, GUEST_IDTR_BASE, GUEST_IDTR_LIMIT]" by (simp add: table_writes_def)
  ultimately have "subseq (map fst (reg_writes policy st)) ?all"
    unfolding reg_writes_def all_segment_writes_def map_append by (intro list_emb_append_mono subseq_segment) simp_all
  moreover have "distinct ?all" by (simp add: field_defs)
  ultimately show ?thesis by (rule subseq_distinct)
qed

text \<open>The fields of the registers that are set.\<close>

definition guest_reg_fields :: "u64 list" where
  "guest_reg_fields = [GUEST_CR0, GUEST_CR3, GUEST_CR4, GUEST_IA32_EFER] @ concat (map segment_fields
     [X86_CS_REG, X86_SS_REG, X86_DS_REG, X86_ES_REG, X86_FS_REG, X86_GS_REG, X86_TR_REG, X86_LDTR_REG])
     @ [GUEST_GDTR_BASE, GUEST_GDTR_LIMIT, GUEST_IDTR_BASE, GUEST_IDTR_LIMIT]"

lemma segment_write_fields: "fst ` set (segment_writes reg sg) \<subseteq> set (segment_fields reg)"
  by (auto simp: segment_writes_def WRITE_GUEST_SEGMENT_REG_def dest: set_zip_leftD)

lemma reg_write_fields: "fst ` set (reg_writes policy st) \<subseteq> set guest_reg_fields"
proof -
  have "fst ` set (all_segment_writes segs) \<subseteq> set (concat (map segment_fields
     [X86_CS_REG, X86_SS_REG, X86_DS_REG, X86_ES_REG, X86_FS_REG, X86_GS_REG, X86_TR_REG, X86_LDTR_REG]))" for segs
    unfolding all_segment_writes_def set_append image_Un using segment_write_fields by (simp del: segment_fields.simps) blast
  moreover have "fst ` set (control_writes policy st) \<subseteq> {GUEST_CR0, GUEST_CR3, GUEST_CR4, GUEST_IA32_EFER}" by (auto simp: control_writes_def)
  moreover have "fst ` set (table_writes st) = {GUEST_GDTR_BASE, GUEST_GDTR_LIMIT, GUEST_IDTR_BASE, GUEST_IDTR_LIMIT}" by (auto simp: table_writes_def)
  ultimately show ?thesis unfolding reg_writes_def guest_reg_fields_def set_append image_Un by (auto simp del: segment_fields.simps)
qed

section \<open>What the control structure holds\<close>

text \<open>A segment as the control structure holds it.\<close>

definition segment_read :: "fields \<Rightarrow> x86_segment_reg \<Rightarrow> vcpu_segment" where
  "segment_read fs reg = \<lparr>raw_selector = ucast (fs (segment_fields reg ! 0)), seg_base = fs (segment_fields reg ! 1),
     seg_limit = ucast (fs (segment_fields reg ! 2)), access_rights = ucast (fs (segment_fields reg ! 3))\<rparr>"

lemma ucast_at_width:
  "(ucast (take_bit 16 (ucast (x :: u16) :: u64)) :: u16) = x" "(ucast (take_bit 32 (ucast (y :: u32) :: u64)) :: u32) = y"
  by (rule bit_word_eqI, simp add: bit_ucast_iff bit_take_bit_iff)+

lemma segment_field_bits:
  "field_bits (segment_fields reg ! 0) = 16" "field_bits (segment_fields reg ! Suc 0) = 64" "field_bits (segment_fields reg ! 2) = 32" "field_bits (segment_fields reg ! 3) = 32"
  by (cases reg; simp add: field_bits_def enc_width_def field_defs)+

fun segment_of :: "x86_segment_reg \<Rightarrow> vcpu_segments \<Rightarrow> vcpu_segment" where
  "segment_of X86_CS_REG segs = cs_seg segs"
| "segment_of X86_SS_REG segs = ss_seg segs"
| "segment_of X86_DS_REG segs = ds_seg segs"
| "segment_of X86_ES_REG segs = es_seg segs"
| "segment_of X86_FS_REG segs = fs_seg segs"
| "segment_of X86_GS_REG segs = gs_seg segs"
| "segment_of X86_TR_REG segs = tr_seg segs"
| "segment_of X86_LDTR_REG segs = ldtr_seg segs"

text \<open>
  The structure holds a register state: what is read back is the state itself, with two exceptions. Only 12 bits of the table
  limits arrive (\<^verbatim>\<open>vmx_set_system_table\<close> masks them), and DR7 is not written at all. A refused register keeps its old value \<open>old\<close>.
\<close>

definition registers_held :: "vmx_virt_policy \<Rightarrow> vcpu_guest_reg_state \<Rightarrow> fields \<Rightarrow> fields \<Rightarrow> bool" where
  "registers_held policy st old fs \<longleftrightarrow>
     fs GUEST_CR0 = (if cr0_refused policy (g_cr0 st) then old GUEST_CR0 else g_cr0 st)
     \<and> fs GUEST_CR3 = g_cr3 st \<and> fs GUEST_CR4 = g_cr4 st \<and> fs GUEST_IA32_EFER = g_efer st
     \<and> (\<forall>reg. if segment_refused reg (segment_of reg (segments st)) then \<forall>enc \<in> set (segment_fields reg). fs enc = old enc
          else segment_read fs reg = segment_of reg (segments st))
     \<and> fs GUEST_GDTR_BASE = tab_base (gdtr st) \<and> fs GUEST_GDTR_LIMIT = take_bit 12 (ucast (tab_limit (gdtr st)))
     \<and> fs GUEST_IDTR_BASE = tab_base (idtr st) \<and> fs GUEST_IDTR_LIMIT = take_bit 12 (ucast (tab_limit (idtr st)))
     \<and> fs GUEST_DR7 = old GUEST_DR7 \<and> (\<forall>enc. enc \<notin> set guest_reg_fields \<longrightarrow> fs enc = old enc)"

lemma segment_written:
  assumes "\<And>enc val. (enc, val) \<in> set (WRITE_GUEST_SEGMENT_REG reg sg) \<Longrightarrow> fs enc = take_bit (field_bits enc) val"
  shows "segment_read fs reg = sg"
proof -
  have "WRITE_GUEST_SEGMENT_REG reg sg = [(segment_fields reg ! 0, ucast (raw_selector sg)), (segment_fields reg ! 1, seg_base sg),
      (segment_fields reg ! 2, ucast (seg_limit sg)), (segment_fields reg ! 3, ucast (access_rights sg))]"
    by (cases reg) (simp_all add: WRITE_GUEST_SEGMENT_REG_def)
  then have "fs (segment_fields reg ! 0) = take_bit 16 (ucast (raw_selector sg))" "fs (segment_fields reg ! 1) = seg_base sg"
    "fs (segment_fields reg ! 2) = take_bit 32 (ucast (seg_limit sg))" "fs (segment_fields reg ! 3) = take_bit 32 (ucast (access_rights sg))"
    using assms[of "segment_fields reg ! 0"] assms[of "segment_fields reg ! 1"] assms[of "segment_fields reg ! 2"] assms[of "segment_fields reg ! 3"]
    by (simp_all add: segment_field_bits take_bit_word_eq_self)
  then show ?thesis by (simp add: segment_read_def ucast_at_width)
qed

lemma segment_in_writes: "set (segment_writes reg (segment_of reg (segments st))) \<subseteq> set (reg_writes policy st)"
  by (cases reg) (auto simp: reg_writes_def all_segment_writes_def)

text \<open>A field of a refused segment is in no other write.\<close>

lemma segment_fields_disjoint: "r \<noteq> reg \<Longrightarrow> set (segment_fields r) \<inter> set (segment_fields reg) = {}"
  by (cases r; cases reg; simp add: field_defs)

lemma refused_field_not_written:
  assumes "segment_refused reg (segment_of reg (segments st))" "enc \<in> set (segment_fields reg)"
  shows "enc \<notin> fst ` set (reg_writes policy st)"
proof -
  have r: "reg = X86_CS_REG \<or> reg = X86_LDTR_REG" using assms(1) by (auto simp: segment_refused_def)
  have sub: "fst ` set (segment_writes r sg) \<subseteq> set (segment_fields r)" for r sg by (rule segment_write_fields)
  have other: "enc \<notin> set (segment_fields r)" if "r \<noteq> reg" for r using segment_fields_disjoint[OF that] assms(2) by blast
  have "enc \<notin> fst ` set (segment_writes r (segment_of r (segments st)))" for r
  proof (cases "r = reg")
    case True
    then show ?thesis using assms(1) by (simp add: segment_writes_def)
  qed (use other sub in blast)
  note seg = this[of X86_CS_REG] this[of X86_SS_REG] this[of X86_DS_REG] this[of X86_ES_REG] this[of X86_FS_REG] this[of X86_GS_REG]
    this[of X86_TR_REG] this[of X86_LDTR_REG]
  have "enc \<notin> fst ` set (control_writes policy st)" "enc \<notin> fst ` set (table_writes st)"
    using r assms(2) by (auto simp: control_writes_def table_writes_def field_defs)
  then show ?thesis using seg unfolding reg_writes_def all_segment_writes_def set_append image_Un by simp
qed

lemma table_limit_bits: "take_bit 32 (ucast (x AND 0xFFF :: u32) :: u64) = take_bit 12 (ucast x)"
proof -
  have "(0xFFF :: u32) = mask 12" by (simp add: mask_eq_exp_minus_1)
  then have "x AND 0xFFF = take_bit 12 x" by (simp only: take_bit_eq_mask)
  then show ?thesis by (intro bit_word_eqI) (auto simp: bit_ucast_iff bit_take_bit_iff)
qed

lemma put_registers_held:
  assumes ok: "\<forall>enc \<in> set guest_reg_fields. vmwrite_error hw enc = 0"
  shows "registers_held policy st old (put_fields hw (reg_writes policy st) old)"
proof -
  let ?ws = "reg_writes policy st"
  let ?fs = "put_fields hw ?ws old"
  have at: "?fs enc = take_bit (field_bits enc) val" if "(enc, val) \<in> set ?ws" for enc val
    using put_fields_at[OF reg_fields_distinct that] ok reg_write_fields that by force
  have keep: "?fs enc = old enc" if "enc \<notin> fst ` set ?ws" for enc using put_fields_other[OF that] .
  have fb: "field_bits GUEST_CR0 = 64" "field_bits GUEST_CR3 = 64" "field_bits GUEST_CR4 = 64" "field_bits GUEST_IA32_EFER = 64"
    "field_bits GUEST_GDTR_BASE = 64" "field_bits GUEST_GDTR_LIMIT = 32" "field_bits GUEST_IDTR_BASE = 64" "field_bits GUEST_IDTR_LIMIT = 32"
    by (simp_all add: field_bits_def enc_width_def field_defs)
  have "?fs GUEST_CR3 = g_cr3 st" "?fs GUEST_CR4 = g_cr4 st" "?fs GUEST_IA32_EFER = g_efer st"
    "?fs GUEST_GDTR_BASE = tab_base (gdtr st)" "?fs GUEST_IDTR_BASE = tab_base (idtr st)"
    using at[of GUEST_CR3 "g_cr3 st"] at[of GUEST_CR4 "g_cr4 st"] at[of GUEST_IA32_EFER "g_efer st"] at[of GUEST_GDTR_BASE "tab_base (gdtr st)"]
      at[of GUEST_IDTR_BASE "tab_base (idtr st)"] by (simp_all add: reg_writes_def control_writes_def table_writes_def fb take_bit_word_eq_self)
  moreover have "?fs GUEST_GDTR_LIMIT = take_bit 12 (ucast (tab_limit (gdtr st)))" "?fs GUEST_IDTR_LIMIT = take_bit 12 (ucast (tab_limit (idtr st)))"
    using at[of GUEST_GDTR_LIMIT "ucast (tab_limit (gdtr st) AND 0xFFF)"] at[of GUEST_IDTR_LIMIT "ucast (tab_limit (idtr st) AND 0xFFF)"]
    by (simp_all add: reg_writes_def table_writes_def fb table_limit_bits)
  moreover have "?fs GUEST_CR0 = (if cr0_refused policy (g_cr0 st) then old GUEST_CR0 else g_cr0 st)"
  proof (cases "cr0_refused policy (g_cr0 st)")
    case True
    have "GUEST_CR0 \<notin> set (segment_fields reg)" for reg by (cases reg) (simp_all add: field_defs)
    then have "GUEST_CR0 \<notin> fst ` set (segment_writes reg sg)" for reg sg using segment_write_fields by blast
    moreover have "GUEST_CR0 \<notin> fst ` set (control_writes policy st)" "GUEST_CR0 \<notin> fst ` set (table_writes st)"
      using True by (auto simp: control_writes_def table_writes_def field_defs)
    ultimately show ?thesis using True keep[of GUEST_CR0] unfolding reg_writes_def all_segment_writes_def set_append image_Un by simp
  qed (use at[of GUEST_CR0 "g_cr0 st"] in \<open>simp add: reg_writes_def control_writes_def fb take_bit_word_eq_self\<close>)
  moreover have "segment_read ?fs reg = segment_of reg (segments st)" if "\<not> segment_refused reg (segment_of reg (segments st))" for reg
    using segment_in_writes[of reg st policy] that by (intro segment_written at) (auto simp: segment_writes_def)
  moreover have "?fs enc = old enc" if "segment_refused reg (segment_of reg (segments st))" "enc \<in> set (segment_fields reg)" for reg enc
    using keep[OF refused_field_not_written[OF that]] .
  moreover have out: "?fs enc = old enc" if "enc \<notin> set guest_reg_fields" for enc using keep reg_write_fields that by blast
  moreover have "?fs GUEST_DR7 = old GUEST_DR7" by (rule out) (simp add: guest_reg_fields_def field_defs)
  ultimately show ?thesis by (simp add: registers_held_def)
qed

section \<open>Properties\<close>

text \<open>
  C38. Setting the registers of a virtual processor that has a policy and can be made current on the executing processor, on a
  processor that accepts the writes, returns; the user registers are those of the state, and the control structure of the virtual
  processor holds the state: CR0, CR3, CR4, EFER, every segment register and the bases of the descriptor tables read back as given. The
  limits of the tables read back cut to 12 bits, and DR7 is not written. The result is 0 unless CR0 (paging without protection and
  without unrestricted guest), the base of CS or the LDT is refused; what is refused keeps its old value. All other fields, all other
  structures and all other virtual processors are unchanged. A virtual processor that cannot be made current is not covered
  (\<open>refused_binding_writes_elsewhere\<close>).
\<close>

theorem set_vcpu_reg_state_exact:
  assumes "bindable hw c v s" "virt_policy (vmx_of s v) = Some policy" "p = vmcs_ptr (vmx_of s v)"
    and "\<forall>enc \<in> set guest_reg_fields. vmwrite_error hw enc = 0"
  shows "\<exists>t. set_vcpu_reg_state hw c v st s = Inr (if regs_refused policy st then - 1 else 0, t) \<and> vmx_ok hw t \<and> curr_vcpu t c = v
    \<and> user_regs (vcpus t v) = uregs st
    \<and> registers_held policy st (regions (vmcs s) p) (regions (vmcs t) p)
    \<and> (\<forall>q. q \<noteq> p \<longrightarrow> regions (vmcs t) q = regions (vmcs s) q) \<and> (\<forall>w. w \<noteq> v \<longrightarrow> vcpus t w = vcpus s w)"
proof -
  let ?s = "upd_vcpu v (\<lambda>x. x\<lparr>user_regs := uregs st\<rparr>) s"
  let ?t = "written hw c v (reg_writes policy st) ?s"
  have b: "bindable hw c v ?s" using assms(1) regs_bindable by simp
  have r: "regions (vmcs ?t) = (regions (vmcs s))(p := put_fields hw (reg_writes policy st) (regions (vmcs s) p))"
    using assms(3) by (simp add: upd_vcpu_def)
  have vals: "registers_held policy st (regions (vmcs s) p) (regions (vmcs ?t) p)" unfolding r using put_registers_held[OF assms(4)] by simp
  have rest: "\<forall>q. q \<noteq> p \<longrightarrow> regions (vmcs ?t) q = regions (vmcs s) q" unfolding r by simp
  have own: "user_regs (vcpus ?t v) = uregs st" "\<forall>w. w \<noteq> v \<longrightarrow> vcpus ?t w = vcpus s w"
    by (simp_all add: written_def bound_def upd_vmx_def upd_vcpu_def Let_def)
  have "curr_vcpu ?t c = v" by simp
  then show ?thesis using set_vcpu_reg_state_run[OF assms(1,2), of st] written_ok[OF b] vals rest own by blast
qed

text \<open>
  The functions that set a register ignore that the virtual processor could not be made current: the value then goes into the structure of
  the virtual processor that is current on the processor.
\<close>

lemma refused_binding_writes_elsewhere:
  assumes "vmx_ok hw s" "live s v" "live s w" "curr_vcpu s c = w" "w \<noteq> v" "active_cpu (vmx_of s v) = INVALID_CPUID" "\<not> loadable_vmcs hw s v"
    and "vmwrite_error hw GUEST_CR3 = 0"
  shows "\<exists>t. vmx_set_guest_cr3 hw c v x s = Inr t \<and> regions (vmcs t) (vmcs_ptr (vmx_of s w)) GUEST_CR3 = x"
proof (cases rule: make_current_cases[of v s c hw])
  case (refused e)
  have cur: "current_vmcs (vmcs s) c = vmcs_ptr (vmx_of s w)" using curr_vcpu_active(3)[OF assms(1,3,4)] .
  have "vmcs_ptr (vmx_of s w) \<noteq> NO_CURRENT_VMCS_ADDR" using area_ok_ne_none[OF vmx_okD(5)[OF assms(1,3)]] .
  moreover have "take_bit (field_bits GUEST_CR3) x = x" by (simp add: field_bits_def enc_width_def field_defs take_bit_word_eq_self)
  ultimately show ?thesis using refused(5) cur assms(8) by (simp add: vmx_set_guest_cr3_def write_guest_def vmwrite_def Let_def)
qed (use assms in auto)

text \<open>A descriptor table of the architectural maximum of 64 KB is installed with 4 KB.\<close>

lemma table_limit_truncated:
  "registers_held policy (reset_guest_reg_state_to_init_state r) old fs \<Longrightarrow> fs GUEST_IDTR_LIMIT = 0xFFF \<and> fs GUEST_GDTR_LIMIT = 0xFFF"
  "tab_limit (idtr (reset_guest_reg_state_to_init_state r)) = 0xFFFF"
  by (simp_all add: registers_held_def reset_guest_reg_state_to_init_state_def Let_def take_bit_eq_mod)

text \<open>The granularity check of the LDT compares with the wrong constant: a page-granular limit of 4 GB is refused.\<close>

lemma ldtr_full_limit_refused: "\<not> ldtr_accepted \<lparr>raw_selector = 0x20, seg_base = 0x1000, seg_limit = 0xFFFFFFFF, access_rights = 0x8082\<rparr>"
  by code_simp

section \<open>An example\<close>

text \<open>One virtual processor, with its control structure in frame 6.\<close>

definition example_allocator :: pf_bitmap_allocator where
  "example_allocator = small_allocator\<lparr>bitmap := [0xFA, 0]\<rparr>"

definition example_vcpu :: "vmx_virt_policy \<Rightarrow> vcpu" where
  "example_vcpu policy = zero_vcpu\<lparr>vcpu_vmx := (vcpu_vmx zero_vcpu)\<lparr>vmcs_ptr := 0x6000, active_cpu := INVALID_CPUID, launch_state := VMCS_LS_CLEAR, virt_policy := Some policy\<rparr>\<rparr>"

definition example_machine :: "vmx_virt_policy \<Rightarrow> vmx_machine" where
  "example_machine policy = idle_machine\<lparr>vcpus := (\<lambda>_. zero_vcpu)(0x5000 := example_vcpu policy), pages := \<lparr>tmem = (\<lambda>_. 0), tframes = example_allocator\<rparr>\<rparr>"

lemma example_live: "live (example_machine policy) v \<longleftrightarrow> v = 0x5000"
  by (simp add: live_def example_machine_def example_vcpu_def zero_vcpu_def)

lemma example_bindable: "c \<noteq> INVALID_CPUID \<Longrightarrow> bindable willing_processor c 0x5000 (example_machine policy)"
proof -
  assume c: "c \<noteq> INVALID_CPUID"
  let ?s = "example_machine policy"
  have ptr: "vmcs_ptr (vmx_of ?s 0x5000) = 0x6000" "active_cpu (vmx_of ?s 0x5000) = INVALID_CPUID" by (simp_all add: example_machine_def example_vcpu_def)
  have fr: "tframes (pages ?s) = example_allocator" by (simp add: example_machine_def)
  have a: "alloc_ok example_allocator" "frame_count example_allocator = 16" "frame_used (bitmap example_allocator) 6"
    by (simp_all add: alloc_ok_def example_allocator_def small_allocator_def bitmap_size_def frame_count_def frame_used_def)
  have "pfn_to_phys (of_nat 6) = 0x6000" by (simp add: pfn_to_phys_def U64_LSHIFT_def PAGE_SHIFT_def)
  then have "area_ok willing_processor example_allocator 0x6000" unfolding area_ok_def using a by (auto simp: willing_processor_def intro!: exI[of _ 6])
  then have "areas_ok willing_processor ?s" using a ptr fr by (simp add: areas_ok_def example_live)
  moreover have "binding_ok ?s d" for d by (simp add: binding_ok_def example_machine_def idle_machine_def)
  ultimately have "vmx_ok willing_processor ?s" by (simp add: vmx_ok_def) (simp add: example_machine_def idle_machine_def)
  then show ?thesis using c ptr by (simp add: bindable_def example_live willing_processor_def)
qed

theorem set_vcpu_reg_state_exact_witness:
  "\<exists>t. set_vcpu_reg_state willing_processor 1 0x5000 (reset_guest_reg_state_to_init_state (\<lambda>_. 0)) (example_machine zero_policy) = Inr (0, t)
     \<and> regions (vmcs t) 0x6000 GUEST_CS_BASE = 0xFFFF0000 \<and> segment_read (regions (vmcs t) 0x6000) X86_CS_REG = cs_seg (segments (reset_guest_reg_state_to_init_state (\<lambda>_. 0)))"
proof -
  let ?st = "reset_guest_reg_state_to_init_state (\<lambda>_. 0)"
  have b: "bindable willing_processor 1 0x5000 (example_machine zero_policy)" by (rule example_bindable) (simp add: INVALID_CPUID_def)
  have p: "virt_policy (vmx_of (example_machine zero_policy) 0x5000) = Some zero_policy" "0x6000 = vmcs_ptr (vmx_of (example_machine zero_policy) 0x5000)"
    by (simp_all add: example_machine_def example_vcpu_def)
  have w: "\<forall>enc \<in> set guest_reg_fields. vmwrite_error willing_processor enc = 0" by (simp add: willing_processor_def)
  have nr: "\<not> regs_refused zero_policy ?st" by code_simp
  have cs: "\<not> segment_refused X86_CS_REG (segment_of X86_CS_REG (segments ?st))" using nr by (simp add: regs_refused_def)
  obtain t where t: "set_vcpu_reg_state willing_processor 1 0x5000 ?st (example_machine zero_policy) = Inr (0, t)"
    "registers_held zero_policy ?st (regions (vmcs (example_machine zero_policy)) 0x6000) (regions (vmcs t) 0x6000)"
    using set_vcpu_reg_state_exact[OF b p w, where st = ?st, unfolded if_not_P[OF nr]] by blast
  have rd: "segment_read (regions (vmcs t) 0x6000) X86_CS_REG = cs_seg (segments ?st)" using t(2) cs unfolding registers_held_def by (metis segment_of.simps(1))
  have "seg_base (cs_seg (segments ?st)) = 0xFFFF0000" by code_simp
  then have "regions (vmcs t) 0x6000 GUEST_CS_BASE = 0xFFFF0000" unfolding rd[symmetric] by (simp add: segment_read_def)
  then show ?thesis using t(1) rd by blast
qed

end
