(* ===== verification/Vm_Boot.thy ===== *)
theory Vm_Boot
  imports Guest_Regs Linux_Loader
begin

text \<open>
  Preparing a VM for booting Linux (\<^verbatim>\<open>prepare_env_for_guest\<close> of \<^verbatim>\<open>arch/x64/vm/vm.c\<close>): the kernel is loaded into the memory of the VM, and the
  virtual processors receive their registers. The properties relate the cached segments in the control structure with the
  descriptor table that the loader places in the memory of the guest.
\<close>

section \<open>Operations\<close>

text \<open>The loop over the application processors.\<close>

fun prepare_aps :: "vmx_processor \<Rightarrow> msrs \<Rightarrow> cpuid \<Rightarrow> u64 list \<Rightarrow> vmx_machine \<Rightarrow> (int \<times> vmx_machine) run" where
  "prepare_aps hw read_msr c [] s = Inr (0, s)"
| "prepare_aps hw read_msr c (ap # aps) s =
     andThen (set_vcpu_reg_state hw c ap (reset_guest_reg_state_to_init_state read_msr) s) (\<lambda>(ret, s).
       if ret \<noteq> 0 then Inr (- 1, s) else prepare_aps hw read_msr c aps s)"

definition linux_boot_regs :: "msrs \<Rightarrow> linux_load_info \<Rightarrow> vcpu_guest_reg_state" where
  "linux_boot_regs read_msr load_info =
     (let st = init_guest_reg_state_for_linux_32bit read_msr in
      st\<lparr>gdtr := (gdtr st)\<lparr>tab_base := gdt_page load_info\<rparr>,
         uregs := (set_eip (ucast (pm_kernel_entry_point load_info)) (uregs st))\<lparr>rsi := zero_page load_info\<rparr>\<rparr>)"

text \<open>\<open>load_info\<close> is a local variable without an initial value.\<close>

definition prepare_env_linux_boot_32bit ::
  "vmx_processor \<Rightarrow> msrs \<Rightarrow> cpuid \<Rightarrow> u64 list \<Rightarrow> vm_physical_memory \<Rightarrow> vm_config \<Rightarrow> virt_addr \<Rightarrow> linux_load_info \<Rightarrow> vmx_machine \<Rightarrow> (int \<times> vmx_machine) run" where
  "prepare_env_linux_boot_32bit hw read_msr c vs pm config command_line load_info s =
     andThen (load_linux_32bit_direct_boot_for_vm (pages s) pm config command_line load_info) (\<lambda>(code, load_info, t).
       let s = s\<lparr>pages := t\<rparr> in
       if code \<noteq> 0 then Inr (- 1, s)
       else andThen (at vs 0) (\<lambda>bsp.
         andThen (set_vcpu_reg_state hw c bsp (linux_boot_regs read_msr load_info) s) (\<lambda>(ret, s).
           if ret \<noteq> 0 then Inr (- 1, s) else prepare_aps hw read_msr c (tl vs) s)))"

definition prepare_env_for_guest ::
  "vmx_processor \<Rightarrow> msrs \<Rightarrow> cpuid \<Rightarrow> u64 list \<Rightarrow> vm_physical_memory \<Rightarrow> vm_config \<Rightarrow> virt_addr \<Rightarrow> linux_load_info \<Rightarrow> vmx_machine \<Rightarrow> (int \<times> vmx_machine) run" where
  "prepare_env_for_guest hw read_msr c vs pm config command_line load_info s =
     (case cfg_type config of
        LINUX_DIRECT_BOOT_32BIT \<Rightarrow> prepare_env_linux_boot_32bit hw read_msr c vs pm config command_line load_info s
      | _ \<Rightarrow> Inl Die)"

section \<open>Segments as the processor loads them\<close>

text \<open>What the processor caches when it loads a selector whose descriptor is \<open>d\<close>.\<close>

definition cached_segment :: "u16 \<Rightarrow> u64 \<Rightarrow> vcpu_segment" where
  "cached_segment sel d =
     (let lim = ucast (get_bits d 0 16 OR push_bit 16 (get_bits d 48 4)) :: u32 in
      \<lparr>raw_selector = sel, seg_base = get_bits d 16 24 OR push_bit 24 (get_bits d 56 8),
       seg_limit = (if bit d 55 then push_bit 12 lim OR 0xFFF else lim), access_rights = ucast (get_bits d 40 16 AND 0xF0FF)\<rparr>)"

lemma boot_segments_cached:
  "cached_segment 0x10 0x00CF9B000000FFFF = cs_seg (segments (linux_boot_regs r li))"
  "cached_segment 0x18 0x00CF93000000FFFF = ds_seg (segments (linux_boot_regs r li))"
  "ss_seg (segments (linux_boot_regs r li)) = ds_seg (segments (linux_boot_regs r li))"
  "es_seg (segments (linux_boot_regs r li)) = ds_seg (segments (linux_boot_regs r li))"
  by (simp_all add: cached_segment_def get_bits_def linux_boot_regs_def init_guest_reg_state_for_linux_32bit_def init_segments_for_linux_32bit_def Let_def)

section \<open>Virtual processors that can be prepared\<close>

text \<open>A virtual processor of the VM: it can be made current here, and its policy lets the guest run without paging.\<close>

definition ready :: "vmx_processor \<Rightarrow> cpuid \<Rightarrow> vmx_machine \<Rightarrow> u64 \<Rightarrow> bool" where
  "ready hw c s v \<longleftrightarrow> bindable hw c v s \<and> loadable_vmcs hw s v
     \<and> (\<exists>policy. virt_policy (vmx_of s v) = Some policy \<and> vmx_policy_is_option_configured policy VMX_POLICY_UNRESTRICTED_GUEST)"

abbreviation policy_of :: "vmx_machine \<Rightarrow> u64 \<Rightarrow> vmx_virt_policy" where
  "policy_of s v \<equiv> the (virt_policy (vmx_of s v))"

lemma bindable_active: "bindable hw c v s \<Longrightarrow> active_cpu (vmx_of s v) = INVALID_CPUID \<or> active_cpu (vmx_of s v) = c"
  unfolding bindable_def using curr_vcpu_active(1) by blast

lemma ready_written:
  assumes "ready hw c s w" "bindable hw c v s"
  shows "ready hw c (written hw c v ws s) w"
proof -
  have w: "bindable hw c w s" using assms(1) by (simp add: ready_def)
  have "loadable_vmcs hw (written hw c v ws s) w" using assms(1) by (auto simp: ready_def)
  moreover have "active_cpu (vmx_of (written hw c v ws s) w) = INVALID_CPUID \<or> active_cpu (vmx_of (written hw c v ws s) w) = c"
    using bindable_active[OF w] by simp
  ultimately have "bindable hw c w (written hw c v ws s)" using w written_ok[OF assms(2)] unfolding bindable_def by simp
  then show ?thesis using assms(1) by (auto simp: ready_def)
qed

lemma ready_regs: "ready hw c (upd_vcpu v (\<lambda>x. x\<lparr>user_regs := u\<rparr>) s) w = ready hw c s w"
  unfolding ready_def regs_bindable by (simp add: upd_vcpu_def)

lemma boot_regs_accepted:
  assumes "vmx_policy_is_option_configured policy VMX_POLICY_UNRESTRICTED_GUEST"
  shows "\<not> regs_refused policy (linux_boot_regs r li)" "\<not> regs_refused policy (reset_guest_reg_state_to_init_state r)"
proof -
  have "\<not> cr0_refused policy x" for x using assms by (simp add: cr0_refused_def)
  moreover have "segments (linux_boot_regs r li) = init_segments_for_linux_32bit (segments zero_reg_state)"
    "segments (reset_guest_reg_state_to_init_state r) = reset_segments_to_init_state (segments zero_reg_state)"
    by (simp_all add: linux_boot_regs_def init_guest_reg_state_for_linux_32bit_def reset_guest_reg_state_to_init_state_def Let_def)
  moreover have "\<not> segment_refused X86_CS_REG (cs_seg (init_segments_for_linux_32bit (segments zero_reg_state)))"
    "\<not> segment_refused X86_LDTR_REG (ldtr_seg (init_segments_for_linux_32bit (segments zero_reg_state)))"
    "\<not> segment_refused X86_CS_REG (cs_seg (reset_segments_to_init_state (segments zero_reg_state)))"
    "\<not> segment_refused X86_LDTR_REG (ldtr_seg (reset_segments_to_init_state (segments zero_reg_state)))" by code_simp+
  ultimately show "\<not> regs_refused policy (linux_boot_regs r li)" "\<not> regs_refused policy (reset_guest_reg_state_to_init_state r)"
    by (simp_all add: regs_refused_def)
qed

text \<open>The state after the registers of \<open>v\<close> are set.\<close>

definition with_regs :: "vmx_processor \<Rightarrow> cpuid \<Rightarrow> u64 \<Rightarrow> vcpu_guest_reg_state \<Rightarrow> vmx_machine \<Rightarrow> vmx_machine" where
  "with_regs hw c v st s = written hw c v (reg_writes (policy_of s v) st) (upd_vcpu v (\<lambda>x. x\<lparr>user_regs := uregs st\<rparr>) s)"

lemma with_regs_run:
  assumes "ready hw c s v" "\<And>policy. vmx_policy_is_option_configured policy VMX_POLICY_UNRESTRICTED_GUEST \<Longrightarrow> \<not> regs_refused policy st"
  shows "set_vcpu_reg_state hw c v st s = Inr (0, with_regs hw c v st s)"
  using assms set_vcpu_reg_state_run[of hw c v s _ st] by (auto simp: ready_def with_regs_def)

lemma with_regs_ready: "ready hw c s v \<Longrightarrow> ready hw c s w \<Longrightarrow> ready hw c (with_regs hw c v st s) w"
  unfolding with_regs_def by (intro ready_written) (simp_all add: ready_regs regs_bindable, simp add: ready_def)

lemma with_regs_simps:
  "vmcs_ptr (vmx_of (with_regs hw c v st s) w) = vmcs_ptr (vmx_of s w)" "virt_policy (vmx_of (with_regs hw c v st s) w) = virt_policy (vmx_of s w)"
  "pages (with_regs hw c v st s) = pages s" "user_regs (vmx_machine.vcpus (with_regs hw c v st s) w) = (if w = v then uregs st else user_regs (vmx_machine.vcpus s w))"
  "q \<noteq> vmcs_ptr (vmx_of s v) \<Longrightarrow> regions (vmcs (with_regs hw c v st s)) q = regions (vmcs s) q"
  by (simp_all add: with_regs_def upd_vcpu_def) (simp add: written_def bound_def upd_vmx_def Let_def)

lemma with_regs_held:
  assumes "\<forall>enc \<in> set guest_reg_fields. vmwrite_error hw enc = 0"
  shows "registers_held (policy_of s v) st (regions (vmcs s) (vmcs_ptr (vmx_of s v))) (regions (vmcs (with_regs hw c v st s)) (vmcs_ptr (vmx_of s v)))"
  using put_registers_held[OF assms, of "policy_of s v" st] by (simp add: with_regs_def upd_vcpu_def)

lemma distinct_structures:
  assumes "vmx_ok hw s" "\<forall>x \<in> set (v # vs). ready hw c s x" "v \<notin> set vs"
  shows "vmcs_ptr (vmx_of s v) \<notin> (\<lambda>x. vmcs_ptr (vmx_of s x)) ` set vs"
proof
  assume "vmcs_ptr (vmx_of s v) \<in> (\<lambda>x. vmcs_ptr (vmx_of s x)) ` set vs"
  then obtain x where x: "x \<in> set vs" "vmcs_ptr (vmx_of s v) = vmcs_ptr (vmx_of s x)" by blast
  then show False using vmx_okD(6)[OF assms(1), of v x] assms(2,3) by (auto simp: ready_def bindable_def)
qed

text \<open>The loop: every application processor receives the reset state in a structure of its own, all other structures are unchanged.\<close>

lemma prepare_aps_run:
  assumes "\<forall>ap \<in> set aps. ready hw c s ap" "distinct aps" "\<forall>enc \<in> set guest_reg_fields. vmwrite_error hw enc = 0" "vmx_ok hw s"
  shows "\<exists>t. prepare_aps hw r c aps s = Inr (0, t) \<and> vmx_ok hw t \<and> pages t = pages s
    \<and> (\<forall>w. vmcs_ptr (vmx_of t w) = vmcs_ptr (vmx_of s w) \<and> virt_policy (vmx_of t w) = virt_policy (vmx_of s w))
    \<and> (\<forall>ap \<in> set aps. registers_held (policy_of s ap) (reset_guest_reg_state_to_init_state r)
           (regions (vmcs s) (vmcs_ptr (vmx_of s ap))) (regions (vmcs t) (vmcs_ptr (vmx_of s ap)))
         \<and> user_regs (vmx_machine.vcpus t ap) = uregs (reset_guest_reg_state_to_init_state r))
    \<and> (\<forall>w. w \<notin> set aps \<longrightarrow> user_regs (vmx_machine.vcpus t w) = user_regs (vmx_machine.vcpus s w))
    \<and> (\<forall>q. q \<notin> (\<lambda>ap. vmcs_ptr (vmx_of s ap)) ` set aps \<longrightarrow> regions (vmcs t) q = regions (vmcs s) q)"
  using assms
proof (induction aps arbitrary: s)
  case (Cons ap aps)
  let ?st = "reset_guest_reg_state_to_init_state r"
  let ?u = "with_regs hw c ap ?st s"
  have rd: "ready hw c s ap" using Cons.prems(1) by simp
  have run: "set_vcpu_reg_state hw c ap ?st s = Inr (0, ?u)" using with_regs_run[OF rd] boot_regs_accepted(2) by blast
  have ru: "\<forall>x \<in> set aps. ready hw c ?u x" using Cons.prems(1) with_regs_ready[OF rd] by simp
  have "ready hw c ?u ap" using with_regs_ready[OF rd rd] .
  then have ok: "vmx_ok hw ?u" by (simp add: ready_def bindable_def)
  obtain t where t: "prepare_aps hw r c aps ?u = Inr (0, t)" "vmx_ok hw t" "pages t = pages ?u"
    "\<And>w. vmcs_ptr (vmx_of t w) = vmcs_ptr (vmx_of ?u w) \<and> virt_policy (vmx_of t w) = virt_policy (vmx_of ?u w)"
    "\<And>x. x \<in> set aps \<Longrightarrow> registers_held (policy_of ?u x) ?st (regions (vmcs ?u) (vmcs_ptr (vmx_of ?u x))) (regions (vmcs t) (vmcs_ptr (vmx_of ?u x)))
       \<and> user_regs (vmx_machine.vcpus t x) = uregs ?st"
    "\<And>w. w \<notin> set aps \<Longrightarrow> user_regs (vmx_machine.vcpus t w) = user_regs (vmx_machine.vcpus ?u w)"
    "\<And>q. q \<notin> (\<lambda>x. vmcs_ptr (vmx_of ?u x)) ` set aps \<Longrightarrow> regions (vmcs t) q = regions (vmcs ?u) q"
    using Cons.IH[OF ru _ Cons.prems(3) ok] Cons.prems(2) by auto
  have new: "vmcs_ptr (vmx_of s ap) \<notin> (\<lambda>x. vmcs_ptr (vmx_of s x)) ` set aps"
    using distinct_structures[OF Cons.prems(4,1)] Cons.prems(2) by simp
  have "registers_held (policy_of s ap) ?st (regions (vmcs s) (vmcs_ptr (vmx_of s ap))) (regions (vmcs t) (vmcs_ptr (vmx_of s ap)))"
    using t(7)[of "vmcs_ptr (vmx_of s ap)"] new with_regs_held[OF Cons.prems(3)] by (simp add: with_regs_simps)
  moreover have "user_regs (vmx_machine.vcpus t ap) = uregs ?st" using t(6)[of ap] Cons.prems(2) by (simp add: with_regs_simps)
  moreover have "registers_held (policy_of s x) ?st (regions (vmcs s) (vmcs_ptr (vmx_of s x))) (regions (vmcs t) (vmcs_ptr (vmx_of s x)))
      \<and> user_regs (vmx_machine.vcpus t x) = uregs ?st" if "x \<in> set aps" for x
  proof -
    have "vmcs_ptr (vmx_of s x) \<noteq> vmcs_ptr (vmx_of s ap)" using new that by (metis imageI)
    then show ?thesis using t(5)[OF that] by (simp add: with_regs_simps)
  qed
  moreover have "user_regs (vmx_machine.vcpus t w) = user_regs (vmx_machine.vcpus s w)" if "w \<notin> set (ap # aps)" for w
    using t(6)[of w] that by (simp add: with_regs_simps)
  moreover have "regions (vmcs t) q = regions (vmcs s) q" if "q \<notin> (\<lambda>x. vmcs_ptr (vmx_of s x)) ` set (ap # aps)" for q
    using t(7)[of q] that by (simp add: with_regs_simps)
  ultimately show ?case using run t(1-4) by (intro exI[of _ t]) (simp add: with_regs_simps)
qed simp

text \<open>The control structures survive the loading of the kernel: they lie in used frames outside the VM.\<close>

lemma used_frame_reserved:
  assumes "frame_count a < 2 ^ 35" "f < frame_count a" "frame_used (bitmap a) f" "x \<in> range_of (frame_addr f) 4096"
  shows "reserved a x"
proof -
  have idx: "page_index x = g" if g: "g < frame_count a" "x \<in> range_of (frame_addr g) 4096" for g
  proof -
    obtain i where i: "i < 4096" "x = frame_addr g + of_nat i" using g(2) unfolding range_of_def by blast
    then have "unat x = g * 4096 + OFF + i" using unat_in_run[of g 1 i] g(1) assms(1) by simp
    then show ?thesis using i(1) by (subst page_index_unat) simp_all
  qed
  have "g = f" if "g < frame_count a" "x \<in> range_of (frame_addr g) 4096" for g using idx[OF that] idx[OF assms(2,4)] by simp
  then show ?thesis using assms(3) unfolding reserved_def by blast
qed

definition outside :: "vm_physical_memory \<Rightarrow> phys_addr \<Rightarrow> bool" where
  "outside pm p \<longleftrightarrow> range_of (phys_to_virt p) 4096 \<inter> vm_bytes pm = {}"

lemma ready_after_load:
  assumes rd: "ready hw c s v" and con: "contained (pages s) pm t" and out: "outside pm (vmcs_ptr (vmx_of s v))"
  shows "ready hw c (s\<lparr>pages := t\<rparr>) v"
proof -
  have ok: "vmx_ok hw s" and l: "live s v" using rd by (simp_all add: ready_def bindable_def)
  have sf: "same_frames (pages s) t" using con by (simp add: contained_def)
  have ok': "vmx_ok hw (s\<lparr>pages := t\<rparr>)" using sf by (intro vmx_ok_more_frames[OF ok]) (auto simp: same_frames_def)
  obtain f where f: "f < frame_count (tframes (pages s))" "vmcs_ptr (vmx_of s v) = pfn_to_phys (of_nat f)" "frame_used (bitmap (tframes (pages s))) f"
    using vmx_okD(5)[OF ok l] by (auto simp: area_ok_def)
  have "tmem t x = tmem (pages s) x" if "x \<in> range_of (frame_addr f) 4" for x
  proof -
    have x: "x \<in> range_of (frame_addr f) 4096" using that unfolding range_of_def by force
    then have "reserved (tframes (pages s)) x" "x \<notin> vm_bytes pm"
      using used_frame_reserved[OF vmx_okD(3)[OF ok] f(1,3)] out f(2) by (auto simp: outside_def)
    then show ?thesis using con by (simp add: contained_def)
  qed
  then have "load32 (tmem t) (frame_addr f) = load32 (tmem (pages s)) (frame_addr f)" unfolding load32_def using load_bytes_cong by metis
  then have ld: "loadable_vmcs hw (s\<lparr>pages := t\<rparr>) v" using rd f(2) by (simp add: ready_def)
  have "bindable hw c v (s\<lparr>pages := t\<rparr>)" using rd ok' ld bindable_active[of hw c v s] unfolding ready_def bindable_def live_def by auto
  then show ?thesis using rd ld by (simp add: ready_def)
qed

section \<open>Properties\<close>

lemma boot_regs_held:
  assumes u: "vmx_policy_is_option_configured policy VMX_POLICY_UNRESTRICTED_GUEST" and i: "registers_held policy (linux_boot_regs r li) old fs"
  shows "segment_read fs X86_CS_REG = cached_segment 0x10 0x00CF9B000000FFFF"
    "reg \<in> {X86_DS_REG, X86_ES_REG, X86_SS_REG} \<Longrightarrow> segment_read fs reg = cached_segment 0x18 0x00CF93000000FFFF"
    "fs GUEST_GDTR_BASE = gdt_page li" "fs GUEST_GDTR_LIMIT = 0xFF" "bit (fs GUEST_CR0) cr0_pe" "\<not> bit (fs GUEST_CR0) cr0_pg"
proof -
  let ?st = "linux_boot_regs r li"
  have seg: "segment_read fs reg = segment_of reg (segments ?st)" if "\<not> segment_refused reg (segment_of reg (segments ?st))" for reg
    using i that unfolding registers_held_def by meson
  have nr: "\<not> segment_refused reg sg" if "reg \<noteq> X86_CS_REG" "reg \<noteq> X86_LDTR_REG" for reg sg using that by (simp add: segment_refused_def)
  have cs: "\<not> segment_refused X86_CS_REG (cs_seg (segments ?st))" using boot_regs_accepted(1)[OF u] by (simp add: regs_refused_def)
  show "segment_read fs X86_CS_REG = cached_segment 0x10 0x00CF9B000000FFFF"
    unfolding boot_segments_cached(1)[of r li] using seg[of X86_CS_REG] cs by simp
  show "segment_read fs reg = cached_segment 0x18 0x00CF93000000FFFF" if "reg \<in> {X86_DS_REG, X86_ES_REG, X86_SS_REG}" for reg
    unfolding boot_segments_cached(2)[of r li] using that seg[of reg] by (auto simp: nr boot_segments_cached(3,4))
  show "fs GUEST_GDTR_BASE = gdt_page li" "fs GUEST_GDTR_LIMIT = 0xFF"
    using i by (simp_all add: registers_held_def linux_boot_regs_def init_guest_reg_state_for_linux_32bit_def zero_reg_state_def Let_def take_bit_eq_mod)
  have "fs GUEST_CR0 = g_cr0 ?st" using i u by (simp add: registers_held_def cr0_refused_def)
  then show "bit (fs GUEST_CR0) cr0_pe" "\<not> bit (fs GUEST_CR0) cr0_pg"
    by (simp_all add: linux_boot_regs_def init_guest_reg_state_for_linux_32bit_def Let_def bit_set_bit_iff bit_unset_bit_iff cr0_pe_def cr0_pg_def)
qed

text \<open>
  What an application processor holds after its reset registers are set: the reset values of the control and segment registers and the bases of
  the tables, but limits of the tables of 0xFFF, and the debug register that it had before.
\<close>

definition reset_registers_held :: "msrs \<Rightarrow> fields \<Rightarrow> fields \<Rightarrow> bool" where
  "reset_registers_held r old fs \<longleftrightarrow> (let st = reset_guest_reg_state_to_init_state r in
     fs GUEST_CR0 = g_cr0 st \<and> fs GUEST_CR3 = 0 \<and> fs GUEST_CR4 = g_cr4 st \<and> fs GUEST_IA32_EFER = 0
     \<and> (\<forall>reg. segment_read fs reg = segment_of reg (segments st))
     \<and> fs GUEST_GDTR_BASE = 0 \<and> fs GUEST_GDTR_LIMIT = 0xFFF \<and> fs GUEST_IDTR_BASE = 0 \<and> fs GUEST_IDTR_LIMIT = 0xFFF
     \<and> fs GUEST_DR7 = old GUEST_DR7 \<and> (\<forall>enc. enc \<notin> set guest_reg_fields \<longrightarrow> fs enc = old enc))"

lemma reset_regs_held:
  assumes u: "vmx_policy_is_option_configured policy VMX_POLICY_UNRESTRICTED_GUEST"
    and i: "registers_held policy (reset_guest_reg_state_to_init_state r) old fs"
  shows "reset_registers_held r old fs"
proof -
  let ?st = "reset_guest_reg_state_to_init_state r"
  have nr: "\<not> segment_refused reg (segment_of reg (segments ?st))" for reg
    using boot_regs_accepted(2)[OF u, of r] by (cases reg) (simp_all add: regs_refused_def, simp_all add: segment_refused_def)
  have "g_cr3 ?st = 0" "g_efer ?st = 0" "gdtr ?st = \<lparr>tab_base = 0, tab_limit = 0xFFFF\<rparr>" "idtr ?st = \<lparr>tab_base = 0, tab_limit = 0xFFFF\<rparr>"
    by (simp_all add: reset_guest_reg_state_to_init_state_def zero_reg_state_def Let_def)
  then show ?thesis using i u nr by (simp add: reset_registers_held_def registers_held_def cr0_refused_def take_bit_eq_mod Let_def)
qed

lemma reset_user_regs:
  "rip (uregs (reset_guest_reg_state_to_init_state r)) = 0xFFF0" "rflags (uregs (reset_guest_reg_state_to_init_state r)) = 2"
  by (simp_all add: reset_guest_reg_state_to_init_state_def zero_reg_state_def zero_regs_def set_eip_def set_eflags_def put_bits_def Let_def)

lemma boot_user_regs:
  "rip (uregs (linux_boot_regs r li)) = take_bit 32 (pm_kernel_entry_point li)" "rsi (uregs (linux_boot_regs r li)) = zero_page li"
proof -
  have "(ucast (ucast (x :: u64) :: u32) :: u64) = take_bit 32 x" for x by (rule bit_word_eqI) (auto simp: bit_ucast_iff bit_take_bit_iff)
  then show "rip (uregs (linux_boot_regs r li)) = take_bit 32 (pm_kernel_entry_point li)" "rsi (uregs (linux_boot_regs r li)) = zero_page li"
    by (simp_all add: linux_boot_regs_def init_guest_reg_state_for_linux_32bit_def zero_reg_state_def zero_regs_def set_eip_def set_eflags_def put_bits_def Let_def)
qed

text \<open>
  C6. Preparing a VM for Linux succeeds under these conditions: the kernel and the other files are well-formed sources outside the memory of the VM and
  the loader accepts them (\<open>loadable\<close>), the kernel is loaded at 0x31000 or above and ends below the initial ramdisk, the command line is shorter than
  64 KB, the virtual processors are distinct, can be made current on the executing processor, have a policy with unrestricted guest and their
  structures are outside the memory of the VM, and the processor accepts the writes. Then the guest image is in the memory of the VM, and the control
  structure of the bootstrap processor holds the segments that the processor would load from the descriptor table in that memory, protected mode
  without paging, and the entry point and the boot parameters in its registers. Every application processor holds its reset registers, with two
  exceptions of the code: the limits of its descriptor tables are 0xFFF, and DR7 is what it was; its user registers are those of
  the reset state, RIP 0xFFF0. No other control structure is changed.
\<close>

theorem linux_boot_prepared:
  assumes "load_env (pages s) pm" "sources_ok (pages s) pm config cl text" "loadable (pages s) pm config text"
    and "check_image (tmem (pages s)) (lb_bzImage (boot_linux config)) = Some (off, n, g, e)"
    and "ir = initramfs_address (read_setup_header (tmem (pages s)) (fi_addr (lb_bzImage (boot_linux config)) + SETUP_HEADER_OFFSET)) e"
    and "0x31000 \<le> unat g" "unat g + unat n \<le> unat ir" "length text < 0x10000"
    and "\<forall>v \<in> set (v0 # aps). ready hw c s v \<and> outside pm (vmcs_ptr (vmx_of s v))" "distinct (v0 # aps)"
    and "\<forall>enc \<in> set guest_reg_fields. vmwrite_error hw enc = 0"
  shows "\<exists>t fs. prepare_env_linux_boot_32bit hw r c (v0 # aps) pm config cl li s = Inr (0, t) \<and> vmx_ok hw t
    \<and> guest_image (pages s) pm config cl text off n g ir (tmem (pages t))
    \<and> fs = regions (vmcs t) (vmcs_ptr (vmx_of s v0)) \<and> fs GUEST_GDTR_BASE = 0x10000 \<and> fs GUEST_GDTR_LIMIT = 0xFF
    \<and> segment_read fs X86_CS_REG = cached_segment 0x10 (load64 (tmem (pages t)) (gv pm 0x10000 + 0x10))
    \<and> (\<forall>reg \<in> {X86_DS_REG, X86_ES_REG, X86_SS_REG}. segment_read fs reg = cached_segment 0x18 (load64 (tmem (pages t)) (gv pm 0x10000 + 0x18)))
    \<and> bit (fs GUEST_CR0) cr0_pe \<and> \<not> bit (fs GUEST_CR0) cr0_pg
    \<and> rip (user_regs (vmx_machine.vcpus t v0)) = take_bit 32 g \<and> rsi (user_regs (vmx_machine.vcpus t v0)) = 0x30000
    \<and> (\<forall>ap \<in> set aps. reset_registers_held r (regions (vmcs s) (vmcs_ptr (vmx_of s ap))) (regions (vmcs t) (vmcs_ptr (vmx_of s ap)))
         \<and> user_regs (vmx_machine.vcpus t ap) = uregs (reset_guest_reg_state_to_init_state r) \<and> rip (user_regs (vmx_machine.vcpus t ap)) = 0xFFF0)
    \<and> (\<forall>q. q \<notin> (\<lambda>v. vmcs_ptr (vmx_of s v)) ` set (v0 # aps) \<longrightarrow> regions (vmcs t) q = regions (vmcs s) q)"
  using assms(1,2)
proof (cases rule: load_linux_cases[where li = li])
  case (failed code t0)
  then show ?thesis using assms(3) by simp
next
  case (loaded off' n' g' e' ir' t3 t4 t0 p q)
  then have eq: "off' = off" "n' = n" "g' = g" "e' = e" "ir' = ir" using assms(4,5) by simp_all
  note img = load_run_image[OF assms(1,2) loaded(5)[unfolded eq] assms(4,6-8)]
  have con: "contained (pages s) pm t0" using loaded(5) by (simp add: load_run_def Let_def)
  define li' where "li' = \<lparr>pm_kernel = g, pm_kernel_size = n, pm_kernel_entry_point = g, gdt_page = 0x10000, zero_page = 0x30000, command_line_string = 0x20000\<rparr>"
  let ?s = "s\<lparr>pages := t0\<rparr>" and ?st = "linux_boot_regs r li'"
  let ?u = "with_regs hw c v0 ?st ?s"
  have rd: "ready hw c ?s v" if "v \<in> set (v0 # aps)" for v using ready_after_load[OF _ con] assms(9) that by blast
  have run: "set_vcpu_reg_state hw c v0 ?st ?s = Inr (0, ?u)" using with_regs_run[OF rd] boot_regs_accepted(1) by simp
  have ru: "ready hw c ?u v" if "v \<in> set (v0 # aps)" for v using with_regs_ready[OF rd rd[OF that]] by simp
  have ok: "vmx_ok hw ?u" "vmx_ok hw ?s" using ru[of v0] rd[of v0] by (simp_all add: ready_def bindable_def)
  obtain t where t: "prepare_aps hw r c aps ?u = Inr (0, t)" "vmx_ok hw t" "pages t = t0"
    "\<And>ap. ap \<in> set aps \<Longrightarrow> registers_held (policy_of s ap) (reset_guest_reg_state_to_init_state r)
       (regions (vmcs ?u) (vmcs_ptr (vmx_of s ap))) (regions (vmcs t) (vmcs_ptr (vmx_of s ap)))
       \<and> user_regs (vmx_machine.vcpus t ap) = uregs (reset_guest_reg_state_to_init_state r)"
    "\<And>w. w \<notin> set aps \<Longrightarrow> user_regs (vmx_machine.vcpus t w) = user_regs (vmx_machine.vcpus ?u w)"
    "\<And>q. q \<notin> (\<lambda>ap. vmcs_ptr (vmx_of s ap)) ` set aps \<Longrightarrow> regions (vmcs t) q = regions (vmcs ?u) q"
    using prepare_aps_run[of aps hw c ?u r] ru assms(10,11) ok(1) by (auto simp: with_regs_simps)
  have new: "vmcs_ptr (vmx_of s v0) \<notin> (\<lambda>ap. vmcs_ptr (vmx_of s ap)) ` set aps"
    using distinct_structures[OF ok(2), of v0 aps c] rd assms(10) by simp
  have inst: "registers_held (policy_of s v0) ?st (regions (vmcs s) (vmcs_ptr (vmx_of s v0))) (regions (vmcs t) (vmcs_ptr (vmx_of s v0)))"
    using t(6)[OF new] with_regs_held[OF assms(11), of ?s v0 ?st c] by simp
  have un: "vmx_policy_is_option_configured (policy_of s v) VMX_POLICY_UNRESTRICTED_GUEST" if "v \<in> set (v0 # aps)" for v
    using assms(9) that by (auto simp: ready_def)
  have aps: "reset_registers_held r (regions (vmcs s) (vmcs_ptr (vmx_of s ap))) (regions (vmcs t) (vmcs_ptr (vmx_of s ap)))
      \<and> user_regs (vmx_machine.vcpus t ap) = uregs (reset_guest_reg_state_to_init_state r) \<and> rip (user_regs (vmx_machine.vcpus t ap)) = 0xFFF0"
    if "ap \<in> set aps" for ap
  proof -
    have "vmcs_ptr (vmx_of s ap) \<noteq> vmcs_ptr (vmx_of s v0)" using new that by (metis imageI)
    then show ?thesis using t(4)[OF that] un[of ap] that reset_regs_held reset_user_regs(1) by (simp add: with_regs_simps)
  qed
  note fs = boot_regs_held[OF un[of v0, OF list.set_intros(1)] inst]
  have gdt: "load64 (tmem t0) (gv pm 0x10000 + 0x10) = 0x00CF9B000000FFFF" "load64 (tmem t0) (gv pm 0x10000 + 0x18) = 0x00CF93000000FFFF"
    using img by (simp_all add: guest_image_def Let_def)
  have go: "prepare_env_linux_boot_32bit hw r c (v0 # aps) pm config cl li s = Inr (0, t)"
    using loaded(1) run t(1) by (simp add: prepare_env_linux_boot_32bit_def li'_def eq Let_def)
  have ur: "rip (user_regs (vmx_machine.vcpus t v0)) = take_bit 32 g" "rsi (user_regs (vmx_machine.vcpus t v0)) = 0x30000"
    using t(5)[of v0] assms(10) boot_user_regs[of r li'] by (simp_all add: with_regs_simps li'_def)
  have oth: "regions (vmcs t) q = regions (vmcs s) q" if "q \<notin> (\<lambda>v. vmcs_ptr (vmx_of s v)) ` set (v0 # aps)" for q
    using t(6)[of q] with_regs_simps(5)[of q ?s v0 hw c ?st] that by simp
  show ?thesis using go t(2,3) aps img fs gdt ur oth
    by (intro exI[of _ t] exI[of _ "regions (vmcs t) (vmcs_ptr (vmx_of s v0))"]) (simp add: li'_def reset_user_regs)
qed

section \<open>An example\<close>

text \<open>The policy of every virtual processor lets the guest run without paging.\<close>

lemma base_policy_unrestricted: "vmx_policy_is_option_configured (configure_base_virt_policy r) VMX_POLICY_UNRESTRICTED_GUEST"
  by (simp add: configure_base_virt_policy_def Let_def bit_set_fields activate_secondary_controls_def unrestricted_guest_def)

definition boot_pages :: table_state where
  "boot_pages = \<lparr>tmem = tmem example_load, tframes = example_allocator\<rparr>"

definition boot_machine :: vmx_machine where
  "boot_machine = (example_machine (configure_base_virt_policy (\<lambda>_. 0)))\<lparr>pages := boot_pages\<rparr>"

lemma boot_pages_frames: "frame_count (tframes boot_pages) = 16" "alloc_ok (tframes boot_pages)"
  by (simp_all add: boot_pages_def example_allocator_def small_allocator_def frame_count_def bitmap_size_def alloc_ok_def)

lemma boot_env: "load_env boot_pages example_vm" "sources_ok boot_pages example_vm example_config 0x600000 ''ro''"
proof -
  show "load_env boot_pages example_vm"
    using boot_pages_frames vm_above_frames[of "tframes boot_pages" example_vm] by (simp add: load_env_def example_vm_def)
  have l: "source_area boot_pages example_vm a n" if "unat a + n \<le> 2 ^ 47" for a n
    using that boot_pages_frames by (intro low_source_area) (simp_all add: example_vm_def)
  show "sources_ok boot_pages example_vm example_config 0x600000 ''ro''" by (simp add: sources_ok_def example_config_def l nul_free_def)
qed

lemma boot_check: "check_image (tmem boot_pages) (lb_bzImage (boot_linux example_config)) = Some (1024, 16, 0x100000, 0x1000)"
  "0x102000 = initramfs_address (read_setup_header (tmem boot_pages) (fi_addr (lb_bzImage (boot_linux example_config)) + SETUP_HEADER_OFFSET)) 0x1000"
  using example_check example_initramfs by (simp_all add: boot_pages_def)

lemma boot_loadable: "loadable boot_pages example_vm example_config ''ro''"
proof -
  have "\<not> frame_used (bitmap (tframes boot_pages)) 5" by (simp add: boot_pages_def example_allocator_def frame_used_def)
  then have "page_available (tframes boot_pages)" using boot_pages_frames(1)
    by (auto simp: page_available_def boot_pages_def example_allocator_def small_allocator_def free_frames_def intro!: exI[of _ 5])
  then show ?thesis using example_loadable by (auto simp: loadable_def Let_def boot_pages_def split: option.splits)
qed

lemma boot_ready: "ready willing_processor 0 boot_machine 0x5000" "outside example_vm (vmcs_ptr (vmx_of boot_machine 0x5000))"
proof -
  let ?p = "configure_base_virt_policy (\<lambda>_. 0)"
  have b: "bindable willing_processor 0 0x5000 (example_machine ?p)" by (rule example_bindable) (simp add: INVALID_CPUID_def)
  have "vmx_ok willing_processor boot_machine" unfolding boot_machine_def using b boot_pages_frames
    by (intro vmx_ok_more_frames) (simp_all add: bindable_def, simp_all add: example_machine_def boot_pages_def)
  moreover have "live boot_machine 0x5000" "active_cpu (vmx_of boot_machine 0x5000) = INVALID_CPUID" and ptr: "vmcs_ptr (vmx_of boot_machine 0x5000) = 0x6000"
    by (simp_all add: boot_machine_def live_def example_machine_def example_vcpu_def)
  moreover have ld: "loadable_vmcs willing_processor boot_machine 0x5000" by (simp add: willing_processor_def)
  ultimately have bd: "bindable willing_processor 0 0x5000 boot_machine" by (simp add: bindable_def INVALID_CPUID_def)
  have "virt_policy (vmx_of boot_machine 0x5000) = Some ?p" by (simp add: boot_machine_def example_machine_def example_vcpu_def)
  then show "ready willing_processor 0 boot_machine 0x5000" using bd ld base_policy_unrestricted[of "\<lambda>_. 0"] unfolding ready_def by blast
  have "x \<notin> vm_bytes example_vm" if x: "x \<in> range_of (phys_to_virt 0x6000) 4096" for x
  proof -
    obtain i where i: "i < 4096" "x = phys_to_virt 0x6000 + of_nat i" using x unfolding range_of_def by blast
    then have "virt_to_phys x = 0x6000 + of_nat i" by (simp add: virt_to_phys_def virt_to_phys_off_def phys_to_virt_def phys_to_virt_off_def)
    moreover have "unat (0x6000 + of_nat i :: u64) = 0x6000 + i" using i(1) by (subst unat_add_small) (simp_all add: unat_of_nat_small)
    ultimately show ?thesis using i(1) by (simp add: vm_bytes_def example_vm_def word_le_nat_alt)
  qed
  then show "outside example_vm (vmcs_ptr (vmx_of boot_machine 0x5000))" by (auto simp: outside_def ptr)
qed

theorem linux_boot_prepared_witness:
  "\<exists>t fs. prepare_env_linux_boot_32bit willing_processor (\<lambda>_. 0) 0 [0x5000] example_vm example_config 0x600000 no_load_info boot_machine = Inr (0, t)
     \<and> fs = regions (vmcs t) 0x6000 \<and> fs GUEST_GDTR_BASE = 0x10000
     \<and> segment_read fs X86_CS_REG = cached_segment 0x10 (load64 (tmem (pages t)) (gv example_vm 0x10000 + 0x10))"
proof -
  have pg: "pages boot_machine = boot_pages" by (simp add: boot_machine_def)
  have ptr: "vmcs_ptr (vmx_of boot_machine 0x5000) = 0x6000" by (simp add: boot_machine_def example_machine_def example_vcpu_def)
  have w: "\<forall>enc \<in> set guest_reg_fields. vmwrite_error willing_processor enc = 0" by (simp add: willing_processor_def)
  show ?thesis
    using linux_boot_prepared[of boot_machine example_vm example_config "0x600000" "''ro''" 1024 16 "0x100000" "0x1000" "0x102000" "0x5000" "[]"
        willing_processor 0 "\<lambda>_. 0" no_load_info] boot_env boot_loadable boot_check boot_ready w pg ptr by auto
qed

end
