(* ===== verification/Msr_Bitmap.thy ===== *)
theory Msr_Bitmap
  imports Byte_Mem
begin

text \<open>
  The bitmap that selects which model specific registers a guest may access without an exit (\<^verbatim>\<open>arch/x64/vmx/vmx.c\<close>, constants of
  \<^verbatim>\<open>vmcs.h\<close>), and its configuration for the local APIC (\<^verbatim>\<open>arch/x64/vm/vlapic.c\<close>). The specification is how the processor reads the
  bitmap.
\<close>

section \<open>Operations\<close>

definition VMCS_MSR_LOW_START :: u64 where "VMCS_MSR_LOW_START = 0"
definition VMCS_MSR_LOW_END :: u64 where "VMCS_MSR_LOW_END = 0x00001FFF"
definition VMCS_MSR_HIGH_START :: u64 where "VMCS_MSR_HIGH_START = 0xC0000000"
definition VMCS_MSR_HIGH_END :: u64 where "VMCS_MSR_HIGH_END = 0xC0001FFF"

definition is_low_vmcs_msr :: "u64 \<Rightarrow> bool" where
  "is_low_vmcs_msr x \<longleftrightarrow> x \<ge> VMCS_MSR_LOW_START \<and> x \<le> VMCS_MSR_LOW_END"

definition is_high_vmcs_msr :: "u64 \<Rightarrow> bool" where
  "is_high_vmcs_msr x \<longleftrightarrow> x \<ge> VMCS_MSR_HIGH_START \<and> x \<le> VMCS_MSR_HIGH_END"

definition VMCS_HIGH_READ_MSR_OFFSET :: u64 where "VMCS_HIGH_READ_MSR_OFFSET = 1024"
definition VMCS_LOW_WRITE_MSR_OFFSET :: u64 where "VMCS_LOW_WRITE_MSR_OFFSET = 2048"
definition VMCS_HIGH_WRITE_MSR_OFFSET :: u64 where "VMCS_HIGH_WRITE_MSR_OFFSET = 3072"

definition modify_msr_bitmap_bit :: "virt_addr \<Rightarrow> u64 \<Rightarrow> bool \<Rightarrow> mem \<Rightarrow> mem" where
  "modify_msr_bitmap_bit bitmap sanitized_msr set_it m =
     (let byte_pos = ucast (sanitized_msr div 8) :: u32;
          bit_pos = ucast (sanitized_msr mod 8) :: u32;
          a = bitmap + ucast byte_pos
      in if set_it then m(a := m a OR U8_LSHIFT 1 (unat bit_pos)) else m(a := m a AND NOT (U8_LSHIFT 1 (unat bit_pos))))"

definition vmx_set_intercept_reg_rdmsr :: "phys_addr \<Rightarrow> u64 \<Rightarrow> bool \<Rightarrow> mem \<Rightarrow> mem run" where
  "vmx_set_intercept_reg_rdmsr msr_bitmap_addr msr intercept m =
     (let bitmap_base = phys_to_virt msr_bitmap_addr in
      if is_low_vmcs_msr msr then Inr (modify_msr_bitmap_bit bitmap_base msr intercept m)
      else if is_high_vmcs_msr msr then
        Inr (modify_msr_bitmap_bit (bitmap_base + VMCS_HIGH_READ_MSR_OFFSET) (msr - VMCS_MSR_HIGH_START) intercept m)
      else Inl Die)"

definition vmx_set_intercept_reg_wrmsr :: "phys_addr \<Rightarrow> u64 \<Rightarrow> bool \<Rightarrow> mem \<Rightarrow> mem run" where
  "vmx_set_intercept_reg_wrmsr msr_bitmap_addr msr intercept m =
     (let bitmap_base = phys_to_virt msr_bitmap_addr in
      if is_low_vmcs_msr msr then Inr (modify_msr_bitmap_bit (bitmap_base + VMCS_LOW_WRITE_MSR_OFFSET) msr intercept m)
      else if is_high_vmcs_msr msr then
        Inr (modify_msr_bitmap_bit (bitmap_base + VMCS_HIGH_WRITE_MSR_OFFSET) (msr - VMCS_MSR_HIGH_START) intercept m)
      else Inl Die)"

definition vmx_set_intercept_msr :: "phys_addr \<Rightarrow> u64 \<Rightarrow> bool \<Rightarrow> mem \<Rightarrow> mem run" where
  "vmx_set_intercept_msr msr_bitmap_addr msr intercept m =
     andThen (vmx_set_intercept_reg_rdmsr msr_bitmap_addr msr intercept m) (\<lambda>m. vmx_set_intercept_reg_wrmsr msr_bitmap_addr msr intercept m)"

definition MSRX64_IA32_APIC_BASE :: u64 where "MSRX64_IA32_APIC_BASE = 0x1B"
definition MSR_APIC_TSC_DEADLINE :: u64 where "MSR_APIC_TSC_DEADLINE = 0x6E0"

definition configure_vlapic_msr_intercepts :: "phys_addr \<Rightarrow> mem \<Rightarrow> mem run" where
  "configure_vlapic_msr_intercepts msr_bitmap_addr m =
     andThen (vmx_set_intercept_msr msr_bitmap_addr MSRX64_IA32_APIC_BASE True m) (\<lambda>m. vmx_set_intercept_msr msr_bitmap_addr MSR_APIC_TSC_DEADLINE True m)"

section \<open>The bitmap as the processor reads it\<close>

definition bitmap_bit :: "mem \<Rightarrow> virt_addr \<Rightarrow> nat \<Rightarrow> bool" where
  "bitmap_bit m base i \<longleftrightarrow> bit (m (base + of_nat (i div 8))) (i mod 8)"

text \<open>The position of a register among the 32768 bits; a register without one always exits.\<close>

definition msr_position :: "bool \<Rightarrow> u64 \<Rightarrow> nat option" where
  "msr_position wr msr =
     (if msr \<le> 0x1FFF then Some ((if wr then 16384 else 0) + unat msr)
      else if 0xC0000000 \<le> msr \<and> msr \<le> 0xC0001FFF then Some ((if wr then 24576 else 8192) + unat (msr - 0xC0000000))
      else None)"

definition msr_exits :: "mem \<Rightarrow> phys_addr \<Rightarrow> bool \<Rightarrow> u64 \<Rightarrow> bool" where
  "msr_exits m bitmap_addr wr msr = (case msr_position wr msr of None \<Rightarrow> True | Some i \<Rightarrow> bitmap_bit m (phys_to_virt bitmap_addr) i)"

lemma ucast_u32_small: "unat (y :: u64) < 2 ^ 32 \<Longrightarrow> ucast (ucast y :: u32) = y"
  by (simp add: word_unat_eq_iff unsigned_ucast_eq unsigned_take_bit_eq take_bit_nat_eq_self)

lemma modify_at:
  assumes "unat x < 8192" "base = b + of_nat (k * 1024)" "k < 4" "j < 32768"
  shows "bitmap_bit (modify_msr_bitmap_bit base x v m) b j = (if j = k * 8192 + unat x then v else bitmap_bit m b j)"
proof -
  let ?i = "k * 8192 + unat x"
  have d: "?i div 8 = k * 1024 + unat x div 8" "?i mod 8 = unat x mod 8" by (simp_all add: mod_add_eq[symmetric])
  have q: "ucast (ucast (x div 8) :: u32) = x div 8" using assms(1) by (intro ucast_u32_small) (simp add: unat_div)
  have r: "unat (ucast (x mod 8) :: u32) = unat x mod 8" by (simp add: unsigned_ucast_eq unat_mod take_bit_nat_eq_self)
  have a: "base + ucast (ucast (x div 8) :: u32) = b + of_nat (?i div 8)"
  proof -
    have "of_nat (unat x div 8) = x div 8" by (rule word_unat_eq_iff[THEN iffD2]) (use assms(1) in \<open>simp add: unat_of_nat_small unat_div\<close>)
    then show ?thesis unfolding q d assms(2) by (simp add: add.assoc)
  qed
  have same: "b + of_nat (j div 8) = b + of_nat (?i div 8) \<longleftrightarrow> j div 8 = ?i div 8"
    using word_of_nat_inj[of "j div 8" "?i div 8", where 'a = 64] assms(1,3,4) by simp
  have eq: "j = ?i \<longleftrightarrow> j div 8 = ?i div 8 \<and> j mod 8 = ?i mod 8" by (metis div_mult_mod_eq)
  have b1: "bit (U8_LSHIFT 1 n) e \<longleftrightarrow> n = e" if "n < 8" "e < 8" for n e using that by (auto simp: U8_LSHIFT_def bit_exp_iff)
  define A where "A = b + of_nat (?i div 8)"
  define w where "w = (if v then m A OR U8_LSHIFT 1 (?i mod 8) else m A AND NOT (U8_LSHIFT 1 (?i mod 8)))"
  have m': "modify_msr_bitmap_bit base x v m = m(A := w)"
    unfolding modify_msr_bitmap_bit_def Let_def a r A_def[symmetric] w_def d(2) by simp
  have w: "bit w e = (if e = ?i mod 8 then v else bit (m A) e)" if "e < 8" for e
    using that b1[of "?i mod 8" e] b1[of "?i mod 8" "?i mod 8"] by (auto simp: w_def bit_or_iff bit_and_iff bit_not_iff)
  have A: "b + of_nat (j div 8) = A \<longleftrightarrow> j div 8 = ?i div 8" unfolding A_def by (rule same)
  show ?thesis
  proof (cases "j div 8 = ?i div 8")
    case True
    then have "b + of_nat (j div 8) = A" using A by blast
    then show ?thesis using w[of "j mod 8"] eq True unfolding bitmap_bit_def m' by simp
  next
    case False
    then have "b + of_nat (j div 8) \<noteq> A" "j \<noteq> ?i" using A by auto
    then show ?thesis unfolding bitmap_bit_def m' by simp
  qed
qed

lemma msr_position_less: "msr_position wr msr = Some i \<Longrightarrow> i < 32768"
  unfolding msr_position_def by (auto simp: word_le_nat_alt unat_sub_small split: if_splits)

lemma msr_position_inj:
  assumes "msr_position wr x = Some i" "msr_position wr' y = Some i"
  shows "wr = wr' \<and> x = y"
  using assms unfolding msr_position_def
  by (auto simp: word_le_nat_alt unat_sub_small word_unat_eq_iff split: if_splits)

text \<open>A modification of the position of one access to one register.\<close>

definition modified :: "phys_addr \<Rightarrow> bool \<Rightarrow> u64 \<Rightarrow> bool \<Rightarrow> mem \<Rightarrow> mem \<Rightarrow> bool" where
  "modified bm wr msr v m m' \<longleftrightarrow> (\<forall>w x. msr_exits m' bm w x = (if w = wr \<and> x = msr then v else msr_exits m bm w x))
     \<and> (\<forall>a. a \<notin> range_of (phys_to_virt bm) 4096 \<longrightarrow> m' a = m a)"

lemma modify_modified:
  assumes "msr_position wr msr = Some (k * 8192 + unat x)" "unat x < 8192" "k < 4"
  shows "modified bm wr msr v m (modify_msr_bitmap_bit (phys_to_virt bm + of_nat (k * 1024)) x v m)"
proof -
  let ?m = "modify_msr_bitmap_bit (phys_to_virt bm + of_nat (k * 1024)) x v m"
  have "msr_exits ?m bm w y = (if w = wr \<and> y = msr then v else msr_exits m bm w y)" for w y
  proof (cases "msr_position w y")
    case None
    then show ?thesis using assms(1) by (auto simp: msr_exits_def)
  next
    case (Some j)
    have "j = k * 8192 + unat x \<longleftrightarrow> w = wr \<and> y = msr"
    proof
      assume "j = k * 8192 + unat x"
      then show "w = wr \<and> y = msr" using msr_position_inj[OF assms(1), of w y] Some by simp
    next
      assume "w = wr \<and> y = msr"
      then show "j = k * 8192 + unat x" using Some assms(1) by simp
    qed
    then show ?thesis using Some modify_at[OF assms(2) refl assms(3) msr_position_less[OF Some]] assms(1) by (simp add: msr_exits_def)
  qed
  moreover have "?m a = m a" if out: "a \<notin> range_of (phys_to_virt bm) 4096" for a
  proof -
    have "unat (x div 8) < 1024" using assms(2) by (simp add: unat_div less_mult_imp_div_less)
    then have q: "ucast (ucast (x div 8) :: u32) = x div 8" by (intro ucast_u32_small) simp
    have "k * 1024 + unat (x div 8) < 4096" using \<open>unat (x div 8) < 1024\<close> assms(3) by simp
    then have "phys_to_virt bm + of_nat (k * 1024) + x div 8 \<in> range_of (phys_to_virt bm) 4096"
      unfolding range_of_def by (auto intro!: exI[of _ "k * 1024 + unat (x div 8)"])
    then show ?thesis using out by (auto simp: modify_msr_bitmap_bit_def Let_def q)
  qed
  ultimately show ?thesis by (simp add: modified_def)
qed

lemma set_intercept_one:
  assumes "msr_position wr msr \<noteq> None"
  shows "\<exists>m'. (if wr then vmx_set_intercept_reg_wrmsr bm msr v m else vmx_set_intercept_reg_rdmsr bm msr v m) = Inr m' \<and> modified bm wr msr v m m'"
proof (cases "msr \<le> 0x1FFF")
  case True
  have u: "unat msr < 8192" using True by (simp add: word_le_nat_alt)
  then show ?thesis
    using True modify_modified[of wr msr "if wr then 2 else 0" msr bm v m]
    by (cases wr) (simp_all add: vmx_set_intercept_reg_wrmsr_def vmx_set_intercept_reg_rdmsr_def is_low_vmcs_msr_def VMCS_MSR_LOW_START_def VMCS_MSR_LOW_END_def
        VMCS_LOW_WRITE_MSR_OFFSET_def msr_position_def)
next
  case False
  then have h: "0xC0000000 \<le> msr" "msr \<le> 0xC0001FFF" using assms by (auto simp: msr_position_def split: if_splits)
  have u: "unat (msr - 0xC0000000) < 8192" using h by (simp add: unat_sub_small word_le_nat_alt)
  then show ?thesis
    using False h modify_modified[of wr msr "if wr then 3 else 1" "msr - 0xC0000000" bm v m]
    by (cases wr) (simp_all add: vmx_set_intercept_reg_wrmsr_def vmx_set_intercept_reg_rdmsr_def is_low_vmcs_msr_def VMCS_MSR_LOW_START_def VMCS_MSR_LOW_END_def
        is_high_vmcs_msr_def VMCS_MSR_HIGH_START_def VMCS_MSR_HIGH_END_def VMCS_HIGH_WRITE_MSR_OFFSET_def VMCS_HIGH_READ_MSR_OFFSET_def msr_position_def)
qed

lemma position_both: "msr_position wr msr = None \<longleftrightarrow> msr_position wr' msr = None"
  by (simp add: msr_position_def)

lemma set_intercept_both:
  assumes "msr_position True msr \<noteq> None"
  shows "\<exists>m'. vmx_set_intercept_msr bm msr v m = Inr m' \<and> (\<forall>w x. msr_exits m' bm w x = (if x = msr then v else msr_exits m bm w x))
    \<and> (\<forall>a. a \<notin> range_of (phys_to_virt bm) 4096 \<longrightarrow> m' a = m a)"
proof -
  obtain m1 where m1: "vmx_set_intercept_reg_rdmsr bm msr v m = Inr m1" "modified bm False msr v m m1"
    using set_intercept_one[of False msr bm v m] assms position_both[of False msr True] by auto
  obtain m2 where m2: "vmx_set_intercept_reg_wrmsr bm msr v m1 = Inr m2" "modified bm True msr v m1 m2"
    using set_intercept_one[of True msr bm v m1] assms by auto
  show ?thesis using m1 m2 by (auto simp: vmx_set_intercept_msr_def modified_def)
qed

section \<open>Properties\<close>

text \<open>
  C40. Selecting an access changes the treatment of that register only: the processor exits on reads and writes of it as
  requested, on all other registers as before, and memory outside the bitmap is unchanged. A register that has no position in the
  bitmap stops the hypervisor.
\<close>

theorem set_intercept_msr_exact:
  "if msr \<le> 0x1FFF \<or> 0xC0000000 \<le> msr \<and> msr \<le> 0xC0001FFF
   then \<exists>m'. vmx_set_intercept_msr bm msr v m = Inr m' \<and> (\<forall>w x. msr_exits m' bm w x = (if x = msr then v else msr_exits m bm w x))
     \<and> {a. m' a \<noteq> m a} \<subseteq> range_of (phys_to_virt bm) 4096
   else vmx_set_intercept_msr bm msr v m = Inl Die"
proof (cases "msr_position True msr")
  case None
  then show ?thesis
    by (auto simp: msr_position_def vmx_set_intercept_msr_def vmx_set_intercept_reg_rdmsr_def is_low_vmcs_msr_def VMCS_MSR_LOW_START_def VMCS_MSR_LOW_END_def
        is_high_vmcs_msr_def VMCS_MSR_HIGH_START_def VMCS_MSR_HIGH_END_def split: if_splits)
next
  case (Some i)
  then have "msr \<le> 0x1FFF \<or> 0xC0000000 \<le> msr \<and> msr \<le> 0xC0001FFF" by (auto simp: msr_position_def split: if_splits)
  moreover obtain m' where "vmx_set_intercept_msr bm msr v m = Inr m'" "\<forall>w x. msr_exits m' bm w x = (if x = msr then v else msr_exits m bm w x)"
    "\<forall>a. a \<notin> range_of (phys_to_virt bm) 4096 \<longrightarrow> m' a = m a" using set_intercept_both[of msr bm v m] Some by auto
  ultimately show ?thesis by auto
qed

text \<open>The configuration of a VM: of the registers with a position, only those of the local APIC exit.\<close>

lemma vlapic_intercepts_exact:
  assumes "\<And>a. a \<in> range_of (phys_to_virt bm) 4096 \<Longrightarrow> m a = 0"
  shows "\<exists>m'. configure_vlapic_msr_intercepts bm m = Inr m' \<and> (\<forall>w x. msr_exits m' bm w x \<longleftrightarrow> msr_position w x = None \<or> x \<in> {0x1B, 0x6E0})"
proof -
  have z: "msr_exits m bm w x \<longleftrightarrow> msr_position w x = None" for w x
  proof (cases "msr_position w x")
    case (Some i)
    then have "phys_to_virt bm + of_nat (i div 8) \<in> range_of (phys_to_virt bm) 4096" using msr_position_less[OF Some] unfolding range_of_def by auto
    then show ?thesis using Some assms by (simp add: msr_exits_def bitmap_bit_def)
  qed (simp add: msr_exits_def)
  obtain m1 where m1: "vmx_set_intercept_msr bm 0x1B True m = Inr m1" "\<forall>w x. msr_exits m1 bm w x = (if x = 0x1B then True else msr_exits m bm w x)"
    using set_intercept_both[of "0x1B" bm True m] by (auto simp: msr_position_def)
  obtain m2 where m2: "vmx_set_intercept_msr bm 0x6E0 True m1 = Inr m2" "\<forall>w x. msr_exits m2 bm w x = (if x = 0x6E0 then True else msr_exits m1 bm w x)"
    using set_intercept_both[of "0x6E0" bm True m1] by (auto simp: msr_position_def)
  show ?thesis using m1 m2 z by (auto simp: configure_vlapic_msr_intercepts_def MSRX64_IA32_APIC_BASE_def MSR_APIC_TSC_DEADLINE_def)
qed

end
