(* ===== verification/Vm_Exits.thy ===== *)
theory Vm_Exits
  imports Guest_Regs Vpic
begin

text \<open>
  Entering and leaving a guest: the entry helpers, the injection of events and the exit handler of \<^verbatim>\<open>arch/x64/vmx/vmx.c\<close>, and the emulated
  instructions of \<^verbatim>\<open>arch/x64/vmx/x86_emulate.c\<close>. The results of \<^verbatim>\<open>cpuid\<close> on the host and the functions that the
  repository declares or calls without defining them are arguments (\<open>environment\<close>). Each section under the lock of a
  virtual processor is one step.
\<close>

section \<open>State and environment\<close>

record cpuid_result =
  res_eax :: u32
  res_ebx :: u32
  res_ecx :: u32
  res_edx :: u32

record exit_state =
  mach :: vmx_machine
  guest_pic :: vpic
  xcr0 :: "cpuid \<Rightarrow> u64"

text \<open>
  \<^verbatim>\<open>vcpu_has_external_irq\<close>, \<^verbatim>\<open>vcpu_get_external_irq\<close>, \<^verbatim>\<open>guest_io_instruction\<close>, \<^verbatim>\<open>step_guest_rip\<close>, \<^verbatim>\<open>emulate_wrmsr\<close> and \<^verbatim>\<open>guest_apic_register_write\<close> are not part of
  the repository. \<open>xcr0_accepted\<close> tells which values the host processor accepts for its register XCR0; it raises a general protection fault for
  others, such as a value without bit 0 or with a feature that it does not have.
\<close>

record environment =
  cpuid_raw :: "u32 \<Rightarrow> u32 \<Rightarrow> cpuid_result"
  has_external_irq :: "u64 \<Rightarrow> exit_state \<Rightarrow> bool"
  get_external_irq :: "u64 \<Rightarrow> exit_state \<Rightarrow> int \<times> exit_state"
  io_instruction :: "u64 \<Rightarrow> u64 \<Rightarrow> exit_state \<Rightarrow> exit_state run"
  step_guest_rip :: "u64 \<Rightarrow> exit_state \<Rightarrow> exit_state run"
  emulate_wrmsr :: "u64 \<Rightarrow> exit_state \<Rightarrow> exit_state run"
  apic_register_write :: "u64 \<Rightarrow> int \<Rightarrow> exit_state \<Rightarrow> exit_state run"
  xcr0_accepted :: "u64 \<Rightarrow> bool"

definition upd_mach :: "(vmx_machine \<Rightarrow> vmx_machine) \<Rightarrow> exit_state \<Rightarrow> exit_state" where
  "upd_mach f x = x\<lparr>mach := f (mach x)\<rparr>"

definition upd_regs :: "u64 \<Rightarrow> (vcpu_user_regs \<Rightarrow> vcpu_user_regs) \<Rightarrow> vmx_machine \<Rightarrow> vmx_machine" where
  "upd_regs v f s = upd_vcpu v (\<lambda>y. y\<lparr>user_regs := f (user_regs y)\<rparr>) s"

abbreviation regs_of :: "vmx_machine \<Rightarrow> u64 \<Rightarrow> vcpu_user_regs" where
  "regs_of s v \<equiv> user_regs (vcpus s v)"

abbreviation write_vmcs :: "vmx_processor \<Rightarrow> cpuid \<Rightarrow> (u64 \<times> u64) list \<Rightarrow> vmx_machine \<Rightarrow> vmx_machine" where
  "write_vmcs hw c ws s \<equiv> s\<lparr>vmcs := vmwrites hw c ws (vmcs s)\<rparr>"

text \<open>A field that is read into a variable without an initial value.\<close>

definition vmread_fresh :: "vmx_processor \<Rightarrow> cpuid \<Rightarrow> u64 \<Rightarrow> vmx_machine \<Rightarrow> u64 run" where
  "vmread_fresh hw c enc s = (case snd (vmread hw c enc (vmcs s)) of None \<Rightarrow> Inl Undefined | Some x \<Rightarrow> Inr x)"

text \<open>A field that is read into a variable which keeps its value when the read fails.\<close>

definition vmread_into :: "vmx_processor \<Rightarrow> cpuid \<Rightarrow> u64 \<Rightarrow> u64 \<Rightarrow> vmx_machine \<Rightarrow> u64" where
  "vmread_into hw c enc old s = (case snd (vmread hw c enc (vmcs s)) of None \<Rightarrow> old | Some x \<Rightarrow> x)"

section \<open>Injected events\<close>

definition INJECT_EVENT_TYPE_EXT_INTERRUPT :: u32 where "INJECT_EVENT_TYPE_EXT_INTERRUPT = 0"
definition INJECT_EVENT_TYPE_HW_EXCEPTION :: u32 where "INJECT_EVENT_TYPE_HW_EXCEPTION = 3"

definition IRQ_UD_VECTOR :: int where "IRQ_UD_VECTOR = 0x06"
definition IRQ_GP_VECTOR :: int where "IRQ_GP_VECTOR = 0x0d"

text \<open>The fields of \<^verbatim>\<open>union vmcs_event_inject\<close>.\<close>

definition event_vector :: "u32 \<Rightarrow> u32 \<Rightarrow> u32" where "event_vector v w = put_bits 0 8 v w"
definition event_type :: "u32 \<Rightarrow> u32 \<Rightarrow> u32" where "event_type v w = put_bits 8 3 v w"
definition event_error_code :: "u32 \<Rightarrow> u32 \<Rightarrow> u32" where "event_error_code v w = put_bits 11 1 v w"
definition event_valid :: "u32 \<Rightarrow> u32 \<Rightarrow> u32" where "event_valid v w = put_bits 31 1 v w"

definition vmx_inject_exception :: "vmx_processor \<Rightarrow> cpuid \<Rightarrow> int \<Rightarrow> int \<Rightarrow> vmx_machine \<Rightarrow> vmx_machine" where
  "vmx_inject_exception hw c vector error_code s =
     (let event_id = event_vector (word_of_int vector) (event_valid 1 (event_type INJECT_EVENT_TYPE_HW_EXCEPTION 0)) in
      if vector = IRQ_UD_VECTOR then write_vmcs hw c [(INJECTED_EVENT_IDENTIFICATION, ucast event_id)] s
      else write_vmcs hw c [(INJECTED_EVENT_ERROR_CODE, word_of_int error_code), (INJECTED_EVENT_IDENTIFICATION, ucast (event_error_code 1 event_id))] s)"

definition vmx_inject_ext_intr :: "vmx_processor \<Rightarrow> cpuid \<Rightarrow> u8 \<Rightarrow> vmx_machine \<Rightarrow> vmx_machine" where
  "vmx_inject_ext_intr hw c vector s =
     write_vmcs hw c [(INJECTED_EVENT_IDENTIFICATION, ucast (event_valid 1 (event_type INJECT_EVENT_TYPE_EXT_INTERRUPT (event_vector (ucast vector) 0))))] s"

definition interrupt_window_exiting :: nat where "interrupt_window_exiting = 2"

definition vmx_set_intr_window_exiting_ctrl :: "vmx_processor \<Rightarrow> cpuid \<Rightarrow> u32 \<Rightarrow> vmx_machine \<Rightarrow> vmx_machine run" where
  "vmx_set_intr_window_exiting_ctrl hw c val s =
     (case snd (vmread hw c PRIMARY_PROC_BASED_VM_EXEC_CONTROLS (vmcs s)) of
        None \<Rightarrow> Inl Die
      | Some raw_ctrl \<Rightarrow>
          let ctls = put_bits interrupt_window_exiting 1 val (U64_LOWER32 raw_ctrl)
          in Inr (write_vmcs hw c [(PRIMARY_PROC_BASED_VM_EXEC_CONTROLS, ucast ctls)] s))"

section \<open>Entry\<close>

definition vmx_set_exit_handler_rsp :: "vmx_processor \<Rightarrow> cpuid \<Rightarrow> virt_addr \<Rightarrow> vmx_machine \<Rightarrow> vmx_machine" where
  "vmx_set_exit_handler_rsp hw c exit_handler_rsp s = write_vmcs hw c [(HOST_RSP, exit_handler_rsp)] s"

definition vmx_prepare_vcpu_execution :: "vmx_processor \<Rightarrow> cpuid \<Rightarrow> u64 \<Rightarrow> vmx_machine \<Rightarrow> (int \<times> vmx_machine) run" where
  "vmx_prepare_vcpu_execution hw c v s = vmx_make_vcpu_current hw c v s"


definition vmx_entry_failure_cleanup :: "u64 \<Rightarrow> vmx_machine \<Rightarrow> vmx_machine" where
  "vmx_entry_failure_cleanup v s = upd_vcpu v (\<lambda>y. y\<lparr>vcpu_st := VCPU_NOT_RUNNING\<rparr>) s"

text \<open>The position of \<^verbatim>\<open>intrf\<close> in \<^verbatim>\<open>union rflags\<close>.\<close>

definition rflags_intrf :: nat where "rflags_intrf = 9"

definition vmx_external_irqs_entry_helper :: "environment \<Rightarrow> vmx_processor \<Rightarrow> cpuid \<Rightarrow> u64 \<Rightarrow> exit_state \<Rightarrow> exit_state run" where
  "vmx_external_irqs_entry_helper env hw c v x =
     (if \<not> has_external_irq env v x then Inr x
      else if \<not> vpic_has_pending_irq (guest_pic x) then Inr x
      else
        let interruptible = bit (rflags (regs_of (mach x) v)) rflags_intrf;
            act_state = vmread_into hw c GUEST_ACTIVITY_STATE 0 (mach x);
            interruptible = (if act_state \<noteq> 0 then False else interruptible);
            intr_state = vmread_into hw c GUEST_INTERRUPTIBILITY_STATE 0 (mach x);
            interruptible = (if U64_LOWER32 intr_state \<noteq> 0 then False else interruptible)
        in if \<not> interruptible then andThen (vmx_set_intr_window_exiting_ctrl hw c 1 (mach x)) (\<lambda>s. Inr (x\<lparr>mach := s\<rparr>))
           else let (irq, x) = get_external_irq env v x in Inr (upd_mach (vmx_inject_ext_intr hw c (word_of_int irq)) x))"

section \<open>Emulated instructions\<close>

definition hyvemind_id :: "u8 list" where
  "hyvemind_id = map of_char ''hyvemind   '' @ [0]"

text \<open>The leaf is compared as a 64-bit register, the instruction receives its low half.\<close>

definition cpuid_values :: "environment \<Rightarrow> u64 \<Rightarrow> u64 \<Rightarrow> cpuid_result" where
  "cpuid_values env leaf sub_leaf =
     (if leaf = 0x40000000 then
        \<lparr>res_eax = 0, res_ebx = from_bytes (take 4 hyvemind_id), res_ecx = from_bytes (take 4 (drop 4 hyvemind_id)),
         res_edx = from_bytes (take 4 (drop 8 hyvemind_id))\<rparr>
      else cpuid_raw env (ucast leaf) (ucast sub_leaf))"

definition step_rip :: "vmx_processor \<Rightarrow> cpuid \<Rightarrow> u64 \<Rightarrow> vmx_machine \<Rightarrow> vmx_machine run" where
  "step_rip hw c v s =
     andThen (vmread_fresh hw c VM_EXIT_INSTRUCTION_LENGTH s) (\<lambda>instruction_length.
       Inr (upd_regs v (\<lambda>r. r\<lparr>rip := rip r + instruction_length\<rparr>) s))"

definition emulate_cpuid :: "environment \<Rightarrow> vmx_processor \<Rightarrow> cpuid \<Rightarrow> u64 \<Rightarrow> vmx_machine \<Rightarrow> vmx_machine run" where
  "emulate_cpuid env hw c v s =
     (let res = cpuid_values env (rax (regs_of s v)) (rcx (regs_of s v));
          s = upd_regs v (\<lambda>r. r\<lparr>rax := ucast (res_eax res), rbx := ucast (res_ebx res), rcx := ucast (res_ecx res), rdx := ucast (res_edx res)\<rparr>) s
      in step_rip hw c v s)"

definition emulate_rdmsr :: "vmx_processor \<Rightarrow> cpuid \<Rightarrow> vmx_machine \<Rightarrow> vmx_machine" where
  "emulate_rdmsr hw c s = vmx_inject_exception hw c IRQ_GP_VECTOR 0 s"

text \<open>The instruction \<^verbatim>\<open>xsetbv\<close> is executed on the host with the value that the guest chose.\<close>

definition xcr0_value :: "vcpu_user_regs \<Rightarrow> u64" where
  "xcr0_value regs = take_bit 32 (rax regs) OR push_bit 32 (take_bit 32 (rdx regs))"

definition emulate_xsetbv :: "environment \<Rightarrow> vmx_processor \<Rightarrow> cpuid \<Rightarrow> u64 \<Rightarrow> exit_state \<Rightarrow> exit_state run" where
  "emulate_xsetbv env hw c v x =
     (let regs = regs_of (mach x) v in
      if rcx regs \<noteq> 0 then Inr (upd_mach (vmx_inject_exception hw c IRQ_UD_VECTOR 0) x)
      else if \<not> xcr0_accepted env (xcr0_value regs) then Inl Fault
      else
        let x = x\<lparr>xcr0 := (xcr0 x)(c := xcr0_value regs)\<rparr>
        in andThen (step_rip hw c v (mach x)) (\<lambda>s. Inr (x\<lparr>mach := s\<rparr>)))"

section \<open>The exit handler\<close>

definition EXIT_REASON_EXT_INTR :: u16 where "EXIT_REASON_EXT_INTR = 1"
definition EXIT_REASON_INTR_WINDOW :: u16 where "EXIT_REASON_INTR_WINDOW = 7"
definition EXIT_REASON_CPUID :: u16 where "EXIT_REASON_CPUID = 10"
definition EXIT_REASON_IO_INSTRUCTION :: u16 where "EXIT_REASON_IO_INSTRUCTION = 30"
definition EXIT_REASON_RDMSR_IMPLICIT :: u16 where "EXIT_REASON_RDMSR_IMPLICIT = 31"
definition EXIT_REASON_WRMSR_IMPLICIT_WRMSRNS :: u16 where "EXIT_REASON_WRMSR_IMPLICIT_WRMSRNS = 32"
definition EXIT_REASON_XSETBV :: u16 where "EXIT_REASON_XSETBV = 55"
definition EXIT_REASON_APIC_WRITE :: u16 where "EXIT_REASON_APIC_WRITE = 56"
definition EXIT_REASON_WRMSRLIST :: u16 where "EXIT_REASON_WRMSRLIST = 79"
definition EXIT_REASON_RDMSR_IMMEDIATE :: u16 where "EXIT_REASON_RDMSR_IMMEDIATE = 84"
definition EXIT_REASON_WRMSRNS_IMMEDIATE :: u16 where "EXIT_REASON_WRMSRNS_IMMEDIATE = 85"

text \<open>The parts of \<^verbatim>\<open>union vmcs_exit_reason\<close> that are used.\<close>

definition basic_exit_reason :: "u32 \<Rightarrow> u16" where "basic_exit_reason raw = ucast raw"
definition vm_entry_failure :: "u32 \<Rightarrow> bool" where "vm_entry_failure raw = bit raw 31"

text \<open>The assignments before the dispatch; the qualification has no value if it cannot be read.\<close>

definition leave_guest :: "vmx_processor \<Rightarrow> cpuid \<Rightarrow> u64 \<Rightarrow> vmx_machine \<Rightarrow> vmx_machine" where
  "leave_guest hw c v s =
     (let s = upd_vcpu v (\<lambda>y. y\<lparr>vcpu_vmx := (vcpu_vmx y)\<lparr>launch_state := VMCS_LS_LAUNCHED\<rparr>, vcpu_st := VCPU_NOT_RUNNING\<rparr>) s;
          s = upd_regs v (\<lambda>r. r\<lparr>rip := vmread_into hw c GUEST_RIP (rip r) s\<rparr>) s;
          s = upd_regs v (\<lambda>r. r\<lparr>rsp := vmread_into hw c GUEST_RSP (rsp r) s\<rparr>) s
      in upd_regs v (\<lambda>r. r\<lparr>rflags := vmread_into hw c GUEST_RFLAGS (rflags r) s\<rparr>) s)"

definition dispatch_exit :: "environment \<Rightarrow> vmx_processor \<Rightarrow> cpuid \<Rightarrow> u64 \<Rightarrow> u64 option \<Rightarrow> u16 \<Rightarrow> exit_state \<Rightarrow> exit_state run" where
  "dispatch_exit env hw c v qualification reason x =
     (let lift = (\<lambda>m. andThen m (\<lambda>s. Inr (x\<lparr>mach := s\<rparr>)));
          with_qualification = (\<lambda>f. case qualification of None \<Rightarrow> Inl Undefined | Some q \<Rightarrow> f q)
      in
      if reason = EXIT_REASON_EXT_INTR then Inr x
      else if reason = EXIT_REASON_INTR_WINDOW then lift (vmx_set_intr_window_exiting_ctrl hw c 0 (mach x))
      else if reason = EXIT_REASON_CPUID then lift (emulate_cpuid env hw c v (mach x))
      else if reason = EXIT_REASON_IO_INSTRUCTION then with_qualification (\<lambda>q. andThen (io_instruction env v q x) (step_guest_rip env v))
      else if reason = EXIT_REASON_RDMSR_IMPLICIT \<or> reason = EXIT_REASON_RDMSR_IMMEDIATE then Inr (upd_mach (emulate_rdmsr hw c) x)
      else if reason = EXIT_REASON_WRMSR_IMPLICIT_WRMSRNS \<or> reason = EXIT_REASON_WRMSRNS_IMMEDIATE \<or> reason = EXIT_REASON_WRMSRLIST
        then emulate_wrmsr env v x
      else if reason = EXIT_REASON_XSETBV then emulate_xsetbv env hw c v x
      else if reason = EXIT_REASON_APIC_WRITE then with_qualification (\<lambda>q. apic_register_write env v (sint (ucast q :: u32)) x)
      else Inl Die)"

definition vmx_vm_exit_handler :: "environment \<Rightarrow> vmx_processor \<Rightarrow> cpuid \<Rightarrow> u64 \<Rightarrow> exit_state \<Rightarrow> (int \<times> exit_state) run" where
  "vmx_vm_exit_handler env hw c v x =
     (let x = upd_mach (leave_guest hw c v) x in
      andThen (vmread_fresh hw c EXIT_REASON (mach x)) (\<lambda>exit_reason_raw.
        let raw = ucast exit_reason_raw in
        if vm_entry_failure raw then Inr (VMX_VM_ENTRY_ERROR, x)
        else
          let exit_qualification_raw = snd (vmread hw c EXIT_QUALIFICATION (vmcs (mach x)))
          in andThen (dispatch_exit env hw c v exit_qualification_raw (basic_exit_reason raw) x) (\<lambda>x. Inr (VMX_SUCCESS, x))))"

section \<open>The effect on a virtual processor\<close>

text \<open>Processor \<open>c\<close> left the guest of \<open>v\<close>, whose control structure it can access.\<close>

definition exit_fields :: "u64 list" where
  "exit_fields = [GUEST_RIP, GUEST_RSP, GUEST_RFLAGS, EXIT_REASON, VM_EXIT_INSTRUCTION_LENGTH, PRIMARY_PROC_BASED_VM_EXEC_CONTROLS, GUEST_ACTIVITY_STATE,
     GUEST_INTERRUPTIBILITY_STATE]"

definition entry_fields :: "u64 list" where
  "entry_fields = [GUEST_RIP, GUEST_RSP, GUEST_RFLAGS, PRIMARY_PROC_BASED_VM_EXEC_CONTROLS, INJECTED_EVENT_IDENTIFICATION, INJECTED_EVENT_ERROR_CODE]"

definition in_guest :: "vmx_processor \<Rightarrow> cpuid \<Rightarrow> u64 \<Rightarrow> vmx_machine \<Rightarrow> bool" where
  "in_guest hw c v s \<longleftrightarrow> vmx_ok hw s \<and> live s v \<and> curr_vcpu s c = v
     \<and> (\<forall>enc \<in> set exit_fields. vmread_error hw enc = 0) \<and> (\<forall>enc \<in> set entry_fields. vmwrite_error hw enc = 0)"

definition own_fields :: "vmx_machine \<Rightarrow> u64 \<Rightarrow> fields" where
  "own_fields s v = regions (vmcs s) (vmcs_ptr (vmx_of s v))"

lemma in_guest_current:
  assumes "in_guest hw c v s"
  shows "current_vmcs (vmcs s) c = vmcs_ptr (vmx_of s v)" "vmcs_ptr (vmx_of s v) \<noteq> NO_CURRENT_VMCS_ADDR"
  using assms curr_vcpu_active(3)[of hw s v c] area_ok_ne_none[OF vmx_okD(5)[of hw s v]] unfolding in_guest_def by blast+

text \<open>Changes that keep the bindings of virtual processors to control structures.\<close>

definition same_bindings :: "vmx_machine \<Rightarrow> vmx_machine \<Rightarrow> bool" where
  "same_bindings s t \<longleftrightarrow> (\<forall>w. vmcs_ptr (vmx_of t w) = vmcs_ptr (vmx_of s w) \<and> active_cpu (vmx_of t w) = active_cpu (vmx_of s w))
     \<and> pages t = pages s \<and> curr_vcpu t = curr_vcpu s \<and> current_vmcs (vmcs t) = current_vmcs (vmcs s)"

lemma same_bindings_ok:
  assumes "same_bindings s t"
  shows "vmx_ok hw t = vmx_ok hw s" "in_guest hw c v t = in_guest hw c v s"
proof -
  have eq: "vmcs_ptr (vmx_of t w) = vmcs_ptr (vmx_of s w)" "active_cpu (vmx_of t w) = active_cpu (vmx_of s w)" "pages t = pages s" "curr_vcpu t = curr_vcpu s"
    "current_vmcs (vmcs t) = current_vmcs (vmcs s)" for w using assms by (simp_all add: same_bindings_def)
  show "vmx_ok hw t = vmx_ok hw s" unfolding vmx_ok_def areas_ok_def binding_ok_def live_def eq ..
  then show "in_guest hw c v t = in_guest hw c v s" unfolding in_guest_def live_def eq by simp
qed

lemma read_own:
  assumes "in_guest hw c v s" "enc \<in> set exit_fields"
  shows "vmread_into hw c enc old s = own_fields s v enc" "vmread_fresh hw c enc s = Inr (own_fields s v enc)" "snd (vmread hw c enc (vmcs s)) = Some (own_fields s v enc)"
  using in_guest_current[OF assms(1)] assms by (simp_all add: vmread_into_def vmread_fresh_def vmread_def in_guest_def own_fields_def)

lemma write_own:
  assumes "in_guest hw c v s"
  shows "write_vmcs hw c ws s = s\<lparr>vmcs := (vmcs s)\<lparr>regions := (regions (vmcs s))(vmcs_ptr (vmx_of s v) := put_fields hw ws (own_fields s v))\<rparr>\<rparr>"
  using in_guest_current[OF assms] by (simp add: vmwrites_put own_fields_def)

text \<open>A step that changes nothing but the data of \<open>v\<close>, to \<open>y\<close>, and the fields of its structure, to \<open>fs\<close>.\<close>

definition moves :: "u64 \<Rightarrow> vmx_machine \<Rightarrow> vmx_machine \<Rightarrow> vcpu \<Rightarrow> fields \<Rightarrow> bool" where
  "moves v s t y fs \<longleftrightarrow> same_bindings s t \<and> vcpus t v = y \<and> own_fields t v = fs \<and> (\<forall>w. w \<noteq> v \<longrightarrow> vcpus t w = vcpus s w)
     \<and> (\<forall>q. q \<noteq> vmcs_ptr (vmx_of s v) \<longrightarrow> regions (vmcs t) q = regions (vmcs s) q)"


lemma same_bindings_trans: "same_bindings s t \<Longrightarrow> same_bindings t u \<Longrightarrow> same_bindings s u"
  unfolding same_bindings_def by simp

lemma movesD:
  assumes "moves v s t r fs"
  shows "same_bindings s t" "vcpus t v = r" "own_fields t v = fs" "w \<noteq> v \<Longrightarrow> vcpus t w = vcpus s w"
    "q \<noteq> vmcs_ptr (vmx_of s v) \<Longrightarrow> regions (vmcs t) q = regions (vmcs s) q" "vmcs_ptr (vmx_of t v) = vmcs_ptr (vmx_of s v)"
  using assms unfolding moves_def same_bindings_def by blast+

lemma moves_trans:
  assumes a: "moves v s t r fs" and b: "moves v t u r' fs'"
  shows "moves v s u r' fs'"
  unfolding moves_def
proof (intro conjI allI impI)
  show "same_bindings s u" by (rule same_bindings_trans[OF movesD(1)[OF a] movesD(1)[OF b]])
  show "vcpus u v = r'" "own_fields u v = fs'" by (rule movesD(2)[OF b], rule movesD(3)[OF b])
  show "vcpus u w = vcpus s w" if "w \<noteq> v" for w using movesD(4)[OF a that] movesD(4)[OF b that] by simp
  show "regions (vmcs u) q = regions (vmcs s) q" if "q \<noteq> vmcs_ptr (vmx_of s v)" for q
    using movesD(5)[OF a that] movesD(5)[OF b, of q] that unfolding movesD(6)[OF a] by simp
qed

lemma moves_vcpu:
  assumes "\<And>y. vmcs_ptr (vcpu_vmx (g y)) = vmcs_ptr (vcpu_vmx y) \<and> active_cpu (vcpu_vmx (g y)) = active_cpu (vcpu_vmx y)"
  shows "moves v s (upd_vcpu v g s) (g (vcpus s v)) (own_fields s v)"
  using assms by (simp add: moves_def same_bindings_def upd_vcpu_def own_fields_def)

lemma moves_regs: "moves v s (upd_regs v f s) ((vcpus s v)\<lparr>user_regs := f (regs_of s v)\<rparr>) (own_fields s v)"
  unfolding upd_regs_def using moves_vcpu[of "\<lambda>y. y\<lparr>user_regs := f (user_regs y)\<rparr>" v s] by simp

lemma moves_write: "in_guest hw c v s \<Longrightarrow> moves v s (write_vmcs hw c ws s) (vcpus s v) (put_fields hw ws (own_fields s v))"
  by (simp add: write_own moves_def same_bindings_def own_fields_def[of "_ :: vmx_machine" v])

lemma moves_in_guest: "moves v s t r fs \<Longrightarrow> in_guest hw c w t = in_guest hw c w s"
  using same_bindings_ok(2) by (auto simp: moves_def)

lemma moves_values: "moves v s t r fs \<Longrightarrow> vcpus t v = r \<and> own_fields t v = fs"
  unfolding moves_def by blast

definition guest_regs_read :: "fields \<Rightarrow> vcpu_user_regs \<Rightarrow> vcpu_user_regs" where
  "guest_regs_read fs r = r\<lparr>rip := fs GUEST_RIP, rsp := fs GUEST_RSP, rflags := fs GUEST_RFLAGS\<rparr>"

lemma exit_field_mem: "GUEST_RIP \<in> set exit_fields" "GUEST_RSP \<in> set exit_fields" "GUEST_RFLAGS \<in> set exit_fields" "EXIT_REASON \<in> set exit_fields"
  "VM_EXIT_INSTRUCTION_LENGTH \<in> set exit_fields" "PRIMARY_PROC_BASED_VM_EXEC_CONTROLS \<in> set exit_fields" "GUEST_ACTIVITY_STATE \<in> set exit_fields"
  "GUEST_INTERRUPTIBILITY_STATE \<in> set exit_fields"
  by (simp_all add: exit_fields_def)

definition left_vcpu :: "fields \<Rightarrow> vcpu \<Rightarrow> vcpu" where
  "left_vcpu fs y = y\<lparr>vcpu_vmx := (vcpu_vmx y)\<lparr>launch_state := VMCS_LS_LAUNCHED\<rparr>, vcpu_st := VCPU_NOT_RUNNING, user_regs := guest_regs_read fs (user_regs y)\<rparr>"

lemma leave_guest_moves:
  assumes "in_guest hw c v s"
  shows "moves v s (leave_guest hw c v s) (left_vcpu (own_fields s v) (vcpus s v)) (own_fields s v)"
proof -
  let ?g = "\<lambda>y. y\<lparr>vcpu_vmx := (vcpu_vmx y)\<lparr>launch_state := VMCS_LS_LAUNCHED\<rparr>, vcpu_st := VCPU_NOT_RUNNING\<rparr>"
  let ?y = "?g (vcpus s v)"
  define s1 where "s1 = upd_vcpu v ?g s"
  define s2 where "s2 = upd_regs v (\<lambda>r. r\<lparr>rip := vmread_into hw c GUEST_RIP (rip r) s1\<rparr>) s1"
  define s3 where "s3 = upd_regs v (\<lambda>r. r\<lparr>rsp := vmread_into hw c GUEST_RSP (rsp r) s2\<rparr>) s2"
  have m1: "moves v s s1 ?y (own_fields s v)" unfolding s1_def using moves_vcpu[of ?g v s] by simp
  note v1 = moves_values[OF m1] and g1 = assms[folded moves_in_guest[OF m1]]
  have m2: "moves v s1 s2 (?y\<lparr>user_regs := (regs_of s v)\<lparr>rip := own_fields s v GUEST_RIP\<rparr>\<rparr>) (own_fields s v)"
    unfolding s2_def using moves_regs[of v s1 "\<lambda>r. r\<lparr>rip := vmread_into hw c GUEST_RIP (rip r) s1\<rparr>"] v1 read_own(1)[OF g1 exit_field_mem(1)] by simp
  note v2 = moves_values[OF m2] and g2 = g1[folded moves_in_guest[OF m2]]
  have m3: "moves v s2 s3 (?y\<lparr>user_regs := (regs_of s v)\<lparr>rip := own_fields s v GUEST_RIP, rsp := own_fields s v GUEST_RSP\<rparr>\<rparr>) (own_fields s v)"
    unfolding s3_def using moves_regs[of v s2 "\<lambda>r. r\<lparr>rsp := vmread_into hw c GUEST_RSP (rsp r) s2\<rparr>"] v2 read_own(1)[OF g2 exit_field_mem(2)] by simp
  note v3 = moves_values[OF m3] and g3 = g2[folded moves_in_guest[OF m3]]
  have "moves v s3 (leave_guest hw c v s) (left_vcpu (own_fields s v) (vcpus s v)) (own_fields s v)"
    using moves_regs[of v s3 "\<lambda>r. r\<lparr>rflags := vmread_into hw c GUEST_RFLAGS (rflags r) s3\<rparr>"] v3 read_own(1)[OF g3 exit_field_mem(3)]
    by (simp add: leave_guest_def Let_def s1_def[symmetric] s2_def[symmetric] s3_def[symmetric] guest_regs_read_def left_vcpu_def)
  then show ?thesis using m1 m2 m3 moves_trans by blast
qed


section \<open>What an exit does to the guest\<close>

text \<open>The registers and the fields with which the guest goes on, from those it left with.\<close>

definition own_exits :: "u16 list" where
  "own_exits = [EXIT_REASON_EXT_INTR, EXIT_REASON_INTR_WINDOW, EXIT_REASON_CPUID, EXIT_REASON_RDMSR_IMPLICIT, EXIT_REASON_RDMSR_IMMEDIATE, EXIT_REASON_XSETBV]"

definition foreign_exits :: "u16 list" where
  "foreign_exits = [EXIT_REASON_IO_INSTRUCTION, EXIT_REASON_WRMSR_IMPLICIT_WRMSRNS, EXIT_REASON_WRMSRNS_IMMEDIATE, EXIT_REASON_WRMSRLIST, EXIT_REASON_APIC_WRITE]"




lemma entry_field_ok:
  assumes "in_guest hw c v s"
  shows "vmwrite_error hw PRIMARY_PROC_BASED_VM_EXEC_CONTROLS = 0" "vmwrite_error hw INJECTED_EVENT_IDENTIFICATION = 0" "vmwrite_error hw INJECTED_EVENT_ERROR_CODE = 0"
  using assms by (simp_all add: in_guest_def entry_fields_def)

lemma entry_field_width: "field_bits PRIMARY_PROC_BASED_VM_EXEC_CONTROLS = 32" "field_bits INJECTED_EVENT_IDENTIFICATION = 32" "field_bits INJECTED_EVENT_ERROR_CODE = 32"
  by (simp_all add: field_bits_def enc_width_def field_defs)

lemma bit_put_bits: "bit (put_bits i n v w) k \<longleftrightarrow> (if i \<le> k \<and> k < i + n \<and> k < LENGTH('a) then bit v (k - i) else bit w k)" for v w :: "'a::len word"
  unfolding put_bits_def mask_eq_exp_minus_1[symmetric] by (auto simp: bit_simps dest: bit_imp_le_length)

lemma window_bit:
  fixes w :: u64
  shows "take_bit 32 (ucast (put_bits 2 1 0 (U64_LOWER32 w)) :: u64) = take_bit 32 w AND NOT 4"
    "take_bit 32 (ucast (put_bits 2 1 1 (U64_LOWER32 w)) :: u64) = take_bit 32 w OR 4"
proof -
  have four: "4 = (push_bit 2 1 :: u64)" by simp
  show "take_bit 32 (ucast (put_bits 2 1 0 (U64_LOWER32 w)) :: u64) = take_bit 32 w AND NOT 4" "take_bit 32 (ucast (put_bits 2 1 1 (U64_LOWER32 w)) :: u64) = take_bit 32 w OR 4"
    by (subst four, rule bit_word_eqI, auto simp: U64_LOWER32_def bit_simps bit_put_bits simp del: push_bit_of_1)+
qed

lemma event_word: "take_bit 32 (ucast (event_valid 1 (event_type INJECT_EVENT_TYPE_EXT_INTERRUPT (event_vector (ucast b) 0))) :: u64) = 0x80000000 OR ucast b" for b :: u8
proof -
  define h :: u64 where "h = push_bit 31 1"
  have h: "0x80000000 = h" "bit h k \<longleftrightarrow> k = 31" for k unfolding h_def by (simp, auto simp only: bit_simps possible_bit_word, simp)
  show ?thesis unfolding event_valid_def event_type_def event_vector_def INJECT_EVENT_TYPE_EXT_INTERRUPT_def h(1)
    by (rule bit_word_eqI) (auto simp: bit_simps bit_put_bits h(2) dest: bit_imp_le_length)
qed

lemma window_ctrl_moves:
  assumes "in_guest hw c v s"
  shows "\<exists>t. vmx_set_intr_window_exiting_ctrl hw c b s = Inr t \<and> moves v s t (vcpus s v)
    ((own_fields s v)(PRIMARY_PROC_BASED_VM_EXEC_CONTROLS := take_bit 32 (ucast (put_bits 2 1 b (U64_LOWER32 (own_fields s v PRIMARY_PROC_BASED_VM_EXEC_CONTROLS))))))"
  using moves_write[OF assms, of "[(PRIMARY_PROC_BASED_VM_EXEC_CONTROLS, ucast (put_bits 2 1 b (U64_LOWER32 (own_fields s v PRIMARY_PROC_BASED_VM_EXEC_CONTROLS))))]"]
    read_own(3)[OF assms exit_field_mem(6)] entry_field_ok[OF assms] entry_field_width
  by (simp add: vmx_set_intr_window_exiting_ctrl_def interrupt_window_exiting_def Let_def)



lemmas exit_reason_defs = EXIT_REASON_EXT_INTR_def EXIT_REASON_INTR_WINDOW_def EXIT_REASON_CPUID_def EXIT_REASON_IO_INSTRUCTION_def
  EXIT_REASON_RDMSR_IMPLICIT_def EXIT_REASON_WRMSR_IMPLICIT_WRMSRNS_def EXIT_REASON_XSETBV_def EXIT_REASON_APIC_WRITE_def EXIT_REASON_WRMSRLIST_def
  EXIT_REASON_RDMSR_IMMEDIATE_def EXIT_REASON_WRMSRNS_IMMEDIATE_def






lemma exit_handler_run:
  assumes "in_guest hw c v (mach x)" "fs = own_fields (mach x) v" "\<not> bit (fs EXIT_REASON) 31"
  shows "\<exists>q. vmx_vm_exit_handler env hw c v x
    = andThen (dispatch_exit env hw c v q (ucast (fs EXIT_REASON)) (upd_mach (leave_guest hw c v) x)) (\<lambda>x. Inr (0, x))"
proof -
  note m = leave_guest_moves[OF assms(1)]
  have "vmread_fresh hw c EXIT_REASON (leave_guest hw c v (mach x)) = Inr (fs EXIT_REASON)"
    using read_own(2)[OF assms(1)[folded moves_in_guest[OF m]] exit_field_mem(4)] moves_values[OF m] assms(2) by simp
  moreover have "\<not> vm_entry_failure (ucast (fs EXIT_REASON))" using assms(3) by (simp add: vm_entry_failure_def bit_simps)
  moreover have "basic_exit_reason (ucast (fs EXIT_REASON)) = ucast (fs EXIT_REASON)" unfolding basic_exit_reason_def by (rule bit_word_eqI) (simp add: bit_simps)
  ultimately show ?thesis by (auto simp: vmx_vm_exit_handler_def upd_mach_def VMX_SUCCESS_def)
qed

section \<open>Properties\<close>


text \<open>
  C11. A pending interrupt of the virtual interrupt controller is taken and put into the entry fields only if the guest accepts interrupts:
  its interrupt flag is set, it is active and not in the shadow of a blocking instruction. Otherwise nothing is acknowledged, and the control field asks
  for an exit as soon as the guest accepts interrupts; all its other bits are kept.
\<close>

theorem external_irq_delivery:
  assumes "in_guest hw c v (mach x)" "fs = own_fields (mach x) v" "has_external_irq env v x" "vpic_has_pending_irq (guest_pic x)"
    and "get_external_irq env v x = (irq, z)" "in_guest hw c v (mach z)"
  shows "\<exists>y. vmx_external_irqs_entry_helper env hw c v x = Inr y
    \<and> (if bit (rflags (regs_of (mach x) v)) 9 \<and> fs GUEST_ACTIVITY_STATE = 0 \<and> take_bit 32 (fs GUEST_INTERRUPTIBILITY_STATE) = 0
       then guest_pic y = guest_pic z \<and> xcr0 y = xcr0 z \<and> moves v (mach z) (mach y) (vcpus (mach z) v)
         ((own_fields (mach z) v)(INJECTED_EVENT_IDENTIFICATION := 0x80000000 OR ucast (word_of_int irq :: u8)))
       else guest_pic y = guest_pic x \<and> xcr0 y = xcr0 x \<and> moves v (mach x) (mach y) (vcpus (mach x) v)
         (fs(PRIMARY_PROC_BASED_VM_EXEC_CONTROLS := take_bit 32 (fs PRIMARY_PROC_BASED_VM_EXEC_CONTROLS) OR 4)))"
proof -
  let ?w = "event_valid 1 (event_type INJECT_EVENT_TYPE_EXT_INTERRUPT (event_vector (ucast (word_of_int irq :: u8)) 0)) :: u32"
  have low: "U64_LOWER32 (fs GUEST_INTERRUPTIBILITY_STATE) = 0 \<longleftrightarrow> take_bit 32 (fs GUEST_INTERRUPTIBILITY_STATE) = 0"
    unfolding U64_LOWER32_def bit_eq_iff by (auto simp: bit_simps)
  note rd = read_own(1)[OF assms(1)] exit_field_mem(7,8)
  have wd: "take_bit 32 (ucast ?w :: u64) = 0x80000000 OR ucast (word_of_int irq :: u8)" by (rule event_word)
  have inj: "moves v (mach z) (vmx_inject_ext_intr hw c (word_of_int irq) (mach z)) (vcpus (mach z) v)
      ((own_fields (mach z) v)(INJECTED_EVENT_IDENTIFICATION := 0x80000000 OR ucast (word_of_int irq :: u8)))"
    using moves_write[OF assms(6), of "[(INJECTED_EVENT_IDENTIFICATION, ucast ?w)]"] entry_field_ok[OF assms(6)] entry_field_width
    unfolding vmx_inject_ext_intr_def wd[symmetric] by simp
  show ?thesis
    using assms(2-5) rd low inj window_ctrl_moves[OF assms(1), of 1] unfolding window_bit
    by (auto simp: vmx_external_irqs_entry_helper_def rflags_intrf_def upd_mach_def)
qed

text \<open>
  C39. An exit for any other reason than those of the dispatch stops the hypervisor, and a failed entry is reported with only the
  registers and the state of the virtual processor updated.
\<close>

theorem unhandled_exit_stops:
  assumes "in_guest hw c v (mach x)" "fs = own_fields (mach x) v"
  shows "(\<not> bit (fs EXIT_REASON) 31 \<longrightarrow> ucast (fs EXIT_REASON) \<notin> set own_exits \<union> set foreign_exits \<longrightarrow> vmx_vm_exit_handler env hw c v x = Inl Die)
    \<and> (bit (fs EXIT_REASON) 31 \<longrightarrow> vmx_vm_exit_handler env hw c v x = Inr (VMX_VM_ENTRY_ERROR, x\<lparr>mach := leave_guest hw c v (mach x)\<rparr>)
       \<and> moves v (mach x) (leave_guest hw c v (mach x)) (left_vcpu fs (vcpus (mach x) v)) fs)"
proof (intro conjI impI)
  note m = leave_guest_moves[OF assms(1)]
  show "vmx_vm_exit_handler env hw c v x = Inl Die" if "\<not> bit (fs EXIT_REASON) 31" "ucast (fs EXIT_REASON) \<notin> set own_exits \<union> set foreign_exits"
    using exit_handler_run[OF assms that(1), of env] that(2) by (auto simp: dispatch_exit_def own_exits_def foreign_exits_def)
  have "vmread_fresh hw c EXIT_REASON (leave_guest hw c v (mach x)) = Inr (fs EXIT_REASON)"
    using read_own(2)[OF assms(1)[folded moves_in_guest[OF m]] exit_field_mem(4)] moves_values[OF m] assms(2) by simp
  then show "vmx_vm_exit_handler env hw c v x = Inr (VMX_VM_ENTRY_ERROR, x\<lparr>mach := leave_guest hw c v (mach x)\<rparr>)" if "bit (fs EXIT_REASON) 31"
    using that by (simp add: vmx_vm_exit_handler_def upd_mach_def vm_entry_failure_def bit_simps)
  show "moves v (mach x) (leave_guest hw c v (mach x)) (left_vcpu fs (vcpus (mach x) v)) fs" if "bit (fs EXIT_REASON) 31" using m assms(2) by simp
qed

text \<open>The hypervisor leaf is missed when the upper half of the register, which the instruction ignores, is not zero.\<close>

lemma cpuid_upper_half: "cpuid_values env 0x140000000 0 = cpuid_raw env 0x40000000 0"
proof -
  have e: "ucast (0x140000000 :: u64) = (0x40000000 :: u32)" "0x140000000 \<noteq> (0x40000000 :: u64)" by code_simp+
  show ?thesis unfolding cpuid_values_def e(1) using e(2) by (simp only: if_False unsigned_0)
qed

section \<open>An example\<close>

text \<open>Processor 1 left the guest with the fields \<open>fs\<close>.\<close>

definition exit_machine :: "fields \<Rightarrow> vcpu_user_regs \<Rightarrow> vmx_machine" where
  "exit_machine fs r = (let b = bound 1 0x5000 (example_machine zero_policy)
     in upd_regs 0x5000 (\<lambda>_. r) (b\<lparr>vmcs := (vmcs b)\<lparr>regions := \<lambda>_. fs\<rparr>\<rparr>))"

definition exit_example :: "fields \<Rightarrow> vcpu_user_regs \<Rightarrow> exit_state" where
  "exit_example fs r = \<lparr>mach = exit_machine fs r, guest_pic = started, xcr0 = (\<lambda>_. 1)\<rparr>"

text \<open>Stand-ins for the missing functions; the interrupt is taken from the virtual interrupt controller.\<close>

definition example_env :: environment where
  "example_env = \<lparr>cpuid_raw = (\<lambda>_ _. \<lparr>res_eax = 0, res_ebx = 0, res_ecx = 0, res_edx = 0\<rparr>), has_external_irq = (\<lambda>_ _. True),
     get_external_irq = (\<lambda>_ x. case vpic_get_pending_irq (guest_pic x) of (i, p) \<Rightarrow> (case i of None \<Rightarrow> - 1 | Some w \<Rightarrow> int w, x\<lparr>guest_pic := p\<rparr>)),
     io_instruction = (\<lambda>_ _. Inr), step_guest_rip = (\<lambda>_. Inr), emulate_wrmsr = (\<lambda>_. Inr), apic_register_write = (\<lambda>_ _. Inr),
     xcr0_accepted = (\<lambda>x. bit x 0)\<rparr>"

lemma exit_in_guest: "in_guest willing_processor 1 0x5000 (exit_machine fs r)"
proof -
  let ?b = "bound 1 0x5000 (example_machine zero_policy)"
  have b: "bindable willing_processor 1 0x5000 (example_machine zero_policy)" by (rule example_bindable) (simp add: INVALID_CPUID_def)
  have "in_guest willing_processor 1 0x5000 ?b" using bound_ok[OF b] example_live by (simp add: in_guest_def) (simp add: willing_processor_def)
  moreover have "same_bindings ?b (exit_machine fs r)" by (simp add: same_bindings_def exit_machine_def Let_def upd_regs_def upd_vcpu_def)
  ultimately show ?thesis using same_bindings_ok(2) by blast
qed

lemma exit_values: "own_fields (exit_machine fs r) 0x5000 = fs" "regs_of (exit_machine fs r) 0x5000 = r"
  by (simp_all add: own_fields_def exit_machine_def Let_def upd_regs_def upd_vcpu_def)


theorem external_irq_delivery_witness:
  "\<exists>y. vmx_external_irqs_entry_helper example_env willing_processor 1 0x5000 (exit_example (\<lambda>_. 0) (zero_regs\<lparr>rflags := 0x202\<rparr>)) = Inr y
    \<and> own_fields (mach y) 0x5000 INJECTED_EVENT_IDENTIFICATION = 0x80000021"
proof -
  let ?x = "exit_example (\<lambda>_. 0) (zero_regs\<lparr>rflags := 0x202\<rparr>)"
  let ?s = "exit_machine (\<lambda>_. 0) (zero_regs\<lparr>rflags := 0x202\<rparr>)"
  have m: "mach ?x = ?s" "guest_pic ?x = started" by (simp_all add: exit_example_def)
  have p: "vpic_has_pending_irq started" "fst (vpic_get_pending_irq started) = Some 0x21" by code_simp+
  obtain z where z: "get_external_irq example_env 0x5000 ?x = (0x21, z)" "mach z = ?s"
    using p(2) m by (cases "vpic_get_pending_irq started") (auto simp: example_env_def)
  have h: "has_external_irq example_env 0x5000 ?x" by (simp add: example_env_def)
  have c: "bit (rflags (regs_of (mach ?x) 0x5000)) 9" unfolding m exit_values by code_simp
  have z0: "(\<lambda>_. 0) = own_fields (mach ?x) 0x5000" unfolding m exit_values ..
  obtain y where y: "vmx_external_irqs_entry_helper example_env willing_processor 1 0x5000 ?x = Inr y"
    "moves 0x5000 (mach z) (mach y) (vcpus (mach z) 0x5000) ((own_fields (mach z) 0x5000)(INJECTED_EVENT_IDENTIFICATION := 0x80000000 OR ucast (word_of_int 0x21 :: u8)))"
    using external_irq_delivery[of willing_processor 1 "0x5000" ?x "\<lambda>_. 0" example_env "0x21" z, OF _ z0 h _ z(1)] c p(1) exit_in_guest z(2) m by auto
  have "0x80000000 OR ucast (word_of_int 0x21 :: u8) = (0x80000021 :: u64)" by code_simp
  then show ?thesis using y(1) movesD(3)[OF y(2)] by auto
qed

theorem unhandled_exit_stops_witness:
  "vmx_vm_exit_handler example_env willing_processor 1 0x5000 (exit_example ((\<lambda>_. 0)(EXIT_REASON := 48)) zero_regs) = Inl Die"
proof -
  let ?fs = "(\<lambda>_. 0)(EXIT_REASON := 48) :: fields"
  have m: "mach (exit_example ?fs zero_regs) = exit_machine ?fs zero_regs" by (simp add: exit_example_def)
  have "\<not> bit (?fs EXIT_REASON) 31" "ucast (?fs EXIT_REASON) \<notin> set own_exits \<union> set foreign_exits"
    by (simp_all add: own_exits_def foreign_exits_def exit_reason_defs)
  then show ?thesis using unhandled_exit_stops[of willing_processor 1 "0x5000" "exit_example ?fs zero_regs" ?fs example_env]
    unfolding m exit_values using exit_in_guest by blast
qed

end
