(* ===== verification/Direct_Map.thy ===== *)
theory Direct_Map
  imports Ept_Tree Phys_Mm
begin

text \<open>
  The page tables of the hypervisor: \<^verbatim>\<open>arch/x64/direct_mapping.c\<close> and \<^verbatim>\<open>arch/x64/pgtables.c\<close> with the entry formats of \<^verbatim>\<open>asm/pgtables.h\<close> and
  \<^verbatim>\<open>asm/pgtable_types.h\<close>, and the address space that \<^verbatim>\<open>arch/x64/setup.c\<close> builds. A paging structure is an array of 512 entries at the physical address of
  its page. \<open>direct_offset\<close> is the offset at which physical memory is mapped while the code runs, so that an access to a virtual address reaches the
  physical address \<open>linear\<close>. The specification is the translation by the processor (\<open>pg_walk\<close>).
\<close>

section \<open>Entries\<close>

record mapping_info =
  target_offset :: u64
  curr_offset :: u64
  ps_flags :: u64
  nops_flags :: u64

text \<open>\<open>addr_space\<close> is the word that \<^verbatim>\<open>mapping_info->addr_space\<close> points to, \<open>gb_pages\<close> the variable \<^verbatim>\<open>supports_1gb_pages\<close>.\<close>

record pg_state =
  pg_tables :: "phys_addr \<Rightarrow> nat \<Rightarrow> u64"
  pg_frames :: pf_bitmap_allocator
  addr_space :: u64
  direct_offset :: u64
  gb_pages :: bool

definition PGTABLE_PRESENT :: u64 where "PGTABLE_PRESENT = 1"
definition PGTABLE_RW :: u64 where "PGTABLE_RW = 2"
definition PGTABLE_PWT :: u64 where "PGTABLE_PWT = push_bit 3 1"
definition PGTABLE_PCD :: u64 where "PGTABLE_PCD = push_bit 4 1"

definition PML4_ENTRY_RANGE_BYTES :: u64 where "PML4_ENTRY_RANGE_BYTES = push_bit 39 1"
definition PDPT_ENTRY_RANGE_BYTES :: u64 where "PDPT_ENTRY_RANGE_BYTES = push_bit 30 1"
definition PDT_ENTRY_RANGE_BYTES :: u64 where "PDT_ENTRY_RANGE_BYTES = push_bit 21 1"
definition PT_ENTRY_RANGE_BYTES :: u64 where "PT_ENTRY_RANGE_BYTES = push_bit 12 1"

text \<open>The initial value of the variable \<^verbatim>\<open>max_phys_addr\<close>, which is not changed.\<close>

definition max_phys_addr_mask :: u64 where "max_phys_addr_mask = 0xFFFFFFFFFFFFF"

definition pgtable_entry_present :: "u64 \<Rightarrow> bool" where
  "pgtable_entry_present raw_entry \<longleftrightarrow> raw_entry AND 1 \<noteq> 0"

definition pgtable_entry_maps_page :: "u64 \<Rightarrow> bool" where
  "pgtable_entry_maps_page raw_entry \<longleftrightarrow> bit raw_entry 7"

definition eligible_for_gb_mapping :: "virt_addr \<Rightarrow> virt_addr \<Rightarrow> bool" where
  "eligible_for_gb_mapping start end' =
     (if \<not> is_aligned start (push_bit 30 1) then False
      else if end' - start < PDPT_ENTRY_RANGE_BYTES - 1 then False else True)"

definition eligible_for_mb_mapping :: "virt_addr \<Rightarrow> virt_addr \<Rightarrow> bool" where
  "eligible_for_mb_mapping start end' =
     (if \<not> is_aligned start (push_bit 21 1) then False
      else if end' - start < PDT_ENTRY_RANGE_BYTES - 1 then False else False)"

definition pml4_entry_index :: "virt_addr \<Rightarrow> nat" where "pml4_entry_index addr = unat (drop_bit 55 (push_bit 16 addr))"
definition pdpt_entry_index :: "virt_addr \<Rightarrow> nat" where "pdpt_entry_index addr = unat (drop_bit 55 (push_bit 25 addr))"
definition pdt_entry_index :: "virt_addr \<Rightarrow> nat" where "pdt_entry_index addr = unat (drop_bit 55 (push_bit 34 addr))"
definition pt_entry_index :: "virt_addr \<Rightarrow> nat" where "pt_entry_index addr = unat (drop_bit 55 (push_bit 43 addr))"

definition get_x_entry_block_end :: "virt_addr \<Rightarrow> virt_addr \<Rightarrow> u64 \<Rightarrow> virt_addr" where
  "get_x_entry_block_end start end' entry_range_bytes =
     (let last_in_entry = start OR (entry_range_bytes - 1) in if end' \<le> last_in_entry then end' else last_in_entry)"

definition read_paddr_from_cr3 :: "u64 \<Rightarrow> phys_addr" where
  "read_paddr_from_cr3 cr3 = push_bit PAGE_SHIFT (paddr_field cr3)"

definition read_paddr_from_nops_entry :: "u64 \<Rightarrow> phys_addr" where
  "read_paddr_from_nops_entry entry = push_bit PAGE_SHIFT (paddr_field entry)"

definition write_paddr_to_cr3 :: "u64 \<Rightarrow> phys_addr \<Rightarrow> u64" where
  "write_paddr_to_cr3 cr3 paddr = set_paddr_field cr3 (drop_bit PAGE_SHIFT (paddr AND max_phys_addr_mask))"

definition write_paddr_to_pml4e :: "u64 \<Rightarrow> phys_addr \<Rightarrow> u64" where
  "write_paddr_to_pml4e entry paddr = set_paddr_field entry (drop_bit PAGE_SHIFT (paddr AND max_phys_addr_mask))"

definition write_paddr_to_pdpte_nops :: "u64 \<Rightarrow> phys_addr \<Rightarrow> u64" where
  "write_paddr_to_pdpte_nops entry paddr = set_paddr_field entry (drop_bit PAGE_SHIFT (paddr AND max_phys_addr_mask))"

definition write_paddr_to_pdte_nops :: "u64 \<Rightarrow> phys_addr \<Rightarrow> u64" where
  "write_paddr_to_pdte_nops entry paddr = set_paddr_field entry (drop_bit PAGE_SHIFT (paddr AND max_phys_addr_mask))"

definition write_paddr_to_pte :: "u64 \<Rightarrow> phys_addr \<Rightarrow> u64" where
  "write_paddr_to_pte entry paddr = set_paddr_field entry (drop_bit PAGE_SHIFT (paddr AND max_phys_addr_mask))"

section \<open>Accesses\<close>

definition linear :: "pg_state \<Rightarrow> virt_addr \<Rightarrow> phys_addr" where
  "linear s va = va - direct_offset s"

text \<open>
  \<^verbatim>\<open>__get_pgtable_entry\<close>, for the table at \<open>pgtable_addr\<close>: the physical page of the entries that are reached with the current offset. An entry is then
  read or written in this page.
\<close>

definition get_pgtable :: "pg_state \<Rightarrow> mapping_info \<Rightarrow> phys_addr \<Rightarrow> phys_addr" where
  "get_pgtable s info pgtable_addr = linear s (phys_to_virt_off pgtable_addr (curr_offset info))"

definition put_entry :: "pg_state \<Rightarrow> phys_addr \<Rightarrow> nat \<Rightarrow> u64 \<Rightarrow> pg_state" where
  "put_entry s t i e = s\<lparr>pg_tables := (pg_tables s)(t := (pg_tables s t)(i := e))\<rparr>"

definition zero_pgtable_struct :: "pg_state \<Rightarrow> mapping_info \<Rightarrow> phys_addr \<Rightarrow> pg_state" where
  "zero_pgtable_struct s info paddr = s\<lparr>pg_tables := (pg_tables s)(get_pgtable s info paddr := \<lambda>_. 0)\<rparr>"

text \<open>The result is the error code and the new state.\<close>

definition init_cr3 :: "pg_state \<Rightarrow> mapping_info \<Rightarrow> (int \<times> pg_state) run" where
  "init_cr3 s info =
     andThen (get_page_raw (pg_frames s)) (\<lambda>(r, a).
       case r of None \<Rightarrow> Inr (- 1, s\<lparr>pg_frames := a\<rparr>)
       | Some paddr \<Rightarrow>
           let s = zero_pgtable_struct (s\<lparr>pg_frames := a\<rparr>) info paddr
           in Inr (0, s\<lparr>addr_space := write_paddr_to_cr3 (addr_space s) paddr\<rparr>))"

definition generic_init_nops_entry_raw :: "pg_state \<Rightarrow> phys_addr \<Rightarrow> nat \<Rightarrow> u64 \<Rightarrow> (u64 \<Rightarrow> phys_addr \<Rightarrow> u64) \<Rightarrow> (int \<times> pg_state) run" where
  "generic_init_nops_entry_raw s t i flags write_paddr =
     andThen (get_page_raw (pg_frames s)) (\<lambda>(r, a).
       case r of None \<Rightarrow> Inr (- 1, s\<lparr>pg_frames := a\<rparr>)
       | Some paddr \<Rightarrow>
           let s = s\<lparr>pg_frames := a\<rparr>;
               s = put_entry s t i (pg_tables s t i OR flags)
           in Inr (0, put_entry s t i (write_paddr (pg_tables s t i) paddr)))"

text \<open>\<^verbatim>\<open>_init_pml4_entry\<close>, \<^verbatim>\<open>_init_pdpte_nops_entry\<close> and \<^verbatim>\<open>_init_pdt_nops_entry\<close> for entry \<open>i\<close> of the page \<open>t\<close>.\<close>

definition pg_init_pml4_entry :: "pg_state \<Rightarrow> mapping_info \<Rightarrow> phys_addr \<Rightarrow> nat \<Rightarrow> (int \<times> pg_state) run" where
  "pg_init_pml4_entry s info t i =
     andThen (generic_init_nops_entry_raw s t i (nops_flags info OR PGTABLE_PRESENT) write_paddr_to_pml4e) (\<lambda>(ret, s).
       if ret \<noteq> 0 then Inr (- 1, s) else Inr (0, zero_pgtable_struct s info (read_paddr_from_nops_entry (pg_tables s t i))))"

definition pg_init_pdpte_nops_entry :: "pg_state \<Rightarrow> mapping_info \<Rightarrow> phys_addr \<Rightarrow> nat \<Rightarrow> (int \<times> pg_state) run" where
  "pg_init_pdpte_nops_entry s info t i =
     andThen (generic_init_nops_entry_raw s t i (nops_flags info OR PGTABLE_PRESENT) write_paddr_to_pdpte_nops) (\<lambda>(ret, s).
       if ret \<noteq> 0 then Inr (- 1, s) else Inr (0, zero_pgtable_struct s info (read_paddr_from_nops_entry (pg_tables s t i))))"

definition pg_init_pdt_nops_entry :: "pg_state \<Rightarrow> mapping_info \<Rightarrow> phys_addr \<Rightarrow> nat \<Rightarrow> (int \<times> pg_state) run" where
  "pg_init_pdt_nops_entry s info t i =
     andThen (generic_init_nops_entry_raw s t i (nops_flags info OR PGTABLE_PRESENT) write_paddr_to_pdte_nops) (\<lambda>(ret, s).
       if ret \<noteq> 0 then Inr (- 1, s) else Inr (0, zero_pgtable_struct s info (read_paddr_from_nops_entry (pg_tables s t i))))"

section \<open>Mapping a range\<close>

text \<open>
  The loop that the functions for the four levels share: it visits the part of the range in each entry of the table, until a part fails. Below the first level there are
  at most 512 parts; the parts of the first level are limited by the address space.
\<close>

fun range_loop :: "nat \<Rightarrow> u64 \<Rightarrow> (pg_state \<Rightarrow> virt_addr \<Rightarrow> virt_addr \<Rightarrow> (int \<times> pg_state) run) \<Rightarrow> pg_state \<Rightarrow> virt_addr \<Rightarrow> virt_addr \<Rightarrow> (int \<times> pg_state) run" where
  "range_loop 0 entry_range_bytes part s curr_vaddr_start vaddr_end = Inl Spins"
| "range_loop (Suc fuel) entry_range_bytes part s curr_vaddr_start vaddr_end =
     (if curr_vaddr_start \<le> vaddr_end then
        let curr_vaddr_end = get_x_entry_block_end curr_vaddr_start vaddr_end entry_range_bytes in
        andThen (part s curr_vaddr_start curr_vaddr_end) (\<lambda>(ret, s).
          if ret \<noteq> 0 then Inr (ret, s) else range_loop fuel entry_range_bytes part s (curr_vaddr_end + 1) vaddr_end)
      else Inr (0, s))"

definition PML4_FUEL :: nat where "PML4_FUEL = 2 ^ 25 + 1"

definition map_in_space :: "nat \<Rightarrow> u64 \<Rightarrow> mapping_info \<Rightarrow> (pg_state \<Rightarrow> virt_addr \<Rightarrow> virt_addr \<Rightarrow> (int \<times> pg_state) run) \<Rightarrow> pg_state \<Rightarrow> phys_addr \<Rightarrow> phys_addr \<Rightarrow> (int \<times> pg_state) run" where
  "map_in_space fuel entry_range_bytes info part s start end' =
     range_loop fuel entry_range_bytes part s (phys_to_virt_off start (target_offset info)) (phys_to_virt_off end' (target_offset info))"

definition pt_part :: "mapping_info \<Rightarrow> phys_addr \<Rightarrow> pg_state \<Rightarrow> virt_addr \<Rightarrow> virt_addr \<Rightarrow> (int \<times> pg_state) run" where
  "pt_part info pt_ptr s curr_vaddr_start curr_vaddr_end =
     (let i = pt_entry_index curr_vaddr_start;
          t = get_pgtable s info pt_ptr;
          entry = pg_tables s t i
      in if \<not> pgtable_entry_present entry then
           let entry = entry OR (ps_flags info OR PGTABLE_PRESENT);
               entry = write_paddr_to_pte entry (virt_to_phys_off curr_vaddr_start (target_offset info))
           in Inr (0, put_entry s t i entry)
         else Inr (0, s))"

definition pt_map_range :: "mapping_info \<Rightarrow> phys_addr \<Rightarrow> pg_state \<Rightarrow> phys_addr \<Rightarrow> phys_addr \<Rightarrow> (int \<times> pg_state) run" where
  "pt_map_range info pt_ptr s start end' = map_in_space TABLE_FUEL PT_ENTRY_RANGE_BYTES info (pt_part info pt_ptr) s start end'"

text \<open>The part of the range below an entry, which receives a structure if it has none.\<close>

definition via_structure :: "mapping_info \<Rightarrow> (pg_state \<Rightarrow> mapping_info \<Rightarrow> phys_addr \<Rightarrow> nat \<Rightarrow> (int \<times> pg_state) run)
    \<Rightarrow> (phys_addr \<Rightarrow> pg_state \<Rightarrow> phys_addr \<Rightarrow> phys_addr \<Rightarrow> (int \<times> pg_state) run) \<Rightarrow> phys_addr \<Rightarrow> nat \<Rightarrow> pg_state \<Rightarrow> virt_addr \<Rightarrow> virt_addr \<Rightarrow> (int \<times> pg_state) run" where
  "via_structure info init_entry map_range t i s curr_vaddr_start curr_vaddr_end =
     andThen (if \<not> pgtable_entry_present (pg_tables s t i) then init_entry s info t i else Inr (0, s)) (\<lambda>(ret, s).
       if ret \<noteq> 0 then Inr (ret, s)
       else map_range (read_paddr_from_nops_entry (pg_tables s t i)) s
              (virt_to_phys_off curr_vaddr_start (target_offset info)) (virt_to_phys_off curr_vaddr_end (target_offset info)))"

definition pdt_part :: "mapping_info \<Rightarrow> phys_addr \<Rightarrow> pg_state \<Rightarrow> virt_addr \<Rightarrow> virt_addr \<Rightarrow> (int \<times> pg_state) run" where
  "pdt_part info pdt_ptr s curr_vaddr_start curr_vaddr_end =
     (let i = pdt_entry_index curr_vaddr_start;
          t = get_pgtable s info pdt_ptr;
          entry = pg_tables s t i
      in if pgtable_entry_present entry \<and> pgtable_entry_maps_page entry then Inr (0, s)
         else if \<not> pgtable_entry_present entry \<and> eligible_for_mb_mapping curr_vaddr_start curr_vaddr_end then Inr (0, s)
         else via_structure info pg_init_pdt_nops_entry (pt_map_range info) t i s curr_vaddr_start curr_vaddr_end)"

definition pdt_map_range :: "mapping_info \<Rightarrow> phys_addr \<Rightarrow> pg_state \<Rightarrow> phys_addr \<Rightarrow> phys_addr \<Rightarrow> (int \<times> pg_state) run" where
  "pdt_map_range info pdt_ptr s start end' = map_in_space TABLE_FUEL PDT_ENTRY_RANGE_BYTES info (pdt_part info pdt_ptr) s start end'"

definition pdpt_part :: "mapping_info \<Rightarrow> phys_addr \<Rightarrow> pg_state \<Rightarrow> virt_addr \<Rightarrow> virt_addr \<Rightarrow> (int \<times> pg_state) run" where
  "pdpt_part info pdpt_ptr s curr_vaddr_start curr_vaddr_end =
     (let i = pdpt_entry_index curr_vaddr_start;
          t = get_pgtable s info pdpt_ptr;
          entry = pg_tables s t i;
          via_pdt = via_structure info pg_init_pdpte_nops_entry (pdt_map_range info) t i s curr_vaddr_start curr_vaddr_end
      in if \<not> gb_pages s then via_pdt
         else if pgtable_entry_present entry \<and> pgtable_entry_maps_page entry then Inr (0, s)
         else if \<not> pgtable_entry_present entry \<and> eligible_for_gb_mapping curr_vaddr_start curr_vaddr_end then Inr (0, s)
         else via_pdt)"

definition pdpt_map_range :: "mapping_info \<Rightarrow> phys_addr \<Rightarrow> pg_state \<Rightarrow> phys_addr \<Rightarrow> phys_addr \<Rightarrow> (int \<times> pg_state) run" where
  "pdpt_map_range info pdpt_ptr s start end' = map_in_space TABLE_FUEL PDPT_ENTRY_RANGE_BYTES info (pdpt_part info pdpt_ptr) s start end'"

definition pml4_part :: "mapping_info \<Rightarrow> phys_addr \<Rightarrow> pg_state \<Rightarrow> virt_addr \<Rightarrow> virt_addr \<Rightarrow> (int \<times> pg_state) run" where
  "pml4_part info pml4_ptr s curr_vaddr_start curr_vaddr_end =
     (let i = pml4_entry_index curr_vaddr_start;
          t = get_pgtable s info pml4_ptr
      in via_structure info pg_init_pml4_entry (pdpt_map_range info) t i s curr_vaddr_start curr_vaddr_end)"

definition pml4_map_range :: "mapping_info \<Rightarrow> phys_addr \<Rightarrow> pg_state \<Rightarrow> phys_addr \<Rightarrow> phys_addr \<Rightarrow> (int \<times> pg_state) run" where
  "pml4_map_range info pml4_ptr s start end' = map_in_space PML4_FUEL PML4_ENTRY_RANGE_BYTES info (pml4_part info pml4_ptr) s start end'"

definition directly_map_phys_range :: "mapping_info \<Rightarrow> pg_state \<Rightarrow> phys_addr \<Rightarrow> phys_addr \<Rightarrow> (int \<times> pg_state) run" where
  "directly_map_phys_range info s start end' =
     (let aligned_start = PAGE_ALIGN start;
          pml4_ptr = read_paddr_from_cr3 (addr_space s)
      in andThen (if pml4_ptr = 0 then init_cr3 s info else Inr (0, s)) (\<lambda>(ret, s).
           if ret \<noteq> 0 then Inr (- 1, s)
           else pml4_map_range info (read_paddr_from_cr3 (addr_space s)) s aligned_start end'))"

fun raw_setup_direct_mapping_from_memmap :: "mapping_info \<Rightarrow> pg_state \<Rightarrow> memmap_entry list \<Rightarrow> (int \<times> pg_state) run" where
  "raw_setup_direct_mapping_from_memmap info s [] = Inr (0, s)"
| "raw_setup_direct_mapping_from_memmap info s (e # mem_map) =
     (if me_type e \<noteq> MEMMAP_USABLE \<and> me_type e \<noteq> MEMMAP_HYPERVISOR \<and> me_type e \<noteq> MEMMAP_BOOTLOADER_RECLAIMABLE
      then raw_setup_direct_mapping_from_memmap info s mem_map
      else andThen (directly_map_phys_range info s (me_start e) (me_end e)) (\<lambda>(ret, s).
        if ret \<noteq> 0 then Inr (ret, s) else raw_setup_direct_mapping_from_memmap info s mem_map))"

definition phys_memory_fits :: "system_memory_info \<Rightarrow> bool" where
  "phys_memory_fits sys_mem_info =
     (let rounded_range = align_forward (total_usable_memory sys_mem_info) (ucast PAGE_SIZE);
          direct_mapping_vaddr_range = HYPERVISOR_DIRECT_MAPPING_END - HYPERVISOR_DIRECT_MAPPING_START + 1
      in rounded_range \<le> direct_mapping_vaddr_range)"

definition setup_direct_mapping_from_memmap :: "system_memory_info \<Rightarrow> mapping_info \<Rightarrow> pg_state \<Rightarrow> memmap_entry list \<Rightarrow> (int \<times> pg_state) run" where
  "setup_direct_mapping_from_memmap sys_mem_info info s mem_map =
     (if \<not> phys_memory_fits sys_mem_info then Inr (- 1, s) else raw_setup_direct_mapping_from_memmap info s mem_map)"

section \<open>Device pages and attributes\<close>

definition raw_identity_map_mmio_page :: "pg_state \<Rightarrow> phys_addr \<Rightarrow> (int \<times> pg_state) run" where
  "raw_identity_map_mmio_page s addr =
     (let info = \<lparr>target_offset = 0, curr_offset = HYPERVISOR_DIRECT_MAPPING_OFFSET, ps_flags = (PGTABLE_RW OR PGTABLE_PWT) OR PGTABLE_PCD, nops_flags = PGTABLE_RW\<rparr>
      in directly_map_phys_range info s addr (addr + PAGE_SIZE - 1))"

text \<open>The current value of the register is copied; a change of the copy is lost.\<close>

definition identity_map_mmio_page :: "pg_state \<Rightarrow> phys_addr \<Rightarrow> (int \<times> pg_state) run" where
  "identity_map_mmio_page s addr =
     andThen (raw_identity_map_mmio_page s addr) (\<lambda>(ret, t). Inr (ret, t\<lparr>addr_space := addr_space s\<rparr>))"

definition page_mod_add_attrs :: "u64 \<Rightarrow> u64 \<Rightarrow> u64" where
  "page_mod_add_attrs page_attrs attrs = page_attrs OR attrs"

definition page_mod_replace_attrs :: "u64 \<Rightarrow> u64 \<Rightarrow> u64" where
  "page_mod_replace_attrs page_attrs attrs = attrs"

text \<open>\<^verbatim>\<open>get_pgtable_entry\<close> uses the offset of the hypervisor.\<close>

definition hyv_table :: "pg_state \<Rightarrow> phys_addr \<Rightarrow> phys_addr" where
  "hyv_table s pgtable_addr = linear s (phys_to_virt pgtable_addr)"

definition modify_page_attributes :: "pg_state \<Rightarrow> virt_addr \<Rightarrow> u64 \<Rightarrow> (u64 \<Rightarrow> u64 \<Rightarrow> u64) \<Rightarrow> int \<times> pg_state" where
  "modify_page_attributes s page_start attrs mod_op =
     (let modify = (\<lambda>t i. (0, put_entry s t i (mod_op (pg_tables s t i) attrs)));
          pgtable_ptr = read_paddr_from_cr3 (addr_space s)
      in if pgtable_ptr = 0 then (- 1, s)
         else
           let entry = pg_tables s (hyv_table s pgtable_ptr) (pml4_entry_index page_start)
           in if \<not> pgtable_entry_present entry then (- 1, s)
              else
                let t = hyv_table s (read_paddr_from_nops_entry entry); i = pdpt_entry_index page_start; entry = pg_tables s t i
                in if \<not> pgtable_entry_present entry then (- 1, s)
                   else if pgtable_entry_maps_page entry then modify t i
                   else
                     let t = hyv_table s (read_paddr_from_nops_entry entry); i = pdt_entry_index page_start; entry = pg_tables s t i
                     in if \<not> pgtable_entry_present entry then (- 1, s)
                        else if pgtable_entry_maps_page entry then modify t i
                        else
                          let t = hyv_table s (read_paddr_from_nops_entry entry); i = pt_entry_index page_start; entry = pg_tables s t i
                          in if \<not> pgtable_entry_present entry then (- 1, s) else modify t i)"

section \<open>The address space of the hypervisor\<close>

text \<open>The result is whether the address space was built; \<^verbatim>\<open>write_cr3\<close> then installs it.\<close>

definition create_addr_space :: "system_memory_info \<Rightarrow> memmap_entry list \<Rightarrow> phys_addr \<Rightarrow> u64 \<Rightarrow> phys_addr \<Rightarrow> virt_addr \<Rightarrow> u64 \<Rightarrow> pg_state \<Rightarrow> (bool \<times> pg_state) run" where
  "create_addr_space sys_mem_info mem_map lapic_base early_offset paddr_hyv_region_start vaddr_hyv_region_start hyv_region_length s =
     andThen (raw_identity_map_mmio_page (s\<lparr>addr_space := 0\<rparr>) lapic_base) (\<lambda>(ret, s).
       if ret \<noteq> 0 then Inr (False, s)
       else
         let info = \<lparr>target_offset = HYPERVISOR_DIRECT_MAPPING_OFFSET, curr_offset = early_offset, ps_flags = PGTABLE_RW, nops_flags = PGTABLE_RW\<rparr> in
         andThen (setup_direct_mapping_from_memmap sys_mem_info info s mem_map) (\<lambda>(ret, s).
           if ret \<noteq> 0 then Inr (False, s)
           else
             let info = info\<lparr>target_offset := vaddr_hyv_region_start - paddr_hyv_region_start\<rparr> in
             andThen (directly_map_phys_range info s paddr_hyv_region_start (paddr_hyv_region_start + hyv_region_length - 1)) (\<lambda>(ret, s).
               Inr (ret = 0, s))))"

end
