(* ===== verification/Addr_Space.thy ===== *)
theory Addr_Space
  imports Direct_Map Frames
begin

text \<open>
  Correctness of the page tables of the hypervisor (\<open>Direct_Map\<close>). A table is identified by its depth and the upper part of the addresses it translates
  (\<open>tab\<close>); the invariant \<open>pg_ok\<close> says that no page is used as two tables. Mapping a range then changes exactly the pages of the range that had no
  translation. The last part is about the address space that the hypervisor runs in.
\<close>

section \<open>Tables and entries\<close>

definition root_of :: "pg_state \<Rightarrow> phys_addr" where
  "root_of s = read_paddr_from_cr3 (addr_space s)"

fun tab :: "(phys_addr \<Rightarrow> nat \<Rightarrow> u64) \<Rightarrow> phys_addr \<Rightarrow> nat \<Rightarrow> nat \<Rightarrow> phys_addr option" where
  "tab m r 0 k = Some r"
| "tab m r (Suc d) k = (case tab m r d (k div 512) of None \<Rightarrow> None
     | Some p \<Rightarrow> if pgtable_entry_present (m p (k mod 512)) then Some (read_paddr_from_nops_entry (m p (k mod 512))) else None)"

text \<open>The entry for a page number.\<close>

definition look :: "(phys_addr \<Rightarrow> nat \<Rightarrow> u64) \<Rightarrow> phys_addr \<Rightarrow> nat \<Rightarrow> u64 option" where
  "look m r n = (case tab m r 3 (n div 512) of None \<Rightarrow> None
     | Some p \<Rightarrow> if pgtable_entry_present (m p (n mod 512)) then Some (m p (n mod 512)) else None)"

definition tabs_apart :: "(phys_addr \<Rightarrow> nat \<Rightarrow> u64) \<Rightarrow> phys_addr \<Rightarrow> bool" where
  "tabs_apart m r \<longleftrightarrow> (\<forall>d \<le> 3. \<forall>d' \<le> 3. \<forall>k < 512 ^ d. \<forall>k' < 512 ^ d'. \<forall>p. tab m r d k = Some p \<longrightarrow> tab m r d' k' = Some p \<longrightarrow> d = d' \<and> k = k')"

lemma tabs_apartD:
  assumes "tabs_apart m r" "tab m r d k = Some p" "tab m r d' k' = Some p" "d \<le> 3" "d' \<le> 3" "k < 512 ^ d" "k' < 512 ^ d'"
  shows "d = d'" "k = k'"
  using assms unfolding tabs_apart_def by blast+

lemma div_512_less: "k < 512 ^ Suc d \<Longrightarrow> k div 512 < 512 ^ d" for k :: nat
  by (simp add: div_less_iff_less_mult mult.commute)

lemma split_512: "i < 512 \<Longrightarrow> n = 512 * k + i \<longleftrightarrow> n div 512 = k \<and> n mod 512 = i" for n :: nat
  using mult_div_mod_eq[of 512 n] by auto

lemma tab_new_table:
  assumes apart: "tabs_apart m r" and p: "tab m r d k = Some p" "d < 3" "k < 512 ^ d" "i < 512" and free: "\<not> pgtable_entry_present (m p i)"
    and e: "pgtable_entry_present e" "read_paddr_from_nops_entry e = q" and q: "\<And>d k. d \<le> 3 \<Longrightarrow> k < 512 ^ d \<Longrightarrow> tab m r d k \<noteq> Some q"
    and m': "m' = m(p := (m p)(i := e), q := \<lambda>_. 0)" and d': "d' \<le> 3" "k' < 512 ^ d'"
  shows "tab m' r d' k' = (if d' = Suc d \<and> k' = 512 * k + i then Some q else tab m r d' k')"
  using d'
proof (induction d' arbitrary: k')
  case 0
  then show ?case by simp
next
  case (Suc d')
  have "p \<noteq> q" using q[of d k] p by auto
  then have mp: "m' p j = (if j = i then e else m p j)" and mq: "m' q j = 0" and mo: "u \<noteq> p \<Longrightarrow> u \<noteq> q \<Longrightarrow> m' u = m u" for j u using m' by simp_all
  have k: "k' div 512 < 512 ^ d'" using div_512_less Suc.prems(2) by simp
  have ih: "tab m' r d' (k' div 512) = (if d' = Suc d \<and> k' div 512 = 512 * k + i then Some q else tab m r d' (k' div 512))"
    by (rule Suc.IH) (use Suc.prems(1) k in simp_all)
  show ?case
  proof (cases "d' = Suc d \<and> k' div 512 = 512 * k + i")
    case True
    have "tab m r (Suc d) (512 * k + i) = None" using p(1,4) free by simp
    then have "tab m r d' (k' div 512) = None" using True by (simp only:)
    moreover have "tab m' r d' (k' div 512) = Some q" using ih True by (simp only: simp_thms if_True)
    ultimately show ?thesis unfolding tab.simps(2) using True by (simp add: pgtable_entry_present_def mq)
  next
    case False
    have same: "tab m' r d' (k' div 512) = tab m r d' (k' div 512)" using ih if_not_P[OF False] by (rule trans)
    show ?thesis
    proof (cases "tab m r d' (k' div 512)")
      case None
      moreover have "\<not> (Suc d' = Suc d \<and> k' = 512 * k + i)" using None p by auto
      ultimately show ?thesis using same by auto
    next
      case (Some u)
      then have uq: "u \<noteq> q" using q[of d' "k' div 512"] k Suc.prems(1) by auto
      show ?thesis
      proof (cases "u = p")
        case True
        have dk: "d' = d" "k' div 512 = k" using tabs_apartD[OF apart Some[unfolded True] p(1) _ _ k p(3)] p(2) Suc.prems(1) by auto
        then have "k' = 512 * k + i \<longleftrightarrow> k' mod 512 = i" using split_512[OF p(4)] by blast
        then show ?thesis unfolding tab.simps(2) same Some True using dk(1) e by (simp add: mp)
      next
        case False
        then have "\<not> (Suc d' = Suc d \<and> k' = 512 * k + i)" using Some p by auto
        then show ?thesis unfolding tab.simps(2) same Some using mo[OF False uq] by auto
      qed
    qed
  qed
qed

lemma tab_set_page:
  assumes apart: "tabs_apart m r" and p: "tab m r 3 k = Some p" "k < 512 ^ 3" and m': "m' = m(p := (m p)(i := e))" and d': "d' \<le> 3" "k' < 512 ^ d'"
  shows "tab m' r d' k' = tab m r d' k'"
  using d'
proof (induction d' arbitrary: k')
  case (Suc d')
  have mo: "u \<noteq> p \<Longrightarrow> m' u = m u" for u using m' by simp
  have k: "k' div 512 < 512 ^ d'" using div_512_less Suc.prems(2) by simp
  have ne: "tab m r d' (k' div 512) \<noteq> Some p" using tabs_apartD(1)[OF apart _ p(1) _ _ k p(2)] Suc.prems(1) by fastforce
  have ih: "tab m' r d' (k' div 512) = tab m r d' (k' div 512)" by (rule Suc.IH) (use Suc.prems(1) k in simp_all)
  show ?case unfolding tab.simps(2) ih using ne mo by (auto split: option.splits)
qed simp

lemma page_div: "n < 2 ^ 36 \<Longrightarrow> n div 512 < 512 ^ 3" for n :: nat
  by (simp add: div_less_iff_less_mult)

lemma look_new_table:
  assumes "tabs_apart m r" "tab m r d k = Some p" "d < 3" "k < 512 ^ d" "i < 512" "\<not> pgtable_entry_present (m p i)"
    and "pgtable_entry_present e" "read_paddr_from_nops_entry e = q" and q: "\<And>d k. d \<le> 3 \<Longrightarrow> k < 512 ^ d \<Longrightarrow> tab m r d k \<noteq> Some q"
    and m': "m' = m(p := (m p)(i := e), q := \<lambda>_. 0)" and n: "n < 2 ^ 36"
  shows "look m' r n = look m r n"
proof (cases "3 = Suc d \<and> n div 512 = 512 * k + i")
  case True
  have d: "(3 :: nat) = Suc d" and k: "n div 512 = 512 * k + i" using True by simp_all
  have "tab m r (Suc d) (512 * k + i) = None" using assms(2,5,6) by simp
  then have "tab m r 3 (n div 512) = None" unfolding d k .
  moreover have "tab m' r 3 (n div 512) = Some q"
    by (subst tab_new_table[OF assms(1-10) _ page_div[OF n]]) (use True in simp_all)
  ultimately show ?thesis unfolding look_def using m' by (simp add: pgtable_entry_present_def)
next
  case False
  then have same: "tab m' r 3 (n div 512) = tab m r 3 (n div 512)"
    using tab_new_table[OF assms(1-10) _ page_div[OF n]] unfolding if_not_P[OF False] by simp
  have "u \<noteq> p \<and> u \<noteq> q" if "tab m r 3 (n div 512) = Some u" for u
    using tabs_apartD(1)[OF assms(1) that, of d k] assms(2-4) q[of 3 "n div 512"] page_div[OF n] that by auto
  then show ?thesis unfolding look_def same using m' by (auto split: option.splits)
qed

lemma look_set_page:
  assumes "tabs_apart m r" "tab m r 3 k = Some p" "k < 512 ^ 3" "m' = m(p := (m p)(i := e))" "i < 512" "pgtable_entry_present e" "n < 2 ^ 36"
  shows "look m' r n = (if n = 512 * k + i then Some e else look m r n)"
proof -
  have same: "tab m' r 3 (n div 512) = tab m r 3 (n div 512)" using tab_set_page[OF assms(1-4) _ page_div[OF assms(7)]] by simp
  have n: "n = 512 * k + i \<longleftrightarrow> n div 512 = k \<and> n mod 512 = i" by (rule split_512[OF assms(5)])
  have "u = p \<longleftrightarrow> n div 512 = k" if "tab m r 3 (n div 512) = Some u" for u
    using tabs_apartD(2)[OF assms(1) that, of 3 k] assms(2,3) page_div[OF assms(7)] that by auto
  then show ?thesis unfolding look_def same n using assms(2,4,6) by (auto split: option.splits)
qed

section \<open>Entry words\<close>

lemmas write_paddr_defs = write_paddr_to_cr3_def write_paddr_to_pml4e_def write_paddr_to_pdpte_nops_def write_paddr_to_pdte_nops_def write_paddr_to_pte_def

lemma mask_52: "max_phys_addr_mask = mask 52"
  by (simp add: max_phys_addr_mask_def mask_eq_exp_minus_1)

lemma present_bit: "pgtable_entry_present e \<longleftrightarrow> bit e 0"
  by (simp add: pgtable_entry_present_def bit_iff_odd and_one_eq odd_iff_mod_2_eq_one)

lemma bit_set_paddr: "n < 12 \<Longrightarrow> bit (set_paddr_field raw v) n = bit raw n"
  by (auto simp: set_paddr_field_def bit_simps)

lemma paddr_of_set: "paddr_field (set_paddr_field raw v) = take_bit 40 v"
  using field_set[of 0 raw v] by simp

lemma frame_field:
  assumes "f < 2 ^ 40"
  shows "push_bit PAGE_SHIFT (take_bit 40 (drop_bit PAGE_SHIFT (pfn_to_phys (of_nat f) AND max_phys_addr_mask))) = pfn_to_phys (of_nat f)"
proof -
  have "take_bit 40 (of_nat f :: u64) = of_nat f" using assms by (simp add: take_bit_of_nat take_bit_nat_eq_self)
  then have "bit (of_nat f :: u64) n \<Longrightarrow> n < 40" for n by (metis bit_take_bit_iff)
  then show ?thesis unfolding mask_52 pfn_to_phys_def U64_LSHIFT_def PAGE_SHIFT_def by (intro bit_word_eqI) (auto simp: bit_simps)
qed

definition tab_entry :: "u64 \<Rightarrow> nat \<Rightarrow> u64" where
  "tab_entry flags f = set_paddr_field (flags OR PGTABLE_PRESENT) (drop_bit PAGE_SHIFT (pfn_to_phys (of_nat f) AND max_phys_addr_mask))"

lemma tab_entry_props:
  assumes "f < 2 ^ 40"
  shows "read_paddr_from_nops_entry (tab_entry flags f) = pfn_to_phys (of_nat f)" "pgtable_entry_present (tab_entry flags f)"
    "pgtable_entry_maps_page (tab_entry flags f) = bit flags 7"
  using frame_field[OF assms]
  by (simp_all add: read_paddr_from_nops_entry_def tab_entry_def paddr_of_set present_bit pgtable_entry_maps_page_def bit_set_paddr bit_simps PGTABLE_PRESENT_def)

section \<open>The invariant\<close>

definition held :: "pf_bitmap_allocator \<Rightarrow> phys_addr set" where
  "held a = {pfn_to_phys (of_nat f) | f. f < frame_count a \<and> frame_used (bitmap a) f}"

definition frames_ok :: "pf_bitmap_allocator \<Rightarrow> bool" where
  "frames_ok a \<longleftrightarrow> alloc_ok a \<and> frame_used (bitmap a) 0 \<and> frame_count a < 2 ^ 40"

definition entry_ok :: "nat \<Rightarrow> u64 \<Rightarrow> bool" where
  "entry_ok d e \<longleftrightarrow> (if pgtable_entry_present e then d < 3 \<longrightarrow> \<not> pgtable_entry_maps_page e else e = 0)"

definition tabs_ok :: "(phys_addr \<Rightarrow> nat \<Rightarrow> u64) \<Rightarrow> phys_addr \<Rightarrow> phys_addr set \<Rightarrow> bool" where
  "tabs_ok m r H \<longleftrightarrow> tabs_apart m r \<and> (\<forall>d \<le> 3. \<forall>k < 512 ^ d. \<forall>p. tab m r d k = Some p \<longrightarrow> p \<in> H \<and> (\<forall>i < 512. entry_ok d (m p i)))"

text \<open>1 GB pages are not used: the variable \<^verbatim>\<open>supports_1gb_pages\<close> keeps its initial value.\<close>

definition pg_ok :: "pg_state \<Rightarrow> bool" where
  "pg_ok s \<longleftrightarrow> frames_ok (pg_frames s) \<and> \<not> gb_pages s \<and> root_of s \<noteq> 0 \<and> tabs_ok (pg_tables s) (root_of s) (held (pg_frames s))"

abbreviation stab :: "pg_state \<Rightarrow> nat \<Rightarrow> nat \<Rightarrow> phys_addr option" where
  "stab s d k \<equiv> tab (pg_tables s) (root_of s) d k"

abbreviation slook :: "pg_state \<Rightarrow> nat \<Rightarrow> u64 option" where
  "slook s n \<equiv> look (pg_tables s) (root_of s) n"

lemma tabs_okD:
  assumes "tabs_ok m r H" "tab m r d k = Some p" "d \<le> 3" "k < 512 ^ d"
  shows "p \<in> H" "i < 512 \<Longrightarrow> entry_ok d (m p i)"
  using assms unfolding tabs_ok_def by blast+

lemma frame_inj: "f < 2 ^ 40 \<Longrightarrow> f' < 2 ^ 40 \<Longrightarrow> pfn_to_phys (of_nat f) = pfn_to_phys (of_nat f') \<Longrightarrow> f = f'"
  using pfn_to_phys_inj by simp

lemma page_cases:
  assumes "frames_ok a"
  obtains (none) "get_page_raw a = Inr (None, a)"
  | (some) f a' where "get_page_raw a = Inr (Some (pfn_to_phys (of_nat f)), a')" "f < 2 ^ 40" "f \<noteq> 0" "pfn_to_phys (of_nat f) \<notin> held a" "frames_ok a'"
      "held a' = insert (pfn_to_phys (of_nat f)) (held a)"
proof -
  have a: "alloc_ok a" "frame_count a < 2 ^ 40" "frame_used (bitmap a) 0" using assms by (simp_all add: frames_ok_def)
  consider "get_pages_raw a 1 = Inr (None, a)"
    | f a' where "get_pages_raw a 1 = Inr (Some (pfn_to_phys (of_nat f)), a')" "area_free a (unat (1 :: u64)) f" "allocates a 1 f a'" "alloc_ok a'"
    using get_pages_raw_cases[OF a(1), of 1] by blast
  then show thesis
  proof cases
    case 1
    then show thesis using none by (simp add: get_page_raw_def)
  next
    case (2 f a')
    note g = 2(1) and fr = 2(2) and al = 2(3) and ok = 2(4)
    have f: "f < frame_count a" "\<not> frame_used (bitmap a) f" using area_freeD[OF fr, of f] by simp_all
    have fc: "frame_count a' = frame_count a" and used: "\<And>j. j < frame_count a \<Longrightarrow> frame_used (bitmap a') j \<longleftrightarrow> j = f \<or> frame_used (bitmap a) j"
      using al by (auto simp: allocates_def frame_count_def)
    have "pfn_to_phys (of_nat f) \<notin> held a"
    proof
      assume "pfn_to_phys (of_nat f) \<in> held a"
      then obtain j where "pfn_to_phys (of_nat f) = pfn_to_phys (of_nat j)" "j < frame_count a" "frame_used (bitmap a) j" unfolding held_def by blast
      then show False using frame_inj[of f j] f a(2) by simp
    qed
    moreover have "held a' = insert (pfn_to_phys (of_nat f)) (held a)" using f(1) used unfolding held_def fc by auto
    moreover have "frames_ok a'" using ok a(2,3) used[of 0] f(1) by (simp add: frames_ok_def fc)
    moreover have "f \<noteq> 0" using f(2) a(3) by metis
    ultimately show thesis using some[of f a'] g f(1) a(2) by (simp add: get_page_raw_def)
  qed
qed

section \<open>Single changes\<close>

text \<open>What every step keeps: the tables stay where they are, and addresses that have a translation keep it.\<close>

definition grows :: "pg_state \<Rightarrow> pg_state \<Rightarrow> bool" where
  "grows s t \<longleftrightarrow> pg_ok t \<and> addr_space t = addr_space s \<and> direct_offset t = direct_offset s \<and> held (pg_frames s) \<subseteq> held (pg_frames t)
     \<and> (\<forall>d \<le> 3. \<forall>k < 512 ^ d. \<forall>p. stab s d k = Some p \<longrightarrow> stab t d k = Some p)"

lemma root_same: "addr_space t = addr_space s \<Longrightarrow> root_of t = root_of s"
  by (simp add: root_of_def)

lemma new_table:
  assumes ok: "pg_ok s" and p: "stab s d k = Some p" "d < 3" "k < 512 ^ d" "i < 512" and free: "\<not> pgtable_entry_present (pg_tables s p i)"
    and f: "f < 2 ^ 40" "q = pfn_to_phys (of_nat f)" "q \<notin> held (pg_frames s)" "frames_ok a'" "held a' = insert q (held (pg_frames s))"
    and flags: "\<not> bit flags 7"
    and t: "t = s\<lparr>pg_frames := a', pg_tables := (pg_tables s)(p := (pg_tables s p)(i := tab_entry flags f), q := \<lambda>_. 0)\<rparr>"
  shows "grows s t" "stab t (Suc d) (512 * k + i) = Some q" "n < 2 ^ 36 \<Longrightarrow> slook t n = slook s n"
proof -
  let ?m = "pg_tables s" and ?r = "root_of s" and ?m' = "pg_tables t"
  have tk: "tabs_ok ?m ?r (held (pg_frames s))" and ap: "tabs_apart ?m ?r" using ok by (simp_all add: pg_ok_def tabs_ok_def)
  have r: "root_of t = ?r" using t by (simp add: root_of_def)
  have m': "?m' = ?m(p := (?m p)(i := tab_entry flags f), q := \<lambda>_. 0)" using t by simp
  have q: "tab ?m ?r d k \<noteq> Some q" if "d \<le> 3" "k < 512 ^ d" for d k using tabs_okD(1)[OF tk _ that] f(3) by blast
  note e = tab_entry_props[OF f(1), of flags]
  have T: "tab ?m' ?r d' k' = (if d' = Suc d \<and> k' = 512 * k + i then Some q else tab ?m ?r d' k')" if "d' \<le> 3" "k' < 512 ^ d'" for d' k'
    by (rule tab_new_table[OF ap p free e(2) e(1)[folded f(2)] _ m' that]) (rule q)
  show "slook t n = slook s n" if "n < 2 ^ 36" unfolding r by (rule look_new_table[OF ap p free e(2) e(1)[folded f(2)] _ m' that]) (rule q)
  have ki: "512 * k + i < 512 ^ Suc d" using p(3,4) by (simp add: less_mult_imp_div_less[of k] Suc_le_eq[symmetric] algebra_simps)
  show new: "stab t (Suc d) (512 * k + i) = Some q" unfolding r using T[OF _ ki] p(2) by simp
  have pq: "p \<noteq> q" using q[of d k] p by auto
  have which: "if u = q then d' = Suc d \<and> k' = 512 * k + i else tab ?m ?r d' k' = Some u" if "tab ?m' ?r d' k' = Some u" "d' \<le> 3" "k' < 512 ^ d'" for d' k' u
  proof (cases "d' = Suc d \<and> k' = 512 * k + i")
    case True
    have "Some u = Some q" using T[OF that(2,3), unfolded if_P[OF True]] that(1) by simp
    then show ?thesis using True by simp
  next
    case False
    have "tab ?m ?r d' k' = Some u" using T[OF that(2,3), unfolded if_not_P[OF False]] that(1) by simp
    then show ?thesis using q[OF that(2,3)] by auto
  qed
  have ap': "tabs_apart ?m' ?r"
    unfolding tabs_apart_def
  proof (intro allI impI)
    fix d1 d2 k1 k2 u assume a: "d1 \<le> 3" "d2 \<le> 3" "k1 < 512 ^ d1" "k2 < 512 ^ d2" "tab ?m' ?r d1 k1 = Some u" "tab ?m' ?r d2 k2 = Some u"
    show "d1 = d2 \<and> k1 = k2"
    proof (cases "u = q")
      case True
      then show ?thesis using which[OF a(5,1,3)] which[OF a(6,2,4)] by (simp only: if_True)
    next
      case False
      then show ?thesis using tabs_apartD[OF ap _ _ a(1-4)] which[OF a(5,1,3)] which[OF a(6,2,4)] by (simp only: if_False)
    qed
  qed
  have "u \<in> held a' \<and> (\<forall>j < 512. entry_ok d' (?m' u j))" if u: "tab ?m' ?r d' k' = Some u" "d' \<le> 3" "k' < 512 ^ d'" for u d' k'
  proof (cases "d' = Suc d \<and> k' = 512 * k + i")
    case True
    then have "u = q" using T[OF u(2,3)] u(1) by simp
    then show ?thesis using f(5) m' by (simp add: entry_ok_def pgtable_entry_present_def)
  next
    case False
    then have old: "tab ?m ?r d' k' = Some u" using T[OF u(2,3)] u(1) unfolding if_not_P[OF False] by simp
    have uq: "u \<noteq> q" using q[OF u(2,3)] old by auto
    have "entry_ok d' (?m' u j)" if "j < 512" for j
    proof (cases "u = p \<and> j = i")
      case True
      then show ?thesis using m' uq e flags by (simp add: entry_ok_def)
    next
      case False
      then have "?m' u j = ?m u j" using m' uq by auto
      then show ?thesis using tabs_okD(2)[OF tk old u(2,3) that] by simp
    qed
    then show ?thesis using tabs_okD(1)[OF tk old u(2,3)] f(5) by simp
  qed
  then have "tabs_ok ?m' ?r (held a')" using ap' unfolding tabs_ok_def by blast
  then have "pg_ok t" using ok r f(4) t by (simp add: pg_ok_def)
  moreover have "stab t d' k' = Some u" if "stab s d' k' = Some u" "d' \<le> 3" "k' < 512 ^ d'" for d' k' u
  proof -
    have ne: "\<not> (d' = Suc d \<and> k' = 512 * k + i)" using that(1) p free by auto
    show ?thesis unfolding r using T[OF that(2,3), unfolded if_not_P[OF ne]] that(1) by simp
  qed
  ultimately show "grows s t" using t f(5) by (auto simp: grows_def)
qed

lemma new_page:
  assumes ok: "pg_ok s" and p: "stab s 3 k = Some p" "k < 512 ^ 3" "i < 512" and e: "pgtable_entry_present e"
    and t: "t = s\<lparr>pg_tables := (pg_tables s)(p := (pg_tables s p)(i := e))\<rparr>"
  shows "grows s t" "n < 2 ^ 36 \<Longrightarrow> slook t n = (if n = 512 * k + i then Some e else slook s n)"
proof -
  let ?m = "pg_tables s" and ?r = "root_of s" and ?m' = "pg_tables t"
  have tk: "tabs_ok ?m ?r (held (pg_frames s))" and ap: "tabs_apart ?m ?r" using ok by (simp_all add: pg_ok_def tabs_ok_def)
  have r: "root_of t = ?r" and m': "?m' = ?m(p := (?m p)(i := e))" using t by (simp_all add: root_of_def)
  note T = tab_set_page[OF ap p(1,2) m']
  show "slook t n = (if n = 512 * k + i then Some e else slook s n)" if "n < 2 ^ 36" unfolding r by (rule look_set_page[OF ap p(1,2) m' p(3) e that])
  have "tabs_apart ?m' ?r" using ap unfolding tabs_apart_def by (simp add: T)
  moreover have "u \<in> held (pg_frames s) \<and> (\<forall>j < 512. entry_ok d' (?m' u j))" if u: "tab ?m' ?r d' k' = Some u" "d' \<le> 3" "k' < 512 ^ d'" for u d' k'
  proof -
    have old: "tab ?m ?r d' k' = Some u" using T[OF u(2,3)] u(1) by simp
    have "d' = 3" if "u = p" using tabs_apartD(1)[OF ap old _ u(2) _ u(3) p(2)] that p(1) by simp
    then show ?thesis using tabs_okD[OF tk old u(2,3)] m' e by (auto simp: entry_ok_def)
  qed
  ultimately have "tabs_ok ?m' ?r (held (pg_frames s))" unfolding tabs_ok_def by blast
  then show "grows s t" using ok r t T by (simp add: grows_def pg_ok_def)
qed

section \<open>Ranges\<close>

text \<open>Bits \<open>b\<close> to 47 of an address; \<open>upper 12\<close> is the page number. An entry at depth \<open>d\<close> covers \<open>2 ^ bits_at d\<close> bytes.\<close>

definition upper :: "nat \<Rightarrow> nat \<Rightarrow> nat" where
  "upper b a = a mod 2 ^ 48 div 2 ^ b"

definition bits_at :: "nat \<Rightarrow> nat" where
  "bits_at d = 39 - 9 * d"

definition leaf_word :: "mapping_info \<Rightarrow> nat \<Rightarrow> nat \<Rightarrow> u64" where
  "leaf_word info h n = write_paddr_to_pte (ps_flags info OR PGTABLE_PRESENT) (of_nat (h * 2 ^ 48 + n * 4096) - target_offset info)"

text \<open>The pages \<open>A\<close> to \<open>B\<close> that had no translation are mapped, or some of them if the result is an error; nothing else changes.\<close>

definition no_frame :: "pg_state \<Rightarrow> bool" where
  "no_frame s \<longleftrightarrow> get_page_raw (pg_frames s) = Inr (None, pg_frames s)"

definition pg_maps :: "mapping_info \<Rightarrow> nat \<Rightarrow> nat \<Rightarrow> nat \<Rightarrow> pg_state \<Rightarrow> int \<Rightarrow> pg_state \<Rightarrow> bool" where
  "pg_maps info h A B s r t \<longleftrightarrow> grows s t \<and> (r = 0 \<or> r = - 1 \<and> no_frame t)
     \<and> (\<forall>n < 2 ^ 36. if slook s n \<noteq> None \<or> n < A \<or> B < n then slook t n = slook s n
                    else slook t n = Some (leaf_word info h n) \<or> r \<noteq> 0 \<and> slook t n = None)"

lemma upper_add: "upper (b + c) a = upper b a div 2 ^ c"
  by (simp add: upper_def power_add div_mult2_eq)

lemma upper_less: "b \<le> 48 \<Longrightarrow> upper b a < 2 ^ (48 - b)"
  unfolding upper_def by (rule less_mult_imp_div_less) (simp flip: power_add)

lemma upper_bits: "upper b a = drop_bit b (take_bit 48 a)"
  by (simp only: upper_def take_bit_eq_mod drop_bit_eq_div)

lemma upper_mod: "b + c \<le> 48 \<Longrightarrow> upper b a mod 2 ^ c = a div 2 ^ b mod 2 ^ c"
  unfolding upper_bits take_bit_eq_mod[symmetric] drop_bit_eq_div[symmetric] by (simp add: drop_bit_take_bit)

lemma same_upper:
  assumes "a div 2 ^ b = e div 2 ^ b" "b \<le> 48"
  shows "upper b a = upper b e" "a div 2 ^ 48 = e div 2 ^ 48"
proof -
  have p: "(2 :: nat) ^ 48 = 2 ^ b * 2 ^ (48 - b)" using assms(2) by (simp flip: power_add)
  show "a div 2 ^ 48 = e div 2 ^ 48" unfolding p div_mult2_eq assms(1) ..
  have "drop_bit b a = drop_bit b e" using assms(1) by (simp only: drop_bit_eq_div)
  then show "upper b a = upper b e" unfolding upper_bits drop_bit_take_bit by simp
qed

lemma grows_refl: "pg_ok s \<Longrightarrow> grows s s"
  by (simp add: grows_def)

lemma grows_trans:
  assumes "grows s t" "grows t u"
  shows "grows s u"
  using assms unfolding grows_def by fastforce

lemma growsD:
  assumes "grows s t"
  shows "pg_ok t" "direct_offset t = direct_offset s" "root_of t = root_of s" "stab s d k = Some p \<Longrightarrow> d \<le> 3 \<Longrightarrow> k < 512 ^ d \<Longrightarrow> stab t d k = Some p"
  using assms unfolding grows_def root_of_def by (simp, simp, simp, blast)

lemma mapsD:
  assumes "pg_maps info h A B s r t"
  shows "grows s t" "r = 0 \<or> r = - 1 \<and> no_frame t" "n < 2 ^ 36 \<Longrightarrow> slook s n \<noteq> None \<or> n < A \<or> B < n \<Longrightarrow> slook t n = slook s n"
    "n < 2 ^ 36 \<Longrightarrow> slook s n = None \<Longrightarrow> A \<le> n \<Longrightarrow> n \<le> B \<Longrightarrow> slook t n = Some (leaf_word info h n) \<or> r \<noteq> 0 \<and> slook t n = None"
  using assms unfolding pg_maps_def by (auto split: if_splits)

lemma mapsI:
  assumes "grows s t" "r = 0 \<or> r = - 1 \<and> no_frame t" "\<And>n. n < 2 ^ 36 \<Longrightarrow> slook s n \<noteq> None \<or> n < A \<or> B < n \<Longrightarrow> slook t n = slook s n"
    "\<And>n. n < 2 ^ 36 \<Longrightarrow> slook s n = None \<Longrightarrow> A \<le> n \<Longrightarrow> n \<le> B \<Longrightarrow> slook t n = Some (leaf_word info h n) \<or> r \<noteq> 0 \<and> slook t n = None"
  shows "pg_maps info h A B s r t"
  using assms unfolding pg_maps_def by (simp add: not_less)

lemma maps_nothing: "pg_ok s \<Longrightarrow> no_frame s \<Longrightarrow> pg_maps info h A B s (- 1) s"
  by (rule mapsI) (simp_all add: grows_refl)

lemma maps_widen:
  assumes "pg_maps info h A B s r t" "r \<noteq> 0" "B \<le> D"
  shows "pg_maps info h A D s r t"
proof (rule mapsI)
  fix n :: nat assume n: "n < 2 ^ 36"
  show "slook t n = slook s n" if "slook s n \<noteq> None \<or> n < A \<or> D < n" using mapsD(3)[OF assms(1) n] that assms(3) by linarith
  show "slook t n = Some (leaf_word info h n) \<or> r \<noteq> 0 \<and> slook t n = None" if "slook s n = None" "A \<le> n" "n \<le> D"
    using mapsD(3,4)[OF assms(1) n] that assms(2) by (cases "n \<le> B") auto
qed (use mapsD[OF assms(1)] in auto)

lemma maps_trans:
  assumes a: "pg_maps info h A B s 0 t" and b: "pg_maps info h (Suc B) D t r u" and le: "A \<le> Suc B" "B \<le> D"
  shows "pg_maps info h A D s r u"
proof (rule mapsI)
  show "grows s u" using grows_trans[OF mapsD(1)[OF a] mapsD(1)[OF b]] .
  show "r = 0 \<or> r = - 1 \<and> no_frame u" using mapsD(2)[OF b] .
  fix n :: nat assume n: "n < 2 ^ 36"
  show "slook u n = slook s n" if "slook s n \<noteq> None \<or> n < A \<or> D < n"
  proof -
    have "slook t n = slook s n" by (rule mapsD(3)[OF a n]) (use that le in auto)
    moreover have "slook u n = slook t n" by (rule mapsD(3)[OF b n]) (use that le calculation in auto)
    ultimately show ?thesis by simp
  qed
  show "slook u n = Some (leaf_word info h n) \<or> r \<noteq> 0 \<and> slook u n = None" if o: "slook s n = None" "A \<le> n" "n \<le> D"
  proof (cases "n \<le> B")
    case True
    have "slook t n = Some (leaf_word info h n)" using mapsD(4)[OF a n o(1,2) True] by simp
    then show ?thesis using mapsD(3)[OF b n] by simp
  next
    case False
    have "slook t n = None" using mapsD(3)[OF a n] o(1) False by simp
    then show ?thesis using mapsD(4)[OF b n] False o(3) by simp
  qed
qed

lemma maps_after:
  assumes "grows s t" "\<And>n. n < 2 ^ 36 \<Longrightarrow> slook t n = slook s n" "pg_maps info h A B t r u"
  shows "pg_maps info h A B s r u"
  by (rule mapsI) (use grows_trans[OF assms(1) mapsD(1)[OF assms(3)]] assms(2) mapsD(2-4)[OF assms(3)] in simp_all)

section \<open>The loop over the entries of a table\<close>

definition info_ok :: "mapping_info \<Rightarrow> bool" where
  "info_ok info \<longleftrightarrow> unat (target_offset info) mod 4096 = 0 \<and> \<not> bit (nops_flags info) 7"

text \<open>\<open>p\<close> is the table at depth \<open>d\<close> for the upper part \<open>k\<close>, and can be accessed.\<close>

definition at_table :: "mapping_info \<Rightarrow> pg_state \<Rightarrow> nat \<Rightarrow> nat \<Rightarrow> phys_addr \<Rightarrow> bool" where
  "at_table info s d k p \<longleftrightarrow> info_ok info \<and> pg_ok s \<and> direct_offset s = curr_offset info \<and> stab s d k = Some p"

lemma at_table_grows: "at_table info s d k p \<Longrightarrow> grows s t \<Longrightarrow> d \<le> 3 \<Longrightarrow> k < 512 ^ d \<Longrightarrow> at_table info t d k p"
  using growsD by (simp add: at_table_def)

lemma upper_mono:
  assumes "a \<le> e" "a div 2 ^ 48 = e div 2 ^ 48"
  shows "upper b a \<le> upper b e"
proof -
  have "a mod 2 ^ 48 \<le> e mod 2 ^ 48" using assms by (metis mult_div_mod_eq nat_add_left_cancel_le)
  then show ?thesis unfolding upper_def by (rule div_le_mono)
qed

lemma upper_next_page:
  assumes "Suc e div 2 ^ 48 = e div 2 ^ 48" "Suc e mod 4096 = 0"
  shows "upper 12 (Suc e) = Suc (upper 12 e)"
proof -
  have "Suc e mod 2 ^ 48 = Suc (e mod 2 ^ 48)" using assms(1) by (metis add_Suc_right add_left_cancel mult_div_mod_eq)
  moreover have "Suc e mod 2 ^ 48 mod 4096 = 0" using assms(2) by (simp add: mod_mod_cancel)
  ultimately show ?thesis unfolding upper_def by (simp add: div_Suc)
qed

lemma div_sandwich: "a \<le> c \<Longrightarrow> c \<le> v \<Longrightarrow> a div m = v div m \<Longrightarrow> c div m = v div m" for a c v m :: nat
  using div_le_mono[of a c m] div_le_mono[of c v m] by simp

lemma block_last:
  fixes c m :: nat
  assumes "0 < m"
  shows "c \<le> c div m * m + (m - 1)" "(c div m * m + (m - 1)) div m = c div m"
proof -
  have "c mod m \<le> m - 1" using mod_less_divisor[OF assms, of c] by linarith
  then show "c \<le> c div m * m + (m - 1)" using div_mult_mod_eq[of c m] by linarith
  have "(c div m * m + (m - 1)) div m = c div m + (m - 1) div m" using assms by (simp only: div_mult_self3 neq0_conv)
  then show "(c div m * m + (m - 1)) div m = c div m" using assms by simp
qed

lemma x_block_end:
  assumes "b < 64"
  shows "unat (get_x_entry_block_end c v (push_bit b 1)) = min (unat v) (unat c div 2 ^ b * 2 ^ b + (2 ^ b - 1))"
proof -
  have "c OR (push_bit b 1 - 1) = get_ept_xtable_block_end c b" by (simp add: get_ept_xtable_block_end_def U64_LSHIFT_def)
  then show ?thesis using block_end[OF assms, of c] unfolding get_x_entry_block_end_def Let_def by (auto simp: word_le_nat_alt min_def)
qed

locale range_part =
  fixes d :: nat and part :: "mapping_info \<Rightarrow> phys_addr \<Rightarrow> pg_state \<Rightarrow> virt_addr \<Rightarrow> virt_addr \<Rightarrow> (int \<times> pg_state) run"
  assumes depth: "d \<le> 3"
    and part_maps: "at_table info s d k p \<Longrightarrow> unat c \<le> unat e \<Longrightarrow> unat c div 2 ^ bits_at d = unat e div 2 ^ bits_at d \<Longrightarrow> upper (bits_at d + 9) (unat c) = k
      \<Longrightarrow> unat c div 2 ^ 48 = h \<Longrightarrow> unat e < 2 ^ 64 - 1 \<Longrightarrow> \<exists>r t. part info p s c e = Inr (r, t) \<and> pg_maps info h (upper 12 (unat c)) (upper 12 (unat e)) s r t"
begin

lemma loop_maps:
  assumes "at_table info s d k p" "unat c \<le> unat v" "unat c div 2 ^ (bits_at d + 9) = unat v div 2 ^ (bits_at d + 9)" "upper (bits_at d + 9) (unat c) = k"
    and "unat c div 2 ^ 48 = h" "unat v < 2 ^ 64 - 1" "unat v div 2 ^ bits_at d - unat c div 2 ^ bits_at d + 1 < fuel"
  shows "\<exists>r t. range_loop fuel (push_bit (bits_at d) 1) (part info p) s c v = Inr (r, t) \<and> pg_maps info h (upper 12 (unat c)) (upper 12 (unat v)) s r t"
  using assms
proof (induction fuel arbitrary: s c)
  case (Suc fuel)
  let ?b = "bits_at d" and ?C = "unat c" and ?V = "unat v"
  define e where "e = get_x_entry_block_end c v (push_bit ?b 1)"
  let ?L = "?C div 2 ^ ?b * 2 ^ ?b + (2 ^ ?b - 1)"
  have b: "12 \<le> ?b" "?b + 9 \<le> 48" using depth by (simp_all add: bits_at_def)
  have E: "unat e = min ?V ?L" unfolding e_def using b by (intro x_block_end) simp
  have CL: "?C \<le> ?L" "?L div 2 ^ ?b = ?C div 2 ^ ?b" by (rule block_last, simp)+
  have CE: "?C \<le> unat e" using E CL(1) Suc.prems(2) by simp
  have block: "?C div 2 ^ ?b = unat e div 2 ^ ?b" using div_sandwich[of ?C "unat e" ?L "2 ^ ?b"] CE CL E by simp
  have top: "?V div 2 ^ 48 = h" "unat e div 2 ^ 48 = h" using same_upper(2)[OF Suc.prems(3) b(2)] same_upper(2)[OF block] b Suc.prems(5) by simp_all
  have EV: "unat e \<le> ?V" using E by simp
  then have lt: "unat e < 2 ^ 64 - 1" using Suc.prems(6) by linarith
  obtain r t where r: "part info p s c e = Inr (r, t)" and m: "pg_maps info h (upper 12 ?C) (upper 12 (unat e)) s r t"
    using part_maps[OF Suc.prems(1) CE block Suc.prems(4,5)] lt by blast
  have le: "upper 12 (unat e) \<le> upper 12 ?V" "upper 12 ?C \<le> upper 12 (unat e)" using upper_mono[OF EV] upper_mono[OF CE] top Suc.prems(5) by simp_all
  have step: "range_loop (Suc fuel) (push_bit ?b 1) (part info p) s c v
      = (if r \<noteq> 0 then Inr (r, t) else range_loop fuel (push_bit ?b 1) (part info p) t (e + 1) v)"
    using r Suc.prems(2) by (simp only: range_loop.simps e_def[symmetric] Let_def andThen_Inr word_le_nat_alt if_True prod.case)
  have e1: "unat (e + 1) = Suc (unat e)" using lt unat_add_small[of e 1] by simp
  consider "r \<noteq> 0" | "r = 0" "unat e = ?V" | "r = 0" "unat e = ?L" "?L < ?V" using E by linarith
  then show ?case
  proof cases
    case 1
    then show ?thesis using step maps_widen[OF m 1 le(1)] by auto
  next
    case 2
    obtain f where f: "fuel = Suc f" using Suc.prems(7) by (cases fuel) auto
    have "range_loop fuel (push_bit ?b 1) (part info p) t (e + 1) v = Inr (0, t)" unfolding f range_loop.simps word_le_nat_alt e1 using 2 by simp
    then show ?thesis using step m 2 by auto
  next
    case 3
    have C': "unat (e + 1) = (?C div 2 ^ ?b + 1) * 2 ^ ?b" unfolding e1 3(2) by simp
    have V: "unat (e + 1) \<le> ?V" "?C \<le> unat (e + 1)" using e1 3 CE by simp_all
    have same: "unat (e + 1) div 2 ^ (?b + 9) = ?V div 2 ^ (?b + 9)" using div_sandwich[OF V(2,1) Suc.prems(3)] .
    then have k: "upper (?b + 9) (unat (e + 1)) = k" "unat (e + 1) div 2 ^ 48 = h"
      using same_upper[OF same b(2)] same_upper[OF Suc.prems(3) b(2)] Suc.prems(4,5) by simp_all
    have klt: "k < 512 ^ d" using upper_less[of "?b + 9" ?C] Suc.prems(4) b(2) depth by (simp add: bits_at_def power_mult[of 2 9, simplified] flip: power_mult)
    have "(2 :: nat) ^ ?b = 4096 * 2 ^ (?b - 12)" using b(1) power_add[of "2 :: nat" 12 "?b - 12"] by simp
    then have "Suc (unat e) mod 4096 = 0" unfolding e1[symmetric] C' by simp
    then have next': "upper 12 (unat (e + 1)) = Suc (upper 12 (unat e))" using upper_next_page k(2) top(2) unfolding e1 by simp
    have "unat (e + 1) div 2 ^ ?b = Suc (?C div 2 ^ ?b)" unfolding C' by simp
    moreover have "Suc (?C div 2 ^ ?b) \<le> ?V div 2 ^ ?b" using div_le_mono[OF V(1), of "2 ^ ?b"] calculation by simp
    ultimately have fuel: "?V div 2 ^ ?b - unat (e + 1) div 2 ^ ?b + 1 < fuel" using Suc.prems(7) by linarith
    obtain r' u where u: "range_loop fuel (push_bit ?b 1) (part info p) t (e + 1) v = Inr (r', u)" "pg_maps info h (upper 12 (unat (e + 1))) (upper 12 ?V) t r' u"
      using Suc.IH[OF at_table_grows[OF Suc.prems(1) mapsD(1)[OF m] depth klt] V(1) same k Suc.prems(6) fuel] by blast
    show ?thesis using step 3(1) u(1) maps_trans[OF m[unfolded 3(1)] u(2)[unfolded next'] _ le(1)] le(2) by auto
  qed
qed simp

end

section \<open>The last level\<close>

lemma table_indices:
  "pml4_entry_index c = unat c div 2 ^ bits_at 0 mod 512" "pdpt_entry_index c = unat c div 2 ^ bits_at 1 mod 512"
  "pdt_entry_index c = unat c div 2 ^ bits_at 2 mod 512" "pt_entry_index c = unat c div 2 ^ bits_at 3 mod 512"
  using index_idx[of 4 c] index_idx[of 3 c] index_idx[of 2 c] index_idx[of 1 c]
  by (simp_all add: get_ept_xentry_index_def idx_def bits_at_def pml4_entry_index_def pdpt_entry_index_def pdt_entry_index_def pt_entry_index_def)

lemma at_tableD:
  assumes "at_table info s d k p" "d \<le> 3" "k < 512 ^ d"
  shows "get_pgtable s info p = p" "i < 512 \<Longrightarrow> entry_ok d (pg_tables s p i)" "p \<in> held (pg_frames s)"
  using assms tabs_okD[of "pg_tables s" "root_of s" "held (pg_frames s)" d k p]
  by (simp_all add: at_table_def pg_ok_def get_pgtable_def linear_def phys_to_virt_off_def)

lemma upper_512: "d \<le> 3 \<Longrightarrow> upper (bits_at d + 9) a < 512 ^ d"
  using upper_less[of "bits_at d + 9" a] by (simp add: bits_at_def power_mult[of "2 :: nat" 9, simplified])

lemma upper_split: "d \<le> 3 \<Longrightarrow> upper (bits_at d) a = 512 * upper (bits_at d + 9) a + a div 2 ^ bits_at d mod 512"
  using upper_mod[of "bits_at d" 9 a] upper_add[of "bits_at d" 9 a] mult_div_mod_eq[of 512 "upper (bits_at d) a"] by (simp add: bits_at_def)

lemma unat_minus_aligned:
  fixes c T :: u64
  assumes "unat T mod 4096 = 0"
  shows "unat (c - T) div 4096 = (2 ^ 52 + unat c div 4096 - unat T div 4096) mod 2 ^ 52"
proof -
  obtain t where t: "unat T = 4096 * t" using assms by (metis dvdE dvd_eq_mod_eq_0)
  have lt: "t < 2 ^ 52" using unsigned_less[of T, where 'a = nat] t by simp
  have c: "unat c div 4096 < 2 ^ 52" using unsigned_less[of c, where 'a = nat] by (simp add: div_less_iff_less_mult)
  show ?thesis
  proof (cases "T \<le> c")
    case True
    then have le: "4096 * t \<le> unat c" and "unat (c - T) = unat c - 4096 * t" using t by (simp_all add: word_le_nat_alt unat_sub)
    moreover obtain x where "unat c = 4096 * t + x" using le le_Suc_ex by blast
    ultimately show ?thesis using t c by simp
  next
    case False
    then have le: "unat c < 4096 * t" using t by (simp add: word_le_nat_alt)
    have "unat (c - T) = 2 ^ 64 + unat c - 4096 * t" using False t unat_sub_if_size[of c T] by (simp add: word_size word_le_nat_alt)
    then have "unat (c - T) = 4096 * (2 ^ 52 - t) + unat c" using lt by simp
    then have "unat (c - T) div 4096 = 2 ^ 52 - t + unat c div 4096" by simp
    moreover have "unat c div 4096 < t" using le by (simp add: div_less_iff_less_mult mult.commute)
    ultimately show ?thesis using t lt by simp
  qed
qed

lemma leaf_word_page:
  assumes "info_ok info" "unat c div 2 ^ 48 = h" "upper 12 (unat c) = n"
  shows "write_paddr_to_pte (ps_flags info OR PGTABLE_PRESENT) (c - target_offset info) = leaf_word info h n"
proof -
  let ?c = "of_nat (h * 2 ^ 48 + n * 4096) :: u64"
  have "unat c div 4096 = h * 2 ^ 36 + n"
  proof -
    have "unat c = 2 ^ 48 * h + unat c mod 2 ^ 48" using assms(2) mult_div_mod_eq[of "2 ^ 48" "unat c"] by simp
    then have "unat c div 4096 = (4096 * (2 ^ 36 * h) + unat c mod 2 ^ 48) div 4096" by simp
    then show ?thesis using assms(3) by (simp add: upper_def)
  qed
  moreover have "h * 2 ^ 48 + n * 4096 < 2 ^ 64"
  proof -
    have "h * 2 ^ 48 + n * 4096 \<le> unat c" using calculation div_times_less_eq_dividend[of "unat c" 4096] by simp
    then show ?thesis using unsigned_less[of c, where 'a = nat] by simp
  qed
  then have "unat ?c = h * 2 ^ 48 + n * 4096" by (intro unat_of_nat_small) simp
  ultimately have "unat ?c div 4096 = unat c div 4096" by (simp only:) simp
  then have "unat (c - target_offset info) div 4096 = unat (?c - target_offset info) div 4096"
    using unat_minus_aligned[of "target_offset info"] assms(1) by (simp add: info_ok_def)
  then have "drop_bit 12 (c - target_offset info) = drop_bit 12 (?c - target_offset info)" unfolding word_unat_eq_iff by (simp add: unat_drop_bit)
  then have "drop_bit PAGE_SHIFT ((c - target_offset info) AND max_phys_addr_mask) = drop_bit PAGE_SHIFT ((?c - target_offset info) AND max_phys_addr_mask)"
    by (simp add: PAGE_SHIFT_def)
  then show ?thesis by (simp add: leaf_word_def write_paddr_to_pte_def)
qed

lemma leaf_word_present: "pgtable_entry_present (leaf_word info h n)"
  by (simp add: leaf_word_def write_paddr_to_pte_def present_bit bit_set_paddr bit_simps PGTABLE_PRESENT_def)

lemma pt_part_maps:
  assumes "at_table info s 3 k p" "unat c \<le> unat e" "unat c div 2 ^ bits_at 3 = unat e div 2 ^ bits_at 3" "upper (bits_at 3 + 9) (unat c) = k"
    and "unat c div 2 ^ 48 = h"
  shows "\<exists>r t. pt_part info p s c e = Inr (r, t) \<and> pg_maps info h (upper 12 (unat c)) (upper 12 (unat e)) s r t"
proof -
  have b: "bits_at 3 = 12" by (simp add: bits_at_def)
  have klt: "k < 512 ^ 3" using upper_512[of 3 "unat c"] assms(4) by simp
  define i n where "i = unat c div 2 ^ 12 mod 512" and "n = upper 12 (unat c)"
  have n: "n = 512 * k + i" using upper_split[of 3 "unat c"] assms(4) unfolding b by (simp add: n_def i_def)
  have i: "i < 512" by (simp add: i_def)
  have same: "upper 12 (unat e) = n" using same_upper(1)[OF assms(3)] by (simp add: b n_def)
  have ok: "pg_ok s" "stab s 3 k = Some p" "info_ok info" using assms(1) by (simp_all add: at_table_def)
  note T = at_tableD[OF assms(1) _ klt, simplified]
  let ?entry = "pg_tables s p i"
  have sl: "slook s n = (if pgtable_entry_present ?entry then Some ?entry else None)" using ok(2) n i by (simp add: look_def)
  have idx: "pt_entry_index c = i" using table_indices(4)[of c] b by (simp add: i_def)
  show ?thesis
  proof (cases "pgtable_entry_present ?entry")
    case True
    then have "pt_part info p s c e = Inr (0, s)" by (simp add: pt_part_def idx T(1))
    moreover have "pg_maps info h n n s 0 s" by (rule mapsI) (use grows_refl[OF ok(1)] sl True in auto)
    ultimately show ?thesis using same by (auto simp: n_def)
  next
    case False
    then have z: "?entry = 0" using T(2)[OF i] by (simp add: entry_ok_def)
    define t where "t = s\<lparr>pg_tables := (pg_tables s)(p := (pg_tables s p)(i := leaf_word info h n))\<rparr>"
    have run: "pt_part info p s c e = Inr (0, t)"
      using False z leaf_word_page[OF ok(3) assms(5), of n] by (simp add: pt_part_def idx T(1) put_entry_def t_def n_def virt_to_phys_off_def)
    note N = new_page[OF ok(1,2) klt i leaf_word_present t_def]
    have "pg_maps info h n n s 0 t"
    proof (rule mapsI)
      fix j :: nat assume j: "j < 2 ^ 36"
      show "slook t j = slook s j" if "slook s j \<noteq> None \<or> j < n \<or> n < j" using N(2)[OF j] that sl False n by auto
      show "slook t j = Some (leaf_word info h j) \<or> (0 :: int) \<noteq> 0 \<and> slook t j = None" if "slook s j = None" "n \<le> j" "j \<le> n" using N(2)[OF j] that n by simp
    qed (use N(1) in simp_all)
    then show ?thesis using run same by (auto simp: n_def)
  qed
qed

interpretation pt: range_part 3 pt_part
  by unfold_locales (simp, rule pt_part_maps)

section \<open>The other levels\<close>

lemma init_same: "pg_init_pml4_entry = pg_init_pdt_nops_entry" "pg_init_pdpte_nops_entry = pg_init_pdt_nops_entry"
proof -
  have w: "write_paddr_to_pml4e = write_paddr_to_pdte_nops" "write_paddr_to_pdpte_nops = write_paddr_to_pdte_nops" by (simp_all add: write_paddr_defs fun_eq_iff)
  show "pg_init_pml4_entry = pg_init_pdt_nops_entry" "pg_init_pdpte_nops_entry = pg_init_pdt_nops_entry"
    by (intro ext, simp only: pg_init_pml4_entry_def pg_init_pdpte_nops_entry_def pg_init_pdt_nops_entry_def w)+
qed

lemma init_entry_cases:
  assumes "at_table info s d k p" "d < 3" "k < 512 ^ d" "i < 512" "\<not> pgtable_entry_present (pg_tables s p i)"
  obtains (none) "pg_init_pdt_nops_entry s info p i = Inr (- 1, s)" "no_frame s"
  | (new) t q where "pg_init_pdt_nops_entry s info p i = Inr (0, t)" "grows s t" "stab t (Suc d) (512 * k + i) = Some q" "\<And>n. n < 2 ^ 36 \<Longrightarrow> slook t n = slook s n"
      "read_paddr_from_nops_entry (pg_tables t p i) = q" "at_table info t (Suc d) (512 * k + i) q"
proof -
  have ok: "pg_ok s" "stab s d k = Some p" "info_ok info" "direct_offset s = curr_offset info" using assms(1) by (simp_all add: at_table_def)
  have d3: "d \<le> 3" using assms(2) by simp
  have z: "pg_tables s p i = 0" using at_tableD(2)[OF assms(1) d3 assms(3,4)] assms(5) by (simp add: entry_ok_def)
  have fr: "frames_ok (pg_frames s)" using ok(1) by (simp add: pg_ok_def)
  from fr show thesis
  proof (cases rule: page_cases)
    case none
    then show thesis using that(1) by (simp add: pg_init_pdt_nops_entry_def generic_init_nops_entry_raw_def no_frame_def)
  next
    case (some f a')
    let ?q = "pfn_to_phys (of_nat f)" and ?e = "tab_entry (nops_flags info) f"
    define t where "t = s\<lparr>pg_frames := a', pg_tables := (pg_tables s)(p := (pg_tables s p)(i := ?e), ?q := \<lambda>_. 0)\<rparr>"
    have pq: "p \<noteq> ?q" using at_tableD(3)[OF assms(1) d3 assms(3)] some(4) by auto
    have fl: "\<not> bit (nops_flags info) 7" using ok(3) by (simp add: info_ok_def)
    note N = new_table[OF ok(1,2) assms(2-5) some(2) refl some(4-6) fl t_def]
    have word: "write_paddr_to_pdte_nops (nops_flags info OR PGTABLE_PRESENT) ?q = ?e" by (simp add: write_paddr_to_pdte_nops_def tab_entry_def)
    have run: "pg_init_pdt_nops_entry s info p i = Inr (0, t)"
      using some(1) ok(4) z by (simp add: pg_init_pdt_nops_entry_def generic_init_nops_entry_raw_def put_entry_def zero_pgtable_struct_def get_pgtable_def
          linear_def phys_to_virt_off_def word tab_entry_props(1)[OF some(2)] t_def)
    have rd: "read_paddr_from_nops_entry (pg_tables t p i) = ?q" using pq by (simp add: t_def tab_entry_props(1)[OF some(2)])
    have "at_table info t (Suc d) (512 * k + i) ?q" using N(1,2) ok(3,4) growsD(1,2)[OF N(1)] by (simp add: at_table_def)
    then show thesis using that(2)[OF run N(1,2) N(3) rd] by blast
  qed
qed

text \<open>A level above another one: its parts are the ranges of the structures below its entries.\<close>

locale upper_level = lower: range_part "Suc d" lower_part for d lower_part +
  fixes part :: "mapping_info \<Rightarrow> phys_addr \<Rightarrow> pg_state \<Rightarrow> virt_addr \<Rightarrow> virt_addr \<Rightarrow> (int \<times> pg_state) run"
  assumes part_via: "at_table info s d k p \<Longrightarrow> k < 512 ^ d \<Longrightarrow> part info p s c e
      = via_structure info pg_init_pdt_nops_entry (\<lambda>q. map_in_space TABLE_FUEL (push_bit (bits_at (Suc d)) 1) info (lower_part info q)) p (unat c div 2 ^ bits_at d mod 512) s c e"
begin

lemma below_maps:
  assumes "at_table info s (Suc d) K q" "unat c \<le> unat e" "unat c div 2 ^ bits_at d = unat e div 2 ^ bits_at d" "upper (bits_at d) (unat c) = K"
    and "unat c div 2 ^ 48 = h" "unat e < 2 ^ 64 - 1"
  shows "\<exists>r t. map_in_space TABLE_FUEL (push_bit (bits_at (Suc d)) 1) info (lower_part info q) s
      (virt_to_phys_off c (target_offset info)) (virt_to_phys_off e (target_offset info)) = Inr (r, t) \<and> pg_maps info h (upper 12 (unat c)) (upper 12 (unat e)) s r t"
proof -
  have b: "bits_at d = bits_at (Suc d) + 9" using lower.depth by (simp add: bits_at_def)
  have "unat e div 2 ^ bits_at (Suc d) - unat c div 2 ^ bits_at (Suc d) + 1 < TABLE_FUEL"
  proof -
    let ?x = "unat c div 2 ^ bits_at (Suc d)" and ?y = "unat e div 2 ^ bits_at (Suc d)"
    have "?x div 512 = ?y div 512" using assms(3) unfolding b power_add by (simp add: div_mult2_eq)
    then have "?y - ?x < 512" using mult_div_mod_eq[of 512 ?x] mult_div_mod_eq[of 512 ?y] mod_less_divisor[of 512 ?y] by linarith
    then show ?thesis by (simp add: TABLE_FUEL_def)
  qed
  then show ?thesis using lower.loop_maps[OF assms(1,2) assms(3)[unfolded b] assms(4)[unfolded b] assms(5,6)]
    by (simp add: map_in_space_def phys_to_virt_off_def virt_to_phys_off_def)
qed

end

sublocale upper_level \<subseteq> range_part d part
proof
  show "d \<le> 3" using lower.depth by simp
  fix info s k p h and c e :: u64
  assume a: "at_table info s d k p" "unat c \<le> unat e" "unat c div 2 ^ bits_at d = unat e div 2 ^ bits_at d" "upper (bits_at d + 9) (unat c) = k"
    "unat c div 2 ^ 48 = h" "unat e < 2 ^ 64 - 1"
  let ?i = "unat c div 2 ^ bits_at d mod 512"
  have d: "d < 3" "d \<le> 3" using lower.depth by simp_all
  have klt: "k < 512 ^ d" using upper_512[OF d(2)] a(4) by blast
  have K: "upper (bits_at d) (unat c) = 512 * k + ?i" using upper_split[OF d(2)] a(4) by blast
  show "\<exists>r t. part info p s c e = Inr (r, t) \<and> pg_maps info h (upper 12 (unat c)) (upper 12 (unat e)) s r t"
  proof (cases "pgtable_entry_present (pg_tables s p ?i)")
    case True
    have "at_table info s (Suc d) (512 * k + ?i) (read_paddr_from_nops_entry (pg_tables s p ?i))" using a(1) True by (simp add: at_table_def)
    from below_maps[OF this a(2,3) K a(5,6)] show ?thesis using True unfolding part_via[OF a(1) klt] via_structure_def by simp
  next
    case False
    have "?i < 512" by simp
    from a(1) d(1) klt this False show ?thesis
    proof (cases rule: init_entry_cases)
      case none
      then have "part info p s c e = Inr (- 1, s)" using False unfolding part_via[OF a(1) klt] via_structure_def by simp
      then show ?thesis using maps_nothing none(2) a(1) by (auto simp: at_table_def)
    next
      case (new t q)
      obtain r u where u: "map_in_space TABLE_FUEL (push_bit (bits_at (Suc d)) 1) info (lower_part info q) t
          (virt_to_phys_off c (target_offset info)) (virt_to_phys_off e (target_offset info)) = Inr (r, u)" "pg_maps info h (upper 12 (unat c)) (upper 12 (unat e)) t r u"
        using below_maps[OF new(6) a(2,3) K a(5,6)] by blast
      have "part info p s c e = Inr (r, u)" using False new(1,5) u(1) unfolding part_via[OF a(1) klt] via_structure_def by simp
      then show ?thesis using maps_after[OF new(2) new(4) u(2)] by blast
    qed
  qed
qed

lemma level_bytes: "PT_ENTRY_RANGE_BYTES = push_bit (bits_at 3) 1" "PDT_ENTRY_RANGE_BYTES = push_bit (bits_at 2) 1" "PDPT_ENTRY_RANGE_BYTES = push_bit (bits_at 1) 1"
  "PML4_ENTRY_RANGE_BYTES = push_bit (bits_at 0) 1"
  by (simp_all add: bits_at_def PT_ENTRY_RANGE_BYTES_def PDT_ENTRY_RANGE_BYTES_def PDPT_ENTRY_RANGE_BYTES_def PML4_ENTRY_RANGE_BYTES_def)

lemma ranges_of_parts:
  "pt_map_range info = (\<lambda>q. map_in_space TABLE_FUEL (push_bit (bits_at 3) 1) info (pt_part info q))"
  "pdt_map_range info = (\<lambda>q. map_in_space TABLE_FUEL (push_bit (bits_at 2) 1) info (pdt_part info q))"
  "pdpt_map_range info = (\<lambda>q. map_in_space TABLE_FUEL (push_bit (bits_at 1) 1) info (pdpt_part info q))"
  by (intro ext, simp only: pt_map_range_def pdt_map_range_def pdpt_map_range_def level_bytes)+

lemma no_mb_pages: "\<not> eligible_for_mb_mapping c e"
  by (simp add: eligible_for_mb_mapping_def)

lemma pdt_part_via:
  assumes "at_table info s 2 k p" "k < 512 ^ 2"
  shows "pdt_part info p s c e = via_structure info pg_init_pdt_nops_entry (pt_map_range info) p (unat c div 2 ^ bits_at 2 mod 512) s c e"
proof -
  have "entry_ok 2 (pg_tables s p (unat c div 2 ^ bits_at 2 mod 512))" "get_pgtable s info p = p" using at_tableD(1,2)[OF assms(1) _ assms(2)] by simp_all
  then show ?thesis unfolding pdt_part_def Let_def table_indices(3) by (auto simp: entry_ok_def no_mb_pages)
qed

lemma pdpt_part_via:
  assumes "at_table info s 1 k p" "k < 512 ^ 1"
  shows "pdpt_part info p s c e = via_structure info pg_init_pdt_nops_entry (pdt_map_range info) p (unat c div 2 ^ bits_at 1 mod 512) s c e"
proof -
  have "get_pgtable s info p = p" "\<not> gb_pages s" using at_tableD(1)[OF assms(1) _ assms(2)] assms(1) by (simp_all add: at_table_def pg_ok_def)
  then show ?thesis unfolding pdpt_part_def Let_def table_indices(2) init_same by simp
qed

lemma pml4_part_via:
  assumes "at_table info s 0 k p" "k < 512 ^ 0"
  shows "pml4_part info p s c e = via_structure info pg_init_pdt_nops_entry (pdpt_map_range info) p (unat c div 2 ^ bits_at 0 mod 512) s c e"
  using at_tableD(1)[OF assms(1) _ assms(2)] unfolding pml4_part_def Let_def table_indices(1) init_same by simp

interpretation pt': range_part "Suc 2" pt_part
  using pt.range_part_axioms by simp

interpretation pdt: upper_level 2 pt_part pdt_part
  by unfold_locales (unfold pdt_part_via ranges_of_parts, simp add: numeral_3_eq_3)

interpretation pdt': range_part "Suc 1" pdt_part
  using pdt.range_part_axioms by (simp add: numeral_2_eq_2)

interpretation pdpt: upper_level 1 pdt_part pdpt_part
  by unfold_locales (unfold pdpt_part_via ranges_of_parts, simp add: numeral_2_eq_2)

interpretation pdpt': range_part "Suc 0" pdpt_part
  using pdpt.range_part_axioms by simp

interpretation pml4: upper_level 0 pdpt_part pml4_part
  by unfold_locales (unfold pml4_part_via ranges_of_parts, simp)

section \<open>Mapping a range of physical memory\<close>

text \<open>An address space that may not have been started yet, and the entry for a page.\<close>

definition space_ok :: "pg_state \<Rightarrow> bool" where
  "space_ok s \<longleftrightarrow> frames_ok (pg_frames s) \<and> \<not> gb_pages s \<and> (root_of s = 0 \<or> pg_ok s)"

definition page_entry :: "pg_state \<Rightarrow> nat \<Rightarrow> u64 option" where
  "page_entry s n = (if root_of s = 0 then None else slook s n)"

lemma pml4_range_maps:
  assumes "at_table info s 0 0 p" "c = phys_to_virt_off a (target_offset info)" "v = phys_to_virt_off b (target_offset info)"
    and "unat c \<le> unat v" "unat c div 2 ^ 48 = h" "unat v div 2 ^ 48 = h" "unat v < 2 ^ 64 - 1"
  shows "\<exists>r t. pml4_map_range info p s a b = Inr (r, t) \<and> pg_maps info h (upper 12 (unat c)) (upper 12 (unat v)) s r t"
proof -
  have b: "bits_at 0 + 9 = 48" by (simp add: bits_at_def)
  have "unat v div 2 ^ bits_at 0 < 2 ^ 25" using assms(7) unfolding bits_at_def by (intro less_mult_imp_div_less) simp
  then have "unat v div 2 ^ bits_at 0 - unat c div 2 ^ bits_at 0 + 1 < PML4_FUEL" by (simp add: PML4_FUEL_def)
  moreover have "upper 48 (unat c) = 0" using upper_less[of 48 "unat c"] by simp
  ultimately show ?thesis using pml4.loop_maps[OF assms(1,4) _ _ assms(5,7)] assms(5,6) unfolding b
    by (simp only: pml4_map_range_def map_in_space_def level_bytes assms(2,3))
qed

lemma empty_root:
  assumes "\<And>i. m r i = 0"
  shows "tab m r (Suc d) k = None" "look m r n = None" "r \<in> H \<Longrightarrow> tabs_ok m r H"
proof -
  have none: "tab m r (Suc d) k = None" for d k by (induction d arbitrary: k) (simp_all add: assms pgtable_entry_present_def)
  then show "tab m r (Suc d) k = None" .
  have three: "tab m r 3 k = None" for k using none[of 2 k] by (simp add: numeral_3_eq_3)
  then show "look m r n = None" by (simp add: look_def)
  have only: "d = 0" if "tab m r d k = Some p" for d k p using none that by (cases d) auto
  have "tabs_apart m r" unfolding tabs_apart_def
  proof (intro allI impI)
    fix d d' k k' p assume a: "k < 512 ^ d" "k' < 512 ^ d'" "tab m r d k = Some p" "tab m r d' k' = Some p"
    show "d = d' \<and> k = k'" using only[OF a(3)] only[OF a(4)] a(1,2) by simp
  qed
  moreover have "p \<in> H \<and> (\<forall>i < 512. entry_ok d (m p i))" if "r \<in> H" "tab m r d k = Some p" for d k p
  proof -
    have "p = r" using only[OF that(2)] that(2) by simp
    then show ?thesis using that(1) assms by (simp add: entry_ok_def pgtable_entry_present_def)
  qed
  ultimately show "r \<in> H \<Longrightarrow> tabs_ok m r H" unfolding tabs_ok_def by blast
qed

lemma init_cr3_cases:
  assumes "space_ok s" "root_of s = 0" "direct_offset s = curr_offset info"
  obtains (none) "init_cr3 s info = Inr (- 1, s)" "no_frame s"
  | (new) t where "init_cr3 s info = Inr (0, t)" "pg_ok t" "direct_offset t = direct_offset s" "\<And>n. slook t n = None"
proof -
  have "frames_ok (pg_frames s)" using assms(1) by (simp add: space_ok_def)
  then show thesis
  proof (cases rule: page_cases)
    case none
    then show thesis using that(1) by (simp add: init_cr3_def no_frame_def)
  next
    case (some f a')
    let ?q = "pfn_to_phys (of_nat f)"
    define t where "t = s\<lparr>pg_frames := a', pg_tables := (pg_tables s)(?q := \<lambda>_. 0), addr_space := write_paddr_to_cr3 (addr_space s) ?q\<rparr>"
    have run: "init_cr3 s info = Inr (0, t)"
      using some(1) assms(3) by (simp add: init_cr3_def zero_pgtable_struct_def get_pgtable_def linear_def phys_to_virt_off_def t_def)
    have r: "root_of t = ?q" using frame_field[OF some(2)] by (simp add: root_of_def t_def read_paddr_from_cr3_def write_paddr_to_cr3_def paddr_of_set)
    have z: "pg_tables t ?q i = 0" for i by (simp add: t_def)
    have "pg_ok t" using some(5,6) assms(1) empty_root(3)[of "pg_tables t" ?q "held a'", OF z] pfn_to_phys_nonzero[OF some(2,3)] r by (simp add: pg_ok_def space_ok_def t_def)
    moreover have "slook t n = None" for n using empty_root(2)[of "pg_tables t" ?q, OF z] r by simp
    ultimately show thesis using that(2)[OF run] by (simp add: t_def)
  qed
qed

lemma directly_map_run:
  assumes "space_ok s" "info_ok info" "direct_offset s = curr_offset info"
    and c: "c = phys_to_virt_off (PAGE_ALIGN start) (target_offset info)" and v: "v = phys_to_virt_off end' (target_offset info)"
    and "unat c \<le> unat v" "unat c div 2 ^ 48 = h" "unat v div 2 ^ 48 = h" "unat v < 2 ^ 64 - 1"
  shows "\<exists>r t. directly_map_phys_range info s start end' = Inr (r, t) \<and> direct_offset t = direct_offset s
    \<and> (r = 0 \<and> space_ok t \<and> root_of t \<noteq> 0
         \<and> (\<forall>n < 2 ^ 36. page_entry t n = (if page_entry s n \<noteq> None \<or> n < upper 12 (unat c) \<or> upper 12 (unat v) < n then page_entry s n else Some (leaf_word info h n)))
       \<or> r = - 1 \<and> no_frame t)"
proof -
  have main: "\<exists>r t. pml4_map_range info (read_paddr_from_cr3 (addr_space u)) u (PAGE_ALIGN start) end' = Inr (r, t) \<and> direct_offset t = direct_offset s
    \<and> (r = 0 \<and> space_ok t \<and> root_of t \<noteq> 0
         \<and> (\<forall>n < 2 ^ 36. page_entry t n = (if page_entry s n \<noteq> None \<or> n < upper 12 (unat c) \<or> upper 12 (unat v) < n then page_entry s n else Some (leaf_word info h n)))
       \<or> r = - 1 \<and> no_frame t)"
    if u: "pg_ok u" "direct_offset u = direct_offset s" "\<And>n. n < 2 ^ 36 \<Longrightarrow> slook u n = page_entry s n" for u
  proof -
    have "at_table info u 0 0 (root_of u)" using u assms(2,3) by (simp add: at_table_def)
    from pml4_range_maps[OF this c v assms(6-9)] obtain r t where r: "pml4_map_range info (root_of u) u (PAGE_ALIGN start) end' = Inr (r, t)"
      and m: "pg_maps info h (upper 12 (unat c)) (upper 12 (unat v)) u r t" by blast
    note G = growsD[OF mapsD(1)[OF m]]
    have t: "space_ok t" "root_of t \<noteq> 0" using G(1) by (simp_all add: space_ok_def pg_ok_def)
    have "page_entry t n = (if page_entry s n \<noteq> None \<or> n < upper 12 (unat c) \<or> upper 12 (unat v) < n then page_entry s n else Some (leaf_word info h n))"
      if "n < 2 ^ 36" "r = 0" for n
      using mapsD(3,4)[OF m that(1)] u(3)[OF that(1)] t(2) that(2) by (auto simp: page_entry_def)
    then show ?thesis using r t mapsD(2)[OF m] G(2) u(2) unfolding root_of_def by auto
  qed
  show ?thesis
  proof (cases "root_of s = 0")
    case False
    then have "pg_ok s" "slook s n = page_entry s n" for n using assms(1) by (simp_all add: space_ok_def page_entry_def)
    then show ?thesis using main[of s] False by (simp add: directly_map_phys_range_def Let_def root_of_def)
  next
    case True
    from assms(1) True assms(3) show ?thesis
    proof (cases rule: init_cr3_cases)
      case none
      then show ?thesis using True by (auto simp: directly_map_phys_range_def Let_def root_of_def)
    next
      case (new u)
      then show ?thesis using main[of u] True by (simp add: directly_map_phys_range_def Let_def root_of_def page_entry_def)
    qed
  qed
qed

section \<open>Translation by the processor\<close>

text \<open>The entry that translates an address, with the number of levels below it, and the physical address.\<close>

fun pg_walk :: "nat \<Rightarrow> (phys_addr \<Rightarrow> nat \<Rightarrow> u64) \<Rightarrow> phys_addr \<Rightarrow> virt_addr \<Rightarrow> (nat \<times> u64) option" where
  "pg_walk 0 m p a = None"
| "pg_walk (Suc l) m p a =
     (let e = m p (idx (Suc l) a) in
      if \<not> bit e 0 then None
      else if l = 0 \<or> l < 3 \<and> bit e 7 then Some (l, e)
      else pg_walk l m (push_bit 12 (paddr_field e)) a)"

definition translate :: "pg_state \<Rightarrow> virt_addr \<Rightarrow> phys_addr option" where
  "translate s a = (case pg_walk 4 (pg_tables s) (root_of s) a of None \<Rightarrow> None
     | Some (l, e) \<Rightarrow> Some (push_bit (9 * l + 12) (drop_bit (9 * l + 12) (push_bit 12 (paddr_field e))) OR take_bit (9 * l + 12) a))"

lemma walk_step:
  assumes "pg_ok s" "stab s d (upper (bits_at d + 9) (unat a)) = Some p" "d < 3"
  shows "pg_walk (4 - d) (pg_tables s) p a
    = (case stab s (Suc d) (upper (bits_at d) (unat a)) of None \<Rightarrow> None | Some q \<Rightarrow> pg_walk (3 - d) (pg_tables s) q a)"
proof -
  let ?k = "upper (bits_at d + 9) (unat a)" and ?i = "unat a div 2 ^ bits_at d mod 512"
  let ?e = "pg_tables s p ?i"
  have d: "d \<le> 3" using assms(3) by simp
  have l: "4 - d = Suc (3 - d)" "3 - d \<noteq> 0" using assms(3) by simp_all
  have ix: "idx (Suc (3 - d)) a = ?i" using assms(3) by (simp add: idx_def bits_at_def diff_mult_distrib2)
  have "tabs_ok (pg_tables s) (root_of s) (held (pg_frames s))" using assms(1) by (simp add: pg_ok_def)
  then have ok: "entry_ok d ?e" using tabs_okD(2)[OF _ assms(2) d upper_512[OF d]] by simp
  have st: "stab s (Suc d) (upper (bits_at d) (unat a)) = (if pgtable_entry_present ?e then Some (read_paddr_from_nops_entry ?e) else None)"
    using upper_split[OF d, of "unat a"] assms(2) by simp
  show ?thesis unfolding st l(1) pg_walk.simps ix Let_def
    using ok l(2) assms(3) by (auto simp: entry_ok_def present_bit pgtable_entry_maps_page_def read_paddr_from_nops_entry_def PAGE_SHIFT_def)
qed

lemma walk_look:
  assumes "pg_ok s"
  shows "pg_walk 4 (pg_tables s) (root_of s) a = map_option (Pair 0) (slook s (upper 12 (unat a)))"
proof -
  let ?k = "\<lambda>d. upper (bits_at d + 9) (unat a)"
  have b: "bits_at 0 = bits_at 1 + 9" "bits_at 1 = bits_at 2 + 9" "bits_at 2 = bits_at 3 + 9" "bits_at 3 = 12" by (simp_all add: bits_at_def)
  have last: "pg_walk 1 (pg_tables s) p a = (if pgtable_entry_present (pg_tables s p i) then Some (0, pg_tables s p i) else None)" if "i = unat a div 2 ^ 12 mod 512" for p i
    using that by (simp add: idx_def present_bit)
  have n: "upper 12 (unat a) div 512 = ?k 3" "upper 12 (unat a) mod 512 = unat a div 2 ^ 12 mod 512"
    using upper_split[of 3 "unat a"] b(4) by simp_all
  have s3: "map_option (Pair 0) (slook s (upper 12 (unat a))) = (case stab s 3 (?k 3) of None \<Rightarrow> None | Some q \<Rightarrow> pg_walk 1 (pg_tables s) q a)"
    unfolding look_def n using last by (simp split: option.splits)
  have w2: "pg_walk 2 (pg_tables s) p a = (case stab s 3 (?k 3) of None \<Rightarrow> None | Some q \<Rightarrow> pg_walk 1 (pg_tables s) q a)" if "stab s 2 (?k 2) = Some p" for p
    using walk_step[OF assms that] unfolding b(3) by (simp add: numeral_3_eq_3)
  have w1: "pg_walk 3 (pg_tables s) p a = (case stab s 2 (?k 2) of None \<Rightarrow> None | Some q \<Rightarrow> pg_walk 2 (pg_tables s) q a)" if "stab s 1 (?k 1) = Some p" for p
    using walk_step[OF assms that] unfolding b(2) by (simp add: numeral_2_eq_2)
  have w0: "pg_walk 4 (pg_tables s) (root_of s) a = (case stab s 1 (?k 1) of None \<Rightarrow> None | Some q \<Rightarrow> pg_walk 3 (pg_tables s) q a)"
    using walk_step[OF assms, of 0 a "root_of s"] unfolding b(1) by simp
  have up: "stab s 2 (?k 2) = None" if "stab s 1 (?k 1) = None"
  proof -
    have "?k 1 = ?k 2 div 512" using upper_add[of "bits_at 2 + 9" 9 "unat a"] unfolding b(2) by simp
    then have "stab s (Suc 1) (?k 2) = None" using that by (simp only: tab.simps option.case)
    then show ?thesis by (simp only: Suc_1)
  qed
  have up': "stab s 3 (?k 3) = None" if "stab s 2 (?k 2) = None"
  proof -
    have "?k 2 = ?k 3 div 512" using upper_add[of "bits_at 3 + 9" 9 "unat a"] unfolding b(3) by simp
    then have "stab s (Suc 2) (?k 3) = None" using that by (simp only: tab.simps option.case)
    then show ?thesis by (simp only: eval_nat_numeral)
  qed
  show ?thesis unfolding w0 s3 using w1 w2 up up' by (cases "stab s 1 (?k 1)"; cases "stab s 2 (?k 2)") auto
qed

lemma translate_entry:
  assumes "pg_ok s"
  shows "translate s a = map_option (\<lambda>e. push_bit 12 (paddr_field e) OR take_bit 12 a) (page_entry s (upper 12 (unat a)))"
proof -
  have "push_bit 12 (drop_bit 12 (push_bit 12 x)) = push_bit 12 x" for x :: u64 by (intro bit_word_eqI) (auto simp: bit_simps)
  then show ?thesis using assms unfolding translate_def walk_look[OF assms] by (cases "slook s (upper 12 (unat a))") (simp_all add: page_entry_def pg_ok_def)
qed

text \<open>A page that was mapped for a range translates to the address below the offset.\<close>

lemma leaf_translates:
  assumes "info_ok info" "unat a div 2 ^ 48 = h" "unat (a - target_offset info) < 2 ^ 52"
  shows "push_bit 12 (paddr_field (leaf_word info h (upper 12 (unat a)))) OR take_bit 12 a = a - target_offset info"
proof -
  let ?x = "a - target_offset info"
  have "take_bit 52 ?x = ?x" using assms(3) by (simp add: word_unat_eq_iff unsigned_take_bit_eq take_bit_nat_eq_self)
  then have hi: "bit ?x n \<Longrightarrow> n < 52" for n by (metis bit_take_bit_iff)
  have lo: "take_bit 12 a = take_bit 12 ?x"
  proof -
    have "unat (?x + target_offset info) = (unat ?x + unat (target_offset info)) mod 2 ^ LENGTH(64)" by (rule unat_word_ariths(1))
    then have "unat a mod 4096 = (unat ?x + unat (target_offset info)) mod 4096" by (simp add: mod_mod_cancel)
    also have "\<dots> = (unat ?x + unat (target_offset info) mod 4096) mod 4096" by (rule mod_add_right_eq[symmetric])
    also have "\<dots> = unat ?x mod 4096" using assms(1) by (simp add: info_ok_def)
    finally show ?thesis unfolding word_unat_eq_iff unsigned_take_bit_eq by (simp add: take_bit_eq_mod)
  qed
  have "paddr_field (leaf_word info h (upper 12 (unat a))) = take_bit 40 (drop_bit 12 (?x AND mask 52))"
    unfolding leaf_word_page[OF assms(1,2) refl, symmetric] write_paddr_to_pte_def paddr_of_set mask_52 PAGE_SHIFT_def ..
  then show ?thesis unfolding lo by (intro bit_word_eqI) (auto simp: bit_simps dest: hi)
qed

text \<open>Changing the attributes of a page reaches the entry that translates it; without one, nothing changes.\<close>

lemma tab_step:
  assumes "pg_ok s" "stab s d (upper (bits_at d + 9) x) = Some p" "d < 3" "i = x div 2 ^ bits_at d mod 512"
  shows "stab s (Suc d) (upper (bits_at d) x) = (if pgtable_entry_present (pg_tables s p i) then Some (read_paddr_from_nops_entry (pg_tables s p i)) else None)"
    "pgtable_entry_present (pg_tables s p i) \<Longrightarrow> \<not> pgtable_entry_maps_page (pg_tables s p i)"
proof -
  have d: "d \<le> 3" using assms(3) by simp
  have "tabs_ok (pg_tables s) (root_of s) (held (pg_frames s))" using assms(1) by (simp add: pg_ok_def)
  then show "pgtable_entry_present (pg_tables s p i) \<Longrightarrow> \<not> pgtable_entry_maps_page (pg_tables s p i)"
    using tabs_okD(2)[OF _ assms(2) d upper_512[OF d], where i = i] assms(3,4) by (auto simp: entry_ok_def)
  show "stab s (Suc d) (upper (bits_at d) x) = (if pgtable_entry_present (pg_tables s p i) then Some (read_paddr_from_nops_entry (pg_tables s p i)) else None)"
    using upper_split[OF d, of x] assms(2,4) by simp
qed

lemma modify_page_attributes_exact:
  assumes "pg_ok s" "direct_offset s = HYPERVISOR_DIRECT_MAPPING_OFFSET" "n = upper 12 (unat a)"
  shows "case slook s n of None \<Rightarrow> modify_page_attributes s a attrs mod_op = (- 1, s)
    | Some e \<Rightarrow> pgtable_entry_present (mod_op e attrs) \<longrightarrow> (\<exists>t. modify_page_attributes s a attrs mod_op = (0, t) \<and> grows s t
        \<and> (\<forall>j < 2 ^ 36. slook t j = (if j = n then Some (mod_op e attrs) else slook s j)))"
proof -
  let ?x = "unat a"
  let ?k = "\<lambda>d. upper (bits_at d + 9) ?x" and ?ix = "\<lambda>d. ?x div 2 ^ bits_at d mod 512"
  have b: "bits_at 0 = bits_at 1 + 9" "bits_at 1 = bits_at 2 + 9" "bits_at 2 = bits_at 3 + 9" "bits_at 3 = 12" by (simp_all add: bits_at_def)
  have hy: "hyv_table s p = p" for p using assms(2) by (simp add: hyv_table_def linear_def phys_to_virt_def phys_to_virt_off_def)
  have r0: "read_paddr_from_cr3 (addr_space s) = root_of s" "root_of s \<noteq> 0" using assms(1) by (simp_all add: root_of_def pg_ok_def)
  have n: "n div 512 = ?k 3" "n mod 512 = ?ix 3" "n = 512 * ?k 3 + ?ix 3" using upper_split[of 3 ?x] b(4) assms(3) by simp_all
  define e0 where "e0 = pg_tables s (root_of s) (?ix 0)"
  define p1 where "p1 = read_paddr_from_nops_entry e0"
  define e1 where "e1 = pg_tables s p1 (?ix 1)"
  define p2 where "p2 = read_paddr_from_nops_entry e1"
  define e2 where "e2 = pg_tables s p2 (?ix 2)"
  define p3 where "p3 = read_paddr_from_nops_entry e2"
  note defs = e0_def[symmetric] p1_def[symmetric] e1_def[symmetric] p2_def[symmetric] e2_def[symmetric] p3_def[symmetric]
  have run: "modify_page_attributes s a attrs mod_op = (if pgtable_entry_present e0 then if pgtable_entry_present e1 then
      if pgtable_entry_maps_page e1 then (0, put_entry s p1 (?ix 1) (mod_op e1 attrs)) else if pgtable_entry_present e2 then
      if pgtable_entry_maps_page e2 then (0, put_entry s p2 (?ix 2) (mod_op e2 attrs)) else if pgtable_entry_present (pg_tables s p3 (?ix 3))
      then (0, put_entry s p3 (?ix 3) (mod_op (pg_tables s p3 (?ix 3)) attrs)) else (- 1, s) else (- 1, s) else (- 1, s) else (- 1, s))"
    unfolding modify_page_attributes_def Let_def hy table_indices r0(1) defs using r0(2) by simp
  have t1: "stab s 1 (?k 1) = (if pgtable_entry_present e0 then Some p1 else None)"
    using tab_step(1)[OF assms(1), of 0 ?x "root_of s" "?ix 0"] unfolding b(1)[symmetric] defs by simp
  have t2: "stab s 2 (?k 2) = (if pgtable_entry_present e1 then Some p2 else None)" "pgtable_entry_present e1 \<Longrightarrow> \<not> pgtable_entry_maps_page e1" if "pgtable_entry_present e0"
    using tab_step[OF assms(1), of 1 ?x p1 "?ix 1"] t1 that unfolding b(2)[symmetric] defs by (simp_all add: numeral_2_eq_2)
  have t3: "stab s 3 (?k 3) = (if pgtable_entry_present e2 then Some p3 else None)" "pgtable_entry_present e2 \<Longrightarrow> \<not> pgtable_entry_maps_page e2"
    if "pgtable_entry_present e0" "pgtable_entry_present e1"
    using tab_step[OF assms(1), of 2 ?x p2 "?ix 2"] t2 that unfolding b(3)[symmetric] defs by (simp_all add: numeral_3_eq_3)
  show ?thesis
  proof (cases "pgtable_entry_present e0 \<and> pgtable_entry_present e1 \<and> pgtable_entry_present e2")
    case True
    then have p: "stab s 3 (?k 3) = Some p3" using t3 by simp
    have "slook s n = (if pgtable_entry_present (pg_tables s p3 (?ix 3)) then Some (pg_tables s p3 (?ix 3)) else None)" using p n by (simp add: look_def)
    moreover have "?k 3 < 512 ^ 3" using upper_512[of 3 ?x] by simp
    ultimately show ?thesis using run True t2 t3 new_page[OF assms(1) p _ _ _ refl, of "?ix 3"] n(3) by (auto simp: put_entry_def)
  next
    case False
    have "stab s 3 (?k 3) = None"
    proof -
      have up: "?k 1 = ?k 2 div 512" "?k 2 = ?k 3 div 512" using upper_add[of "bits_at 2 + 9" 9 ?x] upper_add[of "bits_at 3 + 9" 9 ?x] b by simp_all
      have s2: "stab s (Suc 1) (?k 2) = None" if "stab s 1 (?k 1) = None" using that up(1) by (simp only: tab.simps option.case)
      have s3: "stab s (Suc 2) (?k 3) = None" if "stab s 2 (?k 2) = None" using that up(2) by (simp only: tab.simps option.case)
      show ?thesis using False t1 t2(1) t3(1) s2 s3 by (cases "pgtable_entry_present e0"; cases "pgtable_entry_present e1") (simp_all add: numeral_2_eq_2 numeral_3_eq_3)
    qed
    then show ?thesis using False t2 t3 n(1) by (auto simp: look_def run)
  qed
qed

section \<open>The address space of the hypervisor\<close>

definition mappable :: "memmap_entry \<Rightarrow> bool" where
  "mappable e \<longleftrightarrow> me_type e = MEMMAP_USABLE \<or> me_type e = MEMMAP_HYPERVISOR \<or> me_type e = MEMMAP_BOOTLOADER_RECLAIMABLE"

text \<open>\<open>x\<close> is in a page that the bytes from \<open>lo\<close> to \<open>hi\<close> touch.\<close>

definition in_pages :: "nat \<Rightarrow> nat \<Rightarrow> nat \<Rightarrow> bool" where
  "in_pages x lo hi \<longleftrightarrow> lo div 4096 \<le> x div 4096 \<and> x div 4096 \<le> hi div 4096"

lemma unat_PAGE_ALIGN: "unat (PAGE_ALIGN a) = unat a div 4096 * 4096"
  using page_start[of a] by (simp add: region_def)

lemma range_bounds:
  assumes "info_ok info" "lo \<le> hi" "unat hi + unat (target_offset info) < 2 ^ 64"
  shows "unat (phys_to_virt_off (PAGE_ALIGN lo) (target_offset info)) = (unat lo + unat (target_offset info)) div 4096 * 4096"
    "unat (phys_to_virt_off hi (target_offset info)) = unat hi + unat (target_offset info)"
proof -
  obtain t where t: "unat (target_offset info) = 4096 * t" using assms(1) unfolding info_ok_def by (metis dvdE dvd_eq_mod_eq_0)
  have le: "unat lo div 4096 * 4096 \<le> unat lo" "unat lo \<le> unat hi" using assms(2) by (simp_all add: word_le_nat_alt)
  then show "unat (phys_to_virt_off hi (target_offset info)) = unat hi + unat (target_offset info)"
    using assms(3) unfolding phys_to_virt_off_def by (subst unat_add_small) simp_all
  have "unat (phys_to_virt_off (PAGE_ALIGN lo) (target_offset info)) = unat lo div 4096 * 4096 + unat (target_offset info)"
    using assms(3) le unfolding phys_to_virt_off_def by (subst unat_add_small) (simp_all add: unat_PAGE_ALIGN)
  then show "unat (phys_to_virt_off (PAGE_ALIGN lo) (target_offset info)) = (unat lo + unat (target_offset info)) div 4096 * 4096" unfolding t by simp
qed

text \<open>A canonical address is in the lower or in the upper half of the address space.\<close>

lemma canonical_half: "is_paging_canonical a \<longleftrightarrow> unat a div 2 ^ 47 = 0 \<or> unat a div 2 ^ 47 = 2 ^ 17 - 1"
  by (simp add: is_paging_canonical_def Let_def word_unat_eq_iff unat_drop_bit)

lemma half_upper:
  "x div 2 ^ 47 = 0 \<Longrightarrow> upper 12 x = x div 4096 \<and> x div 4096 < 2 ^ 35 \<and> x div 2 ^ 48 = 0"
  "x div 2 ^ 47 = 2 ^ 17 - 1 \<Longrightarrow> upper 12 x + (2 ^ 52 - 2 ^ 36) = x div 4096 \<and> 2 ^ 35 \<le> upper 12 x \<and> x div 2 ^ 48 = 2 ^ 16 - 1"
proof -
  have p: "(2 :: nat) ^ 48 = 2 ^ 47 * 2" "(2 :: nat) ^ 47 = 4096 * 2 ^ 35" by simp_all
  have d: "x div 2 ^ 48 = x div 2 ^ 47 div 2" "x div 4096 div 2 ^ 35 = x div 2 ^ 47" unfolding p div_mult2_eq by simp_all
  have u: "upper 12 x = x div 4096 mod 2 ^ 36" using upper_mod[of 12 36 x] upper_less[of 12 x] by simp
  show "upper 12 x = x div 4096 \<and> x div 4096 < 2 ^ 35 \<and> x div 2 ^ 48 = 0" if "x div 2 ^ 47 = 0"
    using that d u div_eq_0_iff[of "x div 4096" "2 ^ 35"] by simp
  show "upper 12 x + (2 ^ 52 - 2 ^ 36) = x div 4096 \<and> 2 ^ 35 \<le> upper 12 x \<and> x div 2 ^ 48 = 2 ^ 16 - 1" if "x div 2 ^ 47 = 2 ^ 17 - 1"
  proof -
    have q: "x div 4096 = 2 ^ 35 * (2 ^ 17 - 1) + x div 4096 mod 2 ^ 35" by (rule mult_div_mod_eq[of "2 ^ 35" "x div 4096", unfolded d(2) that, symmetric])
    then have "x div 4096 = 2 ^ 36 * (2 ^ 16 - 1) + (2 ^ 35 + x div 4096 mod 2 ^ 35)" by simp
    moreover have "2 ^ 35 + x div 4096 mod 2 ^ 35 < (2 :: nat) ^ 36" using mod_less_divisor[of "2 ^ 35" "x div 4096"] by simp
    ultimately have "x div 4096 mod 2 ^ 36 = 2 ^ 35 + x div 4096 mod 2 ^ 35" by (metis mod_less mod_mult_self4)
    then show ?thesis using u q d that by simp
  qed
qed

lemma half_div:
  assumes "x div 2 ^ 47 = g" "g = 0 \<or> g = 2 ^ 17 - 1"
  shows "x div 2 ^ 48 = g div 2" "x div 4096 = upper 12 x + g div 2 * 2 ^ 36" "2 ^ 35 \<le> upper 12 x \<longleftrightarrow> g \<noteq> 0"
  using half_upper[of x] assms by auto

definition ent :: "pg_state \<Rightarrow> virt_addr \<Rightarrow> u64 option" where
  "ent s a = page_entry s (upper 12 (unat a))"

lemma pages_upper:
  assumes "x div 2 ^ 47 = gx" "gx = 0 \<or> gx = 2 ^ 17 - 1" "lo div 2 ^ 47 = g" "hi div 2 ^ 47 = g" "g = 0 \<or> g = 2 ^ 17 - 1"
  shows "upper 12 (lo div 4096 * 4096) \<le> upper 12 x \<and> upper 12 x \<le> upper 12 hi \<longleftrightarrow> in_pages x lo hi" "in_pages x lo hi \<Longrightarrow> gx = g"
proof -
  define l where "l = lo div 4096 * 4096"
  have L: "l div 4096 = lo div 4096" by (simp add: l_def)
  have l: "l div 2 ^ 47 = g"
  proof -
    have p: "(2 :: nat) ^ 47 = 4096 * 2 ^ 35" by simp
    show ?thesis using assms(3) unfolding p div_mult2_eq L .
  qed
  note X = half_div[OF assms(1,2)] and A = half_div[OF l assms(5)] and B = half_div[OF assms(4,5)]
  have gg: "gx = g" if "upper 12 l \<le> upper 12 x" "upper 12 x \<le> upper 12 hi" using X(3) A(3) B(3) that assms(2,5) by linarith
  have ip: "in_pages x lo hi \<longleftrightarrow> upper 12 l + g div 2 * 2 ^ 36 \<le> upper 12 x + gx div 2 * 2 ^ 36 \<and> upper 12 x + gx div 2 * 2 ^ 36 \<le> upper 12 hi + g div 2 * 2 ^ 36"
    unfolding in_pages_def L[symmetric] X(2) A(2) B(2) ..
  show gp: "gx = g" if "in_pages x lo hi"
  proof -
    have "upper 12 y < 2 ^ 36" for y using upper_less[of 12 y] by simp
    note lt = this[of x] this[of hi] this[of l]
    show ?thesis using that[unfolded ip] assms(2,5) lt by (elim disjE) simp_all
  qed
  show "upper 12 (lo div 4096 * 4096) \<le> upper 12 x \<and> upper 12 x \<le> upper 12 hi \<longleftrightarrow> in_pages x lo hi"
    unfolding l_def[symmetric] using gg gp unfolding ip by auto
qed

text \<open>A range at an offset, in one half of the address space.\<close>

definition placed :: "mapping_info \<Rightarrow> nat \<Rightarrow> phys_addr \<Rightarrow> phys_addr \<Rightarrow> bool" where
  "placed info g lo hi \<longleftrightarrow> lo \<le> hi \<and> unat hi + unat (target_offset info) < 2 ^ 64 - 1
     \<and> (unat lo + unat (target_offset info)) div 2 ^ 47 = g \<and> (unat hi + unat (target_offset info)) div 2 ^ 47 = g"

definition touched :: "mapping_info \<Rightarrow> phys_addr \<Rightarrow> phys_addr \<Rightarrow> virt_addr \<Rightarrow> bool" where
  "touched info lo hi a \<longleftrightarrow> in_pages (unat a) (unat lo + unat (target_offset info)) (unat hi + unat (target_offset info))"

lemma directly_map_addresses:
  assumes "space_ok s" "info_ok info" "direct_offset s = curr_offset info" "placed info g lo hi" "g = 0 \<or> g = 2 ^ 17 - 1"
  shows "\<exists>r t. directly_map_phys_range info s lo hi = Inr (r, t) \<and> direct_offset t = direct_offset s
    \<and> (r = 0 \<and> space_ok t \<and> root_of t \<noteq> 0
         \<and> (\<forall>a. is_paging_canonical a \<longrightarrow> ent t a = (if ent s a \<noteq> None \<or> \<not> touched info lo hi a then ent s a else Some (leaf_word info (g div 2) (upper 12 (unat a)))))
       \<or> r = - 1 \<and> no_frame t)"
proof -
  let ?T = "unat (target_offset info)"
  define c v where "c = phys_to_virt_off (PAGE_ALIGN lo) (target_offset info)" and "v = phys_to_virt_off hi (target_offset info)"
  have pl: "lo \<le> hi" "unat hi + ?T < 2 ^ 64 - 1" "(unat lo + ?T) div 2 ^ 47 = g" "(unat hi + ?T) div 2 ^ 47 = g" using assms(4) by (simp_all add: placed_def)
  then have "unat hi + ?T < 2 ^ 64" by simp
  note cv = range_bounds[OF assms(2) pl(1) this, folded c_def v_def]
  have le: "unat c \<le> unat v" using cv pl(1) times_div_less_eq_dividend[of 4096 "unat lo + ?T"] by (simp add: word_le_nat_alt)
  have c47: "unat c div 2 ^ 47 = g"
  proof -
    have p: "(2 :: nat) ^ 47 = 4096 * 2 ^ 35" by simp
    have "(unat lo + ?T) div 4096 * 4096 div 4096 = (unat lo + ?T) div 4096" by simp
    then show ?thesis using pl(3) unfolding cv(1) p div_mult2_eq by simp
  qed
  have h: "unat c div 2 ^ 48 = g div 2" "unat v div 2 ^ 48 = g div 2" using half_div(1)[OF c47 assms(5)] half_div(1)[OF pl(4) assms(5)] cv(2) by simp_all
  have "unat v < 2 ^ 64 - 1" using cv(2) pl(2) by simp
  from directly_map_run[OF assms(1-3) c_def v_def le h this] obtain r t where run: "directly_map_phys_range info s lo hi = Inr (r, t)" "direct_offset t = direct_offset s"
    and res: "r = 0 \<and> space_ok t \<and> root_of t \<noteq> 0
         \<and> (\<forall>n < 2 ^ 36. page_entry t n = (if page_entry s n \<noteq> None \<or> n < upper 12 (unat c) \<or> upper 12 (unat v) < n then page_entry s n else Some (leaf_word info (g div 2) n)))
       \<or> r = - 1 \<and> no_frame t" by blast
  have "ent t a = (if ent s a \<noteq> None \<or> \<not> touched info lo hi a then ent s a else Some (leaf_word info (g div 2) (upper 12 (unat a))))"
    if "is_paging_canonical a" "r = 0" for a
  proof -
    let ?n = "upper 12 (unat a)"
    have n: "?n < 2 ^ 36" using upper_less[of 12 "unat a"] by simp
    have "touched info lo hi a \<longleftrightarrow> upper 12 (unat c) \<le> ?n \<and> ?n \<le> upper 12 (unat v)"
      using pages_upper(1)[OF refl that(1)[unfolded canonical_half] pl(3,4) assms(5)] cv by (simp add: touched_def)
    then have "(?n < upper 12 (unat c) \<or> upper 12 (unat v) < ?n) = (\<not> touched info lo hi a)" by auto
    then show ?thesis using res that(2) n unfolding ent_def by auto
  qed
  then show ?thesis using run res by blast
qed

definition map_covers :: "mapping_info \<Rightarrow> memmap_entry list \<Rightarrow> virt_addr \<Rightarrow> bool" where
  "map_covers info mem_map a \<longleftrightarrow> (\<exists>e \<in> set mem_map. mappable e \<and> touched info (me_start e) (me_end e) a)"

lemma memmap_addresses:
  assumes "space_ok s" "info_ok info" "direct_offset s = curr_offset info" "\<And>e. e \<in> set mem_map \<Longrightarrow> mappable e \<Longrightarrow> placed info g (me_start e) (me_end e)"
    "g = 0 \<or> g = 2 ^ 17 - 1" "root_of s \<noteq> 0"
  shows "\<exists>r t. raw_setup_direct_mapping_from_memmap info s mem_map = Inr (r, t) \<and> direct_offset t = direct_offset s
    \<and> (r = 0 \<and> space_ok t \<and> root_of t \<noteq> 0
         \<and> (\<forall>a. is_paging_canonical a \<longrightarrow> ent t a = (if ent s a \<noteq> None \<or> \<not> map_covers info mem_map a then ent s a else Some (leaf_word info (g div 2) (upper 12 (unat a)))))
       \<or> r = - 1 \<and> no_frame t)"
  using assms
proof (induction mem_map arbitrary: s)
  case Nil
  then show ?case by (simp add: map_covers_def)
next
  case (Cons e mem_map)
  show ?case
  proof (cases "mappable e")
    case False
    then show ?thesis using Cons.IH[OF Cons.prems(1-3) _ Cons.prems(5,6)] Cons.prems(4) by (auto simp: mappable_def map_covers_def)
  next
    case True
    obtain r t where r: "directly_map_phys_range info s (me_start e) (me_end e) = Inr (r, t)" "direct_offset t = direct_offset s"
      and res: "r = 0 \<and> space_ok t \<and> root_of t \<noteq> 0
         \<and> (\<forall>a. is_paging_canonical a \<longrightarrow> ent t a = (if ent s a \<noteq> None \<or> \<not> touched info (me_start e) (me_end e) a then ent s a else Some (leaf_word info (g div 2) (upper 12 (unat a)))))
       \<or> r = - 1 \<and> no_frame t"
      using directly_map_addresses[OF Cons.prems(1-3) Cons.prems(4)[OF _ True] Cons.prems(5)] by auto
    have run: "raw_setup_direct_mapping_from_memmap info s (e # mem_map) = (if r \<noteq> 0 then Inr (r, t) else raw_setup_direct_mapping_from_memmap info t mem_map)"
      using True r(1) by (auto simp: mappable_def)
    show ?thesis
    proof (cases "r = 0")
      case False
      then show ?thesis using run r res by auto
    next
      case True
      then have t: "space_ok t" "root_of t \<noteq> 0" "direct_offset t = curr_offset info" using res r(2) Cons.prems(3) by simp_all
      have "ent t a = (if ent s a \<noteq> None \<or> \<not> touched info (me_start e) (me_end e) a then ent s a else Some (leaf_word info (g div 2) (upper 12 (unat a))))"
        if "is_paging_canonical a" for a using res True that by simp
      moreover obtain r' u where u: "raw_setup_direct_mapping_from_memmap info t mem_map = Inr (r', u)" "direct_offset u = direct_offset t"
        and "r' = 0 \<and> space_ok u \<and> root_of u \<noteq> 0
         \<and> (\<forall>a. is_paging_canonical a \<longrightarrow> ent u a = (if ent t a \<noteq> None \<or> \<not> map_covers info mem_map a then ent t a else Some (leaf_word info (g div 2) (upper 12 (unat a)))))
         \<or> r' = - 1 \<and> no_frame u"
        using Cons.IH[OF t(1) Cons.prems(2) t(3) _ Cons.prems(5) t(2)] Cons.prems(4) by auto
      ultimately show ?thesis using run True r(2) \<open>mappable e\<close> by (auto simp: map_covers_def)
    qed
  qed
qed

text \<open>The mapping of the three parts.\<close>

definition lapic_info :: mapping_info where
  "lapic_info = \<lparr>target_offset = 0, curr_offset = HYPERVISOR_DIRECT_MAPPING_OFFSET, ps_flags = (PGTABLE_RW OR PGTABLE_PWT) OR PGTABLE_PCD, nops_flags = PGTABLE_RW\<rparr>"

definition memory_info :: mapping_info where
  "memory_info = \<lparr>target_offset = HYPERVISOR_DIRECT_MAPPING_OFFSET, curr_offset = HYPERVISOR_DIRECT_MAPPING_OFFSET, ps_flags = PGTABLE_RW, nops_flags = PGTABLE_RW\<rparr>"

lemma infos_ok: "info_ok lapic_info" "info_ok memory_info" "unat (v - p) mod 4096 = 0 \<Longrightarrow> info_ok (memory_info\<lparr>target_offset := v - p\<rparr>)"
  by (simp_all add: info_ok_def lapic_info_def memory_info_def PGTABLE_RW_def HYPERVISOR_DIRECT_MAPPING_OFFSET_def bit_numeral_rec)

definition inputs_ok :: "memmap_entry list \<Rightarrow> phys_addr \<Rightarrow> phys_addr \<Rightarrow> virt_addr \<Rightarrow> u64 \<Rightarrow> bool" where
  "inputs_ok mem_map lapic_base p v len \<longleftrightarrow> unat lapic_base mod 4096 = 0 \<and> unat lapic_base < 2 ^ 47
     \<and> (\<forall>e \<in> set mem_map. mappable e \<longrightarrow> me_start e \<le> me_end e \<and> unat (me_end e) < 2 ^ 47 - 1)
     \<and> 0 < unat len \<and> unat p mod 4096 = unat v mod 4096 \<and> unat p \<le> unat v \<and> 2 ^ 64 - 2 ^ 47 \<le> unat v \<and> unat v + unat len < 2 ^ 64 \<and> unat p + unat len < 2 ^ 52 - 4096"

text \<open>Where an address of the finished address space leads.\<close>

definition space_target :: "memmap_entry list \<Rightarrow> phys_addr \<Rightarrow> phys_addr \<Rightarrow> virt_addr \<Rightarrow> u64 \<Rightarrow> virt_addr \<Rightarrow> phys_addr option" where
  "space_target mem_map lapic_base p v len a =
     (if in_pages (unat a) (unat lapic_base) (unat lapic_base) then Some a
      else if HYPERVISOR_DIRECT_MAPPING_OFFSET \<le> a \<and> (\<exists>e \<in> set mem_map. mappable e \<and> in_pages (unat (virt_to_phys a)) (unat (me_start e)) (unat (me_end e))) then Some (virt_to_phys a)
      else if in_pages (unat a) (unat v) (unat v + unat len - 1) then Some (a - (v - p)) else None)"

lemma placed_parts:
  assumes "inputs_ok mem_map lapic_base p v len"
  shows "placed lapic_info 0 lapic_base (lapic_base + PAGE_SIZE - 1)" "touched lapic_info lapic_base (lapic_base + PAGE_SIZE - 1) a \<longleftrightarrow> in_pages (unat a) (unat lapic_base) (unat lapic_base)"
    "e \<in> set mem_map \<Longrightarrow> mappable e \<Longrightarrow> placed memory_info (2 ^ 17 - 1) (me_start e) (me_end e)"
    "info_ok (memory_info\<lparr>target_offset := v - p\<rparr>)" "placed (memory_info\<lparr>target_offset := v - p\<rparr>) (2 ^ 17 - 1) p (p + len - 1)"
    "touched (memory_info\<lparr>target_offset := v - p\<rparr>) p (p + len - 1) a \<longleftrightarrow> in_pages (unat a) (unat v) (unat v + unat len - 1)"
proof -
  have I: "unat lapic_base mod 4096 = 0" "unat lapic_base < 2 ^ 47" "0 < unat len" "unat p mod 4096 = unat v mod 4096" "unat p \<le> unat v" "2 ^ 64 - 2 ^ 47 \<le> unat v"
    "unat v + unat len < 2 ^ 64" "unat p + unat len < 2 ^ 52 - 4096" using assms unfolding inputs_ok_def by simp_all
  obtain b where b: "unat lapic_base = 4096 * b" using I(1) by (metis dvdE dvd_eq_mod_eq_0)
  then have blt: "b < 2 ^ 35" using I(2) by simp
  have "unat (lapic_base + 4095) = 4096 * b + 4095" using b I(2) unat_add_small[of lapic_base 4095] by simp
  moreover have "lapic_base + PAGE_SIZE - 1 = lapic_base + 4095" by (simp add: PAGE_SIZE_def)
  ultimately have le: "unat (lapic_base + PAGE_SIZE - 1) = 4096 * b + 4095" by (simp only:)
  have half: "(4096 * b + 4095) div 2 ^ 47 = 0" "4096 * b div 2 ^ 47 = 0" using blt by simp_all
  show "placed lapic_info 0 lapic_base (lapic_base + PAGE_SIZE - 1)" using le b half blt by (simp add: placed_def lapic_info_def word_le_nat_alt)
  show "touched lapic_info lapic_base (lapic_base + PAGE_SIZE - 1) a \<longleftrightarrow> in_pages (unat a) (unat lapic_base) (unat lapic_base)"
    using le b by (simp add: touched_def lapic_info_def in_pages_def)
  show "placed memory_info (2 ^ 17 - 1) (me_start e) (me_end e)" if "e \<in> set mem_map" "mappable e"
  proof -
    have e: "unat (me_start e) \<le> unat (me_end e)" "unat (me_end e) < 2 ^ 47 - 1" using assms that unfolding inputs_ok_def by (auto simp: word_le_nat_alt)
    have "(x + (2 ^ 64 - 2 ^ 47)) div 2 ^ 47 = 2 ^ 17 - 1" if "x < 2 ^ 47" for x :: nat
    proof -
      have "x + (2 ^ 64 - 2 ^ 47) = 2 ^ 47 * (2 ^ 17 - 1) + x" by simp
      then show ?thesis using that by (simp only: div_mult_self4) simp
    qed
    from this[of "unat (me_start e)"] this[of "unat (me_end e)"] show ?thesis using e
      by (simp add: placed_def memory_info_def HYPERVISOR_DIRECT_MAPPING_OFFSET_def word_le_nat_alt)
  qed
  have T: "unat (v - p) = unat v - unat p" using I(5) by (simp add: unat_sub word_le_nat_alt)
  have hi: "unat (p + len - 1) = unat p + unat len - 1"
  proof -
    have "unat (p + len) = unat p + unat len" using I(8) by (intro unat_add_small) simp
    then show ?thesis using I(3) unat_sub[of 1 "p + len"] by (simp add: word_le_nat_alt)
  qed
  have "(unat v - unat p) mod 4096 = 0" using I(4,5) using mod_eq_dvd_iff_nat[of "unat p" "unat v" 4096] by (simp add: mod_eq_0_iff_dvd)
  then show "info_ok (memory_info\<lparr>target_offset := v - p\<rparr>)" using infos_ok(3) T by simp
  have up: "y div 2 ^ 47 = 2 ^ 17 - 1" if "2 ^ 64 - 2 ^ 47 \<le> y" "y < 2 ^ 64" for y :: nat
  proof -
    have "y = 2 ^ 47 * (2 ^ 17 - 1) + (y - (2 ^ 64 - 2 ^ 47))" using that by simp
    moreover have "y - (2 ^ 64 - 2 ^ 47) < 2 ^ 47" using that by simp
    ultimately show ?thesis by (metis div_mult_self4 div_less add.right_neutral zero_neq_numeral power_not_zero)
  qed
  show "placed (memory_info\<lparr>target_offset := v - p\<rparr>) (2 ^ 17 - 1) p (p + len - 1)"
  proof -
    have sums: "unat (p + len - 1) + unat (v - p) = unat v + unat len - 1" "unat p + unat (v - p) = unat v" using T hi I(3,5) by linarith+
    have "unat v + unat len - 1 < 2 ^ 64 - 1" "2 ^ 64 - 2 ^ 47 \<le> unat v + unat len - 1" "unat v + unat len - 1 < 2 ^ 64" using I(3,6,7) by linarith+
    moreover have "p \<le> p + len - 1" using hi I(3) unfolding word_le_nat_alt by linarith
    moreover have "unat v div 2 ^ 47 = 2 ^ 17 - 1" using up[OF I(6)] I(7) by linarith
    moreover have tt: "target_offset (memory_info\<lparr>target_offset := v - p\<rparr>) = v - p" by simp
    ultimately show ?thesis using up[of "unat v + unat len - 1"] unfolding placed_def tt sums by blast
  qed
  show "touched (memory_info\<lparr>target_offset := v - p\<rparr>) p (p + len - 1) a \<longleftrightarrow> in_pages (unat a) (unat v) (unat v + unat len - 1)"
    using T hi I(3,5) by (simp add: touched_def add.commute)
qed

lemma lapic_end: "inputs_ok mem_map lapic_base p v len \<Longrightarrow> unat (lapic_base + PAGE_SIZE - 1) < 2 ^ 52 - 4096"
proof -
  assume a: "inputs_ok mem_map lapic_base p v len"
  have "unat (lapic_base + 4095) = unat lapic_base + 4095" using a unat_add_small[of lapic_base 4095] by (simp add: inputs_ok_def)
  moreover have "lapic_base + PAGE_SIZE - 1 = lapic_base + 4095" by (simp add: PAGE_SIZE_def)
  ultimately have "unat (lapic_base + PAGE_SIZE - 1) = unat lapic_base + 4095" by (simp only:)
  then show ?thesis using a by (simp add: inputs_ok_def)
qed

lemma hyv_end: "inputs_ok mem_map lapic_base p v len \<Longrightarrow> unat (p + len - 1) < 2 ^ 52 - 4096"
proof -
  assume a: "inputs_ok mem_map lapic_base p v len"
  then have i: "0 < unat len" "unat p + unat len < 2 ^ 52 - 4096" unfolding inputs_ok_def by simp_all
  have "unat (p + len) = unat p + unat len" using i(2) by (intro unat_add_small) simp
  then show ?thesis using i unat_sub[of 1 "p + len"] by (simp add: word_le_nat_alt)
qed

lemma memory_covers:
  assumes "is_paging_canonical a" "inputs_ok mem_map lapic_base p v len"
  shows "map_covers memory_info mem_map a \<longleftrightarrow> HYPERVISOR_DIRECT_MAPPING_OFFSET \<le> a
    \<and> (\<exists>e \<in> set mem_map. mappable e \<and> in_pages (unat (virt_to_phys a)) (unat (me_start e)) (unat (me_end e)))"
proof -
  let ?O = "2 ^ 64 - 2 ^ 47 :: nat"
  have off: "unat HYPERVISOR_DIRECT_MAPPING_OFFSET = ?O" by (simp add: HYPERVISOR_DIRECT_MAPPING_OFFSET_def)
  have "touched memory_info (me_start e) (me_end e) a \<longleftrightarrow> HYPERVISOR_DIRECT_MAPPING_OFFSET \<le> a \<and> in_pages (unat (virt_to_phys a)) (unat (me_start e)) (unat (me_end e))"
    if "e \<in> set mem_map" "mappable e" for e
  proof (cases "HYPERVISOR_DIRECT_MAPPING_OFFSET \<le> a")
    case True
    then have le: "?O \<le> unat a" using off by (simp add: word_le_nat_alt)
    have "unat (virt_to_phys a) = unat a - ?O" using True off by (simp add: virt_to_phys_def virt_to_phys_off_def unat_sub)
    moreover have "(x + ?O) div 4096 = x div 4096 + (2 ^ 52 - 2 ^ 35)" for x :: nat
    proof -
      have "x + ?O = x + (2 ^ 52 - 2 ^ 35) * 4096" by simp
      then show ?thesis by (simp only: div_mult_self1)
    qed
    moreover have "unat a = (unat a - ?O) + ?O" using le by simp
    ultimately have "in_pages (unat a) (unat (me_start e) + ?O) (unat (me_end e) + ?O) \<longleftrightarrow> in_pages (unat (virt_to_phys a)) (unat (me_start e)) (unat (me_end e))"
      unfolding in_pages_def by (metis add_le_cancel_right)
    then show ?thesis using True off by (simp add: touched_def memory_info_def)
  next
    case False
    have "unat a div 4096 < (2 ^ 64 - 2 ^ 47) div 4096" using False off by (simp add: word_le_nat_alt div_less_iff_less_mult)
    also have "\<dots> \<le> (unat (me_start e) + ?O) div 4096" by (rule div_le_mono) simp
    finally show ?thesis using False off by (simp add: touched_def memory_info_def in_pages_def)
  qed
  then show ?thesis unfolding map_covers_def by blast
qed

lemma page_leaf_target:
  assumes "info_ok info" "g = 0 \<or> g = 2 ^ 17 - 1" "placed info g lo hi" "is_paging_canonical a" "touched info lo hi a" "unat hi < 2 ^ 52 - 4096"
  shows "push_bit 12 (paddr_field (leaf_word info (g div 2) (upper 12 (unat a)))) OR take_bit 12 a = a - target_offset info"
proof -
  let ?T = "unat (target_offset info)"
  have pl: "lo \<le> hi" "unat hi + ?T < 2 ^ 64 - 1" "(unat lo + ?T) div 2 ^ 47 = g" "(unat hi + ?T) div 2 ^ 47 = g" using assms(3) by (simp_all add: placed_def)
  have ip: "in_pages (unat a) (unat lo + ?T) (unat hi + ?T)" using assms(5) by (simp add: touched_def)
  have g: "unat a div 2 ^ 47 = g" using pages_upper(2)[OF refl assms(4)[unfolded canonical_half] pl(3,4) assms(2) ip] .
  obtain t where t: "?T = 4096 * t" using assms(1) unfolding info_ok_def by (metis dvdE dvd_eq_mod_eq_0)
  have r: "unat lo div 4096 + t \<le> unat a div 4096" "unat a div 4096 \<le> unat hi div 4096 + t" using ip unfolding in_pages_def t by simp_all
  have "?T \<le> unat a" using r(1) t times_div_less_eq_dividend[of 4096 "unat a"] by linarith
  then have "unat (a - target_offset info) = unat a - ?T" by (simp add: unat_sub word_le_nat_alt)
  moreover have "unat a < unat hi + ?T + 4096"
    using r(2) t mult_div_mod_eq[of 4096 "unat a"] mult_div_mod_eq[of 4096 "unat hi"] mod_less_divisor[of 4096 "unat a"] by linarith
  ultimately have "unat (a - target_offset info) < 2 ^ 52" using assms(6) by simp
  then show ?thesis using leaf_translates[OF assms(1) half_div(1)[OF g assms(2)]] by simp
qed

lemma space_entries:
  assumes "frames_ok (pg_frames s)" "\<not> gb_pages s" "direct_offset s = HYPERVISOR_DIRECT_MAPPING_OFFSET" "inputs_ok mem_map lapic_base p v len"
  shows "\<exists>ok t. create_addr_space sys_mem_info mem_map lapic_base HYPERVISOR_DIRECT_MAPPING_OFFSET p v len s = Inr (ok, t)
    \<and> (ok \<and> pg_ok t \<and> (\<forall>a. is_paging_canonical a \<longrightarrow> ent t a =
           (if in_pages (unat a) (unat lapic_base) (unat lapic_base) then Some (leaf_word lapic_info 0 (upper 12 (unat a)))
            else if map_covers memory_info mem_map a then Some (leaf_word memory_info ((2 ^ 17 - 1) div 2) (upper 12 (unat a)))
            else if in_pages (unat a) (unat v) (unat v + unat len - 1)
              then Some (leaf_word (memory_info\<lparr>target_offset := v - p\<rparr>) ((2 ^ 17 - 1) div 2) (upper 12 (unat a))) else None))
       \<or> \<not> ok \<and> (\<not> phys_memory_fits sys_mem_info \<or> no_frame t))"
proof -
  note P = placed_parts[OF assms(4)]
  let ?s = "s\<lparr>addr_space := 0\<rparr>" and ?hyv = "memory_info\<lparr>target_offset := v - p\<rparr>"
  have z: "root_of ?s = 0" by (simp add: root_of_def read_paddr_from_cr3_def paddr_field_def)
  have s0: "space_ok ?s" "direct_offset ?s = curr_offset lapic_info" "ent ?s a = None" for a
    using assms z by (simp_all add: space_ok_def lapic_info_def ent_def page_entry_def)
  have l: "raw_identity_map_mmio_page ?s lapic_base = directly_map_phys_range lapic_info ?s lapic_base (lapic_base + PAGE_SIZE - 1)"
    by (simp add: raw_identity_map_mmio_page_def lapic_info_def)
  obtain r1 t1 where r1: "raw_identity_map_mmio_page ?s lapic_base = Inr (r1, t1)" "direct_offset t1 = direct_offset ?s"
    and e: "r1 = 0 \<and> space_ok t1 \<and> root_of t1 \<noteq> 0
      \<and> (\<forall>a. is_paging_canonical a \<longrightarrow> ent t1 a = (if ent ?s a \<noteq> None \<or> \<not> in_pages (unat a) (unat lapic_base) (unat lapic_base) then ent ?s a
          else Some (leaf_word lapic_info (0 div 2) (upper 12 (unat a)))))
      \<or> r1 = - 1 \<and> no_frame t1"
    using directly_map_addresses[OF s0(1) infos_ok(1) s0(2) P(1)] unfolding P(2) l by blast
  have e1: "r1 = 0 \<and> space_ok t1 \<and> root_of t1 \<noteq> 0
      \<and> (\<forall>a. is_paging_canonical a \<longrightarrow> ent t1 a = (if in_pages (unat a) (unat lapic_base) (unat lapic_base) then Some (leaf_word lapic_info 0 (upper 12 (unat a))) else None))
      \<or> r1 = - 1 \<and> no_frame t1"
    using e s0(3) by auto
  have mi: "\<lparr>target_offset = HYPERVISOR_DIRECT_MAPPING_OFFSET, curr_offset = HYPERVISOR_DIRECT_MAPPING_OFFSET, ps_flags = PGTABLE_RW, nops_flags = PGTABLE_RW\<rparr> = memory_info"
    by (simp add: memory_info_def)
  note run = create_addr_space_def[of sys_mem_info mem_map lapic_base HYPERVISOR_DIRECT_MAPPING_OFFSET p v len s, unfolded mi Let_def r1(1) andThen_Inr prod.case]
  show ?thesis
  proof (cases "r1 = 0 \<and> phys_memory_fits sys_mem_info")
    case False
    then show ?thesis using e1 unfolding run setup_direct_mapping_from_memmap_def by auto
  next
    case True
    then have t1: "space_ok t1" "root_of t1 \<noteq> 0" "direct_offset t1 = curr_offset memory_info" using e1 r1(2) assms(3) by (simp_all add: memory_info_def)
    have fits: "setup_direct_mapping_from_memmap sys_mem_info memory_info t1 mem_map = raw_setup_direct_mapping_from_memmap memory_info t1 mem_map"
      using True by (simp add: setup_direct_mapping_from_memmap_def)
    obtain r2 t2 where r2: "raw_setup_direct_mapping_from_memmap memory_info t1 mem_map = Inr (r2, t2)" "direct_offset t2 = direct_offset t1"
      and e2: "r2 = 0 \<and> space_ok t2 \<and> root_of t2 \<noteq> 0 \<and> (\<forall>a. is_paging_canonical a \<longrightarrow> ent t2 a = (if ent t1 a \<noteq> None \<or> \<not> map_covers memory_info mem_map a then ent t1 a
          else Some (leaf_word memory_info ((2 ^ 17 - 1) div 2) (upper 12 (unat a))))) \<or> r2 = - 1 \<and> no_frame t2"
    proof -
      have "\<And>e. e \<in> set mem_map \<Longrightarrow> mappable e \<Longrightarrow> placed memory_info (2 ^ 17 - 1) (me_start e) (me_end e)" by (rule P(3))
      from memmap_addresses[OF t1(1) infos_ok(2) t1(3) this _ t1(2)] that show thesis by blast
    qed
    show ?thesis
    proof (cases "r2 = 0")
      case False
      then show ?thesis using e2 True r2(1) unfolding run fits by auto
    next
      case r20: True
      have t2: "space_ok t2" "direct_offset t2 = curr_offset ?hyv" using e2 r20 r2(2) t1(3) by simp_all
      obtain r3 t3 where r3: "directly_map_phys_range ?hyv t2 p (p + len - 1) = Inr (r3, t3)"
        and e3: "r3 = 0 \<and> space_ok t3 \<and> root_of t3 \<noteq> 0 \<and> (\<forall>a. is_paging_canonical a \<longrightarrow> ent t3 a = (if ent t2 a \<noteq> None \<or> \<not> in_pages (unat a) (unat v) (unat v + unat len - 1) then ent t2 a
          else Some (leaf_word ?hyv ((2 ^ 17 - 1) div 2) (upper 12 (unat a))))) \<or> r3 = - 1 \<and> no_frame t3"
        using directly_map_addresses[OF t2(1) P(4) t2(2) P(5)] unfolding P(6) by blast
      have c: "create_addr_space sys_mem_info mem_map lapic_base HYPERVISOR_DIRECT_MAPPING_OFFSET p v len s = Inr (r3 = 0, t3)"
        unfolding run fits using True r2(1) r20 r3 by simp
      show ?thesis
      proof (cases "r3 = 0")
        case False
        then show ?thesis using c e3 by auto
      next
        case r30: True
        have "space_ok t3" using e3 r30 by auto
        moreover have "root_of t3 \<noteq> 0" using e3 r30 by auto
        ultimately have "pg_ok t3" unfolding space_ok_def by blast
        moreover have "ent t3 a = (if in_pages (unat a) (unat lapic_base) (unat lapic_base) then Some (leaf_word lapic_info 0 (upper 12 (unat a)))
            else if map_covers memory_info mem_map a then Some (leaf_word memory_info ((2 ^ 17 - 1) div 2) (upper 12 (unat a)))
            else if in_pages (unat a) (unat v) (unat v + unat len - 1) then Some (leaf_word ?hyv ((2 ^ 17 - 1) div 2) (upper 12 (unat a))) else None)"
          if a: "is_paging_canonical a" for a
        proof -
          have "ent t1 a = (if in_pages (unat a) (unat lapic_base) (unat lapic_base) then Some (leaf_word lapic_info 0 (upper 12 (unat a))) else None)" using e1 True a by simp
          moreover have "ent t2 a = (if ent t1 a \<noteq> None \<or> \<not> map_covers memory_info mem_map a then ent t1 a
              else Some (leaf_word memory_info ((2 ^ 17 - 1) div 2) (upper 12 (unat a))))" using e2 r20 a by simp
          moreover have "ent t3 a = (if ent t2 a \<noteq> None \<or> \<not> in_pages (unat a) (unat v) (unat v + unat len - 1) then ent t2 a
              else Some (leaf_word ?hyv ((2 ^ 17 - 1) div 2) (upper 12 (unat a))))" using e3 r30 a by simp
          ultimately show ?thesis by (simp split: if_splits)
        qed
        ultimately show ?thesis using c r30 by auto
      qed
    qed
  qed
qed

section \<open>Properties\<close>

text \<open>
  C8. The conditions: the boot loader maps physical memory at the direct mapping offset of the hypervisor (the code reads the offset of the boot loader at run time, but uses
  both as if they were equal), 1 GB pages are not used, frame 0 is in use and the allocator has fewer than \<open>2 ^ 40\<close> frames, the local APIC is
  at a page below \<open>2 ^ 47\<close>, the memory to be mapped is in ranges that end below \<open>2 ^ 47 - 1\<close>, and the image of the hypervisor is not empty, linked in the upper half
  above its load address at the same offset in a page, and loaded below \<open>2 ^ 52 - 4096\<close> (\<open>inputs_ok\<close>). Then building the address space of the hypervisor returns.
  If it succeeds, the processor translates the page of the local APIC to itself, every page of usable, reclaimable or hypervisor memory at the direct mapping offset to that
  memory, and the pages of the hypervisor image to where it was loaded; no other canonical address has a translation. It fails only if the memory does not fit or the
  allocator refuses a frame for a paging structure.
\<close>

theorem create_addr_space_exact:
  assumes "frames_ok (pg_frames s)" "\<not> gb_pages s" "direct_offset s = HYPERVISOR_DIRECT_MAPPING_OFFSET" "inputs_ok mem_map lapic_base p v len"
  shows "\<exists>ok t. create_addr_space sys_mem_info mem_map lapic_base HYPERVISOR_DIRECT_MAPPING_OFFSET p v len s = Inr (ok, t)
    \<and> (if ok then pg_ok t \<and> (\<forall>a. is_paging_canonical a \<longrightarrow> translate t a = space_target mem_map lapic_base p v len a)
       else \<not> phys_memory_fits sys_mem_info \<or> no_frame t)"
proof -
  let ?hyv = "memory_info\<lparr>target_offset := v - p\<rparr>"
  note P = placed_parts[OF assms(4)]
  obtain ok t where run: "create_addr_space sys_mem_info mem_map lapic_base HYPERVISOR_DIRECT_MAPPING_OFFSET p v len s = Inr (ok, t)"
    and res: "ok \<and> pg_ok t \<and> (\<forall>a. is_paging_canonical a \<longrightarrow> ent t a =
           (if in_pages (unat a) (unat lapic_base) (unat lapic_base) then Some (leaf_word lapic_info 0 (upper 12 (unat a)))
            else if map_covers memory_info mem_map a then Some (leaf_word memory_info ((2 ^ 17 - 1) div 2) (upper 12 (unat a)))
            else if in_pages (unat a) (unat v) (unat v + unat len - 1) then Some (leaf_word ?hyv ((2 ^ 17 - 1) div 2) (upper 12 (unat a))) else None))
       \<or> \<not> ok \<and> (\<not> phys_memory_fits sys_mem_info \<or> no_frame t)" using space_entries[OF assms] by blast
  have "translate t a = space_target mem_map lapic_base p v len a" if ok: "ok" "is_paging_canonical a" for a
  proof -
    have e: "ent t a = (if in_pages (unat a) (unat lapic_base) (unat lapic_base) then Some (leaf_word lapic_info 0 (upper 12 (unat a)))
            else if map_covers memory_info mem_map a then Some (leaf_word memory_info ((2 ^ 17 - 1) div 2) (upper 12 (unat a)))
            else if in_pages (unat a) (unat v) (unat v + unat len - 1) then Some (leaf_word ?hyv ((2 ^ 17 - 1) div 2) (upper 12 (unat a))) else None)"
      and tr: "translate t a = map_option (\<lambda>e. push_bit 12 (paddr_field e) OR take_bit 12 a) (ent t a)" using res ok translate_entry[of t a] by (auto simp: ent_def)
    note cov = memory_covers[OF ok(2) assms(4)]
    have lap: "push_bit 12 (paddr_field (leaf_word lapic_info (0 div 2) (upper 12 (unat a)))) OR take_bit 12 a = a" if "in_pages (unat a) (unat lapic_base) (unat lapic_base)"
      using page_leaf_target[OF infos_ok(1) _ P(1) ok(2)] that P(2) lapic_end[OF assms(4)] by (simp add: lapic_info_def)
    have mem: "push_bit 12 (paddr_field (leaf_word memory_info ((2 ^ 17 - 1) div 2) (upper 12 (unat a)))) OR take_bit 12 a = virt_to_phys a" if "map_covers memory_info mem_map a"
    proof -
      obtain m where m: "m \<in> set mem_map" "mappable m" "touched memory_info (me_start m) (me_end m) a" using \<open>map_covers memory_info mem_map a\<close> unfolding map_covers_def by blast
      have "unat (me_end m) < 2 ^ 52 - 4096" using assms(4) m(1,2) unfolding inputs_ok_def by fastforce
      then show ?thesis using page_leaf_target[OF infos_ok(2) _ P(3)[OF m(1,2)] ok(2) m(3)] by (simp add: memory_info_def virt_to_phys_def virt_to_phys_off_def)
    qed
    have hyv: "push_bit 12 (paddr_field (leaf_word ?hyv ((2 ^ 17 - 1) div 2) (upper 12 (unat a)))) OR take_bit 12 a = a - (v - p)" if "in_pages (unat a) (unat v) (unat v + unat len - 1)"
      using page_leaf_target[OF P(4) _ P(5) ok(2)] that P(6) hyv_end[OF assms(4)] by simp
    show ?thesis unfolding tr e space_target_def cov[symmetric] using lap mem hyv by simp
  qed
  then show ?thesis using run res by auto
qed

section \<open>Enough frames\<close>

text \<open>
  Every mapping of a range within one page needs at most four frames. An allocation lowers the test value of the counters by two (both
  counters change), so \<open>n\<close> allocations need a value of \<open>2 * n\<close>.
\<close>

definition plenty :: "nat \<Rightarrow> pf_bitmap_allocator \<Rightarrow> bool" where
  "plenty n a \<longleftrightarrow> frames_ok a \<and> n \<le> card {f. f < frame_count a \<and> \<not> frame_used (bitmap a) f} \<and> 2 * n \<le> unat (free_frames a)"

lemma plenty_less: "plenty n a \<Longrightarrow> m \<le> n \<Longrightarrow> plenty m a"
  by (simp add: plenty_def)

lemma plenty_page:
  assumes "plenty (Suc n) a"
  shows "\<exists>p a'. get_page_raw a = Inr (Some p, a') \<and> plenty n a'"
proof -
  let ?F = "\<lambda>a. {f. f < frame_count a \<and> \<not> frame_used (bitmap a) f}"
  have a: "alloc_ok a" "frames_ok a" "Suc n \<le> card (?F a)" "2 * Suc n \<le> unat (free_frames a)" using assms by (simp_all add: plenty_def frames_ok_def)
  obtain g where "g \<in> ?F a" using a(3) by (metis card.empty equals0I not_less_eq_eq zero_le)
  then have "area_free a (unat (1 :: u64)) g" by (simp add: area_free_def)
  moreover have "1 \<le> free_frames a" using a(4) by (simp add: word_le_nat_alt)
  ultimately obtain f a' where f: "get_pages_raw a 1 = Inr (Some (pfn_to_phys (of_nat f)), a')" "area_free a (unat (1 :: u64)) f" "allocates a 1 f a'"
    using get_pages_raw_cases[OF a(1), of 1] by (metis leD one_neq_zero)
  have get: "get_page_raw a = Inr (Some (pfn_to_phys (of_nat f)), a')" using f(1) by (simp add: get_page_raw_def)
  have ok: "frames_ok a'" using page_cases[OF a(2)] get by (metis Inr_inject Pair_inject option.distinct(1))
  have fc: "frame_count a' = frame_count a" using f(3) by (simp add: allocates_def frame_count_def)
  have "?F a' = ?F a - {f}" using f(3) unfolding fc by (auto simp: allocates_def)
  moreover have "f \<in> ?F a" using f(2) by (simp add: area_free_def)
  ultimately have "n \<le> card (?F a')" using a(3) by simp
  moreover have "free_frames a' = free_frames a - 2" using f(3) by (simp add: allocates_def free_frames_def)
  then have "2 * n \<le> unat (free_frames a')" using a(4) by (simp add: unat_sub word_le_nat_alt)
  ultimately show ?thesis using get ok by (auto simp: plenty_def)
qed

text \<open>An operation that takes at most \<open>n\<close> frames, and succeeds if there are as many.\<close>

definition needs :: "nat \<Rightarrow> (pg_state \<Rightarrow> (int \<times> pg_state) run) \<Rightarrow> bool" where
  "needs n f \<longleftrightarrow> (\<forall>k s. plenty (n + k) (pg_frames s) \<longrightarrow> \<not> gb_pages s \<longrightarrow> (\<exists>t. f s = Inr (0, t) \<and> plenty k (pg_frames t) \<and> \<not> gb_pages t))"

lemma needsD:
  assumes "needs n f" "plenty (n + k) (pg_frames s)" "\<not> gb_pages s"
  shows "\<exists>t. f s = Inr (0, t) \<and> plenty k (pg_frames t) \<and> \<not> gb_pages t"
  using assms by (simp add: needs_def)

lemma needs_entry:
  "needs 1 (\<lambda>s. pg_init_pml4_entry s info t i)" "needs 1 (\<lambda>s. pg_init_pdpte_nops_entry s info t i)" "needs 1 (\<lambda>s. pg_init_pdt_nops_entry s info t i)"
  "needs 1 (\<lambda>s. init_cr3 s info)"
  unfolding needs_def by (auto dest!: plenty_page simp: pg_init_pml4_entry_def pg_init_pdpte_nops_entry_def pg_init_pdt_nops_entry_def init_cr3_def
      generic_init_nops_entry_raw_def put_entry_def zero_pgtable_struct_def Let_def)

lemma needs_via_structure:
  assumes "\<And>t i. needs 1 (\<lambda>s. init s info t i)" "\<And>q. needs n (\<lambda>s. map_range q s (virt_to_phys_off lo (target_offset info)) (virt_to_phys_off hi (target_offset info)))"
  shows "needs (Suc n) (\<lambda>s. via_structure info init map_range (t s) i s lo hi)"
  unfolding needs_def
proof (intro allI impI)
  fix k and s :: pg_state assume s: "plenty (Suc n + k) (pg_frames s)" "\<not> gb_pages s"
  have "\<exists>u. (if \<not> pgtable_entry_present (pg_tables s (t s) i) then init s info (t s) i else Inr (0, s)) = Inr (0, u) \<and> plenty (n + k) (pg_frames u) \<and> \<not> gb_pages u"
    using needsD[OF assms(1), of "n + k" s "t s" i] plenty_less[OF s(1), of "n + k"] s by simp
  then obtain u where u: "(if \<not> pgtable_entry_present (pg_tables s (t s) i) then init s info (t s) i else Inr (0, s)) = Inr (0, u)"
    "plenty (n + k) (pg_frames u)" "\<not> gb_pages u" by blast
  show "\<exists>v. via_structure info init map_range (t s) i s lo hi = Inr (0, v) \<and> plenty k (pg_frames v) \<and> \<not> gb_pages v"
    using needsD[OF assms(2) u(2,3), of "read_paddr_from_nops_entry (pg_tables u (t s) i)"] unfolding via_structure_def u(1) by simp
qed

text \<open>A range within one page is one part at every level.\<close>

definition one_page :: "virt_addr \<Rightarrow> virt_addr \<Rightarrow> bool" where
  "one_page lo hi \<longleftrightarrow> lo \<le> hi \<and> hi < hi + 1 \<and> (\<forall>b \<in> {PML4_ENTRY_RANGE_BYTES, PDPT_ENTRY_RANGE_BYTES, PDT_ENTRY_RANGE_BYTES, PT_ENTRY_RANGE_BYTES}.
     get_x_entry_block_end lo hi b = hi)"

lemma single_part:
  assumes "lo \<le> hi" "hi < hi + 1" "get_x_entry_block_end lo hi b = hi" "2 \<le> fuel" "needs n (\<lambda>s. part s lo hi)"
  shows "needs n (\<lambda>s. map_in_space fuel b info part s (virt_to_phys_off lo (target_offset info)) (virt_to_phys_off hi (target_offset info)))"
  unfolding needs_def
proof (intro allI impI)
  fix k and s :: pg_state assume "plenty (n + k) (pg_frames s)" "\<not> gb_pages s"
  from needsD[OF assms(5) this] obtain t where t: "part s lo hi = Inr (0, t)" "plenty k (pg_frames t)" "\<not> gb_pages t" by blast
  obtain m where n: "fuel = Suc (Suc m)" using assms(4) by (metis add_2_eq_Suc le_Suc_ex)
  have same: "phys_to_virt_off (virt_to_phys_off x off) off = x" for x off by (simp add: phys_to_virt_off_def virt_to_phys_off_def)
  show "\<exists>t. map_in_space fuel b info part s (virt_to_phys_off lo (target_offset info)) (virt_to_phys_off hi (target_offset info)) = Inr (0, t)
      \<and> plenty k (pg_frames t) \<and> \<not> gb_pages t"
    unfolding map_in_space_def same n using assms(1,3) t assms(2)[unfolded not_le[symmetric]] by (simp only: range_loop.simps Let_def if_True if_False simp_thms andThen_Inr prod.case) auto
qed

lemma needs_page:
  assumes "one_page lo hi"
  shows "needs 3 (\<lambda>s. pml4_map_range info q s (virt_to_phys_off lo (target_offset info)) (virt_to_phys_off hi (target_offset info)))"
proof -
  let ?lo = "virt_to_phys_off lo (target_offset info)" and ?hi = "virt_to_phys_off hi (target_offset info)"
  have fuel: "2 \<le> TABLE_FUEL" "2 \<le> PML4_FUEL" by (simp_all add: TABLE_FUEL_def PML4_FUEL_def)
  have o: "lo \<le> hi" "hi < hi + 1" and e: "get_x_entry_block_end lo hi PML4_ENTRY_RANGE_BYTES = hi" "get_x_entry_block_end lo hi PDPT_ENTRY_RANGE_BYTES = hi"
    "get_x_entry_block_end lo hi PDT_ENTRY_RANGE_BYTES = hi" "get_x_entry_block_end lo hi PT_ENTRY_RANGE_BYTES = hi" using assms by (simp_all add: one_page_def)
  have "needs 0 (\<lambda>s. pt_part info q s lo hi)" for q by (simp add: needs_def pt_part_def put_entry_def Let_def)
  then have "needs 0 (\<lambda>s. pt_map_range info q s ?lo ?hi)" for q unfolding pt_map_range_def by (rule single_part[OF o e(4) fuel(1)])
  from needs_via_structure[where init = pg_init_pdt_nops_entry and map_range = "pt_map_range info" and info = info and lo = lo and hi = hi, OF needs_entry(3) this] have pdt: "needs 1 (\<lambda>s. via_structure info pg_init_pdt_nops_entry (pt_map_range info) (t s) i s lo hi)" for t i by simp
  have "needs 1 (\<lambda>s. pdt_part info q s lo hi)" for q unfolding needs_def
  proof (intro allI impI)
    fix k and s :: pg_state assume s: "plenty (1 + k) (pg_frames s)" "\<not> gb_pages s"
    have "plenty k (pg_frames s)" using plenty_less[OF s(1)] by simp
    then show "\<exists>t. pdt_part info q s lo hi = Inr (0, t) \<and> plenty k (pg_frames t) \<and> \<not> gb_pages t"
      using needsD[OF pdt s, of "\<lambda>s. get_pgtable s info q" "pdt_entry_index lo"] s(2) by (simp add: pdt_part_def Let_def)
  qed
  then have "needs 1 (\<lambda>s. pdt_map_range info q s ?lo ?hi)" for q unfolding pdt_map_range_def by (rule single_part[OF o e(3) fuel(1)])
  from needs_via_structure[where init = pg_init_pdpte_nops_entry and map_range = "pdt_map_range info" and info = info and lo = lo and hi = hi, OF needs_entry(2) this] have pdpt: "needs 2 (\<lambda>s. via_structure info pg_init_pdpte_nops_entry (pdt_map_range info) (t s) i s lo hi)" for t i
    by (simp add: numeral_2_eq_2)
  have "needs 2 (\<lambda>s. pdpt_part info q s lo hi)" for q
    using pdpt[of "\<lambda>s. get_pgtable s info q" "pdpt_entry_index lo"] by (simp add: needs_def pdpt_part_def Let_def)
  then have "needs 2 (\<lambda>s. pdpt_map_range info q s ?lo ?hi)" for q unfolding pdpt_map_range_def by (rule single_part[OF o e(2) fuel(1)])
  from needs_via_structure[where init = pg_init_pml4_entry and map_range = "pdpt_map_range info" and info = info and lo = lo and hi = hi, OF needs_entry(1) this] have "needs 3 (\<lambda>s. via_structure info pg_init_pml4_entry (pdpt_map_range info) (t s) i s lo hi)" for t i
    by (simp add: numeral_3_eq_3 numeral_2_eq_2)
  then have "needs 3 (\<lambda>s. pml4_part info q s lo hi)" for q unfolding pml4_part_def Let_def by simp
  then show ?thesis unfolding pml4_map_range_def by (rule single_part[OF o e(1) fuel(2)])
qed

lemma needs_range:
  assumes "one_page (PAGE_ALIGN p + target_offset info) (e + target_offset info)"
  shows "needs 4 (\<lambda>s. directly_map_phys_range info s p e)"
  unfolding needs_def
proof (intro allI impI)
  fix k and s :: pg_state assume s: "plenty (4 + k) (pg_frames s)" "\<not> gb_pages s"
  have "\<exists>u. (if read_paddr_from_cr3 (addr_space s) = 0 then init_cr3 s info else Inr (0, s)) = Inr (0, u) \<and> plenty (3 + k) (pg_frames u) \<and> \<not> gb_pages u"
    using needsD[OF needs_entry(4), of "3 + k" s info] plenty_less[OF s(1), of "3 + k"] s by (simp add: add.commute add.left_commute)
  then obtain u where u: "(if read_paddr_from_cr3 (addr_space s) = 0 then init_cr3 s info else Inr (0, s)) = Inr (0, u)"
    "plenty (3 + k) (pg_frames u)" "\<not> gb_pages u" by blast
  have "\<exists>t. pml4_map_range info (read_paddr_from_cr3 (addr_space u)) u (PAGE_ALIGN p) e = Inr (0, t) \<and> plenty k (pg_frames t) \<and> \<not> gb_pages t"
    using needsD[OF needs_page[OF assms] u(2,3), of info "read_paddr_from_cr3 (addr_space u)"] by (simp add: virt_to_phys_off_def)
  then show "\<exists>t. directly_map_phys_range info s p e = Inr (0, t) \<and> plenty k (pg_frames t) \<and> \<not> gb_pages t"
    unfolding directly_map_phys_range_def Let_def u(1) by simp
qed

section \<open>An example\<close>

text \<open>One page of memory, the local APIC at its usual place and one page of hypervisor code.\<close>

definition example_frames :: pf_bitmap_allocator where
  "example_frames = small_allocator\<lparr>bitmap := 0x80 # replicate 7 0, allocatable_frames := 63\<rparr>"

definition example_space :: pg_state where
  "example_space = \<lparr>pg_tables = (\<lambda>_ _. 0), pg_frames = example_frames, addr_space = 0, direct_offset = HYPERVISOR_DIRECT_MAPPING_OFFSET, gb_pages = False\<rparr>"

definition example_memory :: "memmap_entry list" where
  "example_memory = [\<lparr>me_start = 0x1000, me_end = 0x1FFF, me_length = 0x1000, me_type = MEMMAP_USABLE\<rparr>]"

definition example_sizes :: system_memory_info where
  "example_sizes = \<lparr>total_size = 0x1000, early_usable_memory = 0x1000, total_usable_memory = 0x1000, lowest_mapped_addr = 0x1000, highest_mapped_addr = 0x1FFF,
     largest_mapped_pfn = 1, nr_of_pfns = 2\<rparr>"

lemma example_inputs: "inputs_ok example_memory 0xFEE00000 0x100000 0xFFFFFFFF80000000 0x1000"
  by (simp add: inputs_ok_def example_memory_def)

lemma example_plenty: "plenty 12 (pg_frames example_space)"
proof -
  have a: "frame_count example_frames = 64" "frames_ok example_frames" "free_frames example_frames = 63"
    by (simp_all add: frames_ok_def example_frames_def small_allocator_def alloc_ok_def bitmap_size_def frame_count_def frame_used_def free_frames_def)
  have "f \<in> {f. f < frame_count example_frames \<and> \<not> frame_used (bitmap example_frames) f}" if "f \<in> {8..<20}" for f
  proof -
    have "f div 8 = 1 \<or> f div 8 = 2" using that by auto
    then show ?thesis using that a(1) by (auto simp: frame_used_def example_frames_def)
  qed
  then have "card {8..<20 :: nat} \<le> card {f. f < frame_count example_frames \<and> \<not> frame_used (bitmap example_frames) f}"
    by (intro card_mono) auto
  then show ?thesis using a by (simp add: plenty_def example_space_def)
qed

text \<open>All frames that are needed are there, so the address space is built.\<close>

lemma example_built:
  "\<exists>t. create_addr_space example_sizes example_memory 0xFEE00000 HYPERVISOR_DIRECT_MAPPING_OFFSET 0x100000 0xFFFFFFFF80000000 0x1000 example_space = Inr (True, t)"
proof -
  let ?s = "example_space\<lparr>addr_space := 0\<rparr>" and ?hyv = "memory_info\<lparr>target_offset := 0xFFFFFFFF80000000 - 0x100000\<rparr>"
  have pg: "one_page (PAGE_ALIGN 0xFEE00000 + 0) (0xFEE00FFF + 0)" "one_page (PAGE_ALIGN 0x1000 + HYPERVISOR_DIRECT_MAPPING_OFFSET) (0x1FFF + HYPERVISOR_DIRECT_MAPPING_OFFSET)"
    "one_page (PAGE_ALIGN 0x100000 + (0xFFFFFFFF80000000 - 0x100000)) (0x100FFF + (0xFFFFFFFF80000000 - 0x100000))" by code_simp+
  have fits: "phys_memory_fits example_sizes" by code_simp
  have s: "plenty (4 + 8) (pg_frames ?s)" "\<not> gb_pages ?s" using example_plenty by (simp_all add: example_space_def)
  have off: "target_offset lapic_info = 0" "target_offset memory_info = HYPERVISOR_DIRECT_MAPPING_OFFSET" by (simp_all add: lapic_info_def memory_info_def)
  obtain t1 where t1: "directly_map_phys_range lapic_info ?s 0xFEE00000 0xFEE00FFF = Inr (0, t1)" "plenty (4 + 4) (pg_frames t1)" "\<not> gb_pages t1"
    using needsD[OF needs_range[of "0xFEE00000" lapic_info "0xFEE00FFF"] s] pg(1) off by auto
  obtain t2 where t2: "directly_map_phys_range memory_info t1 0x1000 0x1FFF = Inr (0, t2)" "plenty (4 + 0) (pg_frames t2)" "\<not> gb_pages t2"
    using needsD[OF needs_range[of "0x1000" memory_info "0x1FFF"] t1(2,3)] pg(2) off by auto
  obtain t3 where t3: "directly_map_phys_range ?hyv t2 0x100000 0x100FFF = Inr (0, t3)"
    using needsD[OF needs_range[of "0x100000" ?hyv "0x100FFF"] t2(2,3)] pg(3) by auto
  have r1: "raw_identity_map_mmio_page ?s 0xFEE00000 = Inr (0, t1)" using t1(1) by (simp add: raw_identity_map_mmio_page_def lapic_info_def PAGE_SIZE_def)
  have r2: "setup_direct_mapping_from_memmap example_sizes memory_info t1 example_memory = Inr (0, t2)"
    using fits t2(1) by (simp add: setup_direct_mapping_from_memmap_def example_memory_def)
  show ?thesis unfolding create_addr_space_def Let_def memory_info_def[symmetric] r1 andThen_Inr prod.case
    using r2 t3 by simp
qed

theorem create_addr_space_exact_witness:
  "\<exists>t. create_addr_space example_sizes example_memory 0xFEE00000 HYPERVISOR_DIRECT_MAPPING_OFFSET 0x100000 0xFFFFFFFF80000000 0x1000 example_space = Inr (True, t)
     \<and> translate t 0xFEE00010 = Some 0xFEE00010 \<and> translate t 0xFFFF800000001234 = Some 0x1234 \<and> translate t 0xFFFFFFFF80000008 = Some 0x100008
     \<and> translate t 0x5000 = None"
proof -
  have f: "frames_ok (pg_frames example_space)" "\<not> gb_pages example_space" "direct_offset example_space = HYPERVISOR_DIRECT_MAPPING_OFFSET"
    by (simp_all add: frames_ok_def example_space_def example_frames_def small_allocator_def alloc_ok_def bitmap_size_def frame_count_def frame_used_def)
  have c: "is_paging_canonical 0xFEE00010" "is_paging_canonical 0xFFFF800000001234" "is_paging_canonical 0xFFFFFFFF80000008" "is_paging_canonical 0x5000" by code_simp+
  have g: "space_target example_memory 0xFEE00000 0x100000 0xFFFFFFFF80000000 0x1000 0xFEE00010 = Some 0xFEE00010"
    "space_target example_memory 0xFEE00000 0x100000 0xFFFFFFFF80000000 0x1000 0xFFFF800000001234 = Some 0x1234"
    "space_target example_memory 0xFEE00000 0x100000 0xFFFFFFFF80000000 0x1000 0xFFFFFFFF80000008 = Some 0x100008"
    "space_target example_memory 0xFEE00000 0x100000 0xFFFFFFFF80000000 0x1000 0x5000 = None"
    by (simp_all add: space_target_def in_pages_def example_memory_def mappable_def virt_to_phys_def virt_to_phys_off_def HYPERVISOR_DIRECT_MAPPING_OFFSET_def)
  obtain t where t: "create_addr_space example_sizes example_memory 0xFEE00000 HYPERVISOR_DIRECT_MAPPING_OFFSET 0x100000 0xFFFFFFFF80000000 0x1000 example_space = Inr (True, t)"
    using example_built by blast
  then have tr: "\<And>a. is_paging_canonical a \<Longrightarrow> translate t a = space_target example_memory 0xFEE00000 0x100000 0xFFFFFFFF80000000 0x1000 a"
    using create_addr_space_exact[OF f example_inputs, of example_sizes] by auto
  show ?thesis using t tr[OF c(1)] tr[OF c(2)] tr[OF c(3)] tr[OF c(4)] g by metis
qed

end
