(* ===== verification/Spec2Isabelle.thy ===== *)
theory Spec2Isabelle
  imports HyvPrelude Str_Lib Printf Radix_Tree Mem_File Vector_Lib Vm_Config Phys_Mm Pf_Alloc Vpic Timer_Heap
    List_Lib Cpu_Topology Sched Spinlock Ept Ept_Tree Vm_Memory Vmx_Policy
    Frames Halloc Halloc_Heap Halloc_Api Byte_Mem Descriptors Linux_Loader Vmcs Vmx_Vcpu
    Guest_Regs Vm_Boot Msr_Bitmap Vm_Exits Direct_Map Addr_Space
begin

text \<open>
  \<^bold>\<open>HyveMind\<close> is a type-1 hypervisor for x86-64 processors with VMX. The boot loader starts it with a memory map, the list of processors and
  modules: a configuration file that describes virtual machines, and the kernels and initial file systems they boot. The hypervisor takes over
  the machine (descriptor tables, page frames, heap, processors, timers, VMX), parses the configuration, builds each virtual machine (guest memory,
  nested page tables, virtual processors with their control structures, a virtual interrupt controller), loads Linux into it and runs the virtual
  processors as tasks of a scheduler. Paths below are relative to \<^verbatim>\<open>src/hypervisor/src\<close>.

  \<^bold>\<open>Conventions.\<close> C integers are words of their width, so that arithmetic wraps as in the code. A function that may halt, loop or leave the defined
  behaviour of C returns a value of type \<open>'a run\<close> (\<open>HyvPrelude\<close>), whose left values name the way in which it does not return: \<open>Die\<close>, \<open>OutOfBounds\<close>,
  \<open>NullDeref\<close>, \<open>Undefined\<close>, \<open>Spins\<close>, \<open>Fault\<close>. A section under a lock is one step. Error codes are kept as integers or options. Memory is a function from addresses
  to bytes (\<open>Str_Lib\<close>, \<open>Byte_Mem\<close>) or, for the heap allocator, to words. What the code reads from the processor (model specific registers, \<^verbatim>\<open>cpuid\<close>, the
  time stamp counter, whether a VMX instruction is refused) and the outcomes of allocations that a component only tests are arguments. Error messages and
  other console output are left out except in \<open>Printf\<close>.

  \<^bold>\<open>Foundations.\<close>
  \<^item> \<open>HyvPrelude\<close>: integer types, outcomes, the macros of \<^verbatim>\<open>include/hyvstdlib.h\<close> and \<^verbatim>\<open>include/types.h\<close>, address arithmetic of \<^verbatim>\<open>asm/paging.h\<close>, shared lemmas.
  \<^item> \<open>Str_Lib\<close> (\<^verbatim>\<open>string.c\<close>): memory and string functions; \<^verbatim>\<open>memmove\<close> copies in spite of overlap, \<^verbatim>\<open>strtoul\<close> returns the value of a decimal numeral.
  \<^item> \<open>Printf\<close> (\<^verbatim>\<open>printf.c\<close>): conversions and the format loop; decimal conversion and \<^verbatim>\<open>strtoul\<close> are inverse.
  \<^item> \<open>Radix_Tree\<close>, \<open>Vector_Lib\<close>, \<open>List_Lib\<close>, \<open>Mem_File\<close> (\<^verbatim>\<open>lib/\<close>, \<^verbatim>\<open>include/lib/\<close>): the containers, each with an abstract view (finite map, list, list in a heap of nodes, tokens of a
    text) that its operations refine.
  \<^item> \<open>Spinlock\<close> (\<^verbatim>\<open>arch/x64/spinlock.c\<close>): mutual exclusion in every interleaving of the processors.

  \<^bold>\<open>Memory.\<close>
  \<^item> \<open>Phys_Mm\<close>, \<open>Pf_Alloc\<close>, \<open>Frames\<close> (\<^verbatim>\<open>phys_mm.c\<close>, \<^verbatim>\<open>pf_alloc.c\<close>): the memory map and the page frame allocator. A request finds a run of free frames exactly if there is one, and
    marks exactly this run as used; runs in use are disjoint; freeing restores the state. The locale \<open>frame_allocator\<close> is what the users of frames rely on.
  \<^item> \<open>Halloc\<close>, \<open>Halloc_Heap\<close>, \<open>Halloc_Api\<close> (\<^verbatim>\<open>halloc.c\<close>): the heap. Blocks are large enough, apart from each other and from all other frames; the locale \<open>object_heap\<close> is
    its contract. A failed request leaves the lock held, so that the next one does not return.
  \<^item> \<open>Ept\<close>, \<open>Ept_Tree\<close>, \<open>Vm_Memory\<close> (\<^verbatim>\<open>arch/x64/vmx/ept.c\<close>, \<^verbatim>\<open>arch/x64/vm/vm.c\<close>): nested page tables. The locale \<open>table_level\<close> lifts the contract of a level to the next one and is
    interpreted for three levels; the translation of the processor (\<open>walk\<close>) then gives exactly the memory of the VM.
  \<^item> \<open>Direct_Map\<close>, \<open>Addr_Space\<close> (\<^verbatim>\<open>arch/x64/direct_mapping.c\<close>, \<^verbatim>\<open>arch/x64/pgtables.c\<close>, \<^verbatim>\<open>arch/x64/setup.c\<close>): the page tables of the hypervisor. The locales \<open>range_part\<close> and \<open>upper_level\<close> carry the
    contract of mapping a range from one level to the next, for all four levels; the translation of the processor (\<open>translate\<close>) is then exactly the intended address space.
  \<^item> \<open>Byte_Mem\<close>, \<open>Descriptors\<close> (\<^verbatim>\<open>arch/x64/segmentation.c\<close>, \<^verbatim>\<open>arch/x64/gdt_idt.c\<close>): packed structures in byte memory; tables and gates as the processor reads them.

  \<^bold>\<open>Processors and time.\<close>
  \<^item> \<open>Cpu_Topology\<close> (\<^verbatim>\<open>arch/x64/vmm.c\<close>, \<^verbatim>\<open>arch/x64/setup.c\<close>, \<^verbatim>\<open>include/cpu_topology.h\<close>): the numbering of processors is a bijection on the registered ones.
  \<^item> \<open>Sched\<close> (\<^verbatim>\<open>sched.c\<close>): queues of tasks on the lists of \<open>List_Lib\<close>; every queued task is served.
  \<^item> \<open>Timer_Heap\<close> (\<^verbatim>\<open>timer.c\<close>): the timer queue refines a multiset with minimum (locale \<open>deadline_queue\<close>); due timers fire in order.

  \<^bold>\<open>Virtual machines.\<close>
  \<^item> \<open>Vm_Config\<close> (\<^verbatim>\<open>vm_config.c\<close>): parsing the configuration, on \<open>Mem_File\<close>, \<open>Radix_Tree\<close> and \<open>Vector_Lib\<close>: it terminates, reads back printed configurations, and does not give a serial device to two machines.
  \<^item> \<open>Vmx_Policy\<close> (\<^verbatim>\<open>arch/x64/vmx/policy.c\<close>): the control words, against the settings that the capability registers allow (locale \<open>control_word\<close>, interpreted for four words), and the dependencies between controls that are
    documented for VM entry, which the code does not validate.
  \<^item> \<open>Vmcs\<close>, \<open>Vmx_Vcpu\<close> (\<^verbatim>\<open>vmx/vmcs.h\<close>, \<^verbatim>\<open>vmx/vmx_ops.h\<close>, \<^verbatim>\<open>arch/x64/vmx/vmx.c\<close>): field encodings, VMX instructions, and the binding of virtual processors to processors as a step
    relation \<open>vmx_step\<close> with the invariant \<open>vmx_ok\<close>.
  \<^item> \<open>Guest_Regs\<close>, \<open>Vm_Boot\<close>, \<open>Linux_Loader\<close> (\<^verbatim>\<open>arch/x64/vcpu.c\<close>, \<^verbatim>\<open>arch/x64/vm/vm.c\<close>, \<^verbatim>\<open>arch/x64/loader/linux_loader.c\<close>): register states, what a control structure holds after they are set (\<open>registers_held\<close>), the guest image, and
    that both fit together for a booting kernel.
  \<^item> \<open>Msr_Bitmap\<close>, \<open>Vm_Exits\<close>, \<open>Vpic\<close> (\<^verbatim>\<open>arch/x64/vmx/vmx.c\<close>, \<^verbatim>\<open>arch/x64/vmx/x86_emulate.c\<close>, \<^verbatim>\<open>arch/x64/vm/vpic.c\<close>): which accesses leave the guest, the exit handler with the emulated instructions and
    injected events, the entry helpers, and the virtual interrupt controller with the invariant of its reachable states.

  \<^bold>\<open>Fuel and bounds.\<close> Loops that are not structural have a measure where the code has one. The recursions of \<open>Radix_Tree\<close> and the parser get fuel; each step consumes a character, and theorems
  show that the length of the text is enough (\<open>parse_terminates\<close>, \<open>seek_token_terminates\<close>). \<open>TABLE_FUEL\<close> of \<open>Ept\<close> is one more than the 512 entries of a table, and
  \<open>PML4_FUEL\<close> of \<open>Direct_Map\<close> one more than the blocks of 512 GB in 64-bit addresses. The page frame
  allocator assumes fewer than \<open>2 ^ 35\<close> frames where addresses of frames must not wrap, that is, less than 128 TB of memory.

  \<^bold>\<open>Not modelled.\<close> The device drivers and the programming of interrupt controllers and timers (port and memory-mapped I/O), the assembly entry code, the boot protocol
  declarations, the instruction wrappers, the constant host part of a control structure, and the functions that only call the modelled operations in order to create a VM. The repository does not contain port I/O emulation, the selection of the next external interrupt of
  a virtual processor, and the emulation of \<^verbatim>\<open>wrmsr\<close> and of APIC registers: they are parameters of \<open>Vm_Exits\<close>.
\<close>

end
